(* ===== verification/Prelude.thy ===== *)
theory Prelude
  imports Main "HOL-Library.Word" "HOL-Library.Char_ord" "HOL-Library.List_Lexorder"
    "HOL-Library.Sublist"
begin

text \<open>
  Shared vocabulary of the development: machine bytes and integers, the values that stand for
  undefined behaviour of the C++ code, raw memory, and \<open>std::map\<close>.
  Everything the components have in common is here, so that their own theories only hold
  what their source files hold.
\<close>

unbundle bit_operations_syntax

named_theorems crash_simps \<open>rules that run a computation of type result\<close>
named_theorems mem_simps \<open>rules about writes to raw memory\<close>


section \<open>Machine types\<close>

type_synonym uchar = "8 word"
type_synonym uint = "32 word"
type_synonym bytes = "uchar list"

lemma unat_uchar_less [simp]: "unat (b :: uchar) < 256"
proof -
  have "(unsigned b :: nat) < 2 ^ LENGTH(8)" by (rule unsigned_less)
  then show ?thesis by simp
qed

text \<open>The bytes of a \<open>std::string\<close>.\<close>

definition str_bytes :: "string \<Rightarrow> bytes" where
  "str_bytes s = map of_char s"

lemma length_str_bytes [simp]: "length (str_bytes s) = length s"
  by (simp add: str_bytes_def)

lemma str_bytes_append [simp]: "str_bytes (s @ t) = str_bytes s @ str_bytes t"
  by (simp add: str_bytes_def)

lemma str_bytes_Nil [simp]: "str_bytes [] = []"
  by (simp add: str_bytes_def)

lemma str_bytes_eq_Nil [simp]: "str_bytes s = [] \<longleftrightarrow> s = []"
  by (simp add: str_bytes_def)

lemma unat_of_char: "unat (of_char c :: uchar) = of_char c"
proof -
  have "(of_char c :: uchar) = of_nat (of_char c)" by (simp only: of_nat_of_char)
  then show ?thesis by (simp add: unat_of_nat del: of_nat_of_char)
qed

lemma of_char_byte_inject: "(of_char a :: uchar) = of_char b \<longleftrightarrow> a = b"
  by (metis unat_of_char of_char_eq_iff)

lemma str_bytes_inject [simp]: "str_bytes s = str_bytes t \<longleftrightarrow> s = t"
proof -
  have "inj (of_char :: char \<Rightarrow> uchar)"
    by (rule injI) (simp add: of_char_byte_inject)
  then show ?thesis
    by (simp add: str_bytes_def inj_map_eq_map)
qed


section \<open>Undefined behaviour and aborts as values\<close>

text \<open>
  The code reports almost no errors; where it goes wrong it reads or writes through a bad
  pointer. Those ends are the values of \<open>crash\<close>, and a computation that may reach
  one has type \<open>'a result\<close>.
\<close>

datatype crash =
    NullDeref        \<comment> \<open>a member access or a C string read through a null pointer\<close>
  | UseAfterFree     \<comment> \<open>an access to an object that was deleted\<close>
  | BufferOverflow   \<comment> \<open>a write past the end of an allocated block\<close>
  | OutOfBounds      \<comment> \<open>a read past the end of a buffer\<close>
  | IntOverflow      \<comment> \<open>signed overflow\<close>
  | AllocFailed      \<comment> \<open>an allocation of an impossible size\<close>
  | AssertFailed     \<comment> \<open>\<open>TSReleaseAssert\<close>\<close>

type_synonym 'a result = "crash + 'a"

definition bindE :: "'e + 'a \<Rightarrow> ('a \<Rightarrow> 'e + 'b) \<Rightarrow> 'e + 'b" where
  "bindE x f = (case x of Inl e \<Rightarrow> Inl e | Inr v \<Rightarrow> f v)"

lemma bindE_Inl [simp, crash_simps]: "bindE (Inl e) f = Inl e"
  by (simp add: bindE_def)

lemma bindE_Inr [simp, crash_simps]: "bindE (Inr v) f = f v"
  by (simp add: bindE_def)

lemma bindE_eq_Inr [crash_simps]: "bindE x f = Inr y \<longleftrightarrow> (\<exists>v. x = Inr v \<and> f v = Inr y)"
  by (cases x) simp_all

lemma bindE_eq_Inl [crash_simps]:
  "bindE x f = Inl e \<longleftrightarrow> x = Inl e \<or> (\<exists>v. x = Inr v \<and> f v = Inl e)"
  by (cases x) simp_all

lemma bindE_InrE:
  assumes "bindE x f = Inr y"
  obtains v where "x = Inr v" "f v = Inr y"
  using assms by (auto simp: bindE_eq_Inr)

lemma bindE_Inr_right [simp]: "bindE x Inr = x"
  by (cases x) simp_all

lemma bindE_assoc: "bindE (bindE x f) g = bindE x (\<lambda>v. bindE (f v) g)"
  by (cases x) simp_all

lemma bindE_cong [fundef_cong]:
  "x = x' \<Longrightarrow> (\<And>v. x' = Inr v \<Longrightarrow> f v = f' v) \<Longrightarrow> bindE x f = bindE x' f'"
  by (cases x') simp_all

lemma not_Inl_iff: "(\<forall>e. x \<noteq> Inl e) \<longleftrightarrow> (\<exists>v. x = Inr v)"
  by (cases x) simp_all

text \<open>Reading through a pointer that may be null.\<close>

definition deref :: "'a option \<Rightarrow> 'a result" where
  "deref p = (case p of None \<Rightarrow> Inl NullDeref | Some v \<Rightarrow> Inr v)"

lemma deref_simps [simp, crash_simps]: "deref None = Inl NullDeref" "deref (Some v) = Inr v"
  by (simp_all add: deref_def)

lemma deref_eq_Inr [crash_simps]: "deref p = Inr v \<longleftrightarrow> p = Some v"
  by (cases p) simp_all


section \<open>Raw memory\<close>

text \<open>
  A block from \<open>TSmalloc\<close> holds indeterminate bytes; \<open>junk\<close> stands for them and every
  definition that allocates takes it as an argument.
\<close>

definition ts_malloc :: "uchar \<Rightarrow> nat \<Rightarrow> bytes" where
  "ts_malloc junk n = replicate n junk"

lemma length_ts_malloc [simp]: "length (ts_malloc junk n) = n"
  by (simp add: ts_malloc_def)

text \<open>\<open>memcpy(block + pos, src, size)\<close> with \<open>size\<close> the length of \<open>src\<close>.\<close>

definition mem_write :: "nat \<Rightarrow> bytes \<Rightarrow> bytes \<Rightarrow> bytes result" where
  "mem_write pos src mem =
     (if pos + length src \<le> length mem
      then Inr (take pos mem @ src @ drop (pos + length src) mem)
      else Inl BufferOverflow)"

lemma mem_write_ok [mem_simps]:
  "pos + length src \<le> length mem \<Longrightarrow>
   mem_write pos src mem = Inr (take pos mem @ src @ drop (pos + length src) mem)"
  by (simp add: mem_write_def)

lemma mem_write_overflow [mem_simps]:
  "length mem < pos + length src \<Longrightarrow> mem_write pos src mem = Inl BufferOverflow"
  by (simp add: mem_write_def)

lemma mem_write_Inr_iff:
  "mem_write pos src mem = Inr mem' \<longleftrightarrow>
     pos + length src \<le> length mem \<and> mem' = take pos mem @ src @ drop (pos + length src) mem"
  by (auto simp: mem_write_def)

lemma mem_write_length:
  "mem_write pos src mem = Inr mem' \<Longrightarrow> length mem' = length mem"
  by (auto simp: mem_write_Inr_iff)

lemma mem_write_prefix:
  "mem_write pos src mem = Inr mem' \<Longrightarrow> n \<le> pos \<Longrightarrow> take n mem' = take n mem"
  by (auto simp: mem_write_Inr_iff)

lemma mem_write_take:
  "mem_write pos src mem = Inr mem' \<Longrightarrow> take (pos + length src) mem' = take pos mem @ src"
  by (auto simp: mem_write_Inr_iff)

end
