(* ===== verification/Fcgi_Protocol.thy ===== *)
theory Fcgi_Protocol
  imports Prelude
begin

text \<open>
  The wire format, \<open>fcgi_protocol.h\<close>: constants and structs, and the byte macros of
  \<open>ats_fcgi_client.h\<close>. All members of the structs are unsigned chars, so a struct in memory
  is the list of its members; that is what \<open>memcpy\<close> copies.
\<close>

section \<open>Constants\<close>

definition FCGI_VERSION_1 :: uchar where "FCGI_VERSION_1 = 1"
definition FCGI_HEADER_LEN :: nat where "FCGI_HEADER_LEN = 8"
definition FCGI_MAX_LENGTH :: nat where "FCGI_MAX_LENGTH = 0xffff"

definition FCGI_BEGIN_REQUEST :: uchar where "FCGI_BEGIN_REQUEST = 1"
definition FCGI_ABORT_REQUEST :: uchar where "FCGI_ABORT_REQUEST = 2"
definition FCGI_END_REQUEST :: uchar where "FCGI_END_REQUEST = 3"
definition FCGI_PARAMS :: uchar where "FCGI_PARAMS = 4"
definition FCGI_STDIN :: uchar where "FCGI_STDIN = 5"
definition FCGI_STDOUT :: uchar where "FCGI_STDOUT = 6"
definition FCGI_STDERR :: uchar where "FCGI_STDERR = 7"

definition FCGI_KEEP_CONN :: uchar where "FCGI_KEEP_CONN = 1"
definition FCGI_RESPONDER :: uchar where "FCGI_RESPONDER = 1"

lemmas fcgi_consts = FCGI_VERSION_1_def FCGI_BEGIN_REQUEST_def FCGI_ABORT_REQUEST_def
  FCGI_END_REQUEST_def FCGI_PARAMS_def FCGI_STDIN_def FCGI_STDOUT_def FCGI_STDERR_def
  FCGI_KEEP_CONN_def FCGI_RESPONDER_def


section \<open>Structs\<close>

record FCGI_Header =
  h_version :: uchar
  h_type :: uchar
  h_requestIdB1 :: uchar
  h_requestIdB0 :: uchar
  h_contentLengthB1 :: uchar
  h_contentLengthB0 :: uchar
  h_paddingLength :: uchar
  h_reserved :: uchar

record FCGI_BeginRequestBody =
  b_roleB1 :: uchar
  b_roleB0 :: uchar
  b_flags :: uchar
  b_reserved :: bytes

text \<open>\<open>calloc\<close> and \<open>memset(header, 0, ...)\<close>.\<close>

definition zero_header :: FCGI_Header where
  "zero_header = \<lparr>h_version = 0, h_type = 0, h_requestIdB1 = 0, h_requestIdB0 = 0,
     h_contentLengthB1 = 0, h_contentLengthB0 = 0, h_paddingLength = 0, h_reserved = 0\<rparr>"

definition zero_begin_body :: FCGI_BeginRequestBody where
  "zero_begin_body = \<lparr>b_roleB1 = 0, b_roleB0 = 0, b_flags = 0, b_reserved = replicate 5 0\<rparr>"

definition header_bytes :: "FCGI_Header \<Rightarrow> bytes" where
  "header_bytes h = [h_version h, h_type h, h_requestIdB1 h, h_requestIdB0 h,
     h_contentLengthB1 h, h_contentLengthB0 h, h_paddingLength h, h_reserved h]"

definition begin_body_bytes :: "FCGI_BeginRequestBody \<Rightarrow> bytes" where
  "begin_body_bytes b = [b_roleB1 b, b_roleB0 b, b_flags b] @ b_reserved b"

lemma length_header_bytes [simp]: "length (header_bytes h) = 8"
  by (simp add: header_bytes_def)

lemma header_bytes_inject [simp]: "header_bytes g = header_bytes h \<longleftrightarrow> g = h"
  by (cases g, cases h) (auto simp: header_bytes_def)


section \<open>Byte macros\<close>

definition BYTE_0 :: "uint \<Rightarrow> uchar" where "BYTE_0 x = ucast (x AND 0xff)"
definition BYTE_1 :: "uint \<Rightarrow> uchar" where "BYTE_1 x = ucast (drop_bit 8 x AND 0xff)"
definition BYTE_2 :: "uint \<Rightarrow> uchar" where "BYTE_2 x = ucast (drop_bit 16 x AND 0xff)"
definition BYTE_3 :: "uint \<Rightarrow> uchar" where "BYTE_3 x = ucast (drop_bit 24 x OR 0x80)"

lemma and_255: "(w::uint) AND 0xff = take_bit 8 w"
  by (simp add: take_bit_eq_mask mask_eq_exp_minus_1)

lemma unat_drop_bit_uint: "unat (drop_bit n (x::uint)) = unat x div 2 ^ n"
proof -
  have "take_bit 32 (unat x) = unat x"
    using unsigned_less [of x] by (intro take_bit_nat_eq_self) simp
  then show ?thesis by (simp only: unsigned_drop_bit_eq) (simp add: drop_bit_eq_div)
qed

lemma unat_ucast_uchar: "unat (ucast (w::uint) :: uchar) = unat w mod 256"
  by (simp add: unsigned_ucast_eq unsigned_take_bit_eq take_bit_eq_mod)

lemma unat_take_bit_uint: "unat (take_bit 8 (w::uint)) = unat w mod 256"
  by (simp only: unsigned_take_bit_eq) (simp add: take_bit_eq_mod)

lemmas unat_byte_simps = unat_ucast_uchar unat_take_bit_uint and_255 unat_drop_bit_uint

lemma or_128: "(d::nat) < 128 \<Longrightarrow> d OR 128 = d + 128"
proof -
  assume "d < 128"
  then have "\<not> bit d n \<or> \<not> bit (128::nat) n" for n
  proof (cases "n = 7")
    case True
    then show ?thesis using \<open>d < 128\<close> by (simp add: bit_iff_odd)
  next
    case False
    have "(128::nat) = 2 ^ 7" by simp
    then show ?thesis using False by (metis bit_exp_iff)
  qed
  then show ?thesis by (simp add: disjunctive_add)
qed

lemma unat_BYTE_0: "unat (BYTE_0 x) = unat x mod 256"
  unfolding BYTE_0_def by (simp add: unat_byte_simps)

lemma unat_BYTE_1: "unat (BYTE_1 x) = unat x div 256 mod 256"
  unfolding BYTE_1_def by (simp add: unat_byte_simps)

lemma unat_BYTE_2: "unat (BYTE_2 x) = unat x div 65536 mod 256"
  unfolding BYTE_2_def by (simp add: unat_byte_simps)

lemma unat_BYTE_3: "unat x < 2 ^ 31 \<Longrightarrow> unat (BYTE_3 x) = 128 + unat x div 16777216"
  unfolding BYTE_3_def by (simp add: unat_byte_simps unsigned_or_eq or_128)

lemmas unat_BYTE = unat_BYTE_0 unat_BYTE_1 unat_BYTE_2 unat_BYTE_3

text \<open>The low 16 bits of a number, from the two bytes the headers carry.\<close>

lemma BYTE_1_0: "256 * unat (BYTE_1 x) + unat (BYTE_0 x) = unat x mod 65536"
proof -
  have "unat x mod (256 * 256) = 256 * (unat x div 256 mod 256) + unat x mod 256"
    by (rule mod_mult2_eq)
  then show ?thesis by (simp add: unat_BYTE)
qed

end
