(* ===== verification/Fcgi_Wire.thy ===== *)
theory Fcgi_Wire
  imports Fcgi_Protocol
begin

text \<open>
  The other end of the connection: how the FastCGI specification reads a byte stream, as
  records and, inside the parameter records, as name-value pairs. Nothing here is code of the
  plugin; the properties of the encoder and of the decoder are stated with these readers.
  The interface \<open>prefix_code\<close> is what makes a stream of encoded items readable again.
\<close>

section \<open>Streams of items\<close>

function read_all :: "(bytes \<Rightarrow> ('a \<times> bytes) option) \<Rightarrow> bytes \<Rightarrow> 'a list option" where
  "read_all dec bs =
     (if bs = [] then Some []
      else case dec bs of
             None \<Rightarrow> None
           | Some (x, rest) \<Rightarrow>
               if length rest < length bs then map_option (Cons x) (read_all dec rest) else None)"
  by pat_completeness auto
termination
  by (relation "measure (\<lambda>(dec, bs). length bs)") auto

declare read_all.simps [simp del]

lemma read_all_Nil [simp]: "read_all dec [] = Some []"
  by (simp add: read_all.simps)

locale prefix_code =
  fixes enc :: "'a \<Rightarrow> bytes" and dec :: "bytes \<Rightarrow> ('a \<times> bytes) option" and ok :: "'a \<Rightarrow> bool"
  assumes dec_enc: "ok x \<Longrightarrow> dec (enc x @ rest) = Some (x, rest)"
    and enc_nonempty: "ok x \<Longrightarrow> enc x \<noteq> []"
begin

lemma read_all_Cons:
  "ok x \<Longrightarrow> read_all dec (enc x @ rest) = map_option (Cons x) (read_all dec rest)"
  by (simp add: read_all.simps [of dec "enc x @ rest"] dec_enc enc_nonempty)

lemma read_all_enc:
  "\<forall>x\<in>set xs. ok x \<Longrightarrow> read_all dec (concat (map enc xs)) = Some xs"
  by (induction xs) (simp_all add: read_all_Cons)

lemma enc_prefix_free: "ok x \<Longrightarrow> ok y \<Longrightarrow> enc x @ r = enc y @ s \<Longrightarrow> x = y \<and> r = s"
  by (metis dec_enc option.inject prod.inject)

end


section \<open>Name-value pairs\<close>

fun read_len :: "bytes \<Rightarrow> (nat \<times> bytes) option" where
  "read_len [] = None"
| "read_len (b # bs) =
     (if unat b < 128 then Some (unat b, bs)
      else case bs of
             b2 # b1 # b0 # rest \<Rightarrow>
               Some (((unat b - 128) * 256 + unat b2) * 65536 + unat b1 * 256 + unat b0, rest)
           | _ \<Rightarrow> None)"

definition read_pair :: "bytes \<Rightarrow> ((bytes \<times> bytes) \<times> bytes) option" where
  "read_pair bs =
     (case read_len bs of
        None \<Rightarrow> None
      | Some (nl, bs) \<Rightarrow>
          (case read_len bs of
             None \<Rightarrow> None
           | Some (vl, bs) \<Rightarrow>
               if length bs < nl + vl then None
               else Some ((take nl bs, take vl (drop nl bs)), drop (nl + vl) bs)))"


section \<open>Records\<close>

text \<open>A record is a header, the content and the padding the header announces.\<close>

type_synonym fcgi_record = "FCGI_Header \<times> bytes \<times> bytes"

definition content_len :: "FCGI_Header \<Rightarrow> nat" where
  "content_len h = 256 * unat (h_contentLengthB1 h) + unat (h_contentLengthB0 h)"

definition padding_len :: "FCGI_Header \<Rightarrow> nat" where
  "padding_len h = unat (h_paddingLength h)"

definition request_id_of :: "FCGI_Header \<Rightarrow> nat" where
  "request_id_of h = 256 * unat (h_requestIdB1 h) + unat (h_requestIdB0 h)"

fun record_ok :: "fcgi_record \<Rightarrow> bool" where
  "record_ok (h, c, p) \<longleftrightarrow> length c = content_len h \<and> length p = padding_len h"

fun record_bytes :: "fcgi_record \<Rightarrow> bytes" where
  "record_bytes (h, c, p) = header_bytes h @ c @ p"

fun read_header :: "bytes \<Rightarrow> (FCGI_Header \<times> bytes) option" where
  "read_header (v # t # i1 # i0 # c1 # c0 # p # r # rest) =
     Some (\<lparr>h_version = v, h_type = t, h_requestIdB1 = i1, h_requestIdB0 = i0,
            h_contentLengthB1 = c1, h_contentLengthB0 = c0, h_paddingLength = p,
            h_reserved = r\<rparr>, rest)"
| "read_header bs = None"

definition read_record :: "bytes \<Rightarrow> (fcgi_record \<times> bytes) option" where
  "read_record bs =
     (case read_header bs of
        None \<Rightarrow> None
      | Some (h, bs) \<Rightarrow>
          let n = content_len h; k = padding_len h
          in if length bs < n + k then None
             else Some ((h, take n bs, take k (drop n bs)), drop (n + k) bs))"

lemma read_header_bytes [simp]: "read_header (header_bytes h @ rest) = Some (h, rest)"
  by (cases h) (simp add: header_bytes_def)

lemma read_record_bytes:
  assumes "record_ok x"
  shows "read_record (record_bytes x @ rest) = Some (x, rest)"
proof -
  obtain h c p where "x = (h, c, p)" by (metis prod.collapse)
  with assms show ?thesis by (simp add: read_record_def Let_def)
qed

lemma record_bytes_not_Nil [simp]: "record_bytes x \<noteq> []"
  by (cases x) (auto simp: header_bytes_def)

interpretation wire_records: prefix_code record_bytes read_record record_ok
  by unfold_locales (simp_all add: read_record_bytes)

lemma content_len_bound: "content_len h < 65536"
  using unat_uchar_less [of "h_contentLengthB1 h"] unat_uchar_less [of "h_contentLengthB0 h"]
  unfolding content_len_def by linarith

lemma padding_len_bound: "padding_len h < 256"
  by (simp add: padding_len_def)


text \<open>
  The body a responder sees: the contents of the standard-input records up to the first
  empty one, which ends the stream.
\<close>

fun stdin_content :: "fcgi_record list \<Rightarrow> bytes" where
  "stdin_content [] = []"
| "stdin_content ((h, c, p) # rs) =
     (if h_type h \<noteq> FCGI_STDIN then stdin_content rs
      else if c = [] then []
      else c @ stdin_content rs)"

end
