(* ===== verification/C_Strings.thy ===== *)
theory C_Strings
  imports Prelude
begin

text \<open>
  The functions of the C and C++ standard libraries on strings that the plugin calls, in the
  classic locale: \<open>isspace\<close>, \<open>toupper\<close>, \<open>strncmp\<close>, \<open>strtok_r\<close> with the delimiters blank
  and tab, \<open>strtoll\<close> in base 10 and the extraction of an \<open>int\<close> from a stream.
  A C string is a \<open>string\<close> without the terminating null.
\<close>

text \<open>\<open>s.c_str()\<close>: a C string ends at the first null.\<close>

definition c_str :: "string \<Rightarrow> string" where
  "c_str s = takeWhile (\<lambda>c. c \<noteq> CHR 0x00) s"

section \<open>Characters\<close>

definition isspace :: "char \<Rightarrow> bool" where
  "isspace c \<longleftrightarrow> c = CHR '' '' \<or> (9 \<le> (of_char c :: nat) \<and> (of_char c :: nat) \<le> 13)"

definition is_delim :: "char \<Rightarrow> bool" where
  "is_delim c \<longleftrightarrow> c = CHR '' '' \<or> c = CHR 0x09"

definition is_digit :: "char \<Rightarrow> bool" where
  "is_digit c \<longleftrightarrow> 48 \<le> (of_char c :: nat) \<and> (of_char c :: nat) \<le> 57"

definition char_toupper :: "char \<Rightarrow> char" where
  "char_toupper c =
     (if 97 \<le> (of_char c :: nat) \<and> (of_char c :: nat) \<le> 122
      then char_of ((of_char c :: nat) - 32) else c)"

lemma is_delim_isspace: "is_delim c \<Longrightarrow> isspace c"
  by (auto simp: is_delim_def isspace_def)

lemma is_digit_not_isspace: "is_digit c \<Longrightarrow> \<not> isspace c"
  by (auto simp: is_digit_def isspace_def)


section \<open>Comparison and tokens\<close>

text \<open>\<open>strncmp(a, b, n) == 0\<close>.\<close>

definition strncmp_eq :: "string \<Rightarrow> string \<Rightarrow> nat \<Rightarrow> bool" where
  "strncmp_eq a b n \<longleftrightarrow> take n a = take n b"

lemma strncmp_eq_full: "strncmp_eq a b (length a) \<longleftrightarrow> prefix a b"
  by (metis append_eq_conv_conj prefix_def strncmp_eq_def take_all_iff order_refl)

text \<open>
  \<open>strtok_r(s, " \t", &ln)\<close>: the next token, null if there is none, and where \<open>ln\<close> points
  afterwards (behind the delimiter that ended the token).
\<close>

definition strtok_r :: "string \<Rightarrow> string option \<times> string" where
  "strtok_r s =
     (let s' = dropWhile is_delim s
      in if s' = [] then (None, [])
         else (Some (takeWhile (\<lambda>c. \<not> is_delim c) s'),
               tl (dropWhile (\<lambda>c. \<not> is_delim c) s')))"

lemma strtok_r_None: "strtok_r s = (None, ln) \<longleftrightarrow> (\<forall>c\<in>set s. is_delim c) \<and> ln = []"
  by (auto simp: strtok_r_def Let_def)

lemma strtok_r_token:
  assumes "\<forall>c\<in>set ws. is_delim c" "t \<noteq> []" "\<forall>c\<in>set t. \<not> is_delim c" "is_delim d"
  shows "strtok_r (ws @ t @ d # rest) = (Some t, rest)"
  using assms by (cases t) (auto simp: strtok_r_def Let_def dropWhile_append takeWhile_append)

lemma strtok_r_token_end:
  assumes "\<forall>c\<in>set ws. is_delim c" "t \<noteq> []" "\<forall>c\<in>set t. \<not> is_delim c"
  shows "strtok_r (ws @ t) = (Some t, [])"
proof -
  obtain a u where t: "t = a # u" using assms(2) by (cases t) auto
  have "dropWhile (\<lambda>c. \<not> is_delim c) u = []"
    using assms(3) t by (simp add: dropWhile_eq_Nil_conv)
  note u = this
  show ?thesis
    using assms t by (auto simp: u strtok_r_def Let_def dropWhile_append)
qed

lemma strtok_r_token_nonempty: "strtok_r s = (Some t, ln) \<Longrightarrow> t \<noteq> []"
  by (auto simp: strtok_r_def Let_def dropWhile_eq_Nil_conv hd_dropWhile
      dest: hd_dropWhile split: if_splits) (metis dropWhile_eq_Nil_conv hd_dropWhile takeWhile_eq_Nil_iff)


section \<open>Numbers\<close>

definition digit_value :: "char \<Rightarrow> nat" where
  "digit_value c = of_char c - 48"

definition dec_value :: "string \<Rightarrow> nat" where
  "dec_value ds = foldl (\<lambda>n d. 10 * n + digit_value d) 0 ds"

definition clamp_int :: "int \<Rightarrow> int \<Rightarrow> int \<Rightarrow> int" where
  "clamp_int lo hi x = max lo (min hi x)"

text \<open>
  White space, a sign, digits; a value out of the range of the type becomes its nearest
  bound, and a string without digits is 0.
\<close>

definition parse_dec :: "int \<Rightarrow> int \<Rightarrow> string \<Rightarrow> int" where
  "parse_dec lo hi s =
     (let s1 = dropWhile isspace s;
          neg = (s1 \<noteq> [] \<and> hd s1 = CHR ''-'');
          s2 = (if s1 \<noteq> [] \<and> (hd s1 = CHR ''-'' \<or> hd s1 = CHR ''+'') then tl s1 else s1);
          v = int (dec_value (takeWhile is_digit s2))
      in clamp_int lo hi (if neg then - v else v))"

definition strtoll :: "string \<Rightarrow> int" where
  "strtoll = parse_dec (- (2 ^ 63)) (2 ^ 63 - 1)"

definition istream_int :: "string \<Rightarrow> int" where
  "istream_int = parse_dec (- (2 ^ 31)) (2 ^ 31 - 1)"

lemma clamp_int_bounds: "lo \<le> hi \<Longrightarrow> lo \<le> clamp_int lo hi x \<and> clamp_int lo hi x \<le> hi"
  by (auto simp: clamp_int_def)

lemma clamp_int_id [simp]: "lo \<le> x \<Longrightarrow> x \<le> hi \<Longrightarrow> clamp_int lo hi x = x"
  by (simp add: clamp_int_def)

lemma parse_dec_bounds: "lo \<le> hi \<Longrightarrow> lo \<le> parse_dec lo hi s \<and> parse_dec lo hi s \<le> hi"
  unfolding parse_dec_def Let_def by (rule clamp_int_bounds)

lemma strtoll_bounds: "- (2 ^ 63) \<le> strtoll s \<and> strtoll s \<le> 2 ^ 63 - 1"
  unfolding strtoll_def by (rule parse_dec_bounds) simp

lemma istream_int_bounds: "- (2 ^ 31) \<le> istream_int s \<and> istream_int s \<le> 2 ^ 31 - 1"
  unfolding istream_int_def by (rule parse_dec_bounds) simp

text \<open>Decimal notation, to state that reading a written number gives the number back.\<close>

fun dec_digits :: "nat \<Rightarrow> string" where
  "dec_digits n =
     (if n < 10 then [char_of (48 + n)] else dec_digits (n div 10) @ [char_of (48 + n mod 10)])"

declare dec_digits.simps [simp del]

lemma of_char_digit: "d < 10 \<Longrightarrow> (of_char (char_of (48 + d :: nat)) :: nat) = 48 + d"
  by simp

lemma is_digit_char_of: "d < 10 \<Longrightarrow> is_digit (char_of (48 + d :: nat))"
  by (simp add: is_digit_def)

lemma dec_digits_is_digit: "c \<in> set (dec_digits n) \<Longrightarrow> is_digit c"
proof (induction n rule: dec_digits.induct)
  case (1 n)
  then show ?case
    by (subst (asm) dec_digits.simps) (auto simp: is_digit_char_of split: if_splits)
qed

lemma dec_digits_not_Nil [simp]: "dec_digits n \<noteq> []"
  by (subst dec_digits.simps) simp

lemma dec_value_snoc: "dec_value (ds @ [d]) = 10 * dec_value ds + digit_value d"
  by (simp add: dec_value_def)

lemma dec_value_dec_digits: "dec_value (dec_digits n) = n"
proof (induction n rule: dec_digits.induct)
  case (1 n)
  show ?case
  proof (cases "n < 10")
    case True
    then show ?thesis
      by (subst dec_digits.simps) (simp add: dec_value_def digit_value_def)
  next
    case False
    with 1 show ?thesis
      by (subst dec_digits.simps) (simp add: dec_value_snoc digit_value_def)
  qed
qed

lemma parse_dec_dec_digits:
  assumes "lo \<le> int n" "int n \<le> hi" "rest = [] \<or> \<not> is_digit (hd rest)"
  shows "parse_dec lo hi (dec_digits n @ rest) = int n"
proof -
  obtain c cs where c: "dec_digits n = c # cs" by (cases "dec_digits n") auto
  then have d: "is_digit c" using dec_digits_is_digit [of c n] by simp
  then have "dropWhile isspace (dec_digits n @ rest) = dec_digits n @ rest"
    using c by (simp add: is_digit_not_isspace)
  moreover have "c \<noteq> CHR ''-''" "c \<noteq> CHR ''+''" using d by (auto simp: is_digit_def)
  moreover have "takeWhile is_digit (dec_digits n @ rest) = dec_digits n"
    using assms(3) dec_digits_is_digit [of _ n]
    by (cases rest) (auto simp: takeWhile_append)
  ultimately show ?thesis
    using assms c dec_value_dec_digits [of n] by (auto simp: parse_dec_def Let_def)
qed

end
