(* ===== verification/Std_Map.thy ===== *)
theory Std_Map
  imports Prelude
begin

text \<open>
  \<open>std::map\<close> as the code uses it: an association list kept sorted by key, because the
  code iterates over its maps and the iteration order is the key order.
  \<open>map_set\<close> is \<open>m[k] = v\<close>, \<open>map_insert\<close> is \<open>m.insert({k, v})\<close> (which keeps the value
  of a key already present), \<open>map_erase\<close> removes a key, \<open>map_index\<close> is a read \<open>m[k]\<close> (which inserts a default).
  The order of \<open>string\<close> is the one of \<open>std::string\<close>: lexicographic on unsigned bytes.
  The interface \<open>finite_dict\<close> states what the clients of a map rely on.
\<close>

section \<open>The operations\<close>

type_synonym ('k, 'v) std_map = "('k \<times> 'v) list"

fun map_set :: "'k::linorder \<Rightarrow> 'v \<Rightarrow> ('k, 'v) std_map \<Rightarrow> ('k, 'v) std_map" where
  "map_set k v [] = [(k, v)]"
| "map_set k v ((k', v') # m) =
     (if k < k' then (k, v) # (k', v') # m
      else if k = k' then (k, v) # m
      else (k', v') # map_set k v m)"

definition map_find :: "('k, 'v) std_map \<Rightarrow> 'k \<Rightarrow> 'v option" where
  "map_find m k = map_of m k"

definition map_insert :: "'k::linorder \<Rightarrow> 'v \<Rightarrow> ('k, 'v) std_map \<Rightarrow> ('k, 'v) std_map" where
  "map_insert k v m = (case map_find m k of None \<Rightarrow> map_set k v m | Some _ \<Rightarrow> m)"

definition map_index :: "'v \<Rightarrow> 'k::linorder \<Rightarrow> ('k, 'v) std_map \<Rightarrow> 'v \<times> ('k, 'v) std_map" where
  "map_index d k m = (case map_find m k of None \<Rightarrow> (d, map_set k d m) | Some v \<Rightarrow> (v, m))"

definition map_erase :: "'k \<Rightarrow> ('k, 'v) std_map \<Rightarrow> ('k, 'v) std_map" where
  "map_erase k m = filter (\<lambda>(k', _). k' \<noteq> k) m"

definition map_wf :: "('k::linorder, 'v) std_map \<Rightarrow> bool" where
  "map_wf m \<longleftrightarrow> sorted_wrt (<) (map fst m)"

lemma map_find_simps [simp]:
  "map_find [] k = None"
  "map_find ((k', v) # m) k = (if k = k' then Some v else map_find m k)"
  by (auto simp: map_find_def)

lemma map_find_Nil: "map_find [] = Map.empty"
  by (simp add: fun_eq_iff)

lemma map_find_map_set: "map_find (map_set k v m) = (map_find m)(k \<mapsto> v)"
  by (induction k v m rule: map_set.induct) (auto simp: fun_eq_iff map_find_def)

lemma fst_set_map_set: "fst ` set (map_set k v m) = insert k (fst ` set m)"
  by (induction k v m rule: map_set.induct) auto

lemma length_map_set_new: "map_find m k = None \<Longrightarrow> length (map_set k v m) = Suc (length m)"
  by (induction k v m rule: map_set.induct) (auto split: if_splits)

lemma map_set_not_Nil [simp]: "map_set k v m \<noteq> []"
  by (cases m) (auto split: if_splits)

lemma map_wf_Nil [simp]: "map_wf []"
  by (simp add: map_wf_def)

lemma map_wf_map_set: "map_wf m \<Longrightarrow> map_wf (map_set k v m)"
proof (induction k v m rule: map_set.induct)
  case (1 k v)
  then show ?case by (simp add: map_wf_def)
next
  case (2 k v k' v' m)
  have "\<forall>x\<in>fst ` set (map_set k v m). k' < x" if "\<not> k < k'" "k \<noteq> k'"
    using 2 that by (auto simp: map_wf_def fst_set_map_set)
  with 2 show ?case by (auto simp: map_wf_def)
qed

lemma map_wf_distinct: "map_wf m \<Longrightarrow> distinct (map fst m)"
  using strict_sorted_iff by (auto simp: map_wf_def)

lemma map_find_map_insert:
  "map_find (map_insert k v m) =
     (if map_find m k = None then (map_find m)(k \<mapsto> v) else map_find m)"
  by (auto simp: map_insert_def map_find_map_set split: option.splits)

lemma map_wf_map_insert: "map_wf m \<Longrightarrow> map_wf (map_insert k v m)"
  by (auto simp: map_insert_def map_wf_map_set split: option.splits)

lemma map_index_value: "fst (map_index d k m) = (case map_find m k of None \<Rightarrow> d | Some v \<Rightarrow> v)"
  by (auto simp: map_index_def split: option.splits)

lemma map_find_map_index:
  "map_find (snd (map_index d k m)) =
     (if map_find m k = None then (map_find m)(k \<mapsto> d) else map_find m)"
  by (auto simp: map_index_def map_find_map_set split: option.splits)

lemma map_wf_map_index: "map_wf m \<Longrightarrow> map_wf (snd (map_index d k m))"
  by (auto simp: map_index_def map_wf_map_set split: option.splits)

lemma map_find_map_erase: "map_find (map_erase k m) = (map_find m)(k := None)"
  by (induction m) (auto simp: map_erase_def fun_eq_iff)

lemma map_wf_map_erase: "map_wf m \<Longrightarrow> map_wf (map_erase k m)"
  unfolding map_wf_def map_erase_def by (induction m) auto


section \<open>The interface of a dictionary\<close>

text \<open>
  What the clients use: a lookup after an assignment and after an insertion, and an
  invariant every operation keeps. The lemmas are about runs of assignments and of
  insertions: in the first the last one counts, in the second the first one.
\<close>

locale finite_dict =
  fixes get :: "'m \<Rightarrow> 'k \<Rightarrow> 'v option"
    and put :: "'k \<Rightarrow> 'v \<Rightarrow> 'm \<Rightarrow> 'm"
    and ins :: "'k \<Rightarrow> 'v \<Rightarrow> 'm \<Rightarrow> 'm"
    and wf_dict :: "'m \<Rightarrow> bool"
  assumes get_put: "get (put k v m) = (get m)(k \<mapsto> v)"
    and get_ins: "get (ins k v m) = (if get m k = None then (get m)(k \<mapsto> v) else get m)"
    and wf_put: "wf_dict m \<Longrightarrow> wf_dict (put k v m)"
    and wf_ins: "wf_dict m \<Longrightarrow> wf_dict (ins k v m)"
begin

lemma get_put_all:
  "get (fold (\<lambda>(k, v). put k v) kvs m) = get m ++ map_of (rev kvs)"
  by (induction kvs arbitrary: m) (auto simp: get_put fun_eq_iff map_add_def split: option.splits)

lemma wf_put_all: "wf_dict m \<Longrightarrow> wf_dict (fold (\<lambda>(k, v). put k v) kvs m)"
  by (induction kvs arbitrary: m) (auto simp: wf_put)

lemma get_ins_all:
  "get (fold (\<lambda>(k, v). ins k v) kvs m) = map_of kvs ++ get m"
proof (induction kvs arbitrary: m)
  case Nil
  show ?case by (simp add: map_add_def fun_eq_iff split: option.splits)
next
  case (Cons kv kvs)
  obtain k v where "kv = (k, v)" by force
  then show ?case
    using Cons.IH [of "ins k v m"]
    by (auto simp: get_ins fun_eq_iff map_add_def split: option.splits)
qed

lemma wf_ins_all: "wf_dict m \<Longrightarrow> wf_dict (fold (\<lambda>(k, v). ins k v) kvs m)"
  by (induction kvs arbitrary: m) (auto simp: wf_ins)

end

interpretation std_map: finite_dict map_find map_set map_insert map_wf
  by unfold_locales
    (simp_all add: map_find_map_set map_find_map_insert map_wf_map_set map_wf_map_insert)

end
