(* ===== verification/Fcgi_Config.thy ===== *)
theory Fcgi_Config
  imports C_Strings Std_Map
begin

text \<open>
  The configuration, \<open>fcgi_config.h\<close> and \<open>fcgi_config.cc\<close>: the record
  \<open>FcgiPluginConfig\<close> with its getters and setters, the tables of configuration names, the
  line parser that \<open>initConfig\<close> and \<open>initFcgiParam\<close> share word for word, the two file
  loops, and \<open>initConfig\<close> itself. A file is what successive calls of \<open>TSfgets\<close> return: the
  parameter \<open>fs\<close> maps a file name to its lines (\<open>None\<close>: \<open>TSfopen\<close> fails). Strings are C
  strings, a null pointer is \<open>None\<close>. \<open>TSError\<close> messages are collected in a log.
\<close>

section \<open>Data\<close>

datatype TSRecordDataType = TS_RECORDDATATYPE_NULL | TS_RECORDDATATYPE_INT | TS_RECORDDATATYPE_STRING

datatype FcgiConfigKey =
    fcgiEnabled | fcgiHostname | fcgiServerIp | fcgiServerPort | fcgiInclude | fcgiDocumentRoot
  | fcgiHtml | fcgiMinConnections | fcgiMaxConnections | fcgiMaxRequests | fcgiRequestQueueSize

datatype FcgiParamKey =
    gatewayInterface | serverSoftware | queryString | requestMethod | contentType | contentLength
  | scriptFilename | scriptName | requestUri | documentUri | documentRoot | serverProtocol
  | remoteAddr | remotePort | serverAddr | serverPort | serverName

type_synonym FCGIParams = "(string, string) std_map"

record FcgiPluginConfig =
  cfg_enabled :: bool
  cfg_hostname :: "string option"
  cfg_server_ip :: "string option"
  cfg_server_port :: "string option"
  cfg_include :: "string option"
  cfg_params :: "FCGIParams option"
  cfg_document_root :: "string option"
  cfg_html :: "string option"
  cfg_min_connections :: int
  cfg_max_connections :: int
  cfg_max_requests :: int
  cfg_request_queue_size :: int

text \<open>\<open>FcgiPluginConfig::FcgiPluginConfig\<close>.\<close>

definition new_config :: FcgiPluginConfig where
  "new_config = \<lparr>cfg_enabled = True, cfg_hostname = None, cfg_server_ip = None,
     cfg_server_port = None, cfg_include = None, cfg_params = None, cfg_document_root = None,
     cfg_html = None, cfg_min_connections = 0, cfg_max_connections = 0, cfg_max_requests = 0,
     cfg_request_queue_size = 0\<rparr>"

datatype line_error = NonConfigLine | NoConfigName | UnsupportedType | TypeMismatch | NoValue

datatype log_entry =
    FileNotOpened string
  | BadLine string nat line_error
  | ParameterIgnored string

datatype 'k line = Skip | Bad line_error | Setting 'k string


section \<open>Getters and setters\<close>

definition getFcgiEnabledStatus :: "FcgiPluginConfig \<Rightarrow> bool" where
  "getFcgiEnabledStatus c = cfg_enabled c"

definition setFcgiEnabledStatus :: "bool \<Rightarrow> FcgiPluginConfig \<Rightarrow> FcgiPluginConfig" where
  "setFcgiEnabledStatus v c = c\<lparr>cfg_enabled := v\<rparr>"

definition getHostname :: "FcgiPluginConfig \<Rightarrow> string option" where
  "getHostname c = cfg_hostname c"

definition setHostname :: "string option \<Rightarrow> FcgiPluginConfig \<Rightarrow> FcgiPluginConfig" where
  "setHostname s c = c\<lparr>cfg_hostname := s\<rparr>"

definition getServerIp :: "FcgiPluginConfig \<Rightarrow> string option" where
  "getServerIp c = cfg_server_ip c"

definition setServerIp :: "string option \<Rightarrow> FcgiPluginConfig \<Rightarrow> FcgiPluginConfig" where
  "setServerIp s c = c\<lparr>cfg_server_ip := s\<rparr>"

definition getServerPort :: "FcgiPluginConfig \<Rightarrow> string option" where
  "getServerPort c = cfg_server_port c"

definition setServerPort :: "string option \<Rightarrow> FcgiPluginConfig \<Rightarrow> FcgiPluginConfig" where
  "setServerPort s c = c\<lparr>cfg_server_port := s\<rparr>"

definition getIncludeFilePath :: "FcgiPluginConfig \<Rightarrow> string option" where
  "getIncludeFilePath c = cfg_include c"

definition setIncludeFilePath :: "string option \<Rightarrow> FcgiPluginConfig \<Rightarrow> FcgiPluginConfig" where
  "setIncludeFilePath s c = c\<lparr>cfg_include := s\<rparr>"

definition getFcgiParams :: "FcgiPluginConfig \<Rightarrow> FCGIParams option" where
  "getFcgiParams c = cfg_params c"

text \<open>The body of \<open>setFcgiParams\<close> is \<open>params = params\<close>: the argument hides the field.\<close>

definition setFcgiParams :: "FCGIParams option \<Rightarrow> FcgiPluginConfig \<Rightarrow> FcgiPluginConfig" where
  "setFcgiParams params c = c"

definition getDocumentRootDir :: "FcgiPluginConfig \<Rightarrow> string option" where
  "getDocumentRootDir c = cfg_document_root c"

definition setDocumentRootDir :: "string option \<Rightarrow> FcgiPluginConfig \<Rightarrow> FcgiPluginConfig" where
  "setDocumentRootDir s c = c\<lparr>cfg_document_root := s\<rparr>"

definition getHtml :: "FcgiPluginConfig \<Rightarrow> string option" where
  "getHtml c = cfg_html c"

definition setHtml :: "string option \<Rightarrow> FcgiPluginConfig \<Rightarrow> FcgiPluginConfig" where
  "setHtml s c = c\<lparr>cfg_html := s\<rparr>"

definition getMinConnLength :: "FcgiPluginConfig \<Rightarrow> int" where
  "getMinConnLength c = cfg_min_connections c"

definition setMinConnLength :: "int \<Rightarrow> FcgiPluginConfig \<Rightarrow> FcgiPluginConfig" where
  "setMinConnLength n c = c\<lparr>cfg_min_connections := n\<rparr>"

definition getMaxConnLength :: "FcgiPluginConfig \<Rightarrow> int" where
  "getMaxConnLength c = cfg_max_connections c"

definition setMaxConnLength :: "int \<Rightarrow> FcgiPluginConfig \<Rightarrow> FcgiPluginConfig" where
  "setMaxConnLength n c = c\<lparr>cfg_max_connections := n\<rparr>"

definition getMaxReqLength :: "FcgiPluginConfig \<Rightarrow> int" where
  "getMaxReqLength c = cfg_max_requests c"

definition setMaxReqLength :: "int \<Rightarrow> FcgiPluginConfig \<Rightarrow> FcgiPluginConfig" where
  "setMaxReqLength n c = c\<lparr>cfg_max_requests := n\<rparr>"

definition getRequestQueueSize :: "FcgiPluginConfig \<Rightarrow> int" where
  "getRequestQueueSize c = cfg_request_queue_size c"

definition setRequestQueueSize :: "int \<Rightarrow> FcgiPluginConfig \<Rightarrow> FcgiPluginConfig" where
  "setRequestQueueSize n c = c\<lparr>cfg_request_queue_size := n\<rparr>"

text \<open>\<open>InterceptPluginData\<close>: only the configuration pointer is ever read.\<close>

record InterceptPluginData =
  global_config :: "FcgiPluginConfig option"

definition new_plugin_data :: InterceptPluginData where
  "new_plugin_data = \<lparr>global_config = None\<rparr>"

definition getGlobalConfigObj :: "InterceptPluginData \<Rightarrow> FcgiPluginConfig option" where
  "getGlobalConfigObj d = global_config d"

definition setGlobalConfigObj ::
    "FcgiPluginConfig option \<Rightarrow> InterceptPluginData \<Rightarrow> InterceptPluginData" where
  "setGlobalConfigObj c d = d\<lparr>global_config := c\<rparr>"


section \<open>Names\<close>

definition str_to_datatype :: "string option \<Rightarrow> TSRecordDataType" where
  "str_to_datatype str =
     (case str of
        None \<Rightarrow> TS_RECORDDATATYPE_NULL
      | Some s \<Rightarrow>
          if s = [] then TS_RECORDDATATYPE_NULL
          else if s = ''INT'' then TS_RECORDDATATYPE_INT
          else if s = ''STRING'' then TS_RECORDDATATYPE_STRING
          else TS_RECORDDATATYPE_NULL)"

text \<open>
  Both \<open>fcgiHttpTxnConfigFind\<close> and \<open>fcgiParamConfigFind\<close> are chains of
  \<open>if (!strncmp(name, "...", length))\<close> in a fixed order; the chain is a table that is
  searched from the front.
\<close>

fun find_name :: "(string \<times> 'k \<times> TSRecordDataType) list \<Rightarrow> string \<Rightarrow> nat
    \<Rightarrow> ('k \<times> TSRecordDataType) option" where
  "find_name [] name len = None"
| "find_name ((s, k, t) # table) name len =
     (if strncmp_eq name s len then Some (k, t) else find_name table name len)"

definition config_names :: "(string \<times> FcgiConfigKey \<times> TSRecordDataType) list" where
  "config_names =
     [(''proxy.config.http.fcgi.enabled'', fcgiEnabled, TS_RECORDDATATYPE_INT),
      (''proxy.config.http.fcgi.host.hostname'', fcgiHostname, TS_RECORDDATATYPE_STRING),
      (''proxy.config.http.fcgi.host.server_ip'', fcgiServerIp, TS_RECORDDATATYPE_STRING),
      (''proxy.config.http.fcgi.host.server_port'', fcgiServerPort, TS_RECORDDATATYPE_STRING),
      (''proxy.config.http.fcgi.host.include'', fcgiInclude, TS_RECORDDATATYPE_STRING),
      (''proxy.config.http.fcgi.host.document_root'', fcgiDocumentRoot, TS_RECORDDATATYPE_STRING),
      (''proxy.config.http.fcgi.host.html'', fcgiHtml, TS_RECORDDATATYPE_STRING),
      (''proxy.config.http.fcgi.host.min_connections'', fcgiMinConnections, TS_RECORDDATATYPE_INT),
      (''proxy.config.http.fcgi.host.max_connections'', fcgiMaxConnections, TS_RECORDDATATYPE_INT),
      (''proxy.config.http.fcgi.host.max_requests'', fcgiMaxRequests, TS_RECORDDATATYPE_INT),
      (''proxy.config.http.fcgi.host.request_queue_size'', fcgiRequestQueueSize, TS_RECORDDATATYPE_INT)]"

definition param_names :: "(string \<times> FcgiParamKey \<times> TSRecordDataType) list" where
  "param_names =
     [(''GATEWAY_INTERFACE'', gatewayInterface, TS_RECORDDATATYPE_STRING),
      (''SERVER_SOFTWARE'', serverSoftware, TS_RECORDDATATYPE_STRING),
      (''QUERY_STRING'', queryString, TS_RECORDDATATYPE_STRING),
      (''REQUEST_METHOD'', requestMethod, TS_RECORDDATATYPE_STRING),
      (''CONTENT_TYPE'', contentType, TS_RECORDDATATYPE_STRING),
      (''CONTENT_LENGTH'', contentLength, TS_RECORDDATATYPE_STRING),
      (''SCRIPT_FILENAME'', scriptFilename, TS_RECORDDATATYPE_STRING),
      (''SCRIPT_NAME'', scriptName, TS_RECORDDATATYPE_STRING),
      (''REQUEST_URI'', requestUri, TS_RECORDDATATYPE_STRING),
      (''DOCUMENT_URI'', documentUri, TS_RECORDDATATYPE_STRING),
      (''DOCUMENT_ROOT'', documentRoot, TS_RECORDDATATYPE_STRING),
      (''SERVER_PROTOCOL'', serverProtocol, TS_RECORDDATATYPE_STRING),
      (''REMOTE_ADDR'', remoteAddr, TS_RECORDDATATYPE_STRING),
      (''REMOTE_PORT'', remotePort, TS_RECORDDATATYPE_STRING),
      (''SERVER_ADDR'', serverAddr, TS_RECORDDATATYPE_STRING),
      (''SERVER_PORT'', serverPort, TS_RECORDDATATYPE_STRING),
      (''SERVER_NAME'', serverName, TS_RECORDDATATYPE_STRING)]"

text \<open>
  \<open>length == -1\<close> asks for \<open>strlen(name)\<close>, which reads through the pointer; so does
  \<open>strncmp\<close>. No other value is ever passed.
\<close>

definition name_length :: "string \<Rightarrow> int \<Rightarrow> nat" where
  "name_length name len = (if len = -1 then length name else nat len)"

definition fcgiHttpTxnConfigFind :: "string option \<Rightarrow> int
    \<Rightarrow> (FcgiConfigKey \<times> TSRecordDataType) option result" where
  "fcgiHttpTxnConfigFind name len =
     bindE (deref name) (\<lambda>nm. Inr (find_name config_names nm (name_length nm len)))"

definition fcgiParamConfigFind :: "string option \<Rightarrow> int
    \<Rightarrow> (FcgiParamKey \<times> TSRecordDataType) option result" where
  "fcgiParamConfigFind name len =
     bindE (deref name) (\<lambda>nm. Inr (find_name param_names nm (name_length nm len)))"


section \<open>One line\<close>

text \<open>
  The value is the rest of the line without white space at its ends; a rest of white
  space only is no value.
\<close>

definition rest_value :: "string \<Rightarrow> string option" where
  "rest_value ln =
     (let ln' = dropWhile isspace ln
      in if ln' = [] then None else Some (rev (dropWhile isspace (rev ln'))))"

definition parse_line :: "string \<Rightarrow> (string option \<Rightarrow> int \<Rightarrow> ('k \<times> TSRecordDataType) option result)
    \<Rightarrow> string \<Rightarrow> 'k line result" where
  "parse_line keyword lookup buf =
     (case strtok_r (dropWhile isspace buf) of
        (None, _) \<Rightarrow> Inr Skip
      | (Some tok, ln) \<Rightarrow>
          if hd tok = CHR ''#'' then Inr Skip
          else if \<not> strncmp_eq tok keyword (length keyword) then Inr (Bad NonConfigLine)
          else
            let (tok, ln) = strtok_r ln
            in bindE (lookup tok (-1)) (\<lambda>found.
              case found of
                None \<Rightarrow> Inr (Bad NoConfigName)
              | Some (name, expected_type) \<Rightarrow>
                  let (tok, ln) = strtok_r ln; typ = str_to_datatype tok
                  in if typ = TS_RECORDDATATYPE_NULL then Inr (Bad UnsupportedType)
                     else if typ \<noteq> expected_type then Inr (Bad TypeMismatch)
                     else case rest_value ln of
                            None \<Rightarrow> Inr (Bad NoValue)
                          | Some v \<Rightarrow> Inr (Setting name v)))"

definition param_line :: "string \<Rightarrow> FcgiParamKey line result" where
  "param_line = parse_line ''fastcgi_param'' fcgiParamConfigFind"

definition config_line :: "string \<Rightarrow> FcgiConfigKey line result" where
  "config_line = parse_line ''CONFIG'' fcgiHttpTxnConfigFind"


section \<open>The parameter file\<close>

fun param_key_name :: "FcgiParamKey \<Rightarrow> string" where
  "param_key_name gatewayInterface = ''GATEWAY_INTERFACE''"
| "param_key_name serverSoftware = ''SERVER_SOFTWARE''"
| "param_key_name queryString = ''QUERY_STRING''"
| "param_key_name requestMethod = ''REQUEST_METHOD''"
| "param_key_name contentType = ''CONTENT_TYPE''"
| "param_key_name contentLength = ''CONTENT_LENGTH''"
| "param_key_name scriptFilename = ''SCRIPT_FILENAME''"
| "param_key_name scriptName = ''SCRIPT_NAME''"
| "param_key_name requestUri = ''REQUEST_URI''"
| "param_key_name documentUri = ''DOCUMENT_URI''"
| "param_key_name documentRoot = ''DOCUMENT_ROOT''"
| "param_key_name serverProtocol = ''SERVER_PROTOCOL''"
| "param_key_name remoteAddr = ''REMOTE_ADDR''"
| "param_key_name remotePort = ''REMOTE_PORT''"
| "param_key_name serverAddr = ''SERVER_ADDR''"
| "param_key_name serverPort = ''SERVER_PORT''"
| "param_key_name serverName = ''SERVER_NAME''"

definition store_param :: "FcgiParamKey \<Rightarrow> string \<Rightarrow> FCGIParams \<Rightarrow> FCGIParams" where
  "store_param name tok params =
     map_insert (param_key_name name) (if tok = ''NULL'' then [] else tok) params"

fun param_lines :: "string \<Rightarrow> nat \<Rightarrow> string list \<Rightarrow> FCGIParams \<times> log_entry list
    \<Rightarrow> (FCGIParams \<times> log_entry list) result" where
  "param_lines fn line_num [] (params, log) = Inr (params, log)"
| "param_lines fn line_num (buf # lines) (params, log) =
     bindE (param_line buf) (\<lambda>l.
       param_lines fn (Suc line_num) lines
         (case l of
            Skip \<Rightarrow> (params, log)
          | Bad e \<Rightarrow> (params, log @ [BadLine fn (Suc line_num) e])
          | Setting name tok \<Rightarrow> (store_param name tok params, log)))"

definition initFcgiParam :: "(string \<Rightarrow> string list option) \<Rightarrow> string
    \<Rightarrow> FCGIParams \<times> log_entry list \<Rightarrow> (FCGIParams \<times> log_entry list) result" where
  "initFcgiParam fs fn st =
     (case fs fn of
        None \<Rightarrow> Inr (fst st, snd st @ [FileNotOpened fn])
      | Some lines \<Rightarrow> param_lines fn 0 lines st)"


section \<open>The configuration file\<close>

definition null_or :: "string \<Rightarrow> string option" where
  "null_or tok = (if tok = ''NULL'' then None else Some tok)"

text \<open>
  The case \<open>fcgiEnabled\<close> is \<open>config->enabled = tok\<close>: the pointer, which is never null
  here, converts to \<open>true\<close>.
\<close>

fun store_config :: "(string \<Rightarrow> string list option) \<Rightarrow> FcgiConfigKey \<Rightarrow> string
    \<Rightarrow> FcgiPluginConfig \<times> log_entry list \<Rightarrow> (FcgiPluginConfig \<times> log_entry list) result" where
  "store_config fs fcgiEnabled tok (c, log) = Inr (c\<lparr>cfg_enabled := True\<rparr>, log)"
| "store_config fs fcgiHostname tok (c, log) = Inr (c\<lparr>cfg_hostname := null_or tok\<rparr>, log)"
| "store_config fs fcgiServerIp tok (c, log) = Inr (c\<lparr>cfg_server_ip := null_or tok\<rparr>, log)"
| "store_config fs fcgiServerPort tok (c, log) = Inr (c\<lparr>cfg_server_port := null_or tok\<rparr>, log)"
| "store_config fs fcgiInclude tok (c, log) =
     (if tok = ''NULL'' then Inr (c\<lparr>cfg_include := None\<rparr>, log)
      else
        bindE (deref (cfg_params c)) (\<lambda>params.
        bindE (initFcgiParam fs tok (params, log)) (\<lambda>(params', log').
          Inr (c\<lparr>cfg_include := Some tok, cfg_params := Some params'\<rparr>, log'))))"
| "store_config fs fcgiDocumentRoot tok (c, log) = Inr (c\<lparr>cfg_document_root := null_or tok\<rparr>, log)"
| "store_config fs fcgiHtml tok (c, log) = Inr (c\<lparr>cfg_html := null_or tok\<rparr>, log)"
| "store_config fs fcgiMinConnections tok (c, log) = Inr (c\<lparr>cfg_min_connections := strtoll tok\<rparr>, log)"
| "store_config fs fcgiMaxConnections tok (c, log) = Inr (c\<lparr>cfg_max_connections := strtoll tok\<rparr>, log)"
| "store_config fs fcgiMaxRequests tok (c, log) = Inr (c\<lparr>cfg_max_requests := strtoll tok\<rparr>, log)"
| "store_config fs fcgiRequestQueueSize tok (c, log) = Inr (c\<lparr>cfg_request_queue_size := strtoll tok\<rparr>, log)"

fun config_lines :: "(string \<Rightarrow> string list option) \<Rightarrow> string \<Rightarrow> nat \<Rightarrow> string list
    \<Rightarrow> FcgiPluginConfig \<times> log_entry list \<Rightarrow> (FcgiPluginConfig \<times> log_entry list) result" where
  "config_lines fs fn line_num [] st = Inr st"
| "config_lines fs fn line_num (buf # lines) st =
     bindE (config_line buf) (\<lambda>l.
     bindE (case l of
              Skip \<Rightarrow> Inr st
            | Bad e \<Rightarrow> Inr (fst st, snd st @ [BadLine fn (Suc line_num) e])
            | Setting name tok \<Rightarrow> store_config fs name tok st) (\<lambda>st'.
       config_lines fs fn (Suc line_num) lines st'))"

text \<open>
  The defaults. The other branch of the code, which inherits from the global
  configuration, is taken when the freshly allocated \<open>plugin_data\<close> is null: never.
\<close>

definition default_config :: FcgiPluginConfig where
  "default_config = new_config\<lparr>cfg_enabled := True, cfg_hostname := Some ''localhost'',
     cfg_server_ip := Some ''127.0.0.1'', cfg_server_port := Some ''60000'',
     cfg_include := Some ''fastcgi.config'', cfg_document_root := Some ''/var/www/html/'',
     cfg_html := Some ''index.php'', cfg_params := Some [], cfg_max_connections := 10,
     cfg_min_connections := 4, cfg_max_requests := 1000, cfg_request_queue_size := 250\<rparr>"

definition initConfig :: "(string \<Rightarrow> string list option) \<Rightarrow> string option
    \<Rightarrow> (FcgiPluginConfig \<times> log_entry list) result" where
  "initConfig fs fn =
     (case fn of
        None \<Rightarrow> Inr (default_config, [])
      | Some f \<Rightarrow>
          if length f = 1 then
            (if f = ''0'' then Inr (default_config\<lparr>cfg_enabled := False\<rparr>, [])
             else if f = ''1'' then Inr (default_config\<lparr>cfg_enabled := True\<rparr>, [])
             else Inr (default_config, [ParameterIgnored f]))
          else
            (case fs f of
               None \<Rightarrow> Inr (default_config, [FileNotOpened f])
             | Some lines \<Rightarrow> config_lines fs f 0 lines (default_config, [])))"


section \<open>Facts about names and values\<close>

lemma find_name_prefix:
  "find_name table name (length name) =
     map_option snd (List.find (\<lambda>(s, _). prefix name s) table)"
  by (induction table name "length name" rule: find_name.induct)
    (auto simp: strncmp_eq_full)

lemma find_name_eq_Some:
  "find_name table name (length name) = Some (k, t) \<longleftrightarrow>
     (\<exists>i<length table. snd (table ! i) = (k, t) \<and> prefix name (fst (table ! i)) \<and>
        (\<forall>j<i. \<not> prefix name (fst (table ! j))))"
proof
  assume "find_name table name (length name) = Some (k, t)"
  then show "\<exists>i<length table. snd (table ! i) = (k, t) \<and> prefix name (fst (table ! i)) \<and>
        (\<forall>j<i. \<not> prefix name (fst (table ! j)))"
    by (auto simp: find_name_prefix find_Some_iff case_prod_beta) (metis fst_conv snd_conv)
next
  assume "\<exists>i<length table. snd (table ! i) = (k, t) \<and> prefix name (fst (table ! i)) \<and>
        (\<forall>j<i. \<not> prefix name (fst (table ! j)))"
  then obtain i where "i < length table" "table ! i = (fst (table ! i), k, t)"
      "prefix name (fst (table ! i))" "\<forall>j<i. \<not> prefix name (fst (table ! j))"
    by (metis prod.collapse)
  then have "List.find (\<lambda>(s, _). prefix name s) table = Some (fst (table ! i), k, t)"
    by (auto simp: find_Some_iff case_prod_beta)
  then show "find_name table name (length name) = Some (k, t)"
    by (simp add: find_name_prefix)
qed

lemma find_name_eq_None:
  "find_name table name (length name) = None \<longleftrightarrow> (\<forall>(s, _)\<in>set table. \<not> prefix name s)"
  by (fastforce simp: find_name_prefix find_None_iff case_prod_beta)

lemma rest_value_trim:
  assumes "\<forall>c\<in>set ws. isspace c" "\<forall>c\<in>set ws'. isspace c"
    and "v \<noteq> []" "\<not> isspace (hd v)" "\<not> isspace (last v)"
  shows "rest_value (ws @ v @ ws') = Some v"
proof -
  have a: "dropWhile isspace (ws @ v @ ws') = v @ ws'"
    using assms(1,3,4) by (cases v) (auto simp: dropWhile_append)
  have "rev v \<noteq> []" "\<not> isspace (hd (rev v))"
    using assms(3,5) by (simp_all add: hd_rev)
  then have "dropWhile isspace (rev v) = rev v" by (cases "rev v") auto
  then have b: "dropWhile isspace (rev (v @ ws')) = rev v"
    using assms(2,3) by (auto simp: dropWhile_append)
  from a b assms(3) show ?thesis by (simp add: rest_value_def Let_def)
qed

lemma rest_value_blank: "\<forall>c\<in>set ws. isspace c \<Longrightarrow> rest_value ws = None"
  by (simp add: rest_value_def Let_def)

fun type_name :: "TSRecordDataType \<Rightarrow> string" where
  "type_name TS_RECORDDATATYPE_INT = ''INT''"
| "type_name TS_RECORDDATATYPE_STRING = ''STRING''"
| "type_name TS_RECORDDATATYPE_NULL = []"

lemma str_to_datatype_type_name: "str_to_datatype (Some (type_name t)) = t"
  by (cases t) (simp_all add: str_to_datatype_def)

lemma type_name_token: "t \<noteq> TS_RECORDDATATYPE_NULL \<Longrightarrow> type_name t \<noteq> [] \<and> (\<forall>c\<in>set (type_name t). \<not> is_delim c)"
  by (cases t) (simp_all add: is_delim_def)


section \<open>The line format\<close>

text \<open>
  What both files promise about a line, for any keyword and name table that satisfy the
  assumptions: keyword and names are single tokens, and every name finds its own entry.
\<close>

definition token :: "string \<Rightarrow> bool" where
  "token s \<longleftrightarrow> s \<noteq> [] \<and> (\<forall>c\<in>set s. \<not> isspace c)"

definition good_table :: "(string \<times> 'k \<times> TSRecordDataType) list \<Rightarrow> bool" where
  "good_table table \<longleftrightarrow>
     list_all (\<lambda>(s, k, t). token s \<and> t \<noteq> TS_RECORDDATATYPE_NULL \<and>
       find_name table s (length s) = Some (k, t)) table"

lemma token_delim: "token s \<Longrightarrow> s \<noteq> [] \<and> (\<forall>c\<in>set s. \<not> is_delim c)"
  by (auto simp: token_def is_delim_isspace)

locale line_format =
  fixes keyword :: string
    and table :: "(string \<times> 'k \<times> TSRecordDataType) list"
    and lookup :: "string option \<Rightarrow> int \<Rightarrow> ('k \<times> TSRecordDataType) option result"
  assumes lookup_null: "lookup None (-1) = Inl NullDeref"
    and lookup_name: "lookup (Some nm) (-1) = Inr (find_name table nm (length nm))"
    and keyword_token: "token keyword" "hd keyword \<noteq> CHR ''#''"
    and table_good: "good_table table"
begin

lemma strip_token:
  "\<forall>c\<in>set ws. isspace c \<Longrightarrow> token t \<Longrightarrow> dropWhile isspace (ws @ t @ rest) = t @ rest"
  by (cases t) (auto simp: token_def dropWhile_append)

lemma first_token:
  assumes "\<forall>c\<in>set ws. isspace c" "is_delim d"
  shows "strtok_r (dropWhile isspace (ws @ keyword @ d # rest)) = (Some keyword, rest)"
  using assms keyword_token token_delim [of keyword] strtok_r_token [of "[]" keyword d rest]
    strip_token [of ws keyword "d # rest"]
  by simp

lemma well_formed_line:
  assumes "\<forall>c\<in>set ws0. isspace c" "\<forall>c\<in>set ws1. is_delim c" "\<forall>c\<in>set ws2. is_delim c"
    and "\<forall>c\<in>set ws3. isspace c" "\<forall>c\<in>set ws4. isspace c"
    and "is_delim d1" "is_delim d2" "is_delim d3"
    and "(name, k, typ) \<in> set table"
    and "v \<noteq> []" "\<not> isspace (hd v)" "\<not> isspace (last v)"
  shows "parse_line keyword lookup
           (ws0 @ keyword @ d1 # ws1 @ name @ d2 # ws2 @ type_name typ @ d3 # ws3 @ v @ ws4)
         = Inr (Setting k v)"
proof -
  from assms(9) table_good
  have n: "token name" "typ \<noteq> TS_RECORDDATATYPE_NULL" "find_name table name (length name) = Some (k, typ)"
    by (auto simp: good_table_def list_all_iff)
  have n': "strtok_r (ws1 @ name @ d2 # r) = (Some name, r)" for r
    using assms(2,7) token_delim [OF n(1)] by (intro strtok_r_token) auto
  have t': "strtok_r (ws2 @ type_name typ @ d3 # r) = (Some (type_name typ), r)" for r
    using assms(3,8) type_name_token [OF n(2)] by (intro strtok_r_token) auto
  have v': "rest_value (ws3 @ v @ ws4) = Some v"
    using assms(4,5,10-12) by (rule rest_value_trim)
  show ?thesis
    using keyword_token n(2)
    by (simp add: parse_line_def first_token [OF assms(1,6)] strncmp_eq_def lookup_name
        n' t' v' n(3) str_to_datatype_type_name Let_def)
qed

lemma bare_keyword_crashes:
  assumes "\<forall>c\<in>set ws0. isspace c" "\<forall>c\<in>set ws1. is_delim c"
  shows "parse_line keyword lookup (ws0 @ keyword @ ws1) = Inl NullDeref"
proof -
  have "strtok_r (dropWhile isspace (ws0 @ keyword @ ws1)) = (Some keyword, tl ws1)"
  proof (cases ws1)
    case Nil
    then show ?thesis
      using assms(1) keyword_token token_delim [of keyword] strtok_r_token_end [of "[]" keyword]
        strip_token [of ws0 keyword "[]"] by simp
  next
    case (Cons d ws)
    then show ?thesis using assms first_token [of ws0 d ws] by simp
  qed
  moreover have "strtok_r (tl ws1) = (None, [])"
    using assms(2) by (cases ws1) (auto simp: strtok_r_None)
  ultimately show ?thesis
    using keyword_token by (simp add: parse_line_def strncmp_eq_def lookup_null)
qed

lemma comment_line:
  assumes "\<forall>c\<in>set ws. isspace c"
  shows "parse_line keyword lookup (ws @ CHR ''#'' # rest) = Inr Skip"
proof -
  have "dropWhile isspace (ws @ CHR ''#'' # rest) = CHR ''#'' # rest"
    using assms by (auto simp: dropWhile_append isspace_def)
  then show ?thesis by (auto simp: parse_line_def strtok_r_def is_delim_def Let_def)
qed

lemma blank_line: "\<forall>c\<in>set ws. isspace c \<Longrightarrow> parse_line keyword lookup ws = Inr Skip"
  by (auto simp: parse_line_def strtok_r_def Let_def dropWhile_eq_Nil_conv [THEN iffD2])

end

lemma config_names_good: "good_table config_names"
  by code_simp

lemma param_names_good: "good_table param_names"
  by code_simp

interpretation config_format: line_format "''CONFIG''" config_names fcgiHttpTxnConfigFind
  by unfold_locales
    (simp_all add: fcgiHttpTxnConfigFind_def name_length_def config_names_good token_def isspace_def)

interpretation param_format: line_format "''fastcgi_param''" param_names fcgiParamConfigFind
  by unfold_locales
    (simp_all add: fcgiParamConfigFind_def name_length_def param_names_good token_def isspace_def)


section \<open>Files\<close>

text \<open>A setting as it is written in a file, one blank between the tokens.\<close>

definition render_line :: "string \<Rightarrow> (string \<times> 'k \<times> TSRecordDataType) \<times> string \<Rightarrow> string" where
  "render_line keyword e =
     (case e of ((name, k, typ), v) \<Rightarrow>
        keyword @ '' '' @ name @ '' '' @ type_name typ @ '' '' @ v @ [CHR 0x0A])"

definition trimmed :: "string \<Rightarrow> bool" where
  "trimmed v \<longleftrightarrow> v \<noteq> [] \<and> \<not> isspace (hd v) \<and> \<not> isspace (last v)"

lemma config_line_render:
  assumes "fst e \<in> set config_names" "trimmed (snd e)"
  shows "config_line (render_line ''CONFIG'' e) = Inr (Setting (fst (snd (fst e))) (snd e))"
proof -
  obtain name k ty v where "e = ((name, k, ty), v)" by (metis prod.collapse)
  then show ?thesis
    using config_format.well_formed_line
        [of "[]" "[]" "[]" "[]" "[CHR 0x0A]" "CHR '' ''" "CHR '' ''" "CHR '' ''" name k ty v] assms
    by (auto simp: config_line_def render_line_def trimmed_def is_delim_def isspace_def)
qed

lemma param_line_render:
  assumes "fst e \<in> set param_names" "trimmed (snd e)"
  shows "param_line (render_line ''fastcgi_param'' e) = Inr (Setting (fst (snd (fst e))) (snd e))"
proof -
  obtain name k ty v where "e = ((name, k, ty), v)" by (metis prod.collapse)
  then show ?thesis
    using param_format.well_formed_line
        [of "[]" "[]" "[]" "[]" "[CHR 0x0A]" "CHR '' ''" "CHR '' ''" "CHR '' ''" name k ty v] assms
    by (auto simp: param_line_def render_line_def trimmed_def is_delim_def isspace_def)
qed

lemma config_lines_Nil: "config_lines fs fn n [] = Inr"
  by (rule ext) simp

lemma config_lines_append:
  "config_lines fs fn n (ls @ ls') st =
     bindE (config_lines fs fn n ls st) (config_lines fs fn (n + length ls) ls')"
proof (induction ls arbitrary: n st)
  case Nil
  show ?case by simp
next
  case (Cons buf ls)
  have "config_lines fs fn m (ls @ ls') =
      (\<lambda>st. bindE (config_lines fs fn m ls st) (config_lines fs fn (m + length ls) ls'))" for m
    by (rule ext) (rule Cons.IH)
  then show ?case by (simp add: bindE_assoc)
qed

lemma store_config_enabled:
  "store_config fs k v st = Inr st' \<Longrightarrow> cfg_enabled (fst st) \<Longrightarrow> cfg_enabled (fst st')"
  by (cases st; cases k) (auto simp: crash_simps split: if_splits prod.splits)

lemma config_lines_enabled:
  "config_lines fs fn n ls st = Inr st' \<Longrightarrow> cfg_enabled (fst st) \<Longrightarrow> cfg_enabled (fst st')"
proof (induction ls arbitrary: n st)
  case Nil
  then show ?case by simp
next
  case (Cons buf ls)
  then obtain l st1 where
      "(case l of Skip \<Rightarrow> Inr st | Bad e \<Rightarrow> Inr (fst st, snd st @ [BadLine fn (Suc n) e])
        | Setting name tok \<Rightarrow> store_config fs name tok st) = Inr st1"
      and rest: "config_lines fs fn (Suc n) ls st1 = Inr st'"
    by (auto simp: bindE_eq_Inr)
  then have "cfg_enabled (fst st1)"
    using Cons.prems(2) by (cases l) (auto dest: store_config_enabled)
  with rest show ?case by (rule Cons.IH)
qed

lemma param_lines_render:
  assumes "\<forall>e\<in>set es. fst e \<in> set param_names \<and> trimmed (snd e)"
  shows "param_lines fn n (map (render_line ''fastcgi_param'') es) (params, log) =
    Inr (fold (\<lambda>e. store_param (fst (snd (fst e))) (snd e)) es params, log)"
  using assms by (induction es arbitrary: n params) (simp_all add: param_line_render)

lemma fold_store_param:
  "fold (\<lambda>e. store_param (fst (snd (fst e))) (snd e)) es params =
     fold (\<lambda>(k, v). map_insert k v)
       (map (\<lambda>e. (param_key_name (fst (snd (fst e))), if snd e = ''NULL'' then [] else snd e)) es)
       params"
  by (induction es arbitrary: params) (simp_all add: store_param_def)


section \<open>Properties\<close>

text \<open>
  a line of the form \<open>CONFIG name TYPE value\<close>, with a name of the table, the type that
  belongs to it, blanks or tabs between the tokens and white space around the line, is
  read as a setting of exactly that name with exactly that value.
\<close>

theorem config_line_well_formed:
  assumes "\<forall>c\<in>set ws0. isspace c" "\<forall>c\<in>set ws1. is_delim c" "\<forall>c\<in>set ws2. is_delim c"
    and "\<forall>c\<in>set ws3. isspace c" "\<forall>c\<in>set ws4. isspace c"
    and "is_delim d1" "is_delim d2" "is_delim d3"
    and "(name, k, typ) \<in> set config_names"
    and "v \<noteq> []" "\<not> isspace (hd v)" "\<not> isspace (last v)"
  shows "config_line
           (ws0 @ ''CONFIG'' @ d1 # ws1 @ name @ d2 # ws2 @ type_name typ @ d3 # ws3 @ v @ ws4)
         = Inr (Setting k v)"
  unfolding config_line_def using assms by (rule config_format.well_formed_line)

theorem config_line_well_formed_witness:
  "config_line (''CONFIG proxy.config.http.fcgi.host.html STRING  index.php '' @ [CHR 0x0A])
     = Inr (Setting fcgiHtml ''index.php'')"
  using config_line_well_formed
      [of "[]" "[]" "[]" "'' ''" "'' '' @ [CHR 0x0A]" "CHR '' ''" "CHR '' ''" "CHR '' ''"
        "''proxy.config.http.fcgi.host.html''" fcgiHtml TS_RECORDDATATYPE_STRING "''index.php''"]
  by (simp add: is_delim_def isspace_def config_names_def)

text \<open>
  names are matched up to the length of the name that is read, so a name finds the
  first entry of the table that it is a prefix of; it finds none only when it is a prefix
  of no entry.
\<close>

theorem config_find_first_prefix:
  "(fcgiHttpTxnConfigFind (Some name) (-1) = Inr (Some (k, t)) \<longleftrightarrow>
      (\<exists>i<length config_names. snd (config_names ! i) = (k, t) \<and>
         prefix name (fst (config_names ! i)) \<and>
         (\<forall>j<i. \<not> prefix name (fst (config_names ! j))))) \<and>
   (fcgiHttpTxnConfigFind (Some name) (-1) = Inr None \<longleftrightarrow>
      (\<forall>(s, _)\<in>set config_names. \<not> prefix name s))"
  by (simp add: fcgiHttpTxnConfigFind_def name_length_def find_name_eq_Some find_name_eq_None)

theorem config_find_first_prefix_witness:
  "fcgiHttpTxnConfigFind (Some ''proxy.config.http.fcgi.host.h'') (-1) =
     Inr (Some (fcgiHostname, TS_RECORDDATATYPE_STRING))"
proof -
  let ?n = "''proxy.config.http.fcgi.host.h''"
  have "1 < length config_names \<and> snd (config_names ! 1) = (fcgiHostname, TS_RECORDDATATYPE_STRING) \<and>
      prefix ?n (fst (config_names ! 1)) \<and> (\<forall>j<1. \<not> prefix ?n (fst (config_names ! j)))"
    by (simp add: config_names_def)
  then show ?thesis
    using config_find_first_prefix [of ?n fcgiHostname TS_RECORDDATATYPE_STRING] by blast
qed

lemma config_lines_stored:
  assumes "\<forall>e\<in>set es. fst e \<in> set config_names \<and> trimmed (snd e)"
  shows "config_lines fs fn n (map (render_line ''CONFIG'') es) st =
    foldl (\<lambda>r e. bindE r (store_config fs (fst (snd (fst e))) (snd e))) (Inr st) es"
  using assms
proof (induction es arbitrary: n st rule: rev_induct)
  case Nil
  show ?case by simp
next
  case (snoc e es)
  have "config_lines fs fn m [render_line ''CONFIG'' e] = store_config fs (fst (snd (fst e))) (snd e)" for m
    using snoc.prems by (simp add: fun_eq_iff config_line_render config_lines_Nil)
  with snoc show ?case by (simp add: config_lines_append)
qed

lemma store_config_quiet:
  "k \<noteq> fcgiInclude \<or> tok = ''NULL'' \<Longrightarrow> \<exists>c. store_config fs k tok st = Inr (c, snd st)"
  by (cases st; cases k) simp_all

lemma stored_quiet:
  assumes "\<forall>e\<in>set es. fst (snd (fst e)) \<noteq> fcgiInclude \<or> snd e = ''NULL''"
  shows "\<exists>c. foldl (\<lambda>r e. bindE r (store_config fs (fst (snd (fst e))) (snd e))) (Inr st) es = Inr (c, snd st)"
  using assms
proof (induction es rule: rev_induct)
  case Nil
  show ?case by (cases st) simp
next
  case (snoc e es)
  then obtain c where "foldl (\<lambda>r e. bindE r (store_config fs (fst (snd (fst e))) (snd e))) (Inr st) es = Inr (c, snd st)"
    by auto
  then show ?case using snoc.prems store_config_quiet [of "fst (snd (fst e))" "snd e" fs "(c, snd st)"] by auto
qed

text \<open>
  C37: every line of a file of written settings (the keyword, a name, its type and a trimmed value) is found again by the
  line parser: reading the file is storing each value under its name, in the order of the lines. How a value is stored
  is up to \<open>store_config\<close>: a text as it is, or nothing for \<open>NULL\<close>, a number as \<open>strtoll\<close> reads it, \<open>enabled\<close> always as true,
  also for the value 0, and for an include the file it names is read. Without an include
  (other than \<open>NULL\<close>) the file is read to its end and nothing is reported.
\<close>

theorem config_lines_roundtrip:
  assumes "\<forall>e\<in>set es. fst e \<in> set config_names \<and> trimmed (snd e)"
  shows "config_lines fs fn n (map (render_line ''CONFIG'') es) st =
      foldl (\<lambda>r e. bindE r (store_config fs (fst (snd (fst e))) (snd e))) (Inr st) es \<and>
    ((\<forall>e\<in>set es. fst (snd (fst e)) \<noteq> fcgiInclude \<or> snd e = ''NULL'') \<longrightarrow>
      (\<exists>c. config_lines fs fn n (map (render_line ''CONFIG'') es) st = Inr (c, snd st)))"
  using config_lines_stored [OF assms] stored_quiet [of es fs st] by simp

theorem config_lines_roundtrip_witness:
  "config_lines (\<lambda>_. None) ''f'' 0
     [''CONFIG proxy.config.http.fcgi.host.max_connections INT 12'' @ [CHR 0x0A]] (default_config, [])
   = Inr (default_config\<lparr>cfg_max_connections := 12\<rparr>, [])"
proof -
  let ?e = "((''proxy.config.http.fcgi.host.max_connections'', fcgiMaxConnections,
      TS_RECORDDATATYPE_INT), ''12'')"
  have "strtoll ''12'' = 12" by code_simp
  moreover have "\<forall>e\<in>set [?e]. fst e \<in> set config_names \<and> trimmed (snd e)"
    by (simp add: config_names_def trimmed_def isspace_def)
  ultimately show ?thesis
    using config_lines_roundtrip [of "[?e]" "\<lambda>_. None" "''f''" 0 "(default_config, [])"]
    by (simp add: render_line_def)
qed

text \<open>
  whatever the configuration file says, the plugin is enabled unless the argument
  itself is the one-character string \<open>0\<close>: the line \<open>CONFIG proxy.config.http.fcgi.enabled INT 0\<close>
  does not disable it.
\<close>

theorem enabled_unless_argument_0:
  assumes "initConfig fs fn = Inr (c, log)"
  shows "getFcgiEnabledStatus c \<longleftrightarrow> fn \<noteq> Some ''0''"
proof -
  have d: "cfg_enabled default_config" by (simp add: default_config_def)
  have "cfg_enabled c" if "config_lines fs f 0 ls (default_config, []) = Inr (c, log)" for f ls
    using config_lines_enabled [OF that] d by simp
  with assms d show ?thesis
    by (auto simp: initConfig_def getFcgiEnabledStatus_def split: option.splits if_splits)
qed

theorem enabled_unless_argument_0_witness:
  "\<exists>c log. initConfig (\<lambda>_. Some [''CONFIG proxy.config.http.fcgi.enabled INT 0'']) (Some ''f.c'')
      = Inr (c, log) \<and> getFcgiEnabledStatus c"
proof -
  let ?fs = "\<lambda>_. Some [''CONFIG proxy.config.http.fcgi.enabled INT 0'']"
  have l: "config_line ''CONFIG proxy.config.http.fcgi.enabled INT 0'' = Inr (Setting fcgiEnabled ''0'')"
    by code_simp
  have i: "initConfig ?fs (Some ''f.c'') = Inr (default_config\<lparr>cfg_enabled := True\<rparr>, [])"
    by (simp add: initConfig_def l)
  show ?thesis using i enabled_unless_argument_0 [OF i] by simp
qed

text \<open>
  a line that holds the keyword and nothing more stops the server: the missing
  name is a null pointer and its length is taken. No file with such a line loads.
\<close>

theorem bare_config_keyword_crashes:
  assumes "fs fn = Some (ls @ (ws0 @ ''CONFIG'' @ ws1) # ls')" "length fn \<noteq> 1"
    and "\<forall>c\<in>set ws0. isspace c" "\<forall>c\<in>set ws1. is_delim c"
  shows "\<exists>e. initConfig fs (Some fn) = Inl e"
proof -
  have "config_line (ws0 @ ''CONFIG'' @ ws1) = Inl NullDeref"
    unfolding config_line_def using assms(3,4) by (rule config_format.bare_keyword_crashes)
  then have "config_lines fs fn n ((ws0 @ ''CONFIG'' @ ws1) # ls') st = Inl NullDeref" for n st
    by simp
  then have "\<exists>e. config_lines fs fn 0 (ls @ (ws0 @ ''CONFIG'' @ ws1) # ls') (default_config, []) = Inl e"
    by (cases "config_lines fs fn 0 ls (default_config, [])") (simp_all only: config_lines_append
      bindE_Inl bindE_Inr; blast)+
  with assms(1,2) show ?thesis by (auto simp: initConfig_def)
qed

theorem bare_config_keyword_crashes_witness:
  "\<exists>e. initConfig (\<lambda>_. Some [''CONFIG'']) (Some ''f.c'') = Inl e"
  using bare_config_keyword_crashes [of "\<lambda>_. Some [''CONFIG'']" "''f.c''" "[]" "[]" "[]" "[]"]
  by simp

text \<open>
  a parameter file of written settings adds these parameters; where a name occurs
  more than once, or was there before, the first value stays. The value \<open>NULL\<close> stands
  for the empty string.
\<close>

theorem param_file_first_value_wins:
  assumes "fs fn = Some (map (render_line ''fastcgi_param'') es)"
    and "\<forall>e\<in>set es. fst e \<in> set param_names \<and> trimmed (snd e)"
  shows "\<exists>params'. initFcgiParam fs fn (params, log) = Inr (params', log) \<and>
    map_find params' =
      map_of (map (\<lambda>e. (param_key_name (fst (snd (fst e))),
                        if snd e = ''NULL'' then [] else snd e)) es) ++ map_find params"
  using assms by (simp add: initFcgiParam_def param_lines_render fold_store_param std_map.get_ins_all)

theorem param_file_first_value_wins_witness:
  "\<exists>params'. initFcgiParam (\<lambda>_. Some [''fastcgi_param SERVER_PORT STRING 80'' @ [CHR 0x0A],
        ''fastcgi_param SERVER_PORT STRING 81'' @ [CHR 0x0A]]) ''f'' ([], []) = Inr (params', []) \<and>
     map_find params' ''SERVER_PORT'' = Some ''80''"
proof -
  let ?n = "(''SERVER_PORT'', serverPort, TS_RECORDDATATYPE_STRING)"
  let ?es = "[(?n, ''80''), (?n, ''81'')]"
  have e: "\<forall>e\<in>set ?es. fst e \<in> set param_names \<and> trimmed (snd e)"
    by (simp add: param_names_def trimmed_def isspace_def)
  have "map (render_line ''fastcgi_param'') ?es = [''fastcgi_param SERVER_PORT STRING 80'' @ [CHR 0x0A],
        ''fastcgi_param SERVER_PORT STRING 81'' @ [CHR 0x0A]]"
    by (simp add: render_line_def)
  with param_file_first_value_wins
      [of "\<lambda>_. Some (map (render_line ''fastcgi_param'') ?es)" "''f''" ?es "[]" "[]", OF refl e]
  show ?thesis by (auto simp: map_add_def)
qed

end
