(* ===== verification/Fcgi_Request.thy ===== *)
theory Fcgi_Request
  imports Fcgi_Wire Fcgi_Config
begin

text \<open>
  The request side of \<open>FCGIClientRequest\<close> (\<open>ats_fcgi_client.cc\<close>, \<open>ats_fcgi_client.h\<close>): the
  CGI variables built from the client's request, and the records written to the buffer that
  is then sent to the backend. \<open>FCGIClientState\<close> is the code's struct; its pointer
  \<open>pBuffInc\<close> into the block \<open>buff\<close> is the offset from its start. What the plugin reads of
  the client's request through the \<open>atscppapi\<close> classes is the parameter \<open>ats_request\<close>.
\<close>

section \<open>State\<close>

definition BUF_SIZE :: int where "BUF_SIZE = 5000"

record ats_request =
  rq_headers :: "(string \<times> string) list option"  \<comment> \<open>name and \<open>values()\<close>; \<open>None\<close>: not initialised\<close>
  rq_find :: "string \<Rightarrow> string option"  \<comment> \<open>\<open>find(key)\<close> and then \<open>values(",")\<close>\<close>
  rq_path :: string
  rq_query :: string
  rq_method :: string  \<comment> \<open>\<open>HTTP_METHOD_STRINGS[getMethod()]\<close>\<close>

record FCGIClientState =
  buff :: bytes
  pBuffInc :: nat
  request :: "(FCGI_Header \<times> FCGI_BeginRequestBody) option"
  header :: "FCGI_Header option"
  postHeader :: "FCGI_Header option"
  requestHeaders :: "(string, string) std_map"
  request_id :: uint


section \<open>The CGI variables\<close>

definition endsWith :: "string \<Rightarrow> string \<Rightarrow> bool" where
  "endsWith mainStr toMatch \<longleftrightarrow>
     length toMatch \<le> length mainStr \<and> drop (length mainStr - length toMatch) mainStr = toMatch"

definition http_name :: "string \<Rightarrow> string" where
  "http_name name = ''HTTP_'' @ map char_toupper (c_str name)"

definition request_script :: "FcgiPluginConfig \<Rightarrow> ats_request \<Rightarrow> string result" where
  "request_script cfg rq =
     (if endsWith (rq_path rq) ''/''
      then bindE (deref (getHtml cfg)) (\<lambda>index. Inr (rq_path rq @ index))
      else Inr (rq_path rq))"

definition fixed_headers :: "string \<Rightarrow> string \<Rightarrow> ats_request \<Rightarrow> (string \<times> string) list" where
  "fixed_headers root script rq =
     [(''DOCUMENT_ROOT'', root),
      (''SCRIPT_FILENAME'', root @ script),
      (''GATEWAY_INTERFACE'', ''FastCGI/1.1''),
      (''REQUEST_METHOD'', rq_method rq),
      (''SCRIPT_NAME'', ''/'' @ script),
      (''QUERY_STRING'', rq_query rq),
      (''REQUEST_URI'', ''/'' @ script),
      (''SERVER_SOFTWARE'', ''ATS 7.1.1''),
      (''REMOTE_ADDR'', ''127.0.0.1''),
      (''REMOTE_PORT'', ''8090''),
      (''SERVER_ADDR'', ''127.0.0.1''),
      (''SERVER_PORT'', ''60000''),
      (''SERVER_NAME'', ''ATS 7.1.1''),
      (''SERVER_PROTOCOL'', ''HTTP/1.1''),
      (''FCGI_ROLE'', ''RESPONDER'')]"

definition client_headers :: "ats_request \<Rightarrow> (string \<times> string) list" where
  "client_headers rq =
     (case rq_headers rq of
        None \<Rightarrow> []
      | Some hs \<Rightarrow> map (\<lambda>(name, value). (http_name name, value)) hs)"

definition GenerateFcgiRequestHeaders :: "FcgiPluginConfig \<Rightarrow> ats_request
    \<Rightarrow> (string, string) std_map result" where
  "GenerateFcgiRequestHeaders cfg rq =
     (let fcgiReqHeader = fold (\<lambda>(k, v). map_set k v) (client_headers rq) []
      in bindE (request_script cfg rq) (\<lambda>script.
         bindE (deref (getDocumentRootDir cfg)) (\<lambda>root.
           Inr (fold (\<lambda>(k, v). map_set k v) (fixed_headers root script rq) fcgiReqHeader))))"

text \<open>
  \<open>TSmalloc(BUF_SIZE + contentLength)\<close>: the sum is an \<open>int\<close>, and a negative size converts
  to one no allocation satisfies.
\<close>

definition alloc_buffer :: "uchar \<Rightarrow> int \<Rightarrow> bytes result" where
  "alloc_buffer junk n =
     (if 2 ^ 31 \<le> n then Inl IntOverflow
      else if n < 0 then Inl AllocFailed
      else Inr (ts_malloc junk (nat n)))"

definition post_headers :: "ats_request \<Rightarrow> (string, string) std_map \<Rightarrow> (string, string) std_map" where
  "post_headers rq m =
     (case rq_headers rq of
        None \<Rightarrow> m
      | Some _ \<Rightarrow>
          (let m = (case rq_find rq ''Content-Length'' of
                      None \<Rightarrow> m | Some v \<Rightarrow> map_set ''CONTENT_LENGTH'' (c_str v) m)
           in case rq_find rq ''Content-type'' of
                None \<Rightarrow> m | Some v \<Rightarrow> map_set ''CONTENT_TYPE'' (c_str v) m))"

text \<open>The part of the constructor \<open>FCGIClientRequest::FCGIClientRequest\<close> that sets up \<open>state_\<close>.\<close>

definition new_client_state :: "uchar \<Rightarrow> FcgiPluginConfig \<Rightarrow> ats_request \<Rightarrow> uint
    \<Rightarrow> FCGIClientState result" where
  "new_client_state junk cfg rq rid =
     bindE (GenerateFcgiRequestHeaders cfg rq) (\<lambda>m.
       let (rmethod, m) = map_index [] ''REQUEST_METHOD'' m;
           (size, m) =
             (if rmethod = ''POST'' then
                let (cl, m) = map_index [] ''CONTENT_LENGTH'' (post_headers rq m)
                in (BUF_SIZE + istream_int cl, m)
              else (BUF_SIZE, m))
       in bindE (alloc_buffer junk size) (\<lambda>mem.
            Inr \<lparr>buff = mem, pBuffInc = 0, request = None, header = None, postHeader = None,
                 requestHeaders = m, request_id = rid\<rparr>))"


section \<open>Records\<close>

definition fcgiHeaderSetRequestId :: "FCGI_Header \<Rightarrow> uint \<Rightarrow> FCGI_Header" where
  "fcgiHeaderSetRequestId h rid =
     h\<lparr>h_requestIdB0 := BYTE_0 rid, h_requestIdB1 := BYTE_1 rid\<rparr>"

definition fcgiHeaderSetContentLen :: "FCGI_Header \<Rightarrow> 16 word \<Rightarrow> FCGI_Header" where
  "fcgiHeaderSetContentLen h len =
     h\<lparr>h_contentLengthB0 := BYTE_0 (ucast len), h_contentLengthB1 := BYTE_1 (ucast len)\<rparr>"

definition fcgiHeaderGetContentLen :: "FCGI_Header \<Rightarrow> uint" where
  "fcgiHeaderGetContentLen h =
     push_bit 8 (ucast (h_contentLengthB1 h)) + ucast (h_contentLengthB0 h)"

text \<open>The lines that store a length in a header without \<open>fcgiHeaderSetContentLen\<close>.\<close>

definition set_len :: "FCGI_Header \<Rightarrow> uint \<Rightarrow> FCGI_Header" where
  "set_len h len = h\<lparr>h_contentLengthB0 := BYTE_0 len, h_contentLengthB1 := BYTE_1 len\<rparr>"

definition createHeader :: "uchar \<Rightarrow> FCGIClientState \<Rightarrow> FCGI_Header" where
  "createHeader rtype st =
     fcgiHeaderSetRequestId (zero_header\<lparr>h_version := FCGI_VERSION_1, h_type := rtype\<rparr>)
       (request_id st)"

text \<open>\<open>serialize(pBuffInc, ...)\<close> and the increment of \<open>pBuffInc\<close> that always follows it.\<close>

definition emit :: "FCGIClientState \<Rightarrow> bytes \<Rightarrow> FCGIClientState result" where
  "emit st bs =
     bindE (mem_write (pBuffInc st) bs (buff st)) (\<lambda>mem.
       Inr (st\<lparr>buff := mem, pBuffInc := pBuffInc st + length bs\<rparr>))"

definition len_bytes :: "uint \<Rightarrow> bytes" where
  "len_bytes n = (if n < 128 then [BYTE_0 n] else [BYTE_3 n, BYTE_2 n, BYTE_1 n, BYTE_0 n])"

definition name_value_bytes :: "string \<times> string \<Rightarrow> bytes" where
  "name_value_bytes it =
     (let nl = word_of_nat (length (fst it)); vl = word_of_nat (length (snd it))
      in len_bytes nl @ len_bytes vl @
         take (unat nl) (str_bytes (fst it)) @ take (unat vl) (str_bytes (snd it)))"

definition serializeNameValue :: "nat \<Rightarrow> string \<times> string \<Rightarrow> bytes \<Rightarrow> (uint \<times> bytes) result" where
  "serializeNameValue pos it mem =
     bindE (mem_write pos (name_value_bytes it) mem) (\<lambda>mem'.
       Inr (word_of_nat (length (name_value_bytes it)), mem'))"

text \<open>
  The first loop of \<open>createBeginRequest\<close> only wants the total length, but it gets it by
  writing every pair to the same place, \<open>pBuffInc\<close>. The sum \<open>len\<close> is an \<open>int\<close> in the code, of which only the two
  low bytes are used; here it is counted modulo 2^32, so its overflow, from 2^31 bytes of variables on, is not modelled.
\<close>

fun params_length :: "(string, string) std_map \<Rightarrow> uint \<Rightarrow> FCGIClientState
    \<Rightarrow> (uint \<times> FCGIClientState) result" where
  "params_length [] len st = Inr (len, st)"
| "params_length (it # its) len st =
     bindE (serializeNameValue (pBuffInc st) it (buff st)) (\<lambda>(nb, mem).
       params_length its (len + nb) (st\<lparr>buff := mem\<rparr>))"

fun params_serialize :: "(string, string) std_map \<Rightarrow> FCGIClientState \<Rightarrow> FCGIClientState result" where
  "params_serialize [] st = Inr st"
| "params_serialize (it # its) st =
     bindE (serializeNameValue (pBuffInc st) it (buff st)) (\<lambda>(nb, mem).
       params_serialize its (st\<lparr>buff := mem, pBuffInc := pBuffInc st + unat nb\<rparr>))"

definition createBeginRequest :: "FCGIClientState \<Rightarrow> FCGIClientState result" where
  "createBeginRequest st =
     (let h = (createHeader FCGI_BEGIN_REQUEST st)\<lparr>h_contentLengthB0 := 8\<rparr>;
          b = zero_begin_body\<lparr>b_roleB0 := FCGI_RESPONDER, b_flags := FCGI_KEEP_CONN\<rparr>
      in bindE (emit (st\<lparr>request := Some (h, b)\<rparr>) (header_bytes h)) (\<lambda>st.
         bindE (emit st (begin_body_bytes b)) (\<lambda>st.
         bindE (params_length (requestHeaders st) 0 st) (\<lambda>(len, st).
         let h = set_len (createHeader FCGI_PARAMS st) len
         in bindE (emit st (header_bytes h)) (\<lambda>st.
            bindE (params_serialize (requestHeaders st) st) (\<lambda>st.
            let h = set_len h 0
            in emit (st\<lparr>header := Some h\<rparr>) (header_bytes h)))))))"

text \<open>
  \<open>dataLen\<close> is an \<open>int\<close>; as the size of \<open>memcpy\<close> a negative one is larger than any block.
\<close>

definition postBodyChunk :: "string \<Rightarrow> FCGIClientState \<Rightarrow> FCGIClientState result" where
  "postBodyChunk postData st =
     (let dataLen = (word_of_nat (length postData) :: uint);
          h = set_len (createHeader FCGI_STDIN st) dataLen
      in bindE (emit (st\<lparr>pBuffInc := 0\<rparr>) (header_bytes h)) (\<lambda>st.
         bindE (if sint dataLen < 0 then Inl BufferOverflow
                else emit st (take (nat (sint dataLen)) (str_bytes postData))) (\<lambda>st.
         let h = set_len h 0
         in emit (st\<lparr>postHeader := Some h\<rparr>) (header_bytes h))))"

definition emptyParam :: "FCGIClientState \<Rightarrow> FCGIClientState result" where
  "emptyParam st =
     (let (rmethod, m) = map_index [] ''REQUEST_METHOD'' (requestHeaders st);
          st = st\<lparr>pBuffInc := 0, requestHeaders := m\<rparr>
      in if rmethod \<noteq> ''POST''
         then let h = set_len (createHeader FCGI_STDIN st) 0
              in emit (st\<lparr>postHeader := Some h\<rparr>) (header_bytes h)
         else Inr st)"

text \<open>\<open>addClientRequest\<close>: what is sent are the first \<open>dataLen\<close> bytes of the buffer.\<close>

definition addClientRequest :: "FCGIClientState \<Rightarrow> int \<times> bytes" where
  "addClientRequest st = (int (pBuffInc st), buff st)"

definition sent :: "FCGIClientState \<Rightarrow> bytes" where
  "sent st = take (pBuffInc st) (buff st)"


section \<open>Writing to the buffer\<close>

text \<open>
  The interface of a bounded output: a write appends or overflows, and keeps the rest of the
  state. Clients write lists of chunks.
\<close>

locale byte_sink =
  fixes wr :: "'s \<Rightarrow> bytes \<Rightarrow> 's result"
    and out :: "'s \<Rightarrow> bytes"
    and cap :: "'s \<Rightarrow> nat"
    and wf_sink :: "'s \<Rightarrow> bool"
    and frame :: "'s \<Rightarrow> 'f"
  assumes wr_fits: "wf_sink s \<Longrightarrow> length (out s) + length bs \<le> cap s \<Longrightarrow>
      \<exists>s'. wr s bs = Inr s' \<and> wf_sink s' \<and> cap s' = cap s \<and> frame s' = frame s \<and> out s' = out s @ bs"
    and wr_full: "wf_sink s \<Longrightarrow> cap s < length (out s) + length bs \<Longrightarrow> wr s bs = Inl BufferOverflow"
begin

definition wr_all :: "bytes list \<Rightarrow> 's \<Rightarrow> 's result" where
  "wr_all bss s = foldl (\<lambda>r bs. bindE r (\<lambda>s. wr s bs)) (Inr s) bss"

lemma foldl_Inl: "foldl (\<lambda>r bs. bindE r (\<lambda>s. wr s bs)) (Inl e) bss = Inl e"
  by (induction bss) simp_all

lemma wr_all_Nil: "wr_all [] s = Inr s"
  by (simp add: wr_all_def)

lemma wr_all_Cons: "wr_all (bs # bss) s = bindE (wr s bs) (wr_all bss)"
  by (cases "wr s bs") (simp_all add: wr_all_def foldl_Inl)

lemma wr_all_fits:
  "wf_sink s \<Longrightarrow> length (out s) + length (concat bss) \<le> cap s \<Longrightarrow>
   \<exists>s'. wr_all bss s = Inr s' \<and> wf_sink s' \<and> cap s' = cap s \<and> frame s' = frame s \<and>
     out s' = out s @ concat bss"
proof (induction bss arbitrary: s)
  case Nil
  then show ?case by (simp add: wr_all_Nil)
next
  case (Cons bs bss)
  then obtain s1 where "wr s bs = Inr s1" "wf_sink s1" "cap s1 = cap s" "frame s1 = frame s"
      "out s1 = out s @ bs"
    using wr_fits [of s bs] by auto
  then show ?case using Cons.IH [of s1] Cons.prems by (simp add: wr_all_Cons)
qed

lemma wr_all_full:
  "wf_sink s \<Longrightarrow> length (out s) \<le> cap s \<Longrightarrow> cap s < length (out s) + length (concat bss) \<Longrightarrow>
   wr_all bss s = Inl BufferOverflow"
proof (induction bss arbitrary: s)
  case Nil
  then show ?case by simp
next
  case (Cons bs bss)
  show ?case
  proof (cases "length (out s) + length bs \<le> cap s")
    case True
    then obtain s1 where "wr s bs = Inr s1" "wf_sink s1" "cap s1 = cap s" "out s1 = out s @ bs"
      using Cons.prems wr_fits [of s bs] by auto
    then show ?thesis using Cons.IH [of s1] Cons.prems True by (simp add: wr_all_Cons)
  next
    case False
    then show ?thesis using Cons.prems wr_full [of s bs] by (simp add: wr_all_Cons)
  qed
qed

end

definition buffer_wf :: "FCGIClientState \<Rightarrow> bool" where
  "buffer_wf st \<longleftrightarrow> pBuffInc st \<le> length (buff st) \<and> length (buff st) < 2 ^ 31"

definition request_frame :: "FCGIClientState \<Rightarrow> (string, string) std_map \<times> uint" where
  "request_frame st = (requestHeaders st, request_id st)"

lemma sent_length: "buffer_wf st \<Longrightarrow> length (sent st) = pBuffInc st"
  by (simp add: buffer_wf_def sent_def)

interpretation buffer: byte_sink emit sent "\<lambda>st. length (buff st)" buffer_wf request_frame
proof unfold_locales
  fix st :: FCGIClientState and bs :: bytes
  assume wf: "buffer_wf st" and "length (sent st) + length bs \<le> length (buff st)"
  then obtain mem where mem: "mem_write (pBuffInc st) bs (buff st) = Inr mem"
    by (simp add: sent_length mem_simps)
  then have "emit st bs = Inr (st\<lparr>buff := mem, pBuffInc := pBuffInc st + length bs\<rparr>)"
    by (simp add: emit_def)
  moreover have "length mem = length (buff st)" "take (pBuffInc st + length bs) mem = sent st @ bs"
    using mem by (simp_all add: mem_write_length mem_write_take sent_def)
  ultimately show "\<exists>st'. emit st bs = Inr st' \<and> buffer_wf st' \<and>
      length (buff st') = length (buff st) \<and> request_frame st' = request_frame st \<and>
      sent st' = sent st @ bs"
    using wf \<open>length (sent st) + length bs \<le> length (buff st)\<close>
    by (simp add: buffer_wf_def sent_def request_frame_def)
next
  fix st :: FCGIClientState and bs :: bytes
  assume "buffer_wf st" and "length (buff st) < length (sent st) + length bs"
  then show "emit st bs = Inl BufferOverflow"
    by (simp add: sent_length emit_def mem_simps)
qed

section \<open>Name-value pairs on the wire\<close>

definition bytes_str :: "bytes \<Rightarrow> string" where
  "bytes_str bs = map (\<lambda>b. char_of (unat b)) bs"

lemma bytes_str_str_bytes [simp]: "bytes_str (str_bytes s) = s"
  by (induction s) (simp_all add: bytes_str_def str_bytes_def unat_of_char)

definition read_name_value :: "bytes \<Rightarrow> ((string \<times> string) \<times> bytes) option" where
  "read_name_value bs =
     (case read_pair bs of
        None \<Rightarrow> None
      | Some ((n, v), rest) \<Rightarrow> Some ((bytes_str n, bytes_str v), rest))"

definition short_pair :: "string \<times> string \<Rightarrow> bool" where
  "short_pair it \<longleftrightarrow> length (fst it) < 2 ^ 31 \<and> length (snd it) < 2 ^ 31"

lemma unat_uint_of_nat: "n < 2 ^ 32 \<Longrightarrow> unat (word_of_nat n :: uint) = n"
  by (simp add: unat_of_nat)

lemma unat_less_128: "(n :: uint) < 128 \<longleftrightarrow> unat n < 128"
  by (simp add: word_less_nat_alt)

lemma bytes_of_nat:
  fixes m :: nat
  shows "((m div 16777216) * 256 + m div 65536 mod 256) * 65536 + (m div 256 mod 256) * 256 + m mod 256 = m"
proof -
  have "m div 65536 = (m div 65536) div 256 * 256 + m div 65536 mod 256" by simp
  also have "(m div 65536) div 256 = m div 16777216" by (simp add: div_mult2_eq [symmetric])
  finally have a: "(m div 16777216) * 256 + m div 65536 mod 256 = m div 65536" by simp
  have "m div 256 = (m div 256) div 256 * 256 + m div 256 mod 256" by simp
  also have "(m div 256) div 256 = m div 65536" by (simp add: div_mult2_eq [symmetric])
  finally have "m div 256 = m div 65536 * 256 + m div 256 mod 256" .
  moreover have "m = m div 256 * 256 + m mod 256" by simp
  ultimately show ?thesis unfolding a by linarith
qed

lemma read_len_bytes:
  assumes "unat n < 2 ^ 31"
  shows "read_len (len_bytes n @ rest) = Some (unat n, rest)"
proof (cases "n < 128")
  case True
  then show ?thesis by (simp add: len_bytes_def unat_BYTE_0 unat_less_128)
next
  case False
  with assms show ?thesis
    using bytes_of_nat [of "unat n"] by (simp add: len_bytes_def unat_BYTE)
qed

lemma read_name_value_bytes:
  assumes "short_pair it"
  shows "read_name_value (name_value_bytes it @ rest) = Some (it, rest)"
proof -
  obtain n v where it: "it = (n, v)" by force
  with assms have "unat (word_of_nat (length n) :: uint) = length n"
      "unat (word_of_nat (length v) :: uint) = length v" "length n < 2 ^ 31" "length v < 2 ^ 31"
    by (auto simp: short_pair_def intro!: unat_uint_of_nat)
  with it show ?thesis
    by (simp add: read_name_value_def read_pair_def name_value_bytes_def Let_def read_len_bytes)
qed

lemma name_value_bytes_not_Nil [simp]: "name_value_bytes it \<noteq> []"
  by (simp add: name_value_bytes_def Let_def len_bytes_def)

interpretation name_values: prefix_code name_value_bytes read_name_value short_pair
  by unfold_locales (simp_all add: read_name_value_bytes)

definition params_bytes :: "(string, string) std_map \<Rightarrow> bytes" where
  "params_bytes m = concat (map name_value_bytes m)"

lemma params_bytes_simps [simp]:
  "params_bytes [] = []" "params_bytes (it # its) = name_value_bytes it @ params_bytes its"
  by (simp_all add: params_bytes_def)


section \<open>The two loops of createBeginRequest\<close>

lemma params_length_fits:
  assumes "\<forall>it\<in>set its. pBuffInc st + length (name_value_bytes it) \<le> length (buff st)"
  shows "\<exists>mem. params_length its len st =
      Inr (len + word_of_nat (length (params_bytes its)), st\<lparr>buff := mem\<rparr>) \<and>
      length mem = length (buff st) \<and> take (pBuffInc st) mem = take (pBuffInc st) (buff st)"
  using assms
proof (induction its arbitrary: len st)
  case Nil
  show ?case by (auto intro: exI [of _ "buff st"])
next
  case (Cons it its)
  then obtain mem where mem: "mem_write (pBuffInc st) (name_value_bytes it) (buff st) = Inr mem"
    by (simp add: mem_simps)
  have l: "length mem = length (buff st)" "take (pBuffInc st) mem = take (pBuffInc st) (buff st)"
    using mem by (simp_all add: mem_write_length mem_write_prefix)
  let ?st = "st\<lparr>buff := mem\<rparr>" and ?nb = "word_of_nat (length (name_value_bytes it)) :: uint"
  have "\<forall>it\<in>set its. pBuffInc ?st + length (name_value_bytes it) \<le> length (buff ?st)"
    using Cons.prems l by simp
  from Cons.IH [OF this, of "len + ?nb"] obtain mem' where
      "params_length its (len + ?nb) ?st =
         Inr (len + ?nb + word_of_nat (length (params_bytes its)), ?st\<lparr>buff := mem'\<rparr>)"
      "length mem' = length (buff ?st)" "take (pBuffInc ?st) mem' = take (pBuffInc ?st) (buff ?st)"
    by blast
  then have "params_length (it # its) len st =
        Inr (len + word_of_nat (length (params_bytes (it # its))), st\<lparr>buff := mem'\<rparr>)"
      "length mem' = length (buff st)" "take (pBuffInc st) mem' = take (pBuffInc st) (buff st)"
    using mem l by (simp_all add: serializeNameValue_def add.assoc)
  then show ?case by blast
qed

lemma params_length_overflow:
  assumes "it \<in> set its" "length (buff st) < pBuffInc st + length (name_value_bytes it)"
  shows "params_length its len st = Inl BufferOverflow"
  using assms
proof (induction its arbitrary: len st)
  case Nil
  then show ?case by simp
next
  case (Cons it' its)
  show ?case
  proof (cases "mem_write (pBuffInc st) (name_value_bytes it') (buff st)")
    case (Inl e)
    then show ?thesis by (auto simp: serializeNameValue_def mem_write_def split: if_splits)
  next
    case (Inr mem)
    then have "it' \<noteq> it" using Cons.prems(2) by (auto simp: mem_write_Inr_iff)
    with Cons.prems have "it \<in> set its" by simp
    moreover have "length (buff (st\<lparr>buff := mem\<rparr>)) <
        pBuffInc (st\<lparr>buff := mem\<rparr>) + length (name_value_bytes it)"
      using Cons.prems(2) mem_write_length [OF Inr] by simp
    ultimately show ?thesis using Cons.IH Inr by (simp add: serializeNameValue_def)
  qed
qed

lemma serializeNameValue_emit:
  assumes "buffer_wf st"
  shows "bindE (serializeNameValue (pBuffInc st) it (buff st)) (\<lambda>(nb, mem).
           f (st\<lparr>buff := mem, pBuffInc := pBuffInc st + unat nb\<rparr>)) =
         bindE (emit st (name_value_bytes it)) f"
proof (cases "mem_write (pBuffInc st) (name_value_bytes it) (buff st)")
  case (Inl e)
  then show ?thesis by (simp add: serializeNameValue_def emit_def)
next
  case (Inr mem)
  then have "length (name_value_bytes it) < 2 ^ 32"
    using assms by (simp add: buffer_wf_def mem_write_Inr_iff)
  with Inr show ?thesis
    by (simp add: serializeNameValue_def emit_def unat_uint_of_nat)
qed

lemma params_serialize_wr_all:
  "buffer_wf st \<Longrightarrow> params_serialize its st = buffer.wr_all (map name_value_bytes its) st"
proof (induction its arbitrary: st)
  case Nil
  then show ?case by (simp add: buffer.wr_all_Nil)
next
  case (Cons it its)
  have "emit st (name_value_bytes it) = Inr st' \<Longrightarrow> buffer_wf st'" for st'
    using Cons.prems by (auto simp: emit_def bindE_eq_Inr mem_write_Inr_iff buffer_wf_def)
  then have "bindE (emit st (name_value_bytes it)) (params_serialize its) =
      bindE (emit st (name_value_bytes it)) (buffer.wr_all (map name_value_bytes its))"
    using Cons.IH by (cases "emit st (name_value_bytes it)") simp_all
  then show ?case
    using serializeNameValue_emit [OF Cons.prems, of it "params_serialize its"]
    by (simp add: buffer.wr_all_Cons)
qed


section \<open>What the encoder puts on the wire\<close>

definition record_header :: "uchar \<Rightarrow> uint \<Rightarrow> uint \<Rightarrow> FCGI_Header" where
  "record_header rtype rid len =
     \<lparr>h_version = 1, h_type = rtype, h_requestIdB1 = BYTE_1 rid, h_requestIdB0 = BYTE_0 rid,
      h_contentLengthB1 = BYTE_1 len, h_contentLengthB0 = BYTE_0 len, h_paddingLength = 0,
      h_reserved = 0\<rparr>"

definition wire_record :: "uchar \<Rightarrow> uint \<Rightarrow> bytes \<Rightarrow> fcgi_record" where
  "wire_record rtype rid content =
     (record_header rtype rid (word_of_nat (length content)), content, [])"

definition begin_records :: "uint \<Rightarrow> (string, string) std_map \<Rightarrow> fcgi_record list" where
  "begin_records rid m =
     [wire_record FCGI_BEGIN_REQUEST rid [0, FCGI_RESPONDER, FCGI_KEEP_CONN, 0, 0, 0, 0, 0],
      wire_record FCGI_PARAMS rid (params_bytes m),
      wire_record FCGI_PARAMS rid []]"

definition stdin_records :: "uint \<Rightarrow> string \<Rightarrow> fcgi_record list" where
  "stdin_records rid data =
     [wire_record FCGI_STDIN rid (str_bytes data), wire_record FCGI_STDIN rid []]"

lemma set_len_createHeader:
  "set_len (createHeader rtype st) len = record_header rtype (request_id st) len"
  by (simp add: set_len_def createHeader_def fcgiHeaderSetRequestId_def record_header_def
      zero_header_def FCGI_VERSION_1_def)

lemma set_len_record_header: "set_len (record_header rtype rid n) len = record_header rtype rid len"
  by (simp add: set_len_def record_header_def)

lemma BYTE_8: "BYTE_0 8 = 8" "BYTE_1 8 = 0" "BYTE_0 0 = 0" "BYTE_1 0 = 0"
  by (simp_all add: BYTE_0_def BYTE_1_def)

lemma begin_header:
  "(createHeader FCGI_BEGIN_REQUEST st)\<lparr>h_contentLengthB0 := 8\<rparr> =
     record_header FCGI_BEGIN_REQUEST (request_id st) 8"
  by (simp add: createHeader_def fcgiHeaderSetRequestId_def record_header_def zero_header_def
      FCGI_VERSION_1_def BYTE_8)

lemma begin_body:
  "begin_body_bytes (zero_begin_body\<lparr>b_roleB0 := FCGI_RESPONDER, b_flags := FCGI_KEEP_CONN\<rparr>) =
     [0, FCGI_RESPONDER, FCGI_KEEP_CONN, 0, 0, 0, 0, 0]"
  by (simp add: begin_body_bytes_def zero_begin_body_def numeral_nat)

lemma wire_record_bytes:
  "record_bytes (wire_record rtype rid content) =
     header_bytes (record_header rtype rid (word_of_nat (length content))) @ content"
  by (simp add: wire_record_def)

lemma record_ok_wire_record: "length content < 65536 \<Longrightarrow> record_ok (wire_record rtype rid content)"
  by (simp add: wire_record_def content_len_def padding_len_def record_header_def BYTE_1_0
      unat_uint_of_nat)

lemma request_id_wire_record:
  "request_id_of (fst (wire_record rtype rid content)) = unat rid mod 65536"
  by (simp add: wire_record_def request_id_of_def record_header_def BYTE_1_0)

lemma sent_cong: "sent (st\<lparr>request := x\<rparr>) = sent st" "sent (st\<lparr>header := y\<rparr>) = sent st"
    "sent (st\<lparr>postHeader := y\<rparr>) = sent st"
    "buffer_wf (st\<lparr>request := x\<rparr>) = buffer_wf st" "buffer_wf (st\<lparr>header := y\<rparr>) = buffer_wf st"
    "buffer_wf (st\<lparr>postHeader := y\<rparr>) = buffer_wf st"
    "request_frame (st\<lparr>request := x\<rparr>) = request_frame st"
    "request_frame (st\<lparr>header := y\<rparr>) = request_frame st"
    "request_frame (st\<lparr>postHeader := y\<rparr>) = request_frame st"
  by (simp_all add: sent_def buffer_wf_def request_frame_def)

lemma length_params_bytes:
  "it \<in> set m \<Longrightarrow> length (name_value_bytes it) \<le> length (params_bytes m)"
  by (induction m) auto

lemma params_length_sent:
  assumes "buffer_wf st" "length (sent st) + length (params_bytes its) \<le> length (buff st)"
  obtains st' where "params_length its len st = Inr (len + word_of_nat (length (params_bytes its)), st')"
    "buffer_wf st'" "length (buff st') = length (buff st)" "request_frame st' = request_frame st"
    "sent st' = sent st"
proof -
  have "\<forall>it\<in>set its. pBuffInc st + length (name_value_bytes it) \<le> length (buff st)"
    using assms length_params_bytes [of _ its] by (fastforce simp: sent_length)
  from params_length_fits [OF this, of len] obtain mem where
      "params_length its len st = Inr (len + word_of_nat (length (params_bytes its)), st\<lparr>buff := mem\<rparr>)"
      "length mem = length (buff st)" "take (pBuffInc st) mem = take (pBuffInc st) (buff st)"
    by blast
  then show thesis
    using assms(1) by (intro that [of "st\<lparr>buff := mem\<rparr>"])
      (simp_all add: buffer_wf_def request_frame_def sent_def)
qed

lemma createBeginRequest_fits:
  assumes wf: "buffer_wf st"
    and fits: "length (sent st) + 32 + length (params_bytes (requestHeaders st)) \<le> length (buff st)"
  shows "\<exists>st'. createBeginRequest st = Inr st' \<and> buffer_wf st' \<and>
    length (buff st') = length (buff st) \<and> request_frame st' = request_frame st \<and>
    sent st' = sent st @ concat (map record_bytes (begin_records (request_id st) (requestHeaders st)))"
proof -
  let ?rid = "request_id st" and ?m = "requestHeaders st"
  let ?h = "record_header FCGI_BEGIN_REQUEST ?rid 8"
  let ?b = "[0, FCGI_RESPONDER, FCGI_KEEP_CONN, 0, 0, 0, 0, 0]"
  let ?p = "params_bytes ?m" and ?n = "word_of_nat (length (params_bytes (requestHeaders st))) :: uint"
  obtain st1 where 1: "emit (st\<lparr>request := Some (?h, zero_begin_body\<lparr>b_roleB0 := FCGI_RESPONDER,
        b_flags := FCGI_KEEP_CONN\<rparr>)\<rparr>) (header_bytes ?h) = Inr st1"
      "buffer_wf st1" "length (buff st1) = length (buff st)" "request_frame st1 = request_frame st"
      "sent st1 = sent st @ header_bytes ?h"
    using wf fits buffer.wr_fits [of "st\<lparr>request := Some (?h, zero_begin_body\<lparr>b_roleB0 :=
        FCGI_RESPONDER, b_flags := FCGI_KEEP_CONN\<rparr>)\<rparr>" "header_bytes ?h"]
    by (auto simp: sent_cong)
  obtain st2 where 2: "emit st1 ?b = Inr st2" "buffer_wf st2" "length (buff st2) = length (buff st)"
      "request_frame st2 = request_frame st" "sent st2 = sent st @ header_bytes ?h @ ?b"
    using 1 fits buffer.wr_fits [of st1 ?b] by auto
  obtain st3 where 3: "params_length ?m 0 st2 = Inr (?n, st3)" "buffer_wf st3"
      "length (buff st3) = length (buff st)" "request_frame st3 = request_frame st"
      "sent st3 = sent st @ header_bytes ?h @ ?b"
    using 2 fits params_length_sent [of st2 ?m 0] by auto
  let ?g = "record_header FCGI_PARAMS ?rid ?n" and ?e = "record_header FCGI_PARAMS ?rid 0"
  obtain st4 where 4: "emit st3 (header_bytes ?g) = Inr st4" "buffer_wf st4"
      "length (buff st4) = length (buff st)" "request_frame st4 = request_frame st"
      "sent st4 = sent st @ header_bytes ?h @ ?b @ header_bytes ?g"
    using 3 fits buffer.wr_fits [of st3 "header_bytes ?g"] by auto
  obtain st5 where 5: "params_serialize ?m st4 = Inr st5" "buffer_wf st5"
      "length (buff st5) = length (buff st)" "request_frame st5 = request_frame st"
      "sent st5 = sent st @ header_bytes ?h @ ?b @ header_bytes ?g @ ?p"
    using 4 fits buffer.wr_all_fits [of st4 "map name_value_bytes ?m"]
    by (auto simp: params_serialize_wr_all params_bytes_def)
  obtain st6 where 6: "emit (st5\<lparr>header := Some ?e\<rparr>) (header_bytes ?e) = Inr st6" "buffer_wf st6"
      "length (buff st6) = length (buff st)" "request_frame st6 = request_frame st"
      "sent st6 = sent st @ header_bytes ?h @ ?b @ header_bytes ?g @ ?p @ header_bytes ?e"
    using 5 fits buffer.wr_fits [of "st5\<lparr>header := Some ?e\<rparr>" "header_bytes ?e"]
    by (auto simp: sent_cong)
  have f: "requestHeaders st2 = ?m" "request_id st3 = ?rid" "requestHeaders st4 = ?m"
    using 2(4) 3(4) 4(4) by (simp_all add: request_frame_def)
  have "createBeginRequest st = Inr st6"
    using 1(1) 2(1) 3(1) 4(1) 5(1) 6(1) f
    by (simp add: createBeginRequest_def Let_def begin_header begin_body set_len_createHeader
        set_len_record_header)
  with 6 show ?thesis
    by (simp add: begin_records_def wire_record_bytes)
qed


lemma emit_Inr:
  "emit st bs = Inr st' \<Longrightarrow> pBuffInc st' = pBuffInc st + length bs \<and>
     length (buff st') = length (buff st) \<and> pBuffInc st' \<le> length (buff st') \<and>
     request_frame st' = request_frame st"
  by (auto simp: emit_def bindE_eq_Inr mem_write_Inr_iff request_frame_def)

lemma emit_Inl: "emit st bs = Inl e \<Longrightarrow> e = BufferOverflow"
  by (auto simp: emit_def bindE_eq_Inl mem_write_def split: if_splits)

lemma params_length_Inr:
  "params_length its len st = Inr (n, st') \<Longrightarrow> pBuffInc st' = pBuffInc st \<and>
     length (buff st') = length (buff st) \<and> request_frame st' = request_frame st"
proof (induction its arbitrary: len st)
  case Nil
  then show ?case by simp
next
  case (Cons it its)
  then obtain nb mem where m: "serializeNameValue (pBuffInc st) it (buff st) = Inr (nb, mem)"
      and r: "params_length its (len + nb) (st\<lparr>buff := mem\<rparr>) = Inr (n, st')"
    by (auto simp: bindE_eq_Inr)
  from m have "length mem = length (buff st)"
    by (auto simp: serializeNameValue_def bindE_eq_Inr mem_write_length)
  with Cons.IH [OF r] show ?case by (simp add: request_frame_def)
qed

lemma serializeNameValue_Inl: "serializeNameValue pos it mem = Inl e \<Longrightarrow> e = BufferOverflow"
  by (auto simp: serializeNameValue_def bindE_eq_Inl mem_write_def split: if_splits)

lemma params_length_Inl: "params_length its len st = Inl e \<Longrightarrow> e = BufferOverflow"
  by (induction its arbitrary: len st)
    (auto simp: bindE_eq_Inl dest: serializeNameValue_Inl)

lemma params_serialize_Inl: "params_serialize its st = Inl e \<Longrightarrow> e = BufferOverflow"
  by (induction its arbitrary: st) (auto simp: bindE_eq_Inl dest: serializeNameValue_Inl)

lemma params_serialize_Inr:
  "buffer_wf st \<Longrightarrow> params_serialize its st = Inr st' \<Longrightarrow>
     pBuffInc st' = pBuffInc st + length (params_bytes its) \<and>
     length (buff st') = length (buff st) \<and> request_frame st' = request_frame st"
proof (induction its arbitrary: st)
  case Nil
  then show ?case by simp
next
  case (Cons it its)
  then obtain st1 where e: "emit st (name_value_bytes it) = Inr st1"
      and r: "params_serialize its st1 = Inr st'"
    using serializeNameValue_emit [OF Cons.prems(1), of it "params_serialize its"]
    by (auto simp: bindE_eq_Inr)
  from emit_Inr [OF e] have "buffer_wf st1" using Cons.prems(1) by (simp add: buffer_wf_def)
  from Cons.IH [OF this r] emit_Inr [OF e] show ?case by simp
qed

lemma createBeginRequest_Inl: "createBeginRequest st = Inl e \<Longrightarrow> e = BufferOverflow"
  by (auto simp: createBeginRequest_def Let_def bindE_eq_Inl
      dest: emit_Inl params_length_Inl params_serialize_Inl)

lemma createBeginRequest_Inr:
  assumes "buffer_wf st" "createBeginRequest st = Inr st'"
  shows "pBuffInc st' = pBuffInc st + 32 + length (params_bytes (requestHeaders st)) \<and>
    length (buff st') = length (buff st) \<and> pBuffInc st' \<le> length (buff st')"
proof -
  let ?h = "(createHeader FCGI_BEGIN_REQUEST st)\<lparr>h_contentLengthB0 := 8\<rparr>"
    and ?b = "zero_begin_body\<lparr>b_roleB0 := FCGI_RESPONDER, b_flags := FCGI_KEEP_CONN\<rparr>"
    and ?g = "\<lambda>s n. set_len (createHeader FCGI_PARAMS s) n"
  from assms(2) obtain s1 s2 n s3 s4 s5 where
      1: "emit (st\<lparr>request := Some (?h, ?b)\<rparr>) (header_bytes ?h) = Inr s1" and
      2: "emit s1 (begin_body_bytes ?b) = Inr s2" and
      3: "params_length (requestHeaders s2) 0 s2 = Inr (n, s3)" and
      4: "emit s3 (header_bytes (?g s3 n)) = Inr s4" and
      5: "params_serialize (requestHeaders s4) s4 = Inr s5" and
      6: "emit (s5\<lparr>header := Some (set_len (?g s3 n) 0)\<rparr>) (header_bytes (set_len (?g s3 n) 0)) = Inr st'"
    by (auto simp: createBeginRequest_def Let_def bindE_eq_Inr)
  note steps = emit_Inr [OF 1] emit_Inr [OF 2] params_length_Inr [OF 3] emit_Inr [OF 4] emit_Inr [OF 6]
  then have "buffer_wf s4" "requestHeaders s4 = requestHeaders st"
    using assms(1) by (auto simp: buffer_wf_def request_frame_def)
  with params_serialize_Inr [OF _ 5] steps show ?thesis by (simp add: begin_body)
qed

lemma createBeginRequest_overflow:
  assumes "buffer_wf st"
    and "length (buff st) < length (sent st) + 32 + length (params_bytes (requestHeaders st))"
  shows "createBeginRequest st = Inl BufferOverflow"
proof (cases "createBeginRequest st")
  case (Inl e)
  then show ?thesis by (simp add: createBeginRequest_Inl)
next
  case (Inr st')
  with createBeginRequest_Inr [OF assms(1) Inr] assms show ?thesis by (simp add: sent_length)
qed

lemma createBeginRequest_Inl_iff:
  assumes "buffer_wf st"
  shows "createBeginRequest st = Inl e \<longleftrightarrow>
    e = BufferOverflow \<and>
    length (buff st) < pBuffInc st + 32 + length (params_bytes (requestHeaders st))"
proof (cases "length (buff st) < pBuffInc st + 32 + length (params_bytes (requestHeaders st))")
  case True
  then show ?thesis
    using assms createBeginRequest_overflow [OF assms] by (auto simp: sent_length)
next
  case False
  then obtain st' where "createBeginRequest st = Inr st'"
    using assms createBeginRequest_fits [OF assms] by (auto simp: sent_length)
  with False show ?thesis by simp
qed

section \<open>Bodies\<close>

lemma postBodyChunk_fits:
  assumes "length (buff st) < 2 ^ 31" "16 + length data \<le> length (buff st)"
  shows "\<exists>st'. postBodyChunk data st = Inr st' \<and> buffer_wf st' \<and>
    length (buff st') = length (buff st) \<and> request_frame st' = request_frame st \<and>
    sent st' = concat (map record_bytes (stdin_records (request_id st) data))"
proof -
  let ?n = "word_of_nat (length data) :: uint"
  let ?g = "record_header FCGI_STDIN (request_id st) ?n" and ?e = "record_header FCGI_STDIN (request_id st) 0"
  let ?st0 = "st\<lparr>pBuffInc := 0\<rparr>"
  have n: "sint ?n = int (length data)"
    using assms by (simp add: signed_of_nat signed_take_bit_int_eq_self)
  have wf: "buffer_wf ?st0" "sent ?st0 = []" "request_frame ?st0 = request_frame st"
    using assms by (simp_all add: buffer_wf_def sent_def request_frame_def)
  obtain st1 where 1: "emit ?st0 (header_bytes ?g) = Inr st1" "buffer_wf st1"
      "length (buff st1) = length (buff st)" "request_frame st1 = request_frame st"
      "sent st1 = header_bytes ?g"
    using wf assms buffer.wr_fits [of ?st0 "header_bytes ?g"] by auto
  obtain st2 where 2: "emit st1 (str_bytes data) = Inr st2" "buffer_wf st2"
      "length (buff st2) = length (buff st)" "request_frame st2 = request_frame st"
      "sent st2 = header_bytes ?g @ str_bytes data"
    using 1 assms buffer.wr_fits [of st1 "str_bytes data"] by auto
  obtain st3 where 3: "emit (st2\<lparr>postHeader := Some ?e\<rparr>) (header_bytes ?e) = Inr st3" "buffer_wf st3"
      "length (buff st3) = length (buff st)" "request_frame st3 = request_frame st"
      "sent st3 = header_bytes ?g @ str_bytes data @ header_bytes ?e"
    using 2 assms buffer.wr_fits [of "st2\<lparr>postHeader := Some ?e\<rparr>" "header_bytes ?e"]
    by (auto simp: sent_cong)
  have "postBodyChunk data st = Inr st3"
    using 1(1) 2(1) 3(1) n
    by (simp add: postBodyChunk_def Let_def set_len_createHeader set_len_record_header)
  with 3 show ?thesis
    by (simp add: stdin_records_def wire_record_bytes)
qed

lemma postBodyChunk_overflow:
  assumes "length (buff st) < 2 ^ 31" "length data < 2 ^ 31" "length (buff st) < 16 + length data"
  shows "postBodyChunk data st = Inl BufferOverflow"
proof (cases "postBodyChunk data st")
  case (Inl e)
  then have "e = BufferOverflow"
    by (auto simp: postBodyChunk_def Let_def bindE_eq_Inl split: if_splits dest: emit_Inl)
  with Inl show ?thesis by simp
next
  case (Inr st')
  have n: "sint (word_of_nat (length data) :: uint) = int (length data)"
    using assms(2) by (simp add: signed_of_nat signed_take_bit_int_eq_self)
  from Inr obtain st1 st2 y where 1: "emit (st\<lparr>pBuffInc := 0\<rparr>)
        (header_bytes (set_len (createHeader FCGI_STDIN st) (word_of_nat (length data)))) = Inr st1"
      and 2: "emit st1 (str_bytes data) = Inr st2"
      and 3: "emit (st2\<lparr>postHeader := Some y\<rparr>) (header_bytes y) = Inr st'"
    by (auto simp: postBodyChunk_def Let_def bindE_eq_Inr n)
  from emit_Inr [OF 1] emit_Inr [OF 2] emit_Inr [OF 3] assms(3) show ?thesis by simp
qed


lemma read_wire_records:
  "\<forall>(t, c)\<in>set tcs. length c < 65536 \<Longrightarrow>
   read_all read_record (concat (map record_bytes (map (\<lambda>(t, c). wire_record t rid c) tcs))) =
     Some (map (\<lambda>(t, c). wire_record t rid c) tcs)"
  by (rule wire_records.read_all_enc) (auto intro: record_ok_wire_record)

lemma read_begin_records:
  "length (params_bytes m) < 65536 \<Longrightarrow>
   read_all read_record (concat (map record_bytes (begin_records rid m))) = Some (begin_records rid m)"
  using read_wire_records [of "[(FCGI_BEGIN_REQUEST, [0, FCGI_RESPONDER, FCGI_KEEP_CONN, 0, 0, 0, 0, 0]),
      (FCGI_PARAMS, params_bytes m), (FCGI_PARAMS, [])]" rid]
  by (simp add: begin_records_def)

lemma wire_record_header_type [simp]: "h_type (fst (wire_record t rid c)) = t"
  by (simp add: wire_record_def record_header_def)

lemma wire_record_content [simp]: "snd (wire_record t rid c) = (c, [])"
  by (simp add: wire_record_def)


section \<open>The constructor\<close>

definition sample_request :: ats_request where
  "sample_request = \<lparr>rq_headers = Some [(''Host'', ''localhost'')], rq_find = (\<lambda>_. None),
     rq_path = ''app/'', rq_query = [], rq_method = ''GET''\<rparr>"

definition sample_post :: "string \<Rightarrow> ats_request" where
  "sample_post cl = \<lparr>rq_headers = Some [],
     rq_find = (\<lambda>k. if k = ''Content-Length'' then Some cl else None),
     rq_path = ''app.php'', rq_query = [], rq_method = ''POST''\<rparr>"

definition isLeft_result :: "'a result \<Rightarrow> bool" where
  "isLeft_result r \<longleftrightarrow> (case r of Inl _ \<Rightarrow> True | Inr _ \<Rightarrow> False)"

lemma fixed_headers_rev:
  "map_of (rev (fixed_headers root script rq)) = map_of (fixed_headers root script rq)"
proof -
  have "distinct (map fst (fixed_headers root script rq))" by (simp add: fixed_headers_def)
  then show ?thesis by (subst map_of_inject_set) (simp_all add: rev_map [symmetric])
qed

lemma generate_headers:
  assumes "getDocumentRootDir cfg = Some root" "request_script cfg rq = Inr script"
  shows "\<exists>m. GenerateFcgiRequestHeaders cfg rq = Inr m \<and> map_wf m \<and>
    map_find m = map_of (rev (client_headers rq)) ++ map_of (fixed_headers root script rq)"
  using assms
  by (simp add: GenerateFcgiRequestHeaders_def Let_def std_map.get_put_all std_map.wf_put_all
      fixed_headers_rev map_find_Nil)

lemma generate_headers_method:
  assumes "GenerateFcgiRequestHeaders cfg rq = Inr m"
  shows "map_find m ''REQUEST_METHOD'' = Some (rq_method rq)"
proof -
  from assms obtain root script where
      "getDocumentRootDir cfg = Some root" "request_script cfg rq = Inr script"
    by (auto simp: GenerateFcgiRequestHeaders_def Let_def bindE_eq_Inr deref_eq_Inr)
  from generate_headers [OF this] assms show ?thesis
    by (auto simp: map_add_def fixed_headers_def)
qed

lemma new_client_state_get:
  assumes "new_client_state junk cfg rq rid = Inr st" "rq_method rq \<noteq> ''POST''"
  shows "length (buff st) = 5000 \<and> pBuffInc st = 0 \<and> request_id st = rid \<and>
    GenerateFcgiRequestHeaders cfg rq = Inr (requestHeaders st)"
  using assms generate_headers_method [of cfg rq]
  by (auto simp: new_client_state_def bindE_eq_Inr map_index_def BUF_SIZE_def alloc_buffer_def)

lemma new_client_state_post:
  assumes "new_client_state junk cfg rq rid = Inr st" "rq_method rq = ''POST''"
    and "rq_headers rq = Some hs" "rq_find rq ''Content-Length'' = Some cl"
  shows "int (length (buff st)) = 5000 + istream_int (c_str cl) \<and> length (buff st) < 2 ^ 31 \<and>
    pBuffInc st = 0 \<and> request_id st = rid"
proof -
  have f: "map_find (post_headers rq m) ''CONTENT_LENGTH'' = Some (c_str cl)" for m
    using assms(3,4) by (auto simp: post_headers_def Let_def map_find_map_set split: option.splits)
  with assms generate_headers_method [of cfg rq] show ?thesis
    by (auto simp: new_client_state_def bindE_eq_Inr map_index_def BUF_SIZE_def alloc_buffer_def
        split: if_splits)
qed

lemma new_client_state_ok:
  assumes "getDocumentRootDir cfg = Some root" "request_script cfg rq = Inr script"
  shows "rq_method rq \<noteq> ''POST'' \<Longrightarrow> \<exists>st. new_client_state junk cfg rq rid = Inr st"
  using generate_headers [OF assms] generate_headers_method [of cfg rq]
  by (auto simp: new_client_state_def map_index_def BUF_SIZE_def alloc_buffer_def)

lemma sample_client_state: "\<exists>st. new_client_state 0 default_config sample_request rid = Inr st"
proof -
  have "getDocumentRootDir default_config = Some ''/var/www/html/''"
      "request_script default_config sample_request = Inr ''app/index.php''"
    by (simp_all add: getDocumentRootDir_def default_config_def request_script_def sample_request_def
        endsWith_def getHtml_def)
  from new_client_state_ok [OF this, of 0 rid] show ?thesis by (simp add: sample_request_def)
qed

lemma postBodyChunk_Inr:
  assumes "length (buff st) < 2 ^ 31" "length data < 2 ^ 31" "postBodyChunk data st = Inr st'"
  shows "buffer_wf st' \<and> length (buff st') = length (buff st) \<and> request_frame st' = request_frame st \<and>
    sent st' = concat (map record_bytes (stdin_records (request_id st) data))"
proof -
  have "16 + length data \<le> length (buff st)"
    using postBodyChunk_overflow [OF assms(1,2)] assms(3) by (metis not_less sum.distinct(1))
  from postBodyChunk_fits [OF assms(1) this] assms(3) show ?thesis by auto
qed

lemma read_stdin_records:
  "length data < 65536 \<Longrightarrow>
   read_all read_record (concat (map record_bytes (stdin_records rid data))) = Some (stdin_records rid data)"
  using read_wire_records [of "[(FCGI_STDIN, str_bytes data), (FCGI_STDIN, [])]" rid]
  by (simp add: stdin_records_def)


section \<open>Properties\<close>

text \<open>
  C13: what a freshly created request puts on the wire for its header is read back, by a
  reader that follows the FastCGI specification, as three records of this request: a begin
  record that asks for a responder and keeps the connection, one parameter record whose
  content reads back as exactly the CGI variables in the order of the map, and the empty
  parameter record that ends the stream. It needs the parameters to fit the buffer and the
  16 bits of a content length.
\<close>

theorem begin_request_wire_roundtrip:
  assumes "buffer_wf st" "pBuffInc st = 0"
    and "32 + length (params_bytes (requestHeaders st)) \<le> length (buff st)"
    and "length (params_bytes (requestHeaders st)) < 65536"
    and "\<forall>it\<in>set (requestHeaders st). short_pair it"
  shows "\<exists>st' h1 h2 h3 content. createBeginRequest st = Inr st' \<and>
    read_all read_record (sent st') =
      Some [(h1, [0, FCGI_RESPONDER, FCGI_KEEP_CONN, 0, 0, 0, 0, 0], []), (h2, content, []), (h3, [], [])] \<and>
    map h_type [h1, h2, h3] = [FCGI_BEGIN_REQUEST, FCGI_PARAMS, FCGI_PARAMS] \<and>
    (\<forall>h\<in>{h1, h2, h3}. request_id_of h = unat (request_id st) mod 65536) \<and>
    read_all read_name_value content = Some (requestHeaders st)"
proof -
  let ?rid = "request_id st" and ?m = "requestHeaders st"
  have "sent st = []" using assms(2) by (simp add: sent_def)
  with createBeginRequest_fits [OF assms(1)] assms(3) obtain st' where
      st': "createBeginRequest st = Inr st'" "sent st' = concat (map record_bytes (begin_records ?rid ?m))"
    by auto
  have r: "read_all read_record (sent st') = Some (begin_records ?rid ?m)"
    using st' read_begin_records [OF assms(4)] by simp
  have nv: "read_all read_name_value (params_bytes ?m) = Some ?m"
    unfolding params_bytes_def by (rule name_values.read_all_enc [OF assms(5)])
  let ?h = "\<lambda>t c. fst (wire_record t ?rid c)"
  show ?thesis
    using st'(1) r nv
    by (intro exI [of _ st'] exI [of _ "?h FCGI_BEGIN_REQUEST [0, FCGI_RESPONDER, FCGI_KEEP_CONN, 0, 0, 0, 0, 0]"]
        exI [of _ "?h FCGI_PARAMS (params_bytes ?m)"] exI [of _ "?h FCGI_PARAMS []"]
        exI [of _ "params_bytes ?m"])
      (simp add: begin_records_def wire_record_def record_header_def request_id_of_def BYTE_1_0)
qed

definition sample_state :: FCGIClientState where
  "sample_state = \<lparr>buff = ts_malloc 7 64, pBuffInc = 0, request = None, header = None,
     postHeader = None, requestHeaders = [(''REQUEST_METHOD'', ''GET'')], request_id = 1\<rparr>"

lemma sample_state_params: "length (params_bytes (requestHeaders sample_state)) = 19"
  by (simp add: sample_state_def name_value_bytes_def Let_def len_bytes_def)

theorem begin_request_wire_roundtrip_witness:
  "\<exists>st' rs. createBeginRequest sample_state = Inr st' \<and> read_all read_record (sent st') = Some rs \<and>
     length rs = 3"
proof -
  have "buffer_wf sample_state" "pBuffInc sample_state = 0"
      "\<forall>it\<in>set (requestHeaders sample_state). short_pair it"
    by (simp_all add: sample_state_def buffer_wf_def short_pair_def)
  moreover have "length (buff sample_state) = 64" by (simp add: sample_state_def)
  ultimately show ?thesis
    using begin_request_wire_roundtrip [of sample_state] sample_state_params by auto
qed

text \<open>
  C36: the parameter record announces only the low 16 bits of the length of its content,
  while the whole content is written: from 65536 bytes of variables on, a reader that
  follows the header resumes in the middle of the variables.
\<close>

theorem params_record_announces_mod_65536:
  assumes "buffer_wf st" "pBuffInc st = 0" "createBeginRequest st = Inr st'"
  shows "\<exists>h. read_header (drop 16 (sent st')) =
      Some (h, params_bytes (requestHeaders st) @ header_bytes (record_header FCGI_PARAMS (request_id st) 0)) \<and>
    content_len h = length (params_bytes (requestHeaders st)) mod 65536"
proof -
  let ?m = "requestHeaders st" and ?rid = "request_id st"
  have s: "sent st = []" using assms(2) by (simp add: sent_def)
  have f: "\<not> length (buff st) < 32 + length (params_bytes ?m)"
    using createBeginRequest_Inl_iff [OF assms(1)] assms(2,3) by auto
  with createBeginRequest_fits [OF assms(1)] assms(3) s
  have "sent st' = concat (map record_bytes (begin_records ?rid ?m))" by auto
  moreover have "length (params_bytes ?m) < 2 ^ 32"
    using f assms(1) by (simp add: buffer_wf_def)
  ultimately show ?thesis
    by (simp add: begin_records_def wire_record_bytes content_len_def)
      (simp add: record_header_def BYTE_1_0 unat_uint_of_nat)
qed

theorem params_record_announces_mod_65536_witness:
  "\<exists>st' h r. createBeginRequest sample_state = Inr st' \<and>
     read_header (drop 16 (sent st')) = Some (h, r) \<and> content_len h = 19"
proof -
  have wf: "buffer_wf sample_state" "pBuffInc sample_state = 0"
    by (simp_all add: sample_state_def buffer_wf_def)
  obtain st' where st': "createBeginRequest sample_state = Inr st'"
    using createBeginRequest_fits [OF wf(1)] sample_state_params by (auto simp: sample_state_def sent_def)
  with params_record_announces_mod_65536 [OF wf st'] sample_state_params show ?thesis by auto
qed

text \<open>
  the CGI variables of a request: each client header under its upper-case name with
  prefix \<open>HTTP_\<close> (the last one if it repeats), and over them the fifteen variables of the
  plugin, where the script is the path of the URL with the index page added to a path that
  ends in a slash. The variables are in key order.
\<close>

theorem request_headers_lookup:
  assumes "getDocumentRootDir cfg = Some root"
    and "request_script cfg rq = Inr script"
  shows "\<exists>m. GenerateFcgiRequestHeaders cfg rq = Inr m \<and> map_wf m \<and>
    map_find m = map_of (rev (client_headers rq)) ++ map_of (fixed_headers root script rq)"
  using generate_headers [OF assms] by blast

theorem request_headers_lookup_witness:
  "\<exists>m. GenerateFcgiRequestHeaders default_config sample_request = Inr m \<and>
     map_find m ''SCRIPT_FILENAME'' = Some ''/var/www/html/app/index.php'' \<and>
     map_find m ''HTTP_HOST'' = Some ''localhost''"
proof -
  have r: "getDocumentRootDir default_config = Some ''/var/www/html/''"
      "request_script default_config sample_request = Inr ''app/index.php''"
    by (simp_all add: getDocumentRootDir_def default_config_def request_script_def sample_request_def
        endsWith_def getHtml_def)
  have c: "client_headers sample_request = [(''HTTP_HOST'', ''localhost'')]"
    by code_simp
  show ?thesis
    using request_headers_lookup [OF r] by (auto simp: c map_add_def fixed_headers_def)
qed

text \<open>
  C35: for a request without a body (any method but \<open>POST\<close>) the buffer has 5000 bytes
  whatever the request holds, so a request whose variables need more than 4968 bytes
  overflows the heap block; all others are written.
\<close>

theorem get_request_overflow_iff:
  assumes "new_client_state junk cfg rq rid = Inr st" "rq_method rq \<noteq> ''POST''"
  shows "createBeginRequest st = Inl BufferOverflow \<longleftrightarrow> 4968 < length (params_bytes (requestHeaders st))"
proof -
  from new_client_state_get [OF assms] have "buffer_wf st" "length (buff st) = 5000" "pBuffInc st = 0"
    by (simp_all add: buffer_wf_def)
  then show ?thesis using createBeginRequest_Inl_iff [of st BufferOverflow] by auto
qed

theorem get_request_overflow_iff_witness:
  "\<exists>st. new_client_state 0 default_config sample_request 1 = Inr st \<and>
     (createBeginRequest st = Inl BufferOverflow \<longleftrightarrow> 4968 < length (params_bytes (requestHeaders st)))"
proof -
  have "getDocumentRootDir default_config = Some ''/var/www/html/''"
      "request_script default_config sample_request = Inr ''app/index.php''"
    by (simp_all add: getDocumentRootDir_def default_config_def request_script_def sample_request_def
        endsWith_def getHtml_def)
  from new_client_state_ok [OF this, of 0 1]
  obtain st where "new_client_state 0 default_config sample_request 1 = Inr st"
    by (auto simp: sample_request_def)
  with get_request_overflow_iff [OF this] show ?thesis by (simp add: sample_request_def)
qed

text \<open>
  for a \<open>POST\<close> the size of the buffer is 5000 plus the number the client sends as
  \<open>Content-Length\<close>, whatever its sign: a value below -4968 makes a block that is too small
  for any request header, and writing the header overflows it.
\<close>

theorem post_buffer_size:
  assumes "new_client_state junk cfg rq rid = Inr st" "rq_method rq = ''POST''"
    and "rq_headers rq = Some hs" "rq_find rq ''Content-Length'' = Some cl"
  shows "int (length (buff st)) = 5000 + istream_int (c_str cl) \<and>
    (istream_int (c_str cl) < -4968 \<longrightarrow> createBeginRequest st = Inl BufferOverflow)"
proof -
  from new_client_state_post [OF assms] have s: "buffer_wf st" "pBuffInc st = 0"
      "int (length (buff st)) = 5000 + istream_int (c_str cl)"
    by (simp_all add: buffer_wf_def)
  then show ?thesis using createBeginRequest_Inl_iff [OF s(1), of BufferOverflow] by auto
qed

theorem post_buffer_size_witness:
  "\<exists>st. new_client_state 0 default_config (sample_post ''-4999'') 1 = Inr st \<and>
     length (buff st) = 1 \<and> createBeginRequest st = Inl BufferOverflow"
proof -
  have "\<not> isLeft_result (new_client_state 0 default_config (sample_post ''-4999'') 1)"
    by code_simp
  then obtain st where st: "new_client_state 0 default_config (sample_post ''-4999'') 1 = Inr st"
    by (cases "new_client_state 0 default_config (sample_post ''-4999'') 1") (auto simp: isLeft_result_def)
  have cl: "istream_int (c_str ''-4999'') = -4999" by code_simp
  have "rq_method (sample_post ''-4999'') = ''POST''" "rq_headers (sample_post ''-4999'') = Some []"
      "rq_find (sample_post ''-4999'') ''Content-Length'' = Some ''-4999''"
    by (simp_all add: sample_post_def)
  from post_buffer_size [OF st this] st cl show ?thesis by auto
qed

text \<open>
  a body chunk that fits is written as a standard-input record with the data and an
  empty standard-input record; a chunk that does not fit overflows the buffer.
\<close>

theorem post_chunk_wire_roundtrip:
  assumes "length (buff st) < 2 ^ 31" "length data < 65536"
  shows "if 16 + length data \<le> length (buff st)
    then \<exists>st'. postBodyChunk data st = Inr st' \<and>
           read_all read_record (sent st') = Some (stdin_records (request_id st) data)
    else postBodyChunk data st = Inl BufferOverflow"
proof (cases "16 + length data \<le> length (buff st)")
  case True
  then obtain st' where "postBodyChunk data st = Inr st'"
      "sent st' = concat (map record_bytes (stdin_records (request_id st) data))"
    using postBodyChunk_fits [OF assms(1)] by blast
  with True show ?thesis using read_stdin_records [OF assms(2)] by auto
next
  case False
  then show ?thesis using postBodyChunk_overflow [OF assms(1), of data] assms(2) by auto
qed

theorem post_chunk_wire_roundtrip_witness:
  "\<exists>st'. postBodyChunk ''a=b'' sample_state = Inr st' \<and>
     read_all read_record (sent st') = Some (stdin_records 1 ''a=b'')"
  using post_chunk_wire_roundtrip [of sample_state "''a=b''"]
  by (simp add: sample_state_def)

text \<open>
  C34: every chunk is followed by the record that ends the body. A body that arrives in two
  chunks therefore ends, for the backend, after the first one: the second is sent but is not
  part of the body.
\<close>

theorem post_second_chunk_lost:
  assumes "length (buff st) < 2 ^ 31" "length data < 65536" "length data' < 65536"
    and "postBodyChunk data st = Inr st1" "postBodyChunk data' st1 = Inr st2"
  shows "\<exists>rs. read_all read_record (sent st1 @ sent st2) = Some rs \<and>
    rs = stdin_records (request_id st) data @ stdin_records (request_id st) data' \<and>
    stdin_content rs = str_bytes data"
proof -
  have 1: "length (buff st1) = length (buff st)" "request_frame st1 = request_frame st"
      "sent st1 = concat (map record_bytes (stdin_records (request_id st) data))"
    using postBodyChunk_Inr [OF assms(1) _ assms(4)] assms(2) by simp_all
  have 2: "sent st2 = concat (map record_bytes (stdin_records (request_id st1) data'))"
    using postBodyChunk_Inr [OF _ _ assms(5)] assms(1,3) 1(1) by simp
  have rid: "request_id st1 = request_id st" using 1(2) by (simp add: request_frame_def)
  let ?t = "\<lambda>d. [(FCGI_STDIN, str_bytes d), (FCGI_STDIN, [])]"
  have "read_all read_record (sent st1 @ sent st2) =
      Some (stdin_records (request_id st) data @ stdin_records (request_id st) data')"
    using read_wire_records [of "?t data @ ?t data'" "request_id st"] 1(3) 2 rid assms(2,3)
    by (simp add: stdin_records_def)
  then show ?thesis
    by (simp add: stdin_records_def wire_record_def record_header_def)
qed

theorem post_second_chunk_lost_witness:
  "\<exists>st1 st2 rs. postBodyChunk ''ab'' sample_state = Inr st1 \<and> postBodyChunk ''cd'' st1 = Inr st2 \<and>
     read_all read_record (sent st1 @ sent st2) = Some rs \<and> stdin_content rs = str_bytes ''ab''"
proof -
  have l: "length (buff sample_state) = 64" by (simp add: sample_state_def)
  then obtain st1 where 1: "postBodyChunk ''ab'' sample_state = Inr st1" "length (buff st1) = 64"
    using postBodyChunk_fits [of sample_state "''ab''"] by auto
  then obtain st2 where 2: "postBodyChunk ''cd'' st1 = Inr st2"
    using postBodyChunk_fits [of st1 "''cd''"] by auto
  show ?thesis
    using post_second_chunk_lost [OF _ _ _ 1(1) 2] l 1(1) 2 by auto
qed

lemma emptyParam_fits:
  assumes "buffer_wf st" "8 \<le> length (buff st)"
    and "map_find (requestHeaders st) ''REQUEST_METHOD'' = Some rmethod"
  shows "\<exists>st'. emptyParam st = Inr st' \<and> pBuffInc st' \<le> length (buff st') \<and>
    sent st' = (if rmethod = ''POST'' then [] else record_bytes (wire_record FCGI_STDIN (request_id st) []))"
proof (cases "rmethod = ''POST''")
  case True
  then show ?thesis
    using assms(3) by (simp add: emptyParam_def map_index_def sent_def)
next
  case False
  let ?st = "st\<lparr>pBuffInc := 0, requestHeaders := requestHeaders st\<rparr>"
  let ?h = "record_header FCGI_STDIN (request_id st) 0"
  have wf: "buffer_wf (?st\<lparr>postHeader := Some ?h\<rparr>)" "sent (?st\<lparr>postHeader := Some ?h\<rparr>) = []"
    using assms(1) by (simp_all add: buffer_wf_def sent_def)
  then obtain st' where "emit (?st\<lparr>postHeader := Some ?h\<rparr>) (header_bytes ?h) = Inr st'"
      "sent st' = header_bytes ?h" "buffer_wf st'"
    using assms(2) buffer.wr_fits [OF wf(1), of "header_bytes ?h"] by auto
  then show ?thesis
    using False assms(3)
    by (auto simp: emptyParam_def map_index_def set_len_createHeader wire_record_def buffer_wf_def)
qed

end
