(* ===== verification/Fcgi_Response.thy ===== *)
theory Fcgi_Response
  imports Fcgi_Request
begin

text \<open>
  The response side of \<open>FCGIClientRequest\<close> (\<open>ats_fcgi_client.cc\<close>): the byte-driven record
  parser and the loop \<open>fcgiProcessBuffer\<close> that turns a chunk from the backend into the bytes
  for the client. The pair of pointers \<open>beg_buf\<close>, \<open>end_buf\<close> is the list of the bytes between
  them; a \<open>beg_buf\<close> that was moved behind \<open>end_buf\<close> is \<open>None\<close>. Parsing and printing a MIME
  header are functions of Traffic Server: the parameter \<open>mime\<close>.
\<close>

section \<open>Parser states\<close>

datatype FCGI_State =
    fcgi_state_version
  | fcgi_state_type
  | fcgi_state_request_id_hi
  | fcgi_state_request_id_lo
  | fcgi_state_content_len_hi
  | fcgi_state_content_len_lo
  | fcgi_state_padding_len
  | fcgi_state_reserved
  | fcgi_state_content_begin
  | fcgi_state_content_proc
  | fcgi_state_padding
  | fcgi_state_done

text \<open>The code compares states as the integers of the enumeration.\<close>

fun state_int :: "FCGI_State \<Rightarrow> nat" where
  "state_int fcgi_state_version = 0"
| "state_int fcgi_state_type = 1"
| "state_int fcgi_state_request_id_hi = 2"
| "state_int fcgi_state_request_id_lo = 3"
| "state_int fcgi_state_content_len_hi = 4"
| "state_int fcgi_state_content_len_lo = 5"
| "state_int fcgi_state_padding_len = 6"
| "state_int fcgi_state_reserved = 7"
| "state_int fcgi_state_content_begin = 8"
| "state_int fcgi_state_content_proc = 9"
| "state_int fcgi_state_padding = 10"
| "state_int fcgi_state_done = 11"

lemma state_int_inject: "state_int s = state_int t \<longleftrightarrow> s = t"
  by (cases s; cases t) simp_all

instantiation FCGI_State :: linorder
begin

definition less_eq_FCGI_State :: "FCGI_State \<Rightarrow> FCGI_State \<Rightarrow> bool" where
  "less_eq_FCGI_State s t \<longleftrightarrow> state_int s \<le> state_int t"

definition less_FCGI_State :: "FCGI_State \<Rightarrow> FCGI_State \<Rightarrow> bool" where
  "less_FCGI_State s t \<longleftrightarrow> state_int s < state_int t"

instance
  by standard (auto simp: less_eq_FCGI_State_def less_FCGI_State_def state_int_inject)

end

datatype process_result = FCGI_PROCESS_AGAIN | FCGI_PROCESS_DONE | FCGI_PROCESS_ERR

record FCGIRecordList =
  rl_header :: FCGI_Header
  rl_content :: bytes
  rl_state :: FCGI_State
  rl_length :: nat
  rl_offset :: nat

definition new_record :: FCGIRecordList where
  "new_record = \<lparr>rl_header = zero_header, rl_content = [], rl_state = fcgi_state_version,
     rl_length = 0, rl_offset = 0\<rparr>"


section \<open>One record\<close>

definition fcgiProcessHeader :: "uchar \<Rightarrow> FCGIRecordList \<Rightarrow> process_result \<times> FCGIRecordList" where
  "fcgiProcessHeader ch rec =
     (let h = rl_header rec in
      case rl_state rec of
        fcgi_state_version \<Rightarrow>
          (FCGI_PROCESS_AGAIN, rec\<lparr>rl_header := h\<lparr>h_version := ch\<rparr>, rl_state := fcgi_state_type\<rparr>)
      | fcgi_state_type \<Rightarrow>
          (FCGI_PROCESS_AGAIN, rec\<lparr>rl_header := h\<lparr>h_type := ch\<rparr>, rl_state := fcgi_state_request_id_hi\<rparr>)
      | fcgi_state_request_id_hi \<Rightarrow>
          (FCGI_PROCESS_AGAIN, rec\<lparr>rl_header := h\<lparr>h_requestIdB1 := ch\<rparr>, rl_state := fcgi_state_request_id_lo\<rparr>)
      | fcgi_state_request_id_lo \<Rightarrow>
          (FCGI_PROCESS_AGAIN, rec\<lparr>rl_header := h\<lparr>h_requestIdB0 := ch\<rparr>, rl_state := fcgi_state_content_len_hi\<rparr>)
      | fcgi_state_content_len_hi \<Rightarrow>
          (FCGI_PROCESS_AGAIN, rec\<lparr>rl_header := h\<lparr>h_contentLengthB1 := ch\<rparr>, rl_state := fcgi_state_content_len_lo\<rparr>)
      | fcgi_state_content_len_lo \<Rightarrow>
          (FCGI_PROCESS_AGAIN, rec\<lparr>rl_header := h\<lparr>h_contentLengthB0 := ch\<rparr>, rl_state := fcgi_state_padding_len\<rparr>)
      | fcgi_state_padding_len \<Rightarrow>
          (FCGI_PROCESS_AGAIN, rec\<lparr>rl_header := h\<lparr>h_paddingLength := ch\<rparr>, rl_state := fcgi_state_reserved\<rparr>)
      | fcgi_state_reserved \<Rightarrow>
          (FCGI_PROCESS_AGAIN, rec\<lparr>rl_header := h\<lparr>h_reserved := ch\<rparr>, rl_state := fcgi_state_content_begin\<rparr>)
      | fcgi_state_content_begin \<Rightarrow> (FCGI_PROCESS_DONE, rec)
      | fcgi_state_content_proc \<Rightarrow> (FCGI_PROCESS_DONE, rec)
      | fcgi_state_padding \<Rightarrow> (FCGI_PROCESS_DONE, rec)
      | fcgi_state_done \<Rightarrow> (FCGI_PROCESS_DONE, rec))"

text \<open>\<open>*beg_buf += n\<close>.\<close>

definition advance :: "nat \<Rightarrow> bytes \<Rightarrow> bytes option" where
  "advance n beg_buf = (if n \<le> length beg_buf then Some (drop n beg_buf) else None)"

definition fcgiProcessContent :: "bytes \<Rightarrow> FCGIRecordList
    \<Rightarrow> (process_result \<times> bytes option \<times> FCGIRecordList) result" where
  "fcgiProcessContent beg_buf rec =
     (let nb = length beg_buf; offset = rl_offset rec; padding = padding_len (rl_header rec) in
      if rl_state rec = fcgi_state_padding then
        Inr (FCGI_PROCESS_DONE, advance (nat (int (rl_length rec) - int offset + int padding)) beg_buf,
             rec\<lparr>rl_state := fcgi_state_done\<rparr>)
      else
        let con_len = rl_length rec - offset;
            tot_len = con_len + padding;
            cpy_len = (if con_len \<le> nb then con_len else nb)
        in bindE (mem_write offset (take cpy_len beg_buf) (rl_content rec)) (\<lambda>content.
             let rec = rec\<lparr>rl_content := content\<rparr> in
             if tot_len \<le> nb then
               Inr (FCGI_PROCESS_DONE, advance tot_len beg_buf,
                    rec\<lparr>rl_offset := offset + tot_len, rl_state := fcgi_state_done\<rparr>)
             else if con_len \<le> nb then
               Inr (FCGI_PROCESS_AGAIN, advance nb beg_buf,
                    rec\<lparr>rl_state := fcgi_state_padding, rl_offset := offset + nb\<rparr>)
             else
               Inr (FCGI_PROCESS_AGAIN, advance nb beg_buf, rec\<lparr>rl_offset := offset + nb\<rparr>)))"

text \<open>
  The loop over the header bytes. It leaves early with a result (at the end of the buffer),
  or goes on to the content.
\<close>

fun header_loop :: "bytes \<Rightarrow> FCGIRecordList
    \<Rightarrow> (process_result option \<times> bytes \<times> FCGIRecordList) result" where
  "header_loop [] rec =
     (if rl_state rec < fcgi_state_content_begin then Inl OutOfBounds else Inr (None, [], rec))"
| "header_loop (ch # beg_buf) rec =
     (if rl_state rec < fcgi_state_content_begin then
        let (rv, rec') = fcgiProcessHeader ch rec in
        if rv = FCGI_PROCESS_ERR then Inr (Some FCGI_PROCESS_ERR, ch # beg_buf, rec')
        else if beg_buf = [] then Inr (Some FCGI_PROCESS_AGAIN, [], rec')
        else header_loop beg_buf rec'
      else Inr (None, ch # beg_buf, rec))"

definition fcgiProcessRecord :: "uchar \<Rightarrow> bytes \<Rightarrow> FCGIRecordList
    \<Rightarrow> (process_result \<times> bytes option \<times> FCGIRecordList) result" where
  "fcgiProcessRecord junk beg_buf rec =
     bindE (header_loop beg_buf rec) (\<lambda>(early, beg_buf, rec).
       case early of
         Some rv \<Rightarrow> Inr (rv, Some beg_buf, rec)
       | None \<Rightarrow>
           let rec = (if rl_state rec = fcgi_state_content_begin
                      then let len = unat (fcgiHeaderGetContentLen (rl_header rec))
                           in rec\<lparr>rl_length := len, rl_content := ts_malloc junk len,
                                  rl_state := fcgi_state_content_proc\<rparr>
                      else rec)
           in fcgiProcessContent beg_buf rec)"


section \<open>A chunk\<close>

record fcgi_response =
  first_chunk :: bool
  headerRecord :: "FCGIRecordList option"

text \<open>The response part of the constructor.\<close>

definition new_response :: fcgi_response where
  "new_response = \<lparr>first_chunk = True, headerRecord = None\<rparr>"

text \<open>
  What Traffic Server makes of the header text: a parse error, no end yet, or the blocks of the
  buffer into which it prints the header again, whether the \<open>Headers\<close> object is initialised,
  and the values of the field \<open>Status\<close>.
\<close>

datatype mime_result = MimeError | MimeCont | MimeDone "bytes list" bool "bytes option"

text \<open>
  \<open>convert_mime_hdr_to_string\<close>: the loop copies the blocks of the reader behind each other until
  there is none or one without data; the memory has the size of all of them and a byte more.
\<close>

fun copy_blocks :: "bytes list \<Rightarrow> bytes" where
  "copy_blocks [] = []"
| "copy_blocks (block # blocks) = (if block = [] then [] else block @ copy_blocks blocks)"

definition convert_mime_hdr_to_string :: "bytes list \<Rightarrow> bytes" where
  "convert_mime_hdr_to_string blocks = copy_blocks blocks @ [0]"

definition crlf :: bytes where "crlf = [13, 10]"

definition c_bytes :: "bytes \<Rightarrow> bytes" where
  "c_bytes bs = takeWhile (\<lambda>b. b \<noteq> 0) bs"

fun find_bytes :: "bytes \<Rightarrow> bytes \<Rightarrow> nat option" where
  "find_bytes pat [] = (if pat = [] then Some 0 else None)"
| "find_bytes pat (b # bs) =
     (if take (length pat) (b # bs) = pat then Some 0 else map_option Suc (find_bytes pat bs))"

lemma find_bytes_first:
  assumes "take (length pat) (drop n bs) = pat" "n + length pat \<le> length bs"
    and "\<forall>m<n. take (length pat) (drop m bs) \<noteq> pat"
  shows "find_bytes pat bs = Some n"
  using assms
proof (induction bs arbitrary: n)
  case (Cons b bs)
  show ?case
  proof (cases n)
    case (Suc n')
    have "\<forall>m<n'. take (length pat) (drop m bs) \<noteq> pat" using Cons.prems(3) Suc by fastforce
    moreover have "take (length pat) (b # bs) \<noteq> pat" using Cons.prems(3) Suc by fastforce
    ultimately show ?thesis using Cons.IH [of n'] Cons.prems(1,2) Suc by simp
  qed (use Cons.prems in simp)
qed simp

definition header_string :: "bytes \<Rightarrow> bytes" where
  "header_string start =
     (case find_bytes (crlf @ crlf) start of None \<Rightarrow> [] | Some foundPos \<Rightarrow> take (foundPos + 4) start)"

definition default_status :: bytes where
  "default_status = str_bytes ''HTTP/1.0 200 OK'' @ crlf"

definition status_line :: "(bytes \<Rightarrow> mime_result) \<Rightarrow> bytes \<Rightarrow> bytes \<Rightarrow> bytes" where
  "status_line mime http_1_1 content =
     (let buff = c_bytes (header_string content) in
      case mime buff of
        MimeDone blocks initialized status \<Rightarrow>
          if buff = c_bytes (convert_mime_hdr_to_string blocks) then
            (if initialized then
               (case status of
                  Some value \<Rightarrow> http_1_1 @ str_bytes '' '' @ c_bytes value @ crlf
                | None \<Rightarrow> default_status)
             else [])
          else default_status
      | _ \<Rightarrow> [])"

text \<open>A header Traffic Server understands and prints as it was.\<close>

lemma copy_blocks_concat: "[] \<notin> set blocks \<Longrightarrow> copy_blocks blocks = concat blocks"
  by (induction blocks) auto

lemma status_line_of_header:
  assumes "0 \<notin> set h" "\<forall>m<length h. take 4 (drop m (h @ crlf @ crlf)) \<noteq> crlf @ crlf"
    and "mime (h @ crlf @ crlf) = MimeDone blocks True status"
    and "[] \<notin> set blocks" "concat blocks = h @ crlf @ crlf"
  shows "status_line mime http_1_1 (h @ crlf @ crlf @ body) =
    (case status of Some v \<Rightarrow> http_1_1 @ str_bytes '' '' @ c_bytes v @ crlf | None \<Rightarrow> default_status)"
proof -
  have "take 4 (drop m ((h @ crlf @ crlf) @ body)) = take 4 (drop m (h @ crlf @ crlf))" if "m < length h" for m
    using that by (subst drop_append, subst take_append) (simp add: crlf_def)
  moreover have "length (crlf @ crlf) = 4" by (simp add: crlf_def)
  ultimately have
    "\<forall>m<length h. take (length (crlf @ crlf)) (drop m (h @ crlf @ crlf @ body)) \<noteq> crlf @ crlf"
    using assms(2) unfolding append_assoc by metis
  from find_bytes_first [OF _ _ this]
  have "find_bytes (crlf @ crlf) (h @ crlf @ crlf @ body) = Some (length h)" by simp
  then have "header_string (h @ crlf @ crlf @ body) = h @ crlf @ crlf"
    by (simp add: header_string_def crlf_def)
  moreover have "0 \<notin> set (h @ crlf @ crlf)" using assms(1) by (simp add: crlf_def)
  then have "c_bytes ((h @ crlf @ crlf) @ z) = (h @ crlf @ crlf) @ c_bytes z" for z
    unfolding c_bytes_def by (intro takeWhile_append2) metis
  from this [of "[]"] this [of "[0]"]
  have "c_bytes (h @ crlf @ crlf) = h @ crlf @ crlf" "c_bytes (concat blocks @ [0]) = h @ crlf @ crlf"
    unfolding assms(5) by (simp_all add: c_bytes_def)
  ultimately show ?thesis
    using assms(3,4) by (simp add: status_line_def convert_mime_hdr_to_string_def copy_blocks_concat Let_def)
qed

definition server_error :: bytes where
  "server_error = str_bytes ''HTTP/1.0 500 Server Error'' @ crlf @ crlf"

text \<open>What a complete record adds to the output, and whether it ends the response.\<close>

definition record_output :: "FCGIRecordList \<Rightarrow> bytes \<times> bool" where
  "record_output rec =
     (let content = take (rl_length rec) (rl_content rec); rtype = h_type (rl_header rec);
          out = (if rtype = FCGI_STDOUT then content else [])
      in if rtype = FCGI_STDERR then (out @ server_error @ content, True)
         else if rtype = FCGI_END_REQUEST then (out, True)
         else (out, False))"

definition deliver :: "(bytes \<Rightarrow> mime_result) \<Rightarrow> bytes \<Rightarrow> bool \<Rightarrow> FCGIRecordList \<Rightarrow> bytes \<times> bool" where
  "deliver mime http_1_1 first rec =
     (let (out, finished) = record_output rec
      in ((if first then status_line mime http_1_1 (take (rl_length rec) (rl_content rec)) else []) @ out,
          finished))"

definition fresh_if_done :: "FCGIRecordList \<Rightarrow> FCGIRecordList" where
  "fresh_if_done rec = (if rl_state rec = fcgi_state_done then new_record else rec)"

lemma fresh_if_done_not_done [simp]: "rl_state (fresh_if_done rec) \<noteq> fcgi_state_done"
  by (simp add: fresh_if_done_def new_record_def)

lemma fresh_if_done_idem [simp]: "fresh_if_done (fresh_if_done rec) = fresh_if_done rec"
  by (simp add: fresh_if_done_def new_record_def)

lemmas state_less_simps = less_FCGI_State_def less_eq_FCGI_State_def

lemma fcgiProcessHeader_again:
  assumes "rl_state rec < fcgi_state_content_begin"
  shows "fst (fcgiProcessHeader ch rec) = FCGI_PROCESS_AGAIN"
    and "state_int (rl_state (snd (fcgiProcessHeader ch rec))) = Suc (state_int (rl_state rec))"
  using assms by (cases "rl_state rec"; simp add: fcgiProcessHeader_def Let_def state_less_simps)+

lemma header_loop_shrinks:
  "header_loop bs rec = Inr (early, bs', rec') \<Longrightarrow>
     length bs' \<le> length bs \<and> (early \<noteq> None \<longrightarrow> bs' = []) \<and>
     (rl_state rec < fcgi_state_content_begin \<and> early = None \<longrightarrow> length bs' < length bs)"
proof (induction bs rec rule: header_loop.induct)
  case (2 ch bs rec)
  show ?case
  proof (cases "rl_state rec < fcgi_state_content_begin")
    case True
    obtain rv rec1 where step: "fcgiProcessHeader ch rec = (rv, rec1)" by fastforce
    have rv: "rv = FCGI_PROCESS_AGAIN" using fcgiProcessHeader_again(1) [OF True, of ch] step by simp
    show ?thesis
      using "2.prems" "2.IH" [OF True step [symmetric]] True step rv
      by (cases "bs = []") fastforce+
  qed (use "2.prems" in simp)
qed (simp split: if_splits)

lemma advance_Some: "advance n bs = Some bs' \<Longrightarrow> length bs' \<le> length bs"
  by (auto simp: advance_def split: if_splits)

lemma advance_all [simp]: "advance (length bs) bs = Some []"
  by (simp add: advance_def)

lemma fcgiProcessContent_done:
  "fcgiProcessContent bs rec = Inr (rv, Some (b # bs'), rec') \<Longrightarrow>
     rl_state rec' = fcgi_state_done \<and> Suc (length bs') \<le> length bs"
  by (auto simp: fcgiProcessContent_def Let_def bindE_eq_Inr split: if_splits dest!: advance_Some)

lemma fcgiProcessRecord_shrinks:
  assumes "fcgiProcessRecord junk bs rec = Inr (rv, Some (b # bs'), rec')"
  shows "rl_state rec' = fcgi_state_done \<and> Suc (length bs') \<le> length bs \<and>
         (rl_state rec < fcgi_state_content_begin \<longrightarrow> Suc (length bs') < length bs)"
proof -
  obtain early bs1 rec1 where loop: "header_loop bs rec = Inr (early, bs1, rec1)"
    using assms unfolding fcgiProcessRecord_def by (auto simp: bindE_eq_Inr)
  note shrink = header_loop_shrinks [OF loop]
  have "early = None"
    using assms loop shrink by (auto simp: fcgiProcessRecord_def split: option.splits)
  then obtain rec2 where "fcgiProcessContent bs1 rec2 = Inr (rv, Some (b # bs'), rec')"
    using assms loop by (auto simp: fcgiProcessRecord_def Let_def)
  from fcgiProcessContent_done [OF this] shrink \<open>early = None\<close> show ?thesis by auto
qed

text \<open>
  The loop of \<open>fcgiProcessBuffer\<close>. When a completed record leaves \<open>beg_buf\<close> behind
  \<open>end_buf\<close> and does not end the response, the next turn reads \<open>**beg_buf\<close> there.
\<close>

function process_loop :: "(bytes \<Rightarrow> mime_result) \<Rightarrow> bytes \<Rightarrow> uchar \<Rightarrow> bytes \<Rightarrow> bool
    \<Rightarrow> FCGIRecordList \<Rightarrow> bytes \<Rightarrow> (bool \<times> bool \<times> FCGIRecordList \<times> bytes) result" where
  "process_loop mime http_1_1 junk beg_buf first rec output =
     (case fcgiProcessRecord junk beg_buf (fresh_if_done rec) of
        Inl e \<Rightarrow> Inl e
      | Inr (rv, cursor, rec') \<Rightarrow>
          let done = (rv = FCGI_PROCESS_DONE);
              (out, finished) = (if done then deliver mime http_1_1 first rec' else ([], False));
              first' = (first \<and> \<not> done);
              output' = output @ out
          in if finished then Inr (True, first', rec', output')
             else (case cursor of
                     None \<Rightarrow> Inl OutOfBounds
                   | Some [] \<Rightarrow> Inr (False, first', rec', output')
                   | Some (b # bs) \<Rightarrow> process_loop mime http_1_1 junk (b # bs) first' rec' output'))"
  by pat_completeness auto
termination
proof (relation "measure (\<lambda>(mime, v, junk, bs, first, rec, outp).
                   2 * length bs + (if rl_state rec = fcgi_state_done then 0 else 1))")
  fix mime :: "bytes \<Rightarrow> mime_result" and v :: bytes and junk :: uchar and bs first rec
    and outp :: bytes and p rv c cursor rec' dn d out finished first' outp' cs b bs'
  assume run: "fcgiProcessRecord junk bs (fresh_if_done rec) = Inr p"
    and p: "(rv, c) = p" "(cursor, rec') = c" and cur: "cursor = Some cs" "cs = b # bs'"
  from run p cur have
    step: "fcgiProcessRecord junk bs (fresh_if_done rec) = Inr (rv, Some (b # bs'), rec')" by simp
  have "rl_state (fresh_if_done rec) < fcgi_state_content_begin" if "rl_state rec = fcgi_state_done"
    using that by (simp add: fresh_if_done_def new_record_def state_less_simps)
  with fcgiProcessRecord_shrinks [OF step]
  show "((mime, v, junk, b # bs', first', rec', outp'), mime, v, junk, bs, first, rec, outp)
          \<in> measure (\<lambda>(mime, v, junk, bs, first, rec, outp).
                   2 * length bs + (if rl_state rec = fcgi_state_done then 0 else 1))"
    by auto
qed simp

declare process_loop.simps [simp del]

definition fcgiProcessBuffer :: "(bytes \<Rightarrow> mime_result) \<Rightarrow> bytes \<Rightarrow> uchar \<Rightarrow> bytes \<Rightarrow> bytes
    \<Rightarrow> fcgi_response \<Rightarrow> (bool \<times> bytes \<times> fcgi_response) result" where
  "fcgiProcessBuffer mime http_1_1 junk buf output st =
     (let rec = (case headerRecord st of None \<Rightarrow> new_record | Some rec \<Rightarrow> rec) in
      bindE (process_loop mime http_1_1 junk buf (first_chunk st) rec output)
        (\<lambda>(finished, first, rec, output).
           Inr (finished, output, \<lparr>first_chunk = first, headerRecord = Some rec\<rparr>)))"

definition fcgiDecodeRecordChunk :: "(bytes \<Rightarrow> mime_result) \<Rightarrow> bytes \<Rightarrow> uchar \<Rightarrow> bytes \<Rightarrow> bytes
    \<Rightarrow> fcgi_response \<Rightarrow> (bool \<times> bytes \<times> fcgi_response) result" where
  "fcgiDecodeRecordChunk mime http_1_1 junk buf output st =
     fcgiProcessBuffer mime http_1_1 junk buf output st"

end
