(* ===== verification/Server_Connection.thy ===== *)
theory Server_Connection
  imports Fcgi_Response
begin

text \<open>
  \<open>ServerConnection\<close> and \<open>InterceptIOChannel\<close> (\<open>server_connection.cc\<close>): one connection to the
  backend with its two channels. Calls of Traffic Server that have an effect outside of the
  plugin are values of \<open>ats_call\<close>, in the order in which the code makes them; what such a
  call answers is a parameter (\<open>ats_io\<close>). Objects are known by their address, a number.
\<close>

section \<open>Traffic Server\<close>

datatype ats_call =
    NetConnect nat bytes bytes    \<comment> \<open>for a connection: address and port in network order\<close>
  | VConnRead nat
  | VConnWrite nat
  | VIOReenable nat
  | VConnClose nat
  | VConnAbort nat
  | ContDestroy
  | AddPlugin nat nat             \<comment> \<open>\<open>addPlugin\<close> of a transaction and an intercept\<close>
  | Resume nat
  | Produce nat bytes             \<comment> \<open>bytes for the client of an intercept\<close>
  | SetOutputComplete nat
  | TxnError nat
  | SetStatusCode nat nat

record ats_io =
  vconn_closed :: bool            \<comment> \<open>\<open>TSVConnClosedGet\<close>\<close>
  vio_made :: bool                \<comment> \<open>\<open>TSVConnRead\<close> or \<open>TSVConnWrite\<close> is not null\<close>
  accepted :: "nat \<Rightarrow> nat"        \<comment> \<open>how much of a write \<open>TSIOBufferWrite\<close> takes\<close>

section \<open>Channels\<close>

text \<open>\<open>iobuf\<close> and \<open>reader\<close> are made together; the bytes are those written to the buffer.\<close>

record InterceptIOChannel =
  vio :: bool
  iobuf :: "bytes option"
  total_bytes_written :: int
  readEnable :: bool

definition new_channel :: InterceptIOChannel where
  "new_channel = \<lparr>vio = False, iobuf = None, total_bytes_written = 0, readEnable = False\<rparr>"

text \<open>\<open>InterceptIOChannel::read\<close>.\<close>

definition channel_read :: "ats_io \<Rightarrow> nat option \<Rightarrow> InterceptIOChannel
    \<Rightarrow> (ats_call list \<times> InterceptIOChannel) result" where
  "channel_read io vc ch =
     bindE (deref vc) (\<lambda>v.
       if vconn_closed io then Inr ([], ch)
       else if iobuf ch = None then Inr ([VConnRead v], ch\<lparr>iobuf := Some [], vio := vio_made io\<rparr>)
       else Inr ([], ch))"

text \<open>\<open>InterceptIOChannel::write\<close>; nothing calls it.\<close>

definition channel_write :: "ats_io \<Rightarrow> nat option \<Rightarrow> InterceptIOChannel
    \<Rightarrow> (ats_call list \<times> InterceptIOChannel) result" where
  "channel_write io vc ch =
     (if vio ch then Inl AssertFailed
      else let ch = ch\<lparr>iobuf := Some []\<rparr> in
           if vconn_closed io then Inr ([], ch)
           else bindE (deref vc) (\<lambda>v. Inr ([VConnWrite v], ch\<lparr>vio := vio_made io\<rparr>)))"

definition add_int :: "int \<Rightarrow> int \<Rightarrow> int result" where
  "add_int x y = (if - (2 ^ 31) \<le> x + y \<and> x + y < 2 ^ 31 then Inr (x + y) else Inl IntOverflow)"

definition phpWrite :: "ats_io \<Rightarrow> nat option \<Rightarrow> bytes \<Rightarrow> int \<Rightarrow> bool \<Rightarrow> InterceptIOChannel
    \<Rightarrow> (ats_call list \<times> InterceptIOChannel) result" where
  "phpWrite io vc buf data_size endflag ch =
     bindE (deref vc) (\<lambda>v.
       if vconn_closed io then Inr ([], ch)
       else
         let (calls, ch) =
               (if iobuf ch = None then ([VConnWrite v], ch\<lparr>iobuf := Some [], vio := vio_made io\<rparr>)
                else ([], ch))
         in if calls \<noteq> [] \<and> \<not> vio ch then Inr (calls, ch)
            else
              let data = take (nat data_size) buf;
                  n = accepted io (length data);
                  ch = ch\<lparr>iobuf := Some (the (iobuf ch) @ take n data)\<rparr>
              in if int n \<noteq> data_size then Inr (calls, ch)
                 else bindE (add_int (total_bytes_written ch) data_size) (\<lambda>total.
                   let ch = ch\<lparr>total_bytes_written := total\<rparr> in
                   if \<not> endflag
                   then (if vio ch then Inr (calls @ [VIOReenable v], ch) else Inl NullDeref)
                   else Inr (calls, ch\<lparr>readEnable := True\<rparr>)))"


section \<open>The client request object\<close>

record FCGIClientRequest =
  fr_state :: FCGIClientState
  postData :: string
  fr_response :: fcgi_response

definition new_request :: "uchar \<Rightarrow> FcgiPluginConfig \<Rightarrow> ats_request \<Rightarrow> uint \<Rightarrow> FCGIClientRequest result" where
  "new_request junk cfg rq rid =
     bindE (new_client_state junk cfg rq rid) (\<lambda>st.
       Inr \<lparr>fr_state = st, postData = [], fr_response = new_response\<rparr>)"


section \<open>Connections\<close>

datatype State = INITIATED | READY | INUSE | COMPLETE | CLOSED

record ServerConnection =
  vc_ptr :: "nat option"
  readio :: InterceptIOChannel
  writeio :: InterceptIOChannel
  fcgiRequest :: "FCGIClientRequest option"
  conn_state :: State
  contp :: bool
  requestId :: uint
  max_requests :: uint
  req_count :: uint

definition new_connection :: "FcgiPluginConfig \<Rightarrow> ServerConnection" where
  "new_connection cfg =
     \<lparr>vc_ptr = None, readio = new_channel, writeio = new_channel, fcgiRequest = None,
      conn_state = INITIATED, contp = False, requestId = 0,
      max_requests = word_of_int (getMaxReqLength cfg), req_count = 0\<rparr>"

text \<open>The destructor: its calls. A null continuation cannot be destroyed.\<close>

definition delete_connection :: "ServerConnection \<Rightarrow> ats_call list result" where
  "delete_connection c =
     (if contp c
      then Inr ((case vc_ptr c of None \<Rightarrow> [] | Some v \<Rightarrow> [VConnClose v]) @ [ContDestroy])
      else Inl NullDeref)"

text \<open>\<open>createFCGIClient\<close> for the intercept at address \<open>i\<close>, of transaction \<open>txn\<close>.\<close>

definition createFCGIClient :: "uchar \<Rightarrow> FcgiPluginConfig \<Rightarrow> (nat \<Rightarrow> ats_request) \<Rightarrow> nat \<Rightarrow> nat
    \<Rightarrow> ServerConnection \<Rightarrow> (ats_call list \<times> ServerConnection) result" where
  "createFCGIClient junk cfg rqs i txn c =
     (if conn_state c = READY \<or> conn_state c = COMPLETE
      then bindE (new_request junk cfg (rqs txn) (requestId c)) (\<lambda>fr.
             Inr ([AddPlugin txn i, Resume txn],
                  c\<lparr>fcgiRequest := Some fr, conn_state := INUSE, req_count := req_count c + 1\<rparr>))
      else Inr ([], c))"

definition releaseFCGIClient :: "ServerConnection \<Rightarrow> ServerConnection" where
  "releaseFCGIClient c =
     (if conn_state c = COMPLETE then c\<lparr>fcgiRequest := None, conn_state := READY\<rparr> else c)"


subsection \<open>createConnection\<close>

text \<open>The conversion \<open>%hu\<close> of \<open>sscanf\<close>, and \<open>%hu.%hu.%hu.%hu\<close>.\<close>

definition scan_hu :: "string \<Rightarrow> (16 word \<times> string) option" where
  "scan_hu s =
     (let s1 = dropWhile isspace s;
          neg = (s1 \<noteq> [] \<and> hd s1 = CHR ''-'');
          s2 = (if s1 \<noteq> [] \<and> (hd s1 = CHR ''-'' \<or> hd s1 = CHR ''+'') then tl s1 else s1);
          v = min (2 ^ 64 - 1) (int (dec_value (takeWhile is_digit s2)))
      in if s2 = [] \<or> \<not> is_digit (hd s2) then None
         else Some (word_of_int (if neg then - v else v), dropWhile is_digit s2))"

fun scan_dotted :: "nat \<Rightarrow> string \<Rightarrow> 16 word list" where
  "scan_dotted 0 s = []"
| "scan_dotted (Suc n) s =
     (case scan_hu s of
        None \<Rightarrow> []
      | Some (v, rest) \<Rightarrow>
          v # (case rest of d # rest' \<Rightarrow> if d = CHR ''.'' then scan_dotted n rest' else [] | [] \<Rightarrow> []))"

definition net_bytes32 :: "uint \<Rightarrow> bytes" where
  "net_bytes32 x = [ucast (drop_bit 24 x), ucast (drop_bit 16 x), ucast (drop_bit 8 x), ucast x]"

definition net_bytes16 :: "16 word \<Rightarrow> bytes" where
  "net_bytes16 x = [ucast (drop_bit 8 x), ucast x]"

text \<open>Variables \<open>sscanf\<close> does not reach keep the bits they had: \<open>junk\<close>.\<close>

definition server_address :: "16 word \<Rightarrow> FcgiPluginConfig \<Rightarrow> (bytes \<times> bytes) result" where
  "server_address junk cfg =
     bindE (deref (getServerIp cfg)) (\<lambda>arr.
     bindE (deref (getServerPort cfg)) (\<lambda>port.
       let xs = scan_dotted 4 arr @ replicate 4 junk;
           a = xs ! 0; b = xs ! 1; c = xs ! 2; d = xs ! 3;
           p = (case scan_hu port of None \<Rightarrow> junk | Some (v, rest) \<Rightarrow> v)
       in if 256 \<le> unat a then Inl IntOverflow
          else Inr (net_bytes32 (push_bit 24 (ucast a) OR push_bit 16 (ucast b) OR push_bit 8 (ucast c)
                      OR ucast d), net_bytes16 p)))"

text \<open>For the connection at address \<open>self\<close>.\<close>

definition createConnection :: "16 word \<Rightarrow> FcgiPluginConfig \<Rightarrow> nat \<Rightarrow> ServerConnection
    \<Rightarrow> (ats_call list \<times> ServerConnection) result" where
  "createConnection junk cfg self c =
     bindE (server_address junk cfg) (\<lambda>(addr, port).
       Inr ([NetConnect self addr port], c\<lparr>contp := True\<rparr>))"


section \<open>The address of the backend\<close>

lemma dec_digits_no_space: "dropWhile isspace (dec_digits n @ rest) = dec_digits n @ rest"
  using dec_digits_is_digit [of "hd (dec_digits n)" n]
  by (cases "dec_digits n") (auto simp: is_digit_not_isspace)

lemma dec_digits_hd: "is_digit (hd (dec_digits n @ rest))"
  using dec_digits_is_digit [of "hd (dec_digits n)" n] by (cases "dec_digits n") auto

lemma scan_hu_dec_digits:
  assumes "n < 65536" "rest = [] \<or> \<not> is_digit (hd rest)"
  shows "scan_hu (dec_digits n @ rest) = Some (word_of_nat n, rest)"
proof -
  have hd: "is_digit (hd (dec_digits n @ rest))" by (rule dec_digits_hd)
  then have sign: "hd (dec_digits n @ rest) \<noteq> CHR ''-''" "hd (dec_digits n @ rest) \<noteq> CHR ''+''"
    by (auto simp: is_digit_def)
  have tw: "takeWhile is_digit (dec_digits n @ rest) = dec_digits n"
    using assms(2) dec_digits_is_digit [of _ n]
    by (cases rest) (auto simp: takeWhile_append)
  have dw: "dropWhile is_digit (dec_digits n @ rest) = rest"
    using assms(2) dec_digits_is_digit [of _ n]
    by (cases rest) (auto simp: dropWhile_append)
  have "min (2 ^ 64 - 1) (int n) = int n" using assms(1) by simp
  with hd sign tw dw show ?thesis
    unfolding scan_hu_def by (simp add: Let_def dec_digits_no_space dec_value_dec_digits)
qed

lemma dot_not_digit: "\<not> is_digit CHR ''.''"
  by (simp add: is_digit_def)

lemma scan_dotted_dec_digits:
  assumes "a < 65536" "b < 65536" "c < 65536" "d < 65536"
  shows "scan_dotted 4 (dec_digits a @ ''.'' @ dec_digits b @ ''.'' @ dec_digits c @ ''.'' @ dec_digits d)
    = [word_of_nat a, word_of_nat b, word_of_nat c, word_of_nat d]"
proof -
  have four: "4 = Suc (Suc (Suc (Suc 0)))" by simp
  have s: "scan_hu (dec_digits n @ ''.'' @ rest) = Some (word_of_nat n, ''.'' @ rest)"
    if "n < 65536" for n rest
    using that by (intro scan_hu_dec_digits) (simp_all add: dot_not_digit)
  have e: "scan_hu (dec_digits d) = Some (word_of_nat d, [])"
    using scan_hu_dec_digits [of d "[]"] assms(4) by simp
  show ?thesis
    unfolding four scan_dotted.simps s [OF assms(1)] s [OF assms(2)] s [OF assms(3)] e
    by (simp add: s [OF assms(2), simplified] s [OF assms(3), simplified] e)
qed

lemma unat_word16: "n < 65536 \<Longrightarrow> unat (word_of_nat n :: 16 word) = n"
  by (simp add: unat_of_nat)

lemma not_bit_byte: "n < 256 \<Longrightarrow> \<not> bit (word_of_nat n :: 16 word) (8 + k)"
proof -
  assume n: "n < 256"
  have "(256::nat) \<le> 2 ^ (8 + k)" by (simp add: power_add)
  with n have "n div 2 ^ (8 + k) = 0" by simp
  then have "\<not> bit (unat (word_of_nat n :: 16 word)) (8 + k)"
    using n by (simp add: bit_iff_odd unat_word16)
  then show ?thesis by (auto simp: bit_unsigned_iff dest: bit_imp_le_length)
qed

lemma net_bytes32_dotted:
  assumes "b < 256" "c < 256" "d < 256"
  shows "net_bytes32 (push_bit 24 (ucast (word_of_nat a :: 16 word)) OR
      push_bit 16 (ucast (word_of_nat b :: 16 word)) OR
      push_bit 8 (ucast (word_of_nat c :: 16 word)) OR ucast (word_of_nat d :: 16 word)) =
    [ucast (word_of_nat a :: 16 word), ucast (word_of_nat b :: 16 word),
     ucast (word_of_nat c :: 16 word), ucast (word_of_nat d :: 16 word)]"
  using not_bit_byte [OF assms(1)] not_bit_byte [OF assms(2)] not_bit_byte [OF assms(3)]
  unfolding net_bytes32_def
  by (simp; intro conjI; intro bit_word_eqI) (auto simp: bit_simps)


lemma ucast_byte: "(ucast (word_of_nat n :: 16 word) :: uchar) = word_of_nat n"
  by (rule bit_word_eqI) (simp add: bit_simps)

lemma net_bytes16_number:
  "n < 65536 \<Longrightarrow> net_bytes16 (word_of_nat n) = [word_of_nat (n div 256), word_of_nat n]"
proof -
  assume n: "n < 65536"
  have "unat (drop_bit 8 (word_of_nat n :: 16 word)) = n div 256"
    using n by (simp add: drop_bit_eq_div unat_div unat_word16)
  then have "drop_bit 8 (word_of_nat n :: 16 word) = word_of_nat (n div 256)"
    using n unat_word16 [of "n div 256"] by (metis of_nat_unat ucast_id)
  then show ?thesis by (simp add: net_bytes16_def ucast_byte)
qed

lemma server_address_dotted:
  assumes "getServerIp cfg =
      Some (dec_digits a @ ''.'' @ dec_digits b @ ''.'' @ dec_digits c @ ''.'' @ dec_digits d)"
    and "getServerPort cfg = Some (dec_digits p)"
    and "a < 256" "b < 256" "c < 256" "d < 256" "p < 65536"
  shows "server_address junk cfg =
    Inr ([word_of_nat a, word_of_nat b, word_of_nat c, word_of_nat d],
         [word_of_nat (p div 256), word_of_nat p])"
proof -
  have "unat (word_of_nat a :: 16 word) = a" using assms by (intro unat_word16) simp
  moreover have "scan_hu (dec_digits p) = Some (word_of_nat p, [])"
    using scan_hu_dec_digits [of p "[]"] assms(7) by simp
  ultimately show ?thesis
    using scan_dotted_dec_digits [of a b c d] net_bytes32_dotted [OF assms(4-6), of a]
      net_bytes16_number [OF assms(7)] assms
    by (simp add: server_address_def Let_def ucast_byte)
qed

text \<open>For a configured address in dotted decimal notation and a port number, the connection is
  made to the four octets and the two bytes of the port in network order, for every value of the
  variables \<open>sscanf\<close> writes.\<close>

theorem connection_address:
  assumes "getServerIp cfg =
      Some (dec_digits a @ ''.'' @ dec_digits b @ ''.'' @ dec_digits c @ ''.'' @ dec_digits d)"
    and "getServerPort cfg = Some (dec_digits p)"
    and "a < 256" "b < 256" "c < 256" "d < 256" "p < 65536"
  shows "createConnection junk cfg self conn =
    Inr ([NetConnect self [word_of_nat a, word_of_nat b, word_of_nat c, word_of_nat d]
            [word_of_nat (p div 256), word_of_nat p]], conn\<lparr>contp := True\<rparr>)"
  unfolding createConnection_def server_address_dotted [OF assms] by simp

definition local_config :: FcgiPluginConfig where
  "local_config = setServerPort (Some (dec_digits 9000))
     (setServerIp (Some (dec_digits 127 @ ''.'' @ dec_digits 0 @ ''.'' @ dec_digits 0 @ ''.'' @
        dec_digits 1)) new_config)"

theorem connection_address_witness:
  "createConnection 0 local_config 1 (new_connection local_config) =
    Inr ([NetConnect 1 [127, 0, 0, 1] [35, 40]], (new_connection local_config)\<lparr>contp := True\<rparr>)"
  using connection_address [of local_config 127 0 0 1 9000 0 1]
  by (simp add: local_config_def getServerIp_def getServerPort_def setServerIp_def setServerPort_def)

text \<open>A write to a backend that is there: the bytes are appended, the backend is woken unless it is
  the last write.\<close>

lemma phpWrite_run:
  assumes "\<not> vconn_closed io" "vio_made io" "iobuf ch = None \<or> vio ch"
    and "accepted io (length data) = length data"
    and "0 \<le> total_bytes_written ch" "total_bytes_written ch + int (length data) < 2 ^ 31"
  shows "phpWrite io (Some v) (data @ rest) (int (length data)) endflag ch =
    Inr ((if iobuf ch = None then [VConnWrite v] else []) @ (if endflag then [] else [VIOReenable v]),
     \<lparr>vio = True, iobuf = Some ((case iobuf ch of None \<Rightarrow> [] | Some old \<Rightarrow> old) @ data),
      total_bytes_written = total_bytes_written ch + int (length data),
      readEnable = (readEnable ch \<or> endflag)\<rparr>)"
  using assms by (cases ch; cases endflag) (auto simp: phpWrite_def add_int_def Let_def)

definition good_io :: ats_io where
  "good_io = \<lparr>vconn_closed = False, vio_made = True, accepted = (\<lambda>n. n)\<rparr>"

text \<open>When Traffic Server could not make the write operation, the first write gives up in
  silence, and the next one goes through the null pointer the first one left.\<close>

theorem phpWrite_after_failed_vio:
  assumes "\<not> vconn_closed io" "\<not> vio_made io" "iobuf ch = None"
    and "phpWrite io (Some v) buf n endflag ch = Inr (calls, ch')"
    and "accepted io (length data) = length data"
    and "total_bytes_written ch = 0" "length data < 2 ^ 31"
  shows "phpWrite io (Some v) data (int (length data)) False ch' = Inl NullDeref"
proof -
  have "ch' = ch\<lparr>iobuf := Some [], vio := False\<rparr>"
    using assms(1-4) by (auto simp: phpWrite_def Let_def)
  then show ?thesis using assms by (simp add: phpWrite_def Let_def add_int_def)
qed

theorem phpWrite_after_failed_vio_witness:
  "\<exists>calls ch'. phpWrite (good_io\<lparr>vio_made := False\<rparr>) (Some 3) [1] 1 False new_channel = Inr (calls, ch') \<and>
     phpWrite (good_io\<lparr>vio_made := False\<rparr>) (Some 3) [2] 1 False ch' = Inl NullDeref"
proof -
  obtain calls ch' where
    run: "phpWrite (good_io\<lparr>vio_made := False\<rparr>) (Some 3) [1] 1 False new_channel = Inr (calls, ch')"
    by (simp add: phpWrite_def good_io_def new_channel_def Let_def)
  with phpWrite_after_failed_vio [OF _ _ _ run, of "[2]"] show ?thesis
    by (simp add: good_io_def new_channel_def)
qed

end
