(* ===== verification/Connection_Pool.thy ===== *)
theory Connection_Pool
  imports Server_Connection "HOL-Library.Signed_Division"
begin

text \<open>
  \<open>ConnectionPool\<close> (\<open>connection_pool.cc\<close>): the connections of a thread and, among them, those
  that wait for a request. Connections live in a heap; a pointer to a deleted one finds nothing.
  The interface \<open>bounded_pool\<close> is what the server needs: what it gets is idle or new, and there
  are never more connections than \<open>maxConn\<close>.
\<close>

section \<open>Heap\<close>

type_synonym 'a heap = "nat \<Rightarrow> 'a option"

definition heap_get :: "nat \<Rightarrow> 'a heap \<Rightarrow> 'a result" where
  "heap_get a h = (case h a of None \<Rightarrow> Inl UseAfterFree | Some x \<Rightarrow> Inr x)"

lemma heap_get_Some [simp]: "h a = Some x \<Longrightarrow> heap_get a h = Inr x"
  by (simp add: heap_get_def)

lemma heap_get_None [simp]: "h a = None \<Longrightarrow> heap_get a h = Inl UseAfterFree"
  by (simp add: heap_get_def)

lemma heap_get_Inr [crash_simps]: "heap_get a h = Inr x \<longleftrightarrow> h a = Some x"
  by (simp add: heap_get_def split: option.split)


section \<open>The pool\<close>

record ConnectionPool =
  maxConn :: uint
  available_connections :: "nat list"
  connections :: "nat list"

text \<open>The constructor: \<open>int64_t\<close> division by 6, stored in a \<open>uint\<close>.\<close>

definition new_pool :: "FcgiPluginConfig \<Rightarrow> ConnectionPool" where
  "new_pool cfg =
     \<lparr>maxConn = word_of_int (getMaxConnLength cfg sdiv 6), available_connections = [], connections = []\<rparr>"

definition checkAvailability :: "ConnectionPool \<Rightarrow> int" where
  "checkAvailability pool = int (length (available_connections pool))"

definition addConnection :: "nat \<Rightarrow> ConnectionPool \<Rightarrow> ConnectionPool" where
  "addConnection a pool = pool\<lparr>connections := connections pool @ [a]\<rparr>"

text \<open>\<open>fresh\<close> is the address \<open>new\<close> gives.\<close>

definition getAvailableConnection :: "FcgiPluginConfig \<Rightarrow> nat \<Rightarrow> ConnectionPool \<times> ServerConnection heap
    \<Rightarrow> (nat option \<times> ConnectionPool \<times> ServerConnection heap) result" where
  "getAvailableConnection cfg fresh = (\<lambda>(pool, heap).
     bindE (if available_connections pool \<noteq> [] \<and> unat (maxConn pool) \<le> length (connections pool)
            then let a = hd (available_connections pool) in
                 bindE (heap_get a heap) (\<lambda>c.
                   Inr (Some a, pool\<lparr>available_connections := tl (available_connections pool)\<rparr>,
                        heap(a \<mapsto> c\<lparr>conn_state := READY\<rparr>)))
            else Inr (None, pool, heap)) (\<lambda>(conn, pool, heap).
       if length (connections pool) < unat (maxConn pool)
       then Inr (Some fresh, addConnection fresh pool, heap(fresh \<mapsto> new_connection cfg))
       else Inr (conn, pool, heap)))"

definition reuseConnection :: "nat \<Rightarrow> ConnectionPool \<times> ServerConnection heap
    \<Rightarrow> (ConnectionPool \<times> ServerConnection heap) result" where
  "reuseConnection a = (\<lambda>(pool, heap).
     bindE (heap_get a heap) (\<lambda>c.
       Inr (pool\<lparr>available_connections := available_connections pool @ [a]\<rparr>,
            heap(a \<mapsto> c\<lparr>readio := (readio c)\<lparr>readEnable := False\<rparr>,
                        writeio := (writeio c)\<lparr>readEnable := False\<rparr>, conn_state := READY\<rparr>))))"

text \<open>\<open>ConnectionPool::connectionClosed\<close>; \<open>std::list::remove\<close> removes every occurrence.\<close>

definition pool_connectionClosed :: "nat \<Rightarrow> ConnectionPool \<times> ServerConnection heap
    \<Rightarrow> (ats_call list \<times> ConnectionPool \<times> ServerConnection heap) result" where
  "pool_connectionClosed a = (\<lambda>(pool, heap).
     bindE (heap_get a heap) (\<lambda>c.
     bindE (delete_connection c) (\<lambda>calls.
       Inr (calls, pool\<lparr>available_connections := removeAll a (available_connections pool),
                        connections := removeAll a (connections pool)\<rparr>, heap(a := None)))))"


section \<open>A bounded pool\<close>

locale bounded_pool =
  fixes acquire :: "'a \<Rightarrow> 's \<Rightarrow> ('a option \<times> 's) result"
    and release :: "'a \<Rightarrow> 's \<Rightarrow> 's result"
    and retire :: "'a \<Rightarrow> 's \<Rightarrow> ('b \<times> 's) result"
    and inv :: "'s \<Rightarrow> bool" and members :: "'s \<Rightarrow> 'a set" and idle :: "'s \<Rightarrow> 'a set" and cap :: "'s \<Rightarrow> nat"
  assumes idle_members: "inv s \<Longrightarrow> idle s \<subseteq> members s"
    and members_bound: "inv s \<Longrightarrow> finite (members s) \<and> card (members s) \<le> cap s"
    and acquire_law: "inv s \<Longrightarrow> new \<notin> members s \<Longrightarrow>
      \<exists>r s'. acquire new s = Inr (r, s') \<and> inv s' \<and> cap s' = cap s \<and>
        (case r of
           None \<Rightarrow> card (members s) = cap s \<and> idle s = {} \<and> members s' = members s \<and> idle s' = {}
         | Some a \<Rightarrow>
             (if card (members s) < cap s
              then a = new \<and> members s' = insert a (members s) \<and> idle s' = idle s
              else a \<in> idle s \<and> members s' = members s \<and> idle s' = idle s - {a}))"
    and release_law: "inv s \<Longrightarrow> a \<in> members s \<Longrightarrow> a \<notin> idle s \<Longrightarrow>
      \<exists>s'. release a s = Inr s' \<and> inv s' \<and> cap s' = cap s \<and> members s' = members s \<and>
           idle s' = insert a (idle s)"
    and retire_law: "inv s \<Longrightarrow> retire a s = Inr (x, s') \<Longrightarrow>
      inv s' \<and> cap s' = cap s \<and> members s' = members s - {a} \<and> idle s' = idle s - {a}"
begin

text \<open>What a client holds is what is not idle: it never gets what another client holds.\<close>

lemma acquire_not_busy:
  assumes "inv s" "new \<notin> members s" "acquire new s = Inr (Some a, s')"
  shows "a \<notin> members s - idle s" "a \<in> members s' - idle s'"
    "members s' - idle s' = insert a (members s - idle s)"
  using acquire_law [OF assms(1,2)] assms(3) idle_members [OF assms(1)] assms(2)
  by (auto split: if_splits)

lemma acquire_none_iff:
  assumes "inv s" "new \<notin> members s"
  shows "(\<exists>s'. acquire new s = Inr (None, s')) \<longleftrightarrow> card (members s) = cap s \<and> idle s = {}"
  using acquire_law [OF assms] members_bound [OF assms(1)]
  by (auto split: option.splits if_splits)

lemma release_then_acquire:
  assumes "inv s" "a \<in> members s" "a \<notin> idle s" "card (members s) = cap s" "idle s = {}" "new \<notin> members s"
  shows "\<exists>s1 s2. release a s = Inr s1 \<and> acquire new s1 = Inr (Some a, s2)"
proof -
  from release_law [OF assms(1-3)] obtain s1 where s1: "release a s = Inr s1" "inv s1" "cap s1 = cap s"
    "members s1 = members s" "idle s1 = {a}" using assms(5) by auto
  from acquire_law [OF s1(2), of new] s1 assms(4,6) show ?thesis
    by (auto split: option.splits if_splits)
qed

end

definition pool_wf :: "ConnectionPool \<times> ServerConnection heap \<Rightarrow> bool" where
  "pool_wf = (\<lambda>(pool, heap).
     distinct (available_connections pool) \<and> distinct (connections pool) \<and>
     set (available_connections pool) \<subseteq> set (connections pool) \<and>
     length (connections pool) \<le> unat (maxConn pool) \<and>
     (\<forall>a\<in>set (connections pool). heap a \<noteq> None))"

lemma pool_wf_new: "pool_wf (new_pool cfg, heap)"
  by (simp add: pool_wf_def new_pool_def)

lemma getAvailableConnection_law:
  assumes "pool_wf (pool, heap)" "fresh \<notin> set (connections pool)"
  shows "\<exists>r pool' heap'. getAvailableConnection cfg fresh (pool, heap) = Inr (r, pool', heap') \<and>
     pool_wf (pool', heap') \<and> maxConn pool' = maxConn pool \<and>
     (case r of
        None \<Rightarrow> length (connections pool) = unat (maxConn pool) \<and> available_connections pool = [] \<and>
          pool' = pool \<and> heap' = heap
      | Some a \<Rightarrow>
          (if length (connections pool) < unat (maxConn pool)
           then a = fresh \<and> pool' = addConnection fresh pool \<and> heap' = heap(fresh \<mapsto> new_connection cfg)
           else available_connections pool = a # available_connections pool' \<and>
             connections pool' = connections pool \<and>
             (\<exists>c. heap a = Some c \<and> heap' = heap(a \<mapsto> c\<lparr>conn_state := READY\<rparr>))))"
proof (cases "length (connections pool) < unat (maxConn pool)")
  case True
  then show ?thesis
    using assms by (auto simp: getAvailableConnection_def pool_wf_def addConnection_def)
next
  case full: False
  show ?thesis
  proof (cases "available_connections pool")
    case Nil
    then show ?thesis using full assms by (auto simp: getAvailableConnection_def pool_wf_def)
  next
    case (Cons a as)
    then obtain c where "heap a = Some c" using assms(1) by (auto simp: pool_wf_def)
    then show ?thesis
      using Cons full assms by (auto simp: getAvailableConnection_def pool_wf_def Let_def)
  qed
qed

lemma reuseConnection_law:
  assumes "pool_wf (pool, heap)" "a \<in> set (connections pool)" "a \<notin> set (available_connections pool)"
  shows "\<exists>c. heap a = Some c \<and>
     reuseConnection a (pool, heap) =
       Inr (pool\<lparr>available_connections := available_connections pool @ [a]\<rparr>,
         heap(a \<mapsto> c\<lparr>readio := (readio c)\<lparr>readEnable := False\<rparr>,
                    writeio := (writeio c)\<lparr>readEnable := False\<rparr>, conn_state := READY\<rparr>)) \<and>
     pool_wf (pool\<lparr>available_connections := available_connections pool @ [a]\<rparr>,
         heap(a \<mapsto> c\<lparr>readio := (readio c)\<lparr>readEnable := False\<rparr>,
                    writeio := (writeio c)\<lparr>readEnable := False\<rparr>, conn_state := READY\<rparr>))"
  using assms by (auto simp: reuseConnection_def pool_wf_def)

lemma length_removeAll_le: "length (removeAll a xs) \<le> length xs"
  by (simp add: removeAll_filter_not_eq)

lemma pool_connectionClosed_law:
  assumes "pool_wf (pool, heap)"
    and "pool_connectionClosed a (pool, heap) = Inr (calls, pool', heap')"
  shows "pool_wf (pool', heap') \<and> maxConn pool' = maxConn pool \<and>
     available_connections pool' = removeAll a (available_connections pool) \<and>
     connections pool' = removeAll a (connections pool) \<and> heap' = heap(a := None)"
  using assms le_trans [OF length_removeAll_le [of a "connections pool"]]
  by (auto simp: pool_connectionClosed_def pool_wf_def bindE_eq_Inr distinct_removeAll)

interpretation connection_pool: bounded_pool "getAvailableConnection cfg" reuseConnection
    pool_connectionClosed pool_wf "\<lambda>(pool, heap). set (connections pool)"
    "\<lambda>(pool, heap). set (available_connections pool)" "\<lambda>(pool, heap). unat (maxConn pool)" for cfg
proof (unfold_locales, goal_cases)
  case (1 s)
  then show ?case by (auto simp: pool_wf_def)
next
  case (2 s)
  then show ?case by (auto simp: pool_wf_def distinct_card)
next
  case (3 s fresh)
  obtain pool heap where s: "s = (pool, heap)" by fastforce
  from 3 have c: "card (set (connections pool)) = length (connections pool)"
    by (simp add: s pool_wf_def distinct_card)
  from 3 have d: "distinct (available_connections pool)" by (simp add: s pool_wf_def)
  from 3 getAvailableConnection_law [of pool heap fresh cfg] obtain r pool' heap' where
    "getAvailableConnection cfg fresh (pool, heap) = Inr (r, pool', heap')"
    "pool_wf (pool', heap')" "maxConn pool' = maxConn pool"
    "(case r of
        None \<Rightarrow> length (connections pool) = unat (maxConn pool) \<and> available_connections pool = [] \<and>
          pool' = pool \<and> heap' = heap
      | Some a \<Rightarrow>
          (if length (connections pool) < unat (maxConn pool)
           then a = fresh \<and> pool' = addConnection fresh pool \<and> heap' = heap(fresh \<mapsto> new_connection cfg)
           else available_connections pool = a # available_connections pool' \<and>
             connections pool' = connections pool \<and>
             (\<exists>c. heap a = Some c \<and> heap' = heap(a \<mapsto> c\<lparr>conn_state := READY\<rparr>))))"
    by (auto simp: s)
  with c d show ?case
    by (intro exI [of _ r] exI [of _ "(pool', heap')"])
      (auto simp: s addConnection_def split: option.splits if_splits)
next
  case (4 s a)
  then show ?case using reuseConnection_law [of "fst s" "snd s" a] by (cases s) auto
next
  case (5 s a x s')
  then show ?case using pool_connectionClosed_law [of "fst s" "snd s" a x "fst s'" "snd s'"]
    by (cases s; cases s') auto
qed


section \<open>Properties\<close>

text \<open>The connections that serve a request.\<close>

definition busy :: "ConnectionPool \<Rightarrow> nat set" where
  "busy pool = set (connections pool) - set (available_connections pool)"

text \<open>A connection that is given back while all the others are busy is the one the next request
  gets.\<close>

theorem pool_reuses_released:
  assumes "pool_wf (pool, heap)" "a \<in> busy pool" "available_connections pool = []"
    and "length (connections pool) = unat (maxConn pool)" "fresh \<notin> set (connections pool)"
  shows "\<exists>s s'. reuseConnection a (pool, heap) = Inr s \<and>
           getAvailableConnection cfg fresh s = Inr (Some a, s')"
  using connection_pool.release_then_acquire [of "(pool, heap)" a fresh cfg] assms
  by (auto simp: busy_def pool_wf_def distinct_card)

definition sample_pool :: ConnectionPool where
  "sample_pool = \<lparr>maxConn = 1, available_connections = [], connections = [0]\<rparr>"

definition sample_heap :: "ServerConnection heap" where
  "sample_heap = (\<lambda>a. if a = 0 then Some (new_connection new_config) else None)"

lemma sample_pool_wf: "pool_wf (sample_pool, sample_heap)"
  by (simp add: pool_wf_def sample_pool_def sample_heap_def)

theorem pool_reuses_released_witness:
  "\<exists>s s'. reuseConnection 0 (sample_pool, sample_heap) = Inr s \<and>
     getAvailableConnection new_config 1 s = Inr (Some 0, s')"
  by (rule pool_reuses_released [OF sample_pool_wf]) (simp_all add: sample_pool_def busy_def)

end
