(* ===== verification/Request_Queue.thy ===== *)
theory Request_Queue
  imports Fcgi_Config
begin

text \<open>
  \<open>RequestQueue\<close> (\<open>request_queue.cc\<close>): the requests of a thread that wait for a connection.
  The interface \<open>bounded_fifo\<close> is what its client, the server, needs of it: first come
  first served, never more than the bound, and a request that finds the queue full is dropped.
\<close>

record 'a RequestQueue =
  max_queue_size :: uint
  pending_list :: "'a list"

text \<open>The constructor; the configured size is an \<open>int64_t\<close>, the member a \<open>uint\<close>.\<close>

definition new_queue :: "FcgiPluginConfig \<Rightarrow> 'a RequestQueue" where
  "new_queue cfg =
     \<lparr>max_queue_size = word_of_int (getRequestQueueSize cfg), pending_list = []\<rparr>"

definition isQueueFull :: "'a RequestQueue \<Rightarrow> uint" where
  "isQueueFull q = (if unat (max_queue_size q) \<le> length (pending_list q) then 1 else 0)"

definition getSize :: "'a RequestQueue \<Rightarrow> uint" where
  "getSize q = word_of_nat (length (pending_list q))"

definition isQueueEmpty :: "'a RequestQueue \<Rightarrow> uint" where
  "isQueueEmpty q = (if pending_list q = [] then 1 else 0)"

definition addToQueue :: "'a \<Rightarrow> 'a RequestQueue \<Rightarrow> uint \<times> 'a RequestQueue" where
  "addToQueue x q =
     (1, if isQueueFull q = 0 then q\<lparr>pending_list := pending_list q @ [x]\<rparr> else q)"

definition popFromQueue :: "'a RequestQueue \<Rightarrow> 'a option \<times> 'a RequestQueue" where
  "popFromQueue q =
     (case pending_list q of
        [] \<Rightarrow> (None, q)
      | x # xs \<Rightarrow> (Some x, q\<lparr>pending_list := xs\<rparr>))"

lemma isQueueFull_iff: "isQueueFull q \<noteq> 0 \<longleftrightarrow> unat (max_queue_size q) \<le> length (pending_list q)"
  by (simp add: isQueueFull_def)


section \<open>A bounded first-in first-out queue\<close>

locale bounded_fifo =
  fixes put :: "'a \<Rightarrow> 'q \<Rightarrow> 'q" and get :: "'q \<Rightarrow> 'a option \<times> 'q"
    and elems :: "'q \<Rightarrow> 'a list" and bound :: "'q \<Rightarrow> nat"
  assumes elems_put: "elems (put x q) = (if length (elems q) < bound q then elems q @ [x] else elems q)"
    and get_elems: "fst (get q) = (case elems q of [] \<Rightarrow> None | x # xs \<Rightarrow> Some x)"
    and elems_get: "elems (snd (get q)) = tl (elems q)"
    and bound_put: "bound (put x q) = bound q"
    and bound_get: "bound (snd (get q)) = bound q"
begin

fun get_all :: "nat \<Rightarrow> 'q \<Rightarrow> 'a list" where
  "get_all 0 q = []"
| "get_all (Suc n) q = (case get q of (None, q') \<Rightarrow> [] | (Some x, q') \<Rightarrow> x # get_all n q')"

lemma bound_put_all: "bound (fold put xs q) = bound q"
  by (induction xs arbitrary: q) (simp_all add: bound_put)

lemma elems_put_all:
  "length (elems q) \<le> bound q \<Longrightarrow>
   elems (fold put xs q) = elems q @ take (bound q - length (elems q)) xs"
proof (induction xs arbitrary: q)
  case (Cons x xs)
  show ?case
  proof (cases "length (elems q) < bound q")
    case True
    then have "bound q - length (elems q) = Suc (bound q - Suc (length (elems q)))" by simp
    with True Cons.IH [of "put x q"] show ?thesis by (simp add: elems_put bound_put)
  next
    case False
    with Cons show ?thesis by (simp add: elems_put bound_put)
  qed
qed simp

lemma get_all_elems: "length (elems q) \<le> n \<Longrightarrow> get_all n q = elems q"
proof (induction n arbitrary: q)
  case (Suc n)
  then show ?case
    using get_elems [of q] elems_get [of q]
    by (cases "get q"; cases "elems q") (auto simp: Suc.IH)
qed simp

text \<open>What comes out is what was there and, in order, what found room.\<close>

lemma get_all_put_all:
  assumes "length (elems q) \<le> bound q" "bound q \<le> n"
  shows "get_all n (fold put xs q) = elems q @ take (bound q - length (elems q)) xs"
proof -
  have "length (elems (fold put xs q)) \<le> n"
    using assms by (simp add: elems_put_all)
  with elems_put_all [OF assms(1)] show ?thesis by (simp add: get_all_elems)
qed

end

interpretation request_fifo: bounded_fifo "\<lambda>x q. snd (addToQueue x q)" popFromQueue pending_list
    "\<lambda>q. unat (max_queue_size q)"
  by unfold_locales
    (auto simp: addToQueue_def popFromQueue_def isQueueFull_def split: list.splits)

fun pop_all :: "nat \<Rightarrow> 'a RequestQueue \<Rightarrow> 'a list" where
  "pop_all 0 q = []"
| "pop_all (Suc n) q = (case popFromQueue q of (None, q') \<Rightarrow> [] | (Some x, q') \<Rightarrow> x # pop_all n q')"

lemma pop_all_get_all: "pop_all n q = request_fifo.get_all n q"
  by (induction n arbitrary: q) (auto split: prod.splits option.splits)

text \<open>Requests leave the queue in the order in which they came, and of those that come to an
  empty queue exactly the first \<open>request_queue_size\<close> ones leave it: the others were dropped,
  although \<open>addToQueue\<close> reports success for all of them.\<close>

theorem queue_serves_in_order:
  fixes xs :: "'a list"
  shows "pop_all (unat (max_queue_size (new_queue cfg :: 'a RequestQueue)))
           (fold (\<lambda>x q. snd (addToQueue x q)) xs (new_queue cfg)) =
         take (unat (word_of_int (getRequestQueueSize cfg) :: uint)) xs \<and>
         (\<forall>x. fst (addToQueue (x :: 'a) q) = 1)"
  using request_fifo.get_all_put_all
    [of "new_queue cfg :: 'a RequestQueue" "unat (max_queue_size (new_queue cfg :: 'a RequestQueue))" xs]
  by (simp add: addToQueue_def new_queue_def pop_all_get_all)

end
