(* ===== verification/Server.thy ===== *)
theory Server
  imports Connection_Pool Request_Queue
begin

text \<open>
  \<open>Server\<close> and \<open>ThreadData\<close> (\<open>server.cc\<close>, \<open>server.h\<close>): the table that joins requests and
  connections, and what happens when a request comes, ends or loses its connection. The state
  is that of one event thread, with the objects it can reach: connections and intercepts in
  heaps, the table \<open>_intercept_list\<close>, the counter of request ids, the thread's data, the
  statistics, and the calls made to Traffic Server.
\<close>

section \<open>State\<close>

record ServerIntercept =
  txn :: nat
  si_request_id :: uint
  dataBuffered :: bool
  clientAborted :: bool
  clientHeader :: string
  clientBody :: string
  inputCompleteState :: bool
  outputCompleteState :: bool

record ThreadData =
  pool :: ConnectionPool
  pendingReqQueue :: "nat RequestQueue"

definition new_thread_data :: "FcgiPluginConfig \<Rightarrow> ThreadData" where
  "new_thread_data cfg = \<lparr>pool = new_pool cfg, pendingReqQueue = new_queue cfg\<rparr>"

datatype stat = reqBegId | reqEndId | respBegId | respEndId | threadCount | phpConnCount

record world =
  conns :: "ServerConnection heap"
  icpts :: "ServerIntercept heap"
  next_addr :: nat
  intercept_list :: "uint \<Rightarrow> (nat \<times> nat) option"
  next_id :: uint
  threadKey :: nat
  tdata :: "ThreadData option"
  stats :: "stat \<Rightarrow> int"
  calls :: "ats_call list"

text \<open>What the plugin reads from its surroundings and does not change.\<close>

record server_env =
  env_cfg :: FcgiPluginConfig
  env_requests :: "nat \<Rightarrow> ats_request"
  env_mime :: "bytes \<Rightarrow> mime_result"
  env_http_1_1 :: bytes
  env_junk :: uchar
  env_junk16 :: "16 word"
  env_junk32 :: uint

definition ats :: "ats_call list \<Rightarrow> world \<Rightarrow> world" where
  "ats cs w = w\<lparr>calls := calls w @ cs\<rparr>"

definition TSStatIntIncrement :: "stat \<Rightarrow> int \<Rightarrow> world \<Rightarrow> world" where
  "TSStatIntIncrement s n w = w\<lparr>stats := (stats w)(s := stats w s + n)\<rparr>"

definition set_conn :: "nat \<Rightarrow> ServerConnection \<Rightarrow> world \<Rightarrow> world" where
  "set_conn c conn w = w\<lparr>conns := (conns w)(c \<mapsto> conn)\<rparr>"

definition set_icpt :: "nat \<Rightarrow> ServerIntercept \<Rightarrow> world \<Rightarrow> world" where
  "set_icpt i icpt w = w\<lparr>icpts := (icpts w)(i \<mapsto> icpt)\<rparr>"

definition setState :: "nat \<Rightarrow> State \<Rightarrow> world \<Rightarrow> world result" where
  "setState c s w = bindE (heap_get c (conns w)) (\<lambda>conn. Inr (set_conn c (conn\<lparr>conn_state := s\<rparr>) w))"


section \<open>Request ids\<close>

text \<open>\<open>UniqueRequesID::getNext\<close>.\<close>

definition getNext :: "world \<Rightarrow> uint \<times> world" where
  "getNext w = (next_id w, w\<lparr>next_id := next_id w + 1\<rparr>)"


section \<open>The table\<close>

definition getIntercept :: "uint \<Rightarrow> world \<Rightarrow> nat option" where
  "getIntercept rid w = map_option fst (intercept_list w rid)"

definition getServerConnection :: "uint \<Rightarrow> world \<Rightarrow> nat option" where
  "getServerConnection rid w = map_option snd (intercept_list w rid)"

definition erase_entry :: "uint \<Rightarrow> world \<Rightarrow> world" where
  "erase_entry rid w = w\<lparr>intercept_list := (intercept_list w)(rid := None)\<rparr>"


section \<open>Connecting\<close>

definition initiateBackendConnection :: "server_env \<Rightarrow> nat \<Rightarrow> nat \<Rightarrow> world \<Rightarrow> world result" where
  "initiateBackendConnection env i c w =
     (let (rid, w) = getNext w in
      bindE (heap_get i (icpts w)) (\<lambda>icpt.
      let w = set_icpt i (icpt\<lparr>si_request_id := rid\<rparr>) w in
      bindE (heap_get c (conns w)) (\<lambda>conn.
      let conn = conn\<lparr>requestId := rid\<rparr>;
          w = (set_conn c conn w)\<lparr>intercept_list := (intercept_list w)(rid \<mapsto> (i, c))\<rparr>
      in bindE (if conn_state conn \<noteq> READY
                then createConnection (env_junk16 env) (env_cfg env) c conn
                else createFCGIClient (env_junk env) (env_cfg env) (env_requests env) i (txn icpt) conn)
           (\<lambda>(cs, conn). Inr (ats cs (set_conn c conn w))))))"

definition connect :: "server_env \<Rightarrow> nat \<Rightarrow> world \<Rightarrow> (uint \<times> world) result" where
  "connect env i w =
     (case tdata w of
        None \<Rightarrow> Inr (1, w)
      | Some td \<Rightarrow>
          bindE (getAvailableConnection (env_cfg env) (next_addr w) (pool td, conns w))
            (\<lambda>(conn, p, heap).
              let w = w\<lparr>conns := heap, next_addr := Suc (next_addr w)\<rparr> in
              case conn of
                Some c \<Rightarrow>
                  bindE (initiateBackendConnection env i c (w\<lparr>tdata := Some (td\<lparr>pool := p\<rparr>)\<rparr>))
                    (\<lambda>w. Inr (0, w))
              | None \<Rightarrow>
                  Inr (0, w\<lparr>tdata := Some (td\<lparr>pool := p,
                            pendingReqQueue := snd (addToQueue i (pendingReqQueue td))\<rparr>)\<rparr>)))"

definition reConnect :: "server_env \<Rightarrow> uint \<Rightarrow> world \<Rightarrow> world result" where
  "reConnect env rid w =
     (case getIntercept rid w of
        None \<Rightarrow> Inr w
      | Some i \<Rightarrow> bindE (connect env i (erase_entry rid w)) (\<lambda>(r, w). Inr w))"


section \<open>Ending a request\<close>

text \<open>\<open>Server::connectionClosed\<close>.\<close>

definition connectionClosed :: "nat \<Rightarrow> world \<Rightarrow> world result" where
  "connectionClosed c w =
     bindE (heap_get c (conns w)) (\<lambda>conn.
     let w = erase_entry (requestId conn) w in
     bindE (deref (tdata w)) (\<lambda>td.
     bindE (pool_connectionClosed c (pool td, conns w)) (\<lambda>(cs, p, heap).
       Inr (TSStatIntIncrement phpConnCount (- 1)
              (ats cs (w\<lparr>conns := heap, tdata := Some (td\<lparr>pool := p\<rparr>)\<rparr>))))))"

text \<open>Give the connection back, or close it when it has served its number of requests.\<close>

definition recycle :: "nat \<Rightarrow> world \<Rightarrow> world result" where
  "recycle c w =
     bindE (heap_get c (conns w)) (\<lambda>conn.
     let conn = (releaseFCGIClient conn)\<lparr>requestId := 0\<rparr>;
         w = set_conn c conn w
     in if req_count conn < max_requests conn
        then bindE (deref (tdata w)) (\<lambda>td.
             bindE (reuseConnection c (pool td, conns w)) (\<lambda>(p, heap).
               Inr (w\<lparr>conns := heap, tdata := Some (td\<lparr>pool := p\<rparr>)\<rparr>)))
        else bindE (setState c CLOSED w) (connectionClosed c))"

text \<open>Take the next request from the queue.\<close>

definition serve_next :: "server_env \<Rightarrow> world \<Rightarrow> world result" where
  "serve_next env w =
     bindE (deref (tdata w)) (\<lambda>td.
       case popFromQueue (pendingReqQueue td) of
         (None, q) \<Rightarrow> Inr w
       | (Some i, q) \<Rightarrow>
           bindE (connect env i (w\<lparr>tdata := Some (td\<lparr>pendingReqQueue := q\<rparr>)\<rparr>)) (\<lambda>(r, w). Inr w))"

definition removeIntercept :: "server_env \<Rightarrow> uint \<Rightarrow> world \<Rightarrow> world result" where
  "removeIntercept env rid w =
     (case intercept_list w rid of
        None \<Rightarrow> Inr w
      | Some (i, c) \<Rightarrow> bindE (recycle c (erase_entry rid w)) (serve_next env))"


section \<open>Writing a request\<close>

text \<open>What the three write operations share: encode, then write the buffer to the channel.\<close>

definition write_request :: "ats_io \<Rightarrow> uint \<Rightarrow> (FCGIClientRequest \<Rightarrow> FCGIClientRequest result) \<Rightarrow> bool
    \<Rightarrow> world \<Rightarrow> (bool \<times> world) result" where
  "write_request io rid encode endflag w =
     (case getServerConnection rid w of
        None \<Rightarrow> Inr (False, w)
      | Some c \<Rightarrow>
          bindE (heap_get c (conns w)) (\<lambda>conn.
          bindE (deref (fcgiRequest conn)) (\<lambda>fr.
          bindE (encode fr) (\<lambda>fr.
          let (reqLen, clientReq) = addClientRequest (fr_state fr) in
          bindE (phpWrite io (vc_ptr conn) clientReq reqLen endflag (writeio conn)) (\<lambda>(cs, ch).
            Inr (True, ats cs (set_conn c (conn\<lparr>fcgiRequest := Some fr, writeio := ch\<rparr>) w)))))))"

definition writeRequestHeader :: "ats_io \<Rightarrow> uint \<Rightarrow> world \<Rightarrow> (bool \<times> world) result" where
  "writeRequestHeader io rid w =
     write_request io rid
       (\<lambda>fr. bindE (createBeginRequest (fr_state fr)) (\<lambda>st. Inr (fr\<lparr>fr_state := st\<rparr>))) False w"

definition writeRequestBody :: "ats_io \<Rightarrow> uint \<Rightarrow> string \<Rightarrow> world \<Rightarrow> (bool \<times> world) result" where
  "writeRequestBody io rid data w =
     write_request io rid
       (\<lambda>fr. bindE (postBodyChunk data (fr_state fr)) (\<lambda>st.
          Inr (fr\<lparr>postData := data, fr_state := st\<rparr>))) False w"

definition writeRequestBodyComplete :: "ats_io \<Rightarrow> uint \<Rightarrow> world \<Rightarrow> (bool \<times> world) result" where
  "writeRequestBodyComplete io rid w =
     write_request io rid
       (\<lambda>fr. bindE (emptyParam (fr_state fr)) (\<lambda>st. Inr (fr\<lparr>fr_state := st\<rparr>))) True w"


section \<open>Thread data\<close>

text \<open>
  How the calls of one \<open>setupThreadLocalStorage\<close> end: no key, a key whose value cannot be set,
  or a key. The value of a key that was just created is null.
\<close>

datatype key_result = KeyFailed | SetFailed | KeyCreated nat

definition setupThreadLocalStorage :: "FcgiPluginConfig \<Rightarrow> key_result \<Rightarrow> world \<Rightarrow> bool \<times> world" where
  "setupThreadLocalStorage cfg r w =
     (case r of
        KeyFailed \<Rightarrow> (False, w)
      | SetFailed \<Rightarrow> (False, w\<lparr>threadKey := 0\<rparr>)
      | KeyCreated k \<Rightarrow>
          (True, TSStatIntIncrement threadCount 1
                   (w\<lparr>threadKey := k, tdata := Some (new_thread_data cfg)\<rparr>)))"

end
