(* ===== verification/Server_Intercept.thy ===== *)
theory Server_Intercept
  imports Server
begin

text \<open>
  \<open>ServerIntercept\<close> (\<open>server_intercept.cc\<close>, \<open>server_intercept.h\<close>): one client request. Traffic
  Server calls \<open>consume\<close> and \<open>handleInputComplete\<close> with what the client sends, and deletes the
  intercept with its transaction; the server calls the other operations.
\<close>

text \<open>The constructor leaves \<open>_request_id\<close> as the memory was.\<close>

definition new_intercept :: "uint \<Rightarrow> nat \<Rightarrow> ServerIntercept" where
  "new_intercept junk t =
     \<lparr>txn = t, si_request_id = junk, dataBuffered = False, clientAborted = False, clientHeader = [],
      clientBody = [], inputCompleteState = False, outputCompleteState = False\<rparr>"

definition streamReqHeader :: "ats_io \<Rightarrow> nat \<Rightarrow> string \<Rightarrow> world \<Rightarrow> world result" where
  "streamReqHeader io i data w =
     bindE (heap_get i (icpts w)) (\<lambda>icpt.
     bindE (writeRequestHeader io (si_request_id icpt) w) (\<lambda>(ok, w).
       if ok then Inr w
       else Inr (set_icpt i (icpt\<lparr>dataBuffered := True, clientHeader := clientHeader icpt @ data\<rparr>) w)))"

definition streamReqBody :: "ats_io \<Rightarrow> nat \<Rightarrow> string \<Rightarrow> world \<Rightarrow> world result" where
  "streamReqBody io i data w =
     bindE (heap_get i (icpts w)) (\<lambda>icpt.
     bindE (writeRequestBody io (si_request_id icpt) data w) (\<lambda>(ok, w).
       if ok then Inr w
       else Inr (set_icpt i (icpt\<lparr>dataBuffered := True, clientBody := clientBody icpt @ data\<rparr>) w)))"

datatype RequestDataType = REQUEST_HEADER | REQUEST_BODY

definition consume :: "ats_io \<Rightarrow> nat \<Rightarrow> string \<Rightarrow> RequestDataType \<Rightarrow> world \<Rightarrow> world result" where
  "consume io i data type w =
     (if type = REQUEST_HEADER then streamReqHeader io i data w else streamReqBody io i data w)"

definition handleInputComplete :: "ats_io \<Rightarrow> nat \<Rightarrow> world \<Rightarrow> world result" where
  "handleInputComplete io i w =
     bindE (heap_get i (icpts w)) (\<lambda>icpt.
     bindE (writeRequestBodyComplete io (si_request_id icpt) w) (\<lambda>(ok, w).
       if \<not> ok then Inr w
       else Inr (set_icpt i (icpt\<lparr>inputCompleteState := True\<rparr>) w)))"

definition writeResponseChunkToATS :: "nat \<Rightarrow> bytes \<Rightarrow> world \<Rightarrow> world result" where
  "writeResponseChunkToATS i data w =
     bindE (heap_get i (icpts w)) (\<lambda>_. Inr (ats [Produce i data] w))"

definition setResponseOutputComplete :: "server_env \<Rightarrow> nat \<Rightarrow> world \<Rightarrow> world result" where
  "setResponseOutputComplete env i w =
     bindE (heap_get i (icpts w)) (\<lambda>icpt.
     let w = set_icpt i (icpt\<lparr>outputCompleteState := True\<rparr>) (ats [SetOutputComplete i] w)
     in removeIntercept env (si_request_id icpt) w)"

text \<open>The destructor, then the memory is free.\<close>

definition delete_intercept :: "server_env \<Rightarrow> nat \<Rightarrow> world \<Rightarrow> world result" where
  "delete_intercept env i w =
     bindE (heap_get i (icpts w)) (\<lambda>icpt.
     bindE (if \<not> outputCompleteState icpt
            then removeIntercept env (si_request_id icpt) (set_icpt i (icpt\<lparr>clientAborted := True\<rparr>) w)
            else Inr w) (\<lambda>w.
       Inr (TSStatIntIncrement respEndId 1 (w\<lparr>icpts := (icpts w)(i := None)\<rparr>))))"

end
