(* ===== verification/Backend_Events.thy ===== *)
theory Backend_Events
  imports Server_Intercept
begin

text \<open>
  The event handler of the connections to the backend and the transfer of response data
  (\<open>interceptTransferData\<close> and \<open>handlePHPConnectionEvents\<close> in \<open>server.cc\<close>).
\<close>

section \<open>Transfer of response data\<close>

text \<open>
  The loop over the blocks of the reader: every block that is not empty goes through the
  decoder, and \<open>responseStatus\<close> is what the last one of them returned.
\<close>

fun transfer_blocks :: "server_env \<Rightarrow> bytes list \<Rightarrow> bool \<Rightarrow> int \<Rightarrow> bytes \<Rightarrow> FCGIClientRequest option
    \<Rightarrow> (bool \<times> int \<times> bytes \<times> FCGIClientRequest option) result" where
  "transfer_blocks env [] status consumed output fr = Inr (status, consumed, output, fr)"
| "transfer_blocks env (block # blocks) status consumed output fr =
     (if block = [] then transfer_blocks env blocks status consumed output fr
      else bindE (deref fr) (\<lambda>r.
           bindE (fcgiDecodeRecordChunk (env_mime env) (env_http_1_1 env) (env_junk env) block output
                    (fr_response r)) (\<lambda>(status, output, resp).
             transfer_blocks env blocks status (consumed + int (length block)) output
               (Some (r\<lparr>fr_response := resp\<rparr>)))))"

definition interceptTransferData :: "server_env \<Rightarrow> nat \<Rightarrow> nat \<Rightarrow> bytes list \<Rightarrow> world
    \<Rightarrow> (bool \<times> world) result" where
  "interceptTransferData env i c blocks w =
     bindE (heap_get c (conns w)) (\<lambda>conn.
     if iobuf (readio conn) = None \<or> \<not> vio (readio conn) then Inl NullDeref
     else bindE (transfer_blocks env blocks False 0 [] (fcgiRequest conn))
       (\<lambda>(status, consumed, data, fr).
          let w = set_conn c (conn\<lparr>fcgiRequest := fr\<rparr>) w
          in bindE (if data \<noteq> [] then writeResponseChunkToATS i data w else Inr w) (\<lambda>w.
               Inr (status, w))))"


section \<open>Events\<close>

datatype net_event =
    NET_CONNECT nat              \<comment> \<open>the new virtual connection\<close>
  | NET_CONNECT_FAILED
  | VCONN_READ_READY "bytes list" \<comment> \<open>the blocks of the reader\<close>
  | VCONN_READ_COMPLETE
  | VCONN_WRITE_READY
  | VCONN_WRITE_COMPLETE
  | VCONN_EOS
  | NET_ERROR
  | OTHER_EVENT

definition on_net_connect :: "server_env \<Rightarrow> nat \<Rightarrow> nat \<Rightarrow> world \<Rightarrow> world result" where
  "on_net_connect env v c w =
     (let w = TSStatIntIncrement phpConnCount 1 w in
      bindE (heap_get c (conns w)) (\<lambda>conn.
      let conn = conn\<lparr>vc_ptr := Some v, conn_state := READY\<rparr>;
          w = set_conn c conn w
      in case getIntercept (requestId conn) w of
           None \<Rightarrow> Inr w
         | Some i \<Rightarrow>
             bindE (heap_get i (icpts w)) (\<lambda>icpt.
             bindE (createFCGIClient (env_junk env) (env_cfg env) (env_requests env) i (txn icpt) conn)
               (\<lambda>(cs, conn). Inr (ats cs (set_conn c conn w))))))"

text \<open>The tail \<open>reConnect\<close>, \<open>setState(CLOSED)\<close>, \<open>connectionClosed\<close> of two cases.\<close>

definition give_up_connection :: "server_env \<Rightarrow> nat \<Rightarrow> world \<Rightarrow> world result" where
  "give_up_connection env c w =
     bindE (heap_get c (conns w)) (\<lambda>conn.
     bindE (reConnect env (requestId conn) w) (\<lambda>w.
     bindE (setState c CLOSED w) (connectionClosed c)))"

definition on_connect_failed :: "server_env \<Rightarrow> nat \<Rightarrow> world \<Rightarrow> world result" where
  "on_connect_failed env c w = give_up_connection env c (TSStatIntIncrement phpConnCount 1 w)"

text \<open>\<open>setState(COMPLETE)\<close>, \<open>setResponseOutputComplete\<close> and the count of responses.\<close>

definition response_complete :: "server_env \<Rightarrow> nat option \<Rightarrow> nat \<Rightarrow> world \<Rightarrow> world result" where
  "response_complete env intercept c w =
     bindE (setState c COMPLETE w) (\<lambda>w.
     bindE (deref intercept) (\<lambda>i.
     bindE (setResponseOutputComplete env i w) (\<lambda>w.
       Inr (TSStatIntIncrement respBegId 1 w))))"

definition on_read_ready :: "server_env \<Rightarrow> bytes list \<Rightarrow> nat \<Rightarrow> world \<Rightarrow> world result" where
  "on_read_ready env blocks c w =
     bindE (heap_get c (conns w)) (\<lambda>conn.
       case getIntercept (requestId conn) w of
         None \<Rightarrow> Inr w
       | Some i \<Rightarrow>
           bindE (interceptTransferData env i c blocks w) (\<lambda>(status, w).
             if status then response_complete env (Some i) c w else Inr w))"

definition on_read_complete :: "server_env \<Rightarrow> nat \<Rightarrow> world \<Rightarrow> world result" where
  "on_read_complete env c w =
     bindE (heap_get c (conns w)) (\<lambda>conn.
       response_complete env (getIntercept (requestId conn) w) c w)"

definition on_write_complete :: "ats_io \<Rightarrow> nat \<Rightarrow> world \<Rightarrow> world result" where
  "on_write_complete io c w =
     (let w = TSStatIntIncrement reqEndId 1 w in
      bindE (heap_get c (conns w)) (\<lambda>conn.
      bindE (channel_read io (vc_ptr conn) (readio conn)) (\<lambda>(cs, ch).
        Inr (ats cs (set_conn c (conn\<lparr>readio := ch\<rparr>) w)))))"

text \<open>The event is passed on to the same handler as the end of the write.\<close>

definition on_write_ready :: "ats_io \<Rightarrow> nat \<Rightarrow> world \<Rightarrow> world result" where
  "on_write_ready io c w =
     bindE (heap_get c (conns w)) (\<lambda>conn.
       if readEnable (writeio conn)
       then (if vio (writeio conn) then on_write_complete io c w else Inl NullDeref)
       else Inr w)"

definition on_eos :: "server_env \<Rightarrow> nat \<Rightarrow> world \<Rightarrow> world result" where
  "on_eos env c w =
     bindE (heap_get c (conns w)) (\<lambda>conn.
       if \<not> readEnable (writeio conn) then give_up_connection env c w
       else
         bindE (if conn_state conn \<noteq> COMPLETE
                then (case getIntercept (requestId conn) w of
                        None \<Rightarrow> Inr w
                      | Some i \<Rightarrow>
                          bindE (heap_get i (icpts w)) (\<lambda>icpt.
                            if \<not> outputCompleteState icpt then Inr (ats [TxnError (txn icpt)] w)
                            else Inr w))
                else Inr w) (\<lambda>w.
         bindE (setState c CLOSED w) (connectionClosed c)))"

definition HTTP_STATUS_BAD_GATEWAY :: nat where "HTTP_STATUS_BAD_GATEWAY = 502"

definition on_error :: "server_env \<Rightarrow> nat \<Rightarrow> world \<Rightarrow> world result" where
  "on_error env c w =
     bindE (heap_get c (conns w)) (\<lambda>conn.
     bindE (deref (vc_ptr conn)) (\<lambda>v.
     let w = ats [VConnAbort v] w in
     bindE (case getIntercept (requestId conn) w of
              None \<Rightarrow> Inr w
            | Some i \<Rightarrow>
                bindE (setState c CLOSED w) (\<lambda>w.
                bindE (heap_get i (icpts w)) (\<lambda>icpt.
                  Inr (ats [SetStatusCode (txn icpt) HTTP_STATUS_BAD_GATEWAY, TxnError (txn icpt)] w))))
       (connectionClosed c)))"

definition handlePHPConnectionEvents :: "server_env \<Rightarrow> ats_io \<Rightarrow> net_event \<Rightarrow> nat \<Rightarrow> world
    \<Rightarrow> world result" where
  "handlePHPConnectionEvents env io event c w =
     (case event of
        NET_CONNECT v \<Rightarrow> on_net_connect env v c w
      | NET_CONNECT_FAILED \<Rightarrow> on_connect_failed env c w
      | VCONN_READ_READY blocks \<Rightarrow> on_read_ready env blocks c w
      | VCONN_READ_COMPLETE \<Rightarrow> on_read_complete env c w
      | VCONN_WRITE_READY \<Rightarrow> on_write_ready io c w
      | VCONN_WRITE_COMPLETE \<Rightarrow> on_write_complete io c w
      | VCONN_EOS \<Rightarrow> on_eos env c w
      | NET_ERROR \<Rightarrow> on_error env c w
      | OTHER_EVENT \<Rightarrow> Inr w)"

end
