(* ===== verification/Plugin.thy ===== *)
theory Plugin
  imports Server_Intercept
begin

text \<open>
  The plugin itself (\<open>ats_fastcgi.cc\<close>): the hook after the cache lookup, which makes an
  intercept for a request that the cache cannot answer and hands it to the server, and
  \<open>TSPluginInit\<close>.
\<close>

section \<open>The hook\<close>

text \<open>
  \<open>regex_search\<close> with the pattern \<open>.*\<close>: the longest match at the start, and \<open>.\<close> matches
  everything but the line terminators.
\<close>

definition url_match :: "string \<Rightarrow> string" where
  "url_match path = takeWhile (\<lambda>c. c \<noteq> CHR 0x0A \<and> c \<noteq> CHR 0x0D) path"

text \<open>
  \<open>while (!setupThreadLocalStorage());\<close> for the results its calls have, one after the other;
  \<open>None\<close> when the loop still runs after them.
\<close>

fun setup_loop :: "FcgiPluginConfig \<Rightarrow> key_result list \<Rightarrow> world \<Rightarrow> world option" where
  "setup_loop cfg [] w = None"
| "setup_loop cfg (r # rs) w =
     (let (ok, w') = setupThreadLocalStorage cfg r w in if ok then Some w' else setup_loop cfg rs w')"

record transaction =
  cache_hit_fresh :: bool
  ats_handle :: "nat option"
  url_path :: string

definition new_icpt :: "server_env \<Rightarrow> nat \<Rightarrow> world \<Rightarrow> nat \<times> world" where
  "new_icpt env t w =
     (next_addr w, set_icpt (next_addr w) (new_intercept (env_junk32 env) t)
                     (w\<lparr>next_addr := Suc (next_addr w)\<rparr>))"

definition handleReadCacheLookupComplete :: "server_env \<Rightarrow> key_result list \<Rightarrow> transaction \<Rightarrow> nat
    \<Rightarrow> world \<Rightarrow> world result option" where
  "handleReadCacheLookupComplete env rs tr self w =
     (if cache_hit_fresh tr then Some (Inr (ats [Resume self] w))
      else
        case ats_handle tr of
          None \<Rightarrow> Some (Inr w)
        | Some t \<Rightarrow>
            if url_path tr = url_match (url_path tr) then
              let w = TSStatIntIncrement reqBegId 1 w;
                  (i, w) = new_icpt env t w
              in map_option (\<lambda>w. bindE (connect env i w) (\<lambda>(r, w). Inr w))
                   (if threadKey w = 0 then setup_loop (env_cfg env) rs w else Some w)
            else Some (Inr (ats [Resume self] w)))"

lemma handleReadCacheLookupComplete_cases:
  assumes "handleReadCacheLookupComplete env rs tr self w = Some (Inr w')"
  shows "w' = w \<or> w' = ats [Resume self] w \<or>
     (\<exists>t i w2 w3 r. new_icpt env t (TSStatIntIncrement reqBegId 1 w) = (i, w2) \<and>
        (if threadKey w2 = 0 then setup_loop (env_cfg env) rs w2 else Some w2) = Some w3 \<and>
        connect env i w3 = Inr (r, w'))"
proof (cases "ats_handle tr = None \<or> cache_hit_fresh tr \<or> url_path tr \<noteq> url_match (url_path tr)")
  case True
  with assms show ?thesis
    by (auto simp: handleReadCacheLookupComplete_def split: option.splits if_splits)
next
  case False
  then obtain t where t: "ats_handle tr = Some t" by auto
  obtain i w2 where new: "new_icpt env t (TSStatIntIncrement reqBegId 1 w) = (i, w2)" by fastforce
  from assms False t new obtain w3 where
    w3: "(if threadKey w2 = 0 then setup_loop (env_cfg env) rs w2 else Some w2) = Some w3"
    and con: "bindE (connect env i w3) (\<lambda>(r, w). Inr w) = Inr w'"
    by (auto simp: handleReadCacheLookupComplete_def Let_def)
  then obtain r where "connect env i w3 = Inr (r, w')" by (auto simp: bindE_eq_Inr)
  with new w3 show ?thesis by blast
qed


section \<open>TSPluginInit\<close>

definition stat_names :: "(stat \<times> string) list" where
  "stat_names =
     [(reqBegId, ''plugin.ats_fastcgi.reqCountBeg''),
      (reqEndId, ''plugin.ats_fastcgi.reqCountEnd''),
      (respBegId, ''plugin.ats_fastcgi.respCountBeg''),
      (respEndId, ''plugin.ats_fastcgi.respCountEnd''),
      (threadCount, ''plugin.ats_fastcgi.threadCount''),
      (phpConnCount, ''plugin.ats_fastcgi.phpConnCount'')]"

text \<open>\<open>TSStatFindName\<close> and \<open>TSStatCreate\<close>; \<open>None\<close> is \<open>TS_ERROR\<close>.\<close>

record stat_api =
  stat_find :: "string \<Rightarrow> int option"
  stat_create :: "string \<Rightarrow> int option"

definition TS_ERROR :: int where "TS_ERROR = -1"

text \<open>Register the statistics one by one; \<open>False\<close> when one cannot be made.\<close>

fun register_stats :: "stat_api \<Rightarrow> (stat \<times> string) list \<Rightarrow> (stat \<Rightarrow> int) \<Rightarrow> bool \<times> (stat \<Rightarrow> int)" where
  "register_stats api [] ids = (True, ids)"
| "register_stats api ((s, name) # ss) ids =
     (case stat_find api name of
        Some n \<Rightarrow> register_stats api ss (ids(s := n))
      | None \<Rightarrow>
          (case stat_create api name of
             Some n \<Rightarrow> register_stats api ss (ids(s := n))
           | None \<Rightarrow> (False, ids(s := TS_ERROR))))"

record plugin_globals =
  plugin_data :: InterceptPluginData
  hook_registered :: bool
  gServer :: bool
  stat_ids :: "stat \<Rightarrow> int"
  stats_zeroed :: "int list"

definition TSPluginInit :: "(string \<Rightarrow> string list option) \<Rightarrow> stat_api \<Rightarrow> string list
    \<Rightarrow> plugin_globals result" where
  "TSPluginInit fs api argv =
     bindE (initConfig fs (case argv of a # f # as \<Rightarrow> Some f | _ \<Rightarrow> None)) (\<lambda>(cfg, lg).
       let data = setGlobalConfigObj (Some cfg) new_plugin_data;
           g = \<lparr>plugin_data = data, hook_registered = False, gServer = False, stat_ids = (\<lambda>s. 0),
                stats_zeroed = []\<rparr>
       in if getFcgiEnabledStatus cfg
          then let (ok, ids) = register_stats api stat_names (\<lambda>s. 0);
                   g = g\<lparr>hook_registered := True, gServer := True, stat_ids := ids\<rparr>
               in Inr (if ok then g\<lparr>stats_zeroed := map (\<lambda>(s, name). ids s) stat_names\<rparr> else g)
          else Inr g)"



section \<open>Properties\<close>

lemma url_match_iff: "url_match path = path \<longleftrightarrow> (\<forall>c\<in>set path. c \<noteq> CHR 0x0A \<and> c \<noteq> CHR 0x0D)"
  unfolding url_match_def by (auto simp: takeWhile_eq_all_conv)

lemma setup_loop_Some: "setup_loop cfg rs w \<noteq> None \<longleftrightarrow> (\<exists>k. KeyCreated k \<in> set rs)"
proof (induction rs arbitrary: w)
  case (Cons r rs)
  then show ?case by (cases r) (auto simp: setupThreadLocalStorage_def)
qed simp

text \<open>The hook's wait for its thread data ends with the first key that can be created and set, and
  only then: while keys cannot be created it spins.\<close>

theorem setup_loop_returns_iff:
  "(\<exists>w'. setup_loop cfg rs w = Some w') \<longleftrightarrow> (\<exists>k. KeyCreated k \<in> set rs)"
  using setup_loop_Some [of cfg rs w] by auto

lemma register_stats_fails:
  "(s, name) \<in> set ss \<Longrightarrow> stat_find api name = None \<Longrightarrow> stat_create api name = None \<Longrightarrow>
   \<not> fst (register_stats api ss ids)"
  by (induction ss arbitrary: ids) (auto split: option.splits)

text \<open>When a statistic can neither be found nor created, the plugin's initialisation stops in the
  middle, but the hook is registered already: it serves requests with statistics that were never
  set to zero.\<close>

theorem hook_without_statistics:
  assumes "initConfig fs (case argv of a # f # as \<Rightarrow> Some f | _ \<Rightarrow> None) = Inr (cfg, lg)"
    and "getFcgiEnabledStatus cfg" "(s, name) \<in> set stat_names"
    and "stat_find api name = None" "stat_create api name = None"
  shows "\<exists>g. TSPluginInit fs api argv = Inr g \<and> hook_registered g \<and> gServer g \<and> stats_zeroed g = []"
  using assms register_stats_fails [OF assms(3-5), of "\<lambda>s. 0"]
  by (auto simp: TSPluginInit_def Let_def split: prod.splits)

theorem hook_without_statistics_witness:
  "\<exists>g. TSPluginInit (\<lambda>f. None) \<lparr>stat_find = (\<lambda>n. None), stat_create = (\<lambda>n. None)\<rparr> [''p''] = Inr g \<and>
     hook_registered g \<and> gServer g \<and> stats_zeroed g = []"
  by (rule hook_without_statistics [where cfg = default_config and lg = "[]" and s = reqBegId])
    (simp_all add: initConfig_def default_config_def getFcgiEnabledStatus_def stat_names_def)

definition ready_world :: world where
  "ready_world = \<lparr>conns = (\<lambda>a. None), icpts = (\<lambda>a. None), next_addr = 0, intercept_list = (\<lambda>r. None),
     next_id = 1, threadKey = 1, tdata = Some (new_thread_data default_config), stats = (\<lambda>s. 0), calls = []\<rparr>"

definition sample_env :: server_env where
  "sample_env = \<lparr>env_cfg = default_config, env_requests = (\<lambda>t. sample_request), env_mime = (\<lambda>b. MimeCont),
     env_http_1_1 = str_bytes ''HTTP/1.1'', env_junk = 0, env_junk16 = 0, env_junk32 = 0\<rparr>"

end
