(* ===== verification/Server_Invariant.thy ===== *)
theory Server_Invariant
  imports Backend_Events Plugin
begin

text \<open>
  The server as a state machine: Traffic Server brings requests, events of connections, data of
  clients and the end of transactions in any order, and every handler runs to its end. The
  invariant of the reachable states is proved handler by handler.
\<close>

section \<open>The invariant\<close>

text \<open>
  An entry of the table joins a request that is alive and not answered with a connection of
  the pool that works for it, under an id given out before; the request does not wait too.
\<close>

definition entry_ok :: "world \<Rightarrow> uint \<Rightarrow> nat \<Rightarrow> nat \<Rightarrow> bool" where
  "entry_ok w rid i c \<longleftrightarrow> 0 < rid \<and> rid < next_id w \<and>
     (\<exists>conn. conns w c = Some conn \<and> requestId conn = rid) \<and>
     (\<exists>icpt. icpts w i = Some icpt \<and> si_request_id icpt = rid \<and> \<not> outputCompleteState icpt) \<and>
     (\<exists>td. tdata w = Some td \<and> c \<in> set (connections (pool td)) \<and>
           i \<notin> set (pending_list (pendingReqQueue td)))"

text \<open>
  The pool is well formed and its idle connections work for nobody; nothing waits twice, the
  queue keeps its bound, and what waits is not answered.
\<close>

definition td_ok :: "world \<Rightarrow> ThreadData \<Rightarrow> bool" where
  "td_ok w td \<longleftrightarrow> pool_wf (pool td, conns w) \<and>
     (\<forall>a\<in>set (available_connections (pool td)). \<exists>conn. conns w a = Some conn \<and> requestId conn = 0) \<and>
     distinct (pending_list (pendingReqQueue td)) \<and>
     length (pending_list (pendingReqQueue td)) \<le> unat (max_queue_size (pendingReqQueue td)) \<and>
     (\<forall>i\<in>set (pending_list (pendingReqQueue td)). i < next_addr w \<and>
        (\<forall>icpt. icpts w i = Some icpt \<longrightarrow> \<not> outputCompleteState icpt))"

text \<open>A request that Traffic Server knows had its place in memory, and its id is its own.\<close>

definition plugin_ok :: "world \<Rightarrow> nat \<Rightarrow> bool" where
  "plugin_ok w i \<longleftrightarrow> i < next_addr w \<and> (\<forall>icpt. icpts w i = Some icpt \<longrightarrow> si_request_id icpt < next_id w \<and>
     (\<forall>i' c. intercept_list w (si_request_id icpt) = Some (i', c) \<longrightarrow> i' = i))"

definition server_inv :: "world \<Rightarrow> bool" where
  "server_inv w \<longleftrightarrow>
     (\<forall>rid i c. intercept_list w rid = Some (i, c) \<longrightarrow> entry_ok w rid i c) \<and>
     (\<forall>td. tdata w = Some td \<longrightarrow> td_ok w td) \<and>
     (\<forall>t i. AddPlugin t i \<in> set (calls w) \<longrightarrow> plugin_ok w i) \<and>
     (\<forall>a. next_addr w \<le> a \<longrightarrow> conns w a = None \<and> icpts w a = None) \<and>
     0 < next_id w \<and> (threadKey w = 0 \<longleftrightarrow> tdata w = None)"

lemma server_invD:
  assumes "server_inv w"
  shows "intercept_list w rid = Some (i, c) \<Longrightarrow> entry_ok w rid i c"
    and "tdata w = Some td \<Longrightarrow> td_ok w td"
    and "AddPlugin t i \<in> set (calls w) \<Longrightarrow> plugin_ok w i"
    and "next_addr w \<le> a \<Longrightarrow> conns w a = None \<and> icpts w a = None"
    and "0 < next_id w" and "threadKey w = 0 \<longleftrightarrow> tdata w = None"
  using assms by (simp_all add: server_inv_def)

text \<open>A request that may be connected: it neither works nor waits, and is not answered.\<close>

definition idle_request :: "world \<Rightarrow> nat \<Rightarrow> bool" where
  "idle_request w i \<longleftrightarrow> i < next_addr w \<and> (\<forall>rid c. intercept_list w rid \<noteq> Some (i, c)) \<and>
     (\<forall>td. tdata w = Some td \<longrightarrow> i \<notin> set (pending_list (pendingReqQueue td))) \<and>
     (\<forall>icpt. icpts w i = Some icpt \<longrightarrow> \<not> outputCompleteState icpt)"

text \<open>A connection of the pool that is neither idle nor at work.\<close>

definition taken_connection :: "world \<Rightarrow> nat \<Rightarrow> bool" where
  "taken_connection w c \<longleftrightarrow> (\<exists>td conn. tdata w = Some td \<and> conns w c = Some conn \<and>
     c \<in> set (connections (pool td)) \<and> c \<notin> set (available_connections (pool td))) \<and>
     (\<forall>rid i. intercept_list w rid \<noteq> Some (i, c))"

text \<open>The counter of request ids has not come to its last value.\<close>

definition ids_left :: "world \<Rightarrow> bool" where
  "ids_left w \<longleftrightarrow> unat (next_id w) < 2 ^ 32 - 1"

lemma next_id_grows: "ids_left w \<Longrightarrow> next_id w < next_id w + 1"
  by (simp add: ids_left_def word_less_nat_alt unat_word_ariths)


section \<open>Small steps keep it\<close>

lemmas world_ops = ats_def TSStatIntIncrement_def set_conn_def set_icpt_def erase_entry_def

lemma server_inv_stat [simp]: "server_inv (TSStatIntIncrement s n w) \<longleftrightarrow> server_inv w"
  by (simp add: server_inv_def TSStatIntIncrement_def entry_ok_def td_ok_def plugin_ok_def)

lemma stat_simps [simp]:
  "conns (TSStatIntIncrement s n w) = conns w" "icpts (TSStatIntIncrement s n w) = icpts w"
  "intercept_list (TSStatIntIncrement s n w) = intercept_list w"
  "tdata (TSStatIntIncrement s n w) = tdata w" "next_addr (TSStatIntIncrement s n w) = next_addr w"
  "next_id (TSStatIntIncrement s n w) = next_id w" "calls (TSStatIntIncrement s n w) = calls w"
  "threadKey (TSStatIntIncrement s n w) = threadKey w"
  by (simp_all add: TSStatIntIncrement_def)

lemma tdata_erase: "tdata (erase_entry rid w) = tdata w"
  by (simp add: erase_entry_def)

lemma server_inv_erase: "server_inv w \<Longrightarrow> server_inv (erase_entry rid w)"
  by (auto simp: server_inv_def erase_entry_def entry_ok_def td_ok_def plugin_ok_def)

lemma server_inv_ats:
  assumes "server_inv w" "\<And>t i. AddPlugin t i \<in> set cs \<Longrightarrow> plugin_ok w i"
  shows "server_inv (ats cs w)"
  using assms by (auto simp: server_inv_def ats_def entry_ok_def td_ok_def plugin_ok_def)

lemma server_invI:
  assumes "\<And>rid i c. intercept_list w rid = Some (i, c) \<Longrightarrow> entry_ok w rid i c"
    and "\<And>td. tdata w = Some td \<Longrightarrow> td_ok w td"
    and "\<And>t i. AddPlugin t i \<in> set (calls w) \<Longrightarrow> plugin_ok w i"
    and "\<And>a. next_addr w \<le> a \<Longrightarrow> conns w a = None \<and> icpts w a = None"
    and "0 < next_id w" "threadKey w = 0 \<longleftrightarrow> tdata w = None"
  shows "server_inv w"
  using assms by (simp add: server_inv_def)

text \<open>
  Writing an object with the same fields the invariant speaks of keeps it. \<open>same_obj\<close> says of
  two heaps that they agree on those fields.
\<close>

definition same_conns :: "ServerConnection heap \<Rightarrow> ServerConnection heap \<Rightarrow> bool" where
  "same_conns h h' \<longleftrightarrow> (\<forall>c. map_option requestId (h c) = map_option requestId (h' c))"

definition same_icpts :: "ServerIntercept heap \<Rightarrow> ServerIntercept heap \<Rightarrow> bool" where
  "same_icpts h h' \<longleftrightarrow> (\<forall>i. map_option (\<lambda>x. (si_request_id x, outputCompleteState x)) (h i) =
     map_option (\<lambda>x. (si_request_id x, outputCompleteState x)) (h' i))"

lemma same_connsD:
  assumes "same_conns h h'"
  shows "h c = Some conn \<Longrightarrow> \<exists>conn'. h' c = Some conn' \<and> requestId conn' = requestId conn"
    and "h' c = None \<longleftrightarrow> h c = None"
  using spec [OF assms [unfolded same_conns_def], of c] by (cases "h' c"; cases "h c"; simp)+

lemma same_icptsD:
  assumes "same_icpts h h'"
  shows "h i = Some x \<Longrightarrow> \<exists>x'. h' i = Some x' \<and> si_request_id x' = si_request_id x \<and>
      outputCompleteState x' = outputCompleteState x"
    and "h' i = None \<longleftrightarrow> h i = None"
  using spec [OF assms [unfolded same_icpts_def], of i] by (cases "h' i"; cases "h i"; simp)+

lemma same_conns_sym: "same_conns h h' \<Longrightarrow> same_conns h' h"
  by (simp add: same_conns_def)

lemma same_icpts_sym: "same_icpts h h' \<Longrightarrow> same_icpts h' h"
  by (simp add: same_icpts_def)

lemma same_refl [simp]: "same_conns h h" "same_icpts g g"
  by (simp_all add: same_conns_def same_icpts_def)

lemma same_conns_upd: "h c = Some conn \<Longrightarrow> requestId conn' = requestId conn \<Longrightarrow> same_conns h (h(c \<mapsto> conn'))"
  by (simp add: same_conns_def)

lemma same_icpts_upd:
  "h i = Some x \<Longrightarrow> si_request_id x' = si_request_id x \<Longrightarrow> outputCompleteState x' = outputCompleteState x \<Longrightarrow>
   same_icpts h (h(i \<mapsto> x'))"
  by (simp add: same_icpts_def)

lemma server_inv_same:
  assumes "server_inv w" "same_conns (conns w) (conns w')" "same_icpts (icpts w) (icpts w')"
    and "intercept_list w' = intercept_list w" "tdata w' = tdata w" "next_addr w' = next_addr w"
    and "next_id w' = next_id w" "threadKey w' = threadKey w" "calls w' = calls w"
  shows "server_inv w'"
proof (rule server_invI)
  note C = same_connsD [OF assms(2)] and I = same_icptsD [OF assms(3)]
    and I' = same_icptsD [OF same_icpts_sym [OF assms(3)]]
  show "entry_ok w' rid i c" if "intercept_list w' rid = Some (i, c)" for rid i c
    using server_invD(1) [OF assms(1), of rid i c] that assms(4-7) C(1) [of c] I(1) [of i]
    unfolding entry_ok_def by fastforce
  show "td_ok w' td" if "tdata w' = Some td" for td
  proof -
    have td: "td_ok w td" using server_invD(2) [OF assms(1)] that assms(5) by simp
    then have "pool_wf (pool td, conns w')"
      unfolding td_ok_def pool_wf_def by (auto simp del: not_None_eq simp: C(2))
    moreover have "\<exists>conn. conns w' a = Some conn \<and> requestId conn = 0"
      if "a \<in> set (available_connections (pool td))" for a
      using td that C(1) [of a] unfolding td_ok_def by fastforce
    moreover have "\<not> outputCompleteState x"
      if "i \<in> set (pending_list (pendingReqQueue td))" "icpts w' i = Some x" for i x
      using td that I'(1) [of i x] unfolding td_ok_def by fastforce
    ultimately show ?thesis using td assms(6) unfolding td_ok_def by simp
  qed
  show "plugin_ok w' i" if "AddPlugin t i \<in> set (calls w')" for t i
    using server_invD(3) [OF assms(1), of t i] that assms(4,6,7,9) I'(1) [of i]
    unfolding plugin_ok_def by fastforce
  show "conns w' a = None \<and> icpts w' a = None" if "next_addr w' \<le> a" for a
    using server_invD(4) [OF assms(1), of a] that assms(6) C(2) I(2) by simp
qed (use server_invD(5,6) [OF assms(1)] assms in simp_all)

lemma server_inv_set_conn:
  assumes "server_inv w" "conns w c = Some conn" "requestId conn' = requestId conn"
  shows "server_inv (set_conn c conn' w)"
  by (rule server_inv_same [OF assms(1)])
    (use assms(2,3) in \<open>simp_all add: set_conn_def same_conns_upd\<close>)

lemma server_inv_set_icpt:
  assumes "server_inv w" "icpts w i = Some icpt" "si_request_id icpt' = si_request_id icpt"
    "outputCompleteState icpt' = outputCompleteState icpt"
  shows "server_inv (set_icpt i icpt' w)"
  by (rule server_inv_same [OF assms(1)])
    (use assms(2-) in \<open>simp_all add: set_icpt_def same_icpts_upd\<close>)


section \<open>Connecting keeps it\<close>

lemma createConnection_facts:
  "createConnection junk cfg c conn = Inr (cs, conn') \<Longrightarrow>
     requestId conn' = requestId conn \<and> (\<forall>t j. AddPlugin t j \<notin> set cs)"
  by (auto simp: createConnection_def bindE_eq_Inr)

lemma createFCGIClient_facts:
  "createFCGIClient junk cfg rqs i t conn = Inr (cs, conn') \<Longrightarrow>
     requestId conn' = requestId conn \<and> (\<forall>t j. AddPlugin t j \<in> set cs \<longrightarrow> j = i)"
  by (auto simp: createFCGIClient_def bindE_eq_Inr split: if_splits)

lemma initiateBackendConnection_facts:
  assumes "initiateBackendConnection env i c w = Inr w'"
  shows "\<exists>icpt conn conn' cs. icpts w i = Some icpt \<and> conns w c = Some conn \<and>
     requestId conn' = next_id w \<and> (\<forall>t j. AddPlugin t j \<in> set cs \<longrightarrow> j = i) \<and>
     w' = w\<lparr>icpts := (icpts w)(i \<mapsto> icpt\<lparr>si_request_id := next_id w\<rparr>),
            conns := (conns w)(c \<mapsto> conn'),
            intercept_list := (intercept_list w)(next_id w \<mapsto> (i, c)),
            next_id := next_id w + 1, calls := calls w @ cs\<rparr>"
proof -
  obtain icpt conn where h: "icpts w i = Some icpt" "conns w c = Some conn"
    using assms by (auto simp: initiateBackendConnection_def getNext_def Let_def bindE_eq_Inr
        heap_get_Inr set_icpt_def)
  let ?conn0 = "conn\<lparr>requestId := next_id w\<rparr>"
  obtain cs conn' where
    step: "(if conn_state ?conn0 \<noteq> READY then createConnection (env_junk16 env) (env_cfg env) c ?conn0
       else createFCGIClient (env_junk env) (env_cfg env) (env_requests env) i (txn icpt) ?conn0) =
       Inr (cs, conn')"
    and w': "w' = ats cs (set_conn c conn' ((set_conn c ?conn0 (set_icpt i (icpt\<lparr>si_request_id := next_id w\<rparr>)
        (w\<lparr>next_id := next_id w + 1\<rparr>)))\<lparr>intercept_list := (intercept_list w)(next_id w \<mapsto> (i, c))\<rparr>))"
    using assms h by (auto simp: initiateBackendConnection_def getNext_def Let_def bindE_eq_Inr
        set_icpt_def set_conn_def)
  have "requestId conn' = next_id w \<and> (\<forall>t j. AddPlugin t j \<in> set cs \<longrightarrow> j = i)"
    using step createConnection_facts [of "env_junk16 env" "env_cfg env" c ?conn0 cs conn']
      createFCGIClient_facts [of "env_junk env" "env_cfg env" "env_requests env" i "txn icpt" ?conn0 cs conn']
    by (auto split: if_splits)
  with h w' show ?thesis
    by (intro exI [of _ icpt] exI [of _ conn] exI [of _ conn'] exI [of _ cs]) (simp add: world_ops)
qed

lemma initiateBackendConnection_inv:
  assumes inv: "server_inv w" and run: "initiateBackendConnection env i c w = Inr w'"
    and i: "idle_request w i" and c: "taken_connection w c" and ids: "ids_left w"
  shows "server_inv w'"
proof -
  from initiateBackendConnection_facts [OF run] obtain icpt conn conn' cs where
    h: "icpts w i = Some icpt" "conns w c = Some conn" "requestId conn' = next_id w"
      "\<forall>t j. AddPlugin t j \<in> set cs \<longrightarrow> j = i"
    and w': "w' = w\<lparr>icpts := (icpts w)(i \<mapsto> icpt\<lparr>si_request_id := next_id w\<rparr>),
            conns := (conns w)(c \<mapsto> conn'),
            intercept_list := (intercept_list w)(next_id w \<mapsto> (i, c)),
            next_id := next_id w + 1, calls := calls w @ cs\<rparr>" by auto
  have grow: "next_id w < next_id w + 1" by (rule next_id_grows [OF ids])
  have new: "intercept_list w (next_id w) = None"
    using server_invD(1) [OF inv, of "next_id w"]
    by (cases "intercept_list w (next_id w)") (auto simp: entry_ok_def)
  show ?thesis
  proof (rule server_invI)
    show "entry_ok w' rid j d" if "intercept_list w' rid = Some (j, d)" for rid j d
    proof (cases "rid = next_id w")
      case True
      then show ?thesis
        using that grow server_invD(5) [OF inv] i c h(1,3)
        by (auto simp: w' entry_ok_def idle_request_def taken_connection_def)
    next
      case False
      with that have old: "intercept_list w rid = Some (j, d)" by (simp add: w')
      have "j \<noteq> i" "d \<noteq> c" using old i c by (auto simp: idle_request_def taken_connection_def)
      with server_invD(1) [OF inv old] grow show ?thesis
        by (auto simp: w' entry_ok_def)
    qed
    show "td_ok w' td" if "tdata w' = Some td" for td
    proof -
      have td: "td_ok w td" "tdata w = Some td" using server_invD(2) [OF inv] that by (auto simp: w')
      then have "c \<notin> set (available_connections (pool td))"
        using c by (auto simp: taken_connection_def)
      with td h(1,2) show ?thesis unfolding td_ok_def w' pool_wf_def by auto
    qed
    show "plugin_ok w' j" if "AddPlugin t j \<in> set (calls w')" for t j
    proof (cases "j = i")
      case True
      then show ?thesis using grow i by (auto simp: plugin_ok_def idle_request_def w')
    next
      case False
      with that h(4) have "plugin_ok w j"
        using server_invD(3) [OF inv, of t j] by (auto simp: w')
      with False grow show ?thesis by (auto simp: plugin_ok_def w')
    qed
    show "conns w' a = None \<and> icpts w' a = None" if "next_addr w' \<le> a" for a
    proof -
      have "conns w a = None \<and> icpts w a = None" using server_invD(4) [OF inv, of a] that by (simp add: w')
      with h(1,2) show ?thesis by (auto simp: w')
    qed
    show "0 < next_id w'" using order.strict_trans1 [OF word_zero_le grow] by (simp add: w')
  qed (use server_invD(6) [OF inv] in \<open>simp add: w'\<close>)
qed


text \<open>What \<open>connect\<close> does to the table, seen by the other requests.\<close>

definition only_adds :: "nat \<Rightarrow> world \<Rightarrow> world \<Rightarrow> bool" where
  "only_adds i w w' \<longleftrightarrow> (\<forall>rid j c. intercept_list w' rid = Some (j, c) \<longrightarrow>
       intercept_list w rid = Some (j, c) \<or> j = i) \<and>
     (\<forall>j. j \<noteq> i \<longrightarrow> icpts w' j = icpts w j)"

lemma connect_taken:
  assumes inv: "server_inv w" and td: "tdata w = Some td"
    and get: "getAvailableConnection cfg (next_addr w) (pool td, conns w) = Inr (r, p, heap)"
  defines "w1 \<equiv> w\<lparr>conns := heap, next_addr := Suc (next_addr w), tdata := Some (td\<lparr>pool := p\<rparr>)\<rparr>"
  shows "server_inv w1" and "r = Some c \<Longrightarrow> taken_connection w1 c" and "r = None \<Longrightarrow> p = pool td \<and> heap = conns w"
proof -
  have ok: "td_ok w td" by (rule server_invD(2) [OF inv td])
  then have wf: "pool_wf (pool td, conns w)" by (simp add: td_ok_def)
  have none: "conns w (next_addr w) = None" using server_invD(4) [OF inv, of "next_addr w"] by simp
  then have fresh: "next_addr w \<notin> set (connections (pool td))"
    using wf by (auto simp: pool_wf_def)
  from getAvailableConnection_law [OF wf fresh, of cfg] get have
    law: "pool_wf (p, heap)"
      "(case r of
        None \<Rightarrow> p = pool td \<and> heap = conns w
      | Some a \<Rightarrow>
          (if length (connections (pool td)) < unat (maxConn (pool td))
           then a = next_addr w \<and> p = addConnection a (pool td) \<and> heap = (conns w)(a \<mapsto> new_connection cfg)
           else available_connections (pool td) = a # available_connections p \<and>
             connections p = connections (pool td) \<and>
             (\<exists>c. conns w a = Some c \<and> heap = (conns w)(a \<mapsto> c\<lparr>conn_state := READY\<rparr>))))"
    by (auto split: option.splits if_splits)
  show "r = None \<Longrightarrow> p = pool td \<and> heap = conns w" using law(2) by auto
  have heap: "\<exists>conn'. heap a = Some conn' \<and> requestId conn' = requestId conn"
    if "conns w a = Some conn" for a conn
    using law(2) that none by (auto split: option.splits if_splits)
  have heap_new: "heap a = None" if "Suc (next_addr w) \<le> a" for a
    using law(2) that server_invD(4) [OF inv, of a] server_invD(4) [OF inv, of "next_addr w"]
    by (auto split: option.splits if_splits)
  have conns_p: "set (connections (pool td)) \<subseteq> set (connections p)"
    using law(2) by (auto simp: addConnection_def split: option.splits if_splits)
  have avail_p: "set (available_connections p) \<subseteq> set (available_connections (pool td))"
    using law(2) by (auto simp: addConnection_def split: option.splits if_splits)
  show "server_inv w1"
  proof (rule server_invI)
    show "entry_ok w1 rid i c" if "intercept_list w1 rid = Some (i, c)" for rid i c
    proof -
      from that have "entry_ok w rid i c" using server_invD(1) [OF inv] by (simp add: w1_def)
      with heap [of c] conns_p td show ?thesis by (auto simp: entry_ok_def w1_def)
    qed
    show "td_ok w1 td'" if "tdata w1 = Some td'" for td'
    proof -
      have "\<exists>conn. heap a = Some conn \<and> requestId conn = 0" if "a \<in> set (available_connections p)" for a
        using ok avail_p that heap [of a] by (fastforce simp: td_ok_def)
      with that ok law(1) show ?thesis by (auto simp: td_ok_def w1_def less_SucI)
    qed
    show "plugin_ok w1 i" if "AddPlugin t i \<in> set (calls w1)" for t i
      using that server_invD(3) [OF inv, of t i] by (simp add: plugin_ok_def w1_def)
    show "conns w1 a = None \<and> icpts w1 a = None" if "next_addr w1 \<le> a" for a
      using that heap_new [of a] server_invD(4) [OF inv, of a] by (simp add: w1_def)
  qed (use server_invD(5,6) [OF inv] td in \<open>simp_all add: w1_def\<close>)
  show "taken_connection w1 c" if r: "r = Some c"
  proof -
    have "intercept_list w rid \<noteq> Some (i, c)" for rid i
    proof
      assume "intercept_list w rid = Some (i, c)"
      then have e: "entry_ok w rid i c" by (rule server_invD(1) [OF inv])
      then obtain conn where "conns w c = Some conn" "requestId conn = rid" "0 < rid"
        by (auto simp: entry_ok_def)
      with law(2) r none ok show False by (auto simp: td_ok_def split: if_splits)
    qed
    moreover have "c \<in> set (connections p)" "c \<notin> set (available_connections p)" "\<exists>conn. heap c = Some conn"
      using law r fresh wf by (auto simp: addConnection_def pool_wf_def split: if_splits)
    ultimately show ?thesis by (auto simp: taken_connection_def w1_def)
  qed
qed


lemma connect_inv:
  assumes inv: "server_inv w" and run: "connect env i w = Inr (r, w')"
    and i: "idle_request w i" and ids: "ids_left w"
  shows "server_inv w' \<and> only_adds i w w'"
proof (cases "tdata w")
  case None
  with run inv show ?thesis by (simp add: connect_def only_adds_def)
next
  case (Some td)
  from run Some obtain conn p heap where
    get: "getAvailableConnection (env_cfg env) (next_addr w) (pool td, conns w) = Inr (conn, p, heap)"
    by (auto simp: connect_def bindE_eq_Inr)
  define w1 where "w1 = w\<lparr>conns := heap, next_addr := Suc (next_addr w), tdata := Some (td\<lparr>pool := p\<rparr>)\<rparr>"
  note taken = connect_taken [OF inv Some get, folded w1_def]
  have i1: "idle_request w1 i" using i Some by (auto simp: idle_request_def w1_def)
  show ?thesis
  proof (cases conn)
    case None
    have w': "w' = w1\<lparr>tdata := Some (td\<lparr>pool := p,
         pendingReqQueue := snd (addToQueue i (pendingReqQueue td))\<rparr>)\<rparr>"
      using run Some get None by (simp add: connect_def w1_def)
    have ok: "td_ok w1 (td\<lparr>pool := p\<rparr>)"
      by (rule server_invD(2) [OF taken(1)]) (simp add: w1_def)
    have "server_inv w'"
    proof (rule server_invI)
      show "entry_ok w' rid j c" if "intercept_list w' rid = Some (j, c)" for rid j c
      proof -
        from that have l: "intercept_list w1 rid = Some (j, c)" by (simp add: w')
        with i1 have "j \<noteq> i" by (auto simp: idle_request_def)
        with server_invD(1) [OF taken(1) l] show ?thesis
          by (auto simp: entry_ok_def w' w1_def addToQueue_def)
      qed
      show "td_ok w' td'" if "tdata w' = Some td'" for td'
        using that ok i1 request_fifo.elems_put [of i "pendingReqQueue td"]
          request_fifo.bound_put [of i "pendingReqQueue td"]
        by (auto simp: td_ok_def w' w1_def idle_request_def split: if_splits)
      show "plugin_ok w' j" if "AddPlugin t j \<in> set (calls w')" for t j
        using that server_invD(3) [OF taken(1), of t j] by (simp add: plugin_ok_def w')
      show "conns w' a = None \<and> icpts w' a = None" if "next_addr w' \<le> a" for a
        using that server_invD(4) [OF taken(1), of a] by (simp add: w')
    qed (use server_invD(5,6) [OF taken(1)] in \<open>simp_all add: w' w1_def\<close>)
    then show ?thesis by (simp add: only_adds_def w' w1_def)
  next
    case (Some c)
    from run \<open>tdata w = Some td\<close> get Some have run': "initiateBackendConnection env i c w1 = Inr w'"
      by (auto simp: connect_def w1_def bindE_eq_Inr)
    have "ids_left w1" using ids by (simp add: ids_left_def w1_def)
    from initiateBackendConnection_inv [OF taken(1) run' i1 taken(2) [OF Some] this]
    have "server_inv w'" .
    moreover from initiateBackendConnection_facts [OF run'] have "only_adds i w1 w'"
      by (auto simp: only_adds_def split: if_splits)
    ultimately show ?thesis by (simp add: only_adds_def w1_def)
  qed
qed


section \<open>Ending a request keeps it\<close>

text \<open>Connections come and go; the table only loses entries, and the requests stay as they are.\<close>

definition only_drops :: "world \<Rightarrow> world \<Rightarrow> bool" where
  "only_drops w w' \<longleftrightarrow> intercept_list w' \<subseteq>\<^sub>m intercept_list w \<and> icpts w' = icpts w \<and>
     next_id w' = next_id w \<and> next_addr w' = next_addr w \<and>
     map_option pendingReqQueue (tdata w') = map_option pendingReqQueue (tdata w)"

lemma only_drops_refl [simp]: "only_drops w w"
  by (simp add: only_drops_def)

lemma only_drops_trans: "only_drops w w' \<Longrightarrow> only_drops w' w'' \<Longrightarrow> only_drops w w''"
  by (auto simp: only_drops_def intro: map_le_trans)

lemma only_drops_erase: "only_drops w (erase_entry rid w)"
  by (auto simp: only_drops_def erase_entry_def map_le_def)

lemma delete_connection_no_AddPlugin: "delete_connection c = Inr cs \<Longrightarrow> AddPlugin t i \<notin> set cs"
  by (auto simp: delete_connection_def split: if_splits option.splits)

lemma connectionClosed_inv:
  assumes inv: "server_inv w" and run: "connectionClosed c w = Inr w'"
  shows "server_inv w' \<and> only_drops w w'"
proof -
  from run obtain conn td cs p heap where
    h: "conns w c = Some conn" "tdata w = Some td"
      "pool_connectionClosed c (pool td, conns w) = Inr (cs, p, heap)"
    and w': "w' = TSStatIntIncrement phpConnCount (- 1) (ats cs ((erase_entry (requestId conn) w)
       \<lparr>conns := heap, tdata := Some (td\<lparr>pool := p\<rparr>)\<rparr>))"
    by (auto simp: connectionClosed_def bindE_eq_Inr heap_get_Inr deref_eq_Inr erase_entry_def)
  define w1 where "w1 = erase_entry (requestId conn) w"
  have inv1: "server_inv w1" using inv by (simp add: w1_def server_inv_erase)
  have same: "conns w1 = conns w" "tdata w1 = tdata w" "icpts w1 = icpts w" "next_addr w1 = next_addr w"
    "next_id w1 = next_id w" "calls w1 = calls w" "threadKey w1 = threadKey w"
    by (simp_all add: w1_def erase_entry_def)
  have free: "intercept_list w1 rid \<noteq> Some (i, c)" for rid i
  proof
    assume l: "intercept_list w1 rid = Some (i, c)"
    with server_invD(1) [OF inv1 l] h(1) have "requestId conn = rid" by (simp add: entry_ok_def same)
    with l show False by (simp add: w1_def erase_entry_def)
  qed
  have ok: "td_ok w1 td" using server_invD(2) [OF inv1] h(2) same by simp
  then have "pool_wf (pool td, conns w)" by (simp add: td_ok_def same)
  from pool_connectionClosed_law [OF this h(3)] have p: "pool_wf (p, heap)"
    "available_connections p = removeAll c (available_connections (pool td))"
    "connections p = removeAll c (connections (pool td))" "heap = (conns w)(c := None)" by blast+
  have cs: "AddPlugin t i \<notin> set cs" for t i
    using h(3) by (auto simp: pool_connectionClosed_def bindE_eq_Inr dest: delete_connection_no_AddPlugin)
  have "server_inv (ats cs (w1\<lparr>conns := heap, tdata := Some (td\<lparr>pool := p\<rparr>)\<rparr>))" (is "server_inv ?w2")
  proof (rule server_invI)
    show "entry_ok ?w2 rid i d" if "intercept_list ?w2 rid = Some (i, d)" for rid i d
    proof -
      from that have l: "intercept_list w1 rid = Some (i, d)" by (simp add: ats_def)
      with free have "d \<noteq> c" by blast
      with server_invD(1) [OF inv1 l] h(2) p(3,4) same show ?thesis
        by (auto simp: entry_ok_def ats_def)
    qed
    show "td_ok ?w2 td'" if "tdata ?w2 = Some td'" for td'
      using that ok p by (auto simp: td_ok_def ats_def same)
    show "plugin_ok ?w2 i" if "AddPlugin t i \<in> set (calls ?w2)" for t i
      using that cs server_invD(3) [OF inv1, of t i] by (auto simp: plugin_ok_def ats_def)
    show "conns ?w2 a = None \<and> icpts ?w2 a = None" if "next_addr ?w2 \<le> a" for a
      using that server_invD(4) [OF inv1, of a] by (simp add: ats_def p(4) same)
  qed (use server_invD(5,6) [OF inv1] h(2) same in \<open>simp_all add: ats_def\<close>)
  then have "server_inv w'" by (simp add: w' w1_def)
  moreover have "only_drops w w'"
    using h(2) by (auto simp: w' only_drops_def erase_entry_def ats_def map_le_def)
  ultimately show ?thesis ..
qed


lemma server_inv_detach:
  assumes inv: "server_inv w" and c: "taken_connection w c" and id: "requestId conn = 0"
  shows "server_inv (set_conn c conn w)" "taken_connection (set_conn c conn w) c"
proof -
  from c obtain td old where h: "tdata w = Some td" "conns w c = Some old"
    "c \<in> set (connections (pool td))" "c \<notin> set (available_connections (pool td))"
    and free: "\<And>rid i. intercept_list w rid \<noteq> Some (i, c)"
    by (auto simp: taken_connection_def)
  show "server_inv (set_conn c conn w)" (is "server_inv ?w")
  proof (rule server_invI)
    show "entry_ok ?w rid i d" if "intercept_list ?w rid = Some (i, d)" for rid i d
    proof -
      from that have l: "intercept_list w rid = Some (i, d)" by (simp add: set_conn_def)
      with free have "d \<noteq> c" by blast
      with server_invD(1) [OF inv l] show ?thesis by (auto simp: entry_ok_def set_conn_def)
    qed
    show "td_ok ?w td'" if "tdata ?w = Some td'" for td'
      using that h server_invD(2) [OF inv, of td] by (auto simp: td_ok_def set_conn_def pool_wf_def)
    show "plugin_ok ?w i" if "AddPlugin t i \<in> set (calls ?w)" for t i
      using that server_invD(3) [OF inv, of t i] by (simp add: plugin_ok_def set_conn_def)
    show "conns ?w a = None \<and> icpts ?w a = None" if "next_addr ?w \<le> a" for a
      using that server_invD(4) [OF inv, of a] h(2) by (auto simp: set_conn_def)
  qed (use server_invD(5,6) [OF inv] in \<open>simp_all add: set_conn_def\<close>)
  show "taken_connection ?w c" using c h(2) by (auto simp: taken_connection_def set_conn_def)
qed

lemma only_drops_set_conn: "only_drops w (set_conn c conn w)"
  by (simp add: only_drops_def set_conn_def)

lemma recycle_inv:
  assumes inv: "server_inv w" and c: "taken_connection w c" and run: "recycle c w = Inr w'"
  shows "server_inv w' \<and> only_drops w w'"
proof -
  from c obtain td old where h: "tdata w = Some td" "conns w c = Some old"
    "c \<in> set (connections (pool td))" "c \<notin> set (available_connections (pool td))"
    by (auto simp: taken_connection_def)
  define conn w1 where "conn = (releaseFCGIClient old)\<lparr>requestId := 0\<rparr>" and "w1 = set_conn c conn w"
  note defs = conn_def w1_def
  have id: "requestId conn = 0" by (simp add: conn_def)
  note w1 = server_inv_detach [OF inv c id, folded w1_def]
  have same: "tdata w1 = Some td" "conns w1 c = Some conn" using h by (simp_all add: w1_def set_conn_def)
  have drop: "only_drops w w1" by (simp add: w1_def only_drops_set_conn)
  show ?thesis
  proof (cases "req_count conn < max_requests conn")
    case False
    with run h have "bindE (setState c CLOSED w1) (connectionClosed c) = Inr w'"
      by (simp add: recycle_def Let_def defs)
    then obtain w2 where w2: "w2 = set_conn c (conn\<lparr>conn_state := CLOSED\<rparr>) w1"
      and "connectionClosed c w2 = Inr w'"
      by (auto simp: setState_def same)
    moreover have "server_inv w2" unfolding w2
      by (rule server_inv_set_conn [OF w1(1) same(2)]) simp
    moreover have "only_drops w w2"
      unfolding w2 by (rule only_drops_trans [OF drop only_drops_set_conn])
    ultimately show ?thesis using connectionClosed_inv only_drops_trans by blast
  next
    case True
    have ok: "td_ok w1 td" by (rule server_invD(2) [OF w1(1) same(1)])
    then have wf: "pool_wf (pool td, conns w1)" by (simp add: td_ok_def)
    from reuseConnection_law [OF wf h(3,4)] same(2) obtain conn' p where
      re: "reuseConnection c (pool td, conns w1) = Inr (p, (conns w1)(c \<mapsto> conn'))"
        "pool_wf (p, (conns w1)(c \<mapsto> conn'))" "requestId conn' = 0"
        "p = (pool td)\<lparr>available_connections := available_connections (pool td) @ [c]\<rparr>"
      using id by auto
    have w': "w' = w1\<lparr>conns := (conns w1)(c \<mapsto> conn'), tdata := Some (td\<lparr>pool := p\<rparr>)\<rparr>"
      using run h True re(1) same by (simp add: recycle_def Let_def defs bindE_eq_Inr)
    have free: "intercept_list w1 rid \<noteq> Some (i, c)" for rid i
      using w1(2) by (auto simp: taken_connection_def)
    have "server_inv w'"
    proof (rule server_invI)
      show "entry_ok w' rid i d" if "intercept_list w' rid = Some (i, d)" for rid i d
      proof -
        from that have l: "intercept_list w1 rid = Some (i, d)" by (simp add: w')
        with free have "d \<noteq> c" by blast
        with server_invD(1) [OF w1(1) l] same(1) re(4) show ?thesis by (auto simp: entry_ok_def w')
      qed
      show "td_ok w' td'" if "tdata w' = Some td'" for td'
        using that ok re(2-4) by (auto simp: td_ok_def w')
      show "plugin_ok w' i" if "AddPlugin t i \<in> set (calls w')" for t i
        using that server_invD(3) [OF w1(1), of t i] by (simp add: plugin_ok_def w')
      show "conns w' a = None \<and> icpts w' a = None" if "next_addr w' \<le> a" for a
        using that server_invD(4) [OF w1(1), of a] same(2) by (auto simp: w')
    qed (use server_invD(5,6) [OF w1(1)] same in \<open>simp_all add: w'\<close>)
    moreover have "only_drops w1 w'" using same(1) by (simp add: only_drops_def w')
    ultimately show ?thesis using only_drops_trans [OF drop] by blast
  qed
qed

text \<open>The table of the new state, apart from the dropped entries, has at most the request \<open>j\<close> that waited.\<close>

definition serves_waiting :: "world \<Rightarrow> world \<Rightarrow> bool" where
  "serves_waiting w w' \<longleftrightarrow> (\<forall>rid j c. intercept_list w' rid = Some (j, c) \<longrightarrow>
       intercept_list w rid = Some (j, c) \<or>
       (\<exists>td. tdata w = Some td \<and> j \<in> set (pending_list (pendingReqQueue td))))"

lemma server_inv_pop:
  assumes inv: "server_inv w" and td: "tdata w = Some td" and q: "pending_list (pendingReqQueue td) = i # xs"
  defines "w1 \<equiv> w\<lparr>tdata := Some (td\<lparr>pendingReqQueue := (pendingReqQueue td)\<lparr>pending_list := xs\<rparr>\<rparr>)\<rparr>"
  shows "server_inv w1" "idle_request w1 i"
proof -
  have ok: "td_ok w td" by (rule server_invD(2) [OF inv td])
  show "server_inv w1"
  proof (rule server_invI)
    show "entry_ok w1 rid j c" if "intercept_list w1 rid = Some (j, c)" for rid j c
      using server_invD(1) [OF inv, of rid j c] that td q by (auto simp: entry_ok_def w1_def)
    show "td_ok w1 td'" if "tdata w1 = Some td'" for td'
      using that ok q by (auto simp: td_ok_def w1_def)
    show "plugin_ok w1 j" if "AddPlugin t j \<in> set (calls w1)" for t j
      using that server_invD(3) [OF inv, of t j] by (simp add: plugin_ok_def w1_def)
    show "conns w1 a = None \<and> icpts w1 a = None" if "next_addr w1 \<le> a" for a
      using that server_invD(4) [OF inv, of a] by (simp add: w1_def)
  qed (use server_invD(5,6) [OF inv] td in \<open>simp_all add: w1_def\<close>)
  have "intercept_list w rid \<noteq> Some (i, c)" for rid c
    using server_invD(1) [OF inv, of rid i c] td q by (auto simp: entry_ok_def)
  then show "idle_request w1 i" using ok q by (auto simp: idle_request_def td_ok_def w1_def)
qed

lemma serve_next_inv:
  assumes inv: "server_inv w" and run: "serve_next env w = Inr w'" and ids: "ids_left w"
  shows "server_inv w' \<and> serves_waiting w w' \<and>
     (\<forall>j. icpts w' j \<noteq> icpts w j \<longrightarrow>
        (\<exists>td. tdata w = Some td \<and> j \<in> set (pending_list (pendingReqQueue td))))"
proof -
  from run obtain td where td: "tdata w = Some td"
    by (auto simp: serve_next_def bindE_eq_Inr deref_eq_Inr)
  show ?thesis
  proof (cases "pending_list (pendingReqQueue td)")
    case Nil
    with run td inv show ?thesis by (simp add: serve_next_def popFromQueue_def serves_waiting_def)
  next
    case (Cons i xs)
    define w1 where
      "w1 = w\<lparr>tdata := Some (td\<lparr>pendingReqQueue := (pendingReqQueue td)\<lparr>pending_list := xs\<rparr>\<rparr>)\<rparr>"
    note pop = server_inv_pop [OF inv td Cons, folded w1_def]
    from run td Cons obtain r where "connect env i w1 = Inr (r, w')"
      by (auto simp: serve_next_def popFromQueue_def bindE_eq_Inr w1_def)
    moreover have "ids_left w1" using ids by (simp add: ids_left_def w1_def)
    ultimately have "server_inv w' \<and> only_adds i w1 w'" using connect_inv [OF pop(1) _ pop(2)] by blast
    moreover have "intercept_list w1 = intercept_list w" "icpts w1 = icpts w" by (simp_all add: w1_def)
    ultimately show ?thesis
      using td Cons by (auto simp: serves_waiting_def only_adds_def)
  qed
qed


lemma erase_entry_none: "intercept_list w rid = None \<Longrightarrow> erase_entry rid w = w"
  by (simp add: erase_entry_def fun_upd_idem)

lemma entry_taken:
  assumes inv: "server_inv w" and l: "intercept_list w rid = Some (i, c)"
  shows "taken_connection (erase_entry rid w) c"
proof -
  from server_invD(1) [OF inv l] obtain td conn where e: "0 < rid" "conns w c = Some conn"
    "requestId conn = rid" "tdata w = Some td" "c \<in> set (connections (pool td))"
    by (auto simp: entry_ok_def)
  have "c \<notin> set (available_connections (pool td))"
    using server_invD(2) [OF inv e(4)] e by (auto simp: td_ok_def)
  moreover have "intercept_list w rid' \<noteq> Some (j, c)" if "rid' \<noteq> rid" for rid' j
    using server_invD(1) [OF inv, of rid' j c] e that by (auto simp: entry_ok_def)
  ultimately show ?thesis using e by (auto simp: taken_connection_def erase_entry_def)
qed

lemma entry_plugin_ok:
  assumes "server_inv w" "intercept_list w rid = Some (i, c)"
  shows "plugin_ok w i"
  using server_invD(1) [OF assms] assms(2) server_invD(4) [OF assms(1), of i]
  by (cases "next_addr w \<le> i") (auto simp: entry_ok_def plugin_ok_def)

lemma erased_idle_request:
  assumes inv: "server_inv w" and l: "intercept_list w rid = Some (i, c)"
  shows "idle_request (erase_entry rid w) i"
proof -
  from server_invD(1) [OF inv l] obtain icpt td where e: "icpts w i = Some icpt" "si_request_id icpt = rid"
    "\<not> outputCompleteState icpt" "tdata w = Some td" "i \<notin> set (pending_list (pendingReqQueue td))"
    by (auto simp: entry_ok_def)
  have "i < next_addr w" using server_invD(4) [OF inv, of i] e(1) by (cases "next_addr w \<le> i") auto
  moreover have "intercept_list w rid' \<noteq> Some (i, d)" if "rid' \<noteq> rid" for rid' d
    using server_invD(1) [OF inv, of rid' i d] e that by (auto simp: entry_ok_def)
  ultimately show ?thesis using e by (auto simp: idle_request_def erase_entry_def)
qed

lemma only_dropsD:
  assumes "only_drops w w'"
  shows "intercept_list w' rid = Some e \<Longrightarrow> intercept_list w rid = Some e"
    and "tdata w' = Some td' \<Longrightarrow> \<exists>td. tdata w = Some td \<and> pendingReqQueue td = pendingReqQueue td'"
  using assms by (auto simp: only_drops_def map_le_def dom_def dest: sym)

lemma serves_waitingD:
  "serves_waiting w w' \<Longrightarrow> intercept_list w' rid = Some (j, c) \<Longrightarrow> intercept_list w rid \<noteq> Some (j, c) \<Longrightarrow>
   \<exists>td. tdata w = Some td \<and> j \<in> set (pending_list (pendingReqQueue td))"
  by (auto simp: serves_waiting_def)

lemma serves_waiting_drops:
  assumes "only_drops w w'" "serves_waiting w' w''"
  shows "serves_waiting w w''"
  unfolding serves_waiting_def
  using serves_waitingD [OF assms(2)] only_dropsD [OF assms(1)] by metis

lemma removeIntercept_inv:
  assumes inv: "server_inv (erase_entry rid w)"
    and taken: "\<And>i c. intercept_list w rid = Some (i, c) \<Longrightarrow> taken_connection (erase_entry rid w) c"
    and ids: "ids_left w" and run: "removeIntercept env rid w = Inr w'"
  shows "server_inv w' \<and> serves_waiting (erase_entry rid w) w'"
proof (cases "intercept_list w rid")
  case None
  with run inv show ?thesis
    by (simp add: removeIntercept_def erase_entry_none serves_waiting_def)
next
  case (Some e)
  obtain i c where l: "intercept_list w rid = Some (i, c)" using Some by (cases e) auto
  with run obtain w1 where w1: "recycle c (erase_entry rid w) = Inr w1" "serve_next env w1 = Inr w'"
    by (auto simp: removeIntercept_def bindE_eq_Inr)
  from recycle_inv [OF inv taken [OF l] w1(1)] have
    r: "server_inv w1" "only_drops (erase_entry rid w) w1" by simp_all
  then have "ids_left w1" using ids by (simp add: ids_left_def only_drops_def erase_entry_def)
  from serve_next_inv [OF r(1) w1(2) this] have s: "server_inv w'" "serves_waiting w1 w'" by simp_all
  from s(1) serves_waiting_drops [OF r(2) s(2)] show ?thesis ..
qed

lemma server_inv_complete:
  assumes inv: "server_inv w" and l: "intercept_list w rid = Some (i, c)"
    and i: "icpts w i = Some icpt" "si_request_id icpt' = si_request_id icpt"
  shows "server_inv (erase_entry rid (set_icpt i icpt' w))" (is "server_inv ?w")
proof (rule server_invI)
  have e: "entry_ok w rid i c" by (rule server_invD(1) [OF inv l])
  note idle = erased_idle_request [OF inv l]
  show "entry_ok ?w rid' j d" if "intercept_list ?w rid' = Some (j, d)" for rid' j d
  proof -
    from that have l': "intercept_list (erase_entry rid w) rid' = Some (j, d)"
      by (simp add: set_icpt_def erase_entry_def)
    with idle have "j \<noteq> i" by (auto simp: idle_request_def)
    moreover have "entry_ok w rid' j d"
      using l' server_invD(1) [OF inv, of rid' j d] by (simp add: erase_entry_def split: if_splits)
    ultimately show ?thesis by (auto simp: entry_ok_def set_icpt_def erase_entry_def)
  qed
  show "td_ok ?w td" if "tdata ?w = Some td" for td
    using that e server_invD(2) [OF inv, of td]
    by (auto simp: td_ok_def set_icpt_def erase_entry_def entry_ok_def)
  show "plugin_ok ?w j" if "AddPlugin t j \<in> set (calls ?w)" for t j
    using that server_invD(3) [OF inv, of t j] i
    by (auto simp: plugin_ok_def set_icpt_def erase_entry_def)
  show "conns ?w a = None \<and> icpts ?w a = None" if "next_addr ?w \<le> a" for a
    using that server_invD(4) [OF inv, of a] i(1) by (auto simp: set_icpt_def erase_entry_def)
qed (use server_invD(5,6) [OF inv] in \<open>simp_all add: set_icpt_def erase_entry_def\<close>)

lemma server_inv_free:
  assumes inv: "server_inv w" and free: "\<And>rid c. intercept_list w rid \<noteq> Some (i, c)"
  shows "server_inv (w\<lparr>icpts := (icpts w)(i := None)\<rparr>)" (is "server_inv ?w")
proof (rule server_invI)
  show "entry_ok ?w rid j d" if "intercept_list ?w rid = Some (j, d)" for rid j d
  proof -
    from that free have "j \<noteq> i" by auto
    with that server_invD(1) [OF inv, of rid j d] show ?thesis by (auto simp: entry_ok_def)
  qed
  show "td_ok ?w td" if "tdata ?w = Some td" for td
    using that server_invD(2) [OF inv, of td] by (auto simp: td_ok_def)
  show "plugin_ok ?w j" if "AddPlugin t j \<in> set (calls ?w)" for t j
    using that server_invD(3) [OF inv, of t j] by (auto simp: plugin_ok_def)
qed (use server_invD(4-6) [OF inv] in auto)

lemma ids_left_simps [simp]:
  "ids_left (erase_entry rid w) = ids_left w" "ids_left (set_icpt i x w) = ids_left w"
  "ids_left (set_conn c y w) = ids_left w" "ids_left (ats cs w) = ids_left w"
  "ids_left (TSStatIntIncrement s n w) = ids_left w"
  by (simp_all add: ids_left_def world_ops)


section \<open>The operations of an intercept keep it\<close>

lemma setResponseOutputComplete_inv:
  assumes inv: "server_inv w" and l: "intercept_list w rid = Some (i, c)" and ids: "ids_left w"
    and run: "setResponseOutputComplete env i w = Inr w'"
  shows "server_inv w'"
proof -
  from server_invD(1) [OF inv l] obtain icpt where i: "icpts w i = Some icpt" "si_request_id icpt = rid"
    by (auto simp: entry_ok_def)
  define w1 where "w1 = set_icpt i (icpt\<lparr>outputCompleteState := True\<rparr>) (ats [SetOutputComplete i] w)"
  have run': "removeIntercept env rid w1 = Inr w'"
    using run i by (simp add: setResponseOutputComplete_def ats_def w1_def Let_def)
  have invA: "server_inv (ats [SetOutputComplete i] w)" using inv by (rule server_inv_ats) simp
  have lA: "intercept_list (ats [SetOutputComplete i] w) rid = Some (i, c)"
    "icpts (ats [SetOutputComplete i] w) i = Some icpt" using l i by (simp_all add: ats_def)
  have "server_inv (erase_entry rid w1)"
    unfolding w1_def by (rule server_inv_complete [OF invA lA]) simp
  moreover have "taken_connection (erase_entry rid w1) d" if "intercept_list w1 rid = Some (j, d)" for j d
    using entry_taken [OF inv l] that l
    by (simp add: taken_connection_def w1_def set_icpt_def ats_def erase_entry_def)
  moreover have "ids_left w1" using ids by (simp add: w1_def)
  ultimately show ?thesis using removeIntercept_inv [OF _ _ _ run'] by blast
qed

lemma delete_intercept_inv:
  assumes inv: "server_inv w" and known: "AddPlugin t i \<in> set (calls w)" and ids: "ids_left w"
    and run: "delete_intercept env i w = Inr w'"
  shows "server_inv w'"
proof -
  from run obtain icpt where i: "icpts w i = Some icpt"
    by (auto simp: delete_intercept_def bindE_eq_Inr heap_get_Inr)
  note plug = server_invD(3) [OF inv known]
  have own: "rid = si_request_id icpt" if "intercept_list w rid = Some (i, c)" for rid c
    using server_invD(1) [OF inv that] i by (auto simp: entry_ok_def)
  show ?thesis
  proof (cases "outputCompleteState icpt")
    case True
    have "intercept_list w rid \<noteq> Some (i, c)" for rid c
      using server_invD(1) [OF inv, of rid i c] True i by (auto simp: entry_ok_def)
    with server_inv_free [OF inv, of i] run i True show ?thesis
      by (auto simp: delete_intercept_def)
  next
    case False
    define w1 where "w1 = set_icpt i (icpt\<lparr>clientAborted := True\<rparr>) w"
    have inv1: "server_inv w1" unfolding w1_def by (rule server_inv_set_icpt [OF inv i]) simp_all
    have same: "intercept_list w1 = intercept_list w" "tdata w1 = tdata w" by (simp_all add: w1_def set_icpt_def)
    from run i False obtain w2 where run2: "removeIntercept env (si_request_id icpt) w1 = Inr w2"
      and w': "w' = TSStatIntIncrement respEndId 1 (w2\<lparr>icpts := (icpts w2)(i := None)\<rparr>)"
      by (auto simp: delete_intercept_def bindE_eq_Inr w1_def)
    have ids1: "ids_left w1" using ids by (simp add: w1_def)
    from removeIntercept_inv [OF server_inv_erase [OF inv1] entry_taken [OF inv1] ids1 run2]
    have w2: "server_inv w2" "serves_waiting (erase_entry (si_request_id icpt) w1) w2" by simp_all
    have "intercept_list w2 rid \<noteq> Some (i, c)" for rid c
    proof
      assume "intercept_list w2 rid = Some (i, c)"
      with w2(2) consider "intercept_list (erase_entry (si_request_id icpt) w1) rid = Some (i, c)"
        | td where "tdata w1 = Some td" "i \<in> set (pending_list (pendingReqQueue td))"
        using serves_waitingD [OF w2(2), of rid i c] by (auto simp: tdata_erase)
      then show False
      proof cases
        case 1
        then show False using own same by (auto simp: erase_entry_def split: if_splits)
      next
        case 2
        show False
        proof (cases "intercept_list w (si_request_id icpt)")
          case None
          have "intercept_list w1 rid \<noteq> Some (i, c)" using own None same by auto
          moreover have "w2 = w1" using run2 None same by (simp add: removeIntercept_def)
          ultimately show False using \<open>intercept_list w2 rid = Some (i, c)\<close> by simp
        next
          case (Some e)
          then obtain c' where "intercept_list w (si_request_id icpt) = Some (i, c')"
            using plug i by (cases e) (auto simp: plugin_ok_def)
          with server_invD(1) [OF inv this] 2 same show False by (auto simp: entry_ok_def)
        qed
      qed
    qed
    from server_inv_free [OF w2(1) this] show ?thesis by (simp add: w')
  qed
qed

end
