(* ===== verification/Server_Steps.thy ===== *)
theory Server_Steps
  imports Server_Invariant
begin

text \<open>
  The steps of the server, the states it can reach, and what holds in them. A step is a whole
  handler that did not crash; the parameters of the step, chosen anew each time, are what
  Traffic Server brings. Between two steps of a thread the others may run.
\<close>

section \<open>Handlers keep the invariant\<close>

lemma setState_inv:
  assumes "server_inv w" "setState c s w = Inr w'"
  shows "server_inv w'" "intercept_list w' = intercept_list w" "ids_left w' = ids_left w"
    "calls w' = calls w" "icpts w' = icpts w"
  using assms server_inv_set_conn [OF assms(1)]
  by (auto simp: setState_def bindE_eq_Inr heap_get_Inr set_conn_def ids_left_def)

lemma on_net_connect_inv:
  assumes inv: "server_inv w" and run: "on_net_connect env v c w = Inr w'"
  shows "server_inv w'"
proof -
  define w0 where "w0 = TSStatIntIncrement phpConnCount 1 w"
  have inv0: "server_inv w0" using inv by (simp add: w0_def)
  from run obtain old where old: "conns w0 c = Some old"
    by (auto simp: on_net_connect_def bindE_eq_Inr heap_get_Inr w0_def Let_def)
  define conn w1 where "conn = old\<lparr>vc_ptr := Some v, conn_state := READY\<rparr>" and "w1 = set_conn c conn w0"
  have inv1: "server_inv w1" unfolding w1_def
    by (rule server_inv_set_conn [OF inv0 old]) (simp add: conn_def)
  have c1: "conns w1 c = Some conn" by (simp add: w1_def set_conn_def)
  show ?thesis
  proof (cases "getIntercept (requestId conn) w1")
    case None
    with run old inv1 show ?thesis
      by (simp add: on_net_connect_def Let_def w0_def conn_def w1_def)
  next
    case (Some i)
    then obtain d where l: "intercept_list w1 (requestId conn) = Some (i, d)" by (auto simp: getIntercept_def)
    from run old Some obtain icpt cs conn' where
      icpt: "icpts w i = Some icpt" and
      f: "createFCGIClient (env_junk env) (env_cfg env) (env_requests env) i (txn icpt) conn = Inr (cs, conn')"
      and w': "w' = ats cs (set_conn c conn' w1)"
      by (auto simp: on_net_connect_def Let_def w0_def conn_def w1_def bindE_eq_Inr set_conn_def
          heap_get_Inr)
    have inv2: "server_inv (set_conn c conn' w1)"
      by (rule server_inv_set_conn [OF inv1 c1]) (use createFCGIClient_facts [OF f] in simp)
    show ?thesis unfolding w'
    proof (rule server_inv_ats [OF inv2])
      fix t j assume "AddPlugin t j \<in> set cs"
      then have "j = i" using createFCGIClient_facts [OF f] by blast
      with entry_plugin_ok [OF inv2, of "requestId conn" i d] l show "plugin_ok (set_conn c conn' w1) j"
        by (simp add: set_conn_def)
    qed
  qed
qed

lemma reConnect_inv:
  assumes inv: "server_inv w" and ids: "ids_left w" and run: "reConnect env rid w = Inr w'"
  shows "server_inv w'"
proof (cases "getIntercept rid w")
  case None
  with run inv show ?thesis by (simp add: reConnect_def)
next
  case (Some i)
  then obtain c where l: "intercept_list w rid = Some (i, c)" by (auto simp: getIntercept_def)
  from run Some obtain r where "connect env i (erase_entry rid w) = Inr (r, w')"
    by (auto simp: reConnect_def bindE_eq_Inr)
  from connect_inv [OF server_inv_erase [OF inv] this erased_idle_request [OF inv l]] ids
  show ?thesis by simp
qed

lemma give_up_connection_inv:
  assumes inv: "server_inv w" and ids: "ids_left w" and run: "give_up_connection env c w = Inr w'"
  shows "server_inv w'"
proof -
  from run obtain conn :: ServerConnection and w1 w2 where "reConnect env (requestId conn) w = Inr w1"
    "setState c CLOSED w1 = Inr w2" "connectionClosed c w2 = Inr w'"
    unfolding give_up_connection_def by (elim bindE_InrE) (rule that, assumption+)
  with reConnect_inv [OF inv ids] setState_inv(1) connectionClosed_inv show ?thesis by metis
qed

lemma response_complete_inv:
  assumes inv: "server_inv w" and ids: "ids_left w" and run: "response_complete env io c w = Inr w'"
    and l: "\<And>i. io = Some i \<Longrightarrow> \<exists>rid d. intercept_list w rid = Some (i, d)"
  shows "server_inv w'"
proof -
  from run obtain i w1 w2 where "setState c COMPLETE w = Inr w1" "io = Some i"
    "setResponseOutputComplete env i w1 = Inr w2" and w': "w' = TSStatIntIncrement respBegId 1 w2"
    by (auto simp: response_complete_def bindE_eq_Inr deref_eq_Inr)
  moreover from l [OF \<open>io = Some i\<close>] obtain rid d where "intercept_list w rid = Some (i, d)" by blast
  ultimately have "server_inv w2"
    using setState_inv [OF inv] setResponseOutputComplete_inv ids by metis
  then show ?thesis by (simp add: w')
qed

lemma ats_Nil [simp]: "ats [] w = w"
  by (simp add: ats_def)

lemma interceptTransferData_facts:
  assumes "interceptTransferData env i c blocks w = Inr (status, w')"
  shows "\<exists>conn consumed data fr. conns w c = Some conn \<and>
     transfer_blocks env blocks False 0 [] (fcgiRequest conn) = Inr (status, consumed, data, fr) \<and>
     w' = ats (if data = [] then [] else [Produce i data]) (set_conn c (conn\<lparr>fcgiRequest := fr\<rparr>) w)"
proof -
  obtain conn where c: "conns w c = Some conn" and io: "\<not> (iobuf (readio conn) = None \<or> \<not> vio (readio conn))"
    using assms by (auto simp: interceptTransferData_def bindE_eq_Inr heap_get_Inr split: if_splits)
  with assms obtain consumed data fr where
    "transfer_blocks env blocks False 0 [] (fcgiRequest conn) = Inr (status, consumed, data, fr)"
    "(if data \<noteq> [] then writeResponseChunkToATS i data (set_conn c (conn\<lparr>fcgiRequest := fr\<rparr>) w)
      else Inr (set_conn c (conn\<lparr>fcgiRequest := fr\<rparr>) w)) = Inr w'"
    by (auto simp: interceptTransferData_def bindE_eq_Inr Let_def)
  with c show ?thesis by (auto simp: writeResponseChunkToATS_def bindE_eq_Inr split: if_splits)
qed

lemma interceptTransferData_inv:
  assumes inv: "server_inv w" and run: "interceptTransferData env i c blocks w = Inr (status, w')"
  shows "server_inv w'" "intercept_list w' = intercept_list w" "ids_left w' = ids_left w"
proof -
  from interceptTransferData_facts [OF run] obtain conn fr data where conn: "conns w c = Some conn"
    and w0: "w' = ats (if data = [] then [] else [Produce i data]) (set_conn c (conn\<lparr>fcgiRequest := fr\<rparr>) w)"
    by blast
  define cs where "cs = (if data = [] then [] else [Produce i data])"
  have w': "w' = ats cs (set_conn c (conn\<lparr>fcgiRequest := fr\<rparr>) w)" "\<And>t j. AddPlugin t j \<notin> set cs"
    using w0 by (simp_all add: cs_def)
  have "server_inv (set_conn c (conn\<lparr>fcgiRequest := fr\<rparr>) w)"
    by (rule server_inv_set_conn [OF inv conn]) simp
  then show "server_inv w'" unfolding w' by (rule server_inv_ats) (use w'(2) in blast)
  show "intercept_list w' = intercept_list w" "ids_left w' = ids_left w"
    by (simp_all add: w' set_conn_def ats_def ids_left_def)
qed

lemma on_read_ready_inv:
  assumes inv: "server_inv w" and ids: "ids_left w" and run: "on_read_ready env blocks c w = Inr w'"
  shows "server_inv w'"
proof -
  from run obtain conn where conn: "conns w c = Some conn"
    by (auto simp: on_read_ready_def bindE_eq_Inr heap_get_Inr)
  show ?thesis
  proof (cases "getIntercept (requestId conn) w")
    case None
    with run conn inv show ?thesis by (simp add: on_read_ready_def)
  next
    case (Some i)
    then obtain d where l: "intercept_list w (requestId conn) = Some (i, d)" by (auto simp: getIntercept_def)
    from run conn Some obtain status w1 where
      t: "interceptTransferData env i c blocks w = Inr (status, w1)"
      and w': "(if status then response_complete env (Some i) c w1 else Inr w1) = Inr w'"
      by (auto simp: on_read_ready_def bindE_eq_Inr)
    note t' = interceptTransferData_inv [OF inv t]
    show ?thesis
    proof (cases status)
      case True
      with w' response_complete_inv [OF t'(1), of env "Some i" c w'] t' l ids show ?thesis by auto
    qed (use w' t' in simp)
  qed
qed

lemma channel_read_no_AddPlugin: "channel_read io vc ch = Inr (cs, ch') \<Longrightarrow> AddPlugin t i \<notin> set cs"
  by (auto simp: channel_read_def bindE_eq_Inr split: if_splits)

lemma phpWrite_no_AddPlugin: "phpWrite io vc buf n endflag ch = Inr (cs, ch') \<Longrightarrow> AddPlugin t i \<notin> set cs"
  by (auto simp: phpWrite_def bindE_eq_Inr Let_def split: if_splits)

lemma on_write_complete_inv:
  assumes inv: "server_inv w" and run: "on_write_complete io c w = Inr w'"
  shows "server_inv w'"
proof -
  define w0 where "w0 = TSStatIntIncrement reqEndId 1 w"
  have inv0: "server_inv w0" using inv by (simp add: w0_def)
  from run obtain conn cs ch where h: "conns w0 c = Some conn"
    "channel_read io (vc_ptr conn) (readio conn) = Inr (cs, ch)"
    and w': "w' = ats cs (set_conn c (conn\<lparr>readio := ch\<rparr>) w0)"
    by (auto simp: on_write_complete_def Let_def bindE_eq_Inr heap_get_Inr w0_def)
  have "server_inv (set_conn c (conn\<lparr>readio := ch\<rparr>) w0)"
    by (rule server_inv_set_conn [OF inv0 h(1)]) simp
  with channel_read_no_AddPlugin [OF h(2)] show ?thesis unfolding w'
    by (intro server_inv_ats) auto
qed

lemma on_eos_inv:
  assumes inv: "server_inv w" and ids: "ids_left w" and run: "on_eos env c w = Inr w'"
  shows "server_inv w'"
proof -
  from run obtain conn where conn: "conns w c = Some conn"
    by (auto simp: on_eos_def bindE_eq_Inr heap_get_Inr)
  show ?thesis
  proof (cases "readEnable (writeio conn)")
    case False
    with run conn give_up_connection_inv [OF inv ids] show ?thesis by (simp add: on_eos_def)
  next
    case True
    with run conn obtain w1 w2 where "w1 = w \<or> (\<exists>t. w1 = ats [TxnError t] w)"
      "setState c CLOSED w1 = Inr w2" "connectionClosed c w2 = Inr w'"
      by (auto simp: on_eos_def bindE_eq_Inr split: if_splits option.splits)
    moreover have "server_inv (ats [TxnError t] w)" for t by (rule server_inv_ats [OF inv]) simp
    ultimately show ?thesis using setState_inv(1) connectionClosed_inv inv by blast
  qed
qed

lemma on_error_inv:
  assumes inv: "server_inv w" and run: "on_error env c w = Inr w'"
  shows "server_inv w'"
proof -
  from run obtain conn :: ServerConnection and v w1 where
    w1: "(case getIntercept (requestId conn) (ats [VConnAbort v] w) of
              None \<Rightarrow> Inr (ats [VConnAbort v] w)
            | Some i \<Rightarrow>
                bindE (setState c CLOSED (ats [VConnAbort v] w)) (\<lambda>w.
                bindE (heap_get i (icpts w)) (\<lambda>icpt.
                  Inr (ats [SetStatusCode (txn icpt) HTTP_STATUS_BAD_GATEWAY, TxnError (txn icpt)] w)))) = Inr w1"
    and close: "connectionClosed c w1 = Inr w'"
    by (auto simp: on_error_def bindE_eq_Inr Let_def)
  have inv0: "server_inv (ats [VConnAbort v] w)" by (rule server_inv_ats [OF inv]) simp
  have "server_inv w1"
  proof (cases "getIntercept (requestId conn) (ats [VConnAbort v] w)")
    case None
    with w1 inv0 show ?thesis by simp
  next
    case (Some i)
    with w1 obtain w2 t where "setState c CLOSED (ats [VConnAbort v] w) = Inr w2"
      "w1 = ats [SetStatusCode t HTTP_STATUS_BAD_GATEWAY, TxnError t] w2"
      by (auto simp: bindE_eq_Inr)
    with setState_inv(1) [OF inv0] show ?thesis by (auto intro: server_inv_ats)
  qed
  with connectionClosed_inv close show ?thesis by blast
qed

lemma handlePHPConnectionEvents_inv:
  assumes inv: "server_inv w" and ids: "ids_left w"
    and run: "handlePHPConnectionEvents env io ev c w = Inr w'"
  shows "server_inv w'"
proof (cases ev)
  case NET_CONNECT_FAILED
  with run have "give_up_connection env c (TSStatIntIncrement phpConnCount 1 w) = Inr w'"
    by (simp add: handlePHPConnectionEvents_def on_connect_failed_def)
  with give_up_connection_inv [of "TSStatIntIncrement phpConnCount 1 w"] inv ids show ?thesis by simp
next
  case VCONN_READ_COMPLETE
  with run obtain conn where "conns w c = Some conn"
    "response_complete env (getIntercept (requestId conn) w) c w = Inr w'"
    by (auto simp: handlePHPConnectionEvents_def on_read_complete_def bindE_eq_Inr heap_get_Inr)
  then show ?thesis by (intro response_complete_inv [OF inv ids]) (auto simp: getIntercept_def, blast)
next
  case VCONN_WRITE_READY
  with run inv on_write_complete_inv [OF inv] show ?thesis
    by (auto simp: handlePHPConnectionEvents_def on_write_ready_def bindE_eq_Inr split: if_splits)
next
  case (NET_CONNECT v)
  with run on_net_connect_inv [OF inv] show ?thesis by (simp add: handlePHPConnectionEvents_def)
next
  case (VCONN_READ_READY blocks)
  with run on_read_ready_inv [OF inv ids] show ?thesis by (simp add: handlePHPConnectionEvents_def)
next
  case VCONN_WRITE_COMPLETE
  with run on_write_complete_inv [OF inv] show ?thesis by (simp add: handlePHPConnectionEvents_def)
next
  case VCONN_EOS
  with run on_eos_inv [OF inv ids] show ?thesis by (simp add: handlePHPConnectionEvents_def)
next
  case NET_ERROR
  with run on_error_inv [OF inv] show ?thesis by (simp add: handlePHPConnectionEvents_def)
next
  case OTHER_EVENT
  with run inv show ?thesis by (simp add: handlePHPConnectionEvents_def)
qed

lemma write_request_inv:
  assumes inv: "server_inv w" and run: "write_request io rid f endflag w = Inr (ok, w')"
  shows "server_inv w'" "icpts w' = icpts w"
proof -
  have "server_inv w' \<and> icpts w' = icpts w"
  proof (cases "getServerConnection rid w")
    case None
    with run inv show ?thesis by (simp add: write_request_def)
  next
    case (Some c)
    with run obtain conn :: ServerConnection and fr where h: "conns w c = Some conn" and
      wr: "(let (reqLen, clientReq) = addClientRequest (fr_state fr) in
          bindE (phpWrite io (vc_ptr conn) clientReq reqLen endflag (writeio conn)) (\<lambda>(cs, ch).
            Inr (True, ats cs (set_conn c (conn\<lparr>fcgiRequest := Some fr, writeio := ch\<rparr>) w)))) = Inr (ok, w')"
      by (simp add: write_request_def) (elim bindE_InrE, simp add: heap_get_Inr)
    obtain n buf where "addClientRequest (fr_state fr) = (n, buf)" by fastforce
    with wr obtain cs ch where p: "phpWrite io (vc_ptr conn) buf n endflag (writeio conn) = Inr (cs, ch)"
      and w': "w' = ats cs (set_conn c (conn\<lparr>fcgiRequest := Some fr, writeio := ch\<rparr>) w)"
      by (auto simp: bindE_eq_Inr)
    have "server_inv (set_conn c (conn\<lparr>fcgiRequest := Some fr, writeio := ch\<rparr>) w)"
      by (rule server_inv_set_conn [OF inv h]) simp
    with phpWrite_no_AddPlugin [OF p] have "server_inv w'"
      unfolding w' by (intro server_inv_ats) auto
    then show ?thesis by (simp add: w' ats_def set_conn_def)
  qed
  then show "server_inv w'" "icpts w' = icpts w" by simp_all
qed


lemma stream_inv:
  assumes inv: "server_inv w"
  shows "consume io i data type w = Inr w' \<Longrightarrow> server_inv w'"
    and "handleInputComplete io i w = Inr w' \<Longrightarrow> server_inv w'"
proof -
  have step: "server_inv w'"
    if run: "bindE (heap_get i (icpts w)) (\<lambda>icpt. bindE (write_request io (si_request_id icpt) f e w)
        (\<lambda>(ok, w). if P ok then Inr w else Inr (set_icpt i (g icpt) w))) = Inr w'"
      and g: "\<And>x. si_request_id (g x) = si_request_id x \<and> outputCompleteState (g x) = outputCompleteState x"
    for f e g and P :: "bool \<Rightarrow> bool"
  proof -
    from run obtain icpt ok w1 where i: "icpts w i = Some icpt"
      and wr: "write_request io (si_request_id icpt) f e w = Inr (ok, w1)"
      and w': "w' = (if P ok then w1 else set_icpt i (g icpt) w1)"
      by (auto simp: bindE_eq_Inr heap_get_Inr split: if_splits)
    note w1 = write_request_inv [OF inv wr]
    have "server_inv (set_icpt i (g icpt) w1)"
      by (rule server_inv_set_icpt [OF w1(1)]) (use i w1(2) g in simp_all)
    with w1(1) w' show ?thesis by simp
  qed
  show "consume io i data type w = Inr w' \<Longrightarrow> server_inv w'"
    using step [where P = "\<lambda>ok. ok"]
    by (auto simp: consume_def streamReqHeader_def streamReqBody_def writeRequestHeader_def
        writeRequestBody_def split: if_splits)
  show "handleInputComplete io i w = Inr w' \<Longrightarrow> server_inv w'"
    using step [where P = "\<lambda>ok. \<not> ok"]
    by (auto simp: handleInputComplete_def writeRequestBodyComplete_def)
qed

lemma setup_loop_inv:
  assumes "setup_loop cfg rs w = Some w'" "server_inv w" "threadKey w = 0"
    and "\<forall>k. KeyCreated k \<in> set rs \<longrightarrow> k \<noteq> 0"
  shows "server_inv w' \<and> intercept_list w' = intercept_list w \<and> icpts w' = icpts w \<and>
     next_addr w' = next_addr w \<and> ids_left w' = ids_left w \<and>
     (\<exists>td. tdata w' = Some td \<and> pending_list (pendingReqQueue td) = [])"
  using assms
proof (induction rs arbitrary: w)
  case (Cons r rs)
  show ?case
  proof (cases r)
    case (KeyCreated k)
    from server_invD(6) [OF Cons.prems(2)] Cons.prems(3) have "tdata w = None" by simp
    have none: "intercept_list w = Map.empty"
    proof
      fix rid
      show "intercept_list w rid = None"
        using server_invD(1) [OF Cons.prems(2), of rid] \<open>tdata w = None\<close>
        by (cases "intercept_list w rid") (auto simp: entry_ok_def)
    qed
    have w': "w' = TSStatIntIncrement threadCount 1 (w\<lparr>threadKey := k, tdata := Some (new_thread_data cfg)\<rparr>)"
      using Cons.prems(1) KeyCreated by (simp add: setupThreadLocalStorage_def)
    have "server_inv (w\<lparr>threadKey := k, tdata := Some (new_thread_data cfg)\<rparr>)"
      using Cons.prems(2,4) KeyCreated none
      by (auto simp: server_inv_def td_ok_def new_thread_data_def pool_wf_def plugin_ok_def new_pool_def
          new_queue_def)
    then show ?thesis by (simp add: w' new_thread_data_def new_queue_def ids_left_def)
  next
    case SetFailed
    have "w\<lparr>threadKey := 0\<rparr> = w" using Cons.prems(3) by simp
    with Cons SetFailed show ?thesis by (simp add: setupThreadLocalStorage_def)
  qed (use Cons in \<open>simp add: setupThreadLocalStorage_def\<close>)
qed simp

lemma new_icpt_inv:
  assumes inv: "server_inv w" and new: "new_icpt env t w = (i, w')"
  shows "server_inv w'" "idle_request w' i" "threadKey w' = threadKey w" "ids_left w' = ids_left w"
proof -
  have i: "i = next_addr w" and w': "w' = w\<lparr>next_addr := Suc (next_addr w),
      icpts := (icpts w)(i \<mapsto> new_intercept (env_junk32 env) t)\<rparr>"
    using new by (auto simp: new_icpt_def set_icpt_def)
  have none: "icpts w i = None" using server_invD(4) [OF inv, of i] by (simp add: i)
  have free: "intercept_list w rid \<noteq> Some (i, c)" for rid c
    using server_invD(1) [OF inv, of rid i c] none by (auto simp: entry_ok_def)
  have unknown: "i \<notin> set (pending_list (pendingReqQueue td))" if "tdata w = Some td" for td
    using server_invD(2) [OF inv that] by (auto simp: td_ok_def i)
  show "idle_request w' i"
    using free unknown by (auto simp: idle_request_def w' i new_intercept_def)
  show "server_inv w'"
  proof (rule server_invI)
    show "entry_ok w' rid j c" if "intercept_list w' rid = Some (j, c)" for rid j c
      using that server_invD(1) [OF inv, of rid j c] none by (auto simp: entry_ok_def w')
    show "td_ok w' td" if "tdata w' = Some td" for td
      using that server_invD(2) [OF inv, of td] unknown [of td]
      by (auto simp: td_ok_def w' less_SucI)
    show "conns w' a = None \<and> icpts w' a = None" if "next_addr w' \<le> a" for a
      using that server_invD(4) [OF inv, of a] by (auto simp: w' i)
    show "plugin_ok w' j" if "AddPlugin s j \<in> set (calls w')" for s j
    proof -
      have "plugin_ok w j" using that server_invD(3) [OF inv, of s j] by (simp add: w')
      then show ?thesis by (auto simp: plugin_ok_def w' i)
    qed
  qed (use server_invD(5,6) [OF inv] in \<open>simp_all add: w'\<close>)
qed (use new in \<open>auto simp: new_icpt_def set_icpt_def ids_left_def\<close>)


lemma handleReadCacheLookupComplete_inv:
  assumes inv: "server_inv w" and ids: "ids_left w" and keys: "\<forall>k. KeyCreated k \<in> set rs \<longrightarrow> k \<noteq> 0"
    and run: "handleReadCacheLookupComplete env rs tr self w = Some (Inr w')"
  shows "server_inv w'"
proof (cases "cache_hit_fresh tr \<or> ats_handle tr = None \<or> url_path tr \<noteq> url_match (url_path tr)")
  case True
  with run have "w' = w \<or> w' = ats [Resume self] w"
    by (auto simp: handleReadCacheLookupComplete_def split: option.splits if_splits)
  then show ?thesis using inv by (auto intro: server_inv_ats)
next
  case False
  then obtain t where t: "ats_handle tr = Some t" by auto
  define w1 where "w1 = TSStatIntIncrement reqBegId 1 w"
  have inv1: "server_inv w1" "ids_left w1" using inv ids by (simp_all add: w1_def)
  obtain i w2 where new: "new_icpt env t w1 = (i, w2)" by fastforce
  note w2 = new_icpt_inv [OF inv1(1) new]
  from run False t new obtain r w3 where
    w3: "(if threadKey w2 = 0 then setup_loop (env_cfg env) rs w2 else Some w2) = Some w3"
    and con: "connect env i w3 = Inr (r, w')"
    by (auto simp: handleReadCacheLookupComplete_def w1_def Let_def bindE_eq_Inr)
  have "server_inv w3 \<and> idle_request w3 i \<and> ids_left w3"
  proof (cases "threadKey w2 = 0")
    case True
    with w3 setup_loop_inv [OF _ w2(1) True keys, of "env_cfg env" w3] w2(2,4) inv1(2)
    show ?thesis by (auto simp: idle_request_def)
  qed (use w3 w2 inv1(2) in simp)
  with connect_inv [OF _ con] show ?thesis by blast
qed


section \<open>Steps\<close>

text \<open>
  What Traffic Server may do: bring a request, an event of a connection that is alive and has
  its continuation, data or the end of data of a client, and delete an intercept it was given.
\<close>

inductive server_step :: "server_env \<Rightarrow> world \<Rightarrow> world \<Rightarrow> bool" for env where
  step_request:
    "ids_left w \<Longrightarrow> \<forall>k. KeyCreated k \<in> set rs \<longrightarrow> k \<noteq> 0 \<Longrightarrow>
     handleReadCacheLookupComplete env rs tr self w = Some (Inr w') \<Longrightarrow> server_step env w w'"
| step_event:
    "ids_left w \<Longrightarrow> conns w c = Some conn \<Longrightarrow> contp conn \<Longrightarrow>
     handlePHPConnectionEvents env io ev c w = Inr w' \<Longrightarrow> server_step env w w'"
| step_consume:
    "AddPlugin t i \<in> set (calls w) \<Longrightarrow> consume io i data type w = Inr w' \<Longrightarrow> server_step env w w'"
| step_complete:
    "AddPlugin t i \<in> set (calls w) \<Longrightarrow> handleInputComplete io i w = Inr w' \<Longrightarrow> server_step env w w'"
| step_delete:
    "ids_left w \<Longrightarrow> AddPlugin t i \<in> set (calls w) \<Longrightarrow> delete_intercept env i w = Inr w' \<Longrightarrow>
     server_step env w w'"

inductive_cases server_stepE: "server_step env w w'"

text \<open>The state after \<open>TSPluginInit\<close>.\<close>

definition initial_world :: world where
  "initial_world = \<lparr>conns = (\<lambda>a. None), icpts = (\<lambda>a. None), next_addr = 0, intercept_list = (\<lambda>r. None),
     next_id = 1, threadKey = 0, tdata = None, stats = (\<lambda>s. 0), calls = []\<rparr>"

text \<open>
  What the other event threads may do between two steps of this one. They have pools and queues of their own, use
  the same heaps and take ids from the same counter; they leave alone the connections and the requests
  of this thread, their connections have no entry of this thread, and an intercept that Traffic Server knows has
  an id of its own. The entries of the other threads in the table are left out of \<open>intercept_list\<close>.
  That the threads of the plugin do no more to each other is shown in \<open>Threads\<close>.
\<close>

definition own_conns :: "world \<Rightarrow> nat set" where
  "own_conns w = {c. \<exists>td. tdata w = Some td \<and> c \<in> set (connections (pool td))}"

definition own_icpts :: "world \<Rightarrow> nat set" where
  "own_icpts w = {i. (\<exists>rid c. intercept_list w rid = Some (i, c)) \<or>
     (\<exists>td. tdata w = Some td \<and> i \<in> set (pending_list (pendingReqQueue td)))}"

definition interference :: "world \<Rightarrow> world \<Rightarrow> bool" where
  "interference w w' \<longleftrightarrow>
     threadKey w' = threadKey w \<and> tdata w' = tdata w \<and> intercept_list w' = intercept_list w \<and>
     next_addr w \<le> next_addr w' \<and> next_id w \<le> next_id w' \<and>
     (\<forall>c\<in>own_conns w. conns w' c = conns w c) \<and> (\<forall>i\<in>own_icpts w. icpts w' i = icpts w i) \<and>
     (\<forall>a. next_addr w' \<le> a \<longrightarrow> conns w' a = None \<and> icpts w' a = None) \<and>
     (\<forall>c conn. conns w' c = Some conn \<longrightarrow> requestId conn < next_id w' \<and>
        (\<forall>i d. intercept_list w (requestId conn) = Some (i, d) \<longrightarrow> d = c)) \<and>
     (\<forall>t i. AddPlugin t i \<in> set (calls w') \<longrightarrow> plugin_ok w' i)"

inductive reachable :: "server_env \<Rightarrow> world \<Rightarrow> bool" for env where
  reachable_initial: "reachable env initial_world"
| reachable_step: "reachable env w \<Longrightarrow> server_step env w w' \<Longrightarrow> reachable env w'"
| reachable_others: "reachable env w \<Longrightarrow> interference w w' \<Longrightarrow> reachable env w'"

lemma server_step_inv: "server_step env w w' \<Longrightarrow> server_inv w \<Longrightarrow> server_inv w'"
  by (elim server_stepE)
    (blast intro: handleReadCacheLookupComplete_inv handlePHPConnectionEvents_inv stream_inv delete_intercept_inv)+

lemma server_inv_initial: "server_inv initial_world"
  by (simp add: server_inv_def initial_world_def)

lemma interference_inv:
  assumes "server_inv w" "interference w w'"
  shows "server_inv w'"
proof (rule server_invI)
  note same = assms(2) [unfolded interference_def]
  show "entry_ok w' rid i c" if "intercept_list w' rid = Some (i, c)" for rid i c
  proof -
    have l: "intercept_list w rid = Some (i, c)" using that same by simp
    note e = server_invD(1) [OF assms(1) l]
    then have "c \<in> own_conns w" "i \<in> own_icpts w" using l by (auto simp: entry_ok_def own_conns_def own_icpts_def)
    then have "conns w' c = conns w c" "icpts w' i = icpts w i" using same by blast+
    then show ?thesis using e same by (auto simp: entry_ok_def)
  qed
  show "td_ok w' td" if "tdata w' = Some td" for td
  proof -
    have td: "tdata w = Some td" using that same by simp
    note ok = server_invD(2) [OF assms(1) td]
    have "conns w' c = conns w c" if "c \<in> set (connections (pool td))" for c
      using that td same by (auto simp: own_conns_def)
    moreover have "icpts w' i = icpts w i" if "i \<in> set (pending_list (pendingReqQueue td))" for i
      using that td same by (auto simp: own_icpts_def)
    ultimately show ?thesis using ok same by (fastforce simp: td_ok_def pool_wf_def)
  qed
  show "plugin_ok w' i" if "AddPlugin t i \<in> set (calls w')" for t i using that same by blast
  show "conns w' a = None \<and> icpts w' a = None" if "next_addr w' \<le> a" for a using that same by blast
  show "0 < next_id w'" by (rule order.strict_trans2 [OF server_invD(5) [OF assms(1)]]) (use same in simp)
  show "threadKey w' = 0 \<longleftrightarrow> tdata w' = None" using server_invD(6) [OF assms(1)] same by simp
qed

lemma reachable_inv: "reachable env w \<Longrightarrow> server_inv w"
  by (induction rule: reachable.induct) (rule server_inv_initial, erule server_step_inv, assumption,
    erule interference_inv, assumption)

text \<open>C6: In every state the server reaches, each entry of its table joins one request that is alive
  and unanswered, under its own id, with one connection of the pool that carries the same id;
  no two requests share a connection, and no request is in the table twice or waits too.\<close>

theorem requests_and_connections_match:
  assumes "reachable env w" "intercept_list w rid = Some (i, c)"
  shows "0 < rid \<and> rid < next_id w \<and>
     (\<exists>icpt. icpts w i = Some icpt \<and> si_request_id icpt = rid \<and> \<not> outputCompleteState icpt) \<and>
     (\<exists>conn. conns w c = Some conn \<and> requestId conn = rid) \<and>
     (\<exists>td. tdata w = Some td \<and> c \<in> busy (pool td) \<and> i \<notin> set (pending_list (pendingReqQueue td))) \<and>
     (\<forall>rid' i' c'. intercept_list w rid' = Some (i', c') \<and> (i' = i \<or> c' = c) \<longrightarrow> rid' = rid)"
proof -
  have inv: "server_inv w" by (rule reachable_inv [OF assms(1)])
  note e = server_invD(1) [OF inv assms(2)]
  have "\<exists>td. tdata w = Some td \<and> c \<in> busy (pool td) \<and> i \<notin> set (pending_list (pendingReqQueue td))"
    using e entry_taken [OF inv assms(2)]
    by (auto simp: entry_ok_def taken_connection_def busy_def erase_entry_def)
  moreover have "rid' = rid" if "intercept_list w rid' = Some (i', c')" "i' = i \<or> c' = c" for rid' i' c'
    using server_invD(1) [OF inv that(1)] that(2) e by (auto simp: entry_ok_def)
  ultimately show ?thesis using e by (auto simp: entry_ok_def)
qed

end
