(* ===== verification/Queue_Steps.thy ===== *)
theory Queue_Steps
  imports Server_Steps
begin

text \<open>
  What a step does to the thread's data: the sizes of pool and queue stay what the settings made them, and the queue
  only grows at its end and is only left at its head, by a request that then has a connection.
\<close>

section \<open>Sizes\<close>

text \<open>How many connections and how many waiting requests the settings allow a thread.\<close>

definition pool_size :: "FcgiPluginConfig \<Rightarrow> nat" where
  "pool_size cfg = unat (word_of_int (getMaxConnLength cfg sdiv 6) :: uint)"

definition queue_size :: "FcgiPluginConfig \<Rightarrow> nat" where
  "queue_size cfg = unat (word_of_int (getRequestQueueSize cfg) :: uint)"

definition sized :: "FcgiPluginConfig \<Rightarrow> ThreadData \<Rightarrow> bool" where
  "sized cfg td \<longleftrightarrow> unat (maxConn (pool td)) = pool_size cfg \<and>
     unat (max_queue_size (pendingReqQueue td)) = queue_size cfg"

lemma sized_new: "sized cfg (new_thread_data cfg)"
  by (simp add: sized_def new_thread_data_def new_pool_def new_queue_def pool_size_def queue_size_def)

lemma pool_size_le:
  assumes "0 \<le> getMaxConnLength cfg"
  shows "int (pool_size cfg) \<le> getMaxConnLength cfg div 6"
proof -
  have "getMaxConnLength cfg sdiv 6 = getMaxConnLength cfg div 6"
    using assms by (cases "getMaxConnLength cfg = 0") (simp_all add: signed_divide_int_def)
  then show ?thesis
    using assms by (simp add: pool_size_def unsigned_of_int take_bit_eq_mod zmod_le_nonneg_dividend)
qed

lemma queue_size_le: "0 \<le> getRequestQueueSize cfg \<Longrightarrow> int (queue_size cfg) \<le> getRequestQueueSize cfg"
  by (simp add: queue_size_def unsigned_of_int take_bit_eq_mod zmod_le_nonneg_dividend)


section \<open>The queue\<close>

definition waiting :: "ThreadData \<Rightarrow> nat list" where
  "waiting td = pending_list (pendingReqQueue td)"

definition at_backend :: "world \<Rightarrow> nat \<Rightarrow> bool" where
  "at_backend w i \<longleftrightarrow> (\<exists>rid c. intercept_list w rid = Some (i, c))"

text \<open>The data \<open>td\<close> of the thread before, the state after.\<close>

definition same_sizes :: "ThreadData \<Rightarrow> ThreadData \<Rightarrow> bool" where
  "same_sizes td td' \<longleftrightarrow> maxConn (pool td') = maxConn (pool td) \<and>
     max_queue_size (pendingReqQueue td') = max_queue_size (pendingReqQueue td)"

definition queued :: "ThreadData \<Rightarrow> world \<Rightarrow> bool" where
  "queued td w \<longleftrightarrow> (\<exists>td' xs. tdata w = Some td' \<and> same_sizes td td' \<and> waiting td' = waiting td @ xs)"

definition head_served :: "ThreadData \<Rightarrow> world \<Rightarrow> bool" where
  "head_served td w \<longleftrightarrow> (\<exists>td' j. tdata w = Some td' \<and> same_sizes td td' \<and> waiting td = j # waiting td' \<and> at_backend w j)"

definition queue_step :: "ThreadData \<Rightarrow> world \<Rightarrow> bool" where
  "queue_step td w \<longleftrightarrow> queued td w \<or> head_served td w"

definition has_room :: "ThreadData \<Rightarrow> bool" where
  "has_room td \<longleftrightarrow> length (connections (pool td)) < unat (maxConn (pool td)) \<or> available_connections (pool td) \<noteq> []"

lemma same_sizes_trans: "same_sizes a b \<Longrightarrow> same_sizes b c \<Longrightarrow> same_sizes a c"
  by (simp add: same_sizes_def)

lemma queued_same: "tdata w = Some td \<Longrightarrow> queued td w"
  by (simp add: queued_def same_sizes_def)

lemma queue_step_same: "tdata w = Some td \<Longrightarrow> queue_step td w"
  by (simp add: queue_step_def queued_same)

lemma queued_trans: "queued td w \<Longrightarrow> (\<And>td'. tdata w = Some td' \<Longrightarrow> queued td' w') \<Longrightarrow> queued td w'"
  unfolding queued_def by (elim exE conjE) (force intro: same_sizes_trans)

lemma queue_step_keeps:
  "queue_step td w \<Longrightarrow> tdata w' = tdata w \<Longrightarrow> intercept_list w' = intercept_list w \<Longrightarrow> queue_step td w'"
  by (simp add: queue_step_def queued_def head_served_def at_backend_def)

lemma head_served_keeps:
  "head_served td w \<Longrightarrow> tdata w' = tdata w \<Longrightarrow> intercept_list w' = intercept_list w \<Longrightarrow> head_served td w'"
  by (simp add: head_served_def at_backend_def)


section \<open>Operations\<close>

lemma connect_queue:
  assumes "connect env i w = Inr (r, w')" "tdata w = Some td"
  shows "queued td w'" "has_room td \<Longrightarrow> \<exists>td'. tdata w' = Some td' \<and> same_sizes td td' \<and> waiting td' = waiting td \<and> at_backend w' i"
proof -
  from assms obtain conn p heap where
    get: "getAvailableConnection (env_cfg env) (next_addr w) (pool td, conns w) = Inr (conn, p, heap)"
    and rest: "(let w = w\<lparr>conns := heap, next_addr := Suc (next_addr w)\<rparr> in
       case conn of
         Some c \<Rightarrow> bindE (initiateBackendConnection env i c (w\<lparr>tdata := Some (td\<lparr>pool := p\<rparr>)\<rparr>)) (\<lambda>w. Inr (0, w))
       | None \<Rightarrow> Inr (0, w\<lparr>tdata := Some (td\<lparr>pool := p,
           pendingReqQueue := snd (addToQueue i (pendingReqQueue td))\<rparr>)\<rparr>)) = Inr (r, w')"
    by (auto simp: connect_def bindE_eq_Inr)
  have p: "maxConn p = maxConn (pool td)" and room: "has_room td \<Longrightarrow> conn \<noteq> None"
    using get by (auto simp: getAvailableConnection_def bindE_eq_Inr has_room_def addConnection_def Let_def split: if_splits)
  have "(\<exists>td'. tdata w' = Some td' \<and> same_sizes td td' \<and> waiting td' = waiting td \<and> at_backend w' i) \<or>
      (conn = None \<and> queued td w')"
  proof (cases conn)
    case None
    then show ?thesis using rest p
      by (auto simp: queued_def same_sizes_def waiting_def addToQueue_def split: if_splits)
  next
    case (Some c)
    then show ?thesis using rest p
      by (auto simp: Let_def bindE_eq_Inr same_sizes_def waiting_def at_backend_def dest!: initiateBackendConnection_facts)
  qed
  then show "queued td w'" "has_room td \<Longrightarrow> \<exists>td'. tdata w' = Some td' \<and> same_sizes td td' \<and> waiting td' = waiting td \<and> at_backend w' i"
    using room by (auto simp: queued_def)
qed

lemma reConnect_queue:
  assumes "reConnect env rid w = Inr w'" "tdata w = Some td"
  shows "queued td w'"
  using assms connect_queue(1) [of env _ "erase_entry rid w" _ w' td]
  by (auto simp: reConnect_def bindE_eq_Inr tdata_erase queued_same split: option.splits)

lemma connectionClosed_queue:
  assumes "connectionClosed c w = Inr w'" "tdata w = Some td"
  shows "queued td w'"
  using assms
  by (auto simp: connectionClosed_def pool_connectionClosed_def bindE_eq_Inr Let_def world_ops queued_def same_sizes_def
      waiting_def)

lemma setState_tdata: "setState c s w = Inr w' \<Longrightarrow> tdata w' = tdata w"
  by (auto simp: setState_def bindE_eq_Inr set_conn_def)

lemma give_up_queue:
  assumes "give_up_connection env c w = Inr w'" "tdata w = Some td"
  shows "queued td w'"
proof -
  from assms(1) obtain conn :: ServerConnection and w1 w2 where run: "reConnect env (requestId conn) w = Inr w1"
    "setState c CLOSED w1 = Inr w2" "connectionClosed c w2 = Inr w'"
    unfolding give_up_connection_def by (elim bindE_InrE) (rule that, assumption+)
  show ?thesis
    by (rule queued_trans [OF reConnect_queue [OF run(1) assms(2)]])
      (rule connectionClosed_queue [OF run(3)], simp add: setState_tdata [OF run(2)])
qed

lemma recycle_queue:
  assumes "recycle c w = Inr w'" "tdata w = Some td" "c \<in> set (connections (pool td))"
    and "length (connections (pool td)) \<le> unat (maxConn (pool td))"
  shows "\<exists>td'. tdata w' = Some td' \<and> same_sizes td td' \<and> waiting td' = waiting td \<and> has_room td'"
proof -
  have "length (removeAll c (connections (pool td))) < unat (maxConn (pool td))"
    using length_removeAll_less [OF assms(3)] assms(4) by simp
  then show ?thesis
    using assms(1,2)
    by (auto simp: recycle_def reuseConnection_def setState_def connectionClosed_def pool_connectionClosed_def
        bindE_eq_Inr world_ops Let_def same_sizes_def waiting_def has_room_def split: if_splits)
qed

text \<open>The end of a request: the first one that waits is served.\<close>

lemma removeIntercept_queue:
  assumes run: "removeIntercept env rid w = Inr w'" and td: "tdata w = Some td"
    and pool: "\<And>i c. intercept_list w rid = Some (i, c) \<Longrightarrow> c \<in> set (connections (pool td))"
      "length (connections (pool td)) \<le> unat (maxConn (pool td))"
  shows "queue_step td w'" "intercept_list w rid \<noteq> None \<Longrightarrow> waiting td \<noteq> [] \<Longrightarrow> head_served td w'"
proof -
  have "(intercept_list w rid = None \<or> waiting td = []) \<and> queued td w' \<or> head_served td w'"
  proof (cases "intercept_list w rid")
    case None
    then show ?thesis using run td by (simp add: removeIntercept_def queued_same)
  next
    case (Some e)
    then obtain i c where l: "intercept_list w rid = Some (i, c)" by (cases e) simp
    then obtain w1 where 1: "recycle c (erase_entry rid w) = Inr w1" "serve_next env w1 = Inr w'"
      using run by (auto simp: removeIntercept_def bindE_eq_Inr)
    from recycle_queue [OF 1(1) _ pool(1) [OF l] pool(2)] td obtain td1 where
      td1: "tdata w1 = Some td1" "same_sizes td td1" "waiting td1 = waiting td" "has_room td1" by (auto simp: tdata_erase)
    show ?thesis
    proof (cases "waiting td")
      case Nil
      then have "w' = w1" using 1(2) td1 by (simp add: serve_next_def popFromQueue_def waiting_def)
      then show ?thesis using Nil td1 by (simp add: queued_def)
    next
      case (Cons j Q)
      let ?td = "td1\<lparr>pendingReqQueue := (pendingReqQueue td1)\<lparr>pending_list := Q\<rparr>\<rparr>"
      obtain r where con: "connect env j (w1\<lparr>tdata := Some ?td\<rparr>) = Inr (r, w')"
        using 1(2) td1 Cons by (auto simp: serve_next_def popFromQueue_def waiting_def bindE_eq_Inr)
      have "has_room ?td" using td1(4) by (simp add: has_room_def)
      then obtain td' where "tdata w' = Some td'" "same_sizes ?td td'" "waiting td' = waiting ?td" "at_backend w' j"
        using connect_queue(2) [OF con] by auto
      then have "head_served td w'"
        using Cons td1(2) by (simp add: head_served_def waiting_def same_sizes_def)
      then show ?thesis by simp
    qed
  qed
  then show "queue_step td w'" "intercept_list w rid \<noteq> None \<Longrightarrow> waiting td \<noteq> [] \<Longrightarrow> head_served td w'"
    by (auto simp: queue_step_def)
qed


section \<open>Handlers\<close>

text \<open>What the operations that end a request need to know of the state: the connections of the table are in the pool.\<close>

lemma pool_entry:
  assumes "server_inv w" "tdata w = Some td"
  shows "intercept_list w rid = Some (i, c) \<Longrightarrow> c \<in> set (connections (pool td))"
    and "length (connections (pool td)) \<le> unat (maxConn (pool td))"
  using server_invD(1,2) [OF assms(1)] assms(2) by (fastforce simp: entry_ok_def td_ok_def pool_wf_def)+

lemma setResponseOutputComplete_queue:
  assumes run: "setResponseOutputComplete env i w = Inr w'" and inv: "server_inv w" and td: "tdata w = Some td"
  shows "queue_step td w'"
    and "icpts w i = Some icpt \<Longrightarrow> intercept_list w (si_request_id icpt) \<noteq> None \<Longrightarrow> waiting td \<noteq> [] \<Longrightarrow> head_served td w'"
proof -
  from run obtain icpt where i: "icpts w i = Some icpt" and
    rem: "removeIntercept env (si_request_id icpt)
      (set_icpt i (icpt\<lparr>outputCompleteState := True\<rparr>) (ats [SetOutputComplete i] w)) = Inr w'"
    by (auto simp: setResponseOutputComplete_def bindE_eq_Inr heap_get_Inr)
  note pop = removeIntercept_queue [OF rem, of td]
  show "queue_step td w'"
    by (rule pop(1)) (use td pool_entry [OF inv td] in \<open>simp_all add: set_icpt_def ats_def\<close>)
  show "icpts w i = Some icpt \<Longrightarrow> intercept_list w (si_request_id icpt) \<noteq> None \<Longrightarrow> waiting td \<noteq> [] \<Longrightarrow> head_served td w'" for icpt
    by (rule pop(2)) (use i td pool_entry [OF inv td] in \<open>simp_all add: set_icpt_def ats_def\<close>)
qed

lemma response_complete_queue:
  assumes run: "response_complete env (Some i) c w = Inr w'" and inv: "server_inv w" and td: "tdata w = Some td"
  shows "queue_step td w'"
    and "icpts w i = Some icpt \<Longrightarrow> intercept_list w (si_request_id icpt) \<noteq> None \<Longrightarrow> waiting td \<noteq> [] \<Longrightarrow> head_served td w'"
proof -
  from run obtain w1 w2 where s: "setState c COMPLETE w = Inr w1"
    and o: "setResponseOutputComplete env i w1 = Inr w2" and w': "w' = TSStatIntIncrement respBegId 1 w2"
    by (auto simp: response_complete_def bindE_eq_Inr)
  have w1: "icpts w1 = icpts w" "intercept_list w1 = intercept_list w" "tdata w1 = Some td"
    using s td by (auto simp: setState_def bindE_eq_Inr set_conn_def)
  note set = setResponseOutputComplete_queue [OF o setState_inv(1) [OF inv s] w1(3)]
  show "queue_step td w'" by (rule queue_step_keeps [OF set(1)]) (simp_all add: w' TSStatIntIncrement_def)
  show "icpts w i = Some icpt \<Longrightarrow> intercept_list w (si_request_id icpt) \<noteq> None \<Longrightarrow> waiting td \<noteq> [] \<Longrightarrow> head_served td w'" for icpt
    by (rule head_served_keeps [OF set(2)]) (use w1 in \<open>simp_all add: w' TSStatIntIncrement_def\<close>)
qed

lemma read_ready_queue:
  assumes run: "on_read_ready env blocks c w = Inr w'" and inv: "server_inv w" and td: "tdata w = Some td"
  shows "queue_step td w'"
    and "conns w c = Some conn \<Longrightarrow> intercept_list w (requestId conn) = Some (i, d) \<Longrightarrow>
      transfer_blocks env blocks False 0 [] (fcgiRequest conn) = Inr (True, n, out, fr) \<Longrightarrow> waiting td \<noteq> [] \<Longrightarrow> head_served td w'"
proof -
  obtain conn where conn: "conns w c = Some conn" using run by (auto simp: on_read_ready_def bindE_eq_Inr heap_get_Inr)
  have "queue_step td w' \<and> (\<forall>i d. intercept_list w (requestId conn) = Some (i, d) \<longrightarrow>
      (\<exists>n out fr. transfer_blocks env blocks False 0 [] (fcgiRequest conn) = Inr (True, n, out, fr)) \<longrightarrow>
      waiting td \<noteq> [] \<longrightarrow> head_served td w')"
  proof (cases "getIntercept (requestId conn) w")
    case None
    then show ?thesis using run conn td by (simp add: on_read_ready_def queue_step_same getIntercept_def)
  next
    case (Some i)
    then obtain d where l: "intercept_list w (requestId conn) = Some (i, d)" by (auto simp: getIntercept_def)
    obtain status w1 where t: "interceptTransferData env i c blocks w = Inr (status, w1)"
      and w': "(if status then response_complete env (Some i) c w1 else Inr w1) = Inr w'"
      using run conn Some by (auto simp: on_read_ready_def bindE_eq_Inr)
    from interceptTransferData_facts [OF t] conn obtain m data fr where
      tr: "transfer_blocks env blocks False 0 [] (fcgiRequest conn) = Inr (status, m, data, fr)"
      and w1: "tdata w1 = tdata w" "icpts w1 = icpts w" by (auto simp: ats_def set_conn_def)
    note t' = interceptTransferData_inv [OF inv t]
    show ?thesis
    proof (cases status)
      case False
      then show ?thesis using w' w1 td tr by (simp add: queue_step_same)
    next
      case True
      then have run: "response_complete env (Some i) c w1 = Inr w'" using w' by simp
      obtain icpt where "icpts w i = Some icpt" "si_request_id icpt = requestId conn"
        using server_invD(1) [OF inv l] by (auto simp: entry_ok_def)
      then show ?thesis
        using response_complete_queue [OF run t'(1), of td] l t'(2) w1 td by simp
    qed
  qed
  then show "queue_step td w'"
    and "conns w c = Some conn \<Longrightarrow> intercept_list w (requestId conn) = Some (i, d) \<Longrightarrow>
      transfer_blocks env blocks False 0 [] (fcgiRequest conn) = Inr (True, n, out, fr) \<Longrightarrow> waiting td \<noteq> [] \<Longrightarrow> head_served td w'"
    for conn i d n out fr using conn by auto
qed

lemma delete_queue:
  assumes run: "delete_intercept env i w = Inr w'" and inv: "server_inv w" and td: "tdata w = Some td"
  shows "queue_step td w'"
    and "intercept_list w rid = Some (i, c) \<Longrightarrow> waiting td \<noteq> [] \<Longrightarrow> head_served td w'"
proof -
  from run obtain icpt w1 where i: "icpts w i = Some icpt" and
    w1: "(if \<not> outputCompleteState icpt
          then removeIntercept env (si_request_id icpt) (set_icpt i (icpt\<lparr>clientAborted := True\<rparr>) w)
          else Inr w) = Inr w1"
    and w': "w' = TSStatIntIncrement respEndId 1 (w1\<lparr>icpts := (icpts w1)(i := None)\<rparr>)"
    by (auto simp: delete_intercept_def bindE_eq_Inr heap_get_Inr)
  have keeps: "tdata w' = tdata w1" "intercept_list w' = intercept_list w1" by (simp_all add: w' TSStatIntIncrement_def)
  have pop: "queue_step td w1 \<and> (intercept_list w (si_request_id icpt) \<noteq> None \<longrightarrow> waiting td \<noteq> [] \<longrightarrow> head_served td w1)"
    if out: "\<not> outputCompleteState icpt"
  proof -
    have rem: "removeIntercept env (si_request_id icpt) (set_icpt i (icpt\<lparr>clientAborted := True\<rparr>) w) = Inr w1"
      using w1 out by simp
    show ?thesis
      using removeIntercept_queue [OF rem, of td] td pool_entry [OF inv td] by (simp add: set_icpt_def)
  qed
  have "queue_step td w1"
    using pop w1 td by (cases "outputCompleteState icpt") (simp_all add: queue_step_same)
  then show "queue_step td w'" by (rule queue_step_keeps [OF _ keeps])
  show "head_served td w'" if l: "intercept_list w rid = Some (i, c)" and q: "waiting td \<noteq> []" for rid c
  proof (rule head_served_keeps [OF _ keeps])
    show "head_served td w1" using server_invD(1) [OF inv l] i l q pop by (auto simp: entry_ok_def)
  qed
qed


lemma quiet_events:
  "on_net_connect env v c w = Inr w' \<Longrightarrow> tdata w' = tdata w"
  "on_write_complete io c w = Inr w' \<Longrightarrow> tdata w' = tdata w"
  "on_write_ready io c w = Inr w' \<Longrightarrow> tdata w' = tdata w"
  by (auto simp: on_net_connect_def on_write_complete_def on_write_ready_def bindE_eq_Inr Let_def world_ops
      split: option.splits if_splits)

lemma quiet_streams:
  "write_request io rid f e w = Inr (ok, w') \<Longrightarrow> tdata w' = tdata w"
  "consume io i data type w = Inr w' \<Longrightarrow> tdata w' = tdata w"
  "handleInputComplete io i w = Inr w' \<Longrightarrow> tdata w' = tdata w"
proof -
  show wr: "write_request io rid f e w = Inr (ok, w') \<Longrightarrow> tdata w' = tdata w" for rid f e ok w'
    by (auto simp: write_request_def bindE_eq_Inr addClientRequest_def Let_def world_ops split: option.splits)
  show "consume io i data type w = Inr w' \<Longrightarrow> tdata w' = tdata w"
    by (auto simp: consume_def streamReqHeader_def streamReqBody_def writeRequestHeader_def writeRequestBody_def
        bindE_eq_Inr set_icpt_def dest!: wr split: if_splits)
  show "handleInputComplete io i w = Inr w' \<Longrightarrow> tdata w' = tdata w"
    by (auto simp: handleInputComplete_def writeRequestBodyComplete_def bindE_eq_Inr set_icpt_def dest!: wr
        split: if_splits)
qed

lemma on_eos_queue:
  assumes run: "on_eos env c w = Inr w'" and td: "tdata w = Some td"
  shows "queued td w'"
proof -
  obtain conn where conn: "conns w c = Some conn" using run by (auto simp: on_eos_def bindE_eq_Inr heap_get_Inr)
  show ?thesis
  proof (cases "readEnable (writeio conn)")
    case False
    then show ?thesis using run conn give_up_queue [OF _ td] by (simp add: on_eos_def)
  next
    case True
    then obtain w1 w2 where "w1 = w \<or> (\<exists>t. w1 = ats [TxnError t] w)"
      "setState c CLOSED w1 = Inr w2" "connectionClosed c w2 = Inr w'"
      using run conn by (auto simp: on_eos_def bindE_eq_Inr split: if_splits option.splits)
    then show ?thesis using connectionClosed_queue td setState_tdata [of c CLOSED w1 w2] by (auto simp: ats_def)
  qed
qed

lemma on_error_queue:
  assumes run: "on_error env c w = Inr w'" and td: "tdata w = Some td"
  shows "queued td w'"
proof -
  from run obtain conn :: ServerConnection and v w1 where
    w1: "(case getIntercept (requestId conn) (ats [VConnAbort v] w) of
              None \<Rightarrow> Inr (ats [VConnAbort v] w)
            | Some i \<Rightarrow>
                bindE (setState c CLOSED (ats [VConnAbort v] w)) (\<lambda>w.
                bindE (heap_get i (icpts w)) (\<lambda>icpt.
                  Inr (ats [SetStatusCode (txn icpt) HTTP_STATUS_BAD_GATEWAY, TxnError (txn icpt)] w)))) = Inr w1"
    and close: "connectionClosed c w1 = Inr w'"
    by (auto simp: on_error_def bindE_eq_Inr Let_def)
  have "tdata w1 = tdata w"
    using w1 by (auto simp: bindE_eq_Inr ats_def dest!: setState_tdata split: option.splits)
  then show ?thesis using connectionClosed_queue [OF close] td by simp
qed

lemma event_queue:
  assumes run: "handlePHPConnectionEvents env io ev c w = Inr w'" and inv: "server_inv w" and td: "tdata w = Some td"
  shows "queue_step td w'"
proof (cases ev)
  case VCONN_READ_COMPLETE
  then obtain conn where "conns w c = Some conn" "response_complete env (getIntercept (requestId conn) w) c w = Inr w'"
    using run by (auto simp: handlePHPConnectionEvents_def on_read_complete_def bindE_eq_Inr heap_get_Inr)
  moreover then obtain i where "getIntercept (requestId conn) w = Some i"
    by (auto simp: response_complete_def bindE_eq_Inr deref_eq_Inr)
  ultimately show ?thesis using response_complete_queue(1) inv td by simp
next
  case NET_CONNECT_FAILED
  then have "give_up_connection env c (TSStatIntIncrement phpConnCount 1 w) = Inr w'"
    using run by (simp add: handlePHPConnectionEvents_def on_connect_failed_def)
  then show ?thesis using give_up_queue td by (simp add: queue_step_def)
next
  case VCONN_EOS
  then show ?thesis using run on_eos_queue [OF _ td] by (simp add: handlePHPConnectionEvents_def queue_step_def)
next
  case NET_ERROR
  then show ?thesis using run on_error_queue [OF _ td] by (simp add: handlePHPConnectionEvents_def queue_step_def)
next
  case (VCONN_READ_READY blocks)
  then show ?thesis using run read_ready_queue(1) [OF _ inv td] by (simp add: handlePHPConnectionEvents_def)
next
  case (NET_CONNECT v)
  then show ?thesis using run td by (intro queue_step_same) (simp add: handlePHPConnectionEvents_def quiet_events)
next
  case VCONN_WRITE_READY
  then show ?thesis using run td by (intro queue_step_same) (simp add: handlePHPConnectionEvents_def quiet_events)
next
  case VCONN_WRITE_COMPLETE
  then show ?thesis using run td by (intro queue_step_same) (simp add: handlePHPConnectionEvents_def quiet_events)
next
  case OTHER_EVENT
  then show ?thesis using run td by (intro queue_step_same) (simp add: handlePHPConnectionEvents_def)
qed

lemma request_queue:
  assumes run: "handleReadCacheLookupComplete env rs tr self w = Some (Inr w')" and inv: "server_inv w"
    and td: "tdata w = Some td"
  shows "queue_step td w'"
  using handleReadCacheLookupComplete_cases [OF run]
proof (elim disjE exE conjE)
  fix t i w2 w3 r
  assume new: "new_icpt env t (TSStatIntIncrement reqBegId 1 w) = (i, w2)"
    and w3: "(if threadKey w2 = 0 then setup_loop (env_cfg env) rs w2 else Some w2) = Some w3"
    and con: "connect env i w3 = Inr (r, w')"
  have "threadKey w2 \<noteq> 0" "tdata w2 = Some td"
    using new server_invD(6) [OF inv] td by (auto simp: new_icpt_def set_icpt_def)
  then show ?thesis using w3 connect_queue(1) [OF con] by (simp add: queue_step_def)
qed (use td in \<open>simp_all add: queue_step_same ats_def\<close>)

text \<open>Whatever happens, the queue is left only at its head, by a request that is served.\<close>

lemma server_step_queue:
  assumes "server_step env w w'" "server_inv w" "tdata w = Some td"
  shows "queue_step td w'"
  using assms(1)
proof cases
  case (step_request rs tr self)
  then show ?thesis using request_queue assms(2,3) by blast
next
  case (step_event c conn io ev)
  then show ?thesis using event_queue assms(2,3) by blast
next
  case (step_consume t i io data type)
  then show ?thesis using assms(3) by (intro queue_step_same) (simp add: quiet_streams)
next
  case (step_complete t i io)
  then show ?thesis using assms(3) by (intro queue_step_same) (simp add: quiet_streams)
next
  case (step_delete t i)
  then show ?thesis using delete_queue(1) assms(2,3) by blast
qed


section \<open>The settings\<close>

text \<open>Before its first request a thread has no data, and no other handler makes them.\<close>

lemma no_data_no_entries:
  assumes "server_inv w" "tdata w = None"
  shows "intercept_list w rid = None"
  using server_invD(1) [OF assms(1), of rid] assms(2) by (cases "intercept_list w rid") (auto simp: entry_ok_def)

lemma reConnect_no_data:
  assumes "server_inv w" "tdata w = None"
  shows "reConnect env rid w = Inr w"
  by (simp add: reConnect_def getIntercept_def no_data_no_entries [OF assms])

lemma no_data_close: "tdata w = None \<Longrightarrow> connectionClosed c w \<noteq> Inr w'"
  by (auto simp: connectionClosed_def bindE_eq_Inr Let_def tdata_erase)

lemma no_data_give_up:
  assumes "server_inv w" "tdata w = None"
  shows "give_up_connection env c w \<noteq> Inr w'"
  using no_data_close setState_tdata [of c CLOSED w] assms(2)
  by (auto simp: give_up_connection_def bindE_eq_Inr reConnect_no_data [OF assms])

lemma event_no_data:
  assumes "handlePHPConnectionEvents env io ev c w = Inr w'" "server_inv w" "tdata w = None"
  shows "tdata w' = None"
proof -
  have none: "getIntercept rid w = None" for rid by (simp add: getIntercept_def no_data_no_entries [OF assms(2,3)])
  show ?thesis
  proof (cases ev)
    case NET_CONNECT_FAILED
    then show ?thesis using assms no_data_give_up [of "TSStatIntIncrement phpConnCount 1 w"]
      by (simp add: handlePHPConnectionEvents_def on_connect_failed_def)
  next
    case VCONN_READ_COMPLETE
    then show ?thesis using assms(1) none
      by (auto simp: handlePHPConnectionEvents_def on_read_complete_def response_complete_def bindE_eq_Inr)
  next
    case VCONN_EOS
    then show ?thesis using assms none no_data_give_up [OF assms(2,3)] no_data_close setState_tdata
      by (fastforce simp: handlePHPConnectionEvents_def on_eos_def bindE_eq_Inr split: if_splits)
  next
    case NET_ERROR
    then show ?thesis using assms none no_data_close
      by (fastforce simp: handlePHPConnectionEvents_def on_error_def bindE_eq_Inr getIntercept_def ats_def)
  qed (use assms none quiet_events in \<open>auto simp: handlePHPConnectionEvents_def on_read_ready_def bindE_eq_Inr\<close>)
qed

lemma setup_loop_data:
  "setup_loop cfg rs w = Some w' \<Longrightarrow> tdata w' = Some (new_thread_data cfg)"
  by (induction cfg rs w rule: setup_loop.induct)
    (auto simp: setupThreadLocalStorage_def split: key_result.splits if_splits prod.splits)

definition data_sized :: "FcgiPluginConfig \<Rightarrow> world \<Rightarrow> bool" where
  "data_sized cfg w \<longleftrightarrow> (\<forall>td. tdata w = Some td \<longrightarrow> sized cfg td)"

lemma queue_step_sized: "queue_step td w \<Longrightarrow> sized cfg td \<Longrightarrow> data_sized cfg w"
  by (auto simp: queue_step_def queued_def head_served_def same_sizes_def sized_def data_sized_def)

lemma request_sized:
  assumes run: "handleReadCacheLookupComplete env rs tr self w = Some (Inr w')" and "server_inv w" "tdata w = None"
  shows "data_sized (env_cfg env) w'"
  using handleReadCacheLookupComplete_cases [OF run]
proof (elim disjE exE conjE)
  fix t i w2 w3 r
  assume new: "new_icpt env t (TSStatIntIncrement reqBegId 1 w) = (i, w2)"
    and w3: "(if threadKey w2 = 0 then setup_loop (env_cfg env) rs w2 else Some w2) = Some w3"
    and con: "connect env i w3 = Inr (r, w')"
  have "threadKey w2 = 0" using new server_invD(6) [OF assms(2)] assms(3) by (auto simp: new_icpt_def set_icpt_def)
  then have "queue_step (new_thread_data (env_cfg env)) w'"
    using w3 connect_queue(1) [OF con] setup_loop_data by (simp add: queue_step_def)
  then show ?thesis using sized_new by (rule queue_step_sized)
qed (use assms(3) in \<open>simp_all add: data_sized_def ats_def\<close>)

lemma server_step_no_data:
  assumes "server_step env w w'" "server_inv w" "tdata w = None"
  shows "data_sized (env_cfg env) w'"
  using assms(1)
proof cases
  case (step_request rs tr self)
  then show ?thesis using request_sized assms(2,3) by blast
next
  case (step_event c conn io ev)
  then show ?thesis using event_no_data [OF _ assms(2,3)] by (simp add: data_sized_def)
next
  case (step_consume t i io data type)
  then show ?thesis using assms(3) quiet_streams(2) by (simp add: data_sized_def)
next
  case (step_complete t i io)
  then show ?thesis using assms(3) quiet_streams(3) by (simp add: data_sized_def)
next
  case (step_delete t i)
  have "removeIntercept env rid (set_icpt i icpt w) = Inr (set_icpt i icpt w)" for rid icpt
    using no_data_no_entries [OF assms(2,3)] by (simp add: removeIntercept_def set_icpt_def)
  then show ?thesis
    using step_delete assms(3)
    by (auto simp: delete_intercept_def bindE_eq_Inr data_sized_def set_icpt_def TSStatIntIncrement_def split: if_splits)
qed

lemma reachable_sized: "reachable env w \<Longrightarrow> data_sized (env_cfg env) w"
proof (induction rule: reachable.induct)
  case reachable_initial
  then show ?case by (simp add: data_sized_def initial_world_def)
next
  case (reachable_step w w')
  note inv = reachable_inv [OF reachable_step(1)]
  show ?case
  proof (cases "tdata w")
    case None
    then show ?thesis using server_step_no_data reachable_step(2) inv by blast
  next
    case (Some td)
    then show ?thesis
      using queue_step_sized [OF server_step_queue [OF reachable_step(2) inv Some]] reachable_step.IH by (simp add: data_sized_def)
  qed
next
  case (reachable_others w w')
  then show ?case by (simp add: data_sized_def interference_def)
qed


section \<open>Bounds\<close>

text \<open>C17: The pool of a thread never holds more connections than the quotient of \<open>max_connections\<close> by 6, as an unsigned
  number of 32 bits, which is at most \<open>max_connections\<close> / 6 for a setting that is not negative; each of them
  exists, and the idle ones work for no request. The queue holds no more requests than the setting \<open>request_queue_size\<close>,
  likewise, and none of them twice.\<close>

theorem pool_and_queue_bounded:
  assumes "reachable env w" "tdata w = Some td"
  shows "length (connections (pool td)) \<le> unat (word_of_int (getMaxConnLength (env_cfg env) sdiv 6) :: uint) \<and>
     (0 \<le> getMaxConnLength (env_cfg env) \<longrightarrow> int (length (connections (pool td))) \<le> getMaxConnLength (env_cfg env) div 6) \<and>
     (\<forall>c\<in>set (connections (pool td)). conns w c \<noteq> None) \<and>
     (\<forall>c\<in>set (available_connections (pool td)). c \<in> set (connections (pool td)) \<and>
        (\<forall>rid i. intercept_list w rid \<noteq> Some (i, c))) \<and>
     distinct (connections (pool td)) \<and> distinct (pending_list (pendingReqQueue td)) \<and>
     length (pending_list (pendingReqQueue td)) \<le> unat (word_of_int (getRequestQueueSize (env_cfg env)) :: uint) \<and>
     (0 \<le> getRequestQueueSize (env_cfg env) \<longrightarrow>
        int (length (pending_list (pendingReqQueue td))) \<le> getRequestQueueSize (env_cfg env))"
proof -
  have inv: "server_inv w" by (rule reachable_inv [OF assms(1)])
  have ok: "td_ok w td" by (rule server_invD(2) [OF inv assms(2)])
  have "sized (env_cfg env) td" using reachable_sized [OF assms(1)] assms(2) by (simp add: data_sized_def)
  then have sizes: "length (connections (pool td)) \<le> pool_size (env_cfg env)"
      "length (pending_list (pendingReqQueue td)) \<le> queue_size (env_cfg env)"
    using ok by (auto simp: sized_def td_ok_def pool_wf_def)
  have "0 \<le> getMaxConnLength (env_cfg env) \<longrightarrow> int (length (connections (pool td))) \<le> getMaxConnLength (env_cfg env) div 6"
    using sizes(1) pool_size_le [of "env_cfg env"] by linarith
  moreover have "0 \<le> getRequestQueueSize (env_cfg env) \<longrightarrow>
      int (length (pending_list (pendingReqQueue td))) \<le> getRequestQueueSize (env_cfg env)"
    using sizes(2) queue_size_le [of "env_cfg env"] by linarith
  moreover have "intercept_list w rid \<noteq> Some (i, c)"
    if "c \<in> set (available_connections (pool td))" for c rid i
    using ok that server_invD(1) [OF inv, of rid i c] by (fastforce simp: td_ok_def entry_ok_def)
  ultimately show ?thesis
    using ok sizes by (auto simp: td_ok_def pool_wf_def pool_size_def queue_size_def)
qed

end
