(* ===== verification/Fcgi_Decoding.thy ===== *)
theory Fcgi_Decoding
  imports Fcgi_Response
begin

text \<open>
  What the record parser of \<open>Fcgi_Response\<close> promises: fed with chunks of a stream it
  delivers the records the FastCGI specification reads from that stream, in order, no matter
  how the stream is cut, except for one hole, which is characterised too: a chunk that ends inside
  the rest of a record's padding.
\<close>

section \<open>Specification\<close>

text \<open>
  A record is ready when all of its bytes are there. The parser looks at the bytes behind the
  header before it finishes a record, so a record that is only a header is ready when one
  more byte has come.
\<close>

definition ready_record :: "bytes \<Rightarrow> (fcgi_record \<times> bytes) option" where
  "ready_record bs =
     (case read_record bs of
        None \<Rightarrow> None
      | Some ((h, c, p), rest) \<Rightarrow>
          if c = [] \<and> p = [] \<and> rest = [] then None else Some ((h, c, p), rest))"

lemma ready_record_shorter: "ready_record bs = Some (x, rest) \<Longrightarrow> length rest < length bs"
  by (auto simp: ready_record_def read_record_def Let_def split: option.splits if_splits
      elim!: read_header.elims)

function records_of :: "bytes \<Rightarrow> fcgi_record list \<times> bytes" where
  "records_of bs =
     (case ready_record bs of
        None \<Rightarrow> ([], bs)
      | Some (x, rest) \<Rightarrow> (let (xs, left) = records_of rest in (x # xs, left)))"
  by pat_completeness auto
termination
  by (relation "measure length") (auto dest: ready_record_shorter)

declare records_of.simps [simp del]

fun respond :: "(bytes \<Rightarrow> mime_result) \<Rightarrow> bytes \<Rightarrow> bool \<Rightarrow> fcgi_record list \<Rightarrow> bool \<times> bytes" where
  "respond mime http_1_1 first [] = (False, [])"
| "respond mime http_1_1 first ((h, c, p) # xs) =
     (let start = (if first then status_line mime http_1_1 c else []) in
      if h_type h = FCGI_STDERR then (True, start @ server_error @ c)
      else if h_type h = FCGI_END_REQUEST then (True, start)
      else let (finished, out) = respond mime http_1_1 False xs
           in (finished, start @ (if h_type h = FCGI_STDOUT then c else []) @ out))"


section \<open>The bytes a parser state stands for\<close>

inductive received :: "uchar \<Rightarrow> FCGIRecordList \<Rightarrow> bytes \<Rightarrow> bool" for junk where
  received_done: "rl_state rec = fcgi_state_done \<Longrightarrow> received junk rec []"
| received_header:
    "rl_state rec \<le> fcgi_state_content_begin \<Longrightarrow> rl_offset rec = 0 \<Longrightarrow>
     length p = state_int (rl_state rec) \<Longrightarrow> take (length p) (header_bytes (rl_header rec)) = p \<Longrightarrow>
     received junk rec p"
| received_content:
    "rl_state rec = fcgi_state_content_proc \<Longrightarrow> rl_length rec = content_len (rl_header rec) \<Longrightarrow>
     rl_offset rec = length c \<Longrightarrow> length c < rl_length rec \<Longrightarrow>
     rl_content rec = c @ ts_malloc junk (rl_length rec - length c) \<Longrightarrow>
     received junk rec (header_bytes (rl_header rec) @ c)"
| received_padding:
    "rl_state rec = fcgi_state_padding \<Longrightarrow> rl_length rec = content_len (rl_header rec) \<Longrightarrow>
     rl_content rec = c \<Longrightarrow> length c = rl_length rec \<Longrightarrow> rl_offset rec = length c + length q \<Longrightarrow>
     length q < padding_len (rl_header rec) \<Longrightarrow> c @ q \<noteq> [] \<Longrightarrow>
     received junk rec (header_bytes (rl_header rec) @ c @ q)"

text \<open>The record is complete, but for the place of \<open>beg_buf\<close>.\<close>

definition holds_record :: "FCGIRecordList \<Rightarrow> FCGI_Header \<Rightarrow> bytes \<Rightarrow> bool" where
  "holds_record rec h c \<longleftrightarrow> rl_state rec = fcgi_state_done \<and> rl_header rec = h \<and>
     rl_content rec = c \<and> rl_length rec = length c"

lemma received_new: "received junk new_record []"
  by (rule received_header) (simp_all add: new_record_def state_less_simps)

lemma received_fresh: "received junk rec p \<Longrightarrow> received junk (fresh_if_done rec) p"
proof (induction rule: received.induct)
  case (received_header rec p)
  then show ?case
    by (auto simp: fresh_if_done_def state_less_simps intro: received.received_header)
qed (auto simp: fresh_if_done_def received_new intro: received.intros)


section \<open>The header\<close>

lemma fcgiProcessHeader_received:
  assumes "rl_state rec < fcgi_state_content_begin" "length p = state_int (rl_state rec)"
    "take (length p) (header_bytes (rl_header rec)) = p"
  shows "take (Suc (length p)) (header_bytes (rl_header (snd (fcgiProcessHeader ch rec)))) = p @ [ch]"
proof -
  have "\<exists>h. rl_header rec = h \<and> p = take (state_int (rl_state rec)) (header_bytes h)"
    using assms by auto
  with assms show ?thesis
    by (cases "rl_state rec") (auto simp: fcgiProcessHeader_def Let_def state_less_simps header_bytes_def)
qed

lemma fcgiProcessHeader_offset [simp]:
  "rl_offset (snd (fcgiProcessHeader ch rec)) = rl_offset rec"
  by (simp add: fcgiProcessHeader_def Let_def split: FCGI_State.splits)

lemma state_begin_iff: "state_int s = 8 \<longleftrightarrow> s = fcgi_state_content_begin"
  by (cases s) simp_all

lemma header_loop_received:
  assumes "rl_state rec < fcgi_state_content_begin" "rl_offset rec = 0"
    "length p = state_int (rl_state rec)" "take (length p) (header_bytes (rl_header rec)) = p"
    "bs \<noteq> []"
  shows "\<exists>rec'. header_loop bs rec =
           (if length p + length bs \<le> 8 then Inr (Some FCGI_PROCESS_AGAIN, [], rec')
            else Inr (None, drop (8 - length p) bs, rec')) \<and>
         rl_state rec' \<le> fcgi_state_content_begin \<and> rl_offset rec' = 0 \<and>
         state_int (rl_state rec') = min 8 (length p + length bs) \<and>
         take (state_int (rl_state rec')) (header_bytes (rl_header rec')) = take 8 (p @ bs)"
  using assms
proof (induction bs arbitrary: rec p)
  case (Cons ch bs)
  obtain rec1 where step: "fcgiProcessHeader ch rec = (FCGI_PROCESS_AGAIN, rec1)"
    using fcgiProcessHeader_again(1) [OF Cons.prems(1), of ch] by (metis prod.collapse)
  have n: "state_int (rl_state rec1) = Suc (length p)"
    using fcgiProcessHeader_again(2) [OF Cons.prems(1), of ch] step Cons.prems(3) by simp
  have t: "take (Suc (length p)) (header_bytes (rl_header rec1)) = p @ [ch]"
    using fcgiProcessHeader_received [OF Cons.prems(1,3,4), of ch] step by simp
  have o: "rl_offset rec1 = 0"
    using fcgiProcessHeader_offset [of ch rec] step Cons.prems(2) by simp
  have small: "length p < 8" using Cons.prems(1,3) by (simp add: state_less_simps)
  show ?case
  proof (cases "bs = []")
    case True
    then show ?thesis
      using Cons.prems step n t o small by (auto simp: state_less_simps)
  next
    case more: False
    show ?thesis
    proof (cases "length p = 7")
      case True
      with n have "rl_state rec1 = fcgi_state_content_begin" by (simp add: state_begin_iff)
      with True more Cons.prems step n t o show ?thesis
        by (cases bs) (auto simp: state_less_simps)
    next
      case False
      with n small have "rl_state rec1 < fcgi_state_content_begin" by (simp add: state_less_simps)
      from Cons.IH [OF this o _ _ more, of "p @ [ch]"] n t
      obtain rec' where "header_loop bs rec1 =
           (if length (p @ [ch]) + length bs \<le> 8 then Inr (Some FCGI_PROCESS_AGAIN, [], rec')
            else Inr (None, drop (8 - length (p @ [ch])) bs, rec'))"
         "rl_state rec' \<le> fcgi_state_content_begin" "rl_offset rec' = 0"
         "state_int (rl_state rec') = min 8 (length (p @ [ch]) + length bs)"
         "take (state_int (rl_state rec')) (header_bytes (rl_header rec')) = take 8 ((p @ [ch]) @ bs)"
        by auto
      moreover have "drop (8 - length p) (ch # bs) = drop (8 - Suc (length p)) bs"
        using small by (simp add: drop_Cons' )
      ultimately show ?thesis
        using step more Cons.prems(1) by (auto simp: drop_Cons')
    qed
  qed
qed simp


section \<open>The content\<close>

lemma unat_fcgiHeaderGetContentLen: "unat (fcgiHeaderGetContentLen h) = content_len h"
proof -
  have "fcgiHeaderGetContentLen h = of_nat (content_len h)"
    by (simp add: fcgiHeaderGetContentLen_def content_len_def push_bit_eq_mult of_nat_unat)
  moreover have "content_len h < 2 ^ 32"
    using content_len_bound [of h] by simp
  ultimately show ?thesis by (simp add: unat_of_nat)
qed

lemma ready_record_header:
  "ready_record (header_bytes h @ x) =
     (let n = content_len h; k = padding_len h in
      if length x < n + k \<or> x = [] then None
      else Some ((h, take n x, take k (drop n x)), drop (n + k) x))"
  by (auto simp: ready_record_def read_record_def Let_def)

lemma ready_record_short: "length bs \<le> 8 \<Longrightarrow> ready_record bs = None"
proof (cases "length bs = 8")
  case True
  have "\<exists>h. bs = header_bytes h"
  proof (cases bs rule: read_header.cases)
    case (1 v t i1 i0 c1 c0 p r rest)
    with True show ?thesis
      by (intro exI [of _ "\<lparr>h_version = v, h_type = t, h_requestIdB1 = i1, h_requestIdB0 = i0,
            h_contentLengthB1 = c1, h_contentLengthB0 = c0, h_paddingLength = p,
            h_reserved = r\<rparr>"]) (simp add: header_bytes_def)
  qed (use True in auto)
  then obtain h where "bs = header_bytes h" ..
  then show ?thesis using ready_record_header [of h "[]"] by simp
qed (auto simp: ready_record_def read_record_def elim!: read_header.elims split: option.splits)

lemma take_replicate_content:
  "length c + length x \<le> n \<Longrightarrow>
   mem_write (length c) x (c @ ts_malloc junk (n - length c)) =
     Inr ((c @ x) @ ts_malloc junk (n - length (c @ x)))"
  by (simp add: mem_write_ok ts_malloc_def)

lemma fcgiProcessContent_received:
  assumes "rl_state rec = fcgi_state_content_proc" "rl_length rec = content_len (rl_header rec)"
    "rl_offset rec = length c" "length c \<le> rl_length rec"
    "rl_content rec = c @ ts_malloc junk (rl_length rec - length c)"
    "c @ bs \<noteq> []"
  shows "case ready_record (header_bytes (rl_header rec) @ c @ bs) of
           None \<Rightarrow> \<exists>rec'. fcgiProcessContent bs rec = Inr (FCGI_PROCESS_AGAIN, Some [], rec') \<and>
             rl_state rec' \<noteq> fcgi_state_done \<and>
             received junk rec' (header_bytes (rl_header rec) @ c @ bs)
         | Some ((h, c', q), rest) \<Rightarrow>
             \<exists>rec'. fcgiProcessContent bs rec = Inr (FCGI_PROCESS_DONE, Some rest, rec') \<and>
               holds_record rec' h c'"
proof -
  define n k where "n = rl_length rec" and "k = padding_len (rl_header rec)"
  note defs = n_def k_def
  show ?thesis
  proof (cases "n \<le> length c + length bs")
    case full: True
    have w: "mem_write (length c) (take (n - length c) bs) (rl_content rec) =
        Inr (c @ take (n - length c) bs)"
      using take_replicate_content [of c "take (n - length c) bs" n junk] full assms defs
      by (simp add: ts_malloc_def)
    show ?thesis
    proof (cases "n + k \<le> length c + length bs")
      case True
      then show ?thesis
        using full w assms defs
        by (auto simp: ready_record_header Let_def fcgiProcessContent_def advance_def holds_record_def)
    next
      case False
      define rec' where "rec' = rec\<lparr>rl_content := c @ take (n - length c) bs,
          rl_state := fcgi_state_padding, rl_offset := length c + length bs\<rparr>"
      have run: "fcgiProcessContent bs rec = Inr (FCGI_PROCESS_AGAIN, Some [], rec')"
        using False full w assms defs
        by (auto simp: fcgiProcessContent_def Let_def rec'_def)
      have "received junk rec' (header_bytes (rl_header rec') @ (c @ take (n - length c) bs) @
              drop (n - length c) bs)"
        by (rule received_padding) (use False full assms defs in \<open>auto simp: rec'_def\<close>)
      with run show ?thesis
        using False assms defs by (auto simp: ready_record_header Let_def rec'_def)
    qed
  next
    case part: False
    have w: "mem_write (length c) bs (rl_content rec) =
        Inr ((c @ bs) @ ts_malloc junk (n - length (c @ bs)))"
      using take_replicate_content [of c bs n junk] part assms defs by simp
    define rec' where "rec' = rec\<lparr>rl_content := (c @ bs) @ ts_malloc junk (n - length (c @ bs)),
        rl_offset := length c + length bs\<rparr>"
    have run: "fcgiProcessContent bs rec = Inr (FCGI_PROCESS_AGAIN, Some [], rec')"
      using part w assms defs
      by (auto simp: fcgiProcessContent_def Let_def rec'_def)
    have "received junk rec' (header_bytes (rl_header rec') @ (c @ bs))"
      by (rule received_content) (use part assms defs in \<open>auto simp: rec'_def\<close>)
    with run show ?thesis
      using part assms defs by (auto simp: ready_record_header Let_def rec'_def)
  qed
qed


section \<open>One call of fcgiProcessRecord\<close>

text \<open>The chunk ends inside the rest of the padding of a record whose content is complete.\<close>

definition overrun :: "FCGIRecordList \<Rightarrow> bytes \<Rightarrow> bool" where
  "overrun rec bs \<longleftrightarrow> rl_state rec = fcgi_state_padding \<and>
     rl_offset rec + length bs < rl_length rec + padding_len (rl_header rec)"

lemma header_loop_skip:
  "\<not> rl_state rec < fcgi_state_content_begin \<Longrightarrow> header_loop bs rec = Inr (None, bs, rec)"
  by (cases bs) simp_all

text \<open>The record with its content allocated.\<close>

definition with_content :: "uchar \<Rightarrow> FCGIRecordList \<Rightarrow> FCGIRecordList" where
  "with_content junk rec =
     rec\<lparr>rl_length := content_len (rl_header rec),
         rl_content := ts_malloc junk (content_len (rl_header rec)),
         rl_state := fcgi_state_content_proc\<rparr>"

lemma fcgiProcessRecord_begin:
  "header_loop bs rec = Inr (None, bs', rec') \<Longrightarrow> rl_state rec' = fcgi_state_content_begin \<Longrightarrow>
   fcgiProcessRecord junk bs rec = fcgiProcessContent bs' (with_content junk rec')"
  by (simp add: fcgiProcessRecord_def Let_def unat_fcgiHeaderGetContentLen with_content_def)

lemma fcgiProcessContent_begin:
  assumes "rl_offset rec = 0" "bs \<noteq> []"
  shows "case ready_record (header_bytes (rl_header rec) @ bs) of
           None \<Rightarrow> \<exists>rec'. fcgiProcessContent bs (with_content junk rec) =
               Inr (FCGI_PROCESS_AGAIN, Some [], rec') \<and> rl_state rec' \<noteq> fcgi_state_done \<and>
             received junk rec' (header_bytes (rl_header rec) @ bs)
         | Some ((h, c', q), rest) \<Rightarrow>
             \<exists>rec'. fcgiProcessContent bs (with_content junk rec) =
                 Inr (FCGI_PROCESS_DONE, Some rest, rec') \<and> holds_record rec' h c'"
  using fcgiProcessContent_received [of "with_content junk rec" "[]" junk bs] assms
  by (simp add: with_content_def cong del: option.case_cong_weak)

lemma fcgiProcessRecord_received:
  assumes "received junk rec p" "rl_state rec \<noteq> fcgi_state_done" "bs \<noteq> []" "\<not> overrun rec bs"
  shows "case ready_record (p @ bs) of
           None \<Rightarrow> \<exists>rec'. fcgiProcessRecord junk bs rec = Inr (FCGI_PROCESS_AGAIN, Some [], rec') \<and>
             rl_state rec' \<noteq> fcgi_state_done \<and> received junk rec' (p @ bs)
         | Some ((h, c, q), rest) \<Rightarrow>
             \<exists>rec'. fcgiProcessRecord junk bs rec = Inr (FCGI_PROCESS_DONE, Some rest, rec') \<and>
               holds_record rec' h c"
  using assms(1)
proof cases
  case received_header
  show ?thesis
  proof (cases "rl_state rec < fcgi_state_content_begin")
    case True
    from header_loop_received [OF True received_header(2-4) \<open>bs \<noteq> []\<close>]
    obtain rec' where loop: "header_loop bs rec =
         (if length p + length bs \<le> 8 then Inr (Some FCGI_PROCESS_AGAIN, [], rec')
          else Inr (None, drop (8 - length p) bs, rec'))"
      and st: "rl_state rec' \<le> fcgi_state_content_begin" "rl_offset rec' = 0"
        "state_int (rl_state rec') = min 8 (length p + length bs)"
        "take (state_int (rl_state rec')) (header_bytes (rl_header rec')) = take 8 (p @ bs)"
      by blast
    show ?thesis
    proof (cases "length p + length bs \<le> 8")
      case True
      have "received junk rec' (p @ bs)"
        by (rule received.received_header) (use True st in \<open>auto simp: min_def\<close>)
      moreover have "rl_state rec' \<noteq> fcgi_state_done"
        using st(1) by (auto simp: state_less_simps)
      ultimately show ?thesis
        using True loop ready_record_short [of "p @ bs"] by (simp add: fcgiProcessRecord_def)
    next
      case False
      with st have at_begin: "rl_state rec' = fcgi_state_content_begin" by (simp add: state_begin_iff)
      have small: "length p < 8" using True received_header(3) by (simp add: state_less_simps)
      have "header_bytes (rl_header rec') = take 8 (p @ bs)"
        using st(4) at_begin by simp
      then have "p @ bs = header_bytes (rl_header rec') @ drop (8 - length p) bs"
        using small append_take_drop_id [of 8 "p @ bs"] by simp
      moreover have "fcgiProcessRecord junk bs rec =
          fcgiProcessContent (drop (8 - length p) bs) (with_content junk rec')"
        using loop False at_begin by (intro fcgiProcessRecord_begin) simp_all
      moreover have "drop (8 - length p) bs \<noteq> []" using False small by simp
      ultimately show ?thesis
        using fcgiProcessContent_begin [of rec' "drop (8 - length p) bs" junk] st(2) 
    by (simp cong del: option.case_cong_weak)
    qed
  next
    case False
    with received_header have "rl_state rec = fcgi_state_content_begin" by simp
    moreover from this received_header have "p = header_bytes (rl_header rec)" by simp
    ultimately show ?thesis
      using fcgiProcessRecord_begin [OF header_loop_skip [OF False], of junk]
        fcgiProcessContent_begin [of rec bs junk] received_header(2) \<open>bs \<noteq> []\<close> 
    by (simp cong del: option.case_cong_weak)
  qed
next
  case (received_content c)
  then show ?thesis
    using fcgiProcessContent_received [of rec c junk bs] \<open>bs \<noteq> []\<close>
    by (simp add: fcgiProcessRecord_def header_loop_skip state_less_simps Let_def
        cong del: option.case_cong_weak)
next
  case (received_padding c q)
  then have "padding_len (rl_header rec) \<le> length q + length bs"
    using assms(4) by (simp add: overrun_def)
  with received_padding show ?thesis
    using \<open>bs \<noteq> []\<close>
    by (auto simp: fcgiProcessRecord_def header_loop_skip state_less_simps Let_def ready_record_header
        fcgiProcessContent_def holds_record_def advance_def nat_diff_distrib'
        nat_add_distrib)
qed (use assms(2) in simp)

lemma fcgiProcessRecord_overrun:
  assumes "received junk rec p" "overrun rec bs"
  shows "\<exists>h c q rec'. p = header_bytes h @ c @ q \<and> length c = content_len h \<and>
           length q + length bs < padding_len h \<and>
           fcgiProcessRecord junk bs rec = Inr (FCGI_PROCESS_DONE, None, rec') \<and> holds_record rec' h c"
  using assms(1)
proof cases
  case (received_padding c q)
  then show ?thesis
    using assms(2)
    by (intro exI [of _ "rl_header rec"] exI [of _ c] exI [of _ q]
        exI [of _ "rec\<lparr>rl_state := fcgi_state_done\<rparr>"])
      (auto simp: fcgiProcessRecord_def header_loop_skip state_less_simps Let_def
        fcgiProcessContent_def holds_record_def advance_def overrun_def)
qed (use assms(2) in \<open>auto simp: overrun_def state_less_simps\<close>)


section \<open>A chunk\<close>

lemma respond_deliver:
  assumes "holds_record rec h c"
  shows "respond mime v first ((h, c, q) # xs) =
           (let (out, finished) = deliver mime v first rec in
            if finished then (True, out)
            else let (f, out') = respond mime v False xs in (f, out @ out'))"
  using assms
  by (auto simp: holds_record_def deliver_def record_output_def Let_def FCGI_STDERR_def
      FCGI_STDOUT_def FCGI_END_REQUEST_def split: prod.splits)

lemma records_of_none: "ready_record bs = None \<Longrightarrow> records_of bs = ([], bs)"
  by (simp add: records_of.simps [of bs])

lemma records_of_some:
  "ready_record bs = Some (x, rest) \<Longrightarrow>
   records_of bs = (x # fst (records_of rest), snd (records_of rest))"
  by (simp add: records_of.simps [of bs] split: prod.splits)

lemma ready_record_Nil [simp]: "ready_record [] = None"
  by (simp add: ready_record_short)

lemma records_of_Nil [simp]: "records_of [] = ([], [])"
  by (simp add: records_of_none)

lemma overrun_fresh: "overrun (fresh_if_done rec) bs \<longleftrightarrow> overrun rec bs"
  by (simp add: overrun_def fresh_if_done_def new_record_def)

lemma not_overrun_done: "rl_state rec = fcgi_state_done \<Longrightarrow> \<not> overrun rec bs"
  by (simp add: overrun_def)

lemma process_loop_received:
  "received junk rec p \<Longrightarrow> bs \<noteq> [] \<Longrightarrow> \<not> overrun rec bs \<Longrightarrow>
   \<exists>first' rec'. process_loop mime v junk bs first rec outp =
       Inr (fst (respond mime v first (fst (records_of (p @ bs)))), first', rec',
            outp @ snd (respond mime v first (fst (records_of (p @ bs))))) \<and>
     (\<not> fst (respond mime v first (fst (records_of (p @ bs)))) \<longrightarrow>
        received junk rec' (snd (records_of (p @ bs))) \<and>
        (first' \<longleftrightarrow> first \<and> fst (records_of (p @ bs)) = []))"
proof (induction "length (p @ bs)" arbitrary: p bs first rec outp rule: less_induct)
  case less
  have rec: "received junk (fresh_if_done rec) p" "\<not> overrun (fresh_if_done rec) bs"
    using less.prems by (simp_all add: received_fresh overrun_fresh)
  note step = fcgiProcessRecord_received [OF rec(1) fresh_if_done_not_done less.prems(2) rec(2)]
  show ?case
  proof (cases "ready_record (p @ bs)")
    case None
    with step show ?thesis
      by (auto simp: records_of_none process_loop.simps [of _ _ _ bs] Let_def)
  next
    case (Some r)
    obtain h c q rest where r: "r = ((h, c, q), rest)" by (metis prod.collapse)
    from step Some r obtain rec' where
      run: "fcgiProcessRecord junk bs (fresh_if_done rec) = Inr (FCGI_PROCESS_DONE, Some rest, rec')"
      and hr: "holds_record rec' h c" by auto
    from hr have at_done: "rl_state rec' = fcgi_state_done" by (simp add: holds_record_def)
    note recs = records_of_some [OF Some [unfolded r]]
    obtain out fin where dl: "deliver mime v first rec' = (out, fin)" by fastforce
    note resp = respond_deliver [OF hr, of mime v first, unfolded dl]
    show ?thesis
    proof (cases "fin \<or> rest = []")
      case True
      then show ?thesis
        using run dl resp recs received_done [OF at_done]
        by (auto simp: process_loop.simps [of _ _ _ bs] Let_def split: prod.splits)
    next
      case False
      have shorter: "length ([] @ rest) < length (p @ bs)"
        using ready_record_shorter [of "p @ bs"] Some r by simp
      note ih = less.hyps [OF shorter received_done [OF at_done] _ not_overrun_done [OF at_done],
          of False "outp @ out"]
      from False obtain b bs' where "rest = b # bs'" by (cases rest) auto
      with False have "process_loop mime v junk bs first rec outp =
          process_loop mime v junk rest False rec' (outp @ out)"
        using run dl by (simp add: process_loop.simps [of _ _ _ bs])
      with ih False resp recs show ?thesis by (auto split: prod.splits)
    qed
  qed
qed


section \<open>Streams of chunks\<close>

text \<open>
  The interface of a decoder that is called chunk by chunk: \<open>view s p f\<close> says that the
  state \<open>s\<close> stands for the pending bytes \<open>p\<close>, with \<open>f\<close> true before the first item;
  \<open>items\<close> cuts a stream into items and \<open>answer\<close> says what they give.
\<close>

fun feed_chunks :: "(bytes \<Rightarrow> bytes \<Rightarrow> 's \<Rightarrow> (bool \<times> bytes \<times> 's) result) \<Rightarrow> bytes list \<Rightarrow> bytes
    \<Rightarrow> 's \<Rightarrow> (bool \<times> bytes \<times> 's) result" where
  "feed_chunks feed [] out s = Inr (False, out, s)"
| "feed_chunks feed (bs # bss) out s =
     bindE (feed bs out s) (\<lambda>(finished, out, s).
       if finished then Inr (True, out, s) else feed_chunks feed bss out s)"

fun cuts_ok :: "(bytes \<Rightarrow> bytes \<Rightarrow> bool) \<Rightarrow> (bytes \<Rightarrow> 'x list \<times> bytes) \<Rightarrow> bytes \<Rightarrow> bytes list \<Rightarrow> bool" where
  "cuts_ok bad items p [] \<longleftrightarrow> True"
| "cuts_ok bad items p (bs # bss) \<longleftrightarrow>
     bs \<noteq> [] \<and> \<not> bad p bs \<and> cuts_ok bad items (snd (items (p @ bs))) bss"

locale chunk_decoder =
  fixes feed :: "bytes \<Rightarrow> bytes \<Rightarrow> 's \<Rightarrow> (bool \<times> bytes \<times> 's) result"
    and view :: "'s \<Rightarrow> bytes \<Rightarrow> bool \<Rightarrow> bool"
    and bad :: "bytes \<Rightarrow> bytes \<Rightarrow> bool"
    and items :: "bytes \<Rightarrow> 'x list \<times> bytes"
    and answer :: "bool \<Rightarrow> 'x list \<Rightarrow> bool \<times> bytes"
  assumes feed_good: "view s p f \<Longrightarrow> bs \<noteq> [] \<Longrightarrow> \<not> bad p bs \<Longrightarrow>
      \<exists>s'. feed bs out s = Inr (fst (answer f (fst (items (p @ bs)))),
              out @ snd (answer f (fst (items (p @ bs)))), s') \<and>
           (\<not> fst (answer f (fst (items (p @ bs)))) \<longrightarrow>
              view s' (snd (items (p @ bs))) (f \<and> fst (items (p @ bs)) = []))"
    and pending: "view s p f \<Longrightarrow> items p = ([], p)"
    and items_append: "items (a @ b) =
      (fst (items a) @ fst (items (snd (items a) @ b)), snd (items (snd (items a) @ b)))"
    and answer_Nil: "answer f [] = (False, [])"
    and answer_append: "answer f (xs @ ys) =
      (if fst (answer f xs) then answer f xs
       else (fst (answer (f \<and> xs = []) ys), snd (answer f xs) @ snd (answer (f \<and> xs = []) ys)))"
begin

lemma feed_chunks_answer:
  "view s p f \<Longrightarrow> cuts_ok bad items p bss \<Longrightarrow>
   \<exists>s'. feed_chunks feed bss out s =
     Inr (fst (answer f (fst (items (p @ concat bss)))),
          out @ snd (answer f (fst (items (p @ concat bss)))), s')"
proof (induction bss arbitrary: p f s out)
  case Nil
  then show ?case using pending [OF Nil.prems(1)] by (simp add: answer_Nil)
next
  case (Cons bs bss)
  let ?xs = "fst (items (p @ bs))" and ?left = "snd (items (p @ bs))"
  from Cons.prems(2) have "bs \<noteq> []" "\<not> bad p bs" and rest: "cuts_ok bad items ?left bss" by simp_all
  from feed_good [OF Cons.prems(1) this(1,2), of out] obtain s' where
    run: "feed bs out s = Inr (fst (answer f ?xs), out @ snd (answer f ?xs), s')"
    and view': "\<not> fst (answer f ?xs) \<longrightarrow> view s' ?left (f \<and> ?xs = [])" by auto
  have whole: "fst (items (p @ concat (bs # bss))) = ?xs @ fst (items (?left @ concat bss))"
    using items_append [of "p @ bs" "concat bss"] by simp
  show ?case
  proof (cases "fst (answer f ?xs)")
    case True
    then show ?thesis using run unfolding whole answer_append by simp
  next
    case False
    with view' Cons.IH [OF _ rest, of s' "f \<and> ?xs = []" "out @ snd (answer f ?xs)"] run
    show ?thesis unfolding whole answer_append by (simp add: bindE_def)
  qed
qed

text \<open>Two ways to cut one stream give one answer.\<close>

lemma feed_chunks_cut:
  assumes "view s p f" "cuts_ok bad items p bss" "cuts_ok bad items p bss'" "concat bss = concat bss'"
  shows "\<exists>s1 s2 finished outp. feed_chunks feed bss out s = Inr (finished, outp, s1) \<and>
           feed_chunks feed bss' out s = Inr (finished, outp, s2)"
  using feed_chunks_answer [OF assms(1,2), of out] feed_chunks_answer [OF assms(1,3), of out] assms(4)
  by auto

end


subsection \<open>The record decoder is one\<close>

text \<open>\<open>bs\<close> ends inside the rest of the padding, of which \<open>p\<close> already holds the begin.\<close>

definition overruns :: "bytes \<Rightarrow> bytes \<Rightarrow> bool" where
  "overruns p bs \<longleftrightarrow>
     (case read_header p of
        None \<Rightarrow> False
      | Some (h, rest) \<Rightarrow> rest \<noteq> [] \<and> content_len h \<le> length rest \<and>
          length rest + length bs < content_len h + padding_len h)"

lemma read_header_short: "length p < 8 \<Longrightarrow> read_header p = None"
  by (cases p rule: read_header.cases) auto

lemma overruns_header [simp]:
  "overruns (header_bytes h @ x) bs \<longleftrightarrow> x \<noteq> [] \<and> content_len h \<le> length x \<and>
     length x + length bs < content_len h + padding_len h"
  by (simp add: overruns_def)

lemma received_overrun:
  assumes "received junk rec p"
  shows "overrun rec bs \<longleftrightarrow> overruns p bs"
  using assms proof cases
  case received_header
  then have "length p < 8 \<or> p = header_bytes (rl_header rec) @ []"
    by (auto simp: state_less_simps)
  then have "\<not> overruns p bs"
    by (elim disjE) (simp add: overruns_def read_header_short, simp only: overruns_header, simp)
  with received_header show ?thesis by (auto simp: overrun_def state_less_simps)
next
  case (received_done)
  then show ?thesis by (auto simp: overrun_def overruns_def)
qed (auto simp: overrun_def state_less_simps)

lemma received_pending:
  assumes "received junk rec p"
  shows "records_of p = ([], p)"
  using assms
proof cases
  case received_header
  then show ?thesis
    by (intro records_of_none ready_record_short) (simp add: state_less_simps)
qed (simp_all add: records_of_none ready_record_header)

lemma read_record_append:
  "read_record a = Some (x, rest) \<Longrightarrow> read_record (a @ b) = Some (x, rest @ b)"
  by (cases a rule: read_header.cases)
    (auto simp: read_record_def Let_def split: if_splits)

lemma ready_record_append:
  "ready_record a = Some (x, rest) \<Longrightarrow> ready_record (a @ b) = Some (x, rest @ b)"
  by (auto simp: ready_record_def read_record_append split: option.splits if_splits)

lemma records_of_append:
  "records_of (a @ b) = (fst (records_of a) @ fst (records_of (snd (records_of a) @ b)),
     snd (records_of (snd (records_of a) @ b)))"
proof (induction "length a" arbitrary: a rule: less_induct)
  case less
  show ?case
  proof (cases "ready_record a")
    case (Some r)
    then obtain x rest where r: "ready_record a = Some (x, rest)" by (cases r) simp
    from less.hyps [OF ready_record_shorter [OF r]] show ?thesis
      by (simp add: records_of_some [OF r] records_of_some [OF ready_record_append [OF r]])
  qed (simp add: records_of_none)
qed

lemma respond_append:
  "respond mime v f (xs @ ys) =
     (if fst (respond mime v f xs) then respond mime v f xs
      else (fst (respond mime v (f \<and> xs = []) ys),
            snd (respond mime v f xs) @ snd (respond mime v (f \<and> xs = []) ys)))"
proof (induction xs arbitrary: f)
  case (Cons x xs)
  obtain h c q where "x = (h, c, q)" by (metis prod.collapse)
  with Cons.IH [of False] show ?case by (auto simp: Let_def split: prod.splits)
qed simp

definition response_view :: "uchar \<Rightarrow> fcgi_response \<Rightarrow> bytes \<Rightarrow> bool \<Rightarrow> bool" where
  "response_view junk st p f \<longleftrightarrow> first_chunk st = f \<and>
     received junk (case headerRecord st of None \<Rightarrow> new_record | Some rec \<Rightarrow> rec) p"

lemma response_view_new: "response_view junk new_response [] True"
  by (simp add: response_view_def new_response_def received_new)


lemma process_loop_overrun:
  assumes "received junk rec p" "overruns p bs"
  shows "\<exists>h c q. p = header_bytes h @ c @ q \<and> length c = content_len h \<and>
           length q + length bs < padding_len h \<and>
           (if h_type h = FCGI_STDERR \<or> h_type h = FCGI_END_REQUEST
            then \<exists>first' rec' out. process_loop mime v junk bs first rec outp = Inr (True, first', rec', out)
            else process_loop mime v junk bs first rec outp = Inl OutOfBounds)"
proof -
  have over: "overrun rec bs" using assms received_overrun by blast
  then have "fresh_if_done rec = rec" by (simp add: overrun_def fresh_if_done_def)
  moreover from fcgiProcessRecord_overrun [OF assms(1) over] obtain h c q rec' where
    p: "p = header_bytes h @ c @ q" "length c = content_len h" "length q + length bs < padding_len h"
    and run: "fcgiProcessRecord junk bs rec = Inr (FCGI_PROCESS_DONE, None, rec')"
    and hr: "holds_record rec' h c" by blast
  moreover have "snd (deliver mime v first rec') \<longleftrightarrow>
      h_type h = FCGI_STDERR \<or> h_type h = FCGI_END_REQUEST"
    using hr by (auto simp: holds_record_def deliver_def record_output_def Let_def FCGI_STDERR_def
      FCGI_END_REQUEST_def split: prod.splits)
  ultimately show ?thesis
    by (intro exI [of _ h] exI [of _ c] exI [of _ q])
      (auto simp: process_loop.simps [of _ _ _ bs] split: prod.splits)
qed

lemma fcgiDecodeRecordChunk_view:
  assumes "response_view junk st p f" "bs \<noteq> []" "\<not> overruns p bs"
  shows "\<exists>st'. fcgiDecodeRecordChunk mime v junk bs outp st =
            Inr (fst (respond mime v f (fst (records_of (p @ bs)))),
              outp @ snd (respond mime v f (fst (records_of (p @ bs)))), st') \<and>
           (\<not> fst (respond mime v f (fst (records_of (p @ bs)))) \<longrightarrow>
              response_view junk st' (snd (records_of (p @ bs))) (f \<and> fst (records_of (p @ bs)) = []))"
proof -
  define rec where "rec = (case headerRecord st of None \<Rightarrow> new_record | Some rec \<Rightarrow> rec)"
  with assms(1) have rec: "received junk rec p" "first_chunk st = f"
    by (simp_all add: response_view_def)
  with assms(3) have "\<not> overrun rec bs" by (simp add: received_overrun)
  from process_loop_received [OF rec(1) assms(2) this, of mime v f outp] rec(2) show ?thesis
    by (auto simp: fcgiDecodeRecordChunk_def fcgiProcessBuffer_def rec_def [symmetric] response_view_def)
qed

lemma response_view_pending: "response_view junk st p f \<Longrightarrow> records_of p = ([], p)"
  unfolding response_view_def using received_pending by blast

interpretation record_decoder: chunk_decoder "fcgiDecodeRecordChunk mime v junk"
    "response_view junk" overruns records_of "respond mime v" for mime v junk
  by unfold_locales
    (rule fcgiDecodeRecordChunk_view response_view_pending records_of_append respond_append | assumption
     | simp)+

text \<open>What a chunk can do in any state: end the response, stop at the hole, or go on.\<close>

lemma fcgiDecodeRecordChunk_cases:
  assumes "response_view junk st p f" "bs \<noteq> []"
  shows "(\<exists>out' st'. fcgiDecodeRecordChunk mime v junk bs outp st = Inr (True, out', st')) \<or>
         fcgiDecodeRecordChunk mime v junk bs outp st = Inl OutOfBounds \<or>
         (\<exists>out' st' p' f'. fcgiDecodeRecordChunk mime v junk bs outp st = Inr (False, out', st') \<and>
            response_view junk st' p' f')"
proof (cases "overruns p bs")
  case True
  define rec where "rec = (case headerRecord st of None \<Rightarrow> new_record | Some rec \<Rightarrow> rec)"
  with assms(1) have "received junk rec p" by (simp add: response_view_def)
  from process_loop_overrun [OF this True, of mime v "first_chunk st" outp] show ?thesis
    by (auto simp: fcgiDecodeRecordChunk_def fcgiProcessBuffer_def rec_def [symmetric] split: if_splits)
next
  case False
  then show ?thesis using fcgiDecodeRecordChunk_view [OF assms False, of mime v outp]
    by (cases "fst (respond mime v f (fst (records_of (p @ bs))))") auto
qed

lemma feed_chunks_crash:
  "response_view junk st p f \<Longrightarrow> [] \<notin> set bss \<Longrightarrow>
   feed_chunks (fcgiDecodeRecordChunk mime v junk) bss outp st = Inl e \<Longrightarrow> e = OutOfBounds"
proof (induction bss arbitrary: st p f outp)
  case (Cons bs bss)
  with fcgiDecodeRecordChunk_cases [OF Cons.prems(1), of bs mime v outp] show ?case
    by (auto simp: bindE_eq_Inl)
qed simp

subsection \<open>Streams without padding\<close>

lemma leftover_of_stream:
  "\<forall>x\<in>set xs. record_ok x \<Longrightarrow> a @ b = concat (map record_bytes xs) \<Longrightarrow>
   \<exists>ys. snd (records_of a) @ b = concat (map record_bytes ys) \<and> set ys \<subseteq> set xs"
proof (induction xs arbitrary: a)
  case (Cons x xs)
  show ?case
  proof (cases "ready_record a")
    case None
    then show ?thesis using Cons.prems by (intro exI [of _ "x # xs"]) (simp add: records_of_none)
  next
    case (Some r)
    then obtain y rest where r: "ready_record a = Some (y, rest)" by (cases r) simp
    then have "read_record (a @ b) = Some (y, rest @ b)"
      using ready_record_append [OF r, of b] by (auto simp: ready_record_def split: option.splits if_splits)
    moreover have "read_record (a @ b) = Some (x, concat (map record_bytes xs))"
      using Cons.prems read_record_bytes [of x] by simp
    ultimately have "rest @ b = concat (map record_bytes xs)" by simp
    from Cons.IH [OF _ this] Cons.prems(1) show ?thesis by (auto simp: records_of_some [OF r])
  qed
qed simp

lemma cuts_ok_no_padding:
  "\<forall>x\<in>set xs. record_ok x \<and> snd (snd x) = [] \<Longrightarrow> [] \<notin> set bss \<Longrightarrow>
   p @ concat bss = concat (map record_bytes xs) \<Longrightarrow> cuts_ok overruns records_of p bss"
proof (induction bss arbitrary: p xs)
  case (Cons bs bss)
  have "\<not> overruns p bs"
  proof
    assume over: "overruns p bs"
    then obtain h rest where h: "read_header p = Some (h, rest)" and pad: "0 < padding_len h"
      by (auto simp: overruns_def split: option.splits)
    then have p: "p = header_bytes h @ rest"
      by (cases p rule: read_header.cases) (auto simp: header_bytes_def)
    with Cons.prems(3) obtain x ys where xs: "xs = x # ys"
      by (cases xs) (simp_all add: header_bytes_def)
    obtain g c q where x: "x = (g, c, q)" by (metis prod.collapse)
    have "h = g" using Cons.prems(3) unfolding p xs x
      by (cases h, cases g) (simp add: header_bytes_def)
    with Cons.prems(1) xs x pad show False by auto
  qed
  moreover from leftover_of_stream [of xs "p @ bs" "concat bss"] Cons.prems obtain ys where
    "snd (records_of (p @ bs)) @ concat bss = concat (map record_bytes ys)" "set ys \<subseteq> set xs" by auto
  ultimately show ?case using Cons.IH [of ys "snd (records_of (p @ bs))"] Cons.prems(1,2) by auto
qed simp

lemma ready_record_bytes:
  "record_ok x \<Longrightarrow> rest \<noteq> [] \<or> fst (snd x) \<noteq> [] \<Longrightarrow>
   ready_record (record_bytes x @ rest) = Some (x, rest)"
  using read_record_bytes [of x rest] by (cases x) (auto simp: ready_record_def)

lemma record_stream_not_Nil: "xs \<noteq> [] \<Longrightarrow> concat (map record_bytes xs) \<noteq> []"
  by (cases xs) simp_all

lemma records_of_stream:
  "\<forall>x\<in>set xs. record_ok x \<Longrightarrow> xs \<noteq> [] \<Longrightarrow> fst (snd (last xs)) \<noteq> [] \<Longrightarrow>
   records_of (concat (map record_bytes xs)) = (xs, [])"
proof (induction xs)
  case (Cons x xs)
  then have "ready_record (record_bytes x @ concat (map record_bytes xs)) =
      Some (x, concat (map record_bytes xs))"
    using record_stream_not_Nil [of xs] by (intro ready_record_bytes) (cases "xs = []"; simp)+
  from records_of_some [OF this] Cons show ?case by (cases "xs = []") simp_all
qed simp


section \<open>Properties\<close>

text \<open>C4: However a stream is cut into chunks that are not empty and none of which ends inside the
  rest of a padding, the chunks together give the output of the records of the
  whole stream: the status line the first record makes, the contents of the standard output,
  a 500 response for standard error, nothing behind the record that ends the response.\<close>

theorem decoder_output_of_chunks:
  assumes "cuts_ok overruns records_of [] bss"
  shows "\<exists>st. feed_chunks (fcgiDecodeRecordChunk mime http_1_1 junk) bss outp new_response =
           Inr (fst (respond mime http_1_1 True (fst (records_of (concat bss)))),
                outp @ snd (respond mime http_1_1 True (fst (records_of (concat bss)))), st)"
  using record_decoder.feed_chunks_answer [OF response_view_new assms, where mime = mime and v = http_1_1 and out = outp]
  by simp

lemma feed_records:
  assumes "\<forall>x\<in>set xs. record_ok x \<and> snd (snd x) = []" "xs \<noteq> []" "fst (snd (last xs)) \<noteq> []"
    and "concat bss = concat (map record_bytes xs)" "[] \<notin> set bss"
  shows "\<exists>st. feed_chunks (fcgiDecodeRecordChunk mime http_1_1 junk) bss [] new_response =
           Inr (fst (respond mime http_1_1 True xs), snd (respond mime http_1_1 True xs), st)"
  using record_decoder.feed_chunks_answer [OF response_view_new
      cuts_ok_no_padding [of xs bss "[]"], where mime = mime and v = http_1_1 and out = "[]"]
    records_of_stream [of xs] assms by simp

text \<open>C14: For a stream of records without padding, ended by a record with a content, every cut into
  chunks that are not empty gives what those records say.\<close>

theorem decoder_roundtrip:
  assumes "\<forall>x\<in>set xs. record_ok x \<and> snd (snd x) = []" "xs \<noteq> []" "fst (snd (last xs)) \<noteq> []"
    and "concat bss = concat (map record_bytes xs)" "[] \<notin> set bss"
  shows "\<exists>st. feed_chunks (fcgiDecodeRecordChunk mime http_1_1 junk) bss [] new_response =
           Inr (fst (respond mime http_1_1 True xs), snd (respond mime http_1_1 True xs), st)"
  by (rule feed_records [OF assms])

text \<open>C16: Whatever the backend sends in chunks that are not empty, the decoder writes no content out
  of bounds: its only crash is a read behind the chunk.\<close>

theorem decoder_only_crash:
  assumes "[] \<notin> set bss"
    and "feed_chunks (fcgiDecodeRecordChunk mime http_1_1 junk) bss outp new_response = Inl e"
  shows "e = OutOfBounds"
  using feed_chunks_crash [OF response_view_new assms] .

lemma feed_padding_cut_twice:
  assumes "record_ok (h, c, q1 @ q2 @ q3)" "c @ q1 \<noteq> []" "q2 \<noteq> []" "q3 \<noteq> []"
    and "h_type h \<noteq> FCGI_STDERR" "h_type h \<noteq> FCGI_END_REQUEST"
  shows "feed_chunks (fcgiDecodeRecordChunk mime http_1_1 junk)
           [header_bytes h @ c @ q1, q2, q3] outp new_response = Inl OutOfBounds"
proof -
  let ?p = "header_bytes h @ c @ q1"
  have none: "records_of ?p = ([], ?p)"
    using assms(1-4) by (auto intro!: records_of_none simp: ready_record_header Let_def
        simp flip: length_greater_0_conv)
  have "\<not> overruns [] ?p" by (simp add: overruns_def)
  from fcgiDecodeRecordChunk_view [OF response_view_new _ this, of mime http_1_1 junk outp] none
  obtain st where first: "fcgiDecodeRecordChunk mime http_1_1 junk ?p outp new_response =
      Inr (False, outp, st)" and view: "response_view junk st ?p True"
    by (auto simp: header_bytes_def)
  have "overruns ?p q2" using assms(1-4) by (auto simp flip: length_greater_0_conv)
  moreover have "received junk (case headerRecord st of None \<Rightarrow> new_record | Some rec \<Rightarrow> rec) ?p"
    using view by (simp add: response_view_def)
  ultimately obtain g c' q where p: "?p = header_bytes g @ c' @ q" and
    "\<not> (h_type g = FCGI_STDERR \<or> h_type g = FCGI_END_REQUEST) \<Longrightarrow>
      process_loop mime http_1_1 junk q2 (first_chunk st)
        (case headerRecord st of None \<Rightarrow> new_record | Some rec \<Rightarrow> rec) outp = Inl OutOfBounds"
    using process_loop_overrun [of junk _ ?p q2 mime http_1_1 "first_chunk st" outp] by metis
  moreover have "g = h" using p by (cases g, cases h) (simp add: header_bytes_def)
  ultimately have "fcgiDecodeRecordChunk mime http_1_1 junk q2 outp st = Inl OutOfBounds"
    using assms(5,6) by (simp add: fcgiDecodeRecordChunk_def fcgiProcessBuffer_def)
  with first show ?thesis by simp
qed


text \<open>C31: That read happens. A record that does not end the response, whose padding arrives in
  three parts, the last of which is cut again, moves \<open>beg_buf\<close> behind the end of the chunk.\<close>

theorem padding_cut_twice_crashes:
  assumes "record_ok (h, c, q1 @ q2 @ q3)" "c @ q1 \<noteq> []" "q2 \<noteq> []" "q3 \<noteq> []"
    and "h_type h \<noteq> FCGI_STDERR" "h_type h \<noteq> FCGI_END_REQUEST"
  shows "feed_chunks (fcgiDecodeRecordChunk mime http_1_1 junk)
           [header_bytes h @ c @ q1, q2, q3] outp new_response = Inl OutOfBounds"
  using assms by (rule feed_padding_cut_twice)

lemma respond_stdout_end:
  "h_type h = FCGI_STDOUT \<Longrightarrow> h_type g = FCGI_END_REQUEST \<Longrightarrow>
   respond mime v f [(h, c, p), (g, d, q)] = (True, (if f then status_line mime v c else []) @ c)"
  by (simp add: Let_def FCGI_STDERR_def FCGI_STDOUT_def FCGI_END_REQUEST_def)

text \<open>The contents of the standard output.\<close>

definition stdout_of :: "fcgi_record list \<Rightarrow> bytes" where
  "stdout_of xs = concat (map (\<lambda>(h, c, p). if h_type h = FCGI_STDOUT then c else []) xs)"

lemma respond_until_end:
  "\<forall>x\<in>set xs. h_type (fst x) \<noteq> FCGI_STDERR \<and> h_type (fst x) \<noteq> FCGI_END_REQUEST \<Longrightarrow> h_type g = FCGI_END_REQUEST \<Longrightarrow>
   respond mime v False (xs @ (g, d, q) # ys) = (True, stdout_of xs)"
  by (induction xs) (auto simp: stdout_of_def Let_def FCGI_STDERR_def FCGI_STDOUT_def FCGI_END_REQUEST_def)

text \<open>C15: A CGI response with a header reaches the client as an HTTP response. The stream has a first
  standard-output record that holds the whole header, which has no NUL and which Traffic Server understands and prints as
  it was, then any records but standard error, then the record that ends the request; with or without
  padding, cut anywhere into chunks that are not empty and none of which ends inside the rest of a padding. The client
  gets a status line with the value of the field \<open>Status\<close>, or \<open>HTTP/1.0 200 OK\<close> without one, then the standard
  output as it came, and its output is complete.\<close>

theorem cgi_status_reaches_client:
  assumes "cuts_ok overruns records_of [] bss"
    and "fst (records_of (concat bss)) = (h1, hdr @ crlf @ crlf @ body, p) # xs @ (h2, e, q) # ys"
    and "h_type h1 = FCGI_STDOUT" "h_type h2 = FCGI_END_REQUEST"
    and "\<forall>x\<in>set xs. h_type (fst x) \<noteq> FCGI_STDERR \<and> h_type (fst x) \<noteq> FCGI_END_REQUEST"
    and "0 \<notin> set hdr" "\<forall>m<length hdr. take 4 (drop m (hdr @ crlf @ crlf)) \<noteq> crlf @ crlf"
    and "mime (hdr @ crlf @ crlf) = MimeDone blocks True status"
    and "[] \<notin> set blocks" "concat blocks = hdr @ crlf @ crlf"
  shows "\<exists>st. feed_chunks (fcgiDecodeRecordChunk mime http_1_1 junk) bss [] new_response =
    Inr (True, (case status of Some v \<Rightarrow> http_1_1 @ str_bytes '' '' @ c_bytes v @ crlf
                | None \<Rightarrow> default_status) @ hdr @ crlf @ crlf @ body @ stdout_of xs, st)"
proof -
  have "respond mime http_1_1 True (fst (records_of (concat bss))) = (True, (case status of
      Some v \<Rightarrow> http_1_1 @ str_bytes '' '' @ c_bytes v @ crlf | None \<Rightarrow> default_status) @ hdr @ crlf @ crlf @ body @ stdout_of xs)"
    using respond_until_end [OF assms(5,4), of mime http_1_1 e q ys] status_line_of_header [of hdr mime blocks status] assms(3,6-10)
    by (simp add: assms(2) Let_def FCGI_STDERR_def FCGI_STDOUT_def FCGI_END_REQUEST_def)
  then show ?thesis
    using record_decoder.feed_chunks_answer [OF response_view_new assms(1), where mime = mime and v = http_1_1 and out = "[]"]
    by simp
qed

text \<open>A standard-output record with content \<open>hi\<close> and an end-request record.\<close>

definition sample_header :: "uchar \<Rightarrow> uchar \<Rightarrow> uchar \<Rightarrow> FCGI_Header" where
  "sample_header rtype len pad = \<lparr>h_version = 1, h_type = rtype, h_requestIdB1 = 0, h_requestIdB0 = 1,
     h_contentLengthB1 = 0, h_contentLengthB0 = len, h_paddingLength = pad, h_reserved = 0\<rparr>"

definition sample_stream :: "fcgi_record list" where
  "sample_stream = [(sample_header FCGI_STDOUT 2 0, str_bytes ''hi'', []),
     (sample_header FCGI_END_REQUEST 8 0, replicate 8 0, [])]"

lemma sample_stream_ok: "\<forall>x\<in>set sample_stream. record_ok x \<and> snd (snd x) = []"
  by (simp add: sample_stream_def sample_header_def content_len_def padding_len_def)

lemma sample_stream_shape:
  "sample_stream \<noteq> []" "fst (snd (last sample_stream)) \<noteq> []"
  "\<forall>x\<in>set (butlast sample_stream). h_type (fst x) \<noteq> FCGI_STDERR \<and> h_type (fst x) \<noteq> FCGI_END_REQUEST"
  by (simp_all add: sample_stream_def sample_header_def FCGI_STDOUT_def FCGI_STDERR_def FCGI_END_REQUEST_def)

text \<open>Traffic Server's parser, finding no header.\<close>

definition no_mime :: "bytes \<Rightarrow> mime_result" where "no_mime bs = MimeCont"

lemma sample_stream_response:
  "respond no_mime (str_bytes ''HTTP/1.1'') True sample_stream = (True, str_bytes ''hi'')"
  unfolding sample_stream_def
  by (subst respond_stdout_end) (simp_all add: sample_header_def status_line_def no_mime_def Let_def)

text \<open>The stream in chunks that end in a header and in a content.\<close>

definition sample_chunks :: "bytes list" where
  "sample_chunks = (let s = concat (map record_bytes sample_stream) in
     [take 5 s, take 4 (drop 5 s), drop 9 s])"

lemma sample_chunks_concat: "concat sample_chunks = concat (map record_bytes sample_stream)"
  by (simp add: sample_chunks_def Let_def flip: append_assoc take_add drop_drop)

lemma sample_chunks_nonempty: "[] \<notin> set sample_chunks"
  by (simp add: sample_chunks_def Let_def sample_stream_def header_bytes_def)

theorem decoder_roundtrip_witness:
  "\<exists>st. feed_chunks (fcgiDecodeRecordChunk no_mime (str_bytes ''HTTP/1.1'') 0) sample_chunks []
     new_response = Inr (True, str_bytes ''hi'', st)"
  using decoder_roundtrip [OF sample_stream_ok sample_stream_shape(1,2) sample_chunks_concat
      sample_chunks_nonempty, of no_mime "str_bytes ''HTTP/1.1''" 0] sample_stream_response by simp

theorem decoder_output_of_chunks_witness:
  "\<exists>st. feed_chunks (fcgiDecodeRecordChunk no_mime (str_bytes ''HTTP/1.1'') 0) sample_chunks []
     new_response = Inr (fst (respond no_mime (str_bytes ''HTTP/1.1'') True
       (fst (records_of (concat sample_chunks)))), snd (respond no_mime (str_bytes ''HTTP/1.1'') True
       (fst (records_of (concat sample_chunks)))), st)"
  using decoder_output_of_chunks [OF cuts_ok_no_padding [OF sample_stream_ok sample_chunks_nonempty],
      of no_mime "str_bytes ''HTTP/1.1''" 0 "[]"] sample_chunks_concat by simp

text \<open>A parser that knows one header, and a response with it, cut in the middle of a header.\<close>

definition sample_hdr :: bytes where "sample_hdr = str_bytes ''Status: 404 Not Found''"

definition sample_mime :: "bytes \<Rightarrow> mime_result" where
  "sample_mime bs =
     (if bs = sample_hdr @ crlf @ crlf then MimeDone [sample_hdr, crlf @ crlf] True (Some (str_bytes ''404 Not Found''))
      else MimeError)"

text \<open>Its records, two of them padded, in chunks that end in a padding and in a header.\<close>

definition cgi_records :: "fcgi_record list" where
  "cgi_records = [(sample_header FCGI_STDOUT 29 3, sample_hdr @ crlf @ crlf @ str_bytes ''none'', [0, 0, 0]),
     (sample_header FCGI_STDOUT 2 0, str_bytes ''!!'', []),
     (sample_header FCGI_END_REQUEST 8 1, replicate 8 0, [0])]"

definition cgi_chunks :: "bytes list" where
  "cgi_chunks = (let s = concat (map record_bytes cgi_records) in [take 38 s, take 5 (drop 38 s), drop 43 s])"

lemma cgi_chunks_ok: "cuts_ok overruns records_of [] cgi_chunks" "fst (records_of (concat cgi_chunks)) = cgi_records"
  by code_simp+

theorem cgi_status_reaches_client_witness:
  "\<exists>st. feed_chunks (fcgiDecodeRecordChunk sample_mime (str_bytes ''HTTP/1.1'') 0) cgi_chunks [] new_response =
     Inr (True, str_bytes ''HTTP/1.1 404 Not Found'' @ crlf @ sample_hdr @ crlf @ crlf @ str_bytes ''none!!'', st)"
proof -
  have hdr: "0 \<notin> set sample_hdr" "\<forall>m<length sample_hdr. take 4 (drop m (sample_hdr @ crlf @ crlf)) \<noteq> crlf @ crlf"
    by code_simp+
  have records: "fst (records_of (concat cgi_chunks)) =
      (sample_header FCGI_STDOUT 29 3, sample_hdr @ crlf @ crlf @ str_bytes ''none'', [0, 0, 0]) #
      [(sample_header FCGI_STDOUT 2 0, str_bytes ''!!'', [])] @ (sample_header FCGI_END_REQUEST 8 1, replicate 8 0, [0]) # []"
    by (simp add: cgi_chunks_ok(2) cgi_records_def)
  have "\<exists>st. feed_chunks (fcgiDecodeRecordChunk sample_mime (str_bytes ''HTTP/1.1'') 0) cgi_chunks [] new_response =
     Inr (True, (case Some (str_bytes ''404 Not Found'') of
         Some v \<Rightarrow> str_bytes ''HTTP/1.1'' @ str_bytes '' '' @ c_bytes v @ crlf | None \<Rightarrow> default_status) @
       sample_hdr @ crlf @ crlf @ str_bytes ''none'' @
       stdout_of [(sample_header FCGI_STDOUT 2 0, str_bytes ''!!'', [])], st)"
    by (rule cgi_status_reaches_client [OF cgi_chunks_ok(1) records _ _ _ hdr, where blocks = "[sample_hdr, crlf @ crlf]"])
      (simp_all add: sample_header_def sample_mime_def sample_hdr_def crlf_def str_bytes_def FCGI_STDERR_def
        FCGI_STDOUT_def FCGI_END_REQUEST_def)
  moreover have "str_bytes ''HTTP/1.1 404 Not Found'' =
      str_bytes ''HTTP/1.1'' @ str_bytes '' '' @ c_bytes (str_bytes ''404 Not Found'')"
    "stdout_of [(sample_header FCGI_STDOUT 2 0, str_bytes ''!!'', [])] = str_bytes ''!!''"
    "str_bytes ''none!!'' = str_bytes ''none'' @ str_bytes ''!!''" by code_simp+
  ultimately show ?thesis by simp
qed

lemma padded_record_ok:
  "record_ok (sample_header FCGI_STDOUT 1 3, [65], [0] @ [0] @ [0])"
  by (simp add: sample_header_def content_len_def padding_len_def)

theorem padding_cut_twice_crashes_witness:
  "feed_chunks (fcgiDecodeRecordChunk no_mime (str_bytes ''HTTP/1.1'') 0)
     [header_bytes (sample_header FCGI_STDOUT 1 3) @ [65] @ [0], [0], [0]] [] new_response =
   Inl OutOfBounds"
  by (rule padding_cut_twice_crashes [OF padded_record_ok])
    (simp_all add: sample_header_def FCGI_STDOUT_def FCGI_STDERR_def FCGI_END_REQUEST_def)

theorem decoder_only_crash_witness:
  "\<exists>e. feed_chunks (fcgiDecodeRecordChunk no_mime (str_bytes ''HTTP/1.1'') 0)
     [header_bytes (sample_header FCGI_STDOUT 1 3) @ [65] @ [0], [0], [0]] [] new_response = Inl e \<and>
     e = OutOfBounds"
proof -
  have crash: "feed_chunks (fcgiDecodeRecordChunk no_mime (str_bytes ''HTTP/1.1'') 0)
     [header_bytes (sample_header FCGI_STDOUT 1 3) @ [65] @ [0], [0], [0]] [] new_response =
      Inl OutOfBounds"
    by (rule feed_padding_cut_twice [OF padded_record_ok])
      (simp_all add: sample_header_def FCGI_STDOUT_def FCGI_STDERR_def FCGI_END_REQUEST_def)
  show ?thesis using decoder_only_crash [OF _ crash] crash by (simp add: header_bytes_def)
qed

end
