(* ===== verification/Server_Properties.thy ===== *)
theory Server_Properties
  imports Queue_Steps Fcgi_Decoding
begin

text \<open>
  What the handlers of the server do to a request: which client gets the bytes of a response,
  what a finished, an aborted or a failed request leaves behind, and where requests get lost.
\<close>

section \<open>The bytes of a response\<close>

lemma ready_record_inverse:
  "ready_record a = Some (x, rest) \<Longrightarrow> a = record_bytes x @ rest"
  by (cases a rule: read_header.cases)
    (auto simp: ready_record_def read_record_def Let_def header_bytes_def simp flip: append_assoc take_add
      split: if_splits)

lemma records_of_inverse: "concat (map record_bytes (fst (records_of a))) @ snd (records_of a) = a"
proof (induction "length a" arbitrary: a rule: less_induct)
  case less
  show ?case
  proof (cases "ready_record a")
    case (Some r)
    then obtain x rest where r: "ready_record a = Some (x, rest)" by (cases r) simp
    have "concat (map record_bytes (fst (records_of a))) @ snd (records_of a) = record_bytes x @ rest"
      using less.hyps [OF ready_record_shorter [OF r]] by (simp add: records_of_some [OF r])
    with ready_record_inverse [OF r] show ?thesis by simp
  qed (simp add: records_of_none)
qed

text \<open>A part of a stream of records that is not the whole stream lacks the last record.\<close>

lemma records_of_proper_prefix:
  assumes "records_of (a @ b) = (xs, [])" "b \<noteq> []" "xs \<noteq> []"
  shows "set (fst (records_of a)) \<subseteq> set (butlast xs)"
proof -
  let ?ys = "fst (records_of a)" and ?zs = "fst (records_of (snd (records_of a) @ b))"
  have xs: "xs = ?ys @ ?zs" using assms(1) records_of_append [of a b] by simp
  have "?zs \<noteq> []"
  proof
    assume "?zs = []"
    with xs have "concat (map record_bytes ?ys) = a @ b"
      using records_of_inverse [of "a @ b"] assms(1) by simp
    with records_of_inverse [of a] assms(2) show False
      by (metis append_eq_append_conv2 append_is_Nil_conv append_self_conv same_append_eq)
  qed
  with xs show ?thesis by (auto simp: butlast_append)
qed

lemma respond_not_finished:
  "\<forall>x\<in>set xs. h_type (fst x) \<noteq> FCGI_STDERR \<and> h_type (fst x) \<noteq> FCGI_END_REQUEST \<Longrightarrow>
   \<not> fst (respond mime v f xs)"
proof (induction xs arbitrary: f)
  case (Cons x xs)
  obtain h c p where "x = (h, c, p)" by (metis prod.collapse)
  with Cons.prems Cons.IH [of False] show ?case by (auto simp: Let_def split: prod.splits)
qed simp

lemma respond_append_finished:
  "\<not> fst (respond mime v f (xs @ ys)) \<Longrightarrow> \<not> fst (respond mime v f xs)"
  by (auto simp: respond_append)

lemma transfer_blocks_feed:
  "response_view (env_junk env) (fr_response r) p f \<Longrightarrow> cuts_ok overruns records_of p blocks \<Longrightarrow>
   blocks \<noteq> [] \<Longrightarrow>
   \<not> fst (respond (env_mime env) (env_http_1_1 env) f (fst (records_of (p @ concat (butlast blocks))))) \<Longrightarrow>
   \<exists>resp. transfer_blocks env blocks status n out (Some r) =
     Inr (fst (respond (env_mime env) (env_http_1_1 env) f (fst (records_of (p @ concat blocks)))),
       n + int (length (concat blocks)),
       out @ snd (respond (env_mime env) (env_http_1_1 env) f (fst (records_of (p @ concat blocks)))),
       Some (r\<lparr>fr_response := resp\<rparr>))"
proof (induction blocks arbitrary: p f r status n out)
  case (Cons b bs)
  let ?R = "respond (env_mime env) (env_http_1_1 env)"
  let ?xs = "fst (records_of (p @ b))" and ?left = "snd (records_of (p @ b))"
  from Cons.prems(2) have b: "b \<noteq> []" "\<not> overruns p b" and cuts: "cuts_ok overruns records_of ?left bs"
    by simp_all
  from fcgiDecodeRecordChunk_view [OF Cons.prems(1) b, of "env_mime env" "env_http_1_1 env" out]
  obtain st where run: "fcgiDecodeRecordChunk (env_mime env) (env_http_1_1 env) (env_junk env) b out
      (fr_response r) = Inr (fst (?R f ?xs), out @ snd (?R f ?xs), st)"
    and view: "\<not> fst (?R f ?xs) \<longrightarrow> response_view (env_junk env) st ?left (f \<and> ?xs = [])" by auto
  show ?case
  proof (cases "bs = []")
    case True
    then show ?thesis using run b by auto
  next
    case False
    have split: "fst (records_of (p @ concat (b # cs))) = ?xs @ fst (records_of (?left @ concat cs))" for cs
      using records_of_append [of "p @ b" "concat cs"] by simp
    have go: "\<not> fst (?R f (?xs @ fst (records_of (?left @ concat (butlast bs)))))"
      using Cons.prems(4) False split [of "butlast bs"] by simp
    then have not: "\<not> fst (?R f ?xs)" by (rule respond_append_finished)
    with go have "\<not> fst (?R (f \<and> ?xs = []) (fst (records_of (?left @ concat (butlast bs)))))"
      by (simp add: respond_append)
    from Cons.IH [OF _ cuts False this, of "r\<lparr>fr_response := st\<rparr>" "fst (?R f ?xs)" "n + int (length b)"
        "out @ snd (?R f ?xs)"] view not obtain resp where
      "transfer_blocks env bs (fst (?R f ?xs)) (n + int (length b)) (out @ snd (?R f ?xs))
         (Some (r\<lparr>fr_response := st\<rparr>)) =
       Inr (fst (?R (f \<and> ?xs = []) (fst (records_of (?left @ concat bs)))),
         n + int (length b) + int (length (concat bs)),
         (out @ snd (?R f ?xs)) @ snd (?R (f \<and> ?xs = []) (fst (records_of (?left @ concat bs)))),
         Some (r\<lparr>fr_response := resp\<rparr>))"
      by auto
    with run b not show ?thesis unfolding split respond_append by (auto simp: add.assoc)
  qed
qed simp

lemma transfer_stream:
  assumes "fr_response r = new_response"
    and "\<forall>x\<in>set xs. record_ok x \<and> snd (snd x) = []" "xs \<noteq> []" "fst (snd (last xs)) \<noteq> []"
    and "\<forall>x\<in>set (butlast xs). h_type (fst x) \<noteq> FCGI_STDERR \<and> h_type (fst x) \<noteq> FCGI_END_REQUEST"
    and "concat blocks = concat (map record_bytes xs)" "[] \<notin> set blocks"
  shows "\<exists>resp. transfer_blocks env blocks False 0 [] (Some r) =
    Inr (fst (respond (env_mime env) (env_http_1_1 env) True xs), int (length (concat blocks)),
      snd (respond (env_mime env) (env_http_1_1 env) True xs), Some (r\<lparr>fr_response := resp\<rparr>))"
proof -
  have recs: "records_of (concat blocks) = (xs, [])"
    using records_of_stream [of xs] assms by simp
  have "concat (map record_bytes xs) \<noteq> []" by (rule record_stream_not_Nil [OF assms(3)])
  then have ne: "blocks \<noteq> []" using assms(6) by auto
  have "concat blocks = concat (butlast blocks) @ last blocks"
    by (metis ne append_butlast_last_id concat_append concat.simps append_Nil2)
  moreover have "last blocks \<noteq> []" using assms(7) last_in_set [OF ne] by metis
  ultimately have "set (fst (records_of (concat (butlast blocks)))) \<subseteq> set (butlast xs)"
    using recs records_of_proper_prefix assms(3) by metis
  with assms(5) have "\<not> fst (respond (env_mime env) (env_http_1_1 env) True
      (fst (records_of ([] @ concat (butlast blocks)))))"
    by (intro respond_not_finished) auto
  moreover have "response_view (env_junk env) (fr_response r) [] True"
    by (simp add: assms(1) response_view_new)
  ultimately show ?thesis
    using transfer_blocks_feed [of env r "[]" True blocks False 0 "[]"]
      cuts_ok_no_padding [of xs blocks "[]"] assms ne recs by simp
qed

text \<open>C5: A response that arrives in one event, in whatever blocks, reaches the client as its records
  say: for a stream of records without padding whose last one, with a content, is the only one
  that may end the response, the loop over the blocks collects exactly the output of the
  records, counts all bytes, and reports that the response is complete when the last record does.\<close>

theorem transferred_response:
  assumes "fr_response r = new_response"
    and "\<forall>x\<in>set xs. record_ok x \<and> snd (snd x) = []" "xs \<noteq> []" "fst (snd (last xs)) \<noteq> []"
    and "\<forall>x\<in>set (butlast xs). h_type (fst x) \<noteq> FCGI_STDERR \<and> h_type (fst x) \<noteq> FCGI_END_REQUEST"
    and "concat blocks = concat (map record_bytes xs)" "[] \<notin> set blocks"
  shows "\<exists>resp. transfer_blocks env blocks False 0 [] (Some r) =
    Inr (fst (respond (env_mime env) (env_http_1_1 env) True xs), int (length (concat blocks)),
      snd (respond (env_mime env) (env_http_1_1 env) True xs), Some (r\<lparr>fr_response := resp\<rparr>))"
  using assms by (rule transfer_stream)


section \<open>Data goes to the client of the connection\<close>

lemma interceptTransferData_run:
  assumes "conns w c = Some conn" "iobuf (readio conn) \<noteq> None" "vio (readio conn)"
    and "transfer_blocks env blocks False 0 [] (fcgiRequest conn) = Inr (status, n, data, fr)"
    and "icpts w i = Some icpt"
  shows "interceptTransferData env i c blocks w =
    Inr (status, ats (if data = [] then [] else [Produce i data]) (set_conn c (conn\<lparr>fcgiRequest := fr\<rparr>) w))"
  using assms by (auto simp: interceptTransferData_def writeResponseChunkToATS_def set_conn_def)

lemma read_ready_step:
  assumes "conns w c = Some conn" "iobuf (readio conn) \<noteq> None" "vio (readio conn)"
    and "transfer_blocks env blocks False 0 [] (fcgiRequest conn) = Inr (False, n, data, fr)"
    and "\<And>i d. intercept_list w (requestId conn) = Some (i, d) \<Longrightarrow> \<exists>icpt. icpts w i = Some icpt"
  shows "handlePHPConnectionEvents env io (VCONN_READ_READY blocks) c w =
    Inr (case intercept_list w (requestId conn) of
           None \<Rightarrow> w
         | Some (i, d) \<Rightarrow>
             ats (if data = [] then [] else [Produce i data]) (set_conn c (conn\<lparr>fcgiRequest := fr\<rparr>) w))"
  using assms interceptTransferData_run [OF assms(1-4)]
  by (fastforce simp: handlePHPConnectionEvents_def on_read_ready_def getIntercept_def split: option.split)

text \<open>While a response is not complete, its bytes go to the request the table has for the id of
  the connection, to no other one, and nothing else changes but the state of the decoder.
  A connection that works for no request drops what it reads.\<close>

theorem read_ready_delivers:
  assumes "conns w c = Some conn" "iobuf (readio conn) \<noteq> None" "vio (readio conn)"
    and "transfer_blocks env blocks False 0 [] (fcgiRequest conn) = Inr (False, n, data, fr)"
    and "\<And>i d. intercept_list w (requestId conn) = Some (i, d) \<Longrightarrow> \<exists>icpt. icpts w i = Some icpt"
  shows "handlePHPConnectionEvents env io (VCONN_READ_READY blocks) c w =
    Inr (case intercept_list w (requestId conn) of
           None \<Rightarrow> w
         | Some (i, d) \<Rightarrow>
             ats (if data = [] then [] else [Produce i data]) (set_conn c (conn\<lparr>fcgiRequest := fr\<rparr>) w))"
  by (rule read_ready_step [OF assms])


section \<open>What a finished request leaves\<close>

text \<open>The connection that is given back, and then given to request \<open>rid\<close>.\<close>

definition given_back :: "ServerConnection \<Rightarrow> ServerConnection" where
  "given_back conn = (releaseFCGIClient conn)\<lparr>requestId := 0,
     readio := (readio conn)\<lparr>readEnable := False\<rparr>, writeio := (writeio conn)\<lparr>readEnable := False\<rparr>,
     conn_state := READY\<rparr>"

definition taken_again :: "uint \<Rightarrow> FCGIClientRequest \<Rightarrow> ServerConnection \<Rightarrow> ServerConnection" where
  "taken_again rid fr conn = (given_back conn)\<lparr>requestId := rid, fcgiRequest := Some fr,
     conn_state := INUSE, req_count := req_count conn + 1\<rparr>"

lemma releaseFCGIClient_simps [simp]:
  "readio (releaseFCGIClient conn) = readio conn" "writeio (releaseFCGIClient conn) = writeio conn"
  "req_count (releaseFCGIClient conn) = req_count conn" "vc_ptr (releaseFCGIClient conn) = vc_ptr conn"
  "max_requests (releaseFCGIClient conn) = max_requests conn" "contp (releaseFCGIClient conn) = contp conn"
  by (simp_all add: releaseFCGIClient_def)

lemma recycle_reuses:
  assumes "conns w c = Some conn" "tdata w = Some td" "req_count conn < max_requests conn"
  shows "recycle c w = Inr (w\<lparr>conns := (conns w)(c \<mapsto> given_back conn),
    tdata := Some (td\<lparr>pool := (pool td)\<lparr>available_connections := available_connections (pool td) @ [c]\<rparr>\<rparr>)\<rparr>)"
  using assms by (simp add: recycle_def reuseConnection_def set_conn_def given_back_def)

lemma serve_next_none:
  assumes "tdata w = Some td" "pending_list (pendingReqQueue td) = []"
  shows "serve_next env w = Inr w"
  using assms by (simp add: serve_next_def popFromQueue_def)

lemma removeIntercept_idle:
  assumes "intercept_list w rid = Some (i, c)" "conns w c = Some conn" "tdata w = Some td"
    and "req_count conn < max_requests conn" "pending_list (pendingReqQueue td) = []"
  shows "removeIntercept env rid w = Inr (w\<lparr>intercept_list := (intercept_list w)(rid := None),
    conns := (conns w)(c \<mapsto> given_back conn),
    tdata := Some (td\<lparr>pool := (pool td)\<lparr>available_connections := available_connections (pool td) @ [c]\<rparr>\<rparr>)\<rparr>)"
  using assms by (simp add: removeIntercept_def recycle_reuses erase_entry_def serve_next_none)

lemma createFCGIClient_again:
  assumes "new_request junk cfg (rqs t) rid = Inr fr"
  shows "createFCGIClient junk cfg rqs j t (given_back conn\<lparr>conn_state := READY, requestId := rid\<rparr>) =
    Inr ([AddPlugin t j, Resume t], taken_again rid fr conn)"
  using assms by (simp add: createFCGIClient_def taken_again_def given_back_def)

lemma removeIntercept_handover:
  assumes "intercept_list w rid = Some (i, c)" "conns w c = Some conn" "tdata w = Some td"
    and "req_count conn < max_requests conn"
    and "length (connections (pool td)) = unat (maxConn (pool td))" "available_connections (pool td) = []"
    and "pending_list (pendingReqQueue td) = j # xs" "icpts w j = Some jcpt"
    and "new_request (env_junk env) (env_cfg env) (env_requests env (txn jcpt)) (next_id w) = Inr fr"
  shows "removeIntercept env rid w = Inr (w\<lparr>
    intercept_list := (intercept_list w)(rid := None, next_id w \<mapsto> (j, c)),
    conns := (conns w)(c \<mapsto> taken_again (next_id w) fr conn),
    icpts := (icpts w)(j \<mapsto> jcpt\<lparr>si_request_id := next_id w\<rparr>),
    next_id := next_id w + 1, next_addr := Suc (next_addr w),
    tdata := Some (td\<lparr>pendingReqQueue := (pendingReqQueue td)\<lparr>pending_list := xs\<rparr>\<rparr>),
    calls := calls w @ [AddPlugin (txn jcpt) j, Resume (txn jcpt)]\<rparr>)"
proof -
  define w1 where "w1 = w\<lparr>intercept_list := (intercept_list w)(rid := None),
    conns := (conns w)(c \<mapsto> given_back conn),
    tdata := Some (td\<lparr>pool := (pool td)\<lparr>available_connections := [c]\<rparr>\<rparr>)\<rparr>"
  have "recycle c (erase_entry rid w) = Inr w1"
    using assms by (simp add: recycle_reuses erase_entry_def w1_def)
  then have "removeIntercept env rid w = serve_next env w1"
    using assms(1) by (simp add: removeIntercept_def)
  also have "\<dots> = bindE (connect env j (w1\<lparr>tdata := Some (td\<lparr>pool := (pool td)\<lparr>available_connections := [c]\<rparr>,
      pendingReqQueue := (pendingReqQueue td)\<lparr>pending_list := xs\<rparr>\<rparr>)\<rparr>)) (\<lambda>(r, w). Inr w)"
    using assms(7) by (simp add: serve_next_def popFromQueue_def w1_def)
  also have "\<dots> = Inr (w\<lparr>
    intercept_list := (intercept_list w)(rid := None, next_id w \<mapsto> (j, c)),
    conns := (conns w)(c \<mapsto> taken_again (next_id w) fr conn),
    icpts := (icpts w)(j \<mapsto> jcpt\<lparr>si_request_id := next_id w\<rparr>),
    next_id := next_id w + 1, next_addr := Suc (next_addr w),
    tdata := Some (td\<lparr>pendingReqQueue := (pendingReqQueue td)\<lparr>pending_list := xs\<rparr>\<rparr>),
    calls := calls w @ [AddPlugin (txn jcpt) j, Resume (txn jcpt)]\<rparr>)"
    using assms createFCGIClient_again [where rqs = "env_requests env" and t = "txn jcpt", OF assms(9), of j conn]
    by (simp add: connect_def getAvailableConnection_def initiateBackendConnection_def getNext_def
        set_icpt_def set_conn_def ats_def w1_def)
  finally show ?thesis .
qed


lemma map_upd_inject [simp]: "m(a \<mapsto> x) = m(a \<mapsto> y) \<longleftrightarrow> x = y"
  by (auto dest: map_upd_eqD1)

text \<open>The state in which \<open>removeIntercept\<close> runs when the last block of a response was read.\<close>

definition after_response :: "nat \<Rightarrow> nat \<Rightarrow> ServerConnection \<Rightarrow> ServerIntercept \<Rightarrow> FCGIClientRequest option
    \<Rightarrow> bytes \<Rightarrow> world \<Rightarrow> world" where
  "after_response i c conn icpt fr data w =
     set_icpt i (icpt\<lparr>outputCompleteState := True\<rparr>)
       (ats ((if data = [] then [] else [Produce i data]) @ [SetOutputComplete i])
          (set_conn c (conn\<lparr>fcgiRequest := fr, conn_state := COMPLETE\<rparr>) w))"

lemma read_ready_finishes:
  assumes "conns w c = Some conn" "iobuf (readio conn) \<noteq> None" "vio (readio conn)"
    and "transfer_blocks env blocks False 0 [] (fcgiRequest conn) = Inr (True, n, data, fr)"
    and "intercept_list w (requestId conn) = Some (i, c)" "icpts w i = Some icpt"
    and "si_request_id icpt = requestId conn"
  shows "handlePHPConnectionEvents env io (VCONN_READ_READY blocks) c w =
    bindE (removeIntercept env (requestId conn) (after_response i c conn icpt fr data w))
      (\<lambda>w. Inr (TSStatIntIncrement respBegId 1 w))"
  using assms interceptTransferData_run [OF assms(1-4,6)]
  by (simp add: handlePHPConnectionEvents_def on_read_ready_def getIntercept_def response_complete_def
      setState_def setResponseOutputComplete_def after_response_def ats_def set_conn_def)

lemma finished_response_run:
  assumes "conns w c = Some conn" "iobuf (readio conn) \<noteq> None" "vio (readio conn)"
    and "transfer_blocks env blocks False 0 [] (fcgiRequest conn) = Inr (True, n, data, fr)"
    and "intercept_list w (requestId conn) = Some (i, c)" "icpts w i = Some icpt"
    and "si_request_id icpt = requestId conn" "tdata w = Some td"
    and "req_count conn < max_requests conn" "pending_list (pendingReqQueue td) = []"
  shows "handlePHPConnectionEvents env io (VCONN_READ_READY blocks) c w = Inr (TSStatIntIncrement respBegId 1
    ((after_response i c conn icpt fr data w)\<lparr>
      intercept_list := (intercept_list w)(requestId conn := None),
      conns := (conns w)(c \<mapsto> given_back (conn\<lparr>fcgiRequest := fr, conn_state := COMPLETE\<rparr>)),
      tdata := Some (td\<lparr>pool := (pool td)\<lparr>available_connections := available_connections (pool td) @ [c]\<rparr>\<rparr>)\<rparr>))"
proof -
  let ?w = "after_response i c conn icpt fr data w" and ?conn = "conn\<lparr>fcgiRequest := fr, conn_state := COMPLETE\<rparr>"
  have "intercept_list ?w (requestId conn) = Some (i, c)" "conns ?w c = Some ?conn" "tdata ?w = Some td"
    using assms by (simp_all add: after_response_def set_icpt_def ats_def set_conn_def)
  from removeIntercept_idle [OF this, of env] assms show ?thesis
    by (simp add: read_ready_finishes [OF assms(1-7)] after_response_def set_icpt_def ats_def set_conn_def)
qed

text \<open>C18: When the response is complete, the connection may serve more requests (it has not reached \<open>max_requests\<close>), the
  pool is full, all other connections are busy and a request waits, the first one that waits gets the connection at once: a
  new id joins them, the request object is new, and Traffic Server is told to go on with the request that waited. Presumed
  are that this request is still there and not the one that ends, that its object can be made, and that
  the connection is being read. (A connection that has reached \<open>max_requests\<close> is closed instead.)\<close>

theorem finished_response_serves_queue:
  assumes "conns w c = Some conn" "iobuf (readio conn) \<noteq> None" "vio (readio conn)"
    and "transfer_blocks env blocks False 0 [] (fcgiRequest conn) = Inr (True, n, data, fr)"
    and "intercept_list w (requestId conn) = Some (i, c)" "icpts w i = Some icpt"
    and "si_request_id icpt = requestId conn" "tdata w = Some td"
    and "req_count conn < max_requests conn"
    and "length (connections (pool td)) = unat (maxConn (pool td))" "available_connections (pool td) = []"
    and "pending_list (pendingReqQueue td) = j # xs" "icpts w j = Some jcpt" "j \<noteq> i"
    and "new_request (env_junk env) (env_cfg env) (env_requests env (txn jcpt)) (next_id w) = Inr fr'"
  shows "\<exists>w' conn' td'. handlePHPConnectionEvents env io (VCONN_READ_READY blocks) c w = Inr w' \<and>
    calls w' = calls w @ (if data = [] then [] else [Produce i data]) @
      [SetOutputComplete i, AddPlugin (txn jcpt) j, Resume (txn jcpt)] \<and>
    intercept_list w' = (intercept_list w)(requestId conn := None, next_id w \<mapsto> (j, c)) \<and>
    tdata w' = Some td' \<and> pool td' = pool td \<and> pending_list (pendingReqQueue td') = xs \<and>
    conns w' = (conns w)(c \<mapsto> conn') \<and> conn_state conn' = INUSE \<and> requestId conn' = next_id w \<and>
    fcgiRequest conn' = Some fr' \<and> vc_ptr conn' = vc_ptr conn \<and> req_count conn' = req_count conn + 1"
proof -
  let ?w = "after_response i c conn icpt fr data w" and ?conn = "conn\<lparr>fcgiRequest := fr, conn_state := COMPLETE\<rparr>"
  have w: "intercept_list ?w (requestId conn) = Some (i, c)" "conns ?w c = Some ?conn" "tdata ?w = Some td"
    "icpts ?w j = Some jcpt" "next_id ?w = next_id w"
    using assms by (simp_all add: after_response_def set_icpt_def ats_def set_conn_def)
  have "new_request (env_junk env) (env_cfg env) (env_requests env (txn jcpt)) (next_id ?w) = Inr fr'"
    using assms(15) w(5) by simp
  from removeIntercept_handover [OF w(1-3) _ assms(10-12) w(4) this] assms(9) show ?thesis
    by (simp add: read_ready_finishes [OF assms(1-7)] taken_again_def given_back_def
        after_response_def set_icpt_def ats_def set_conn_def)
qed


text \<open>A connection that has served its number of requests is closed with its last response: it
  leaves the pool and the heap, and its virtual connection and continuation are closed.\<close>

theorem worn_connection_is_closed:
  assumes "conns w c = Some conn" "iobuf (readio conn) \<noteq> None" "vio (readio conn)"
    and "transfer_blocks env blocks False 0 [] (fcgiRequest conn) = Inr (True, n, data, fr)"
    and "intercept_list w (requestId conn) = Some (i, c)" "icpts w i = Some icpt"
    and "si_request_id icpt = requestId conn" "tdata w = Some td"
    and "max_requests conn \<le> req_count conn" "pending_list (pendingReqQueue td) = []"
    and "intercept_list w 0 = None" "contp conn" "vc_ptr conn = Some v"
  shows "\<exists>w' td'. handlePHPConnectionEvents env io (VCONN_READ_READY blocks) c w = Inr w' \<and>
    calls w' = calls w @ (if data = [] then [] else [Produce i data]) @
      [SetOutputComplete i, VConnClose v, ContDestroy] \<and>
    conns w' = (conns w)(c := None) \<and> tdata w' = Some td' \<and>
    connections (pool td') = removeAll c (connections (pool td)) \<and>
    available_connections (pool td') = removeAll c (available_connections (pool td)) \<and>
    intercept_list w' = (intercept_list w)(requestId conn := None)"
proof -
  have "(intercept_list w)(requestId conn := None, 0 := None) = (intercept_list w)(requestId conn := None)"
    using assms(11) by (auto simp: fun_eq_iff)
  with assms show ?thesis
    by (auto simp: read_ready_finishes [OF assms(1-7)] removeIntercept_def recycle_def setState_def
        connectionClosed_def pool_connectionClosed_def delete_connection_def releaseFCGIClient_def
        serve_next_def popFromQueue_def after_response_def set_icpt_def ats_def set_conn_def
        erase_entry_def TSStatIntIncrement_def Let_def)
qed


section \<open>What an aborted request leaves\<close>

text \<open>C29: When a client goes away in the middle of its response, on a connection that is being read and has not reached
  \<open>max_requests\<close>, while the pool is full, all other connections are busy and a request waits that is still there and whose
  object can be made, the connection is not closed: the request gets it at once, with the
  old response still on the way. The bytes that come next are decoded as the beginning of the
  response to the new request, and what they give goes to its client, as long as they complete no response.\<close>

theorem aborted_connection_is_handed_over:
  assumes "icpts w i = Some icpt" "\<not> outputCompleteState icpt" "si_request_id icpt = rid"
    and "intercept_list w rid = Some (i, c)" "conns w c = Some conn" "conn_state conn = INUSE"
    and "tdata w = Some td" "req_count conn < max_requests conn"
    and "length (connections (pool td)) = unat (maxConn (pool td))" "available_connections (pool td) = []"
    and "pending_list (pendingReqQueue td) = j # xs" "icpts w j = Some jcpt" "j \<noteq> i"
    and "new_request (env_junk env) (env_cfg env) (env_requests env (txn jcpt)) (next_id w) = Inr fr"
    and "iobuf (readio conn) \<noteq> None" "vio (readio conn)"
  shows "\<exists>w' conn'. delete_intercept env i w = Inr w' \<and> conns w' c = Some conn' \<and>
    intercept_list w' (requestId conn') = Some (j, c) \<and> conn_state conn' = INUSE \<and>
    vc_ptr conn' = vc_ptr conn \<and> iobuf (readio conn') = iobuf (readio conn) \<and>
    fcgiRequest conn' = Some fr \<and> fr_response fr = new_response \<and>
    calls w' = calls w @ [AddPlugin (txn jcpt) j, Resume (txn jcpt)] \<and>
    (\<forall>io blocks n out fr'. transfer_blocks env blocks False 0 [] (Some fr) = Inr (False, n, out, fr') \<longrightarrow>
       (\<exists>w''. handlePHPConnectionEvents env io (VCONN_READ_READY blocks) c w' = Inr w'' \<and>
          calls w'' = calls w' @ (if out = [] then [] else [Produce j out])))"
proof -
  define w1 where "w1 = set_icpt i (icpt\<lparr>clientAborted := True\<rparr>) w"
  have w1: "intercept_list w1 rid = Some (i, c)" "conns w1 c = Some conn" "tdata w1 = Some td"
    "icpts w1 j = Some jcpt" "next_id w1 = next_id w" "calls w1 = calls w"
    using assms by (simp_all add: w1_def set_icpt_def)
  have "new_request (env_junk env) (env_cfg env) (env_requests env (txn jcpt)) (next_id w1) = Inr fr"
    using assms(14) w1(5) by simp
  note step = removeIntercept_handover [OF w1(1-3) assms(8-11) w1(4) this]
  have new: "fr_response fr = new_response" using assms(14) by (auto simp: new_request_def bindE_eq_Inr)
  let ?conn = "taken_again (next_id w) fr conn"
  obtain w' where w': "delete_intercept env i w = Inr w'" "conns w' c = Some ?conn"
      "intercept_list w' (next_id w) = Some (j, c)" "calls w' = calls w @ [AddPlugin (txn jcpt) j, Resume (txn jcpt)]"
      "\<exists>x. icpts w' j = Some x"
    using step w1 assms(1-3,13) by (simp add: delete_intercept_def w1_def [symmetric] TSStatIntIncrement_def)
  have conn: "conn_state ?conn = INUSE" "vc_ptr ?conn = vc_ptr conn" "readio ?conn = (readio conn)\<lparr>readEnable := False\<rparr>"
      "fcgiRequest ?conn = Some fr" "requestId ?conn = next_id w"
    by (simp_all add: taken_again_def given_back_def)
  have "\<exists>w''. handlePHPConnectionEvents env io (VCONN_READ_READY blocks) c w' = Inr w'' \<and>
      calls w'' = calls w' @ (if out = [] then [] else [Produce j out])"
    if "transfer_blocks env blocks False 0 [] (Some fr) = Inr (False, n, out, fr')" for io blocks n out fr'
    using read_ready_step [OF w'(2), of env blocks n out fr' io] w'(3,5) conn assms(15,16) that
    by (simp add: ats_def set_conn_def)
  with w' conn new show ?thesis by (intro exI [of _ w'] exI [of _ ?conn]) simp
qed

lemma removeIntercept_dangling:
  assumes "intercept_list w rid = Some (i, c)" "conns w c = Some conn" "tdata w = Some td"
    and "req_count conn < max_requests conn"
    and "length (connections (pool td)) = unat (maxConn (pool td))" "available_connections (pool td) = []"
    and "pending_list (pendingReqQueue td) = j # xs" "icpts w j = None"
  shows "removeIntercept env rid w = Inl UseAfterFree"
  using assms
  by (simp add: removeIntercept_def recycle_reuses erase_entry_def serve_next_def popFromQueue_def
      connect_def getAvailableConnection_def initiateBackendConnection_def getNext_def)

text \<open>C30: A request that lost its connection and waits for another one is in the queue by its address.
  When its client goes away, the intercept is deleted and the address stays; the end of the next
  request takes it from the queue and writes to the deleted object.\<close>

theorem deleted_waiting_request_crashes:
  assumes "icpts w i = Some icpt" "intercept_list w (si_request_id icpt) = None"
    and "tdata w = Some td" "pending_list (pendingReqQueue td) = i # xs"
    and "intercept_list w rid = Some (k, c)" "conns w c = Some conn" "req_count conn < max_requests conn"
    and "length (connections (pool td)) = unat (maxConn (pool td))" "available_connections (pool td) = []"
  shows "\<exists>w'. delete_intercept env i w = Inr w' \<and> tdata w' = Some td \<and>
    removeIntercept env rid w' = Inl UseAfterFree"
proof -
  define w1 where "w1 = (if outputCompleteState icpt then w else set_icpt i (icpt\<lparr>clientAborted := True\<rparr>) w)"
  define w' where "w' = TSStatIntIncrement respEndId 1 (w1\<lparr>icpts := (icpts w1)(i := None)\<rparr>)"
  have "delete_intercept env i w = Inr w'"
    using assms(1,2) by (simp add: delete_intercept_def removeIntercept_def w'_def w1_def set_icpt_def)
  moreover have w': "intercept_list w' rid = Some (k, c)" "conns w' c = Some conn" "tdata w' = Some td"
    "icpts w' i = None"
    using assms by (simp_all add: w'_def w1_def set_icpt_def)
  ultimately show ?thesis
    using removeIntercept_dangling [OF w'(1-3) assms(7-9,4) w'(4), of env] by blast
qed


section \<open>What a lost connection leaves\<close>

text \<open>When the backend closes a connection before the request was written, the request moves to
  an idle connection, and Traffic Server is given the intercept and the go-ahead once more: an
  intercept it had already is now added twice. Nothing of the request is written again.\<close>

theorem reconnect_adds_plugin_again:
  assumes "conns w c = Some conn" "\<not> readEnable (writeio conn)" "contp conn"
    and "intercept_list w (requestId conn) = Some (i, c)" "icpts w i = Some icpt" "tdata w = Some td"
    and "unat (maxConn (pool td)) \<le> length (connections (pool td))"
    and "available_connections (pool td) = a # as" "a \<noteq> c" "conns w a = Some conn_a"
    and "requestId conn \<noteq> next_id w"
    and "new_request (env_junk env) (env_cfg env) (env_requests env (txn icpt)) (next_id w) = Inr fr"
  shows "\<exists>w'. handlePHPConnectionEvents env io VCONN_EOS c w = Inr w' \<and>
    intercept_list w' = (intercept_list w)(requestId conn := None, next_id w \<mapsto> (i, a)) \<and>
    conns w' c = None \<and>
    calls w' = calls w @ [AddPlugin (txn icpt) i, Resume (txn icpt)] @
      (case vc_ptr conn of None \<Rightarrow> [] | Some v \<Rightarrow> [VConnClose v]) @ [ContDestroy]"
proof -
  have f: "createFCGIClient (env_junk env) (env_cfg env) (env_requests env) i (txn icpt)
      (conn_a\<lparr>conn_state := READY, requestId := next_id w\<rparr>) =
    Inr ([AddPlugin (txn icpt) i, Resume (txn icpt)],
      conn_a\<lparr>conn_state := INUSE, requestId := next_id w, fcgiRequest := Some fr,
        req_count := req_count conn_a + 1\<rparr>)"
    using assms(12) by (simp add: createFCGIClient_def)
  have e: "(intercept_list w)(requestId conn := None, next_id w \<mapsto> (i, a), requestId conn := None) =
      (intercept_list w)(requestId conn := None, next_id w \<mapsto> (i, a))"
    using assms(11) by (auto simp: fun_eq_iff)
  show ?thesis
    using assms f e
    by (simp add: handlePHPConnectionEvents_def on_eos_def give_up_connection_def reConnect_def
        getIntercept_def connect_def getAvailableConnection_def initiateBackendConnection_def getNext_def
        erase_entry_def set_icpt_def set_conn_def ats_def setState_def connectionClosed_def
        pool_connectionClosed_def delete_connection_def TSStatIntIncrement_def Let_def)
qed


lemma connectionClosed_pool:
  assumes "conns w c = Some conn" "contp conn" "tdata w = Some td"
  shows "\<exists>w' td'. connectionClosed c w = Inr w' \<and> tdata w' = Some td' \<and>
     pendingReqQueue td' = pendingReqQueue td \<and> conns w' = (conns w)(c := None) \<and>
     connections (pool td') = removeAll c (connections (pool td)) \<and>
     intercept_list w' = (intercept_list w)(requestId conn := None)"
  using assms
  by (simp add: connectionClosed_def pool_connectionClosed_def delete_connection_def Let_def
      erase_entry_def ats_def TSStatIntIncrement_def)

text \<open>C32: A connection that ends with the end of the stream after its request was written, or with an
  error, is freed and makes room in the pool, but no request that waits is started: the queue is
  as it was and the table only loses the entry of the connection. Requests that wait go on only
  when another one finishes.\<close>

theorem closed_connection_serves_nobody:
  assumes "conns w c = Some conn" "contp conn" "vc_ptr conn = Some v" "tdata w = Some td"
    and "\<And>i d. intercept_list w (requestId conn) = Some (i, d) \<Longrightarrow> icpts w i \<noteq> None"
    and "ev = VCONN_EOS \<and> readEnable (writeio conn) \<or> ev = NET_ERROR"
  shows "\<exists>w' td'. handlePHPConnectionEvents env io ev c w = Inr w' \<and> tdata w' = Some td' \<and>
     pendingReqQueue td' = pendingReqQueue td \<and> conns w' = (conns w)(c := None) \<and>
     connections (pool td') = removeAll c (connections (pool td)) \<and>
     intercept_list w' = (intercept_list w)(requestId conn := None)"
proof -
  obtain w1 conn1 where "handlePHPConnectionEvents env io ev c w = connectionClosed c w1"
      "conns w1 = (conns w)(c \<mapsto> conn1)" "contp conn1" "requestId conn1 = requestId conn"
      "tdata w1 = Some td" "intercept_list w1 = intercept_list w"
  proof (cases "intercept_list w (requestId conn)")
    case None
    then show ?thesis using assms that [of "ats [VConnAbort v] w" conn]
        that [of "set_conn c (conn\<lparr>conn_state := CLOSED\<rparr>) w" "conn\<lparr>conn_state := CLOSED\<rparr>"]
      by (auto simp: handlePHPConnectionEvents_def on_eos_def on_error_def getIntercept_def setState_def
          set_conn_def ats_def Let_def map_upd_triv)
  next
    case (Some e)
    then obtain i d icpt where ent: "intercept_list w (requestId conn) = Some (i, d)" "icpts w i = Some icpt"
      using assms(5) by (cases e) auto
    let ?closed = "conn\<lparr>conn_state := CLOSED\<rparr>"
    let ?eos = "if conn_state conn \<noteq> COMPLETE \<and> \<not> outputCompleteState icpt then [TxnError (txn icpt)] else []"
    let ?error = "[SetStatusCode (txn icpt) HTTP_STATUS_BAD_GATEWAY, TxnError (txn icpt)]"
    show ?thesis using assms ent
        that [of "set_conn c ?closed (ats ?eos w)" ?closed]
        that [of "ats ?error (set_conn c ?closed (ats [VConnAbort v] w))" ?closed]
      by (auto simp: handlePHPConnectionEvents_def on_eos_def on_error_def getIntercept_def setState_def
          set_conn_def ats_def Let_def split: if_splits)
  qed
  with connectionClosed_pool [of w1 c conn1 td] show ?thesis by auto
qed

text \<open>\<open>TS_EVENT_VCONN_READ_COMPLETE\<close> of a connection that works for no request calls a method of
  a null intercept.\<close>

theorem read_complete_without_request_crashes:
  assumes "conns w c = Some conn" "intercept_list w (requestId conn) = None"
  shows "handlePHPConnectionEvents env io VCONN_READ_COMPLETE c w = Inl NullDeref"
  using assms
  by (simp add: handlePHPConnectionEvents_def on_read_complete_def response_complete_def getIntercept_def
      setState_def)


section \<open>Requests that are not served\<close>

text \<open>A state in which no connection was ever made.\<close>

definition no_service :: "world \<Rightarrow> bool" where
  "no_service w \<longleftrightarrow> intercept_list w = (\<lambda>r. None) \<and> conns w = (\<lambda>a. None) \<and>
     (\<forall>td. tdata w = Some td \<longrightarrow> maxConn (pool td) = 0 \<and> connections (pool td) = [] \<and>
        available_connections (pool td) = []) \<and>
     (\<forall>x\<in>set (calls w). \<exists>t. x = Resume t)"

lemma new_pool_small:
  "\<bar>getMaxConnLength cfg\<bar> < 6 \<Longrightarrow> maxConn (new_pool cfg) = 0"
  by (simp add: new_pool_def signed_divide_int_def)

lemma no_service_setup:
  assumes "\<bar>getMaxConnLength cfg\<bar> < 6" "no_service w"
  shows "no_service (snd (setupThreadLocalStorage cfg r w))"
  using new_pool_small [OF assms(1)] assms(2)
  by (cases r) (simp_all add: setupThreadLocalStorage_def no_service_def new_thread_data_def
      new_pool_def)

lemma setup_loop_no_service:
  assumes "\<bar>getMaxConnLength cfg\<bar> < 6"
  shows "setup_loop cfg rs w = Some w' \<Longrightarrow> no_service w \<Longrightarrow> no_service w'"
proof (induction rs arbitrary: w)
  case (Cons r rs)
  obtain ok w1 where r: "setupThreadLocalStorage cfg r w = (ok, w1)" by fastforce
  with no_service_setup [OF assms Cons.prems(2), of r] have "no_service w1" by simp
  with Cons r show ?case by (cases ok) simp_all
qed simp

lemma connect_no_service:
  assumes "no_service w" "connect env i w = Inr (r, w')"
  shows "no_service w'"
  using assms
  by (cases "tdata w") (auto simp: no_service_def connect_def getAvailableConnection_def)

lemma step_no_service:
  assumes "\<bar>getMaxConnLength (env_cfg env)\<bar> < 6"
    and "server_step env w w'" "no_service w"
  shows "no_service w'"
  using assms(2)
proof cases
  case (step_request rs tr self)
  from handleReadCacheLookupComplete_cases [OF step_request(3)] show ?thesis
  proof (elim disjE exE conjE)
    fix t i w2 w3 r
    assume new: "new_icpt env t (TSStatIntIncrement reqBegId 1 w) = (i, w2)"
      and w3: "(if threadKey w2 = 0 then setup_loop (env_cfg env) rs w2 else Some w2) = Some w3"
      and con: "connect env i w3 = Inr (r, w')"
    have "no_service w2" using new assms(3) by (auto simp: new_icpt_def set_icpt_def no_service_def)
    then have "no_service w3" using w3 setup_loop_no_service [OF assms(1)] by (auto split: if_splits)
    then show ?thesis using con by (rule connect_no_service)
  qed (use assms(3) in \<open>auto simp: no_service_def ats_def\<close>)
next
  case (step_event c conn io ev)
  with assms(3) show ?thesis by (simp add: no_service_def)
next
  case (step_consume t i io data type)
  with assms(3) show ?thesis by (auto simp: no_service_def)
next
  case (step_complete t i io)
  with assms(3) show ?thesis by (auto simp: no_service_def)
next
  case (step_delete t i)
  with assms(3) show ?thesis by (auto simp: no_service_def)
qed

end
