(* ===== verification/Server_Dispatch.thy ===== *)
theory Server_Dispatch
  imports Server_Properties
begin

text \<open>
  The server as a dispatcher: no connection of the pool gets lost, and what \<open>connect\<close> and
  \<open>removeIntercept\<close> do refines a dispatcher that knows only which requests are served, which ones
  wait, and how many can be served at once.
\<close>

section \<open>No connection is lost\<close>

text \<open>The connections that have an entry in the table, and the requests that have one.\<close>

definition working :: "world \<Rightarrow> nat set" where
  "working w = {c. \<exists>rid i. intercept_list w rid = Some (i, c)}"

lemma workingI: "intercept_list w rid = Some (i, c) \<Longrightarrow> c \<in> working w"
  by (auto simp: working_def)

definition served :: "world \<Rightarrow> nat set" where
  "served w = {i. \<exists>rid c. intercept_list w rid = Some (i, c)}"

text \<open>
  Every connection of the pool that is not idle works for a request, apart from those in \<open>X\<close>; and
  an entry under the id of a connection is an entry of this connection.
\<close>

definition no_leak :: "nat set \<Rightarrow> world \<Rightarrow> bool" where
  "no_leak X w \<longleftrightarrow> (\<forall>td. tdata w = Some td \<longrightarrow> busy (pool td) \<subseteq> working w \<union> X) \<and>
     (\<forall>c conn. conns w c = Some conn \<longrightarrow> requestId conn < next_id w \<and>
        (\<forall>i d. intercept_list w (requestId conn) = Some (i, d) \<longrightarrow> d = c))"

lemma no_leakD:
  assumes "no_leak X w"
  shows "tdata w = Some td \<Longrightarrow> busy (pool td) \<subseteq> working w \<union> X"
    and "conns w c = Some conn \<Longrightarrow> requestId conn < next_id w"
    and "conns w c = Some conn \<Longrightarrow> intercept_list w (requestId conn) = Some (i, d) \<Longrightarrow> d = c"
  using assms by (simp_all add: no_leak_def)

lemma no_leakI:
  assumes "\<And>td. tdata w = Some td \<Longrightarrow> busy (pool td) \<subseteq> working w \<union> X"
    and "\<And>c conn. conns w c = Some conn \<Longrightarrow> requestId conn < next_id w"
    and "\<And>c conn i d. conns w c = Some conn \<Longrightarrow> intercept_list w (requestId conn) = Some (i, d) \<Longrightarrow> d = c"
  shows "no_leak X w"
  using assms by (auto simp: no_leak_def)

lemma no_leak_same:
  assumes "no_leak X w" "same_conns (conns w) (conns w')" "intercept_list w' = intercept_list w"
    and "map_option pool (tdata w') = map_option pool (tdata w)" "next_id w' = next_id w"
  shows "no_leak X w'"
proof -
  have "working w' = working w" using assms(3) by (simp add: working_def)
  moreover have "\<exists>conn. conns w c = Some conn \<and> requestId conn = requestId conn'"
    if "conns w' c = Some conn'" for c conn'
    using that spec [OF assms(2) [unfolded same_conns_def], of c] by auto
  ultimately show ?thesis
    using assms unfolding no_leak_def by (fastforce simp: map_option_case split: option.splits)
qed

lemma no_leak_simps [simp]:
  "no_leak X (ats cs w) = no_leak X w" "no_leak X (set_icpt i icpt w) = no_leak X w"
  "no_leak X (TSStatIntIncrement s n w) = no_leak X w"
  by (simp_all add: no_leak_def working_def world_ops)

lemma no_leak_set_conn:
  "no_leak X w \<Longrightarrow> conns w c = Some conn \<Longrightarrow> requestId conn' = requestId conn \<Longrightarrow>
   no_leak X (set_conn c conn' w)"
  by (rule no_leak_same [of X w]) (simp_all add: set_conn_def same_conns_upd)

lemma no_leak_setState:
  "no_leak X w \<Longrightarrow> setState c s w = Inr w' \<Longrightarrow> no_leak X w'"
  by (auto simp: setState_def bindE_eq_Inr heap_get_Inr intro!: no_leak_set_conn)

lemma no_leak_erase:
  assumes "no_leak X w" "intercept_list w rid = Some (i, c)"
  shows "no_leak (insert c X) (erase_entry rid w)"
proof -
  have sub: "working w \<subseteq> insert c (working (erase_entry rid w))"
  proof
    fix d assume "d \<in> working w"
    then obtain rid' j where "intercept_list w rid' = Some (j, d)" by (auto simp: working_def)
    then show "d \<in> insert c (working (erase_entry rid w))"
      using assms(2) workingI [of "erase_entry rid w" rid' j d] by (cases "rid' = rid") (auto simp: erase_entry_def)
  qed
  show ?thesis
  proof (intro no_leakI)
    fix d conn i' d' assume "conns (erase_entry rid w) d = Some conn"
      "intercept_list (erase_entry rid w) (requestId conn) = Some (i', d')"
    with no_leakD(3) [OF assms(1), of d conn i' d'] show "d' = d"
      by (simp add: erase_entry_def split: if_splits)
  next
    fix td assume "tdata (erase_entry rid w) = Some td"
    then have "tdata w = Some td" by (simp add: erase_entry_def)
    with no_leakD(1) [OF assms(1) this] sub
    show "busy (pool td) \<subseteq> working (erase_entry rid w) \<union> insert c X" by blast
  qed (use no_leakD(2) [OF assms(1)] in \<open>simp add: erase_entry_def\<close>)
qed


section \<open>Handlers lose none\<close>

lemma connectionClosed_no_leak:
  assumes "no_leak X w" "connectionClosed c w = Inr w'"
  shows "no_leak (X - {c}) w'"
proof -
  from assms(2) obtain conn td where h: "conns w c = Some conn" "tdata w = Some td"
    by (auto simp: connectionClosed_def bindE_eq_Inr heap_get_Inr deref_eq_Inr erase_entry_def)
  from assms(2) h obtain td' where w': "tdata w' = Some td'" "conns w' = (conns w)(c := None)"
    "connections (pool td') = removeAll c (connections (pool td))"
    "available_connections (pool td') = removeAll c (available_connections (pool td))"
    "intercept_list w' = (intercept_list w)(requestId conn := None)" "next_id w' = next_id w"
    by (auto simp: connectionClosed_def pool_connectionClosed_def bindE_eq_Inr Let_def erase_entry_def
        ats_def heap_get_Inr)
  have "busy (pool td') = busy (pool td) - {c}" by (auto simp: busy_def w')
  moreover have "working w - {c} \<subseteq> working w'"
  proof
    fix d assume "d \<in> working w - {c}"
    then obtain rid i where "intercept_list w rid = Some (i, d)" "d \<noteq> c" by (auto simp: working_def)
    with no_leakD(3) [OF assms(1) h(1), of i d] have "intercept_list w' rid = Some (i, d)"
      by (auto simp: w')
    then show "d \<in> working w'" by (auto simp: working_def)
  qed
  ultimately have "busy (pool td') \<subseteq> working w' \<union> (X - {c})"
    using no_leakD(1) [OF assms(1) h(2)] by blast
  with no_leakD(2,3) [OF assms(1)] show ?thesis
    unfolding no_leak_def by (auto simp: w' split: if_splits)
qed

lemma recycle_no_leak:
  assumes "no_leak X w" "intercept_list w 0 = None" "0 < next_id w" "recycle c w = Inr w'"
  shows "no_leak (X - {c}) w'"
proof -
  from assms(4) obtain old where old: "conns w c = Some old" by (auto simp: recycle_def bindE_eq_Inr heap_get_Inr)
  define conn w1 where "conn = (releaseFCGIClient old)\<lparr>requestId := 0\<rparr>" and "w1 = set_conn c conn w"
  have c1: "conns w1 c = Some conn" by (simp add: w1_def set_conn_def)
  have "working w1 = working w" by (simp add: working_def w1_def set_conn_def)
  with assms(1-3) have leak1: "no_leak X w1"
    unfolding no_leak_def by (auto simp: w1_def conn_def set_conn_def)
  show ?thesis
  proof (cases "req_count conn < max_requests conn")
    case True
    with assms(4) old obtain td p heap where td: "tdata w = Some td"
      and re: "reuseConnection c (pool td, conns w1) = Inr (p, heap)"
      and w': "w' = w1\<lparr>conns := heap, tdata := Some (td\<lparr>pool := p\<rparr>)\<rparr>"
      by (auto simp: recycle_def bindE_eq_Inr deref_eq_Inr conn_def w1_def set_conn_def Let_def)
    from re c1 obtain conn' where p: "p = (pool td)\<lparr>available_connections := available_connections (pool td) @ [c]\<rparr>"
      "heap = (conns w1)(c \<mapsto> conn')" "requestId conn' = requestId conn"
      by (auto simp: reuseConnection_def)
    have "no_leak X (w1\<lparr>conns := heap\<rparr>)"
      by (rule no_leak_same [OF leak1]) (use c1 p in \<open>simp_all add: same_conns_upd\<close>)
    moreover have "busy p = busy (pool td) - {c}" by (auto simp: busy_def p)
    moreover have "tdata w1 = Some td" by (simp add: w1_def set_conn_def td)
    moreover have "working w' = working (w1\<lparr>conns := heap\<rparr>)" by (simp add: working_def w')
    ultimately show ?thesis unfolding no_leak_def by (auto simp: w')
  next
    case False
    with assms(4) old obtain w2 where "setState c CLOSED w1 = Inr w2" "connectionClosed c w2 = Inr w'"
      by (auto simp: recycle_def bindE_eq_Inr conn_def w1_def)
    with no_leak_setState [OF leak1] connectionClosed_no_leak show ?thesis by blast
  qed
qed

lemma initiateBackendConnection_no_leak:
  assumes "no_leak (insert c X) w" "server_inv w" "ids_left w" "initiateBackendConnection env i c w = Inr w'"
  shows "no_leak X w'"
proof -
  from initiateBackendConnection_facts [OF assms(4)] obtain icpt conn conn' cs where
    h: "conns w c = Some conn" "requestId conn' = next_id w"
    and w': "w' = w\<lparr>icpts := (icpts w)(i \<mapsto> icpt\<lparr>si_request_id := next_id w\<rparr>),
            conns := (conns w)(c \<mapsto> conn'),
            intercept_list := (intercept_list w)(next_id w \<mapsto> (i, c)),
            next_id := next_id w + 1, calls := calls w @ cs\<rparr>" by auto
  note grow = next_id_grows [OF assms(3)]
  have new: "intercept_list w (next_id w) = None"
    using server_invD(1) [OF assms(2), of "next_id w"]
    by (cases "intercept_list w (next_id w)") (auto simp: entry_ok_def)
  have "insert c (working w) \<subseteq> working w'"
  proof
    fix d assume "d \<in> insert c (working w)"
    then consider "d = c" | rid j where "intercept_list w rid = Some (j, d)" by (auto simp: working_def)
    then show "d \<in> working w'"
    proof cases
      case 1
      then show ?thesis using workingI [of w' "next_id w" i c] by (simp add: w')
    next
      case 2
      moreover have "rid \<noteq> next_id w" using 2 new by auto
      ultimately show ?thesis using workingI [of w' rid j d] by (simp add: w')
    qed
  qed
  then have "busy (pool td) \<subseteq> working w' \<union> X" if "tdata w' = Some td" for td
    using no_leakD(1) [OF assms(1), of td] that by (auto simp: w')
  moreover have "requestId x < next_id w' \<and>
      (\<forall>j d'. intercept_list w' (requestId x) = Some (j, d') \<longrightarrow> d' = d)" if "conns w' d = Some x" for d x
  proof (cases "d = c")
    case True
    with that h grow show ?thesis by (auto simp: w')
  next
    case False
    with that have "conns w d = Some x" by (simp add: w')
    with no_leakD(2,3) [OF assms(1) this] grow show ?thesis by (auto simp: w')
  qed
  ultimately show ?thesis unfolding no_leak_def by blast
qed

lemma connect_no_leak:
  assumes "no_leak X w" "server_inv w" "ids_left w" "connect env i w = Inr (r, w')"
  shows "no_leak X w'"
proof (cases "tdata w")
  case None
  with assms(1,4) show ?thesis by (simp add: connect_def)
next
  case (Some td)
  from assms(4) Some obtain conn p heap where
    get: "getAvailableConnection (env_cfg env) (next_addr w) (pool td, conns w) = Inr (conn, p, heap)"
    by (auto simp: connect_def bindE_eq_Inr)
  define w1 where "w1 = w\<lparr>conns := heap, next_addr := Suc (next_addr w), tdata := Some (td\<lparr>pool := p\<rparr>)\<rparr>"
  note taken = connect_taken [OF assms(2) Some get, folded w1_def]
  have wf: "pool_wf (pool td, conns w)" using server_invD(2) [OF assms(2) Some] by (simp add: td_ok_def)
  have none: "conns w (next_addr w) = None" using server_invD(4) [OF assms(2)] by simp
  have zero: "intercept_list w 0 = None"
    using server_invD(1) [OF assms(2), of 0] by (cases "intercept_list w 0") (auto simp: entry_ok_def)
  show ?thesis
  proof (cases conn)
    case None
    with taken(3) assms(4) Some get have
      w': "w' = w1\<lparr>tdata := Some (td\<lparr>pendingReqQueue := snd (addToQueue i (pendingReqQueue td))\<rparr>)\<rparr>"
      and same: "p = pool td" "heap = conns w"
      by (simp_all add: connect_def w1_def)
    show ?thesis
      by (rule no_leak_same [OF assms(1)]) (simp_all add: w' w1_def same Some)
  next
    case (Some c)
    have "next_addr w \<notin> set (connections (pool td))" using wf none by (auto simp: pool_wf_def)
    with connection_pool.acquire_not_busy(3) [OF wf _ get [unfolded Some]]
    have "busy p = insert c (busy (pool td))" by (simp add: busy_def)
    moreover have "requestId x < next_id w1 \<and>
        (\<forall>j d'. intercept_list w1 (requestId x) = Some (j, d') \<longrightarrow> d' = d)" if "conns w1 d = Some x" for d x
    proof -
      have "(\<exists>x'. conns w d = Some x' \<and> requestId x = requestId x') \<or> requestId x = 0"
        using that get Some none by (auto simp: w1_def getAvailableConnection_def Let_def bindE_eq_Inr heap_get_Inr
            new_connection_def split: if_splits list.splits)
      then show ?thesis
        using no_leakD(2,3) [OF assms(1)] zero server_invD(5) [OF assms(2)] by (auto simp: w1_def)
    qed
    moreover have "working w1 = working w" by (simp add: working_def w1_def)
    ultimately have "no_leak (insert c X) w1"
      using no_leakD(1) [OF assms(1) \<open>tdata w = Some td\<close>] unfolding no_leak_def by (auto simp: w1_def)
    moreover have "initiateBackendConnection env i c w1 = Inr w'"
      using assms(4) \<open>tdata w = Some td\<close> get Some by (auto simp: connect_def w1_def bindE_eq_Inr)
    moreover have "ids_left w1" using assms(3) by (simp add: ids_left_def w1_def)
    ultimately show ?thesis using initiateBackendConnection_no_leak taken(1) by blast
  qed
qed

lemma serve_next_no_leak:
  assumes "no_leak X w" "server_inv w" "ids_left w" "serve_next env w = Inr w'"
  shows "no_leak X w'"
proof -
  from assms(4) obtain td where td: "tdata w = Some td"
    by (auto simp: serve_next_def bindE_eq_Inr deref_eq_Inr)
  show ?thesis
  proof (cases "pending_list (pendingReqQueue td)")
    case Nil
    with assms td show ?thesis by (simp add: serve_next_def popFromQueue_def)
  next
    case (Cons i xs)
    define w1 where
      "w1 = w\<lparr>tdata := Some (td\<lparr>pendingReqQueue := (pendingReqQueue td)\<lparr>pending_list := xs\<rparr>\<rparr>)\<rparr>"
    have "no_leak X w1" by (rule no_leak_same [OF assms(1)]) (simp_all add: w1_def td)
    moreover from assms(4) td Cons obtain r where "connect env i w1 = Inr (r, w')"
      by (auto simp: serve_next_def popFromQueue_def bindE_eq_Inr w1_def)
    moreover have "ids_left w1" using assms(3) by (simp add: ids_left_def w1_def)
    ultimately show ?thesis
      using connect_no_leak server_inv_pop(1) [OF assms(2) td Cons, folded w1_def] by blast
  qed
qed

lemma removeIntercept_no_leak:
  assumes "no_leak {} w" "server_inv (erase_entry rid w)"
    and "\<And>i c. intercept_list w rid = Some (i, c) \<Longrightarrow> taken_connection (erase_entry rid w) c"
    and "ids_left w" "removeIntercept env rid w = Inr w'"
  shows "no_leak {} w'"
proof (cases "intercept_list w rid")
  case None
  with assms(1,5) show ?thesis by (simp add: removeIntercept_def)
next
  case (Some e)
  obtain i c where l: "intercept_list w rid = Some (i, c)" using Some by (cases e) auto
  with assms(5) obtain w1 where w1: "recycle c (erase_entry rid w) = Inr w1" "serve_next env w1 = Inr w'"
    by (auto simp: removeIntercept_def bindE_eq_Inr)
  have "intercept_list (erase_entry rid w) 0 = None"
    using server_invD(1) [OF assms(2), of 0]
    by (cases "intercept_list (erase_entry rid w) 0") (auto simp: entry_ok_def)
  with recycle_no_leak [OF no_leak_erase [OF assms(1) l] _ server_invD(5) [OF assms(2)] w1(1)]
  have "no_leak {} w1" by simp
  moreover have r: "server_inv w1" "only_drops (erase_entry rid w) w1"
    using recycle_inv [OF assms(2) assms(3) [OF l] w1(1)] by auto
  moreover have "ids_left w1" using r(2) assms(4) by (simp add: ids_left_def only_drops_def erase_entry_def)
  ultimately show ?thesis using serve_next_no_leak w1(2) by blast
qed

lemma setResponseOutputComplete_no_leak:
  assumes "no_leak {} w" "server_inv w" "intercept_list w rid = Some (i, c)" "ids_left w"
    and "setResponseOutputComplete env i w = Inr w'"
  shows "no_leak {} w'"
proof -
  from server_invD(1) [OF assms(2,3)] obtain icpt where i: "icpts w i = Some icpt" "si_request_id icpt = rid"
    by (auto simp: entry_ok_def)
  define w1 where "w1 = set_icpt i (icpt\<lparr>outputCompleteState := True\<rparr>) (ats [SetOutputComplete i] w)"
  have run: "removeIntercept env rid w1 = Inr w'"
    using assms(5) i by (simp add: setResponseOutputComplete_def ats_def w1_def Let_def)
  have "server_inv (ats [SetOutputComplete i] w)" using assms(2) by (rule server_inv_ats) simp
  then have "server_inv (erase_entry rid w1)"
    unfolding w1_def
    by (rule server_inv_complete [where c = c and icpt = icpt]) (use assms(3) i in \<open>simp_all add: ats_def\<close>)
  moreover have "taken_connection (erase_entry rid w1) d" if "intercept_list w1 rid = Some (j, d)" for j d
    using entry_taken [OF assms(2,3)] that assms(3)
    by (simp add: taken_connection_def w1_def set_icpt_def ats_def erase_entry_def)
  moreover have "no_leak {} w1" "ids_left w1" using assms(1,4) by (simp_all add: w1_def)
  ultimately show ?thesis using removeIntercept_no_leak run by blast
qed

lemma delete_intercept_no_leak:
  assumes "no_leak {} w" "server_inv w" "ids_left w" "delete_intercept env i w = Inr w'"
  shows "no_leak {} w'"
proof -
  have free: "no_leak {} (v\<lparr>icpts := g\<rparr>)" if "no_leak {} v" for v g
    by (rule no_leak_same [OF that]) simp_all
  from assms(4) obtain icpt where i: "icpts w i = Some icpt"
    by (auto simp: delete_intercept_def bindE_eq_Inr heap_get_Inr)
  show ?thesis
  proof (cases "outputCompleteState icpt")
    case True
    with assms(1,4) i free show ?thesis by (auto simp: delete_intercept_def)
  next
    case False
    define w1 where "w1 = set_icpt i (icpt\<lparr>clientAborted := True\<rparr>) w"
    have inv1: "server_inv w1" unfolding w1_def by (rule server_inv_set_icpt [OF assms(2) i]) simp_all
    from assms(4) i False obtain w2 where "removeIntercept env (si_request_id icpt) w1 = Inr w2"
      and w': "w' = TSStatIntIncrement respEndId 1 (w2\<lparr>icpts := (icpts w2)(i := None)\<rparr>)"
      by (auto simp: delete_intercept_def bindE_eq_Inr w1_def)
    with removeIntercept_no_leak [OF _ server_inv_erase [OF inv1] entry_taken [OF inv1]] assms(1,3)
    have "no_leak {} w2" by (simp add: w1_def)
    with free w' show ?thesis by simp
  qed
qed

lemma give_up_connection_no_leak:
  assumes "no_leak {} w" "server_inv w" "ids_left w" "give_up_connection env c w = Inr w'"
  shows "no_leak {} w'"
proof -
  from assms(4) obtain conn w1 w2 where h: "conns w c = Some conn" "reConnect env (requestId conn) w = Inr w1"
    "setState c CLOSED w1 = Inr w2" "connectionClosed c w2 = Inr w'"
    by (auto simp: give_up_connection_def bindE_eq_Inr heap_get_Inr)
  have "no_leak {c} w1"
  proof (cases "getIntercept (requestId conn) w")
    case None
    with h(2) have "w1 = w" by (simp add: reConnect_def)
    with assms(1) show ?thesis by (auto simp: no_leak_def)
  next
    case (Some i)
    then obtain d where l: "intercept_list w (requestId conn) = Some (i, d)" by (auto simp: getIntercept_def)
    with no_leakD(3) [OF assms(1) h(1)] have d: "d = c" by blast
    from h(2) Some obtain r where "connect env i (erase_entry (requestId conn) w) = Inr (r, w1)"
      by (auto simp: reConnect_def bindE_eq_Inr)
    from connect_no_leak [OF no_leak_erase [OF assms(1) l] server_inv_erase [OF assms(2)] _ this] assms(3) d
    show ?thesis by simp
  qed
  from connectionClosed_no_leak [OF no_leak_setState [OF this h(3)] h(4)] show ?thesis by simp
qed

lemma response_complete_no_leak:
  assumes "no_leak {} w" "server_inv w" "ids_left w" "response_complete env intercept c w = Inr w'"
    and "\<And>i. intercept = Some i \<Longrightarrow> \<exists>rid c. intercept_list w rid = Some (i, c)"
  shows "no_leak {} w'"
proof -
  from assms(4) obtain i w1 w2 where h: "setState c COMPLETE w = Inr w1" "intercept = Some i"
    "setResponseOutputComplete env i w1 = Inr w2" "w' = TSStatIntIncrement respBegId 1 w2"
    by (auto simp: response_complete_def bindE_eq_Inr deref_eq_Inr)
  note w1 = setState_inv [OF assms(2) h(1)] no_leak_setState [OF assms(1) h(1)]
  from assms(5) [OF h(2)] obtain rid d where "intercept_list w1 rid = Some (i, d)" using w1(2) by auto
  with setResponseOutputComplete_no_leak [OF w1(6) w1(1) this _ h(3)] assms(3) w1(3) h(4)
  show ?thesis by simp
qed

lemma connection_events_no_leak:
  assumes "no_leak {} w" "server_inv w" "ids_left w" "handlePHPConnectionEvents env io ev c w = Inr w'"
  shows "no_leak {} w'"
proof (cases ev)
  case (NET_CONNECT v)
  from assms(4) NET_CONNECT obtain old where old: "conns w c = Some old"
    by (auto simp: handlePHPConnectionEvents_def on_net_connect_def bindE_eq_Inr heap_get_Inr Let_def)
  define w1 where "w1 = set_conn c (old\<lparr>vc_ptr := Some v, conn_state := READY\<rparr>) (TSStatIntIncrement phpConnCount 1 w)"
  have w1: "no_leak {} w1" unfolding w1_def by (rule no_leak_set_conn [of _ _ c old]) (simp_all add: assms(1) old)
  from assms(4) old have "w' = w1 \<or> (\<exists>cs conn'. w' = ats cs (set_conn c conn' w1) \<and> requestId conn' = requestId old)"
    by (auto simp: NET_CONNECT handlePHPConnectionEvents_def on_net_connect_def bindE_eq_Inr Let_def w1_def set_conn_def
        dest!: createFCGIClient_facts split: option.splits)
  then show ?thesis
    using w1 no_leak_set_conn [OF w1, of c "old\<lparr>vc_ptr := Some v, conn_state := READY\<rparr>"]
    by (auto simp: w1_def set_conn_def)
next
  case NET_CONNECT_FAILED
  with assms give_up_connection_no_leak [of "TSStatIntIncrement phpConnCount 1 w"] show ?thesis
    by (simp add: handlePHPConnectionEvents_def on_connect_failed_def)
next
  case (VCONN_READ_READY blocks)
  with assms(4) obtain conn where conn: "conns w c = Some conn"
    by (auto simp: handlePHPConnectionEvents_def on_read_ready_def bindE_eq_Inr heap_get_Inr)
  show ?thesis
  proof (cases "getIntercept (requestId conn) w")
    case None
    with assms(1,4) VCONN_READ_READY conn show ?thesis
      by (simp add: handlePHPConnectionEvents_def on_read_ready_def)
  next
    case (Some i)
    then obtain d where l: "intercept_list w (requestId conn) = Some (i, d)" by (auto simp: getIntercept_def)
    from assms(4) VCONN_READ_READY conn Some obtain status w1 where
      t: "interceptTransferData env i c blocks w = Inr (status, w1)"
      and w': "(if status then response_complete env (Some i) c w1 else Inr w1) = Inr w'"
      by (auto simp: handlePHPConnectionEvents_def on_read_ready_def bindE_eq_Inr)
    note t' = interceptTransferData_inv [OF assms(2) t]
    from interceptTransferData_facts [OF t] no_leak_set_conn [OF assms(1)]
    have "no_leak {} w1" by (auto simp del: no_leak_simps(2,3))
    with w' t' l assms(3) response_complete_no_leak [of w1 env "Some i" c w'] show ?thesis
      by (auto split: if_splits)
  qed
next
  case VCONN_READ_COMPLETE
  with assms(4) obtain conn where "conns w c = Some conn"
    "response_complete env (getIntercept (requestId conn) w) c w = Inr w'"
    by (auto simp: handlePHPConnectionEvents_def on_read_complete_def bindE_eq_Inr heap_get_Inr)
  then show ?thesis
    by (intro response_complete_no_leak [OF assms(1-3)]) (auto simp: getIntercept_def, blast)
next
  case VCONN_EOS
  with assms(4) obtain conn where conn: "conns w c = Some conn"
    by (auto simp: handlePHPConnectionEvents_def on_eos_def bindE_eq_Inr heap_get_Inr)
  show ?thesis
  proof (cases "readEnable (writeio conn)")
    case False
    with VCONN_EOS assms conn give_up_connection_no_leak show ?thesis
      by (simp add: handlePHPConnectionEvents_def on_eos_def)
  next
    case True
    with VCONN_EOS assms(4) conn obtain w1 w2 where "w1 = w \<or> (\<exists>t. w1 = ats [TxnError t] w)"
      "setState c CLOSED w1 = Inr w2" "connectionClosed c w2 = Inr w'"
      by (auto simp: handlePHPConnectionEvents_def on_eos_def bindE_eq_Inr split: if_splits option.splits)
    with assms(1) no_leak_setState [of "{}" w1 c CLOSED w2] connectionClosed_no_leak [of "{}" w2 c w']
    show ?thesis by auto
  qed
next
  case NET_ERROR
  with assms(4) obtain conn v w1 where "conns w c = Some conn"
    "(case getIntercept (requestId conn) (ats [VConnAbort v] w) of
              None \<Rightarrow> Inr (ats [VConnAbort v] w)
            | Some i \<Rightarrow>
                bindE (setState c CLOSED (ats [VConnAbort v] w)) (\<lambda>w.
                bindE (heap_get i (icpts w)) (\<lambda>icpt.
                  Inr (ats [SetStatusCode (txn icpt) HTTP_STATUS_BAD_GATEWAY, TxnError (txn icpt)] w)))) = Inr w1"
    "connectionClosed c w1 = Inr w'"
    by (auto simp: handlePHPConnectionEvents_def on_error_def bindE_eq_Inr heap_get_Inr Let_def)
  moreover have "no_leak {} (ats [VConnAbort v] w)" using assms(1) by simp
  ultimately show ?thesis
    using no_leak_setState [of "{}" "ats [VConnAbort v] w" c CLOSED] connectionClosed_no_leak [of "{}" w1 c w']
    by (auto simp: bindE_eq_Inr split: option.splits)
qed (use assms in \<open>auto simp: handlePHPConnectionEvents_def on_write_ready_def on_write_complete_def bindE_eq_Inr
    heap_get_Inr Let_def intro!: no_leak_set_conn split: if_splits\<close>)

lemma write_request_no_leak:
  assumes "no_leak X w" "write_request io rid f endflag w = Inr (ok, w')"
  shows "no_leak X w'"
  using assms
  by (auto simp: write_request_def addClientRequest_def bindE_eq_Inr heap_get_Inr intro!: no_leak_set_conn
      split: option.splits prod.splits)

lemma stream_no_leak:
  assumes "no_leak X w"
  shows "consume io i data type w = Inr w' \<Longrightarrow> no_leak X w'"
    and "handleInputComplete io i w = Inr w' \<Longrightarrow> no_leak X w'"
  using write_request_no_leak [OF assms]
  by (auto simp: consume_def streamReqHeader_def streamReqBody_def handleInputComplete_def
      writeRequestHeader_def writeRequestBody_def writeRequestBodyComplete_def bindE_eq_Inr split: if_splits)

lemma setup_loop_no_leak:
  "setup_loop cfg rs w = Some w' \<Longrightarrow> no_leak X w \<Longrightarrow> no_leak X w'"
proof (induction rs arbitrary: w)
  case (Cons r rs)
  have key: "no_leak X (w\<lparr>threadKey := 0\<rparr>)" by (rule no_leak_same [OF Cons.prems(2)]) simp_all
  have new: "no_leak X (w\<lparr>threadKey := k, tdata := Some (new_thread_data cfg)\<rparr>)" for k
    using Cons.prems(2) by (auto simp: no_leak_def new_thread_data_def new_pool_def busy_def)
  from Cons.prems(1) show ?case
    using Cons.IH [OF _ key] Cons.IH [OF _ Cons.prems(2)] new
    by (cases r) (auto simp: setupThreadLocalStorage_def)
qed simp

lemma handleReadCacheLookupComplete_no_leak:
  assumes "no_leak {} w" "server_inv w" "ids_left w" "\<forall>k. KeyCreated k \<in> set rs \<longrightarrow> k \<noteq> 0"
    and "handleReadCacheLookupComplete env rs tr self w = Some (Inr w')"
  shows "no_leak {} w'"
  using handleReadCacheLookupComplete_cases [OF assms(5)]
proof (elim disjE exE conjE)
  fix t i w2 w3 r
  assume new: "new_icpt env t (TSStatIntIncrement reqBegId 1 w) = (i, w2)"
    and set: "(if threadKey w2 = 0 then setup_loop (env_cfg env) rs w2 else Some w2) = Some w3"
    and con: "connect env i w3 = Inr (r, w')"
  have "server_inv (TSStatIntIncrement reqBegId 1 w)" using assms(2) by simp
  note w2 = new_icpt_inv [OF this new]
  have "no_leak {} w2"
    by (rule no_leak_same [OF assms(1)]) (use new in \<open>auto simp: new_icpt_def set_icpt_def\<close>)
  then have "no_leak {} w3" using set setup_loop_no_leak by (auto split: if_splits)
  moreover have "server_inv w3 \<and> ids_left w3"
    using set w2(1,4) setup_loop_inv [OF _ w2(1) _ assms(4), of "env_cfg env" w3] assms(3)
    by (auto split: if_splits)
  ultimately show ?thesis using connect_no_leak con by blast
qed (use assms(1) in simp_all)

lemma server_step_no_leak:
  "server_step env w w' \<Longrightarrow> server_inv w \<Longrightarrow> no_leak {} w \<Longrightarrow> no_leak {} w'"
  by (elim server_stepE)
    (blast intro: handleReadCacheLookupComplete_no_leak connection_events_no_leak stream_no_leak
      delete_intercept_no_leak)+

lemma interference_no_leak: "no_leak {} w \<Longrightarrow> interference w w' \<Longrightarrow> no_leak {} w'"
  by (auto simp: no_leak_def interference_def working_def)

lemma reachable_no_leak: "reachable env w \<Longrightarrow> no_leak {} w"
proof (induction rule: reachable.induct)
  case (reachable_step w w')
  then show ?case using server_step_no_leak reachable_inv by blast
next
  case (reachable_others w w')
  then show ?case using interference_no_leak by blast
qed (simp add: no_leak_def initial_world_def)


section \<open>As many requests as connections\<close>

lemma entry_unique:
  assumes "server_inv w" "intercept_list w rid = Some (i, c)" "intercept_list w rid' = Some (i', c')"
    and "i' = i \<or> c' = c"
  shows "rid' = rid"
  using server_invD(1) [OF assms(1,2)] server_invD(1) [OF assms(1,3)] assms(4) by (auto simp: entry_ok_def)

lemma card_served: "server_inv w \<Longrightarrow> card (served w) = card (working w)"
proof -
  assume inv: "server_inv w"
  let ?E = "ran (intercept_list w)"
  have "served w = fst ` ?E" "working w = snd ` ?E"
    by (force simp: served_def working_def ran_def image_def)+
  moreover have "inj_on fst ?E" "inj_on snd ?E"
    using entry_unique [OF inv] by (auto simp: inj_on_def ran_def, metis option.inject prod.inject,
        metis option.inject prod.inject)
  ultimately show ?thesis by (simp add: card_image)
qed

lemma working_subset_busy: "server_inv w \<Longrightarrow> tdata w = Some td \<Longrightarrow> working w \<subseteq> busy (pool td)"
  using entry_taken [of w] by (fastforce simp: working_def taken_connection_def busy_def erase_entry_def)

lemma working_busy:
  assumes "server_inv w" "no_leak {} w" "tdata w = Some td"
  shows "working w = busy (pool td)"
  using working_subset_busy [OF assms(1,3)] no_leakD(1) [OF assms(2,3)] by simp

lemma served_bounded:
  assumes "server_inv w" "no_leak {} w" "tdata w = Some td"
  shows "card (served w) = card (busy (pool td))" "card (served w) \<le> unat (maxConn (pool td))"
proof -
  show eq: "card (served w) = card (busy (pool td))"
    using card_served [OF assms(1)] working_busy [OF assms] by simp
  have "card (busy (pool td)) \<le> length (connections (pool td))"
    unfolding busy_def by (rule le_trans [OF card_mono card_length]) auto
  then show "card (served w) \<le> unat (maxConn (pool td))"
    using server_invD(2) [OF assms(1,3)] eq by (simp add: td_ok_def pool_wf_def)
qed


section \<open>Request objects\<close>

text \<open>The length of the body that the client announces.\<close>

definition announced_length :: "ats_request \<Rightarrow> int" where
  "announced_length rq =
     (case rq_headers rq of
        None \<Rightarrow> 0
      | Some hs \<Rightarrow> (case rq_find rq ''Content-Length'' of None \<Rightarrow> 0 | Some v \<Rightarrow> istream_int (c_str v)))"

lemma client_headers_http: "(k, v) \<in> set (client_headers rq) \<Longrightarrow> take 5 k = ''HTTP_''"
  by (auto simp: client_headers_def http_name_def split: option.splits)

lemma no_content_length:
  assumes "getDocumentRootDir cfg = Some root" "request_script cfg rq = Inr script" "GenerateFcgiRequestHeaders cfg rq = Inr m"
  shows "map_find m ''CONTENT_LENGTH'' = None"
proof -
  have "map_of (rev (client_headers rq)) ''CONTENT_LENGTH'' = None"
    using client_headers_http [of "''CONTENT_LENGTH''" _ rq] by (auto simp: map_of_eq_None_iff)
  then show ?thesis using generate_headers [OF assms(1,2)] assms(3) by (auto simp: map_add_def fixed_headers_def)
qed

lemma post_headers_length:
  assumes "map_find m ''CONTENT_LENGTH'' = None"
  shows "istream_int (fst (map_index [] ''CONTENT_LENGTH'' (post_headers rq m))) = announced_length rq"
proof -
  have "istream_int [] = 0" by code_simp
  then show ?thesis
    using assms by (auto simp: map_index_def post_headers_def announced_length_def Let_def map_find_map_set split: option.splits)
qed

lemma request_method:
  "GenerateFcgiRequestHeaders cfg rq = Inr m \<Longrightarrow> map_index [] ''REQUEST_METHOD'' m = (rq_method rq, m)"
  by (simp add: map_index_def generate_headers_method)

text \<open>The buffer has 5000 bytes more than the client announces.\<close>

lemma new_client_state_returns:
  assumes "getDocumentRootDir cfg = Some root" "request_script cfg rq = Inr script"
    and "rq_method rq = ''POST'' \<Longrightarrow> - 5000 \<le> announced_length rq \<and> announced_length rq < 2 ^ 31 - 5000"
  shows "\<exists>st. new_client_state junk cfg rq rid = Inr st"
proof (cases "rq_method rq = ''POST''")
  case True
  obtain m where m: "GenerateFcgiRequestHeaders cfg rq = Inr m" using generate_headers [OF assms(1,2)] by blast
  obtain cl m' where cl: "map_index [] ''CONTENT_LENGTH'' (post_headers rq m) = (cl, m')" by fastforce
  then have "istream_int cl = announced_length rq"
    using post_headers_length [OF no_content_length [OF assms(1,2) m], of rq] by simp
  then show ?thesis using True assms(3) m cl request_method [OF m] by (simp add: new_client_state_def BUF_SIZE_def alloc_buffer_def)
qed (rule new_client_state_ok [OF assms(1,2)])

lemma new_client_state_post_length:
  assumes "new_client_state junk cfg rq rid = Inr st" "rq_method rq = ''POST''"
  shows "int (length (buff st)) = 5000 + announced_length rq"
proof -
  from assms(1) obtain m where m: "GenerateFcgiRequestHeaders cfg rq = Inr m"
    by (auto simp: new_client_state_def bindE_eq_Inr)
  then obtain root script where "getDocumentRootDir cfg = Some root" "request_script cfg rq = Inr script"
    by (auto simp: GenerateFcgiRequestHeaders_def Let_def bindE_eq_Inr deref_eq_Inr)
  then have len: "istream_int (fst (map_index [] ''CONTENT_LENGTH'' (post_headers rq m))) = announced_length rq"
    by (intro post_headers_length no_content_length [OF _ _ m])
  obtain cl m' where "map_index [] ''CONTENT_LENGTH'' (post_headers rq m) = (cl, m')" by fastforce
  then show ?thesis
    using assms m request_method [OF m] len
    by (auto simp: new_client_state_def bindE_eq_Inr BUF_SIZE_def alloc_buffer_def split: if_splits)
qed


section \<open>The dispatcher\<close>

text \<open>
  Its state is the set of the requests that are served and the list of those that wait; \<open>K\<close> requests
  can be served at once and \<open>B\<close> can wait. A request that comes is served, or waits, or is
  forgotten; when one is finished, the first one that waits takes its place.
\<close>

type_synonym dispatcher = "nat set \<times> nat list"

definition arrive :: "nat \<Rightarrow> nat \<Rightarrow> nat \<Rightarrow> dispatcher \<Rightarrow> dispatcher" where
  "arrive K B i = (\<lambda>(S, Q).
     if card S < K then (insert i S, Q) else if length Q < B then (S, Q @ [i]) else (S, Q))"

definition finish :: "nat \<Rightarrow> dispatcher \<Rightarrow> dispatcher" where
  "finish i = (\<lambda>(S, Q). case Q of [] \<Rightarrow> (S - {i}, []) | j # Q' \<Rightarrow> (insert j (S - {i}), Q'))"

definition dispatch :: "world \<Rightarrow> ThreadData \<Rightarrow> dispatcher" where
  "dispatch w td = (served w, pending_list (pendingReqQueue td))"

text \<open>
  The settings are there: an address of the backend whose first number is below 256, a document root and a default
  page; and no client announces a body for which the buffer of 5000 bytes more has no size.
\<close>

definition env_ok :: "server_env \<Rightarrow> bool" where
  "env_ok env \<longleftrightarrow> (\<exists>a. server_address (env_junk16 env) (env_cfg env) = Inr a) \<and>
     getDocumentRootDir (env_cfg env) \<noteq> None \<and> getHtml (env_cfg env) \<noteq> None \<and>
     (\<forall>t. rq_method (env_requests env t) = ''POST'' \<longrightarrow>
        - 5000 \<le> announced_length (env_requests env t) \<and> announced_length (env_requests env t) < 2 ^ 31 - 5000)"

lemma env_ok_request:
  assumes "env_ok env"
  shows "\<exists>fr. new_request (env_junk env) (env_cfg env) (env_requests env t) rid = Inr fr"
proof -
  obtain root index where "getDocumentRootDir (env_cfg env) = Some root" "getHtml (env_cfg env) = Some index"
    using assms by (auto simp: env_ok_def)
  moreover from this obtain script where "request_script (env_cfg env) (env_requests env t) = Inr script"
    by (cases "endsWith (rq_path (env_requests env t)) ''/''") (auto simp: request_script_def)
  ultimately show ?thesis
    using new_client_state_returns [of "env_cfg env" root "env_requests env t" script "env_junk env" rid] assms
    by (auto simp: env_ok_def new_request_def)
qed

lemma initiateBackendConnection_returns:
  assumes "env_ok env" "icpts w i \<noteq> None" "conns w c \<noteq> None"
  shows "\<exists>w'. initiateBackendConnection env i c w = Inr w'"
proof -
  obtain icpt conn where h: "icpts w i = Some icpt" "conns w c = Some conn" using assms(2,3) by auto
  obtain a where a: "server_address (env_junk16 env) (env_cfg env) = Inr a"
    using assms(1) by (auto simp: env_ok_def)
  obtain fr where fr: "new_request (env_junk env) (env_cfg env) (env_requests env (txn icpt)) (next_id w) = Inr fr"
    using env_ok_request [OF assms(1)] by blast
  show ?thesis
    using h a fr by (cases a) (auto simp: initiateBackendConnection_def getNext_def set_icpt_def createConnection_def
        createFCGIClient_def Let_def)
qed

lemma served_insert:
  assumes "server_inv w" "initiateBackendConnection env i c w = Inr w'"
  shows "served w' = insert i (served w) \<and> tdata w' = tdata w"
proof -
  from initiateBackendConnection_facts [OF assms(2)] have
    w': "intercept_list w' = (intercept_list w)(next_id w \<mapsto> (i, c))" "tdata w' = tdata w" by auto
  have "intercept_list w (next_id w) = None"
    using server_invD(1) [OF assms(1), of "next_id w"]
    by (cases "intercept_list w (next_id w)") (auto simp: entry_ok_def)
  then have "j \<in> served w' \<longleftrightarrow> j = i \<or> j \<in> served w" for j
    unfolding served_def w' by (auto split: if_splits, metis option.distinct(1))
  with w' show ?thesis by auto
qed

lemma connect_refines:
  assumes inv: "server_inv w" and leak: "no_leak {} w" and env: "env_ok env"
    and td: "tdata w = Some td" and i: "icpts w i \<noteq> None"
  shows "\<exists>w' td'. connect env i w = Inr (0, w') \<and> tdata w' = Some td' \<and>
    maxConn (pool td') = maxConn (pool td) \<and>
    max_queue_size (pendingReqQueue td') = max_queue_size (pendingReqQueue td) \<and>
    dispatch w' td' = arrive (unat (maxConn (pool td))) (unat (max_queue_size (pendingReqQueue td))) i
      (dispatch w td)"
proof -
  have wf: "pool_wf (pool td, conns w)" using server_invD(2) [OF inv td] by (simp add: td_ok_def)
  have none: "conns w (next_addr w) = None" using server_invD(4) [OF inv] by simp
  then have fresh: "next_addr w \<notin> set (connections (pool td))" using wf by (auto simp: pool_wf_def)
  note card = served_bounded(1) [OF inv leak td]
  from getAvailableConnection_law [OF wf fresh, of "env_cfg env"] obtain r p heap where
    get: "getAvailableConnection (env_cfg env) (next_addr w) (pool td, conns w) = Inr (r, p, heap)"
      "maxConn p = maxConn (pool td)" and
    law: "(case r of
        None \<Rightarrow> length (connections (pool td)) = unat (maxConn (pool td)) \<and>
          available_connections (pool td) = [] \<and> p = pool td \<and> heap = conns w
      | Some a \<Rightarrow>
          (if length (connections (pool td)) < unat (maxConn (pool td))
           then a = next_addr w \<and> p = addConnection a (pool td) \<and> heap = (conns w)(a \<mapsto> new_connection (env_cfg env))
           else available_connections (pool td) = a # available_connections p \<and>
             connections p = connections (pool td) \<and>
             (\<exists>c. conns w a = Some c \<and> heap = (conns w)(a \<mapsto> c\<lparr>conn_state := READY\<rparr>))))"
    by (auto split: option.splits if_splits)
  define w1 where "w1 = w\<lparr>conns := heap, next_addr := Suc (next_addr w), tdata := Some (td\<lparr>pool := p\<rparr>)\<rparr>"
  have served1: "served w1 = served w" by (simp add: served_def w1_def)
  show ?thesis
  proof (cases r)
    case None
    with law wf have "card (busy (pool td)) = unat (maxConn (pool td))"
      by (simp add: busy_def pool_wf_def distinct_card)
    with None law get td card show ?thesis
      by (simp add: connect_def addToQueue_def isQueueFull_def dispatch_def arrive_def served_def)
  next
    case (Some c)
    have "card (busy (pool td)) < unat (maxConn (pool td))"
    proof (cases "length (connections (pool td)) < unat (maxConn (pool td))")
      case True
      moreover have "card (busy (pool td)) \<le> length (connections (pool td))"
        unfolding busy_def by (rule le_trans [OF card_mono card_length]) auto
      ultimately show ?thesis by simp
    next
      case False
      with law Some wf have "c \<in> set (connections (pool td))" "c \<notin> busy (pool td)"
        by (auto simp: busy_def pool_wf_def)
      then have "busy (pool td) \<subset> set (connections (pool td))" by (auto simp: busy_def)
      then have "card (busy (pool td)) < card (set (connections (pool td)))" by (rule psubset_card_mono [rotated]) simp
      with wf show ?thesis by (simp add: pool_wf_def distinct_card)
    qed
    moreover have "conns w1 c \<noteq> None" "icpts w1 i \<noteq> None"
      using law Some i by (auto simp: w1_def split: if_splits)
    then obtain w' where w': "initiateBackendConnection env i c w1 = Inr w'"
      using initiateBackendConnection_returns [OF env] by blast
    moreover note served_insert [OF connect_taken(1) [OF inv td get(1), folded w1_def] w']
    moreover have "connect env i w = Inr (0, w')"
      using get td Some w' by (simp add: connect_def w1_def)
    ultimately show ?thesis
      using card served1 get(2) by (simp add: dispatch_def arrive_def w1_def)
  qed
qed

text \<open>A request that ends makes room: its connection is idle again, or closed and gone.\<close>

lemma recycle_refines:
  assumes "conns w c = Some conn" "contp conn" "tdata w = Some td" "intercept_list w 0 = None"
  shows "\<exists>w' td'. recycle c w = Inr w' \<and> tdata w' = Some td' \<and> icpts w' = icpts w \<and>
    maxConn (pool td') = maxConn (pool td) \<and> pendingReqQueue td' = pendingReqQueue td \<and>
    intercept_list w' = intercept_list w"
proof -
  have "(intercept_list w)(0 := None) = intercept_list w" using assms(4) by (auto simp: fun_eq_iff)
  with assms show ?thesis
  proof (cases "req_count conn < max_requests conn")
    case False
    with assms \<open>(intercept_list w)(0 := None) = intercept_list w\<close> show ?thesis
      by (auto simp: recycle_def setState_def set_conn_def connectionClosed_def pool_connectionClosed_def
          delete_connection_def erase_entry_def ats_def TSStatIntIncrement_def releaseFCGIClient_def Let_def)
  qed (simp add: recycle_reuses)
qed

lemma removeIntercept_refines:
  assumes inv: "server_inv (erase_entry rid w)" and leak: "no_leak {} w" and env: "env_ok env"
    and ids: "ids_left w" and l: "intercept_list w rid = Some (i, c)"
    and taken: "taken_connection (erase_entry rid w) c"
    and c: "conns w c = Some conn" "contp conn" and td: "tdata w = Some td"
    and alive: "\<forall>j\<in>set (pending_list (pendingReqQueue td)). icpts w j \<noteq> None"
    and served: "served (erase_entry rid w) = S"
  shows "\<exists>w' td'. removeIntercept env rid w = Inr w' \<and> tdata w' = Some td' \<and>
    dispatch w' td' = (case pending_list (pendingReqQueue td) of [] \<Rightarrow> (S, []) | j # Q \<Rightarrow> (insert j S, Q))"
proof -
  let ?w = "erase_entry rid w"
  have w: "conns ?w c = Some conn" "tdata ?w = Some td" "icpts ?w = icpts w"
    using c td by (simp_all add: erase_entry_def)
  have zero: "intercept_list ?w 0 = None"
    using server_invD(1) [OF inv, of 0] by (cases "intercept_list ?w 0") (auto simp: entry_ok_def)
  from recycle_refines [OF w(1) c(2) w(2) zero] obtain w1 td1 where
    1: "recycle c ?w = Inr w1" "tdata w1 = Some td1" "icpts w1 = icpts w" "maxConn (pool td1) = maxConn (pool td)"
      "pendingReqQueue td1 = pendingReqQueue td" "intercept_list w1 = intercept_list ?w"
    using w(3) by auto
  have run: "removeIntercept env rid w = serve_next env w1" using l 1(1) by (simp add: removeIntercept_def)
  have inv1: "server_inv w1" using recycle_inv [OF inv taken 1(1)] by blast
  have leak1: "no_leak {} w1"
    using recycle_no_leak [OF no_leak_erase [OF leak l] zero server_invD(5) [OF inv] 1(1)] by simp
  have S: "served w1 = S" using served 1(6) by (simp add: served_def)
  show ?thesis
  proof (cases "pending_list (pendingReqQueue td)")
    case Nil
    with run 1 S show ?thesis by (simp add: serve_next_def popFromQueue_def dispatch_def)
  next
    case (Cons j Q)
    define td2 w2 where "td2 = td1\<lparr>pendingReqQueue := (pendingReqQueue td1)\<lparr>pending_list := Q\<rparr>\<rparr>"
      and "w2 = w1\<lparr>tdata := Some td2\<rparr>"
    have inv2: "server_inv w2"
      using server_inv_pop(1) [OF inv1 1(2), of j Q] Cons 1(5) by (simp add: w2_def td2_def)
    have leak2: "no_leak {} w2" by (rule no_leak_same [OF leak1]) (simp_all add: w2_def td2_def 1(2))
    have "icpts w2 j \<noteq> None" using alive Cons 1(3) by (simp add: w2_def)
    with connect_refines [OF inv2 leak2 env, of td2 j] obtain w' td' where
      con: "connect env j w2 = Inr (0, w')" "tdata w' = Some td'"
        "dispatch w' td' = arrive (unat (maxConn (pool td2))) (unat (max_queue_size (pendingReqQueue td2))) j
          (dispatch w2 td2)" by (auto simp: w2_def)
    have "serve_next env w1 = Inr w'"
      using con(1) Cons 1(2,5) by (simp add: serve_next_def popFromQueue_def w2_def td2_def)
    moreover have "card S < unat (maxConn (pool td))"
    proof -
      have "busy (pool td1) = working ?w"
        using working_busy [OF inv1 leak1 1(2)] 1(6) by (simp add: working_def)
      moreover have "c \<notin> working ?w" "c \<in> busy (pool td)"
        using taken w(2) by (auto simp: taken_connection_def working_def busy_def)
      ultimately have "busy (pool td1) \<subset> busy (pool td)"
        using working_subset_busy [OF inv w(2)] by auto
      moreover have "card (busy (pool td)) \<le> length (connections (pool td))"
        unfolding busy_def by (rule le_trans [OF card_mono card_length]) auto
      moreover have "length (connections (pool td)) \<le> unat (maxConn (pool td))"
        using server_invD(2) [OF inv w(2)] by (simp add: td_ok_def pool_wf_def)
      ultimately have "card (busy (pool td1)) < unat (maxConn (pool td))"
        using psubset_card_mono [of "busy (pool td)" "busy (pool td1)"] by (simp add: busy_def)
      with served_bounded(1) [OF inv1 leak1 1(2)] S show ?thesis by simp
    qed
    moreover have "dispatch w2 td2 = (S, Q)"
      using S by (simp add: dispatch_def w2_def td2_def served_def)
    ultimately show ?thesis
      using run con Cons 1(4) by (simp add: arrive_def td2_def)
  qed
qed


section \<open>Properties\<close>

text \<open>C7: No connection is lost: in every state the server reaches, the connections of the pool that
  are not idle are exactly those that the table gives to a request, one for each request that is
  served. Their number is at most the quotient of \<open>max_connections\<close> by 6, as an unsigned number of 32 bits, which is
  at most \<open>max_connections\<close> / 6 for a setting that is not negative (from -6 down it wraps to a huge number).\<close>

theorem no_connection_lost:
  assumes "reachable env w" "tdata w = Some td"
  shows "busy (pool td) = {c. \<exists>rid i. intercept_list w rid = Some (i, c)} \<and>
    card {i. \<exists>rid c. intercept_list w rid = Some (i, c)} = card (busy (pool td)) \<and>
    card (busy (pool td)) \<le> unat (word_of_int (getMaxConnLength (env_cfg env) sdiv 6) :: uint) \<and>
    (0 \<le> getMaxConnLength (env_cfg env) \<longrightarrow> int (card (busy (pool td))) \<le> getMaxConnLength (env_cfg env) div 6)"
proof -
  have "unat (maxConn (pool td)) = pool_size (env_cfg env)"
    using reachable_sized [OF assms(1)] assms(2) by (simp add: data_sized_def sized_def)
  then have "card (busy (pool td)) \<le> pool_size (env_cfg env)"
    using served_bounded [OF reachable_inv reachable_no_leak, OF assms(1,1,2)] by simp
  moreover from this have "0 \<le> getMaxConnLength (env_cfg env) \<longrightarrow>
      int (card (busy (pool td))) \<le> getMaxConnLength (env_cfg env) div 6"
    using pool_size_le [of "env_cfg env"] by linarith
  ultimately show ?thesis
    using working_busy [OF reachable_inv reachable_no_leak, OF assms(1,1,2)]
      served_bounded(1) [OF reachable_inv reachable_no_leak, OF assms(1,1,2)]
    by (simp add: working_def served_def pool_size_def)
qed

text \<open>A thread without data gets them with its first request.\<close>

definition thread_data :: "server_env \<Rightarrow> world \<Rightarrow> ThreadData" where
  "thread_data env w = (case tdata w of Some td \<Rightarrow> td | None \<Rightarrow> new_thread_data (env_cfg env))"

lemma thread_data_sized: "reachable env w \<Longrightarrow> sized (env_cfg env) (thread_data env w)"
  using reachable_sized [of env w] sized_new by (auto simp: data_sized_def thread_data_def split: option.splits)

lemma request_gets_data:
  assumes "reachable env w" "tdata w = None \<Longrightarrow> \<exists>k. KeyCreated k \<in> set rs" "\<forall>k. KeyCreated k \<in> set rs \<longrightarrow> k \<noteq> 0"
    and new: "new_icpt env t (TSStatIntIncrement reqBegId 1 w) = (i, w2)"
  shows "\<exists>w3. (if threadKey w2 = 0 then setup_loop (env_cfg env) rs w2 else Some w2) = Some w3 \<and>
    server_inv w3 \<and> no_leak {} w3 \<and> tdata w3 = Some (thread_data env w) \<and> icpts w3 i \<noteq> None \<and> i = next_addr w \<and>
    served w3 = served w"
proof -
  have inv: "server_inv w" and leak: "no_leak {} w" using reachable_inv reachable_no_leak assms(1) by blast+
  have "server_inv (TSStatIntIncrement reqBegId 1 w)" using inv by simp
  note w2 = new_icpt_inv [OF this new]
  have i: "i = next_addr w" "icpts w2 i \<noteq> None" "tdata w2 = tdata w" "intercept_list w2 = intercept_list w"
    using new by (auto simp: new_icpt_def set_icpt_def)
  have leak2: "no_leak {} w2"
    by (rule no_leak_same [OF leak]) (use new in \<open>auto simp: new_icpt_def set_icpt_def\<close>)
  have key: "threadKey w2 = 0 \<longleftrightarrow> tdata w = None" using w2(3) server_invD(6) [OF inv] by simp
  show ?thesis
  proof (cases "tdata w")
    case None
    then have "setup_loop (env_cfg env) rs w2 \<noteq> None"
      using assms(2) setup_loop_Some [of "env_cfg env" rs w2] by blast
    then obtain w3 where w3: "setup_loop (env_cfg env) rs w2 = Some w3" by auto
    note set = setup_loop_inv [OF w3 w2(1) _ assms(3)] setup_loop_no_leak [OF w3 leak2] setup_loop_data [OF w3]
    then show ?thesis using None key w3 i by (simp add: thread_data_def served_def)
  next
    case (Some td)
    then show ?thesis using key w2(1) leak2 i by (simp add: thread_data_def served_def)
  qed
qed

text \<open>C10: A request that the cache cannot answer, whose path has no line break, is handled as the dispatcher handles
  one that arrives: it is served if fewer requests are served than the settings allow connections, else it waits if fewer
  wait than the settings allow, else it is forgotten. The handler returns, also for the first request of a thread,
  whose data it makes, provided that one of its attempts to make a key succeeds (and gives no key 0, which the code
  takes for none). Presumed are a transaction that Traffic Server has at hand, settings that can be
  used (an address of the backend whose first number is below 256, a document root, a default page) and that no
  client of a \<open>POST\<close> announces a length that together with 5000 is negative or 2^31 or more.\<close>

theorem request_arrives:
  assumes "reachable env w" "env_ok env"
    and "tdata w = None \<Longrightarrow> \<exists>k. KeyCreated k \<in> set rs" "\<forall>k. KeyCreated k \<in> set rs \<longrightarrow> k \<noteq> 0"
    and "ats_handle tr = Some t" "\<not> cache_hit_fresh tr"
    and "\<forall>c\<in>set (url_path tr). c \<noteq> CHR 0x0A \<and> c \<noteq> CHR 0x0D"
  shows "\<exists>w' td'. handleReadCacheLookupComplete env rs tr self w = Some (Inr w') \<and> tdata w' = Some td' \<and>
    dispatch w' td' = arrive (pool_size (env_cfg env)) (queue_size (env_cfg env))
      (next_addr w) (dispatch w (thread_data env w))"
proof -
  obtain i w2 where new: "new_icpt env t (TSStatIntIncrement reqBegId 1 w) = (i, w2)" by fastforce
  from request_gets_data [OF assms(1,3,4) new] obtain w3 where
    w3: "(if threadKey w2 = 0 then setup_loop (env_cfg env) rs w2 else Some w2) = Some w3"
      "server_inv w3" "no_leak {} w3" "tdata w3 = Some (thread_data env w)" "icpts w3 i \<noteq> None" "i = next_addr w"
      "served w3 = served w" by blast
  from connect_refines [OF w3(2,3) assms(2) w3(4,5)] obtain w' td' where
    "connect env i w3 = Inr (0, w')" "tdata w' = Some td'"
    "dispatch w' td' = arrive (pool_size (env_cfg env)) (queue_size (env_cfg env)) i (dispatch w3 (thread_data env w))"
    using thread_data_sized [OF assms(1)] by (auto simp: sized_def)
  moreover have "url_match (url_path tr) = url_path tr"
    using assms(7) by (simp add: url_match_iff)
  ultimately show ?thesis
    using assms(5,6) new w3(1,6,7) by (simp add: handleReadCacheLookupComplete_def dispatch_def)
qed

lemma served_erase:
  assumes "server_inv w" "intercept_list w rid = Some (i, c)"
  shows "served (erase_entry rid w) = served w - {i}"
proof -
  have "j \<in> served (erase_entry rid w) \<longleftrightarrow> (\<exists>r d. r \<noteq> rid \<and> intercept_list w r = Some (j, d))" for j
    by (auto simp: served_def erase_entry_def)
  moreover have "r \<noteq> rid \<longleftrightarrow> j \<noteq> i" if "intercept_list w r = Some (j, d)" for r j d
    using entry_unique [OF assms(1,2) that] assms(2) that by auto
  ultimately have "j \<in> served (erase_entry rid w) \<longleftrightarrow> j \<in> served w \<and> j \<noteq> i" for j
    unfolding served_def by blast
  then show ?thesis by auto
qed

lemma finish_case:
  "finish i (dispatch w td) =
    (case pending_list (pendingReqQueue td) of [] \<Rightarrow> (served w - {i}, []) | j # Q \<Rightarrow> (insert j (served w - {i}), Q))"
  by (simp add: finish_def dispatch_def)

section \<open>Requests that end\<close>

lemma response_finishes:
  assumes "reachable env w" "tdata w = Some td" "env_ok env" "ids_left w"
    and "conns w c = Some conn" "contp conn" "iobuf (readio conn) \<noteq> None" "vio (readio conn)"
    and "transfer_blocks env blocks False 0 [] (fcgiRequest conn) = Inr (True, n, data, fr)"
    and "intercept_list w (requestId conn) = Some (i, c)"
    and "\<forall>j\<in>set (pending_list (pendingReqQueue td)). icpts w j \<noteq> None"
  shows "\<exists>w' td'. handlePHPConnectionEvents env io (VCONN_READ_READY blocks) c w = Inr w' \<and>
    tdata w' = Some td' \<and> dispatch w' td' = finish i (dispatch w td)"
proof -
  have inv: "server_inv w" and leak: "no_leak {} w"
    using reachable_inv reachable_no_leak assms(1) by blast+
  from server_invD(1) [OF inv assms(10)] obtain icpt where
    icpt: "icpts w i = Some icpt" "si_request_id icpt = requestId conn" by (auto simp: entry_ok_def)
  define cs where "cs = (if data = [] then [] else [Produce i data]) @ [SetOutputComplete i]"
  define w1 where "w1 = ats cs (set_conn c (conn\<lparr>fcgiRequest := fr, conn_state := COMPLETE\<rparr>) w)"
  define w2 where "w2 = set_icpt i (icpt\<lparr>outputCompleteState := True\<rparr>) w1"
  have w2: "w2 = after_response i c conn icpt fr data w"
    by (simp add: w2_def w1_def after_response_def cs_def)
  have inv1: "server_inv w1" unfolding w1_def
    by (rule server_inv_ats [OF server_inv_set_conn [OF inv assms(5)]]) (auto simp: cs_def split: if_splits)
  have l1: "intercept_list w1 (requestId conn) = Some (i, c)" "icpts w1 i = Some icpt"
    using assms(10) icpt by (simp_all add: w1_def ats_def set_conn_def)
  have inv2: "server_inv (erase_entry (requestId conn) w2)"
    unfolding w2_def by (rule server_inv_complete [OF inv1 l1]) simp
  have leak2: "no_leak {} w2" unfolding w2_def w1_def using no_leak_set_conn [OF leak assms(5)] by simp
  have taken: "taken_connection (erase_entry (requestId conn) w2) c"
    using entry_taken [OF inv assms(10)]
    by (auto simp: taken_connection_def w2_def w1_def world_ops)
  have "served (erase_entry (requestId conn) w2) = served w - {i}"
    using served_erase [OF inv assms(10)] by (simp add: served_def w2_def w1_def world_ops)
  moreover have "ids_left w2" using assms(4) by (simp add: w2_def w1_def)
  moreover have "intercept_list w2 (requestId conn) = Some (i, c)" "tdata w2 = Some td"
    "conns w2 c = Some (conn\<lparr>fcgiRequest := fr, conn_state := COMPLETE\<rparr>)"
    "\<forall>j\<in>set (pending_list (pendingReqQueue td)). icpts w2 j \<noteq> None"
    using assms(2,10,11) by (simp_all add: w2_def w1_def world_ops)
  ultimately obtain w' td' where "removeIntercept env (requestId conn) w2 = Inr w'" "tdata w' = Some td'"
    "dispatch w' td' = finish i (dispatch w td)"
    using removeIntercept_refines [OF inv2 leak2 assms(3) _ _ taken] assms(6) unfolding finish_case by force
  then show ?thesis
    using read_ready_finishes [OF assms(5,7-10) icpt, of io, folded w2]
    by (auto simp: dispatch_def served_def)
qed

lemma aborted_request_finishes:
  assumes "reachable env w" "tdata w = Some td" "env_ok env" "ids_left w"
    and "icpts w i = Some icpt" "intercept_list w (si_request_id icpt) = Some (i, c)"
    and "conns w c = Some conn" "contp conn"
    and "\<forall>j\<in>set (pending_list (pendingReqQueue td)). icpts w j \<noteq> None"
  shows "\<exists>w' td'. delete_intercept env i w = Inr w' \<and> icpts w' i = None \<and>
    tdata w' = Some td' \<and> dispatch w' td' = finish i (dispatch w td)"
proof -
  have inv: "server_inv w" and leak: "no_leak {} w"
    using reachable_inv reachable_no_leak assms(1) by blast+
  let ?rid = "si_request_id icpt"
  define w1 where "w1 = set_icpt i (icpt\<lparr>clientAborted := True\<rparr>) w"
  have out: "\<not> outputCompleteState icpt"
    using server_invD(1) [OF inv assms(6)] assms(5) by (auto simp: entry_ok_def)
  have inv1: "server_inv w1" unfolding w1_def by (rule server_inv_set_icpt [OF inv assms(5)]) simp_all
  have leak1: "no_leak {} w1" "ids_left w1" using leak assms(4) by (simp_all add: w1_def)
  have w1: "intercept_list w1 ?rid = Some (i, c)" "conns w1 c = Some conn" "tdata w1 = Some td"
    "\<forall>j\<in>set (pending_list (pendingReqQueue td)). icpts w1 j \<noteq> None"
    using assms(2,6,7,9) by (simp_all add: w1_def set_icpt_def)
  have "served (erase_entry ?rid w1) = served w - {i}"
    using served_erase [OF inv assms(6)] by (simp add: served_def w1_def world_ops)
  from removeIntercept_refines [OF server_inv_erase [OF inv1] leak1(1) assms(3) leak1(2) w1(1)
      entry_taken [OF inv1 w1(1)] w1(2) assms(8) w1(3,4) this]
  obtain w2 td' where "removeIntercept env ?rid w1 = Inr w2" "tdata w2 = Some td'"
    "dispatch w2 td' = finish i (dispatch w td)"
    unfolding finish_case by blast
  with out assms(5) show ?thesis
    by (simp add: delete_intercept_def w1_def [symmetric] dispatch_def served_def)
qed


text \<open>No intercept is made or deleted when a connection is given back and handed on.\<close>

lemma recycle_icpts: "recycle c w = Inr w' \<Longrightarrow> icpts w' = icpts w"
  by (auto simp: recycle_def reuseConnection_def setState_def connectionClosed_def pool_connectionClosed_def
      bindE_eq_Inr world_ops Let_def split: if_splits)

lemma initiateBackendConnection_dom:
  "initiateBackendConnection env i c w = Inr w' \<Longrightarrow> icpts w' j = None \<longleftrightarrow> icpts w j = None"
  by (drule initiateBackendConnection_facts) (auto split: if_splits)

lemma connect_dom: "connect env i w = Inr (r, w') \<Longrightarrow> icpts w' j = None \<longleftrightarrow> icpts w j = None"
  by (auto simp: connect_def bindE_eq_Inr Let_def initiateBackendConnection_dom split: option.splits)

lemma serve_next_dom: "serve_next env w = Inr w' \<Longrightarrow> icpts w' j = None \<longleftrightarrow> icpts w j = None"
  by (cases "tdata w"; cases "pending_list (pendingReqQueue (the (tdata w)))")
    (auto simp: serve_next_def popFromQueue_def bindE_eq_Inr connect_dom)

lemma removeIntercept_dom: "removeIntercept env rid w = Inr w' \<Longrightarrow> icpts w' j = None \<longleftrightarrow> icpts w j = None"
  by (auto simp: removeIntercept_def bindE_eq_Inr erase_entry_def serve_next_dom recycle_icpts
      split: option.splits)


text \<open>The two ways in which a request that is served ends.\<close>

datatype ending = Responded "bytes list" | ClientGone

definition end_request :: "server_env \<Rightarrow> ats_io \<Rightarrow> ending \<Rightarrow> nat \<Rightarrow> nat \<Rightarrow> world \<Rightarrow> world result" where
  "end_request env io e i c w =
     (case e of
        Responded blocks \<Rightarrow> handlePHPConnectionEvents env io (VCONN_READ_READY blocks) c w
      | ClientGone \<Rightarrow> delete_intercept env i w)"

text \<open>Request \<open>i\<close> is served by connection \<open>c\<close>, and the blocks complete its response, or its
  intercept was given to Traffic Server, which may delete it.\<close>

definition may_end :: "server_env \<Rightarrow> ending \<Rightarrow> nat \<Rightarrow> nat \<Rightarrow> world \<Rightarrow> bool" where
  "may_end env e i c w \<longleftrightarrow> ids_left w \<and>
     (\<exists>rid conn. intercept_list w rid = Some (i, c) \<and> conns w c = Some conn \<and> contp conn \<and>
        (case e of
           Responded blocks \<Rightarrow> iobuf (readio conn) \<noteq> None \<and> vio (readio conn) \<and>
             (\<exists>n data fr. transfer_blocks env blocks False 0 [] (fcgiRequest conn) = Inr (True, n, data, fr))
         | ClientGone \<Rightarrow> \<exists>t. AddPlugin t i \<in> set (calls w)))"

definition waiting_alive :: "world \<Rightarrow> ThreadData \<Rightarrow> bool" where
  "waiting_alive w td \<longleftrightarrow> (\<forall>j\<in>set (pending_list (pendingReqQueue td)). icpts w j \<noteq> None)"

lemma end_request_returns:
  assumes "reachable env w" "tdata w = Some td" "env_ok env" "may_end env e i c w" "waiting_alive w td"
  shows "\<exists>w' td'. end_request env io e i c w = Inr w' \<and> tdata w' = Some td' \<and>
    dispatch w' td' = finish i (dispatch w td)"
proof -
  from assms(4) obtain rid conn where ids: "ids_left w" and l: "intercept_list w rid = Some (i, c)"
    and c: "conns w c = Some conn" "contp conn" by (auto simp: may_end_def)
  from server_invD(1) [OF reachable_inv [OF assms(1)] l] c obtain icpt where
    i: "icpts w i = Some icpt" "si_request_id icpt = rid" and rid: "requestId conn = rid"
    by (auto simp: entry_ok_def)
  note alive = assms(5) [unfolded waiting_alive_def]
  show ?thesis
  proof (cases e)
    case (Responded blocks)
    with assms(4) c obtain n data fr where "iobuf (readio conn) \<noteq> None" "vio (readio conn)"
      "transfer_blocks env blocks False 0 [] (fcgiRequest conn) = Inr (True, n, data, fr)"
      by (auto simp: may_end_def)
    with response_finishes [OF assms(1-3) ids c _ _ _ _ alive] l rid Responded show ?thesis
      by (simp add: end_request_def)
  next
    case ClientGone
    with aborted_request_finishes [OF assms(1-3) ids i(1) _ c alive] l i(2) show ?thesis
      by (auto simp: end_request_def)
  qed
qed

lemma end_request_step:
  assumes "end_request env io e i c w = Inr w'" "may_end env e i c w"
  shows "server_step env w w'"
  using assms
  by (cases e) (auto simp: end_request_def may_end_def intro: step_event step_delete)

lemma interceptTransferData_icpts:
  "interceptTransferData env i c blocks w = Inr (status, w') \<Longrightarrow> icpts w' = icpts w"
  by (auto simp: ats_def set_conn_def dest!: interceptTransferData_facts)

lemma response_complete_dom:
  "response_complete env r c w = Inr w' \<Longrightarrow> icpts w' j = None \<longleftrightarrow> icpts w j = None"
  by (auto simp: response_complete_def setResponseOutputComplete_def setState_def bindE_eq_Inr heap_get_Inr
      set_conn_def set_icpt_def ats_def TSStatIntIncrement_def removeIntercept_dom Let_def split: if_splits)

lemma end_request_dom:
  assumes "end_request env io e i c w = Inr w'" "j \<noteq> i"
  shows "icpts w' j = None \<longleftrightarrow> icpts w j = None"
proof (cases e)
  case ClientGone
  with assms show ?thesis
    by (auto simp: end_request_def delete_intercept_def bindE_eq_Inr set_icpt_def TSStatIntIncrement_def
        removeIntercept_dom split: if_splits)
next
  case (Responded blocks)
  with assms have "on_read_ready env blocks c w = Inr w'"
    by (simp add: end_request_def handlePHPConnectionEvents_def)
  then show ?thesis
    by (auto simp: on_read_ready_def bindE_eq_Inr interceptTransferData_icpts response_complete_dom
        split: option.splits if_splits)
qed

lemma end_request_alive:
  assumes "reachable env w" "tdata w = Some td" "may_end env e i c w" "waiting_alive w td"
    and "end_request env io e i c w = Inr w'" "dispatch w' td' = finish i (dispatch w td)"
  shows "waiting_alive w' td'"
proof -
  from assms(3) obtain rid where "intercept_list w rid = Some (i, c)" by (auto simp: may_end_def)
  from server_invD(1) [OF reachable_inv [OF assms(1)] this] assms(2)
  have "i \<notin> set (pending_list (pendingReqQueue td))" by (auto simp: entry_ok_def)
  moreover have "set (pending_list (pendingReqQueue td')) \<subseteq> set (pending_list (pendingReqQueue td))"
    using assms(6) by (auto simp: dispatch_def finish_def split: list.splits)
  ultimately have "j \<noteq> i \<and> icpts w j \<noteq> None" if "j \<in> set (pending_list (pendingReqQueue td'))" for j
    using that assms(4) by (auto simp: waiting_alive_def)
  with end_request_dom [OF assms(5)] show ?thesis unfolding waiting_alive_def by blast
qed

section \<open>Properties of requests that end\<close>

text \<open>C11: A request that is served and ends, because its connection is read and the blocks that came complete its
  response, or because its client went away and Traffic Server deletes its intercept, is handled as the dispatcher finishes a request: it is no longer served, and the first one that
  waits takes its place, whether the connection is kept or closed. If the requests that wait are all there (none of
  their clients went away, which would crash the handler), the handler returns, and afterwards they are all there again.
  Presumed are the settings and the announced lengths as for a request that arrives, and that a request id is left.\<close>

theorem request_finishes:
  assumes "reachable env w" "tdata w = Some td" "env_ok env" "may_end env e i c w" "waiting_alive w td"
  shows "\<exists>w' td'. end_request env io e i c w = Inr w' \<and> reachable env w' \<and> tdata w' = Some td' \<and>
    dispatch w' td' = finish i (dispatch w td) \<and> waiting_alive w' td'"
proof -
  from end_request_returns [OF assms] obtain w' td' where
    w': "end_request env io e i c w = Inr w'" "tdata w' = Some td'" "dispatch w' td' = finish i (dispatch w td)"
    by blast
  with end_request_alive [OF assms(1,2,4,5) w'(1,3)]
    reachable_step [OF assms(1) end_request_step [OF w'(1) assms(4)]] show ?thesis by blast
qed

text \<open>What happens one thing after the other: the end of a request, marked, or any step of the server or of the other threads.\<close>

definition ends_request :: "server_env \<Rightarrow> world \<Rightarrow> world \<Rightarrow> bool" where
  "ends_request env w w' \<longleftrightarrow> (\<exists>io e i c. may_end env e i c w \<and> end_request env io e i c w = Inr w')"

fun server_run :: "server_env \<Rightarrow> world \<Rightarrow> (bool \<times> world) list \<Rightarrow> bool" where
  "server_run env w [] \<longleftrightarrow> True"
| "server_run env w ((e, w') # ws) \<longleftrightarrow>
     (if e then ends_request env w w' else server_step env w w' \<or> interference w w') \<and> server_run env w' ws"

lemma ends_request_queue:
  assumes "ends_request env w w'" "server_inv w" "tdata w = Some td" "waiting td \<noteq> []"
  shows "head_served td w'"
proof -
  from assms(1) obtain io e i c where may: "may_end env e i c w" and ends: "end_request env io e i c w = Inr w'"
    by (auto simp: ends_request_def)
  then obtain rid conn where l: "intercept_list w rid = Some (i, c)" "conns w c = Some conn" by (auto simp: may_end_def)
  show ?thesis
  proof (cases e)
    case (Responded blocks)
    then have read: "on_read_ready env blocks c w = Inr w'"
      using ends by (simp add: end_request_def handlePHPConnectionEvents_def)
    have "intercept_list w (requestId conn) = Some (i, c)"
      using server_invD(1) [OF assms(2) l(1)] l by (auto simp: entry_ok_def)
    then show ?thesis
      using read_ready_queue(2) [OF read assms(2,3) l(2)] may l Responded assms(4) by (auto simp: may_end_def)
  next
    case ClientGone
    then show ?thesis using ends delete_queue(2) [OF _ assms(2,3) l(1)] assms(4) by (simp add: end_request_def)
  qed
qed

lemma ends_request_step: "ends_request env w w' \<Longrightarrow> server_step env w w'"
  by (auto simp: ends_request_def intro: end_request_step)

lemma step_waiting:
  assumes "queue_step td w'" "n < length (waiting td)"
  obtains (served) "n = 0" "at_backend w' (waiting td ! 0)"
    | (waits) td' where "tdata w' = Some td'" "n < length (waiting td')" "waiting td' ! n = waiting td ! n" "\<not> head_served td w'"
    | (moves) m td' where "n = Suc m" "tdata w' = Some td'" "m < length (waiting td')" "waiting td' ! m = waiting td ! n"
proof (cases "head_served td w'")
  case True
  then obtain td' j where "tdata w' = Some td'" "waiting td = j # waiting td'" "at_backend w' j"
    by (auto simp: head_served_def)
  then show thesis using that assms(2) by (cases n) auto
next
  case False
  then obtain td' xs where "tdata w' = Some td'" "waiting td' = waiting td @ xs"
    using assms(1) by (auto simp: queue_step_def queued_def)
  then show thesis using that(2) assms(2) False by (simp add: nth_append)
qed

lemma run_serves:
  assumes "server_run env w ws" "reachable env w" "tdata w = Some td" "n < length (waiting td)" "n < length (filter fst ws)"
  shows "\<exists>w'\<in>snd ` set ws. at_backend w' (waiting td ! n)"
  using assms
proof (induction env w ws arbitrary: td n rule: server_run.induct)
  case (2 env w e w1 ws)
  note inv = reachable_inv [OF 2(3)]
  show ?case
  proof (cases "\<not> e \<and> interference w w1")
    case True
    then have "reachable env w1" "tdata w1 = Some td"
      using reachable_others [OF 2(3)] 2(4) by (simp_all add: interference_def)
    then show ?thesis using 2 True by auto
  next
    case False
    then have step: "server_step env w w1" using 2(2) ends_request_step by (auto split: if_splits)
    have r1: "reachable env w1" by (rule reachable_step [OF 2(3) step])
    have ended: "head_served td w1" if e
      by (rule ends_request_queue [OF _ inv 2(4)]) (use 2(2,5) that in auto)
    note IH = 2(1) [OF _ r1]
    from server_step_queue [OF step inv 2(4)] 2(5) show ?thesis
    proof (cases rule: step_waiting)
      case served
      then show ?thesis by simp
    next
      case (waits td')
      then have "\<exists>w'\<in>snd ` set ws. at_backend w' (waiting td' ! n)"
        using IH [of td' n] 2(2,6) ended by (cases e) auto
      then show ?thesis using waits(3) by auto
    next
      case (moves m td')
      then have "\<exists>w'\<in>snd ` set ws. at_backend w' (waiting td' ! m)"
        using IH [of td' m] 2(2,6) by (auto split: if_splits)
      then show ?thesis using moves(4) by auto
    qed
  qed
qed simp

text \<open>C12: A request that waits is served in its turn. Whatever else happens in between - requests that come, events,
  connections that are lost, clients that go away, steps of the other threads - as long as the handlers return: when as many
  requests have ended, with their response or with their client, as there are up to its place in the queue, there was a moment at which it was given a connection.\<close>

theorem waiting_request_is_served:
  assumes "reachable env w" "tdata w = Some td" "n < length (pending_list (pendingReqQueue td))"
    and "server_run env w ws" "n < length (filter fst ws)"
  shows "\<exists>w'\<in>snd ` set ws. \<exists>rid c. intercept_list w' rid = Some (pending_list (pendingReqQueue td) ! n, c)"
  using run_serves [OF assms(4,1,2)] assms(3,5) by (simp add: waiting_def at_backend_def)

end
