(* ===== verification/Encoder_Safety.thy ===== *)
theory Encoder_Safety
  imports Fcgi_Request
begin

text \<open>
  The encoder under every use: whatever sequence of \<open>createBeginRequest\<close>, \<open>postBodyChunk\<close> and
  \<open>emptyParam\<close> a request object goes through, its state keeps its type, and a write past
  the end of its buffer is the only way to fail.
\<close>

datatype encoder_call = BeginRequest | BodyChunk string | EndOfInput

fun encoder_step :: "encoder_call \<Rightarrow> FCGIClientState \<Rightarrow> FCGIClientState result" where
  "encoder_step BeginRequest st = createBeginRequest st"
| "encoder_step (BodyChunk data) st = postBodyChunk data st"
| "encoder_step EndOfInput st = emptyParam st"

fun encoder_run :: "encoder_call list \<Rightarrow> FCGIClientState \<Rightarrow> FCGIClientState result" where
  "encoder_run [] st = Inr st"
| "encoder_run (x # xs) st = bindE (encoder_step x st) (encoder_run xs)"

text \<open>The type of a state: the position is in the block, the block has the size it was made with, the
  id is that of the request, and the method is the request's.\<close>

definition encoder_typed :: "nat \<Rightarrow> uint \<Rightarrow> string option \<Rightarrow> FCGIClientState \<Rightarrow> bool" where
  "encoder_typed n rid rmethod st \<longleftrightarrow> buffer_wf st \<and> length (buff st) = n \<and> request_id st = rid \<and>
     map_find (requestHeaders st) ''REQUEST_METHOD'' = rmethod"

lemma createBeginRequest_frame:
  "createBeginRequest st = Inr st' \<Longrightarrow> buffer_wf st \<Longrightarrow> request_frame st' = request_frame st"
  using createBeginRequest_fits [of st] createBeginRequest_Inl_iff [of st BufferOverflow]
  by (cases "length (sent st) + 32 + length (params_bytes (requestHeaders st)) \<le> length (buff st)")
    (auto simp: sent_length)

lemma createBeginRequest_typed:
  assumes "encoder_typed n rid m st" "createBeginRequest st = Inr st'"
  shows "encoder_typed n rid m st'"
  using assms createBeginRequest_Inr [of st st'] createBeginRequest_frame [OF assms(2)]
  by (auto simp: encoder_typed_def buffer_wf_def request_frame_def)

lemma postBodyChunk_typed:
  assumes "encoder_typed n rid m st" "postBodyChunk data st = Inr st'"
  shows "encoder_typed n rid m st'"
  using assms
  by (auto simp: postBodyChunk_def Let_def bindE_eq_Inr encoder_typed_def buffer_wf_def request_frame_def
      split: if_splits dest!: emit_Inr)

lemma emptyParam_typed:
  assumes "encoder_typed n rid (Some m) st" "emptyParam st = Inr st'"
  shows "encoder_typed n rid (Some m) st'"
  using assms
  by (auto simp: emptyParam_def map_index_def Let_def encoder_typed_def buffer_wf_def request_frame_def
      split: if_splits dest!: emit_Inr)

lemma encoder_step_typed:
  "encoder_typed n rid (Some m) st \<Longrightarrow> encoder_step x st = Inr st' \<Longrightarrow> encoder_typed n rid (Some m) st'"
  by (cases x) (auto intro: createBeginRequest_typed postBodyChunk_typed emptyParam_typed)

lemma postBodyChunk_Inl: "postBodyChunk data st = Inl e \<Longrightarrow> e = BufferOverflow"
  by (auto simp: postBodyChunk_def Let_def bindE_eq_Inl split: if_splits dest: emit_Inl)

lemma emptyParam_Inl: "emptyParam st = Inl e \<Longrightarrow> e = BufferOverflow"
  by (auto simp: emptyParam_def Let_def case_prod_beta split: if_splits dest: emit_Inl)

lemma encoder_step_Inl: "encoder_step x st = Inl e \<Longrightarrow> e = BufferOverflow"
  by (cases x) (auto dest: createBeginRequest_Inl postBodyChunk_Inl emptyParam_Inl)

lemma encoder_run_typed:
  "encoder_typed n rid (Some m) st \<Longrightarrow> encoder_run xs st = Inr st' \<Longrightarrow> encoder_typed n rid (Some m) st'"
  by (induction xs arbitrary: st) (auto simp: bindE_eq_Inr dest: encoder_step_typed)

lemma encoder_run_Inl: "encoder_run xs st = Inl e \<Longrightarrow> e = BufferOverflow"
  by (induction xs arbitrary: st) (auto simp: bindE_eq_Inl dest: encoder_step_Inl)

lemma map_find_post_headers:
  "map_find (post_headers rq m) ''REQUEST_METHOD'' = map_find m ''REQUEST_METHOD''"
  by (simp add: post_headers_def Let_def map_find_map_set split: option.split)

lemma new_client_state_typed:
  assumes "new_client_state junk cfg rq rid = Inr st"
  shows "encoder_typed (length (buff st)) rid (Some (rq_method rq)) st"
proof -
  from assms obtain m n m' where m: "GenerateFcgiRequestHeaders cfg rq = Inr m"
    and n: "map_find m' ''REQUEST_METHOD'' = Some (rq_method rq)"
    and st: "bindE (alloc_buffer junk n) (\<lambda>mem. Inr \<lparr>buff = mem, pBuffInc = 0, request = None, header = None,
      postHeader = None, requestHeaders = m', request_id = rid\<rparr>) = Inr st"
    using generate_headers_method [of cfg rq]
    by (cases "rq_method rq = ''POST''")
      (auto simp: new_client_state_def bindE_eq_Inr map_index_value map_find_map_index map_find_post_headers
        case_prod_beta Let_def)
  from st n show ?thesis
    by (auto simp: bindE_eq_Inr alloc_buffer_def encoder_typed_def buffer_wf_def split: if_splits)
qed

text \<open>C19: A request object keeps its type through every sequence of its operations: from its
  constructor on, the position stays in the block, the block keeps its size (an \<open>int\<close>), the id and
  the method are those of the request; and a write past the end of the block is the only failure.\<close>

theorem encoder_type_safe:
  assumes "new_client_state junk cfg rq rid = Inr st"
  shows "case encoder_run xs st of
      Inl e \<Rightarrow> e = BufferOverflow
    | Inr st' \<Rightarrow> encoder_typed (length (buff st)) rid (Some (rq_method rq)) st'"
  using encoder_run_typed [OF new_client_state_typed [OF assms], of xs] encoder_run_Inl [of xs st]
  by (auto split: sum.split)

theorem encoder_type_safe_witness:
  "\<exists>st st'. new_client_state 0 default_config sample_request 1 = Inr st \<and>
     encoder_run [EndOfInput] st = Inr st' \<and>
     encoder_typed 5000 1 (Some (rq_method sample_request)) st'"
proof -
  obtain st where st: "new_client_state 0 default_config sample_request 1 = Inr st"
    using sample_client_state by blast
  then have len: "length (buff st) = 5000"
    using new_client_state_get [OF st] by (simp add: sample_request_def)
  with emptyParam_fits [of st] new_client_state_typed [OF st] obtain st' where
    "emptyParam st = Inr st'" by (auto simp: encoder_typed_def)
  with encoder_type_safe [OF st, of "[EndOfInput]"] st len show ?thesis by auto
qed

end
