(* ===== verification/Request_Lifecycle.thy ===== *)
theory Request_Lifecycle
  imports Server_Dispatch Encoder_Safety
begin

text \<open>
  The events of one request, one after the other: the hook that takes it, the connection that is
  made for it, its header and the end of its input on the way to the backend, and the start of the
  reading of the response. Each lemma gives the state its event leaves.
\<close>

section \<open>Changes of the state\<close>

lemma world_collapse:
  "set_conn c x (set_conn c y w) = set_conn c x w" "set_conn c x (ats cs w) = ats cs (set_conn c x w)"
  "ats cs (ats ds w) = ats (ds @ cs) w"
  by (simp_all add: set_conn_def ats_def)


section \<open>Writing\<close>

text \<open>What a write operation of the server leaves in the channel of a connection that takes what it
  is given.\<close>

definition written :: "bool \<Rightarrow> FCGIClientState \<Rightarrow> InterceptIOChannel \<Rightarrow> InterceptIOChannel" where
  "written endflag st ch = \<lparr>vio = True,
     iobuf = Some ((case iobuf ch of None \<Rightarrow> [] | Some old \<Rightarrow> old) @ sent st),
     total_bytes_written = total_bytes_written ch + int (pBuffInc st),
     readEnable = (readEnable ch \<or> endflag)\<rparr>"

lemma write_request_run:
  assumes "intercept_list w rid = Some (i, c)" "conns w c = Some conn" "vc_ptr conn = Some v"
    and "fcgiRequest conn = Some fr" "encode fr = Inr fr'"
    and "pBuffInc (fr_state fr') \<le> length (buff (fr_state fr'))"
    and "\<not> vconn_closed io" "vio_made io" "accepted io = (\<lambda>n. n)"
    and "iobuf (writeio conn) = None \<or> vio (writeio conn)" "0 \<le> total_bytes_written (writeio conn)"
    and "total_bytes_written (writeio conn) + int (pBuffInc (fr_state fr')) < 2 ^ 31"
  shows "write_request io rid encode endflag w = Inr (True,
    ats ((if iobuf (writeio conn) = None then [VConnWrite v] else []) @ (if endflag then [] else [VIOReenable v]))
      (set_conn c (conn\<lparr>fcgiRequest := Some fr', writeio := written endflag (fr_state fr') (writeio conn)\<rparr>) w))"
proof -
  let ?st = "fr_state fr'"
  have b: "buff ?st = sent ?st @ drop (pBuffInc ?st) (buff ?st)" "length (sent ?st) = pBuffInc ?st"
    using assms(6) by (simp_all add: sent_def)
  have "phpWrite io (Some v) (buff ?st) (int (pBuffInc ?st)) endflag (writeio conn) =
    Inr ((if iobuf (writeio conn) = None then [VConnWrite v] else []) @ (if endflag then [] else [VIOReenable v]),
      written endflag ?st (writeio conn))"
    using phpWrite_run [OF assms(7,8,10), of "sent ?st" v "drop (pBuffInc ?st) (buff ?st)" endflag]
      assms(9,11,12) b by (simp add: written_def)
  then show ?thesis
    using assms(1-5) by (simp add: write_request_def getServerConnection_def addClientRequest_def)
qed

lemma get_request_buffers:
  assumes "new_request junk cfg rq rid = Inr fr" "rq_method rq \<noteq> ''POST''"
    and "length (params_bytes (requestHeaders (fr_state fr))) \<le> 4968"
  shows "\<exists>st1 st2. createBeginRequest (fr_state fr) = Inr st1 \<and> emptyParam st1 = Inr st2 \<and>
    pBuffInc st1 \<le> length (buff st1) \<and> pBuffInc st2 \<le> length (buff st2) \<and>
    pBuffInc st1 \<le> 5000 \<and> pBuffInc st2 = 8 \<and>
    sent st1 = concat (map record_bytes (begin_records rid (requestHeaders (fr_state fr)))) \<and>
    sent st2 = record_bytes (wire_record FCGI_STDIN rid [])"
proof -
  let ?st = "fr_state fr"
  from assms(1) have "new_client_state junk cfg rq rid = Inr ?st"
    by (auto simp: new_request_def bindE_eq_Inr)
  note st = new_client_state_get [OF this assms(2)]
  then have wf: "buffer_wf ?st" "sent ?st = []" by (simp_all add: buffer_wf_def sent_def)
  with createBeginRequest_fits [OF wf(1)] st assms(3) obtain st1 where
    1: "createBeginRequest ?st = Inr st1" "buffer_wf st1" "length (buff st1) = 5000"
      "requestHeaders st1 = requestHeaders ?st" "request_id st1 = rid"
      "sent st1 = concat (map record_bytes (begin_records rid (requestHeaders ?st)))"
    by (auto simp: request_frame_def)
  have "map_find (requestHeaders st1) ''REQUEST_METHOD'' = Some (rq_method rq)"
    using generate_headers_method [of cfg rq] st 1(4) by simp
  with emptyParam_fits [OF 1(2)] 1(3,5) assms(2) obtain st2 where
    2: "emptyParam st1 = Inr st2" "pBuffInc st2 \<le> length (buff st2)"
      "sent st2 = record_bytes (wire_record FCGI_STDIN rid [])" by fastforce
  have "length (sent st2) = pBuffInc st2" using 2(2) by (simp add: sent_def)
  then have "pBuffInc st2 = 8" using 2(3) by (simp add: wire_record_bytes)
  with 1 2 show ?thesis by (auto simp: buffer_wf_def)
qed

text \<open>The header and the end of the input of a request without a body, on a connection that was just
  made.\<close>

lemma get_request_written:
  assumes "icpts w i = Some icpt" "intercept_list w (si_request_id icpt) = Some (i, c)"
    and "conns w c = Some conn" "vc_ptr conn = Some v" "fcgiRequest conn = Some fr"
    and "new_request junk cfg rq (si_request_id icpt) = Inr fr" "rq_method rq \<noteq> ''POST''"
    and "length (params_bytes (requestHeaders (fr_state fr))) \<le> 4968"
    and "writeio conn = new_channel"
    and "\<not> vconn_closed io" "vio_made io" "accepted io = (\<lambda>n. n)"
  shows "\<exists>w1 fr2 ch out. consume io i data REQUEST_HEADER w = Inr w1 \<and>
    handleInputComplete io i w1 = Inr (set_icpt i (icpt\<lparr>inputCompleteState := True\<rparr>)
      (ats [VConnWrite v, VIOReenable v] (set_conn c (conn\<lparr>fcgiRequest := Some fr2, writeio := ch\<rparr>) w))) \<and>
    fr_response fr2 = fr_response fr \<and> vio ch \<and> readEnable ch \<and> iobuf ch = Some out \<and>
    read_all read_record out = Some (begin_records (si_request_id icpt) (requestHeaders (fr_state fr)) @
      [wire_record FCGI_STDIN (si_request_id icpt) []])"
proof -
  let ?rid = "si_request_id icpt" and ?m = "requestHeaders (fr_state fr)"
  from get_request_buffers [OF assms(6-8)] obtain st1 st2 where
    st: "createBeginRequest (fr_state fr) = Inr st1" "emptyParam st1 = Inr st2"
      "pBuffInc st1 \<le> length (buff st1)" "pBuffInc st2 \<le> length (buff st2)"
      "pBuffInc st1 \<le> 5000" "pBuffInc st2 = 8"
      "sent st1 = concat (map record_bytes (begin_records ?rid ?m))"
      "sent st2 = record_bytes (wire_record FCGI_STDIN ?rid [])" by blast
  have ch: "iobuf (writeio conn) = None" "total_bytes_written (writeio conn) = 0"
    "\<not> readEnable (writeio conn)" using assms(9) by (simp_all add: new_channel_def)
  let ?ch1 = "written False st1 (writeio conn)" and ?fr1 = "fr\<lparr>fr_state := st1\<rparr>"
  let ?conn1 = "conn\<lparr>fcgiRequest := Some ?fr1, writeio := ?ch1\<rparr>"
  define w1 where "w1 = ats [VConnWrite v, VIOReenable v] (set_conn c ?conn1 w)"
  have 1: "writeRequestHeader io ?rid w = Inr (True, w1)"
    using write_request_run [OF assms(2-5), of "\<lambda>fr. bindE (createBeginRequest (fr_state fr))
      (\<lambda>st. Inr (fr\<lparr>fr_state := st\<rparr>))" ?fr1 io False] st ch assms(10-12)
    by (simp add: writeRequestHeader_def w1_def)
  have w1: "intercept_list w1 ?rid = Some (i, c)" "conns w1 c = Some ?conn1" "icpts w1 = icpts w"
    using assms by (simp_all add: w1_def ats_def set_conn_def)
  let ?ch2 = "written True st2 ?ch1" and ?fr2 = "fr\<lparr>fr_state := st2\<rparr>"
  have 2: "writeRequestBodyComplete io ?rid w1 = Inr (True,
      ats [VConnWrite v, VIOReenable v] (set_conn c (conn\<lparr>fcgiRequest := Some ?fr2, writeio := ?ch2\<rparr>) w))"
    using write_request_run [OF w1(1,2), of v ?fr1 "\<lambda>fr. bindE (emptyParam (fr_state fr))
      (\<lambda>st. Inr (fr\<lparr>fr_state := st\<rparr>))" ?fr2 io True] st ch assms(4,10-12)
    by (simp add: writeRequestBodyComplete_def w1_def world_collapse written_def)
  have "consume io i data REQUEST_HEADER w = Inr w1"
    using assms(1) 1 by (simp add: consume_def streamReqHeader_def)
  moreover have "handleInputComplete io i w1 = Inr (set_icpt i (icpt\<lparr>inputCompleteState := True\<rparr>)
      (ats [VConnWrite v, VIOReenable v] (set_conn c (conn\<lparr>fcgiRequest := Some ?fr2, writeio := ?ch2\<rparr>) w)))"
    using assms(1) w1(3) 2 by (simp add: handleInputComplete_def)
  moreover have "vio ?ch2" "readEnable ?ch2" "iobuf ?ch2 = Some (sent st1 @ sent st2)"
    using ch by (simp_all add: written_def)
  moreover have "sent st1 @ sent st2 =
      concat (map record_bytes (begin_records ?rid ?m @ [wire_record FCGI_STDIN ?rid []]))"
    by (simp add: st)
  moreover have "read_all read_record
      (concat (map record_bytes (begin_records ?rid ?m @ [wire_record FCGI_STDIN ?rid []]))) =
      Some (begin_records ?rid ?m @ [wire_record FCGI_STDIN ?rid []])"
    using assms(8) by (intro wire_records.read_all_enc)
      (auto simp: begin_records_def intro!: record_ok_wire_record)
  ultimately show ?thesis
    by (intro exI [of _ w1] exI [of _ ?fr2] exI [of _ ?ch2] exI [of _ "sent st1 @ sent st2"]) simp
qed

lemma new_client_state_start: "new_client_state junk cfg rq rid = Inr st \<Longrightarrow> pBuffInc st = 0"
  by (auto simp: new_client_state_def bindE_eq_Inr Let_def case_prod_beta)

text \<open>A request with a body, which comes in one piece. Its buffer has \<open>n\<close> bytes.\<close>

lemma post_request_buffers:
  assumes "new_request junk cfg rq rid = Inr fr" "rq_method rq = ''POST''"
    and "length (buff (fr_state fr)) = n" "n < 2 ^ 31"
    and "32 + length (params_bytes (requestHeaders (fr_state fr))) \<le> n" "16 + length data \<le> n"
  shows "\<exists>st1 st2 st3. createBeginRequest (fr_state fr) = Inr st1 \<and> postBodyChunk data st1 = Inr st2 \<and>
    emptyParam st2 = Inr st3 \<and> (\<forall>st\<in>{st1, st2, st3}. pBuffInc st \<le> length (buff st)) \<and>
    length (sent st1) \<le> n \<and> length (sent st2) \<le> n \<and>
    sent st1 = concat (map record_bytes (begin_records rid (requestHeaders (fr_state fr)))) \<and>
    sent st2 = concat (map record_bytes (stdin_records rid data)) \<and> sent st3 = []"
proof -
  let ?st = "fr_state fr"
  from assms(1) have new: "new_client_state junk cfg rq rid = Inr ?st"
    by (auto simp: new_request_def bindE_eq_Inr)
  have st: "buffer_wf ?st" "request_id ?st = rid" "sent ?st = []"
    "map_find (requestHeaders ?st) ''REQUEST_METHOD'' = Some ''POST''"
    using new_client_state_typed [OF new] new_client_state_start [OF new] assms(2)
    by (simp_all add: encoder_typed_def sent_def)
  with createBeginRequest_fits [OF st(1)] assms(3,5) obtain st1 where
    1: "createBeginRequest ?st = Inr st1" "buffer_wf st1" "length (buff st1) = n" "request_frame st1 = request_frame ?st"
      "sent st1 = concat (map record_bytes (begin_records rid (requestHeaders ?st)))" by auto
  with postBodyChunk_fits [of st1 data] assms(4,6) st(2) obtain st2 where
    2: "postBodyChunk data st1 = Inr st2" "buffer_wf st2" "length (buff st2) = n" "request_frame st2 = request_frame st1"
      "sent st2 = concat (map record_bytes (stdin_records rid data))" by (auto simp: request_frame_def)
  have "map_find (requestHeaders st2) ''REQUEST_METHOD'' = Some ''POST''" "8 \<le> length (buff st2)"
    using 1(4) 2(3,4) st(4) assms(6) by (simp_all add: request_frame_def)
  with emptyParam_fits [OF 2(2)] obtain st3 where
    3: "emptyParam st2 = Inr st3" "pBuffInc st3 \<le> length (buff st3)" "sent st3 = []" by fastforce
  have "\<forall>st\<in>{st1, st2, st3}. pBuffInc st \<le> length (buff st)"
    using 1(2) 2(2) 3(2) by (simp add: buffer_wf_def)
  moreover have "length (sent st1) \<le> n" "length (sent st2) \<le> n" using 1(3) 2(3) by (simp_all add: sent_def)
  ultimately show ?thesis using 1 2 3 by blast
qed

lemma post_request_written:
  assumes "icpts w i = Some icpt" "intercept_list w (si_request_id icpt) = Some (i, c)"
    and "conns w c = Some conn" "vc_ptr conn = Some v" "fcgiRequest conn = Some fr"
    and "new_request junk cfg rq (si_request_id icpt) = Inr fr" "rq_method rq = ''POST''"
    and "length (buff (fr_state fr)) = n" "n < 2 ^ 30"
    and "32 + length (params_bytes (requestHeaders (fr_state fr))) \<le> n" "16 + length body \<le> n"
    and "length (params_bytes (requestHeaders (fr_state fr))) < 65536" "length body < 65536"
    and "writeio conn = new_channel"
    and "\<not> vconn_closed io" "vio_made io" "accepted io = (\<lambda>n. n)"
  shows "\<exists>w1 w2 fr3 ch out. consume io i data REQUEST_HEADER w = Inr w1 \<and> consume io i body REQUEST_BODY w1 = Inr w2 \<and>
    handleInputComplete io i w2 = Inr (set_icpt i (icpt\<lparr>inputCompleteState := True\<rparr>)
      (ats [VConnWrite v, VIOReenable v, VIOReenable v]
        (set_conn c (conn\<lparr>fcgiRequest := Some fr3, writeio := ch\<rparr>) w))) \<and>
    fr_response fr3 = fr_response fr \<and> vio ch \<and> readEnable ch \<and> iobuf ch = Some out \<and>
    read_all read_record out = Some (begin_records (si_request_id icpt) (requestHeaders (fr_state fr)) @
      stdin_records (si_request_id icpt) body)"
proof -
  let ?rid = "si_request_id icpt" and ?m = "requestHeaders (fr_state fr)"
  have "n < 2 ^ 31" using assms(9) by simp
  from post_request_buffers [OF assms(6-8) this assms(10,11)] obtain st1 st2 st3 where
    st: "createBeginRequest (fr_state fr) = Inr st1" "postBodyChunk body st1 = Inr st2" "emptyParam st2 = Inr st3"
      "pBuffInc st1 \<le> length (buff st1)" "pBuffInc st2 \<le> length (buff st2)" "pBuffInc st3 \<le> length (buff st3)"
      "length (sent st1) \<le> n" "length (sent st2) \<le> n"
      "sent st1 = concat (map record_bytes (begin_records ?rid ?m))"
      "sent st2 = concat (map record_bytes (stdin_records ?rid body))" "sent st3 = []" by auto
  then have len: "pBuffInc st1 \<le> n" "pBuffInc st2 \<le> n" "pBuffInc st3 = 0" by (auto simp: sent_def)
  have ch: "iobuf (writeio conn) = None" "total_bytes_written (writeio conn) = 0"
    "\<not> readEnable (writeio conn)" using assms(14) by (simp_all add: new_channel_def)
  let ?ch1 = "written False st1 (writeio conn)" and ?fr1 = "fr\<lparr>fr_state := st1\<rparr>"
  let ?conn1 = "conn\<lparr>fcgiRequest := Some ?fr1, writeio := ?ch1\<rparr>"
  define w1 where "w1 = ats [VConnWrite v, VIOReenable v] (set_conn c ?conn1 w)"
  have 1: "writeRequestHeader io ?rid w = Inr (True, w1)"
    using write_request_run [OF assms(2-5), of "\<lambda>fr. bindE (createBeginRequest (fr_state fr))
      (\<lambda>st. Inr (fr\<lparr>fr_state := st\<rparr>))" ?fr1 io False] st len ch assms(9,15-17)
    by (simp add: writeRequestHeader_def w1_def)
  have w1: "intercept_list w1 ?rid = Some (i, c)" "conns w1 c = Some ?conn1" "icpts w1 = icpts w"
    using assms by (simp_all add: w1_def ats_def set_conn_def)
  let ?ch2 = "written False st2 ?ch1" and ?fr2 = "fr\<lparr>postData := body, fr_state := st2\<rparr>"
  let ?conn2 = "conn\<lparr>fcgiRequest := Some ?fr2, writeio := ?ch2\<rparr>"
  define w2 where "w2 = ats [VConnWrite v, VIOReenable v, VIOReenable v] (set_conn c ?conn2 w)"
  have 2: "writeRequestBody io ?rid body w1 = Inr (True, w2)"
    using write_request_run [OF w1(1,2), of v ?fr1 "\<lambda>fr. bindE (postBodyChunk body (fr_state fr))
      (\<lambda>st. Inr (fr\<lparr>postData := body, fr_state := st\<rparr>))" ?fr2 io False] st len ch assms(4,9,15-17)
    by (simp add: writeRequestBody_def w1_def w2_def world_collapse written_def)
  have w2: "intercept_list w2 ?rid = Some (i, c)" "conns w2 c = Some ?conn2" "icpts w2 = icpts w"
    using assms by (simp_all add: w2_def ats_def set_conn_def)
  let ?ch3 = "written True st3 ?ch2" and ?fr3 = "?fr2\<lparr>fr_state := st3\<rparr>"
  have 3: "writeRequestBodyComplete io ?rid w2 = Inr (True, ats [VConnWrite v, VIOReenable v, VIOReenable v]
      (set_conn c (conn\<lparr>fcgiRequest := Some ?fr3, writeio := ?ch3\<rparr>) w))"
    using write_request_run [OF w2(1,2), of v ?fr2 "\<lambda>fr. bindE (emptyParam (fr_state fr))
      (\<lambda>st. Inr (fr\<lparr>fr_state := st\<rparr>))" ?fr3 io True] st len ch assms(4,9,15-17)
    by (simp add: writeRequestBodyComplete_def w2_def world_collapse written_def)
  have "consume io i data REQUEST_HEADER w = Inr w1" "consume io i body REQUEST_BODY w1 = Inr w2"
    using assms(1) w1(3) 1 2 by (simp_all add: consume_def streamReqHeader_def streamReqBody_def)
  moreover have "handleInputComplete io i w2 = Inr (set_icpt i (icpt\<lparr>inputCompleteState := True\<rparr>)
      (ats [VConnWrite v, VIOReenable v, VIOReenable v]
        (set_conn c (conn\<lparr>fcgiRequest := Some ?fr3, writeio := ?ch3\<rparr>) w)))"
    using assms(1) w2(3) 3 by (simp add: handleInputComplete_def)
  moreover have "vio ?ch3" "readEnable ?ch3" "iobuf ?ch3 = Some (sent st1 @ sent st2)"
    using ch st(11) by (simp_all add: written_def)
  moreover have "sent st1 @ sent st2 = concat (map record_bytes (begin_records ?rid ?m @ stdin_records ?rid body))"
    by (simp add: st)
  moreover have "read_all read_record (concat (map record_bytes (begin_records ?rid ?m @ stdin_records ?rid body))) =
      Some (begin_records ?rid ?m @ stdin_records ?rid body)"
    using assms(12,13) by (intro wire_records.read_all_enc)
      (auto simp: begin_records_def stdin_records_def intro!: record_ok_wire_record)
  ultimately show ?thesis
    by (intro exI [of _ w1] exI [of _ w2] exI [of _ ?fr3] exI [of _ ?ch3] exI [of _ "sent st1 @ sent st2"]) simp
qed


section \<open>The events of the connection\<close>

text \<open>The hook takes a request, and the pool has room for a new connection.\<close>

definition after_hook :: "server_env \<Rightarrow> nat \<Rightarrow> bytes \<Rightarrow> bytes \<Rightarrow> ThreadData \<Rightarrow> world \<Rightarrow> world" where
  "after_hook env t addr port td w =
     (let i = next_addr w; c = Suc i in
      TSStatIntIncrement reqBegId 1 (w\<lparr>
        icpts := (icpts w)(i \<mapsto> (new_intercept (env_junk32 env) t)\<lparr>si_request_id := next_id w\<rparr>),
        conns := (conns w)(c \<mapsto> (new_connection (env_cfg env))\<lparr>requestId := next_id w, contp := True\<rparr>),
        next_addr := Suc c, intercept_list := (intercept_list w)(next_id w \<mapsto> (i, c)),
        next_id := next_id w + 1, tdata := Some (td\<lparr>pool := addConnection c (pool td)\<rparr>),
        calls := calls w @ [NetConnect c addr port]\<rparr>))"

lemma hook_run:
  assumes "tdata w = Some td" "threadKey w \<noteq> 0"
    and "ats_handle tr = Some t" "\<not> cache_hit_fresh tr"
    and "\<forall>c\<in>set (url_path tr). c \<noteq> CHR 0x0A \<and> c \<noteq> CHR 0x0D"
    and "length (connections (pool td)) < unat (maxConn (pool td))"
    and "server_address (env_junk16 env) (env_cfg env) = Inr (addr, port)"
  shows "handleReadCacheLookupComplete env rs tr self w = Some (Inr (after_hook env t addr port td w))"
proof -
  have "url_match (url_path tr) = url_path tr" using assms(5) by (simp add: url_match_iff)
  then show ?thesis
    using assms(1-4,6,7)
    by (simp add: handleReadCacheLookupComplete_def after_hook_def new_icpt_def set_icpt_def
        TSStatIntIncrement_def connect_def getAvailableConnection_def addConnection_def
        initiateBackendConnection_def getNext_def new_connection_def set_conn_def createConnection_def
        ats_def Let_def)
qed

text \<open>The connection to the backend is there.\<close>

definition connected :: "nat \<Rightarrow> FCGIClientRequest \<Rightarrow> ServerConnection \<Rightarrow> ServerConnection" where
  "connected v fr conn = conn\<lparr>vc_ptr := Some v, fcgiRequest := Some fr, conn_state := INUSE,
     req_count := req_count conn + 1\<rparr>"

lemma net_connect_run:
  assumes "conns w c = Some conn" "intercept_list w (requestId conn) = Some (i, d)" "icpts w i = Some icpt"
    and "new_request (env_junk env) (env_cfg env) (env_requests env (txn icpt)) (requestId conn) = Inr fr"
  shows "handlePHPConnectionEvents env io (NET_CONNECT v) c w =
    Inr (ats [AddPlugin (txn icpt) i, Resume (txn icpt)]
      (set_conn c (connected v fr conn) (TSStatIntIncrement phpConnCount 1 w)))"
  using assms
  by (simp add: handlePHPConnectionEvents_def on_net_connect_def getIntercept_def createFCGIClient_def
      connected_def set_conn_def TSStatIntIncrement_def)

text \<open>The request is written: the plugin begins to read.\<close>

definition reading :: "ServerConnection \<Rightarrow> ServerConnection" where
  "reading conn = conn\<lparr>readio := (readio conn)\<lparr>iobuf := Some [], vio := True\<rparr>\<rparr>"

lemma write_complete_run:
  assumes "conns w c = Some conn" "vc_ptr conn = Some v" "iobuf (readio conn) = None"
    and "\<not> vconn_closed io" "vio_made io"
  shows "handlePHPConnectionEvents env io VCONN_WRITE_COMPLETE c w =
    Inr (ats [VConnRead v] (set_conn c (reading conn) (TSStatIntIncrement reqEndId 1 w)))"
  using assms
  by (simp add: handlePHPConnectionEvents_def on_write_complete_def channel_read_def reading_def
      TSStatIntIncrement_def)

lemma write_ready_run:
  assumes "conns w c = Some conn" "readEnable (writeio conn)" "vio (writeio conn)" "vc_ptr conn = Some v"
    and "iobuf (readio conn) = None" "\<not> vconn_closed io" "vio_made io"
  shows "handlePHPConnectionEvents env io VCONN_WRITE_READY c w =
    Inr (ats [VConnRead v] (set_conn c (reading conn) (TSStatIntIncrement reqEndId 1 w)))"
  using assms write_complete_run [OF assms(1,4-7), of env]
  by (simp add: handlePHPConnectionEvents_def on_write_ready_def)

end
