(* ===== verification/Server_Witnesses.thy ===== *)
theory Server_Witnesses
  imports Server_Properties
begin

text \<open>
  Concrete states of the server in which the hypotheses of its properties hold: one connection,
  at work for the first request, and a second request that waits.
\<close>

section \<open>Runs from the initial state\<close>

lemma local_address: "server_address 0 default_config = Inr ([127, 0, 0, 1], [234, 96])"
proof -
  have d: "dec_digits 127 = ''127''" "dec_digits 0 = ''0''" "dec_digits 1 = ''1''" "dec_digits 60000 = ''60000''"
    by (simp_all add: dec_digits.simps char_of_def bit_iff_odd)
  show ?thesis
    using server_address_dotted [of default_config 127 0 0 1 60000 0] d
    by (simp add: default_config_def getServerIp_def getServerPort_def)
qed

definition first_request :: transaction where
  "first_request = \<lparr>cache_hit_fresh = False, ats_handle = Some 11, url_path = ''index.php''\<rparr>"

lemma first_request_path: "url_match (url_path first_request) = url_path first_request"
  by (simp add: first_request_def url_match_def)

lemma default_maxConn: "unat (maxConn (new_pool default_config)) = 1"
  by (simp add: new_pool_def default_config_def getMaxConnLength_def signed_divide_int_def)

lemma first_request_run:
  "\<exists>w td icpt conn. handleReadCacheLookupComplete sample_env [KeyCreated 1] first_request 11 initial_world =
       Some (Inr w) \<and>
     intercept_list w = [1 \<mapsto> (0, 1)] \<and> tdata w = Some td \<and> connections (pool td) = [1] \<and>
     available_connections (pool td) = [] \<and> maxConn (pool td) = 1 \<and> pendingReqQueue td = new_queue default_config \<and>
     next_addr w = 2 \<and> next_id w = 2 \<and>
     icpts w 0 = Some icpt \<and> si_request_id icpt = 1 \<and> txn icpt = 11 \<and>
     conns w 1 = Some conn \<and> contp conn \<and> requestId conn = 1 \<and> readio conn = new_channel \<and>
     calls w = [NetConnect 1 [127, 0, 0, 1] [234, 96]]"
proof -
  have pool: "connections (new_pool cfg) = []" "available_connections (new_pool cfg) = []" for cfg
    by (simp_all add: new_pool_def)
  have "maxConn (new_pool default_config) = 1" by (rule word_unat_eq_iff [THEN iffD2]) (simp add: default_maxConn)
  then show ?thesis
    using first_request_path local_address
    by (simp add: handleReadCacheLookupComplete_def first_request_def initial_world_def new_icpt_def
        set_icpt_def TSStatIntIncrement_def setupThreadLocalStorage_def connect_def new_thread_data_def
        sample_env_def getAvailableConnection_def pool addConnection_def initiateBackendConnection_def
        getNext_def new_connection_def set_conn_def createConnection_def ats_def new_intercept_def)
qed

lemma ids_left_initial: "ids_left initial_world"
  by (simp add: ids_left_def initial_world_def)

theorem requests_and_connections_match_witness:
  "\<exists>w. reachable sample_env w \<and> intercept_list w 1 = Some (0, 1) \<and> 1 < next_id w \<and>
     (\<exists>conn. conns w 1 = Some conn \<and> requestId conn = 1)"
proof -
  from first_request_run obtain w where
    run: "handleReadCacheLookupComplete sample_env [KeyCreated 1] first_request 11 initial_world = Some (Inr w)"
    and l: "intercept_list w 1 = Some (0, 1)" by auto
  have "server_step sample_env initial_world w"
    by (rule step_request [OF ids_left_initial _ run]) simp
  then have "reachable sample_env w" by (rule reachable_step [OF reachable_initial])
  with requests_and_connections_match [OF this l] l show ?thesis by blast
qed

theorem pool_and_queue_bounded_witness:
  "\<exists>w td. reachable sample_env w \<and> tdata w = Some td \<and> connections (pool td) = [1] \<and>
     int (length (connections (pool td))) \<le> 10 div 6 \<and> length (pending_list (pendingReqQueue td)) \<le> 250"
proof -
  from first_request_run obtain w td where
    run: "handleReadCacheLookupComplete sample_env [KeyCreated 1] first_request 11 initial_world = Some (Inr w)"
    and td: "tdata w = Some td" "connections (pool td) = [1]" by auto
  have "server_step sample_env initial_world w"
    by (rule step_request [OF ids_left_initial _ run]) simp
  then have "reachable sample_env w" by (rule reachable_step [OF reachable_initial])
  with pool_and_queue_bounded [OF this td(1)] td show ?thesis
    by (auto simp: sample_env_def getMaxConnLength_def getRequestQueueSize_def default_config_def)
qed

definition small_env :: server_env where
  "small_env = sample_env\<lparr>env_cfg := default_config\<lparr>cfg_max_connections := 5\<rparr>\<rparr>"

lemma small_request_run:
  "\<exists>w td. handleReadCacheLookupComplete small_env [KeyCreated 1] first_request 11 initial_world = Some (Inr w) \<and>
     tdata w = Some td \<and> pending_list (pendingReqQueue td) = [0]"
  using first_request_path
  by (simp add: handleReadCacheLookupComplete_def first_request_def initial_world_def new_icpt_def
      set_icpt_def TSStatIntIncrement_def setupThreadLocalStorage_def connect_def new_thread_data_def
      small_env_def sample_env_def getAvailableConnection_def new_pool_def new_queue_def addToQueue_def
      isQueueFull_def default_config_def getMaxConnLength_def getRequestQueueSize_def signed_divide_int_def)

section \<open>A busy connection and a request that waits\<close>

definition sample_fr :: FCGIClientRequest where
  "sample_fr = \<lparr>fr_state = sample_state, postData = [], fr_response = new_response\<rparr>"

definition open_channel :: "bool \<Rightarrow> InterceptIOChannel" where
  "open_channel re = \<lparr>vio = True, iobuf = Some [], total_bytes_written = 0, readEnable = re\<rparr>"

definition busy_conn :: "uint \<Rightarrow> ServerConnection" where
  "busy_conn maxr = \<lparr>vc_ptr = Some 7, readio = open_channel False, writeio = open_channel True,
     fcgiRequest = Some sample_fr, conn_state = INUSE, contp = True, requestId = 1,
     max_requests = maxr, req_count = 1\<rparr>"

definition sample_icpt :: "nat \<Rightarrow> uint \<Rightarrow> ServerIntercept" where
  "sample_icpt t rid = (new_intercept 0 t)\<lparr>si_request_id := rid\<rparr>"

definition busy_world :: "uint \<Rightarrow> nat list \<Rightarrow> world" where
  "busy_world maxr q = \<lparr>conns = [0 \<mapsto> busy_conn maxr], icpts = [5 \<mapsto> sample_icpt 11 1, 6 \<mapsto> sample_icpt 12 0],
     next_addr = 7, intercept_list = [1 \<mapsto> (5, 0)], next_id = 2, threadKey = 1,
     tdata = Some \<lparr>pool = \<lparr>maxConn = 1, available_connections = [], connections = [0]\<rparr>,
       pendingReqQueue = \<lparr>max_queue_size = 5, pending_list = q\<rparr>\<rparr>,
     stats = (\<lambda>s. 0), calls = []\<rparr>"

lemmas busy_defs = busy_world_def busy_conn_def sample_icpt_def open_channel_def new_intercept_def

lemma sample_env_sel [simp]: "env_mime sample_env = no_mime" "env_http_1_1 sample_env = str_bytes ''HTTP/1.1''"
  "env_junk sample_env = 0" "env_cfg sample_env = default_config" "env_requests sample_env t = sample_request"
  by (simp_all add: sample_env_def no_mime_def fun_eq_iff)

lemma sample_transfer:
  "\<exists>fr. transfer_blocks sample_env sample_chunks False 0 [] (Some sample_fr) =
     Inr (True, int (length (concat sample_chunks)), str_bytes ''hi'', fr)"
  using transfer_stream [of sample_fr sample_stream sample_chunks sample_env, OF _ sample_stream_ok
      sample_stream_shape sample_chunks_concat sample_chunks_nonempty] sample_stream_response
  by (auto simp: sample_fr_def)

lemma sample_new_request: "\<exists>fr. new_request 0 default_config sample_request rid = Inr fr"
  using sample_client_state [of rid] by (auto simp: new_request_def)

lemma busy_world_sel [simp]:
  "conns (busy_world m q) 0 = Some (busy_conn m)" "intercept_list (busy_world m q) 1 = Some (5, 0)"
  "icpts (busy_world m q) 5 = Some (sample_icpt 11 1)" "icpts (busy_world m q) 6 = Some (sample_icpt 12 0)"
  "tdata (busy_world m q) = Some \<lparr>pool = \<lparr>maxConn = 1, available_connections = [], connections = [0]\<rparr>,
       pendingReqQueue = \<lparr>max_queue_size = 5, pending_list = q\<rparr>\<rparr>"
  "next_id (busy_world m q) = 2" "calls (busy_world m q) = []" "intercept_list (busy_world m q) 0 = None"
  "requestId (busy_conn m) = 1" "max_requests (busy_conn m) = m" "req_count (busy_conn m) = 1"
  "vc_ptr (busy_conn m) = Some 7" "contp (busy_conn m)" "conn_state (busy_conn m) = INUSE"
  "fcgiRequest (busy_conn m) = Some sample_fr" "readEnable (writeio (busy_conn m))"
  "vio (readio (busy_conn m))" "iobuf (readio (busy_conn m)) = Some []"
  "si_request_id (sample_icpt t' rid) = rid" "txn (sample_icpt t' rid) = t'"
  "\<not> outputCompleteState (sample_icpt t' rid)"
  by (simp_all add: busy_defs)

text \<open>The first record of the stream alone does not end the response.\<close>

lemma stdout_transfer:
  "\<exists>fr. transfer_blocks sample_env [record_bytes (hd sample_stream)] False 0 [] (Some sample_fr) =
     Inr (False, 10, str_bytes ''hi'', fr)"
proof -
  have "respond no_mime (str_bytes ''HTTP/1.1'') True [hd sample_stream] = (False, str_bytes ''hi'')"
    by (simp add: sample_stream_def sample_header_def status_line_def no_mime_def Let_def FCGI_STDOUT_def
        FCGI_STDERR_def FCGI_END_REQUEST_def)
  then show ?thesis
    using transfer_stream [of sample_fr "[hd sample_stream]" "[record_bytes (hd sample_stream)]" sample_env]
      sample_stream_ok by (auto simp: sample_fr_def sample_stream_def)
qed

theorem transferred_response_witness:
  "\<exists>resp. transfer_blocks sample_env sample_chunks False 0 [] (Some sample_fr) =
     Inr (fst (respond no_mime (str_bytes ''HTTP/1.1'') True sample_stream),
       int (length (concat sample_chunks)),
       snd (respond no_mime (str_bytes ''HTTP/1.1'') True sample_stream),
       Some (sample_fr\<lparr>fr_response := resp\<rparr>))"
  using transferred_response [of sample_fr, OF _ sample_stream_ok sample_stream_shape sample_chunks_concat
      sample_chunks_nonempty, of sample_env] by (simp add: sample_fr_def)

theorem read_ready_delivers_witness:
  "\<exists>w'. handlePHPConnectionEvents sample_env good_io
       (VCONN_READ_READY [record_bytes (hd sample_stream)]) 0 (busy_world 9 []) = Inr w' \<and>
     calls w' = [Produce 5 (str_bytes ''hi'')]"
proof -
  obtain fr where "transfer_blocks sample_env [record_bytes (hd sample_stream)] False 0 []
      (fcgiRequest (busy_conn 9)) = Inr (False, 10, str_bytes ''hi'', fr)" using stdout_transfer by auto
  from read_ready_delivers [OF _ _ _ this, of "busy_world 9 []" 0 good_io] show ?thesis
    by (simp add: ats_def set_conn_def)
qed

theorem finished_response_serves_queue_witness:
  "\<exists>w'. handlePHPConnectionEvents sample_env good_io (VCONN_READ_READY sample_chunks) 0
       (busy_world 9 [6]) = Inr w' \<and> intercept_list w' = [2 \<mapsto> (6, 0)] \<and>
     calls w' = [Produce 5 (str_bytes ''hi''), SetOutputComplete 5, AddPlugin 12 6, Resume 12]"
proof -
  obtain fr where t: "transfer_blocks sample_env sample_chunks False 0 [] (fcgiRequest (busy_conn 9)) =
      Inr (True, int (length (concat sample_chunks)), str_bytes ''hi'', fr)" using sample_transfer by auto
  obtain fr' where "new_request 0 default_config sample_request 2 = Inr fr'" using sample_new_request by auto
  with finished_response_serves_queue [OF _ _ _ t, of "busy_world 9 [6]" 0 5 "sample_icpt 11 1" _ 6 "[]"
      "sample_icpt 12 0" fr' good_io]
  have "\<exists>w'. handlePHPConnectionEvents sample_env good_io (VCONN_READ_READY sample_chunks) 0
       (busy_world 9 [6]) = Inr w' \<and>
     intercept_list w' = (intercept_list (busy_world 9 [6]))(1 := None, 2 \<mapsto> (6, 0)) \<and>
     calls w' = [Produce 5 (str_bytes ''hi''), SetOutputComplete 5, AddPlugin 12 6, Resume 12]" by auto
  then show ?thesis by (auto simp: busy_world_def)
qed

theorem worn_connection_is_closed_witness:
  "\<exists>w'. handlePHPConnectionEvents sample_env good_io (VCONN_READ_READY sample_chunks) 0
       (busy_world 1 []) = Inr w' \<and> conns w' 0 = None \<and>
     calls w' = [Produce 5 (str_bytes ''hi''), SetOutputComplete 5, VConnClose 7, ContDestroy]"
proof -
  obtain fr where "transfer_blocks sample_env sample_chunks False 0 [] (fcgiRequest (busy_conn 1)) =
      Inr (True, int (length (concat sample_chunks)), str_bytes ''hi'', fr)" using sample_transfer by auto
  from worn_connection_is_closed [OF _ _ _ this, of "busy_world 1 []" 0 5 "sample_icpt 11 1" _ 7 good_io]
  show ?thesis by auto
qed

lemma old_bytes_transfer:
  assumes "fr_response fr = new_response"
  shows "\<exists>n fr'. transfer_blocks sample_env [record_bytes (hd sample_stream)] False 0 [] (Some fr) =
    Inr (False, n, str_bytes ''hi'', fr')"
proof -
  have "respond no_mime (str_bytes ''HTTP/1.1'') True [hd sample_stream] = (False, str_bytes ''hi'')"
    by (simp add: sample_stream_def sample_header_def status_line_def no_mime_def Let_def FCGI_STDOUT_def
        FCGI_STDERR_def FCGI_END_REQUEST_def)
  moreover have "record_bytes (hd sample_stream) \<noteq> []" by (simp add: sample_stream_def header_bytes_def)
  ultimately show ?thesis
    using transfer_stream [OF assms, of "[hd sample_stream]" "[record_bytes (hd sample_stream)]" sample_env] sample_stream_ok
    by (auto simp: sample_stream_def str_bytes_def)
qed

theorem aborted_connection_is_handed_over_witness:
  "\<exists>w' conn' w''. delete_intercept sample_env 5 (busy_world 9 [6]) = Inr w' \<and> conns w' 0 = Some conn' \<and>
     intercept_list w' (requestId conn') = Some (6, 0) \<and> vc_ptr conn' = Some 7 \<and>
     calls w' = [AddPlugin 12 6, Resume 12] \<and>
     handlePHPConnectionEvents sample_env good_io (VCONN_READ_READY [record_bytes (hd sample_stream)]) 0 w' = Inr w'' \<and>
     calls w'' = [AddPlugin 12 6, Resume 12, Produce 6 (str_bytes ''hi'')]"
proof -
  obtain fr' where fr': "new_request 0 default_config sample_request 2 = Inr fr'" using sample_new_request by auto
  then have "fr_response fr' = new_response" by (auto simp: new_request_def bindE_eq_Inr)
  from old_bytes_transfer [OF this] obtain n fr2 where
    tr: "transfer_blocks sample_env [record_bytes (hd sample_stream)] False 0 [] (Some fr') =
      Inr (False, n, str_bytes ''hi'', fr2)" by blast
  have hi: "str_bytes ''hi'' \<noteq> []" by (simp add: str_bytes_def)
  from fr' aborted_connection_is_handed_over [of "busy_world 9 [6]" 5 "sample_icpt 11 1" 1 0 "busy_conn 9" _ 6 "[]"
      "sample_icpt 12 0" sample_env fr']
  obtain w' conn' where w': "delete_intercept sample_env 5 (busy_world 9 [6]) = Inr w'" "conns w' 0 = Some conn'"
      "intercept_list w' (requestId conn') = Some (6, 0)" "vc_ptr conn' = Some 7" "calls w' = [AddPlugin 12 6, Resume 12]"
    and next_bytes: "\<And>io blocks n out fr2. transfer_blocks sample_env blocks False 0 [] (Some fr') = Inr (False, n, out, fr2) \<Longrightarrow>
      \<exists>w''. handlePHPConnectionEvents sample_env io (VCONN_READ_READY blocks) 0 w' = Inr w'' \<and>
        calls w'' = calls w' @ (if out = [] then [] else [Produce 6 out])"
    by auto
  from next_bytes [OF tr, of good_io] w' hi show ?thesis by auto
qed

theorem deleted_waiting_request_crashes_witness:
  "\<exists>w'. delete_intercept sample_env 6 (busy_world 9 [6]) = Inr w' \<and>
     removeIntercept sample_env 1 w' = Inl UseAfterFree"
  using deleted_waiting_request_crashes [of "busy_world 9 [6]" 6 "sample_icpt 12 0" _ "[]" 1 5 0 "busy_conn 9"
      sample_env] by auto

definition idle_conn :: ServerConnection where
  "idle_conn = (busy_conn 9)\<lparr>requestId := 0, conn_state := READY, fcgiRequest := None, vc_ptr := Some 8\<rparr>"

definition two_conns :: world where
  "two_conns = (busy_world 9 [])\<lparr>
     conns := [0 \<mapsto> (busy_conn 9)\<lparr>writeio := open_channel False\<rparr>, 3 \<mapsto> idle_conn], next_addr := 7,
     tdata := Some \<lparr>pool = \<lparr>maxConn = 2, available_connections = [3], connections = [0, 3]\<rparr>,
       pendingReqQueue = \<lparr>max_queue_size = 5, pending_list = []\<rparr>\<rparr>\<rparr>"

theorem reconnect_adds_plugin_again_witness:
  "\<exists>w'. handlePHPConnectionEvents sample_env good_io VCONN_EOS 0 two_conns = Inr w' \<and> conns w' 0 = None \<and>
     calls w' = [AddPlugin 11 5, Resume 11, VConnClose 7, ContDestroy]"
proof -
  obtain fr' where "new_request 0 default_config sample_request 2 = Inr fr'" using sample_new_request by auto
  with reconnect_adds_plugin_again [of two_conns 0 "(busy_conn 9)\<lparr>writeio := open_channel False\<rparr>" 5
      "sample_icpt 11 1" _ 3 "[]" idle_conn sample_env fr' good_io]
  show ?thesis by (auto simp: two_conns_def open_channel_def)
qed

theorem closed_connection_serves_nobody_witness:
  "\<exists>w' td'. handlePHPConnectionEvents sample_env good_io NET_ERROR 0 (busy_world 9 [6]) = Inr w' \<and>
     tdata w' = Some td' \<and> pending_list (pendingReqQueue td') = [6] \<and> connections (pool td') = [] \<and>
     conns w' 0 = None"
  using closed_connection_serves_nobody
    [OF busy_world_sel(1) _ _ busy_world_sel(5), of 9 7 "[6]" NET_ERROR sample_env good_io]
  by (auto simp: busy_defs)

theorem read_complete_without_request_crashes_witness:
  "handlePHPConnectionEvents sample_env good_io VCONN_READ_COMPLETE 3 two_conns = Inl NullDeref"
  using read_complete_without_request_crashes [of two_conns 3 idle_conn sample_env good_io]
  by (simp add: two_conns_def idle_conn_def)

end
