(* ===== verification/Dispatch_Witnesses.thy ===== *)
theory Dispatch_Witnesses
  imports Server_Witnesses Request_Lifecycle
begin

text \<open>
  A run of the server from its initial state, for the properties of the dispatcher: a first request is
  served, a second one waits, and the second one is served when the first one ends, with its
  response or with its client.
\<close>

lemma sample_env_ok: "env_ok sample_env"
proof -
  have "env_junk16 sample_env = 0" by (simp add: sample_env_def)
  then show ?thesis using local_address
    by (simp add: env_ok_def sample_env_def sample_request_def default_config_def getDocumentRootDir_def getHtml_def)
qed

text \<open>After the first request.\<close>

lemma first_request_served:
  "\<exists>w td icpt conn. reachable sample_env w \<and> tdata w = Some td \<and> dispatch w td = ({0}, []) \<and>
     maxConn (pool td) = 1 \<and> 0 < unat (max_queue_size (pendingReqQueue td)) \<and>
     ids_left w \<and> next_addr w = 2 \<and> next_id w = 2 \<and> intercept_list w 1 = Some (0, 1) \<and>
     connections (pool td) = [1] \<and> available_connections (pool td) = [] \<and> threadKey w \<noteq> 0 \<and>
     icpts w 0 = Some icpt \<and> si_request_id icpt = 1 \<and>
     conns w 1 = Some conn \<and> contp conn \<and> requestId conn = 1 \<and> readio conn = new_channel"
proof -
  from first_request_run obtain w td icpt conn where
    run: "handleReadCacheLookupComplete sample_env [KeyCreated 1] first_request 11 initial_world = Some (Inr w)"
    and w: "intercept_list w = [1 \<mapsto> (0, 1)]" "tdata w = Some td" "maxConn (pool td) = 1"
      "pendingReqQueue td = new_queue default_config" "next_addr w = 2" "next_id w = 2"
      "icpts w 0 = Some icpt" "si_request_id icpt = 1" "conns w 1 = Some conn" "contp conn" "requestId conn = 1"
      "readio conn = new_channel" "connections (pool td) = [1]" "available_connections (pool td) = []"
    by auto
  have "server_step sample_env initial_world w"
    by (rule step_request [OF ids_left_initial _ run]) simp
  then have r: "reachable sample_env w" by (rule reachable_step [OF reachable_initial])
  moreover have "threadKey w \<noteq> 0" using server_invD(6) [OF reachable_inv [OF r]] w(2) by simp
  moreover have "dispatch w td = ({0}, [])"
    using w by (auto simp: dispatch_def served_def new_queue_def)
  moreover have "ids_left w" using w by (simp add: ids_left_def)
  moreover have "0 < unat (max_queue_size (pendingReqQueue td))"
    using w(4) by (simp add: new_queue_def default_config_def getRequestQueueSize_def)
  ultimately show ?thesis using w by (intro exI [of _ w] exI [of _ td] exI [of _ icpt] exI [of _ conn]) simp
qed

theorem no_connection_lost_witness:
  "\<exists>w td. reachable sample_env w \<and> tdata w = Some td \<and> busy (pool td) = {1} \<and> int (card (busy (pool td))) \<le> 10 div 6"
proof -
  from first_request_run obtain w td where
    run: "handleReadCacheLookupComplete sample_env [KeyCreated 1] first_request 11 initial_world = Some (Inr w)"
    and w: "intercept_list w = [1 \<mapsto> (0, 1)]" "tdata w = Some td" by auto
  have "server_step sample_env initial_world w"
    by (rule step_request [OF ids_left_initial _ run]) simp
  then have r: "reachable sample_env w" by (rule reachable_step [OF reachable_initial])
  with no_connection_lost [OF r w(2)] w show ?thesis by (auto simp: sample_env_def getMaxConnLength_def default_config_def)
qed

definition second_request :: transaction where
  "second_request = first_request\<lparr>ats_handle := Some 12\<rparr>"

text \<open>The second request waits.\<close>

theorem request_arrives_witness:
  "\<exists>w td w' td' w1 td1. reachable sample_env w \<and> tdata w = Some td \<and> dispatch w td = ({0}, []) \<and>
     handleReadCacheLookupComplete sample_env [] second_request 12 w = Some (Inr w') \<and>
     tdata w' = Some td' \<and> dispatch w' td' = ({0}, [2]) \<and>
     handleReadCacheLookupComplete sample_env [KeyFailed, KeyCreated 1] second_request 12 initial_world = Some (Inr w1) \<and>
     tdata w1 = Some td1 \<and> dispatch w1 td1 = ({0}, [])"
proof -
  from first_request_served obtain w td where
    w: "reachable sample_env w" "tdata w = Some td" "dispatch w td = ({0}, [])" "maxConn (pool td) = 1"
      "0 < unat (max_queue_size (pendingReqQueue td))" "next_addr w = 2"
    by blast
  have sizes: "pool_size (env_cfg sample_env) = 1" "queue_size (env_cfg sample_env) = 250"
    by (simp_all add: pool_size_def queue_size_def sample_env_def default_config_def getMaxConnLength_def
        getRequestQueueSize_def signed_divide_int_def)
  have path: "ats_handle second_request = Some 12" "\<not> cache_hit_fresh second_request"
      "\<forall>c\<in>set (url_path second_request). c \<noteq> CHR 0x0A \<and> c \<noteq> CHR 0x0D"
    by (simp_all add: second_request_def first_request_def)
  have "\<exists>w' td'. handleReadCacheLookupComplete sample_env [] second_request 12 w = Some (Inr w') \<and> tdata w' = Some td' \<and>
      dispatch w' td' = ({0}, [2])"
    using request_arrives [OF w(1) sample_env_ok _ _ path, of "[]" 12] w sizes by (simp add: arrive_def thread_data_def)
  moreover have "\<exists>w' td'. handleReadCacheLookupComplete sample_env [KeyFailed, KeyCreated 1] second_request 12 initial_world =
      Some (Inr w') \<and> tdata w' = Some td' \<and> dispatch w' td' = ({0}, [])"
    using request_arrives [OF reachable_initial sample_env_ok _ _ path, of "[KeyFailed, KeyCreated 1]" 12] sizes
    by (simp add: arrive_def thread_data_def dispatch_def served_def initial_world_def new_thread_data_def new_queue_def)
  ultimately show ?thesis using w(1-3) by blast
qed


text \<open>Both requests, with the connection at work for the first one.\<close>

lemma second_request_waits:
  "\<exists>w td icpt conn. reachable sample_env w \<and> tdata w = Some td \<and> dispatch w td = ({0}, [2]) \<and>
     ids_left w \<and> intercept_list w 1 = Some (0, 1) \<and> icpts w 0 = Some icpt \<and> si_request_id icpt = 1 \<and>
     icpts w 2 \<noteq> None \<and> conns w 1 = Some conn \<and> contp conn \<and> requestId conn = 1 \<and> readio conn = new_channel"
proof -
  from first_request_served obtain w td icpt conn where
    w: "reachable sample_env w" "tdata w = Some td" "dispatch w td = ({0}, [])" "maxConn (pool td) = 1"
      "0 < unat (max_queue_size (pendingReqQueue td))" "ids_left w" "next_addr w = 2"
      "intercept_list w 1 = Some (0, 1)" "connections (pool td) = [1]" "available_connections (pool td) = []"
      "threadKey w \<noteq> 0" "icpts w 0 = Some icpt" "si_request_id icpt = 1" "conns w 1 = Some conn" "contp conn"
      "requestId conn = 1" "readio conn = new_channel" by blast
  define td' where "td' = td\<lparr>pendingReqQueue := (pendingReqQueue td)\<lparr>pending_list := [2]\<rparr>\<rparr>"
  define w' where "w' = TSStatIntIncrement reqBegId 1 (w\<lparr>next_addr := 4,
    icpts := (icpts w)(2 \<mapsto> new_intercept (env_junk32 sample_env) 12), tdata := Some td'\<rparr>)"
  have "handleReadCacheLookupComplete sample_env [] second_request 12 w = Some (Inr w')"
    using w first_request_path
    by (simp add: handleReadCacheLookupComplete_def second_request_def first_request_def new_icpt_def
        set_icpt_def TSStatIntIncrement_def connect_def getAvailableConnection_def addToQueue_def
        isQueueFull_def dispatch_def w'_def td'_def)
  then have "server_step sample_env w w'" by (intro step_request [OF w(6)]) simp_all
  with w(1) have "reachable sample_env w'" by (rule reachable_step)
  moreover have "dispatch w' td' = ({0}, [2])" using w(3) by (simp add: dispatch_def served_def w'_def td'_def)
  moreover have "ids_left w'" using w(6) by (simp add: ids_left_def w'_def TSStatIntIncrement_def)
  ultimately show ?thesis
    using w by (intro exI [of _ w'] exI [of _ td'] exI [of _ icpt] exI [of _ conn])
      (simp add: w'_def TSStatIntIncrement_def)
qed

text \<open>The response of the first request has come.\<close>

lemma response_has_come:
  "\<exists>w td. reachable sample_env w \<and> tdata w = Some td \<and> dispatch w td = ({0}, [2]) \<and>
     may_end sample_env (Responded sample_chunks) 0 1 w \<and> waiting_alive w td"
proof -
  from second_request_waits obtain w td icpt conn where
    w: "reachable sample_env w" "tdata w = Some td" "dispatch w td = ({0}, [2])" "ids_left w"
      "intercept_list w 1 = Some (0, 1)" "icpts w 0 = Some icpt" "si_request_id icpt = 1"
      "icpts w 2 \<noteq> None" "conns w 1 = Some conn" "contp conn" "requestId conn = 1"
      "readio conn = new_channel" by blast
  obtain fr where fr: "new_request 0 default_config sample_request 1 = Inr fr"
    using sample_new_request by auto
  let ?conn2 = "(connected 7 fr conn)"
  define w2 where "w2 = ats [AddPlugin (txn icpt) 0, Resume (txn icpt)]
    (set_conn 1 ?conn2 (TSStatIntIncrement phpConnCount 1 w))"
  have "handlePHPConnectionEvents sample_env good_io (NET_CONNECT 7) 1 w = Inr w2"
    using net_connect_run [OF w(9) _ w(6), of 1 sample_env fr good_io 7] w fr by (simp add: w2_def)
  then have r2: "reachable sample_env w2"
    by (rule reachable_step [OF w(1) step_event [OF w(4,9,10)]])
  have w2: "conns w2 1 = Some ?conn2" "contp ?conn2" "ids_left w2" "tdata w2 = Some td"
    "dispatch w2 td = ({0}, [2])" "intercept_list w2 1 = Some (0, 1)" "icpts w2 2 \<noteq> None" "icpts w2 0 = Some icpt"
    using w by (simp_all add: w2_def ats_def set_conn_def connected_def TSStatIntIncrement_def ids_left_def
        dispatch_def served_def)
  let ?conn3 = "reading ?conn2"
  define w3 where "w3 = ats [VConnRead 7] (set_conn 1 ?conn3 (TSStatIntIncrement reqEndId 1 w2))"
  have "handlePHPConnectionEvents sample_env good_io VCONN_WRITE_COMPLETE 1 w2 = Inr w3"
    using write_complete_run [OF w2(1), of 7 good_io sample_env] w(12)
    by (simp add: w3_def connected_def new_channel_def good_io_def)
  then have r3: "reachable sample_env w3"
    by (rule reachable_step [OF r2 step_event [OF w2(3,1,2)]])
  have w3: "conns w3 1 = Some ?conn3" "contp ?conn3" "iobuf (readio ?conn3) \<noteq> None" "vio (readio ?conn3)"
    "fcgiRequest ?conn3 = Some fr" "requestId ?conn3 = 1" "ids_left w3" "tdata w3 = Some td"
    "dispatch w3 td = ({0}, [2])" "intercept_list w3 1 = Some (0, 1)" "icpts w3 2 \<noteq> None"
    using w2 w(11) by (simp_all add: w3_def ats_def set_conn_def reading_def connected_def
        TSStatIntIncrement_def ids_left_def dispatch_def served_def)
  have "fr_response fr = new_response" using fr by (auto simp: new_request_def bindE_eq_Inr)
  from transfer_stream [OF this sample_stream_ok sample_stream_shape sample_chunks_concat sample_chunks_nonempty,
      of sample_env] sample_stream_response w3(5)
  obtain n data fr' where t: "transfer_blocks sample_env sample_chunks False 0 [] (fcgiRequest ?conn3) =
      Inr (True, n, data, fr')" by auto
  have "may_end sample_env (Responded sample_chunks) 0 1 w3"
    unfolding may_end_def using w3(1-4,7,10) t by auto
  moreover have "waiting_alive w3 td" using w3(9,11) by (simp add: waiting_alive_def dispatch_def)
  ultimately show ?thesis using r3 w3(8,9) by blast
qed

theorem request_finishes_witness:
  "\<exists>w td w' td'. reachable sample_env w \<and> tdata w = Some td \<and> dispatch w td = ({0}, [2]) \<and>
     handlePHPConnectionEvents sample_env good_io (VCONN_READ_READY sample_chunks) 1 w = Inr w' \<and>
     tdata w' = Some td' \<and> dispatch w' td' = ({2}, [])"
proof -
  from response_has_come obtain w td where
    w: "reachable sample_env w" "tdata w = Some td" "dispatch w td = ({0}, [2])"
      "may_end sample_env (Responded sample_chunks) 0 1 w" "waiting_alive w td" by blast
  with request_finishes [OF w(1,2) sample_env_ok w(4,5), of good_io] show ?thesis
    by (force simp: finish_def end_request_def)
qed

theorem waiting_request_is_served_witness:
  "\<exists>w td w' rid c. reachable sample_env w \<and> tdata w = Some td \<and> pending_list (pendingReqQueue td) = [2] \<and>
     server_run sample_env w [(False, w), (True, w')] \<and> intercept_list w' rid = Some (2, c)"
proof -
  from response_has_come obtain w td where
    w: "reachable sample_env w" "tdata w = Some td" "dispatch w td = ({0}, [2])"
      "may_end sample_env (Responded sample_chunks) 0 1 w" "waiting_alive w td" by blast
  from end_request_returns [OF w(1,2) sample_env_ok w(4,5), of good_io] obtain w' where
    "end_request sample_env good_io (Responded sample_chunks) 0 1 w = Inr w'" by blast
  with w(4) have ends: "ends_request sample_env w w'" by (auto simp: ends_request_def)
  have "interference w w"
    using reachable_inv [OF w(1)] reachable_no_leak [OF w(1)]
    by (auto simp: interference_def server_invD dest: no_leakD)
  then have run: "server_run sample_env w [(False, w), (True, w')]" using ends by simp
  from w(3) have q: "pending_list (pendingReqQueue td) = [2]" and "2 \<notin> served w" by (simp_all add: dispatch_def)
  then have "\<not> (\<exists>rid c. intercept_list w rid = Some (2, c))" by (auto simp: served_def)
  with waiting_request_is_served [OF w(1,2) _ run, of 0] q
  have "\<exists>rid c. intercept_list w' rid = Some (2, c)" by auto
  with w(1,2) q run show ?thesis by blast
qed

end
