(* ===== verification/Thread_Frame.thy ===== *)
theory Thread_Frame
  imports Server_Dispatch
begin

text \<open>
  What a handler of one event thread does to the others: nothing but to allocate, to take ids and to call
  Traffic Server. The handler runs the same with the entries of the other threads in the table, which it
  leaves as they are, and it changes only connections and intercepts of its own thread.
\<close>

section \<open>The part of a thread\<close>

text \<open>The table with the entries \<open>E\<close> of the other threads.\<close>

definition with_entries :: "(uint \<Rightarrow> (nat \<times> nat) option) \<Rightarrow> world \<Rightarrow> world" where
  "with_entries E w = w\<lparr>intercept_list := intercept_list w ++ E\<rparr>"

lemma with_entries_simps [simp]:
  "conns (with_entries E w) = conns w" "icpts (with_entries E w) = icpts w"
  "next_addr (with_entries E w) = next_addr w" "next_id (with_entries E w) = next_id w"
  "threadKey (with_entries E w) = threadKey w" "tdata (with_entries E w) = tdata w"
  "stats (with_entries E w) = stats w" "calls (with_entries E w) = calls w"
  "ids_left (with_entries E w) = ids_left w"
  by (simp_all add: with_entries_def ids_left_def)

lemma with_entries_ops [simp]:
  "ats cs (with_entries E w) = with_entries E (ats cs w)"
  "TSStatIntIncrement s d (with_entries E w) = with_entries E (TSStatIntIncrement s d w)"
  "set_conn c conn (with_entries E w) = with_entries E (set_conn c conn w)"
  "set_icpt i icpt (with_entries E w) = with_entries E (set_icpt i icpt w)"
  "(with_entries E w)\<lparr>tdata := td\<rparr> = with_entries E (w\<lparr>tdata := td\<rparr>)"
  "(with_entries E w)\<lparr>conns := h\<rparr> = with_entries E (w\<lparr>conns := h\<rparr>)"
  "(with_entries E w)\<lparr>icpts := g\<rparr> = with_entries E (w\<lparr>icpts := g\<rparr>)"
  "(with_entries E w)\<lparr>next_addr := n\<rparr> = with_entries E (w\<lparr>next_addr := n\<rparr>)"
  "(with_entries E w)\<lparr>next_id := r\<rparr> = with_entries E (w\<lparr>next_id := r\<rparr>)"
  "(with_entries E w)\<lparr>threadKey := k\<rparr> = with_entries E (w\<lparr>threadKey := k\<rparr>)"
  by (simp_all add: with_entries_def world_ops)

lemma table_update:
  assumes "rid \<notin> dom E"
  shows "(m ++ E) rid = m rid" "(m ++ E)(rid := x) = m(rid := x) ++ E"
  using assms by (auto simp: map_add_def fun_eq_iff split: option.splits)

lemma with_entries_table:
  assumes "rid \<notin> dom E"
  shows "intercept_list (with_entries E w) rid = intercept_list w rid"
    and "getIntercept rid (with_entries E w) = getIntercept rid w"
    and "getServerConnection rid (with_entries E w) = getServerConnection rid w"
    and "erase_entry rid (with_entries E w) = with_entries E (erase_entry rid w)"
    and "(with_entries E w)\<lparr>intercept_list := (intercept_list (with_entries E w'))(rid := x)\<rparr> =
      with_entries E (w\<lparr>intercept_list := (intercept_list w')(rid := x)\<rparr>)"
  using table_update [OF assms]
  by (simp_all add: with_entries_def getIntercept_def getServerConnection_def erase_entry_def)

text \<open>
  \<open>H\<close> are the addresses that belong to the thread, those not yet used among them. The ids of its connections and
  of its requests are in no entry of another thread.
\<close>

definition known :: "world \<Rightarrow> nat \<Rightarrow> bool" where
  "known w i \<longleftrightarrow> (\<exists>t. AddPlugin t i \<in> set (calls w)) \<or> (\<exists>rid c. intercept_list w rid = Some (i, c))"

definition data_in :: "nat set \<Rightarrow> ThreadData \<Rightarrow> bool" where
  "data_in H td \<longleftrightarrow> set (connections (pool td)) \<subseteq> H \<and> set (available_connections (pool td)) \<subseteq> H \<and>
     set (pending_list (pendingReqQueue td)) \<subseteq> H"

definition thread_part :: "(uint \<Rightarrow> (nat \<times> nat) option) \<Rightarrow> nat set \<Rightarrow> world \<Rightarrow> bool" where
  "thread_part E H w \<longleftrightarrow>
     0 \<notin> dom E \<and> (\<forall>a. next_addr w \<le> a \<longrightarrow> a \<in> H) \<and> (\<forall>td. tdata w = Some td \<longrightarrow> data_in H td) \<and>
     (\<forall>rid i c. intercept_list w rid = Some (i, c) \<longrightarrow> rid \<notin> dom E \<and> i \<in> H \<and> c \<in> H) \<and>
     (\<forall>c conn. c \<in> H \<longrightarrow> conns w c = Some conn \<longrightarrow> requestId conn \<notin> dom E) \<and>
     (\<forall>i icpt. i \<in> H \<longrightarrow> known w i \<longrightarrow> icpts w i = Some icpt \<longrightarrow> si_request_id icpt \<notin> dom E)"

lemma thread_partD:
  assumes "thread_part E H w"
  shows "0 \<notin> dom E" "next_addr w \<le> a \<Longrightarrow> a \<in> H" "tdata w = Some td \<Longrightarrow> data_in H td"
    and "intercept_list w rid = Some (i, c) \<Longrightarrow> rid \<notin> dom E \<and> i \<in> H \<and> c \<in> H"
    and "conns w c = Some conn \<Longrightarrow> c \<in> H \<Longrightarrow> requestId conn \<notin> dom E"
    and "icpts w i = Some icpt \<Longrightarrow> i \<in> H \<Longrightarrow> known w i \<Longrightarrow> si_request_id icpt \<notin> dom E"
  using assms by (auto simp: thread_part_def)

lemma thread_partI:
  assumes "0 \<notin> dom E" "\<And>a. next_addr w \<le> a \<Longrightarrow> a \<in> H" "\<And>td. tdata w = Some td \<Longrightarrow> data_in H td"
    and "\<And>rid i c. intercept_list w rid = Some (i, c) \<Longrightarrow> rid \<notin> dom E \<and> i \<in> H \<and> c \<in> H"
    and "\<And>c conn. conns w c = Some conn \<Longrightarrow> c \<in> H \<Longrightarrow> requestId conn \<notin> dom E"
    and "\<And>i icpt. icpts w i = Some icpt \<Longrightarrow> i \<in> H \<Longrightarrow> known w i \<Longrightarrow> si_request_id icpt \<notin> dom E"
  shows "thread_part E H w"
  using assms unfolding thread_part_def by blast

text \<open>What a piece of a handler changes.\<close>

definition inside :: "nat set \<Rightarrow> world \<Rightarrow> world \<Rightarrow> bool" where
  "inside H w w' \<longleftrightarrow>
     (\<forall>a. a \<notin> H \<longrightarrow> conns w' a = conns w a \<and> icpts w' a = icpts w a) \<and>
     next_addr w \<le> next_addr w' \<and> next_id w \<le> next_id w' \<and>
     (\<exists>cs. calls w' = calls w @ cs \<and> (\<forall>t i. AddPlugin t i \<in> set cs \<longrightarrow> i \<in> H))"

lemma inside_refl [simp]: "inside H w w"
  by (simp add: inside_def)

lemma inside_trans: "inside H w w1 \<Longrightarrow> inside H w1 w2 \<Longrightarrow> inside H w w2"
proof -
  assume a: "inside H w w1" "inside H w1 w2"
  obtain cs ds where "calls w1 = calls w @ cs" "\<forall>t i. AddPlugin t i \<in> set cs \<longrightarrow> i \<in> H"
      "calls w2 = calls w1 @ ds" "\<forall>t i. AddPlugin t i \<in> set ds \<longrightarrow> i \<in> H"
    using a unfolding inside_def by blast
  then have "\<exists>es. calls w2 = calls w @ es \<and> (\<forall>t i. AddPlugin t i \<in> set es \<longrightarrow> i \<in> H)"
    by (intro exI [of _ "cs @ ds"]) auto
  then show "inside H w w2" using a by (auto simp: inside_def)
qed


section \<open>Pieces of handlers\<close>

text \<open>
  The results \<open>r\<close> of a piece run alone and \<open>r'\<close> of the same piece run with the entries \<open>E\<close>; \<open>get\<close> and \<open>put\<close> find the state in
  a result. A piece that is \<open>quiet\<close> takes no id.
\<close>

definition framed :: "bool \<Rightarrow> (uint \<Rightarrow> (nat \<times> nat) option) \<Rightarrow> nat set \<Rightarrow> ('a \<Rightarrow> world) \<Rightarrow> ('a \<Rightarrow> 'a) \<Rightarrow> world \<Rightarrow>
    'a result \<Rightarrow> 'a result \<Rightarrow> bool" where
  "framed quiet E H get put w r r' \<longleftrightarrow> r' = map_sum id put r \<and>
     (\<forall>x. r = Inr x \<longrightarrow> thread_part E H (get x) \<and> inside H w (get x) \<and> (quiet \<longrightarrow> next_id (get x) = next_id w))"

abbreviation runs where "runs quiet E H \<equiv> framed quiet E H (\<lambda>w. w) (with_entries E)"

abbreviation runs_with where "runs_with quiet E H \<equiv> framed quiet E H snd (apsnd (with_entries E))"

lemma framed_Inr:
  "thread_part E H (get x) \<Longrightarrow> inside H w (get x) \<Longrightarrow> (quiet \<Longrightarrow> next_id (get x) = next_id w) \<Longrightarrow> y = put x \<Longrightarrow>
   framed quiet E H get put w (Inr x) (Inr y)"
  by (simp add: framed_def)

lemma framed_Inl [simp]: "framed quiet E H get put w (Inl e) (Inl e)"
  by (simp add: framed_def)

lemma framed_bind:
  assumes "framed q E H get put w r r'"
    and "\<And>x. r = Inr x \<Longrightarrow> thread_part E H (get x) \<Longrightarrow> (q \<Longrightarrow> next_id (get x) = next_id w) \<Longrightarrow>
      framed q' E H get' put' (get x) (f x) (f' (put x))"
  shows "framed (q \<and> q') E H get' put' w (bindE r f) (bindE r' f')"
proof (cases r)
  case (Inl e)
  then show ?thesis using assms(1) by (simp add: framed_def)
next
  case (Inr x)
  then have x: "thread_part E H (get x)" "inside H w (get x)" "q \<Longrightarrow> next_id (get x) = next_id w" and r': "r' = Inr (put x)"
    using assms(1) by (simp_all add: framed_def)
  have "framed q' E H get' put' (get x) (f x) (f' (put x))" by (rule assms(2) [OF Inr x(1,3)])
  then show ?thesis using Inr r' x(2,3) by (auto simp: framed_def intro: inside_trans)
qed

lemma framed_value:
  "(\<And>v. r = Inr v \<Longrightarrow> framed q E H get put w (f v) (f' v)) \<Longrightarrow> framed q E H get put w (bindE r f) (bindE r f')"
  by (cases r) (simp_all add: framed_def)

lemma framed_start:
  "framed q E H get put w1 r r' \<Longrightarrow> inside H w w1 \<Longrightarrow> (q \<Longrightarrow> next_id w1 = next_id w) \<Longrightarrow> framed q E H get put w r r'"
  by (auto simp: framed_def intro: inside_trans)

lemma framed_loud: "framed q E H get put w r r' \<Longrightarrow> framed False E H get put w r r'"
  by (simp add: framed_def)

lemma framed_case_option:
  "(x = None \<Longrightarrow> framed q E H get put w a a') \<Longrightarrow> (\<And>v. x = Some v \<Longrightarrow> framed q E H get put w (b v) (b' v)) \<Longrightarrow>
   framed q E H get put w (case x of None \<Rightarrow> a | Some v \<Rightarrow> b v) (case x of None \<Rightarrow> a' | Some v \<Rightarrow> b' v)"
  by (cases x) simp_all


section \<open>Small changes\<close>

lemma next_id_ops:
  "next_id (ats cs w) = next_id w" "next_id (TSStatIntIncrement s d w) = next_id w" "next_id (set_conn c conn w) = next_id w"
  "next_id (set_icpt i icpt w) = next_id w" "next_id (erase_entry rid w) = next_id w"
  by (simp_all add: world_ops)

lemma part_ats:
  assumes "thread_part E H w"
    and "\<And>t i icpt. AddPlugin t i \<in> set cs \<Longrightarrow> icpts w i = Some icpt \<Longrightarrow> si_request_id icpt \<notin> dom E"
  shows "thread_part E H (ats cs w)"
proof (rule thread_partI)
  show "si_request_id icpt \<notin> dom E"
    if that1: "icpts (ats cs w) i = Some icpt" "i \<in> H" and kn: "known (ats cs w) i" for i icpt
  proof (cases "known w i")
    case True
    then show ?thesis using that1 thread_partD(6) [OF assms(1)] by (simp add: ats_def)
  next
    case False
    then obtain t where "AddPlugin t i \<in> set cs" using kn by (auto simp: known_def ats_def)
    then show ?thesis using that1(1) assms(2) by (simp add: ats_def)
  qed
qed (use thread_partD(1-5) [OF assms(1)] in \<open>simp_all add: ats_def\<close>)

lemma inside_ats: "(\<And>t i. AddPlugin t i \<in> set cs \<Longrightarrow> i \<in> H) \<Longrightarrow> inside H w (ats cs w)"
  by (auto simp: inside_def ats_def)

lemma part_stat [simp]: "thread_part E H (TSStatIntIncrement s d w) = thread_part E H w"
  by (simp add: thread_part_def known_def)

lemma inside_stat [simp]: "inside H w (TSStatIntIncrement s d w')  = inside H w w'"
  by (simp add: inside_def)

lemma part_set_conn:
  assumes "thread_part E H w" "requestId conn \<notin> dom E"
  shows "thread_part E H (set_conn c conn w)"
proof (rule thread_partI)
  show "requestId x \<notin> dom E" if "conns (set_conn c conn w) d = Some x" "d \<in> H" for d x
    using that assms(2) thread_partD(5) [OF assms(1), of d x] by (auto simp: set_conn_def split: if_splits)
  show "si_request_id icpt \<notin> dom E" if "icpts (set_conn c conn w) i = Some icpt" "i \<in> H" "known (set_conn c conn w) i" for i icpt
    using that thread_partD(6) [OF assms(1), of i icpt] by (auto simp: set_conn_def known_def)
qed (use thread_partD(1-4) [OF assms(1)] in \<open>simp_all add: set_conn_def\<close>)

lemma inside_set_conn: "c \<in> H \<Longrightarrow> inside H w (set_conn c conn w)"
  by (auto simp: inside_def set_conn_def)

lemma part_set_icpt:
  assumes "thread_part E H w" "known w i \<Longrightarrow> si_request_id icpt \<notin> dom E"
  shows "thread_part E H (set_icpt i icpt w)"
proof (rule thread_partI)
  show "si_request_id x \<notin> dom E" if "icpts (set_icpt i icpt w) j = Some x" "j \<in> H" "known (set_icpt i icpt w) j" for j x
    using that assms(2) thread_partD(6) [OF assms(1), of j x] by (auto simp: set_icpt_def known_def split: if_splits)
qed (use thread_partD(1-5) [OF assms(1)] in \<open>simp_all add: set_icpt_def\<close>)

lemma inside_set_icpt: "i \<in> H \<Longrightarrow> inside H w (set_icpt i icpt w)"
  by (auto simp: inside_def set_icpt_def)

lemma part_erase:
  assumes "thread_part E H w"
  shows "thread_part E H (erase_entry rid w)"
proof (rule thread_partI)
  show "si_request_id x \<notin> dom E" if "icpts (erase_entry rid w) j = Some x" "j \<in> H" "known (erase_entry rid w) j" for j x
    using that thread_partD(6) [OF assms, of j x] by (auto simp: erase_entry_def known_def split: if_splits)
  show "r \<notin> dom E \<and> i \<in> H \<and> c \<in> H" if "intercept_list (erase_entry rid w) r = Some (i, c)" for r i c
    using that thread_partD(4) [OF assms, of r i c] by (auto simp: erase_entry_def split: if_splits)
qed (use thread_partD(1-3,5) [OF assms] in \<open>simp_all add: erase_entry_def\<close>)

lemma inside_erase [simp]: "inside H w (erase_entry rid w)"
  by (simp add: inside_def erase_entry_def)

lemma part_tdata:
  assumes "thread_part E H w" "data_in H td"
  shows "thread_part E H (w\<lparr>tdata := Some td\<rparr>)"
proof (rule thread_partI)
  show "si_request_id x \<notin> dom E" if "icpts (w\<lparr>tdata := Some td\<rparr>) j = Some x" "j \<in> H" "known (w\<lparr>tdata := Some td\<rparr>) j" for j x
    using that thread_partD(6) [OF assms(1), of j x] by (simp add: known_def)
qed (use thread_partD [OF assms(1)] assms(2) in simp_all)

lemma inside_tdata [simp]: "inside H w (w'\<lparr>tdata := td\<rparr>) = inside H w w'"
  by (simp add: inside_def)

lemma part_conns:
  assumes "thread_part E H w" "\<And>c conn. h c = Some conn \<Longrightarrow> c \<in> H \<Longrightarrow> requestId conn \<notin> dom E"
  shows "thread_part E H (w\<lparr>conns := h\<rparr>)"
proof (rule thread_partI)
  show "si_request_id x \<notin> dom E" if "icpts (w\<lparr>conns := h\<rparr>) j = Some x" "j \<in> H" "known (w\<lparr>conns := h\<rparr>) j" for j x
    using that thread_partD(6) [OF assms(1), of j x] by (simp add: known_def)
qed (use thread_partD(1-4) [OF assms(1)] assms(2) in simp_all)

lemma part_next_addr:
  assumes "thread_part E H w" "next_addr w \<le> n"
  shows "thread_part E H (w\<lparr>next_addr := n\<rparr>)"
proof (rule thread_partI)
  show "a \<in> H" if "next_addr (w\<lparr>next_addr := n\<rparr>) \<le> a" for a
    using that assms(2) thread_partD(2) [OF assms(1), of a] by simp
  show "si_request_id x \<notin> dom E" if "icpts (w\<lparr>next_addr := n\<rparr>) j = Some x" "j \<in> H" "known (w\<lparr>next_addr := n\<rparr>) j" for j x
    using that thread_partD(6) [OF assms(1), of j x] by (simp add: known_def)
qed (use thread_partD(1,3-5) [OF assms(1)] in simp_all)


section \<open>Connecting\<close>

lemma getAvailableConnection_facts:
  assumes "getAvailableConnection cfg n (p, h) = Inr (r, p', h')"
  shows "set (connections p') \<subseteq> insert n (set (connections p))"
    and "set (available_connections p') \<subseteq> set (available_connections p)"
    and "r = Some c \<Longrightarrow> c = n \<or> c \<in> set (available_connections p)"
    and "h' c = Some conn \<Longrightarrow> requestId conn = 0 \<or> (\<exists>conn'. h c = Some conn' \<and> requestId conn = requestId conn')"
    and "h' c \<noteq> h c \<Longrightarrow> c = n \<or> c \<in> set (available_connections p)"
  using assms
  by (auto simp: getAvailableConnection_def bindE_eq_Inr heap_get_Inr addConnection_def new_connection_def Let_def
      split: if_splits dest: list.set_sel(2))

lemma initiate_framed:
  assumes w: "thread_part E H w" and i: "i \<in> H" and c: "c \<in> H" and ids: "ids_left w" "next_id w \<notin> dom E"
  shows "runs False E H w (initiateBackendConnection env i c w) (initiateBackendConnection env i c (with_entries E w))"
proof -
  have eq: "initiateBackendConnection env i c (with_entries E w) = map_sum id (with_entries E) (initiateBackendConnection env i c w)"
  proof (cases "icpts w i")
    case (Some icpt)
    show ?thesis
    proof (cases "conns w c")
      case (Some conn)
      have "conns (set_icpt i x w') = conns w'" for x w' by (simp add: set_icpt_def)
      then show ?thesis
        using \<open>icpts w i = Some icpt\<close> Some
        by (simp add: initiateBackendConnection_def getNext_def Let_def with_entries_table(5) [OF ids(2)] bindE_def
            split: sum.splits)
    qed (use Some in \<open>simp add: initiateBackendConnection_def getNext_def Let_def set_icpt_def\<close>)
  qed (simp add: initiateBackendConnection_def getNext_def Let_def)
  show ?thesis unfolding framed_def
  proof (intro conjI allI impI eq)
    fix w' assume "initiateBackendConnection env i c w = Inr w'"
    then obtain icpt conn conn' cs where h: "icpts w i = Some icpt" "conns w c = Some conn" "requestId conn' = next_id w"
        "\<forall>t j. AddPlugin t j \<in> set cs \<longrightarrow> j = i"
      and w': "w' = w\<lparr>icpts := (icpts w)(i \<mapsto> icpt\<lparr>si_request_id := next_id w\<rparr>),
            conns := (conns w)(c \<mapsto> conn'),
            intercept_list := (intercept_list w)(next_id w \<mapsto> (i, c)),
            next_id := next_id w + 1, calls := calls w @ cs\<rparr>"
      using initiateBackendConnection_facts by blast
    show "thread_part E H w'"
    proof (rule thread_partI)
      show "si_request_id x \<notin> dom E" if "icpts w' j = Some x" "j \<in> H" "known w' j" for j x
      proof (cases "j = i")
        case True
        then show ?thesis using that(1) ids(2) by (auto simp: w')
      next
        case False
        then have "known w j" using that(3) h(4) by (auto simp: known_def w' split: if_splits)
        then show ?thesis using that False thread_partD(6) [OF w, of j x] by (simp add: w')
      qed
      show "requestId x \<notin> dom E" if "conns w' d = Some x" "d \<in> H" for d x
        using that h(3) ids thread_partD(5) [OF w, of d x] by (auto simp: w' split: if_splits)
      show "rid \<notin> dom E \<and> j \<in> H \<and> d \<in> H" if "intercept_list w' rid = Some (j, d)" for rid j d
        using that i c ids thread_partD(4) [OF w, of rid j d] by (auto simp: w' split: if_splits)
    qed (use thread_partD(1-3) [OF w] in \<open>simp_all add: w'\<close>)
    show "inside H w w'"
      using h(4) i c next_id_grows [OF ids(1)] by (auto simp: inside_def w')
  qed simp
qed

lemma connect_framed:
  assumes w: "thread_part E H w" and i: "i \<in> H" and ids: "ids_left w" "next_id w \<notin> dom E"
  shows "runs_with False E H w (connect env i w) (connect env i (with_entries E w))"
proof (cases "tdata w")
  case None
  then show ?thesis using w by (auto simp: connect_def intro: framed_Inr)
next
  case (Some td)
  have td: "data_in H td" using thread_partD(3) [OF w Some] .
  have new: "next_addr w \<in> H" using thread_partD(2) [OF w] by simp
  show ?thesis
    unfolding connect_def Some with_entries_simps option.case
  proof (rule framed_value)
    fix v assume get: "getAvailableConnection (env_cfg env) (next_addr w) (pool td, conns w) = Inr v"
    obtain conn p heap where v: "v = (conn, p, heap)" by (cases v) auto
    note facts = getAvailableConnection_facts [OF get [unfolded v]]
    let ?w1 = "w\<lparr>conns := heap, next_addr := Suc (next_addr w)\<rparr>"
    have "requestId x \<notin> dom E" if "heap c = Some x" "c \<in> H" for c x
      using facts(4) [OF that(1)] thread_partD(1) [OF w] thread_partD(5) [OF w _ that(2)] by auto
    then have w1: "thread_part E H ?w1" by (intro part_next_addr part_conns w) simp_all
    have td1: "data_in H (td\<lparr>pool := p\<rparr>)" using facts(1,2) td new by (auto simp: data_in_def)
    have avail: "set (available_connections (pool td)) \<subseteq> H" using td by (simp add: data_in_def)
    have in1: "inside H w ?w1" using facts(5) new avail by (auto simp: inside_def)
    show "runs_with False E H w
       ((\<lambda>(conn, p, heap). let w = w\<lparr>conns := heap, next_addr := Suc (next_addr w)\<rparr> in
          case conn of
            Some c \<Rightarrow> bindE (initiateBackendConnection env i c (w\<lparr>tdata := Some (td\<lparr>pool := p\<rparr>)\<rparr>)) (\<lambda>w. Inr (0, w))
          | None \<Rightarrow> Inr (0, w\<lparr>tdata := Some (td\<lparr>pool := p, pendingReqQueue := snd (addToQueue i (pendingReqQueue td))\<rparr>)\<rparr>)) v)
       ((\<lambda>(conn, p, heap). let w = (with_entries E w)\<lparr>conns := heap, next_addr := Suc (next_addr w)\<rparr> in
          case conn of
            Some c \<Rightarrow> bindE (initiateBackendConnection env i c (w\<lparr>tdata := Some (td\<lparr>pool := p\<rparr>)\<rparr>)) (\<lambda>w. Inr (0, w))
          | None \<Rightarrow> Inr (0, w\<lparr>tdata := Some (td\<lparr>pool := p, pendingReqQueue := snd (addToQueue i (pendingReqQueue td))\<rparr>)\<rparr>)) v)"
    proof (cases conn)
      case None
      have "data_in H (td\<lparr>pool := p, pendingReqQueue := snd (addToQueue i (pendingReqQueue td))\<rparr>)"
        using td1 i by (auto simp: data_in_def addToQueue_def)
      then show ?thesis using None v w1 in1 by (auto simp: Let_def intro!: framed_Inr part_tdata)
    next
      case (Some c)
      let ?w2 = "?w1\<lparr>tdata := Some (td\<lparr>pool := p\<rparr>)\<rparr>"
      have c: "c \<in> H" using facts(3) [OF Some] new avail by auto
      have "runs False E H ?w2 (initiateBackendConnection env i c ?w2) (initiateBackendConnection env i c (with_entries E ?w2))"
        by (rule initiate_framed [OF part_tdata [OF w1 td1] i c]) (use ids in \<open>simp_all add: ids_left_def\<close>)
      then have "runs False E H w (initiateBackendConnection env i c ?w2) (initiateBackendConnection env i c (with_entries E ?w2))"
        by (rule framed_start) (use in1 in simp_all)
      then have "runs_with (False \<and> False) E H w (bindE (initiateBackendConnection env i c ?w2) (\<lambda>w. Inr (0, w)))
          (bindE (initiateBackendConnection env i c (with_entries E ?w2)) (\<lambda>w. Inr (0, w)))"
        by (rule framed_bind) (simp add: framed_Inr)
      then show ?thesis using Some v by (simp add: Let_def)
    qed
  qed
qed

text \<open>An operation whose value is not used.\<close>

lemma framed_drop:
  "runs_with q E H w r r' \<Longrightarrow> runs q E H w (bindE r (\<lambda>(x, w). Inr w)) (bindE r' (\<lambda>(x, w). Inr w))"
  by (cases r) (auto simp: framed_def split: prod.splits)

lemma reConnect_framed:
  assumes w: "thread_part E H w" and rid: "rid \<notin> dom E" and ids: "ids_left w" "next_id w \<notin> dom E"
  shows "runs False E H w (reConnect env rid w) (reConnect env rid (with_entries E w))"
  unfolding reConnect_def with_entries_table(2,4) [OF rid]
proof (rule framed_case_option)
  fix i assume "getIntercept rid w = Some i"
  then have i: "i \<in> H" using thread_partD(4) [OF w] by (auto simp: getIntercept_def)
  let ?w = "erase_entry rid w"
  have "runs_with False E H ?w (connect env i ?w) (connect env i (with_entries E ?w))"
    by (rule connect_framed [OF part_erase [OF w] i]) (use ids in \<open>simp_all add: ids_left_def erase_entry_def\<close>)
  then show "runs False E H w (bindE (connect env i ?w) (\<lambda>(r, w). Inr w)) (bindE (connect env i (with_entries E ?w)) (\<lambda>(r, w). Inr w))"
    by (intro framed_drop) (auto intro: framed_start)
qed (simp add: framed_Inr w)


section \<open>Ending a request\<close>

lemma setState_framed:
  assumes w: "thread_part E H w" and c: "c \<in> H"
  shows "runs True E H w (setState c s w) (setState c s (with_entries E w))"
  unfolding setState_def with_entries_simps
proof (rule framed_value)
  fix conn assume "heap_get c (conns w) = Inr conn"
  then have "requestId conn \<notin> dom E" using thread_partD(5) [OF w _ c] by (simp add: heap_get_Inr)
  then show "runs True E H w (Inr (set_conn c (conn\<lparr>conn_state := s\<rparr>) w))
      (Inr (set_conn c (conn\<lparr>conn_state := s\<rparr>) (with_entries E w)))"
    by (intro framed_Inr part_set_conn inside_set_conn) (use w c in \<open>simp_all add: set_conn_def\<close>)
qed

lemma connectionClosed_framed:
  assumes w: "thread_part E H w" and c: "c \<in> H"
  shows "runs True E H w (connectionClosed c w) (connectionClosed c (with_entries E w))"
  unfolding connectionClosed_def with_entries_simps
proof (rule framed_value)
  fix conn assume "heap_get c (conns w) = Inr conn"
  then have rid: "requestId conn \<notin> dom E" using thread_partD(5) [OF w _ c] by (simp add: heap_get_Inr)
  let ?w = "erase_entry (requestId conn) w"
  have same: "conns ?w = conns w" "tdata ?w = tdata w" "next_id ?w = next_id w" by (simp_all add: erase_entry_def)
  show "runs True E H w
     (let w = erase_entry (requestId conn) w in bindE (deref (tdata w)) (\<lambda>td.
        bindE (pool_connectionClosed c (pool td, conns w)) (\<lambda>(cs, p, heap).
          Inr (TSStatIntIncrement phpConnCount (- 1) (ats cs (w\<lparr>conns := heap, tdata := Some (td\<lparr>pool := p\<rparr>)\<rparr>))))))
     (let w = erase_entry (requestId conn) (with_entries E w) in bindE (deref (tdata w)) (\<lambda>td.
        bindE (pool_connectionClosed c (pool td, conns w)) (\<lambda>(cs, p, heap).
          Inr (TSStatIntIncrement phpConnCount (- 1) (ats cs (w\<lparr>conns := heap, tdata := Some (td\<lparr>pool := p\<rparr>)\<rparr>))))))"
    unfolding Let_def with_entries_table(4) [OF rid] with_entries_simps same
  proof (intro framed_value)
    fix td v assume td: "deref (tdata w) = Inr td" and v: "pool_connectionClosed c (pool td, conns w) = Inr v"
    obtain cs p heap where v': "v = (cs, p, heap)" by (cases v) auto
    have h: "heap = (conns w)(c := None)" "available_connections p = removeAll c (available_connections (pool td))"
      "connections p = removeAll c (connections (pool td))" and cs: "AddPlugin t i \<notin> set cs" for t i
      using v unfolding v'
      by (auto simp: pool_connectionClosed_def bindE_eq_Inr dest: delete_connection_no_AddPlugin)
    have "data_in H td" using td thread_partD(3) [OF w] by (simp add: deref_eq_Inr)
    then have "data_in H (td\<lparr>pool := p\<rparr>)" by (auto simp: data_in_def h)
    moreover have "thread_part E H (?w\<lparr>conns := heap\<rparr>)"
      by (rule part_conns [OF part_erase [OF w]]) (use thread_partD(5) [OF w] in \<open>auto simp: h split: if_splits\<close>)
    ultimately have "thread_part E H (ats cs (?w\<lparr>conns := heap, tdata := Some (td\<lparr>pool := p\<rparr>)\<rparr>))"
      by (intro part_ats part_tdata) (use cs in simp_all)
    moreover have "inside H w (ats cs (?w\<lparr>conns := heap, tdata := Some (td\<lparr>pool := p\<rparr>)\<rparr>))"
      using cs c by (auto simp: inside_def ats_def erase_entry_def h)
    ultimately show "runs True E H w
        ((\<lambda>(cs, p, heap). Inr (TSStatIntIncrement phpConnCount (- 1) (ats cs (?w\<lparr>conns := heap, tdata := Some (td\<lparr>pool := p\<rparr>)\<rparr>)))) v)
        ((\<lambda>(cs, p, heap). Inr (TSStatIntIncrement phpConnCount (- 1)
           (ats cs ((with_entries E ?w)\<lparr>conns := heap, tdata := Some (td\<lparr>pool := p\<rparr>)\<rparr>)))) v)"
      unfolding v' by (auto intro!: framed_Inr simp: next_id_ops)
  qed
qed

lemma close_framed:
  assumes w: "thread_part E H w" and c: "c \<in> H"
  shows "runs True E H w (bindE (setState c CLOSED w) (connectionClosed c))
     (bindE (setState c CLOSED (with_entries E w)) (connectionClosed c))"
proof -
  have "runs (True \<and> True) E H w (bindE (setState c CLOSED w) (connectionClosed c))
     (bindE (setState c CLOSED (with_entries E w)) (connectionClosed c))"
    by (rule framed_bind [OF setState_framed [OF w c] connectionClosed_framed [OF _ c]])
  then show ?thesis by simp
qed

lemma recycle_framed:
  assumes w: "thread_part E H w" and c: "c \<in> H"
  shows "runs True E H w (recycle c w) (recycle c (with_entries E w))"
  unfolding recycle_def with_entries_simps
proof (rule framed_value)
  fix conn assume "heap_get c (conns w) = Inr conn"
  let ?conn = "(releaseFCGIClient conn)\<lparr>requestId := 0\<rparr>"
  let ?w = "set_conn c ?conn w"
  have w1: "thread_part E H ?w" "inside H w ?w"
    using thread_partD(1) [OF w] by (intro part_set_conn inside_set_conn w c; simp)+
  have "runs True E H ?w
     (bindE (deref (tdata ?w)) (\<lambda>td. bindE (reuseConnection c (pool td, conns ?w)) (\<lambda>(p, heap).
        Inr (?w\<lparr>conns := heap, tdata := Some (td\<lparr>pool := p\<rparr>)\<rparr>))))
     (bindE (deref (tdata ?w)) (\<lambda>td. bindE (reuseConnection c (pool td, conns ?w)) (\<lambda>(p, heap).
        Inr ((with_entries E ?w)\<lparr>conns := heap, tdata := Some (td\<lparr>pool := p\<rparr>)\<rparr>))))"
  proof (intro framed_value)
    fix td v assume td: "deref (tdata ?w) = Inr td" and v: "reuseConnection c (pool td, conns ?w) = Inr v"
    obtain p heap where v': "v = (p, heap)" by (cases v)
    obtain x where h: "heap = (conns ?w)(c \<mapsto> x)" "requestId x = 0"
        "available_connections p = available_connections (pool td) @ [c]" "connections p = connections (pool td)"
      using v unfolding v' by (auto simp: reuseConnection_def bindE_eq_Inr heap_get_Inr set_conn_def)
    have "data_in H td" using td thread_partD(3) [OF w1(1)] by (simp add: deref_eq_Inr)
    then have "data_in H (td\<lparr>pool := p\<rparr>)" using c by (auto simp: data_in_def h)
    moreover have "thread_part E H (?w\<lparr>conns := heap\<rparr>)"
      by (rule part_conns [OF w1(1)])
        (use thread_partD(5) [OF w1(1)] thread_partD(1) [OF w] in \<open>auto simp: h split: if_splits\<close>)
    ultimately have "thread_part E H (?w\<lparr>conns := heap, tdata := Some (td\<lparr>pool := p\<rparr>)\<rparr>)" by (intro part_tdata)
    moreover have "inside H ?w (?w\<lparr>conns := heap\<rparr>)" using c by (auto simp: inside_def h)
    ultimately show "runs True E H ?w
        ((\<lambda>(p, heap). Inr (?w\<lparr>conns := heap, tdata := Some (td\<lparr>pool := p\<rparr>)\<rparr>)) v)
        ((\<lambda>(p, heap). Inr ((with_entries E ?w)\<lparr>conns := heap, tdata := Some (td\<lparr>pool := p\<rparr>)\<rparr>)) v)"
      unfolding v' by (auto intro!: framed_Inr)
  qed
  moreover note close_framed [OF w1(1) c]
  ultimately have "runs True E H ?w
     (if req_count ?conn < max_requests ?conn
      then bindE (deref (tdata ?w)) (\<lambda>td. bindE (reuseConnection c (pool td, conns ?w)) (\<lambda>(p, heap).
        Inr (?w\<lparr>conns := heap, tdata := Some (td\<lparr>pool := p\<rparr>)\<rparr>)))
      else bindE (setState c CLOSED ?w) (connectionClosed c))
     (if req_count ?conn < max_requests ?conn
      then bindE (deref (tdata ?w)) (\<lambda>td. bindE (reuseConnection c (pool td, conns ?w)) (\<lambda>(p, heap).
        Inr ((with_entries E ?w)\<lparr>conns := heap, tdata := Some (td\<lparr>pool := p\<rparr>)\<rparr>)))
      else bindE (setState c CLOSED (with_entries E ?w)) (connectionClosed c))"
    by simp
  from framed_start [OF this w1(2)] show "runs True E H w
     (let conn = ?conn; w = set_conn c conn w in if req_count conn < max_requests conn
      then bindE (deref (tdata w)) (\<lambda>td. bindE (reuseConnection c (pool td, conns w)) (\<lambda>(p, heap).
        Inr (w\<lparr>conns := heap, tdata := Some (td\<lparr>pool := p\<rparr>)\<rparr>)))
      else bindE (setState c CLOSED w) (connectionClosed c))
     (let conn = ?conn; w = set_conn c conn (with_entries E w) in if req_count conn < max_requests conn
      then bindE (deref (tdata w)) (\<lambda>td. bindE (reuseConnection c (pool td, conns w)) (\<lambda>(p, heap).
        Inr (w\<lparr>conns := heap, tdata := Some (td\<lparr>pool := p\<rparr>)\<rparr>)))
      else bindE (setState c CLOSED w) (connectionClosed c))"
    by (simp only: Let_def with_entries_ops with_entries_simps next_id_ops simp_thms)
qed

lemma serve_next_framed:
  assumes w: "thread_part E H w" and ids: "ids_left w" "next_id w \<notin> dom E"
  shows "runs False E H w (serve_next env w) (serve_next env (with_entries E w))"
  unfolding serve_next_def with_entries_simps
proof (rule framed_value)
  fix td assume "deref (tdata w) = Inr td"
  then have td: "data_in H td" using thread_partD(3) [OF w] by (simp add: deref_eq_Inr)
  show "runs False E H w
     (case popFromQueue (pendingReqQueue td) of (None, q) \<Rightarrow> Inr w
      | (Some i, q) \<Rightarrow> bindE (connect env i (w\<lparr>tdata := Some (td\<lparr>pendingReqQueue := q\<rparr>)\<rparr>)) (\<lambda>(r, w). Inr w))
     (case popFromQueue (pendingReqQueue td) of (None, q) \<Rightarrow> Inr (with_entries E w)
      | (Some i, q) \<Rightarrow> bindE (connect env i ((with_entries E w)\<lparr>tdata := Some (td\<lparr>pendingReqQueue := q\<rparr>)\<rparr>)) (\<lambda>(r, w). Inr w))"
  proof (cases "pending_list (pendingReqQueue td)")
    case Nil
    then show ?thesis using w by (simp add: popFromQueue_def framed_Inr)
  next
    case (Cons i js)
    let ?td = "td\<lparr>pendingReqQueue := (pendingReqQueue td)\<lparr>pending_list := js\<rparr>\<rparr>"
    let ?w = "w\<lparr>tdata := Some ?td\<rparr>"
    have "i \<in> H" "data_in H ?td" using td Cons by (auto simp: data_in_def)
    then have "runs_with False E H ?w (connect env i ?w) (connect env i (with_entries E ?w))"
      by (intro connect_framed part_tdata w) (use ids in \<open>simp_all add: ids_left_def\<close>)
    then have "runs False E H w (bindE (connect env i ?w) (\<lambda>(r, w). Inr w)) (bindE (connect env i (with_entries E ?w)) (\<lambda>(r, w). Inr w))"
      by (intro framed_drop) (auto intro: framed_start)
    then show ?thesis using Cons by (simp add: popFromQueue_def)
  qed
qed

lemma removeIntercept_framed:
  assumes w: "thread_part E H w" and rid: "rid \<notin> dom E" and ids: "ids_left w" "next_id w \<notin> dom E"
  shows "runs False E H w (removeIntercept env rid w) (removeIntercept env rid (with_entries E w))"
proof (cases "intercept_list w rid")
  case None
  then show ?thesis using w by (simp add: removeIntercept_def with_entries_table(1) [OF rid] framed_Inr)
next
  case (Some e)
  obtain i c where e: "e = (i, c)" by (cases e)
  let ?w = "erase_entry rid w"
  have c: "c \<in> H" using thread_partD(4) [OF w, of rid i c] Some e by simp
  have "runs (True \<and> False) E H ?w (bindE (recycle c ?w) (serve_next env)) (bindE (recycle c (with_entries E ?w)) (serve_next env))"
    by (rule framed_bind [OF recycle_framed [OF part_erase [OF w] c]], rule serve_next_framed)
      (use ids in \<open>simp_all add: ids_left_def next_id_ops\<close>)
  then show ?thesis
    using Some e by (auto simp: removeIntercept_def with_entries_table(1,4) [OF rid] intro: framed_start)
qed


section \<open>Writing a request\<close>

lemma write_request_framed:
  assumes w: "thread_part E H w" and rid: "rid \<notin> dom E"
  shows "runs_with True E H w (write_request io rid encode endflag w) (write_request io rid encode endflag (with_entries E w))"
  unfolding write_request_def with_entries_table(3) [OF rid] with_entries_simps
proof (rule framed_case_option)
  fix c assume "getServerConnection rid w = Some c"
  then have c: "c \<in> H" using thread_partD(4) [OF w] by (auto simp: getServerConnection_def)
  show "runs_with True E H w
     (bindE (heap_get c (conns w)) (\<lambda>conn. bindE (deref (fcgiRequest conn)) (\<lambda>fr. bindE (encode fr) (\<lambda>fr.
        let (reqLen, clientReq) = addClientRequest (fr_state fr) in
        bindE (phpWrite io (vc_ptr conn) clientReq reqLen endflag (writeio conn)) (\<lambda>(cs, ch).
          Inr (True, ats cs (set_conn c (conn\<lparr>fcgiRequest := Some fr, writeio := ch\<rparr>) w)))))))
     (bindE (heap_get c (conns w)) (\<lambda>conn. bindE (deref (fcgiRequest conn)) (\<lambda>fr. bindE (encode fr) (\<lambda>fr.
        let (reqLen, clientReq) = addClientRequest (fr_state fr) in
        bindE (phpWrite io (vc_ptr conn) clientReq reqLen endflag (writeio conn)) (\<lambda>(cs, ch).
          Inr (True, ats cs (set_conn c (conn\<lparr>fcgiRequest := Some fr, writeio := ch\<rparr>) (with_entries E w))))))))"
    unfolding Let_def
  proof (intro framed_value, unfold split_def, rule framed_value)
    fix conn :: ServerConnection and fr0 fr :: FCGIClientRequest and v
    assume "heap_get c (conns w) = Inr conn"
      and wr: "phpWrite io (vc_ptr conn) (snd (addClientRequest (fr_state fr))) (fst (addClientRequest (fr_state fr)))
        endflag (writeio conn) = Inr v"
    then have conn: "requestId (conn\<lparr>fcgiRequest := Some fr, writeio := snd v\<rparr>) \<notin> dom E"
      using thread_partD(5) [OF w _ c] by (simp add: heap_get_Inr)
    let ?w = "set_conn c (conn\<lparr>fcgiRequest := Some fr, writeio := snd v\<rparr>) w"
    have cs: "AddPlugin t i \<notin> set (fst v)" for t i using phpWrite_no_AddPlugin [of io _ _ _ _ _ "fst v" "snd v"] wr by simp
    have "thread_part E H (ats (fst v) ?w)"
      by (intro part_ats part_set_conn w conn) (use cs in simp_all)
    moreover have "inside H w (ats (fst v) ?w)"
      by (rule inside_trans [OF inside_set_conn [OF c] inside_ats]) (use cs in simp_all)
    ultimately show "runs_with True E H w (Inr (True, ats (fst v) ?w))
        (Inr (True, ats (fst v) (set_conn c (conn\<lparr>fcgiRequest := Some fr, writeio := snd v\<rparr>) (with_entries E w))))"
      by (intro framed_Inr) (simp_all add: next_id_ops)
  qed
qed (simp add: framed_Inr w)

text \<open>An intercept that Traffic Server knows passes on what its client sends.\<close>

lemma stream_framed:
  assumes w: "thread_part E H w" and i: "i \<in> H" "known w i"
    and g: "\<And>x. si_request_id (g x) = si_request_id x"
  shows "runs True E H w
     (bindE (heap_get i (icpts w)) (\<lambda>icpt. bindE (write_request io (si_request_id icpt) f e w)
        (\<lambda>(ok, w). if P ok then Inr w else Inr (set_icpt i (g icpt) w))))
     (bindE (heap_get i (icpts w)) (\<lambda>icpt. bindE (write_request io (si_request_id icpt) f e (with_entries E w))
        (\<lambda>(ok, w). if P ok then Inr w else Inr (set_icpt i (g icpt) w))))"
proof (rule framed_value)
  fix icpt assume "heap_get i (icpts w) = Inr icpt"
  then have rid: "si_request_id icpt \<notin> dom E" using thread_partD(6) [OF w _ i] by (simp add: heap_get_Inr)
  have "runs (True \<and> True) E H w
      (bindE (write_request io (si_request_id icpt) f e w) (\<lambda>(ok, w). if P ok then Inr w else Inr (set_icpt i (g icpt) w)))
      (bindE (write_request io (si_request_id icpt) f e (with_entries E w)) (\<lambda>(ok, w). if P ok then Inr w else Inr (set_icpt i (g icpt) w)))"
  proof (rule framed_bind [OF write_request_framed [OF w rid]])
    fix x :: "bool \<times> world" assume x: "thread_part E H (snd x)"
    then have "thread_part E H (set_icpt i (g icpt) (snd x))" by (rule part_set_icpt) (simp add: g rid)
    then show "runs True E H (snd x) (case x of (ok, w) \<Rightarrow> if P ok then Inr w else Inr (set_icpt i (g icpt) w))
        (case apsnd (with_entries E) x of (ok, w) \<Rightarrow> if P ok then Inr w else Inr (set_icpt i (g icpt) w))"
      using x i(1) by (auto simp: split_def next_id_ops intro!: framed_Inr inside_set_icpt)
  qed
  then show "runs True E H w
      (bindE (write_request io (si_request_id icpt) f e w) (\<lambda>(ok, w). if P ok then Inr w else Inr (set_icpt i (g icpt) w)))
      (bindE (write_request io (si_request_id icpt) f e (with_entries E w)) (\<lambda>(ok, w). if P ok then Inr w else Inr (set_icpt i (g icpt) w)))"
    by simp
qed

lemma consume_framed:
  assumes "thread_part E H w" "i \<in> H" "known w i"
  shows "runs True E H w (consume io i data type w) (consume io i data type (with_entries E w))"
  using stream_framed [OF assms, of "\<lambda>x. x\<lparr>dataBuffered := True, clientHeader := clientHeader x @ data\<rparr>", of io _ _ "\<lambda>ok. ok"]
    stream_framed [OF assms, of "\<lambda>x. x\<lparr>dataBuffered := True, clientBody := clientBody x @ data\<rparr>", of io _ _ "\<lambda>ok. ok"]
  by (simp add: consume_def streamReqHeader_def streamReqBody_def writeRequestHeader_def writeRequestBody_def)

lemma handleInputComplete_framed:
  assumes "thread_part E H w" "i \<in> H" "known w i"
  shows "runs True E H w (handleInputComplete io i w) (handleInputComplete io i (with_entries E w))"
  using stream_framed [OF assms, of "\<lambda>x. x\<lparr>inputCompleteState := True\<rparr>", of io _ _ "\<lambda>ok. \<not> ok"]
  by (simp add: handleInputComplete_def writeRequestBodyComplete_def)

lemma delete_intercept_framed:
  assumes w: "thread_part E H w" and i: "i \<in> H" "known w i" and ids: "ids_left w" "next_id w \<notin> dom E"
  shows "runs False E H w (delete_intercept env i w) (delete_intercept env i (with_entries E w))"
  unfolding delete_intercept_def with_entries_simps
proof (rule framed_value)
  fix icpt assume "heap_get i (icpts w) = Inr icpt"
  then have rid: "si_request_id icpt \<notin> dom E" using thread_partD(6) [OF w _ i] by (simp add: heap_get_Inr)
  let ?w = "set_icpt i (icpt\<lparr>clientAborted := True\<rparr>) w"
  have "thread_part E H ?w" by (rule part_set_icpt [OF w]) (simp add: rid)
  then have removed: "runs False E H ?w (removeIntercept env (si_request_id icpt) ?w) (removeIntercept env (si_request_id icpt) (with_entries E ?w))"
    by (rule removeIntercept_framed [OF _ rid]) (use ids in \<open>simp_all add: ids_left_def next_id_ops\<close>)
  have "runs False E H w
      (if \<not> outputCompleteState icpt then removeIntercept env (si_request_id icpt) ?w else Inr w)
      (if \<not> outputCompleteState icpt then removeIntercept env (si_request_id icpt) (with_entries E ?w) else Inr (with_entries E w))"
    using framed_start [OF removed inside_set_icpt [OF i(1)]] w by (cases "outputCompleteState icpt") (simp_all add: framed_Inr)
  then have "runs (False \<and> True) E H w
      (bindE (if \<not> outputCompleteState icpt then removeIntercept env (si_request_id icpt) ?w else Inr w)
        (\<lambda>w. Inr (TSStatIntIncrement respEndId 1 (w\<lparr>icpts := (icpts w)(i := None)\<rparr>))))
      (bindE (if \<not> outputCompleteState icpt then removeIntercept env (si_request_id icpt) (with_entries E ?w) else Inr (with_entries E w))
        (\<lambda>w. Inr (TSStatIntIncrement respEndId 1 (w\<lparr>icpts := (icpts w)(i := None)\<rparr>))))"
  proof (rule framed_bind)
    fix x assume x: "thread_part E H x"
    have "thread_part E H (x\<lparr>icpts := (icpts x)(i := None)\<rparr>)"
    proof (rule thread_partI)
      show "si_request_id y \<notin> dom E" if "icpts (x\<lparr>icpts := (icpts x)(i := None)\<rparr>) j = Some y" "j \<in> H"
          "known (x\<lparr>icpts := (icpts x)(i := None)\<rparr>) j" for j y
        using that thread_partD(6) [OF x, of j y] by (auto simp: known_def split: if_splits)
    qed (use thread_partD(1-5) [OF x] in simp_all)
    moreover have "inside H x (x\<lparr>icpts := (icpts x)(i := None)\<rparr>)" using i(1) by (auto simp: inside_def)
    ultimately show "runs True E H x (Inr (TSStatIntIncrement respEndId 1 (x\<lparr>icpts := (icpts x)(i := None)\<rparr>)))
        (Inr (TSStatIntIncrement respEndId 1 ((with_entries E x)\<lparr>icpts := (icpts (with_entries E x))(i := None)\<rparr>)))"
      by (intro framed_Inr) (simp_all add: next_id_ops)
  qed
  then show "runs False E H w
      (bindE (if \<not> outputCompleteState icpt then removeIntercept env (si_request_id icpt) ?w else Inr w)
        (\<lambda>w. Inr (TSStatIntIncrement respEndId 1 (w\<lparr>icpts := (icpts w)(i := None)\<rparr>))))
      (bindE (if \<not> outputCompleteState icpt then removeIntercept env (si_request_id icpt)
          (set_icpt i (icpt\<lparr>clientAborted := True\<rparr>) (with_entries E w)) else Inr (with_entries E w))
        (\<lambda>w. Inr (TSStatIntIncrement respEndId 1 (w\<lparr>icpts := (icpts w)(i := None)\<rparr>))))"
    by (simp only: with_entries_ops simp_thms)
qed


section \<open>Events\<close>

lemma getIntercept_in:
  "thread_part E H w \<Longrightarrow> getIntercept rid w = Some i \<Longrightarrow> i \<in> H \<and> known w i"
  using thread_partD(4) by (fastforce simp: getIntercept_def known_def)

lemma on_net_connect_framed:
  assumes w: "thread_part E H w" and c: "c \<in> H"
  shows "runs True E H w (on_net_connect env v c w) (on_net_connect env v c (with_entries E w))"
  unfolding on_net_connect_def Let_def with_entries_ops with_entries_simps
proof (rule framed_value)
  let ?w = "TSStatIntIncrement phpConnCount 1 w"
  fix old assume "heap_get c (conns ?w) = Inr old"
  then have rid: "requestId old \<notin> dom E" using thread_partD(5) [OF w _ c] by (simp add: heap_get_Inr)
  let ?conn = "old\<lparr>vc_ptr := Some v, conn_state := READY\<rparr>"
  let ?w1 = "set_conn c ?conn ?w"
  have w1: "thread_part E H ?w1" by (rule part_set_conn) (use w rid in simp_all)
  have in1: "inside H w ?w1" using inside_trans [of H w ?w ?w1] inside_set_conn [OF c, of ?w] by simp
  have rid': "requestId ?conn \<notin> dom E" using rid by simp
  show "runs True E H w
     (case getIntercept (requestId ?conn) ?w1 of None \<Rightarrow> Inr ?w1
      | Some i \<Rightarrow> bindE (heap_get i (icpts ?w1)) (\<lambda>icpt.
          bindE (createFCGIClient (env_junk env) (env_cfg env) (env_requests env) i (txn icpt) ?conn)
            (\<lambda>(cs, conn). Inr (ats cs (set_conn c conn ?w1)))))
     (case getIntercept (requestId ?conn) (with_entries E ?w1) of None \<Rightarrow> Inr (with_entries E ?w1)
      | Some i \<Rightarrow> bindE (heap_get i (icpts ?w1)) (\<lambda>icpt.
          bindE (createFCGIClient (env_junk env) (env_cfg env) (env_requests env) i (txn icpt) ?conn)
            (\<lambda>(cs, conn). Inr (with_entries E (ats cs (set_conn c conn ?w1))))))"
    unfolding with_entries_table(2) [OF rid']
  proof (rule framed_case_option)
    fix i assume "getIntercept (requestId ?conn) ?w1 = Some i"
    note i = getIntercept_in [OF w1 this]
    show "runs True E H w
       (bindE (heap_get i (icpts ?w1)) (\<lambda>icpt.
          bindE (createFCGIClient (env_junk env) (env_cfg env) (env_requests env) i (txn icpt) ?conn)
            (\<lambda>(cs, conn). Inr (ats cs (set_conn c conn ?w1)))))
       (bindE (heap_get i (icpts ?w1)) (\<lambda>icpt.
          bindE (createFCGIClient (env_junk env) (env_cfg env) (env_requests env) i (txn icpt) ?conn)
            (\<lambda>(cs, conn). Inr (with_entries E (ats cs (set_conn c conn ?w1))))))"
    proof (intro framed_value)
      fix icpt v
      assume "createFCGIClient (env_junk env) (env_cfg env) (env_requests env) i (txn icpt) ?conn = Inr v"
      then have v: "requestId (snd v) = requestId old" "\<And>t j. AddPlugin t j \<in> set (fst v) \<Longrightarrow> j = i"
        using createFCGIClient_facts [of "env_junk env" "env_cfg env" "env_requests env" i "txn icpt" ?conn "fst v" "snd v"] by auto
      have w2: "thread_part E H (set_conn c (snd v) ?w1)" by (rule part_set_conn [OF w1]) (use v rid in simp)
      have k: "known (set_conn c (snd v) ?w1) i" using i by (simp add: known_def set_conn_def)
      have "thread_part E H (ats (fst v) (set_conn c (snd v) ?w1))"
        by (rule part_ats [OF w2]) (use v(2) thread_partD(6) [OF w2] i k in blast)
      moreover have "inside H w (ats (fst v) (set_conn c (snd v) ?w1))"
        by (rule inside_trans [OF in1 inside_trans [OF inside_set_conn [OF c] inside_ats]]) (use v(2) i in blast)
      ultimately show "runs True E H w (case v of (cs, conn) \<Rightarrow> Inr (ats cs (set_conn c conn ?w1)))
          (case v of (cs, conn) \<Rightarrow> Inr (with_entries E (ats cs (set_conn c conn ?w1))))"
        by (auto simp: split_def next_id_ops intro!: framed_Inr)
    qed
  qed (use w1 in1 in \<open>simp add: framed_Inr next_id_ops\<close>)
qed

lemma give_up_connection_framed:
  assumes w: "thread_part E H w" and c: "c \<in> H" and ids: "ids_left w" "next_id w \<notin> dom E"
  shows "runs False E H w (give_up_connection env c w) (give_up_connection env c (with_entries E w))"
  unfolding give_up_connection_def with_entries_simps
proof (rule framed_value)
  fix conn assume "heap_get c (conns w) = Inr conn"
  then have rid: "requestId conn \<notin> dom E" using thread_partD(5) [OF w _ c] by (simp add: heap_get_Inr)
  have "runs (False \<and> True) E H w
     (bindE (reConnect env (requestId conn) w) (\<lambda>w. bindE (setState c CLOSED w) (connectionClosed c)))
     (bindE (reConnect env (requestId conn) (with_entries E w)) (\<lambda>w. bindE (setState c CLOSED w) (connectionClosed c)))"
    by (rule framed_bind [OF reConnect_framed [OF w rid ids]]) (rule close_framed [OF _ c])
  then show "runs False E H w
     (bindE (reConnect env (requestId conn) w) (\<lambda>w. bindE (setState c CLOSED w) (connectionClosed c)))
     (bindE (reConnect env (requestId conn) (with_entries E w)) (\<lambda>w. bindE (setState c CLOSED w) (connectionClosed c)))"
    by simp
qed

lemma setResponseOutputComplete_framed:
  assumes w: "thread_part E H w" and i: "i \<in> H" "known w i" and ids: "ids_left w" "next_id w \<notin> dom E"
  shows "runs False E H w (setResponseOutputComplete env i w) (setResponseOutputComplete env i (with_entries E w))"
  unfolding setResponseOutputComplete_def Let_def with_entries_simps with_entries_ops
proof (rule framed_value)
  fix icpt assume "heap_get i (icpts w) = Inr icpt"
  then have rid: "si_request_id icpt \<notin> dom E" using thread_partD(6) [OF w _ i] by (simp add: heap_get_Inr)
  let ?w = "set_icpt i (icpt\<lparr>outputCompleteState := True\<rparr>) (ats [SetOutputComplete i] w)"
  have "thread_part E H ?w" by (intro part_set_icpt part_ats w) (simp_all add: rid)
  then have run: "runs False E H ?w (removeIntercept env (si_request_id icpt) ?w) (removeIntercept env (si_request_id icpt) (with_entries E ?w))"
    by (rule removeIntercept_framed [OF _ rid]) (use ids in \<open>simp_all add: ids_left_def next_id_ops\<close>)
  have "inside H w ?w" by (rule inside_trans [OF inside_ats inside_set_icpt [OF i(1)]]) simp
  from framed_start [OF run this]
  show "runs False E H w (removeIntercept env (si_request_id icpt) ?w) (removeIntercept env (si_request_id icpt) (with_entries E ?w))"
    by simp
qed

lemma response_complete_framed:
  assumes w: "thread_part E H w" and c: "c \<in> H" and i: "\<And>i. io = Some i \<Longrightarrow> i \<in> H \<and> known w i"
    and ids: "ids_left w" "next_id w \<notin> dom E"
  shows "runs False E H w (response_complete env io c w) (response_complete env io c (with_entries E w))"
proof -
  have "runs (True \<and> False) E H w
     (bindE (setState c COMPLETE w) (\<lambda>w. bindE (deref io) (\<lambda>i. bindE (setResponseOutputComplete env i w) (\<lambda>w.
        Inr (TSStatIntIncrement respBegId 1 w)))))
     (bindE (setState c COMPLETE (with_entries E w)) (\<lambda>w. bindE (deref io) (\<lambda>i. bindE (setResponseOutputComplete env i w) (\<lambda>w.
        Inr (TSStatIntIncrement respBegId 1 w)))))"
  proof (rule framed_bind [OF setState_framed [OF w c]], rule framed_value)
    fix x j
    assume x: "setState c COMPLETE w = Inr x" "thread_part E H x" "True \<Longrightarrow> next_id x = next_id w" and j: "deref io = Inr j"
    have "known x j" using i [of j] x(1) j
      by (auto simp: deref_eq_Inr setState_def bindE_eq_Inr known_def set_conn_def)
    then have "runs (False \<and> True) E H x
        (bindE (setResponseOutputComplete env j x) (\<lambda>w. Inr (TSStatIntIncrement respBegId 1 w)))
        (bindE (setResponseOutputComplete env j (with_entries E x)) (\<lambda>w. Inr (TSStatIntIncrement respBegId 1 w)))"
      using i [of j] j x(2,3) ids
      by (intro framed_bind [OF setResponseOutputComplete_framed])
        (simp_all add: deref_eq_Inr ids_left_def framed_Inr next_id_ops)
    then show "runs False E H x (bindE (setResponseOutputComplete env j x) (\<lambda>w. Inr (TSStatIntIncrement respBegId 1 w)))
        (bindE (setResponseOutputComplete env j (with_entries E x)) (\<lambda>w. Inr (TSStatIntIncrement respBegId 1 w)))"
      by simp
  qed
  then show ?thesis by (simp add: response_complete_def)
qed

lemma interceptTransferData_framed:
  assumes w: "thread_part E H w" and c: "c \<in> H"
  shows "runs_with True E H w (interceptTransferData env i c blocks w) (interceptTransferData env i c blocks (with_entries E w))"
  unfolding interceptTransferData_def with_entries_simps
proof (rule framed_value)
  fix conn assume "heap_get c (conns w) = Inr conn"
  then have rid: "requestId conn \<notin> dom E" using thread_partD(5) [OF w _ c] by (simp add: heap_get_Inr)
  have "runs_with True E H w
     (case v of (status, consumed, data, fr) \<Rightarrow> let w = set_conn c (conn\<lparr>fcgiRequest := fr\<rparr>) w
        in bindE (if data \<noteq> [] then writeResponseChunkToATS i data w else Inr w) (\<lambda>w. Inr (status, w)))
     (case v of (status, consumed, data, fr) \<Rightarrow> let w = set_conn c (conn\<lparr>fcgiRequest := fr\<rparr>) (with_entries E w)
        in bindE (if data \<noteq> [] then writeResponseChunkToATS i data w else Inr w) (\<lambda>w. Inr (status, w)))"
    for v :: "bool \<times> int \<times> bytes \<times> FCGIClientRequest option"
  proof -
    obtain status consumed data fr where v: "v = (status, consumed, data, fr)" by (cases v) auto
    let ?w = "set_conn c (conn\<lparr>fcgiRequest := fr\<rparr>) w"
    have w1: "thread_part E H ?w" "inside H w ?w" using rid by (auto intro: part_set_conn inside_set_conn w c)
    have "thread_part E H (ats [Produce i data] ?w)" "inside H w (ats [Produce i data] ?w)"
      by (rule part_ats [OF w1(1)], simp) (rule inside_trans [OF w1(2) inside_ats], simp)
    then show ?thesis using w1
      by (cases "icpts w i")
        (auto simp: v writeResponseChunkToATS_def heap_get_def set_conn_def Let_def next_id_ops intro!: framed_Inr)
  qed
  then show "runs_with True E H w
     (if iobuf (readio conn) = None \<or> \<not> vio (readio conn) then Inl NullDeref
      else bindE (transfer_blocks env blocks False 0 [] (fcgiRequest conn)) (\<lambda>(status, consumed, data, fr).
        let w = set_conn c (conn\<lparr>fcgiRequest := fr\<rparr>) w
        in bindE (if data \<noteq> [] then writeResponseChunkToATS i data w else Inr w) (\<lambda>w. Inr (status, w))))
     (if iobuf (readio conn) = None \<or> \<not> vio (readio conn) then Inl NullDeref
      else bindE (transfer_blocks env blocks False 0 [] (fcgiRequest conn)) (\<lambda>(status, consumed, data, fr).
        let w = set_conn c (conn\<lparr>fcgiRequest := fr\<rparr>) (with_entries E w)
        in bindE (if data \<noteq> [] then writeResponseChunkToATS i data w else Inr w) (\<lambda>w. Inr (status, w))))"
    by (auto intro: framed_value)
qed

lemma on_read_ready_framed:
  assumes w: "thread_part E H w" and c: "c \<in> H" and ids: "ids_left w" "next_id w \<notin> dom E"
  shows "runs False E H w (on_read_ready env blocks c w) (on_read_ready env blocks c (with_entries E w))"
  unfolding on_read_ready_def with_entries_simps
proof (rule framed_value)
  fix conn assume "heap_get c (conns w) = Inr conn"
  then have rid: "requestId conn \<notin> dom E" using thread_partD(5) [OF w _ c] by (simp add: heap_get_Inr)
  show "runs False E H w
     (case getIntercept (requestId conn) w of None \<Rightarrow> Inr w
      | Some i \<Rightarrow> bindE (interceptTransferData env i c blocks w) (\<lambda>(status, w).
          if status then response_complete env (Some i) c w else Inr w))
     (case getIntercept (requestId conn) (with_entries E w) of None \<Rightarrow> Inr (with_entries E w)
      | Some i \<Rightarrow> bindE (interceptTransferData env i c blocks (with_entries E w)) (\<lambda>(status, w).
          if status then response_complete env (Some i) c w else Inr w))"
    unfolding with_entries_table(2) [OF rid]
  proof (rule framed_case_option)
    fix i assume i: "getIntercept (requestId conn) w = Some i"
    have "runs (True \<and> False) E H w
       (bindE (interceptTransferData env i c blocks w) (\<lambda>(status, w). if status then response_complete env (Some i) c w else Inr w))
       (bindE (interceptTransferData env i c blocks (with_entries E w)) (\<lambda>(status, w). if status then response_complete env (Some i) c w else Inr w))"
    proof (rule framed_bind [OF interceptTransferData_framed [OF w c]])
      fix x assume x: "interceptTransferData env i c blocks w = Inr x" "thread_part E H (snd x)" "True \<Longrightarrow> next_id (snd x) = next_id w"
      have "intercept_list (snd x) = intercept_list w"
        using interceptTransferData_facts [of env i c blocks w "fst x" "snd x"] x(1) by (auto simp: ats_def set_conn_def)
      then have "getIntercept (requestId conn) (snd x) = Some i" using i by (simp add: getIntercept_def)
      from response_complete_framed [OF x(2) c, of "Some i" env] getIntercept_in [OF x(2) this] x(3) ids
      have "runs False E H (snd x) (response_complete env (Some i) c (snd x)) (response_complete env (Some i) c (with_entries E (snd x)))"
        by (simp add: ids_left_def)
      then show "runs False E H (snd x) (case x of (status, w) \<Rightarrow> if status then response_complete env (Some i) c w else Inr w)
          (case apsnd (with_entries E) x of (status, w) \<Rightarrow> if status then response_complete env (Some i) c w else Inr w)"
        using x(2) by (simp add: split_def framed_Inr)
    qed
    then show "runs False E H w
       (bindE (interceptTransferData env i c blocks w) (\<lambda>(status, w). if status then response_complete env (Some i) c w else Inr w))
       (bindE (interceptTransferData env i c blocks (with_entries E w)) (\<lambda>(status, w). if status then response_complete env (Some i) c w else Inr w))"
      by simp
  qed (simp add: framed_Inr w)
qed

lemma on_read_complete_framed:
  assumes w: "thread_part E H w" and c: "c \<in> H" and ids: "ids_left w" "next_id w \<notin> dom E"
  shows "runs False E H w (on_read_complete env c w) (on_read_complete env c (with_entries E w))"
  unfolding on_read_complete_def with_entries_simps
proof (rule framed_value)
  fix conn assume "heap_get c (conns w) = Inr conn"
  then have rid: "requestId conn \<notin> dom E" using thread_partD(5) [OF w _ c] by (simp add: heap_get_Inr)
  show "runs False E H w (response_complete env (getIntercept (requestId conn) w) c w)
      (response_complete env (getIntercept (requestId conn) (with_entries E w)) c (with_entries E w))"
    unfolding with_entries_table(2) [OF rid]
    by (rule response_complete_framed [OF w c _ ids]) (rule getIntercept_in [OF w])
qed

lemma on_write_complete_framed:
  assumes w: "thread_part E H w" and c: "c \<in> H"
  shows "runs True E H w (on_write_complete io c w) (on_write_complete io c (with_entries E w))"
  unfolding on_write_complete_def Let_def with_entries_ops with_entries_simps
proof (intro framed_value)
  let ?w = "TSStatIntIncrement reqEndId 1 w"
  fix conn v assume "heap_get c (conns ?w) = Inr conn" and v: "channel_read io (vc_ptr conn) (readio conn) = Inr v"
  then have rid: "requestId conn \<notin> dom E" using thread_partD(5) [OF w _ c] by (simp add: heap_get_Inr)
  have cs: "AddPlugin t i \<notin> set (fst v)" for t i
    using channel_read_no_AddPlugin [of io _ _ "fst v" "snd v"] v by simp
  let ?w1 = "set_conn c (conn\<lparr>readio := snd v\<rparr>) ?w"
  have "thread_part E H (ats (fst v) ?w1)" by (intro part_ats part_set_conn) (use w rid cs in simp_all)
  moreover have "inside H w (ats (fst v) ?w1)"
    by (rule inside_trans [OF inside_trans [of H w ?w, OF _ inside_set_conn [OF c]] inside_ats]) (use cs in simp_all)
  ultimately show "runs True E H w (case v of (cs, ch) \<Rightarrow> Inr (ats cs (set_conn c (conn\<lparr>readio := ch\<rparr>) ?w)))
      (case v of (cs, ch) \<Rightarrow> Inr (with_entries E (ats cs (set_conn c (conn\<lparr>readio := ch\<rparr>) ?w))))"
    by (auto simp: split_def next_id_ops intro!: framed_Inr)
qed

lemma on_write_ready_framed:
  assumes w: "thread_part E H w" and c: "c \<in> H"
  shows "runs True E H w (on_write_ready io c w) (on_write_ready io c (with_entries E w))"
  unfolding on_write_ready_def with_entries_simps
  by (rule framed_value) (use on_write_complete_framed [OF w c] w in \<open>auto intro: framed_Inr\<close>)

lemma on_eos_framed:
  assumes w: "thread_part E H w" and c: "c \<in> H" and ids: "ids_left w" "next_id w \<notin> dom E"
  shows "runs False E H w (on_eos env c w) (on_eos env c (with_entries E w))"
  unfolding on_eos_def with_entries_simps
proof (rule framed_value)
  fix conn assume "heap_get c (conns w) = Inr conn"
  then have rid: "requestId conn \<notin> dom E" using thread_partD(5) [OF w _ c] by (simp add: heap_get_Inr)
  have error: "runs True E H w (Inr (ats [TxnError t] w)) (Inr (ats [TxnError t] (with_entries E w)))" for t
    using w by (auto intro!: framed_Inr part_ats inside_ats simp: next_id_ops)
  have mid: "runs True E H w
     (if conn_state conn \<noteq> COMPLETE
      then (case getIntercept (requestId conn) w of None \<Rightarrow> Inr w
            | Some i \<Rightarrow> bindE (heap_get i (icpts w)) (\<lambda>icpt. if \<not> outputCompleteState icpt then Inr (ats [TxnError (txn icpt)] w) else Inr w))
      else Inr w)
     (if conn_state conn \<noteq> COMPLETE
      then (case getIntercept (requestId conn) (with_entries E w) of None \<Rightarrow> Inr (with_entries E w)
            | Some i \<Rightarrow> bindE (heap_get i (icpts w)) (\<lambda>icpt. if \<not> outputCompleteState icpt
                then Inr (ats [TxnError (txn icpt)] (with_entries E w)) else Inr (with_entries E w)))
      else Inr (with_entries E w))"
    unfolding with_entries_table(2) [OF rid] using error w by (auto intro!: framed_case_option framed_value framed_Inr)
  have "runs (True \<and> True) E H w
     (bindE (if conn_state conn \<noteq> COMPLETE
      then (case getIntercept (requestId conn) w of None \<Rightarrow> Inr w
            | Some i \<Rightarrow> bindE (heap_get i (icpts w)) (\<lambda>icpt. if \<not> outputCompleteState icpt then Inr (ats [TxnError (txn icpt)] w) else Inr w))
      else Inr w) (\<lambda>w. bindE (setState c CLOSED w) (connectionClosed c)))
     (bindE (if conn_state conn \<noteq> COMPLETE
      then (case getIntercept (requestId conn) (with_entries E w) of None \<Rightarrow> Inr (with_entries E w)
            | Some i \<Rightarrow> bindE (heap_get i (icpts w)) (\<lambda>icpt. if \<not> outputCompleteState icpt
                then Inr (ats [TxnError (txn icpt)] (with_entries E w)) else Inr (with_entries E w)))
      else Inr (with_entries E w)) (\<lambda>w. bindE (setState c CLOSED w) (connectionClosed c)))"
    by (rule framed_bind [OF mid]) (rule close_framed [OF _ c])
  then show "runs False E H w
     (if \<not> readEnable (writeio conn) then give_up_connection env c w
      else bindE (if conn_state conn \<noteq> COMPLETE
        then (case getIntercept (requestId conn) w of None \<Rightarrow> Inr w
              | Some i \<Rightarrow> bindE (heap_get i (icpts w)) (\<lambda>icpt. if \<not> outputCompleteState icpt then Inr (ats [TxnError (txn icpt)] w) else Inr w))
        else Inr w) (\<lambda>w. bindE (setState c CLOSED w) (connectionClosed c)))
     (if \<not> readEnable (writeio conn) then give_up_connection env c (with_entries E w)
      else bindE (if conn_state conn \<noteq> COMPLETE
        then (case getIntercept (requestId conn) (with_entries E w) of None \<Rightarrow> Inr (with_entries E w)
              | Some i \<Rightarrow> bindE (heap_get i (icpts w)) (\<lambda>icpt. if \<not> outputCompleteState icpt
                  then Inr (ats [TxnError (txn icpt)] (with_entries E w)) else Inr (with_entries E w)))
        else Inr (with_entries E w)) (\<lambda>w. bindE (setState c CLOSED w) (connectionClosed c)))"
    using give_up_connection_framed [OF w c ids, of env] framed_loud
    by (cases "readEnable (writeio conn)") (simp_all only: simp_thms if_True if_False)
qed

lemma on_error_framed:
  assumes w: "thread_part E H w" and c: "c \<in> H"
  shows "runs True E H w (on_error env c w) (on_error env c (with_entries E w))"
  unfolding on_error_def Let_def with_entries_ops with_entries_simps
proof (intro framed_value)
  fix conn v assume "heap_get c (conns w) = Inr conn"
  then have rid: "requestId conn \<notin> dom E" using thread_partD(5) [OF w _ c] by (simp add: heap_get_Inr)
  let ?w = "ats [VConnAbort v] w"
  have w1: "thread_part E H ?w" "inside H w ?w" using w by (auto intro: part_ats inside_ats)
  have mark: "runs True E H x
      (bindE (heap_get i (icpts x)) (\<lambda>icpt. Inr (ats [SetStatusCode (txn icpt) HTTP_STATUS_BAD_GATEWAY, TxnError (txn icpt)] x)))
      (bindE (heap_get i (icpts (with_entries E x))) (\<lambda>icpt.
         Inr (ats [SetStatusCode (txn icpt) HTTP_STATUS_BAD_GATEWAY, TxnError (txn icpt)] (with_entries E x))))"
    if "thread_part E H x" for i x
    using that by (auto intro!: framed_value framed_Inr part_ats inside_ats simp: next_id_ops)
  have tell: "runs True E H ?w
     (bindE (setState c CLOSED ?w) (\<lambda>x. bindE (heap_get i (icpts x)) (\<lambda>icpt.
        Inr (ats [SetStatusCode (txn icpt) HTTP_STATUS_BAD_GATEWAY, TxnError (txn icpt)] x))))
     (bindE (setState c CLOSED (with_entries E ?w)) (\<lambda>x. bindE (heap_get i (icpts x)) (\<lambda>icpt.
        Inr (ats [SetStatusCode (txn icpt) HTTP_STATUS_BAD_GATEWAY, TxnError (txn icpt)] x))))" for i
  proof -
    have "runs (True \<and> True) E H ?w
     (bindE (setState c CLOSED ?w) (\<lambda>x. bindE (heap_get i (icpts x)) (\<lambda>icpt.
        Inr (ats [SetStatusCode (txn icpt) HTTP_STATUS_BAD_GATEWAY, TxnError (txn icpt)] x))))
     (bindE (setState c CLOSED (with_entries E ?w)) (\<lambda>x. bindE (heap_get i (icpts x)) (\<lambda>icpt.
        Inr (ats [SetStatusCode (txn icpt) HTTP_STATUS_BAD_GATEWAY, TxnError (txn icpt)] x))))"
      by (rule framed_bind [OF setState_framed [OF w1(1) c] mark])
    then show ?thesis by simp
  qed
  have "runs True E H ?w
     (case getIntercept (requestId conn) ?w of None \<Rightarrow> Inr ?w
      | Some i \<Rightarrow> bindE (setState c CLOSED ?w) (\<lambda>x. bindE (heap_get i (icpts x)) (\<lambda>icpt.
          Inr (ats [SetStatusCode (txn icpt) HTTP_STATUS_BAD_GATEWAY, TxnError (txn icpt)] x))))
     (case getIntercept (requestId conn) (with_entries E ?w) of None \<Rightarrow> Inr (with_entries E ?w)
      | Some i \<Rightarrow> bindE (setState c CLOSED (with_entries E ?w)) (\<lambda>x. bindE (heap_get i (icpts x)) (\<lambda>icpt.
          Inr (ats [SetStatusCode (txn icpt) HTTP_STATUS_BAD_GATEWAY, TxnError (txn icpt)] x))))"
    unfolding with_entries_table(2) [OF rid] by (rule framed_case_option) (use w1 tell in \<open>simp_all add: framed_Inr\<close>)
  then have "runs True E H w
     (case getIntercept (requestId conn) ?w of None \<Rightarrow> Inr ?w
      | Some i \<Rightarrow> bindE (setState c CLOSED ?w) (\<lambda>x. bindE (heap_get i (icpts x)) (\<lambda>icpt.
          Inr (ats [SetStatusCode (txn icpt) HTTP_STATUS_BAD_GATEWAY, TxnError (txn icpt)] x))))
     (case getIntercept (requestId conn) (with_entries E ?w) of None \<Rightarrow> Inr (with_entries E ?w)
      | Some i \<Rightarrow> bindE (setState c CLOSED (with_entries E ?w)) (\<lambda>x. bindE (heap_get i (icpts x)) (\<lambda>icpt.
          Inr (ats [SetStatusCode (txn icpt) HTTP_STATUS_BAD_GATEWAY, TxnError (txn icpt)] x))))"
    by (rule framed_start) (use w1 in \<open>simp_all add: next_id_ops\<close>)
  from framed_bind [OF this connectionClosed_framed [OF _ c]] show "runs True E H w
     (bindE (case getIntercept (requestId conn) ?w of None \<Rightarrow> Inr ?w
      | Some i \<Rightarrow> bindE (setState c CLOSED ?w) (\<lambda>x. bindE (heap_get i (icpts x)) (\<lambda>icpt.
          Inr (ats [SetStatusCode (txn icpt) HTTP_STATUS_BAD_GATEWAY, TxnError (txn icpt)] x)))) (connectionClosed c))
     (bindE (case getIntercept (requestId conn) (with_entries E ?w) of None \<Rightarrow> Inr (with_entries E ?w)
      | Some i \<Rightarrow> bindE (setState c CLOSED (with_entries E ?w)) (\<lambda>x. bindE (heap_get i (icpts x)) (\<lambda>icpt.
          Inr (ats [SetStatusCode (txn icpt) HTTP_STATUS_BAD_GATEWAY, TxnError (txn icpt)] x)))) (connectionClosed c))"
    by simp
qed

lemma events_framed:
  assumes w: "thread_part E H w" and c: "c \<in> H" and ids: "ids_left w" "next_id w \<notin> dom E"
  shows "runs False E H w (handlePHPConnectionEvents env io ev c w) (handlePHPConnectionEvents env io ev c (with_entries E w))"
proof (cases ev)
  case NET_CONNECT_FAILED
  have "runs False E H w (on_connect_failed env c w) (on_connect_failed env c (with_entries E w))"
    unfolding on_connect_failed_def with_entries_ops
    by (rule framed_start [OF give_up_connection_framed [OF _ c]]) (use w ids in \<open>simp_all add: ids_left_def next_id_ops\<close>)
  then show ?thesis by (simp add: handlePHPConnectionEvents_def NET_CONNECT_FAILED)
qed (use on_net_connect_framed [OF w c, THEN framed_loud] on_read_ready_framed [OF w c ids] on_read_complete_framed [OF w c ids]
    on_write_ready_framed [OF w c, THEN framed_loud] on_write_complete_framed [OF w c, THEN framed_loud]
    on_eos_framed [OF w c ids] on_error_framed [OF w c, THEN framed_loud] w
    in \<open>simp_all add: handlePHPConnectionEvents_def framed_Inr\<close>)


section \<open>A new request\<close>

lemma setup_loop_framed:
  assumes "thread_part E H w"
  shows "setup_loop cfg rs (with_entries E w) = map_option (with_entries E) (setup_loop cfg rs w) \<and>
    (\<forall>w'. setup_loop cfg rs w = Some w' \<longrightarrow> thread_part E H w' \<and> inside H w w' \<and> next_id w' = next_id w)"
  using assms
proof (induction rs arbitrary: w)
  case (Cons r rs)
  show ?case
  proof (cases r)
    case (KeyCreated k)
    let ?w = "(w\<lparr>threadKey := k\<rparr>)\<lparr>tdata := Some (new_thread_data cfg)\<rparr>"
    have "thread_part E H (w\<lparr>threadKey := k\<rparr>)" using Cons.prems by (simp add: thread_part_def known_def)
    then have "thread_part E H ?w"
      by (rule part_tdata) (simp add: data_in_def new_thread_data_def new_pool_def new_queue_def)
    then show ?thesis using KeyCreated
      by (simp add: setupThreadLocalStorage_def next_id_ops) (simp add: inside_def)
  next
    case SetFailed
    have "thread_part E H (w\<lparr>threadKey := 0\<rparr>)" using Cons.prems by (simp add: thread_part_def known_def)
    from Cons.IH [OF this] show ?thesis using SetFailed
      by (auto simp: setupThreadLocalStorage_def inside_def)
  next
    case KeyFailed
    then show ?thesis using Cons.IH [OF Cons.prems] by (simp add: setupThreadLocalStorage_def)
  qed
qed simp

lemma request_framed:
  assumes w: "thread_part E H w" and fresh: "\<not> known w (next_addr w)" and ids: "ids_left w" "next_id w \<notin> dom E"
    and run: "handleReadCacheLookupComplete env rs tr self (with_entries E w) = Some (Inr w')"
  shows "\<exists>w1. handleReadCacheLookupComplete env rs tr self w = Some (Inr w1) \<and> w' = with_entries E w1 \<and>
    thread_part E H w1 \<and> inside H w w1"
proof (cases "cache_hit_fresh tr \<or> ats_handle tr = None \<or> url_path tr \<noteq> url_match (url_path tr)")
  case True
  have "thread_part E H (ats [Resume self] w)" "inside H w (ats [Resume self] w)"
    using w by (auto intro: part_ats inside_ats)
  then show ?thesis
    using True run w by (auto simp: handleReadCacheLookupComplete_def split: option.splits if_splits)
next
  case False
  then obtain t where t: "ats_handle tr = Some t" by auto
  let ?i = "next_addr w" and ?icpt = "new_intercept (env_junk32 env) t"
  let ?w0 = "TSStatIntIncrement reqBegId 1 w"
  let ?w2 = "set_icpt ?i ?icpt (?w0\<lparr>next_addr := Suc ?i\<rparr>)"
  have new: "new_icpt env t ?w0 = (?i, ?w2)" "new_icpt env t (with_entries E ?w0) = (?i, with_entries E ?w2)"
    by (simp_all add: new_icpt_def)
  have i: "?i \<in> H" using thread_partD(2) [OF w] by simp
  have "thread_part E H (?w0\<lparr>next_addr := Suc ?i\<rparr>)" by (rule part_next_addr) (use w in simp_all)
  then have w2: "thread_part E H ?w2" by (rule part_set_icpt) (use fresh in \<open>simp add: known_def\<close>)
  have in2: "inside H w ?w2"
    by (rule inside_trans [OF _ inside_set_icpt [OF i]]) (simp add: inside_def TSStatIntIncrement_def)
  have id2: "next_id ?w2 = next_id w" by (simp add: next_id_ops)
  define made where "made x = (if threadKey x = 0 then setup_loop (env_cfg env) rs x else Some x)" for x
  have made2: "made (with_entries E ?w2) = map_option (with_entries E) (made ?w2)"
    using setup_loop_framed [OF w2, of "env_cfg env" rs] by (simp add: made_def)
  have run1: "handleReadCacheLookupComplete env rs tr self w =
      map_option (\<lambda>w. bindE (connect env ?i w) (\<lambda>(r, w). Inr w)) (made ?w2)"
    using False t new(1) by (simp add: handleReadCacheLookupComplete_def Let_def made_def)
  have run2: "handleReadCacheLookupComplete env rs tr self (with_entries E w) =
      map_option (\<lambda>w. bindE (connect env ?i w) (\<lambda>(r, w). Inr w)) (made (with_entries E ?w2))"
    using False t new(2) by (simp add: handleReadCacheLookupComplete_def Let_def made_def)
  obtain w3 where w3: "made ?w2 = Some w3" and run3: "bindE (connect env ?i (with_entries E w3)) (\<lambda>(r, w). Inr w) = Inr w'"
    using run unfolding run2 made2 by auto
  have part3: "thread_part E H w3 \<and> inside H ?w2 w3 \<and> next_id w3 = next_id ?w2"
    using w3 setup_loop_framed [OF w2, of "env_cfg env" rs] w2 by (auto simp: made_def split: if_splits)
  then have ids3: "ids_left w3" "next_id w3 \<notin> dom E" using ids id2 by (simp_all add: ids_left_def)
  have "runs False E H w3 (bindE (connect env ?i w3) (\<lambda>(r, w). Inr w)) (bindE (connect env ?i (with_entries E w3)) (\<lambda>(r, w). Inr w))"
    by (rule framed_drop [OF connect_framed [OF _ i ids3]]) (use part3 in simp)
  then obtain w1 where w1: "bindE (connect env ?i w3) (\<lambda>(r, w). Inr w) = Inr w1" "w' = with_entries E w1"
      "thread_part E H w1" "inside H w3 w1"
    unfolding run3 framed_def by (cases "bindE (connect env ?i w3) (\<lambda>(r, w). Inr w)") simp_all
  have "inside H w w1" using inside_trans [OF inside_trans [OF in2] w1(4)] part3 by simp
  then show ?thesis using w1(1-3) by (simp add: run1 w3)
qed

end
