(* ===== verification/Threads.thy ===== *)
theory Threads
  imports Thread_Frame
begin

text \<open>
  The plugin with all its event threads. Each has its own \<open>threadKey\<close>, which is \<open>thread_local\<close>, and under it its own pool and
  queue; the table, the counter of ids, the heaps and the statistics are shared. The handlers of the threads come in any
  order. Each thread, seen with its own entries of the table, is a server as in \<open>Server_Steps\<close>, and the other threads
  do no more than \<open>interference\<close> says.
\<close>

section \<open>Several threads\<close>

text \<open>
  The fields \<open>threadKey\<close> and \<open>tdata\<close> of the shared state are not used. \<open>home\<close> is the thread on which an object was made. It is no
  part of the program: it says where Traffic Server calls.
\<close>

record system =
  shared :: world
  keys :: "nat \<Rightarrow> nat"
  datas :: "nat \<Rightarrow> ThreadData option"
  home :: "nat \<Rightarrow> nat"

text \<open>What a handler on thread \<open>t\<close> finds, and the state after it.\<close>

definition on_thread :: "nat \<Rightarrow> system \<Rightarrow> world" where
  "on_thread t s = (shared s)\<lparr>threadKey := keys s t, tdata := datas s t\<rparr>"

definition after :: "nat \<Rightarrow> world \<Rightarrow> system \<Rightarrow> system" where
  "after t w s = \<lparr>shared = w\<lparr>threadKey := 0, tdata := None\<rparr>, keys = (keys s)(t := threadKey w), datas = (datas s)(t := tdata w),
     home = (\<lambda>a. if next_addr (shared s) \<le> a then t else home s a)\<rparr>"

text \<open>
  A request comes on any thread. The events of a connection come on the thread that opened it, and what happens to a
  transaction comes on the thread of its intercept.
\<close>

inductive system_step :: "server_env \<Rightarrow> system \<Rightarrow> system \<Rightarrow> bool" for env where
  sys_request:
    "ids_left (shared s) \<Longrightarrow> \<forall>k. KeyCreated k \<in> set rs \<longrightarrow> k \<noteq> 0 \<Longrightarrow>
     handleReadCacheLookupComplete env rs tr self (on_thread t s) = Some (Inr w') \<Longrightarrow> system_step env s (after t w' s)"
| sys_event:
    "ids_left (shared s) \<Longrightarrow> conns (shared s) c = Some conn \<Longrightarrow> contp conn \<Longrightarrow> home s c = t \<Longrightarrow>
     handlePHPConnectionEvents env io ev c (on_thread t s) = Inr w' \<Longrightarrow> system_step env s (after t w' s)"
| sys_consume:
    "AddPlugin x i \<in> set (calls (shared s)) \<Longrightarrow> home s i = t \<Longrightarrow>
     consume io i data type (on_thread t s) = Inr w' \<Longrightarrow> system_step env s (after t w' s)"
| sys_complete:
    "AddPlugin x i \<in> set (calls (shared s)) \<Longrightarrow> home s i = t \<Longrightarrow>
     handleInputComplete io i (on_thread t s) = Inr w' \<Longrightarrow> system_step env s (after t w' s)"
| sys_delete:
    "ids_left (shared s) \<Longrightarrow> AddPlugin x i \<in> set (calls (shared s)) \<Longrightarrow> home s i = t \<Longrightarrow>
     delete_intercept env i (on_thread t s) = Inr w' \<Longrightarrow> system_step env s (after t w' s)"

inductive_cases system_stepE: "system_step env s s'"

definition initial_system :: system where
  "initial_system = \<lparr>shared = initial_world, keys = (\<lambda>t. 0), datas = (\<lambda>t. None), home = (\<lambda>a. 0)\<rparr>"

inductive system_reachable :: "server_env \<Rightarrow> system \<Rightarrow> bool" for env where
  system_initial: "system_reachable env initial_system"
| system_later: "system_reachable env s \<Longrightarrow> system_step env s s' \<Longrightarrow> system_reachable env s'"

lemma on_thread_simps [simp]:
  "conns (on_thread t s) = conns (shared s)" "icpts (on_thread t s) = icpts (shared s)"
  "next_addr (on_thread t s) = next_addr (shared s)" "next_id (on_thread t s) = next_id (shared s)"
  "intercept_list (on_thread t s) = intercept_list (shared s)" "calls (on_thread t s) = calls (shared s)"
  "tdata (on_thread t s) = datas s t" "threadKey (on_thread t s) = keys s t"
  "ids_left (on_thread t s) = ids_left (shared s)"
  by (simp_all add: on_thread_def ids_left_def)

text \<open>A step is a step of the handlers on the state of one thread.\<close>

lemma system_step_thread:
  assumes "system_step env s s'"
  obtains t w' where "server_step env (on_thread t s) w'" "s' = after t w' s"
  using assms
proof cases
  case (sys_request rs tr self t w')
  then show ?thesis using that step_request [of "on_thread t s" rs env tr self w'] by simp
next
  case (sys_event c conn t io ev w')
  then show ?thesis using that step_event [of "on_thread t s" c conn env io ev w'] by simp
next
  case (sys_consume x i t io data type w')
  then show ?thesis using that step_consume [of x i "on_thread t s" io data type w' env] by simp
next
  case (sys_complete x i t io w')
  then show ?thesis using that step_complete [of x i "on_thread t s" io w' env] by simp
next
  case (sys_delete x i t w')
  then show ?thesis using that step_delete [of "on_thread t s" x i env w'] by simp
qed


section \<open>A thread by itself\<close>

definition part_of :: "nat \<Rightarrow> system \<Rightarrow> uint \<Rightarrow> (nat \<times> nat) option" where
  "part_of t s rid = (case intercept_list (shared s) rid of
     None \<Rightarrow> None | Some (i, c) \<Rightarrow> if home s i = t then Some (i, c) else None)"

definition part_of_others :: "nat \<Rightarrow> system \<Rightarrow> uint \<Rightarrow> (nat \<times> nat) option" where
  "part_of_others t s rid = (case intercept_list (shared s) rid of
     None \<Rightarrow> None | Some (i, c) \<Rightarrow> if home s i = t then None else Some (i, c))"

text \<open>What thread \<open>t\<close> sees without the entries of the other threads.\<close>

definition own_view :: "nat \<Rightarrow> system \<Rightarrow> world" where
  "own_view t s = (on_thread t s)\<lparr>intercept_list := part_of t s\<rparr>"

lemma own_view_simps [simp]:
  "conns (own_view t s) = conns (shared s)" "icpts (own_view t s) = icpts (shared s)"
  "next_addr (own_view t s) = next_addr (shared s)" "next_id (own_view t s) = next_id (shared s)"
  "intercept_list (own_view t s) = part_of t s" "calls (own_view t s) = calls (shared s)"
  "tdata (own_view t s) = datas s t" "threadKey (own_view t s) = keys s t"
  "ids_left (own_view t s) = ids_left (shared s)"
  by (simp_all add: own_view_def ids_left_def)

lemma part_of_Some:
  "part_of t s rid = Some (i, c) \<longleftrightarrow> intercept_list (shared s) rid = Some (i, c) \<and> home s i = t"
  by (auto simp: part_of_def split: option.splits)

lemma part_of_others_Some:
  "part_of_others t s rid = Some (i, c) \<longleftrightarrow> intercept_list (shared s) rid = Some (i, c) \<and> home s i \<noteq> t"
  by (auto simp: part_of_others_def split: option.splits)

lemma parts_table: "part_of t s ++ part_of_others t s = intercept_list (shared s)"
  by (rule ext) (auto simp: map_add_def part_of_def part_of_others_def split: option.splits)

lemma own_view_entries: "with_entries (part_of_others t s) (own_view t s) = on_thread t s"
  by (simp add: with_entries_def own_view_def parts_table on_thread_def)

text \<open>The addresses of a thread, and those that are free.\<close>

definition addresses :: "nat \<Rightarrow> system \<Rightarrow> nat set" where
  "addresses t s = {a. next_addr (shared s) \<le> a \<or> home s a = t}"

definition threads_ok :: "server_env \<Rightarrow> system \<Rightarrow> bool" where
  "threads_ok env s \<longleftrightarrow> (\<forall>t. reachable env (own_view t s)) \<and>
     (\<forall>rid i c. intercept_list (shared s) rid = Some (i, c) \<longrightarrow> home s c = home s i) \<and>
     (\<forall>t td. datas s t = Some td \<longrightarrow> data_in {a. home s a = t} td)"

lemma threads_okD:
  assumes "threads_ok env s"
  shows "reachable env (own_view t s)" "server_inv (own_view t s)" "no_leak {} (own_view t s)"
    and "intercept_list (shared s) rid = Some (i, c) \<Longrightarrow> home s c = home s i"
    and "datas s t = Some td \<Longrightarrow> data_in {a. home s a = t} td"
  using assms reachable_inv [of env "own_view t s"] reachable_no_leak [of env "own_view t s"] by (auto simp: threads_ok_def)

text \<open>Everything that is in use has an address below the next one.\<close>

lemma used_addresses:
  assumes "threads_ok env s"
  shows "conns (shared s) c = Some conn \<Longrightarrow> c < next_addr (shared s)"
    and "icpts (shared s) i = Some icpt \<Longrightarrow> i < next_addr (shared s)"
    and "intercept_list (shared s) rid = Some (i, c) \<Longrightarrow> i < next_addr (shared s) \<and> c < next_addr (shared s)"
    and "datas s t = Some td \<Longrightarrow> data_in {a. a < next_addr (shared s)} td"
proof -
  note inv = threads_okD(2) [OF assms]
  have free: "conns (shared s) a = None \<and> icpts (shared s) a = None" if "next_addr (shared s) \<le> a" for a
    using server_invD(4) [OF inv, of _ a] that by simp
  show c: "conns (shared s) c = Some conn \<Longrightarrow> c < next_addr (shared s)" for c conn using free [of c] by (cases "c < next_addr (shared s)") auto
  show i: "icpts (shared s) i = Some icpt \<Longrightarrow> i < next_addr (shared s)" for i icpt using free [of i] by (cases "i < next_addr (shared s)") auto
  show "i < next_addr (shared s) \<and> c < next_addr (shared s)" if "intercept_list (shared s) rid = Some (i, c)"
  proof -
    have "entry_ok (own_view (home s i) s) rid i c" by (rule server_invD(1) [OF inv]) (use that in \<open>simp add: part_of_Some\<close>)
    then show ?thesis using c i by (auto simp: entry_ok_def)
  qed
  show "data_in {a. a < next_addr (shared s)} td" if "datas s t = Some td"
  proof -
    have "td_ok (own_view t s) td" by (rule server_invD(2) [OF inv]) (use that in simp)
    then show ?thesis using c by (fastforce simp: td_ok_def pool_wf_def data_in_def)
  qed
qed

lemma own_part:
  assumes "threads_ok env s"
  shows "thread_part (part_of_others t s) (addresses t s) (own_view t s)"
    and "next_id (shared s) \<notin> dom (part_of_others t s)" and "\<not> known (own_view t s) (next_addr (shared s))"
proof -
  note ok = threads_okD [OF assms] and used = used_addresses [OF assms]
  have other: "entry_ok (own_view (home s i) s) rid i c" if "part_of_others t s rid = Some (i, c)" for rid i c
  proof (rule server_invD(1) [OF ok(2) [of "home s i"]])
    show "intercept_list (own_view (home s i) s) rid = Some (i, c)"
      using that unfolding own_view_simps part_of_Some part_of_others_Some by blast
  qed
  show "thread_part (part_of_others t s) (addresses t s) (own_view t s)"
  proof (rule thread_partI)
    show "0 \<notin> dom (part_of_others t s)" using other by (force simp: entry_ok_def)
    show "a \<in> addresses t s" if "next_addr (own_view t s) \<le> a" for a using that by (simp add: addresses_def)
    show "data_in (addresses t s) td" if "tdata (own_view t s) = Some td" for td
      using ok(5) [of t td] that by (auto simp: data_in_def addresses_def)
    show "rid \<notin> dom (part_of_others t s) \<and> i \<in> addresses t s \<and> c \<in> addresses t s"
      if "intercept_list (own_view t s) rid = Some (i, c)" for rid i c
      using that ok(4) [of rid i c] by (auto simp: part_of_Some part_of_others_Some addresses_def)
    show "requestId conn \<notin> dom (part_of_others t s)"
      if conn: "conns (own_view t s) c = Some conn" and c: "c \<in> addresses t s" for c conn
    proof
      assume "requestId conn \<in> dom (part_of_others t s)"
      then obtain i d where e: "intercept_list (shared s) (requestId conn) = Some (i, d)" "home s i \<noteq> t"
        by (auto simp: part_of_others_Some)
      have "d = c" by (rule no_leakD(3) [OF ok(3) [of "home s i"]]) (use conn e in \<open>simp_all add: part_of_Some\<close>)
      moreover have "home s c = t" using used(1) [of c conn] conn c by (simp add: addresses_def)
      ultimately show False using ok(4) [OF e(1)] e(2) by simp
    qed
    show "si_request_id icpt \<notin> dom (part_of_others t s)"
      if icpt: "icpts (own_view t s) i = Some icpt" and i: "i \<in> addresses t s" and k: "known (own_view t s) i" for i icpt
    proof
      assume "si_request_id icpt \<in> dom (part_of_others t s)"
      then obtain j d where e: "intercept_list (shared s) (si_request_id icpt) = Some (j, d)" "home s j \<noteq> t"
        by (auto simp: part_of_others_Some)
      have home: "home s i = t" using used(2) [of i icpt] icpt i by (simp add: addresses_def)
      show False
      proof (cases "\<exists>x. AddPlugin x i \<in> set (calls (shared s))")
        case True
        then have "plugin_ok (own_view (home s j) s) i" using server_invD(3) [OF ok(2)] by auto
        then have "j = i" using icpt e(1) by (simp add: plugin_ok_def part_of_Some)
        then show False using home e(2) by simp
      next
        case False
        then obtain rid c where "part_of t s rid = Some (i, c)" using k by (auto simp: known_def)
        then have "entry_ok (own_view t s) rid i c" "intercept_list (shared s) rid = Some (i, c)"
          using server_invD(1) [OF ok(2) [of t]] by (simp_all add: part_of_Some)
        then show False using icpt e home by (auto simp: entry_ok_def)
      qed
    qed
  qed
  show "next_id (shared s) \<notin> dom (part_of_others t s)" using other by (force simp: entry_ok_def)
  show "\<not> known (own_view t s) (next_addr (shared s))"
    using server_invD(3) [OF ok(2), of _ "next_addr (shared s)" t] used(3)
    by (fastforce simp: known_def plugin_ok_def part_of_Some)
qed


section \<open>A step of one thread\<close>

text \<open>The handler runs on the thread's own part as it does with the whole table.\<close>

lemma step_on_own_part:
  assumes ok: "threads_ok env s" and step: "system_step env s s'"
  obtains t w1 where "server_step env (own_view t s) w1" "s' = after t (with_entries (part_of_others t s) w1) s"
    "thread_part (part_of_others t s) (addresses t s) w1" "inside (addresses t s) (own_view t s) w1"
proof -
  note part = own_part [OF ok]
  have own: "runs q (part_of_others t s) (addresses t s) (own_view t s) r (Inr w') \<Longrightarrow>
      \<exists>w1. r = Inr w1 \<and> w' = with_entries (part_of_others t s) w1 \<and>
        thread_part (part_of_others t s) (addresses t s) w1 \<and> inside (addresses t s) (own_view t s) w1" for q t r w'
    by (cases r) (auto simp: framed_def)
  have home: "home s i = t \<Longrightarrow> i \<in> addresses t s" for i t by (simp add: addresses_def)
  have known: "AddPlugin x i \<in> set (calls (shared s)) \<Longrightarrow> known (own_view t s) i" for x i t
    by (auto simp: known_def)
  from step show thesis
  proof cases
    case (sys_request rs tr self t w')
    obtain w1 where w1: "handleReadCacheLookupComplete env rs tr self (own_view t s) = Some (Inr w1)"
        "w' = with_entries (part_of_others t s) w1" "thread_part (part_of_others t s) (addresses t s) w1"
        "inside (addresses t s) (own_view t s) w1"
      using request_framed [OF part(1) _ _ _ sys_request(4) [folded own_view_entries]] part(2,3) sys_request(2) by auto
    have "server_step env (own_view t s) w1" by (rule step_request [OF _ sys_request(3) w1(1)]) (use sys_request(2) in simp)
    then show thesis using that w1 sys_request(1) by simp
  next
    case (sys_event c conn t io ev w')
    note sys_event(6) [folded own_view_entries]
    then obtain w1 where w1: "handlePHPConnectionEvents env io ev c (own_view t s) = Inr w1"
        "w' = with_entries (part_of_others t s) w1" "thread_part (part_of_others t s) (addresses t s) w1"
        "inside (addresses t s) (own_view t s) w1"
      using own [of False t "handlePHPConnectionEvents env io ev c (own_view t s)" w']
        events_framed [OF part(1) home, of c t env io ev] part(2) sys_event(2,5) by auto
    have "server_step env (own_view t s) w1" by (rule step_event [OF _ _ sys_event(4) w1(1)]) (use sys_event(2,3) in simp_all)
    then show thesis using that w1 sys_event(1) by simp
  next
    case (sys_consume x i t io data type w')
    note sys_consume(4) [folded own_view_entries]
    then obtain w1 where w1: "consume io i data type (own_view t s) = Inr w1"
        "w' = with_entries (part_of_others t s) w1" "thread_part (part_of_others t s) (addresses t s) w1"
        "inside (addresses t s) (own_view t s) w1"
      using own [of True t "consume io i data type (own_view t s)" w']
        consume_framed [OF part(1) home known, of i t x io data type] sys_consume(2,3) by auto
    have "server_step env (own_view t s) w1" by (rule step_consume [OF _ w1(1)]) (use sys_consume(2) in simp)
    then show thesis using that w1 sys_consume(1) by simp
  next
    case (sys_complete x i t io w')
    note sys_complete(4) [folded own_view_entries]
    then obtain w1 where w1: "handleInputComplete io i (own_view t s) = Inr w1"
        "w' = with_entries (part_of_others t s) w1" "thread_part (part_of_others t s) (addresses t s) w1"
        "inside (addresses t s) (own_view t s) w1"
      using own [of True t "handleInputComplete io i (own_view t s)" w']
        handleInputComplete_framed [OF part(1) home known, of i t x io] sys_complete(2,3) by auto
    have "server_step env (own_view t s) w1" by (rule step_complete [OF _ w1(1)]) (use sys_complete(2) in simp)
    then show thesis using that w1 sys_complete(1) by simp
  next
    case (sys_delete x i t w')
    note sys_delete(5) [folded own_view_entries]
    then obtain w1 where w1: "delete_intercept env i (own_view t s) = Inr w1"
        "w' = with_entries (part_of_others t s) w1" "thread_part (part_of_others t s) (addresses t s) w1"
        "inside (addresses t s) (own_view t s) w1"
      using own [of False t "delete_intercept env i (own_view t s)" w']
        delete_intercept_framed [OF part(1) home known, of i t x env] part(2) sys_delete(2,3,4) by auto
    have "server_step env (own_view t s) w1" by (rule step_delete [OF _ _ w1(1)]) (use sys_delete(2,3) in simp_all)
    then show thesis using that w1 sys_delete(1) by simp
  qed
qed

lemma after_simps [simp]:
  "conns (shared (after t w s)) = conns w" "icpts (shared (after t w s)) = icpts w" "calls (shared (after t w s)) = calls w"
  "next_addr (shared (after t w s)) = next_addr w" "next_id (shared (after t w s)) = next_id w"
  "intercept_list (shared (after t w s)) = intercept_list w" "keys (after t w s) = (keys s)(t := threadKey w)"
  "datas (after t w s) = (datas s)(t := tdata w)"
  "home (after t w s) a = (if next_addr (shared s) \<le> a then t else home s a)"
  by (simp_all add: after_def)

text \<open>What the step looks like from another thread.\<close>

lemma others_interfere:
  assumes ok: "threads_ok env s" and part: "thread_part (part_of_others t s) (addresses t s) w1"
    and ins: "inside (addresses t s) (own_view t s) w1" and r1: "reachable env w1" and u: "u \<noteq> t"
    and table: "part_of u s' = part_of u s"
    and heaps: "conns (shared s') = conns w1" "icpts (shared s') = icpts w1" "next_addr (shared s') = next_addr w1"
      "next_id (shared s') = next_id w1" "calls (shared s') = calls w1"
    and own: "keys s' u = keys s u" "datas s' u = datas s u"
  shows "interference (own_view u s) (own_view u s')"
proof -
  note used = used_addresses [OF ok] and okD = threads_okD [OF ok]
  note inv1 = reachable_inv [OF r1] and leak1 = reachable_no_leak [OF r1]
  have foreign: "rid \<in> dom (part_of_others t s)" if "part_of u s rid = Some (i, c)" for rid i c
    using that u by (auto simp: part_of_Some part_of_others_Some dom_def)
  have away: "a \<notin> addresses t s" if "home s a = u" "a < next_addr (shared s)" for a
    using that u by (simp add: addresses_def)
  have same: "conns w1 a = conns (shared s) a" "icpts w1 a = icpts (shared s) a" if "a \<notin> addresses t s" for a
    using ins that by (simp_all add: inside_def)
  have conns: "conns w1 c = conns (shared s) c" if "c \<in> own_conns (own_view u s)" for c
    using that okD(5) used(4) same(1) [OF away] by (fastforce simp: own_conns_def data_in_def)
  have icpts: "icpts w1 i = icpts (shared s) i" if "i \<in> own_icpts (own_view u s)" for i
  proof -
    from that consider (entry) rid c where "part_of u s rid = Some (i, c)"
      | (waits) td where "datas s u = Some td" "i \<in> set (pending_list (pendingReqQueue td))"
      by (auto simp: own_icpts_def)
    then show ?thesis
    proof cases
      case entry
      then show ?thesis using used(3) [of rid i c] by (intro same(2) away) (auto simp: part_of_Some)
    next
      case waits
      then show ?thesis using okD(5) [OF waits(1)] used(4) [OF waits(1)] by (intro same(2) away) (auto simp: data_in_def)
    qed
  qed
  have ids: "d = c" if "conns w1 c = Some conn" "part_of u s (requestId conn) = Some (i, d)" for c conn i d
  proof (cases "c \<in> addresses t s")
    case True
    then show ?thesis using thread_partD(5) [OF part that(1)] foreign [OF that(2)] by blast
  next
    case False
    then show ?thesis using same(1) that no_leakD(3) [OF okD(3) [of u], of c conn i d] by simp
  qed
  have plugins: "plugin_ok (own_view u s') i" if call: "AddPlugin x i \<in> set (calls w1)" for x i
  proof -
    note bounds = server_invD(3) [OF inv1 call]
    have "j = i" if icpt: "icpts w1 i = Some icpt" and e: "part_of u s (si_request_id icpt) = Some (j, c)" for icpt j c
    proof (cases "i \<in> addresses t s")
      case True
      then show ?thesis using thread_partD(6) [OF part icpt] foreign [OF e] call by (auto simp: known_def)
    next
      case False
      then have "AddPlugin x i \<in> set (calls (own_view u s))" using ins call by (auto simp: inside_def)
      then have "plugin_ok (own_view u s) i" by (rule server_invD(3) [OF okD(2)])
      then show ?thesis using icpt e same(2) [OF False] by (simp add: plugin_ok_def)
    qed
    then show ?thesis using bounds by (simp add: plugin_ok_def table heaps)
  qed
  show ?thesis
    unfolding interference_def own_view_simps table heaps own
    using conns icpts ids plugins server_invD(4) [OF inv1] no_leakD(2) [OF leak1] ins
    by (simp add: inside_def)
qed

lemma threads_step:
  assumes ok: "threads_ok env s" and step: "system_step env s s'"
  obtains t where "threads_ok env s'" "server_step env (own_view t s) (own_view t s')"
    "\<And>u. u \<noteq> t \<Longrightarrow> interference (own_view u s) (own_view u s')"
proof -
  note used = used_addresses [OF ok] and okD = threads_okD [OF ok]
  from step_on_own_part [OF ok step] obtain t w1 where
    run: "server_step env (own_view t s) w1" and s': "s' = after t (with_entries (part_of_others t s) w1) s"
    and part: "thread_part (part_of_others t s) (addresses t s) w1" and ins: "inside (addresses t s) (own_view t s) w1" .
  have r1: "reachable env w1" by (rule reachable_step [OF okD(1) run])
  note inv1 = reachable_inv [OF r1] and leak1 = reachable_no_leak [OF r1]
  have home: "home s' a = t" if "a \<in> addresses t s" for a using that by (auto simp: s' addresses_def)
  have old: "home s' a = home s a" if "a < next_addr (shared s)" for a using that by (simp add: s')
  have table: "intercept_list (shared s') = intercept_list w1 ++ part_of_others t s" by (simp add: s' with_entries_def)
  have entry: "(rid \<notin> dom (part_of_others t s) \<and> intercept_list w1 rid = Some (i, c) \<and> home s' i = t \<and> home s' c = t) \<or>
      (part_of_others t s rid = Some (i, c) \<and> home s' i = home s i \<and> home s' c = home s i \<and> home s i \<noteq> t)"
    if "intercept_list (shared s') rid = Some (i, c)" for rid i c
    using that thread_partD(4) [OF part, of rid i c] home old used(3) [of rid i c] okD(4) [of rid i c]
    by (auto simp: table map_add_Some_iff part_of_others_Some)
  have mine: "part_of t s' = intercept_list w1"
  proof
    fix rid
    show "part_of t s' rid = intercept_list w1 rid"
    proof (cases "intercept_list w1 rid")
      case None
      have "part_of t s' rid \<noteq> Some (i, c)" for i c using entry [of rid i c] None by (auto simp: part_of_Some)
      then show ?thesis using None by (cases "part_of t s' rid") auto
    next
      case (Some e)
      then have "intercept_list (shared s') rid = Some e" using thread_partD(4) [OF part] by (cases e) (simp add: table table_update)
      then show ?thesis using Some entry [of rid "fst e" "snd e"] thread_partD(4) [OF part, of rid "fst e" "snd e"]
        by (cases e) (auto simp: part_of_Some)
    qed
  qed
  have others: "part_of u s' = part_of u s" if "u \<noteq> t" for u
  proof
    fix rid
    have "part_of u s' rid = Some (i, c) \<longleftrightarrow> part_of u s rid = Some (i, c)" for i c
    proof
      assume "part_of u s' rid = Some (i, c)"
      then show "part_of u s rid = Some (i, c)" using entry [of rid i c] that by (auto simp: part_of_Some part_of_others_Some)
    next
      assume a: "part_of u s rid = Some (i, c)"
      then have "part_of_others t s rid = Some (i, c)" using that by (simp add: part_of_Some part_of_others_Some)
      then show "part_of u s' rid = Some (i, c)"
        using a old [of i] used(3) [of rid i c] by (auto simp: part_of_Some table map_add_Some_iff)
    qed
    then show "part_of u s' rid = part_of u s rid" by (metis not_None_eq surj_pair)
  qed
  have "on_thread t s' = with_entries (part_of_others t s) w1"
    by (simp add: on_thread_def s' after_def with_entries_def)
  then have view: "own_view t s' = w1" unfolding own_view_def mine by (simp add: with_entries_def)
  have others: "interference (own_view u s) (own_view u s')" if u: "u \<noteq> t" for u
    by (rule others_interfere [OF ok part ins r1 u others [OF u]])
      (use u in \<open>simp_all add: s'\<close>)
  from others have "reachable env (own_view u s')" for u
    using r1 view reachable_others [OF okD(1) [of u], of "own_view u s'"] by (cases "u = t") simp_all
  moreover have "home s' c = home s' i" if "intercept_list (shared s') rid = Some (i, c)" for rid i c
    using entry [OF that] by auto
  moreover have "data_in {a. home s' a = u} td" if "datas s' u = Some td" for u td
  proof (cases "u = t")
    case True
    then have "data_in (addresses t s) td" using that thread_partD(3) [OF part, of td] by (simp add: s')
    then show ?thesis using home True by (auto simp: data_in_def)
  next
    case False
    then have "datas s u = Some td" using that by (simp add: s')
    then have "data_in ({a. home s a = u} \<inter> {a. a < next_addr (shared s)}) td"
      using okD(5) [of u td] used(4) [of u td] by (simp add: data_in_def)
    moreover have "{a. home s a = u} \<inter> {a. a < next_addr (shared s)} \<subseteq> {a. home s' a = u}" using old by auto
    ultimately show ?thesis unfolding data_in_def by blast
  qed
  ultimately have "threads_ok env s'" by (simp add: threads_ok_def)
  then show thesis using that [of t] run others view by simp
qed

lemma system_reachable_ok: "system_reachable env s \<Longrightarrow> threads_ok env s"
proof (induction rule: system_reachable.induct)
  case system_initial
  have "own_view t initial_system = initial_world" for t
    by (simp add: own_view_def on_thread_def part_of_def fun_eq_iff initial_system_def initial_world_def)
  then show ?case
    using reachable_initial [of env] by (simp add: threads_ok_def) (simp add: initial_system_def initial_world_def)
next
  case (system_later s s')
  then show ?case by (auto elim: threads_step)
qed

end
