(* ===== verification/Thread_Properties.thy ===== *)
theory Thread_Properties
  imports Threads Server_Witnesses
begin

text \<open>
  What holds with several event threads: each of them is a server of its own, as \<open>Server_Steps\<close> has it, and what one works
  with no other has. Two threads that each serve a request are the examples.
\<close>

section \<open>Theorems\<close>

text \<open>C8: The event threads do not disturb each other. Seen with its own entries of the table, each thread is in a state that
  the server with one thread and interference reaches, and each handler that runs, with all the entries there, is a step
  of this server on its own thread and no more than interference on each of the other threads.\<close>

theorem threads_refine_servers:
  assumes "system_reachable env s"
  shows "(\<forall>u. reachable env (own_view u s)) \<and>
    (\<forall>s'. system_step env s s' \<longrightarrow>
      (\<exists>t. server_step env (own_view t s) (own_view t s') \<and>
        (\<forall>u. u \<noteq> t \<longrightarrow> interference (own_view u s) (own_view u s'))))"
proof (intro conjI allI impI)
  note ok = system_reachable_ok [OF assms]
  show "reachable env (own_view u s)" for u by (rule threads_okD(1) [OF ok])
  show "\<exists>t. server_step env (own_view t s) (own_view t s') \<and>
      (\<forall>u. u \<noteq> t \<longrightarrow> interference (own_view u s) (own_view u s'))" if "system_step env s s'" for s'
    using threads_step [OF ok that] by blast
qed

text \<open>A request and a connection at work on thread \<open>t\<close>, and nowhere else.\<close>

definition at_work :: "nat \<Rightarrow> system \<Rightarrow> uint \<Rightarrow> nat \<Rightarrow> nat \<Rightarrow> bool" where
  "at_work t s rid i c \<longleftrightarrow>
     (\<exists>conn. conns (shared s) c = Some conn \<and> requestId conn = rid) \<and>
     (\<exists>icpt. icpts (shared s) i = Some icpt \<and> si_request_id icpt = rid) \<and>
     (\<exists>td. datas s t = Some td \<and> c \<in> busy (pool td)) \<and>
     (\<forall>u td. datas s u = Some td \<longrightarrow>
        i \<notin> set (pending_list (pendingReqQueue td)) \<and> (c \<in> set (connections (pool td)) \<longrightarrow> u = t))"

lemma entry_at_work:
  assumes "system_reachable env s" "intercept_list (shared s) rid = Some (i, c)"
  shows "at_work (home s i) s rid i c"
proof -
  note ok = threads_okD [OF system_reachable_ok [OF assms(1)]]
  have "entry_ok (own_view (home s i) s) rid i c"
    by (rule server_invD(1) [OF ok(2)]) (use assms(2) in \<open>simp add: part_of_Some\<close>)
  then obtain td conn icpt where td: "datas s (home s i) = Some td" "c \<in> set (connections (pool td))"
      "i \<notin> set (pending_list (pendingReqQueue td))"
    and conn: "conns (shared s) c = Some conn" "requestId conn = rid" "0 < rid"
    and icpt: "icpts (shared s) i = Some icpt" "si_request_id icpt = rid"
    by (auto simp: entry_ok_def)
  have "td_ok (own_view (home s i) s) td" by (rule server_invD(2) [OF ok(2)]) (use td in simp)
  then have "c \<in> busy (pool td)" using td conn by (auto simp: td_ok_def busy_def)
  moreover have "i \<notin> set (pending_list (pendingReqQueue td')) \<and> (c \<in> set (connections (pool td')) \<longrightarrow> u = home s i)"
    if "datas s u = Some td'" for u td'
    using ok(4) [OF assms(2)] ok(5) [OF that] td that by (cases "u = home s i") (auto simp: data_in_def)
  ultimately show ?thesis using td(1) conn icpt by (auto simp: at_work_def)
qed

text \<open>C9: What one thread works with is in no other thread's hands. Each request of the table is at work on a connection that
  carries its id, on one thread: the connection is busy in the pool of this thread and in no other pool, and the request
  waits in no queue of any thread. No connection is in the pools of two threads, and no request in the queues of two.\<close>

theorem threads_share_nothing:
  assumes "system_reachable env s"
  shows "(\<forall>rid i c. intercept_list (shared s) rid = Some (i, c) \<longrightarrow> (\<exists>!t. at_work t s rid i c)) \<and>
    (\<forall>t u a b. datas s t = Some a \<longrightarrow> datas s u = Some b \<longrightarrow> t \<noteq> u \<longrightarrow>
       set (connections (pool a)) \<inter> set (connections (pool b)) = {} \<and>
       set (pending_list (pendingReqQueue a)) \<inter> set (pending_list (pendingReqQueue b)) = {})"
proof (intro conjI allI impI)
  note ok = threads_okD [OF system_reachable_ok [OF assms]]
  show "\<exists>!t. at_work t s rid i c" if "intercept_list (shared s) rid = Some (i, c)" for rid i c
  proof (rule ex1I)
    show "at_work (home s i) s rid i c" by (rule entry_at_work [OF assms that])
    then show "at_work t s rid i c \<Longrightarrow> t = home s i" for t by (auto simp: at_work_def busy_def)
  qed
  fix t u a b
  assume "datas s t = Some a" "datas s u = Some b" "t \<noteq> u"
  then show "set (connections (pool a)) \<inter> set (connections (pool b)) = {}"
    and "set (pending_list (pendingReqQueue a)) \<inter> set (pending_list (pendingReqQueue b)) = {}"
    using ok(5) [of t a] ok(5) [of u b] by (auto simp: data_in_def)
qed

text \<open>C33: With \<open>max_connections\<close> from -5 to 5 the plugin serves no request, ever, on no event thread: in no state it reaches was
  a connection to the backend opened or an intercept given to Traffic Server.\<close>

theorem small_max_connections_serves_nobody:
  assumes "- 6 < getMaxConnLength (env_cfg env)" "getMaxConnLength (env_cfg env) < 6" "system_reachable env s"
  shows "intercept_list (shared s) = (\<lambda>r. None) \<and> conns (shared s) = (\<lambda>a. None) \<and>
    (\<forall>x\<in>set (calls (shared s)). \<exists>t. x = Resume t)"
proof -
  from assms(3) have "no_service (on_thread t s)" for t
  proof (induction arbitrary: t)
    case system_initial
    then show ?case by (simp add: no_service_def initial_system_def initial_world_def)
  next
    case (system_later s s')
    from system_step_thread [OF system_later(2)] obtain t' w' where
      step: "server_step env (on_thread t' s) w'" and s': "s' = after t' w' s" .
    have "\<bar>getMaxConnLength (env_cfg env)\<bar> < 6" using assms(1,2) by linarith
    then have "no_service w'" by (rule step_no_service [OF _ step system_later.IH])
    then show ?case using system_later.IH [of t] by (cases "t = t'") (simp_all add: s' no_service_def)
  qed
  then show ?thesis by (simp add: no_service_def)
qed


section \<open>Two threads\<close>

text \<open>A request comes on a thread that has no key yet, whatever the other threads did.\<close>

lemma request_run:
  assumes "threadKey w = 0"
  shows "\<exists>w' td. handleReadCacheLookupComplete sample_env [KeyCreated 1] first_request 11 w = Some (Inr w') \<and>
     intercept_list w' = (intercept_list w)(next_id w \<mapsto> (next_addr w, next_addr w + 1)) \<and>
     tdata w' = Some td \<and> connections (pool td) = [next_addr w + 1] \<and>
     next_addr w' = next_addr w + 2 \<and> next_id w' = next_id w + 1"
proof -
  have pool: "connections (new_pool cfg) = []" "available_connections (new_pool cfg) = []" for cfg
    by (simp_all add: new_pool_def)
  have "maxConn (new_pool default_config) = 1" by (rule word_unat_eq_iff [THEN iffD2]) (simp add: default_maxConn)
  then show ?thesis
    using first_request_path local_address assms
    by (simp add: handleReadCacheLookupComplete_def first_request_def new_icpt_def
        set_icpt_def TSStatIntIncrement_def setupThreadLocalStorage_def connect_def new_thread_data_def
        sample_env_def getAvailableConnection_def pool addConnection_def initiateBackendConnection_def
        getNext_def new_connection_def set_conn_def createConnection_def ats_def new_intercept_def)
qed

lemma two_threads_run:
  "\<exists>s0 s a b. system_reachable sample_env s0 \<and> system_step sample_env s0 s \<and> system_reachable sample_env s \<and>
     intercept_list (shared s) = [1 \<mapsto> (0, 1), 2 \<mapsto> (2, 3)] \<and> datas s 0 = Some a \<and> datas s 1 = Some b \<and>
     connections (pool a) = [1] \<and> connections (pool b) = [3]"
proof -
  let ?w0 = "on_thread 0 initial_system"
  have start: "threadKey ?w0 = 0" "ids_left ?w0" "intercept_list ?w0 = Map.empty" "next_id ?w0 = 1" "next_addr ?w0 = 0"
    by (simp_all add: initial_system_def initial_world_def ids_left_def)
  obtain w1 a where w1: "handleReadCacheLookupComplete sample_env [KeyCreated 1] first_request 11 ?w0 = Some (Inr w1)"
      "intercept_list w1 = [1 \<mapsto> (0, 1)]" "tdata w1 = Some a" "connections (pool a) = [1]" "next_addr w1 = 2" "next_id w1 = 2"
    using request_run [OF start(1)] unfolding start by auto
  define s1 where "s1 = after 0 w1 initial_system"
  have r1: "system_reachable sample_env s1"
    unfolding s1_def by (rule system_later [OF system_initial], rule sys_request [OF _ _ w1(1)]) (use start in simp_all)
  let ?w1 = "on_thread 1 s1"
  have next_step: "threadKey ?w1 = 0" "ids_left ?w1" "intercept_list ?w1 = [1 \<mapsto> (0, 1)]" "next_id ?w1 = 2" "next_addr ?w1 = 2"
    by (simp_all add: s1_def w1 ids_left_def initial_system_def)
  obtain w2 b where w2: "handleReadCacheLookupComplete sample_env [KeyCreated 1] first_request 11 ?w1 = Some (Inr w2)"
      "intercept_list w2 = [1 \<mapsto> (0, 1), 2 \<mapsto> (2, 3)]" "tdata w2 = Some b" "connections (pool b) = [3]"
    using request_run [OF next_step(1)] unfolding next_step by auto
  have step: "system_step sample_env s1 (after 1 w2 s1)"
    by (rule sys_request [OF _ _ w2(1)]) (use next_step in simp_all)
  show ?thesis
  proof (intro exI conjI)
    show "datas (after 1 w2 s1) 0 = Some a" "datas (after 1 w2 s1) 1 = Some b" using w1(3) w2(3) by (simp_all add: s1_def)
    show "intercept_list (shared (after 1 w2 s1)) = [1 \<mapsto> (0, 1), 2 \<mapsto> (2, 3)]" using w2(2) by simp
  qed (rule r1 step system_later [OF r1 step] w1(4) w2(4))+
qed

theorem threads_refine_servers_witness:
  "\<exists>s s'. system_reachable sample_env s \<and> system_step sample_env s s' \<and>
     reachable sample_env (own_view 0 s') \<and> reachable sample_env (own_view 1 s') \<and>
     (\<exists>t. server_step sample_env (own_view t s) (own_view t s'))"
proof -
  obtain s s' where s: "system_reachable sample_env s" "system_step sample_env s s'" "system_reachable sample_env s'"
    using two_threads_run by blast
  then show ?thesis using threads_refine_servers [OF s(1)] threads_refine_servers [OF s(3)] by blast
qed

theorem threads_share_nothing_witness:
  "\<exists>s t u a b. system_reachable sample_env s \<and> at_work t s 1 0 1 \<and> at_work u s 2 2 3 \<and> t \<noteq> u \<and>
     datas s t = Some a \<and> datas s u = Some b \<and> connections (pool a) = [1] \<and> connections (pool b) = [3]"
proof -
  obtain s a b where s: "system_reachable sample_env s" and table: "intercept_list (shared s) = [1 \<mapsto> (0, 1), 2 \<mapsto> (2, 3)]"
    and data: "datas s 0 = Some a" "datas s 1 = Some b" "connections (pool a) = [1]" "connections (pool b) = [3]"
    using two_threads_run by blast
  have entries: "intercept_list (shared s) 1 = Some (0, 1)" "intercept_list (shared s) 2 = Some (2, 3)"
    by (simp_all add: table)
  obtain t u where work: "at_work t s 1 0 1" "at_work u s 2 2 3"
    using threads_share_nothing [OF s, THEN conjunct1, rule_format, THEN ex1_implies_ex] entries by blast
  then have "0 = t" "1 = u" using data unfolding at_work_def by fastforce+
  then have "at_work 0 s 1 0 1" "at_work 1 s 2 2 3" using work by simp_all
  then show ?thesis using s data by (intro exI [of _ s]) auto
qed

theorem small_max_connections_serves_nobody_witness:
  "\<exists>s td. system_reachable small_env s \<and> datas s 0 = Some td \<and> pending_list (pendingReqQueue td) = [0] \<and>
     intercept_list (shared s) = (\<lambda>r. None) \<and> conns (shared s) = (\<lambda>a. None)"
proof -
  have start: "on_thread 0 initial_system = initial_world"
    by (simp add: on_thread_def initial_system_def initial_world_def)
  from small_request_run obtain w td where
    run: "handleReadCacheLookupComplete small_env [KeyCreated 1] first_request 11 (on_thread 0 initial_system) = Some (Inr w)"
    and td: "tdata w = Some td" "pending_list (pendingReqQueue td) = [0]" unfolding start by auto
  have "system_step small_env initial_system (after 0 w initial_system)"
    by (rule sys_request [OF _ _ run]) (simp_all add: initial_system_def ids_left_initial)
  then have "system_reachable small_env (after 0 w initial_system)" by (rule system_later [OF system_initial])
  with small_max_connections_serves_nobody [OF _ _ this] td show ?thesis
    by (intro exI [of _ "after 0 w initial_system"] exI [of _ td]) (auto simp: small_env_def getMaxConnLength_def)
qed

end
