(* ===== verification/Profiler.thy ===== *)
theory Profiler
  imports Main
begin

text \<open>
  The profiler (\<open>Profiler.h\<close>): a global store of time stamps. A \<open>ProfileTaker\<close> lives in a scope;
  its destructor submits the profile of the begin of the scope and one of the end. Time, thread
  and process come from outside: the record \<open>clock\<close>.
\<close>

section \<open>Profiles\<close>

record Profile =
  start_time :: nat
  end_time :: nat
  thread_id :: nat
  process_id :: nat
  object_id :: nat
  task_name :: string
  obj_stage :: string

record clock =
  now :: nat
  this_thread :: nat
  this_process :: nat

definition ComputeStartTime :: "clock \<Rightarrow> Profile \<Rightarrow> Profile" where
  "ComputeStartTime t p =
     p\<lparr>start_time := now t, thread_id := this_thread t, process_id := this_process t\<rparr>"

definition ComputeEndTime :: "clock \<Rightarrow> Profile \<Rightarrow> Profile" where
  "ComputeEndTime t p = p\<lparr>end_time := now t\<rparr>"

definition set_object_id :: "nat \<Rightarrow> Profile \<Rightarrow> Profile" where
  "set_object_id n p = p\<lparr>object_id := n\<rparr>"

definition set_task_name :: "string \<Rightarrow> Profile \<Rightarrow> Profile" where
  "set_task_name s p = p\<lparr>task_name := s\<rparr>"

definition set_obj_stage :: "string \<Rightarrow> Profile \<Rightarrow> Profile" where
  "set_obj_stage s p = p\<lparr>obj_stage := s\<rparr>"

text \<open>A new profile: the numbers are what the memory held, the strings are empty.\<close>

definition new_profile :: "nat \<Rightarrow> Profile" where
  "new_profile junk = \<lparr>start_time = junk, end_time = junk, thread_id = junk, process_id = junk,
     object_id = junk, task_name = [], obj_stage = []\<rparr>"


section \<open>The profiler\<close>

record Profiler =
  profiles :: "Profile list"
  record_enabled :: bool

definition new_profiler :: Profiler where
  "new_profiler = \<lparr>profiles = [], record_enabled = False\<rparr>"

definition SubmitProfile :: "Profile \<Rightarrow> Profiler \<Rightarrow> Profiler" where
  "SubmitProfile p pr = (if \<not> record_enabled pr then pr else pr\<lparr>profiles := profiles pr @ [p]\<rparr>)"

definition Clear :: "Profiler \<Rightarrow> Profiler" where
  "Clear pr = pr\<lparr>profiles := []\<rparr>"

definition profileLength :: "Profiler \<Rightarrow> nat" where
  "profileLength pr = length (profiles pr)"

definition set_record_enabled :: "bool \<Rightarrow> Profiler \<Rightarrow> Profiler" where
  "set_record_enabled enabled pr =
     (let pr = pr\<lparr>record_enabled := enabled\<rparr> in if \<not> record_enabled pr then Clear pr else pr)"

text \<open>The constructor of a \<open>ProfileTaker\<close> makes its profile, the destructor submits.\<close>

definition new_ProfileTaker :: "clock \<Rightarrow> nat \<Rightarrow> string \<Rightarrow> nat \<Rightarrow> string \<Rightarrow> Profile" where
  "new_ProfileTaker t junk name objId phase =
     set_object_id objId (set_obj_stage phase (set_task_name name (ComputeStartTime t (new_profile junk))))"

definition delete_ProfileTaker :: "clock \<Rightarrow> nat \<Rightarrow> Profile \<Rightarrow> Profiler \<Rightarrow> Profiler" where
  "delete_ProfileTaker t junk profile pr =
     (let pr = SubmitProfile profile pr;
          endProf = set_object_id (object_id profile)
            (set_task_name (task_name profile) (set_obj_stage ''E'' (ComputeStartTime t (new_profile junk))))
      in SubmitProfile endProf pr)"


section \<open>Scopes\<close>

text \<open>
  Scopes nest: a scope with a name, an object and a phase runs other scopes between its begin
  and its end. The profiler sees their destructors.
\<close>

datatype scope = Scope string nat string "scope list"

text \<open>Every scope starts and ends by the clock's next readings, in the order of the program.\<close>

fun run_scope :: "(nat \<Rightarrow> clock) \<Rightarrow> nat \<Rightarrow> scope \<Rightarrow> nat \<times> Profiler \<Rightarrow> nat \<times> Profiler"
  and run_scopes :: "(nat \<Rightarrow> clock) \<Rightarrow> nat \<Rightarrow> scope list \<Rightarrow> nat \<times> Profiler \<Rightarrow> nat \<times> Profiler" where
  "run_scope ck junk (Scope name obj phase ss) (n, pr) =
     (let p = new_ProfileTaker (ck n) junk name obj phase;
          (n', pr') = run_scopes ck junk ss (Suc n, pr)
      in (Suc n', delete_ProfileTaker (ck n') junk p pr'))"
| "run_scopes ck junk [] st = st"
| "run_scopes ck junk (s # ss) st = run_scopes ck junk ss (run_scope ck junk s st)"

fun scope_count :: "scope \<Rightarrow> nat" where
  "scope_count (Scope name obj phase ss) = Suc (sum_list (map scope_count ss))"

lemma record_enabled_SubmitProfile [simp]: "record_enabled (SubmitProfile p pr) = record_enabled pr"
  by (simp add: SubmitProfile_def)

lemma record_enabled_delete [simp]: "record_enabled (delete_ProfileTaker t junk p pr) = record_enabled pr"
  by (simp add: delete_ProfileTaker_def Let_def)

text \<open>A begin and an end belong together: task and object are the same, the end has stage \<open>E\<close>.\<close>

definition matching :: "Profile \<Rightarrow> Profile \<Rightarrow> bool" where
  "matching b e \<longleftrightarrow> task_name e = task_name b \<and> object_id e = object_id b \<and> obj_stage e = ''E''"

fun paired :: "Profile list \<Rightarrow> bool" where
  "paired [] \<longleftrightarrow> True"
| "paired (b # e # ps) \<longleftrightarrow> matching b e \<and> paired ps"
| "paired [b] \<longleftrightarrow> False"

lemma paired_append: "paired ps \<Longrightarrow> paired qs \<Longrightarrow> paired (ps @ qs)"
  by (induction ps rule: paired.induct) simp_all

lemma delete_ProfileTaker_profiles:
  "record_enabled pr \<Longrightarrow>
   \<exists>e. profiles (delete_ProfileTaker t junk p pr) = profiles pr @ [p, e] \<and> matching p e"
  by (auto simp: delete_ProfileTaker_def SubmitProfile_def Let_def matching_def set_object_id_def
      set_task_name_def set_obj_stage_def ComputeStartTime_def new_profile_def)

lemma delete_ProfileTaker_disabled:
  "\<not> record_enabled pr \<Longrightarrow> delete_ProfileTaker t junk p pr = pr"
  by (simp add: delete_ProfileTaker_def SubmitProfile_def Let_def)

lemma run_scope_enabled:
  "record_enabled (snd st) \<Longrightarrow> record_enabled (snd (run_scope ck junk s st)) \<and>
     (\<exists>ps. profiles (snd (run_scope ck junk s st)) = profiles (snd st) @ ps \<and> paired ps \<and>
        length ps = 2 * scope_count s)"
  "record_enabled (snd st) \<Longrightarrow> record_enabled (snd (run_scopes ck junk ss st)) \<and>
     (\<exists>ps. profiles (snd (run_scopes ck junk ss st)) = profiles (snd st) @ ps \<and> paired ps \<and>
        length ps = 2 * sum_list (map scope_count ss))"
proof (induction ck junk s st and ck junk ss st rule: run_scope_run_scopes.induct)
  case (1 ck junk name obj phase ss n pr)
  let ?p = "new_ProfileTaker (ck n) junk name obj phase"
  obtain n' pr' where r: "run_scopes ck junk ss (Suc n, pr) = (n', pr')" by fastforce
  with 1 obtain ps where ps: "record_enabled pr'" "profiles pr' = profiles pr @ ps" "paired ps"
    "length ps = 2 * sum_list (map scope_count ss)" by auto
  from delete_ProfileTaker_profiles [OF ps(1), of "ck n'" junk ?p] obtain e where
    "profiles (delete_ProfileTaker (ck n') junk ?p pr') = profiles pr @ ps @ [?p, e]" "matching ?p e"
    using ps(2) by auto
  with r ps show ?case
    by (auto simp: Let_def intro!: exI [of _ "ps @ [?p, e]"] paired_append)
next
  case (3 ck junk s ss st)
  then obtain ps qs where
    "profiles (snd (run_scope ck junk s st)) = profiles (snd st) @ ps" "paired ps"
    "length ps = 2 * scope_count s" "record_enabled (snd (run_scope ck junk s st))"
    "profiles (snd (run_scopes ck junk ss (run_scope ck junk s st))) =
       profiles (snd (run_scope ck junk s st)) @ qs" "paired qs"
    "length qs = 2 * sum_list (map scope_count ss)"
    "record_enabled (snd (run_scopes ck junk ss (run_scope ck junk s st)))" by auto
  then show ?case by (auto intro!: exI [of _ "ps @ qs"] paired_append)
qed simp

lemma run_scope_disabled:
  "\<not> record_enabled (snd st) \<Longrightarrow> snd (run_scope ck junk s st) = snd st"
  "\<not> record_enabled (snd st) \<Longrightarrow> snd (run_scopes ck junk ss st) = snd st"
  by (induction ck junk s st and ck junk ss st rule: run_scope_run_scopes.induct)
    (auto simp: Let_def delete_ProfileTaker_disabled split: prod.splits)

text \<open>While recording is on, any nesting of scopes adds two profiles for each scope, always the
  begin of a scope and directly behind it the end of the same task on the same object; while it
  is off, nothing is added, and turning it off forgets everything.\<close>

theorem profiles_are_paired:
  "(if record_enabled pr
    then \<exists>ps. profiles (snd (run_scopes ck junk ss (n, pr))) = profiles pr @ ps \<and> paired ps \<and>
           length ps = 2 * sum_list (map scope_count ss)
    else snd (run_scopes ck junk ss (n, pr)) = pr) \<and>
   profiles (set_record_enabled False pr) = [] \<and>
   profiles (set_record_enabled True pr) = profiles pr"
  using run_scope_enabled(2) [of "(n, pr)" ck junk ss] run_scope_disabled(2) [of "(n, pr)" ck junk ss]
  by (auto simp: set_record_enabled_def Clear_def Let_def)

end
