(* ===== verification/Cfg_Value.thy ===== *)
theory Cfg_Value
  imports C_Strings Std_Map
begin

text \<open>
  The values of Configuru (\<open>configuru.hpp\<close>): the class \<open>Config\<close> with its inspectors, converters and
  operations on arrays and objects. A value is a tree; how copies of an array or an object share it in
  memory is in the theory \<open>Cfg_Memory\<close>. A position is a document and a line, \<open>None\<close> where the code has a null pointer or
  \<open>BAD_INDEX\<close>. Floating-point numbers are the type variable \<open>'f\<close>.
\<close>

section \<open>Errors\<close>

text \<open>A \<open>ParseError\<close> with document, line and column, a call of \<open>CONFIGURU_ONERROR\<close> with the position
  that is printed in front of the message, one of \<open>CONFIGURU_ON_DANGLING\<close> with the keys, what C++ leaves undefined, and a call that does not compile.\<close>

datatype cfg_error =
    ParseError nat nat nat string
  | OnError "nat option" "nat option" string
  | Dangling "(nat option \<times> nat option \<times> string) list"
  | Undefined crash
  | OutOfFuel
  | NoOverload

type_synonym 'a cfg = "cfg_error + 'a"


section \<open>The class Config\<close>

record comments =
  cm_prefix :: "string list"
  cm_postfix :: "string list"
  cm_pre_end_brace :: "string list"

definition no_comments :: comments where
  "no_comments = \<lparr>cm_prefix = [], cm_postfix = [], cm_pre_end_brace = []\<rparr>"

definition append_comments :: "comments \<Rightarrow> comments \<Rightarrow> comments" where
  "append_comments a b =
     \<lparr>cm_prefix = cm_prefix a @ cm_prefix b, cm_postfix = cm_postfix a @ cm_postfix b,
      cm_pre_end_brace = cm_pre_end_brace a @ cm_pre_end_brace b\<rparr>"

datatype 'f config =
    Config (c_value: "'f val") (c_doc: "nat option") (c_line: "nat option") (c_comments: comments)
and 'f val =
    Uninitialized
  | BadLookupType "nat option" "nat option" string
  | Null
  | Bool bool
  | Integer int
  | Float 'f
  | Str string
  | Array "'f config list"
  | Object "(string \<times> 'f entry) list"
and 'f entry = Entry (e_value: "'f config") (e_nr: nat) (e_accessed: bool)

definition config_of :: "'f val \<Rightarrow> 'f config" where
  "config_of v = Config v None None no_comments"

definition has_comments :: "'f config \<Rightarrow> bool" where
  "has_comments c \<longleftrightarrow> c_comments c \<noteq> no_comments"

definition set_value :: "'f val \<Rightarrow> 'f config \<Rightarrow> 'f config" where
  "set_value v c = Config v (c_doc c) (c_line c) (c_comments c)"

definition set_comments :: "comments \<Rightarrow> 'f config \<Rightarrow> 'f config" where
  "set_comments cm c = Config (c_value c) (c_doc c) (c_line c) cm"

definition tag :: "nat \<Rightarrow> nat \<Rightarrow> 'f config \<Rightarrow> 'f config" where
  "tag doc line c = Config (c_value c) (Some doc) (Some line) (c_comments c)"

text \<open>\<open>operator=\<close>: the value is replaced; position and comments only by such that are there.\<close>

definition assign :: "'f config \<Rightarrow> 'f config \<Rightarrow> 'f config" where
  "assign dst o' =
     (let p = (if c_doc o' \<noteq> None \<or> c_line o' \<noteq> None then o' else dst) in
      Config (c_value o') (c_doc p) (c_line p) (if has_comments o' then c_comments o' else c_comments dst))"

fun type_str :: "'f val \<Rightarrow> string" where
  "type_str Uninitialized = ''uninitialized''"
| "type_str (BadLookupType _ _ _) = ''undefined''"
| "type_str Null = ''null''"
| "type_str (Bool _) = ''bool''"
| "type_str (Integer _) = ''integer''"
| "type_str (Float _) = ''float''"
| "type_str (Str _) = ''string''"
| "type_str (Array _) = ''array''"
| "type_str (Object _) = ''object''"

definition debug_descr :: "'f config \<Rightarrow> string" where
  "debug_descr c =
     (case c_value c of
        Bool b \<Rightarrow> if b then ''true'' else ''false''
      | Str s \<Rightarrow> takeWhile (\<lambda>ch. ch \<noteq> CHR 0x00) s
      | v \<Rightarrow> type_str v)"


section \<open>Type checks\<close>

definition raise_error :: "'f config \<Rightarrow> string \<Rightarrow> 'a cfg" where
  "raise_error c msg = Inl (OnError (c_doc c) (c_line c) msg)"

text \<open>What \<open>assert_type\<close> does when the value \<open>c\<close> does not have the type \<open>expected\<close>.\<close>

definition wrong_type :: "string \<Rightarrow> 'f config \<Rightarrow> 'a cfg" where
  "wrong_type expected c =
     (case c_value c of
        BadLookupType doc line key \<Rightarrow> Inl (OnError doc line (''Failed to find key '' @ [CHR 0x27] @ key @ [CHR 0x27]))
      | v \<Rightarrow>
          let message = ''Expected '' @ expected @ '', got '' @ type_str v in
          raise_error c
            (if v = Uninitialized \<and> expected = ''object''
             then message @ ''. Did you forget to call Config::object()?''
             else if v = Uninitialized \<and> expected = ''array''
             then message @ ''. Did you forget to call Config::array()?''
             else message))"

definition as_bool :: "'f config \<Rightarrow> bool cfg" where
  "as_bool c = (case c_value c of Bool b \<Rightarrow> Inr b | _ \<Rightarrow> wrong_type ''bool'' c)"

definition as_string :: "'f config \<Rightarrow> string cfg" where
  "as_string c = (case c_value c of Str s \<Rightarrow> Inr s | _ \<Rightarrow> wrong_type ''string'' c)"

definition as_array :: "'f config \<Rightarrow> 'f config list cfg" where
  "as_array c = (case c_value c of Array xs \<Rightarrow> Inr xs | _ \<Rightarrow> wrong_type ''array'' c)"

definition as_object :: "'f config \<Rightarrow> (string \<times> 'f entry) list cfg" where
  "as_object c = (case c_value c of Object m \<Rightarrow> Inr m | _ \<Rightarrow> wrong_type ''object'' c)"

text \<open>\<open>static_cast\<close> to an integer type of \<open>w\<close> bits, and \<open>as_integer\<close>.\<close>

definition cast_int :: "bool \<Rightarrow> nat \<Rightarrow> int \<Rightarrow> int" where
  "cast_int is_signed w i = (if is_signed then signed_take_bit (w - 1) i else take_bit w i)"

definition as_integer :: "bool \<Rightarrow> nat \<Rightarrow> 'f config \<Rightarrow> int cfg" where
  "as_integer is_signed w c =
     (case c_value c of
        Integer i \<Rightarrow>
          if cast_int True 64 (cast_int is_signed w i) = i then Inr (cast_int is_signed w i)
          else raise_error c ''Integer out of range''
      | _ \<Rightarrow> wrong_type ''integer'' c)"

text \<open>\<open>as_float\<close> and \<open>as_double\<close>, with the conversions of an integer and of a \<open>double\<close>.\<close>

definition as_float :: "(int \<Rightarrow> 'f) \<Rightarrow> ('f \<Rightarrow> 'f) \<Rightarrow> 'f config \<Rightarrow> 'f cfg" where
  "as_float float_of_int float_of c =
     (case c_value c of
        Integer i \<Rightarrow> Inr (float_of_int i)
      | Float f \<Rightarrow> Inr (float_of f)
      | _ \<Rightarrow> wrong_type ''float'' c)"

definition as_double :: "(int \<Rightarrow> 'f) \<Rightarrow> 'f config \<Rightarrow> 'f cfg" where
  "as_double of_int' c =
     (case c_value c of
        Integer i \<Rightarrow> Inr (of_int' i)
      | Float f \<Rightarrow> Inr f
      | _ \<Rightarrow> wrong_type ''float'' c)"


section \<open>Arrays and objects\<close>

definition make_object :: "'f config \<Rightarrow> 'f config cfg" where
  "make_object c = (if c_value c = Uninitialized then Inr (set_value (Object []) c) else wrong_type ''uninitialized'' c)"

definition make_array :: "'f config \<Rightarrow> 'f config cfg" where
  "make_array c = (if c_value c = Uninitialized then Inr (set_value (Array []) c) else wrong_type ''uninitialized'' c)"

definition array_size :: "'f config \<Rightarrow> nat cfg" where
  "array_size c = bindE (as_array c) (\<lambda>xs. Inr (length xs))"

definition array_at :: "'f config \<Rightarrow> nat \<Rightarrow> 'f config cfg" where
  "array_at c ix = bindE (as_array c) (\<lambda>xs.
     if ix < length xs then Inr (xs ! ix) else raise_error c ''Array index out of range'')"

definition push_back :: "'f config \<Rightarrow> 'f config \<Rightarrow> 'f config cfg" where
  "push_back x c = bindE (as_array c) (\<lambda>xs. Inr (set_value (Array (xs @ [x])) c))"

definition object_size :: "'f config \<Rightarrow> nat cfg" where
  "object_size c = bindE (as_object c) (\<lambda>m. Inr (length m))"

definition has_key :: "string \<Rightarrow> 'f config \<Rightarrow> bool cfg" where
  "has_key key c = bindE (as_object c) (\<lambda>m. Inr (map_find m key \<noteq> None))"

definition access :: "'f entry \<Rightarrow> 'f entry" where
  "access e = Entry (e_value e) (e_nr e) True"

text \<open>\<open>operator[]\<close> of a constant object, with the object in which the entry is marked.\<close>

definition lookup :: "string \<Rightarrow> 'f config \<Rightarrow> ('f config \<times> 'f config) cfg" where
  "lookup key c = bindE (as_object c) (\<lambda>m.
     case map_find m key of
       None \<Rightarrow> raise_error c (''Key '' @ [CHR 0x27] @ key @ [CHR 0x27] @ '' not in object'')
     | Some e \<Rightarrow> Inr (e_value e, set_value (Object (map_set key (access e) m)) c))"

text \<open>\<open>operator[]\<close> otherwise: a new key gets a place for its value.\<close>

definition lookup_or_add :: "string \<Rightarrow> 'f config \<Rightarrow> ('f config \<times> 'f config) cfg" where
  "lookup_or_add key c = bindE (as_object c) (\<lambda>m.
     let e = (case map_find m key of
                None \<Rightarrow> Entry (config_of (BadLookupType (c_doc c) (c_line c) key)) (length m) False
              | Some e \<Rightarrow> access e)
     in Inr (e_value e, set_value (Object (map_set key e m)) c))"

definition emplace :: "string \<Rightarrow> 'f config \<Rightarrow> 'f config \<Rightarrow> (bool \<times> 'f config) cfg" where
  "emplace key x c = bindE (as_object c) (\<lambda>m.
     Inr (map_find m key = None, set_value (Object (map_insert key (Entry x (length m) False) m)) c))"

definition insert_or_assign :: "string \<Rightarrow> 'f config \<Rightarrow> 'f config \<Rightarrow> 'f config cfg" where
  "insert_or_assign key x c = bindE (as_object c) (\<lambda>m.
     let e = (case map_find m key of
                None \<Rightarrow> Entry (assign (config_of Uninitialized) x) (length m) False
              | Some e \<Rightarrow> Entry (assign (e_value e) x) (e_nr e) True)
     in Inr (set_value (Object (map_set key e m)) c))"

definition erase :: "string \<Rightarrow> 'f config \<Rightarrow> (bool \<times> 'f config) cfg" where
  "erase key c = bindE (as_object c) (\<lambda>m.
     if map_find m key = None then Inr (False, c)
     else Inr (True, set_value (Object (map_erase key m)) c))"

definition get_or :: "('f config \<Rightarrow> 'a cfg) \<Rightarrow> string \<Rightarrow> 'a \<Rightarrow> 'f config \<Rightarrow> ('a \<times> 'f config) cfg" where
  "get_or as' key d c = bindE (as_object c) (\<lambda>m.
     case map_find m key of
       None \<Rightarrow> Inr (d, c)
     | Some e \<Rightarrow> bindE (as' (e_value e)) (\<lambda>x. Inr (x, set_value (Object (map_set key (access e) m)) c)))"

text \<open>\<open>get_or\<close> of a value: the default stands for a failed look-up.\<close>

definition get_or_default :: "('f config \<Rightarrow> 'a cfg) \<Rightarrow> 'a \<Rightarrow> 'f config \<Rightarrow> 'a cfg" where
  "get_or_default as' d c = (case c_value c of BadLookupType _ _ _ \<Rightarrow> Inr d | _ \<Rightarrow> as' c)"

text \<open>A loop over an object with its iterator: keys and values in their order, which counts as an access to each.\<close>

definition object_items :: "'f config \<Rightarrow> ((string \<times> 'f config) list \<times> 'f config) cfg" where
  "object_items c = bindE (as_object c) (\<lambda>m.
     Inr (map (\<lambda>(k, e). (k, e_value e)) m, set_value (Object (map (\<lambda>(k, e). (k, access e)) m)) c))"

text \<open>\<open>get_or\<close> with several keys goes down through the objects.\<close>

definition put_value :: "string \<Rightarrow> 'f config \<Rightarrow> 'f config \<Rightarrow> 'f config" where
  "put_value key x c =
     (case c_value c of
        Object m \<Rightarrow> (case map_find m key of
                      None \<Rightarrow> c
                    | Some e \<Rightarrow> set_value (Object (map_set key (Entry x (e_nr e) (e_accessed e)) m)) c)
      | _ \<Rightarrow> c)"

fun get_or_path :: "('f config \<Rightarrow> 'a cfg) \<Rightarrow> string list \<Rightarrow> 'a \<Rightarrow> 'f config \<Rightarrow> ('a \<times> 'f config) cfg" where
  "get_or_path as' [] d c = bindE (as' c) (\<lambda>x. Inr (x, c))"
| "get_or_path as' (key # keys) d c =
     bindE (has_key key c) (\<lambda>found.
       if \<not> found then Inr (d, c)
       else bindE (lookup key c) (\<lambda>(v, c').
            bindE (get_or_path as' keys d v) (\<lambda>(x, v'). Inr (x, put_value key v' c'))))"


section \<open>Constructors and conversions of whole values\<close>

text \<open>A \<open>Config\<close> of an \<open>unsigned long long\<close>, of a list of values, and of a list of keys with values.\<close>

definition config_of_unsigned :: "64 word \<Rightarrow> 'f config cfg" where
  "config_of_unsigned i =
     (if i AND 0x8000000000000000 \<noteq> 0 then Inl (OnError None None ''Integer too large to fit into 63 bits'')
      else Inr (config_of (Integer (uint i))))"

definition config_array :: "'f config list \<Rightarrow> 'f config cfg" where
  "config_array xs = foldl (\<lambda>r x. bindE r (push_back x)) (make_array (config_of Uninitialized)) xs"

definition config_object :: "(string \<times> 'f config) list \<Rightarrow> 'f config cfg" where
  "config_object kvs =
     foldl (\<lambda>r (key, x). bindE r (\<lambda>c. bindE (lookup_or_add key c) (\<lambda>(dst, c'). Inr (put_value key (assign dst x) c'))))
       (make_object (config_of Uninitialized)) kvs"

text \<open>A \<open>Config\<close> of a vector and of a map, and \<open>Config::array\<close> of a container; \<open>conv\<close> makes a \<open>Config\<close> of one value.\<close>

definition config_of_vector :: "('a \<Rightarrow> 'f config) \<Rightarrow> 'a list \<Rightarrow> 'f config cfg" where
  "config_of_vector conv xs = foldl (\<lambda>r x. bindE r (push_back (conv x))) (make_array (config_of Uninitialized)) xs"

definition config_of_map :: "('a \<Rightarrow> 'f config) \<Rightarrow> (string, 'a) std_map \<Rightarrow> 'f config cfg" where
  "config_of_map conv kvs =
     foldl (\<lambda>r (key, x). bindE r (\<lambda>c. bindE (lookup_or_add key c) (\<lambda>(dst, c'). Inr (put_value key (assign dst (conv x)) c'))))
       (make_object (config_of Uninitialized)) kvs"

definition array_of_container :: "('a \<Rightarrow> 'f config) \<Rightarrow> 'a list \<Rightarrow> 'f config cfg" where
  "array_of_container conv xs = bindE (make_array (config_of Uninitialized)) (\<lambda>c. Inr (set_value (Array (map conv xs)) c))"

fun mapE :: "('a \<Rightarrow> 'b cfg) \<Rightarrow> 'a list \<Rightarrow> 'b list cfg" where
  "mapE f [] = Inr []"
| "mapE f (x # xs) = bindE (f x) (\<lambda>y. bindE (mapE f xs) (\<lambda>ys. Inr (y # ys)))"

text \<open>The conversions to \<open>std::vector\<close>, to \<open>std::array\<close> of \<open>n\<close> elements, and to \<open>std::pair\<close>.\<close>

definition as_vector :: "('f config \<Rightarrow> 'a cfg) \<Rightarrow> 'f config \<Rightarrow> 'a list cfg" where
  "as_vector as' c = bindE (as_array c) (mapE as')"

definition as_std_array :: "('f config \<Rightarrow> 'a cfg) \<Rightarrow> nat \<Rightarrow> 'f config \<Rightarrow> 'a list cfg" where
  "as_std_array as' n c = bindE (as_array c) (\<lambda>xs.
     if length xs \<noteq> n then raise_error c ''Array size mismatch.'' else mapE as' xs)"

definition as_pair :: "('f config \<Rightarrow> 'a cfg) \<Rightarrow> ('f config \<Rightarrow> 'b cfg) \<Rightarrow> 'f config \<Rightarrow> ('a \<times> 'b) cfg" where
  "as_pair as1 as2 c = bindE (as_array c) (\<lambda>xs.
     if length xs \<noteq> 2 then raise_error c ''Mismatched array length.''
     else bindE (as1 (xs ! 0)) (\<lambda>x. bindE (as2 (xs ! 1)) (\<lambda>y. Inr (x, y))))"


text \<open>The specialisations of \<open>get\<close>, one for each type that a \<open>Config\<close> is converted to, and \<open>get\<close> of a key.\<close>

datatype native_type = To_bool | To_integer bool nat | To_float | To_double | To_string | To_array

datatype 'f native = N_bool bool | N_integer int | N_float 'f | N_string string | N_array "'f config list"

fun get_as :: "(int \<Rightarrow> 'f) \<Rightarrow> (int \<Rightarrow> 'f) \<Rightarrow> ('f \<Rightarrow> 'f) \<Rightarrow> native_type \<Rightarrow> 'f config \<Rightarrow> 'f native cfg" where
  "get_as of_int' float_of_int float_of To_bool c = bindE (as_bool c) (\<lambda>x. Inr (N_bool x))"
| "get_as of_int' float_of_int float_of (To_integer is_signed w) c = bindE (as_integer is_signed w c) (\<lambda>x. Inr (N_integer x))"
| "get_as of_int' float_of_int float_of To_float c = bindE (as_float float_of_int float_of c) (\<lambda>x. Inr (N_float x))"
| "get_as of_int' float_of_int float_of To_double c = bindE (as_double of_int' c) (\<lambda>x. Inr (N_float x))"
| "get_as of_int' float_of_int float_of To_string c = bindE (as_string c) (\<lambda>x. Inr (N_string x))"
| "get_as of_int' float_of_int float_of To_array c = bindE (as_array c) (\<lambda>x. Inr (N_array x))"

definition get_key :: "('f config \<Rightarrow> 'a cfg) \<Rightarrow> string \<Rightarrow> 'f config \<Rightarrow> ('a \<times> 'f config) cfg" where
  "get_key as' key c = bindE (lookup key c) (\<lambda>(v, c'). bindE (as' v) (\<lambda>x. Inr (x, c')))"


section \<open>Whole trees\<close>

text \<open>
  \<open>deep_eq\<close>; the loop over two arrays compares \<open>a_array[i]\<close> with \<open>a_array[i]\<close>. That two values which share
  their array or object are equal at once is in \<open>Cfg_Memory\<close> (\<open>h_deep_eq\<close>), with a proof that it makes no difference
  where each number is equal to itself.
\<close>

lemma size_element: "Array xs = c_value c \<Longrightarrow> x \<in> set xs \<Longrightarrow> size x < size c"
proof -
  have "x \<in> set xs \<Longrightarrow> size x < size (Array xs)" by (induction xs) auto
  then show "Array xs = c_value c \<Longrightarrow> x \<in> set xs \<Longrightarrow> size x < size c" by (cases c) auto
qed

lemma size_member: "Object m = c_value c \<Longrightarrow> (k, e) \<in> set m \<Longrightarrow> size (e_value e) < size c"
proof -
  have "(k, e) \<in> set m \<Longrightarrow> size (e_value e) < size (Object m)"
  proof (induction m)
    case (Cons q m)
    then show ?case by (cases q; cases "snd q") auto
  qed simp
  then show "Object m = c_value c \<Longrightarrow> (k, e) \<in> set m \<Longrightarrow> size (e_value e) < size c" by (cases c) auto
qed

function deep_eq :: "('f \<Rightarrow> 'f \<Rightarrow> bool) \<Rightarrow> 'f config \<Rightarrow> 'f config \<Rightarrow> bool" where
  "deep_eq feq a b =
     (case (c_value a, c_value b) of
        (Null, Null) \<Rightarrow> True
      | (Bool x, Bool y) \<Rightarrow> x = y
      | (Integer x, Integer y) \<Rightarrow> x = y
      | (Float x, Float y) \<Rightarrow> feq x y
      | (Str x, Str y) \<Rightarrow> x = y
      | (Object m, Object m') \<Rightarrow>
          length m = length m' \<and>
          (\<forall>p\<in>set m. case map_find m' (fst p) of
             None \<Rightarrow> False | Some e' \<Rightarrow> deep_eq feq (e_value (snd p)) (e_value e'))
      | (Array xs, Array ys) \<Rightarrow> length xs = length ys \<and> (\<forall>x\<in>set xs. deep_eq feq x x)
      | _ \<Rightarrow> False)"
  by pat_completeness auto
termination
  by (relation "measure (\<lambda>(_, a, _). size a)") (auto intro: size_element size_member)

text \<open>\<open>deep_clone\<close>: a new object has the entries in their order, not yet accessed.\<close>

function deep_clone :: "'f config \<Rightarrow> 'f config" where
  "deep_clone c =
     (case c_value c of
        Object m \<Rightarrow> set_value (Object (map (\<lambda>(k, e). (k, Entry (deep_clone (e_value e)) (e_nr e) False)) m)) c
      | Array xs \<Rightarrow> set_value (Array (map deep_clone xs)) c
      | _ \<Rightarrow> c)"
  by pat_completeness auto
termination
  by (relation "measure size") (auto intro: size_element size_member)

function mark_accessed :: "bool \<Rightarrow> 'f config \<Rightarrow> 'f config" where
  "mark_accessed v c =
     (case c_value c of
        Object m \<Rightarrow> set_value (Object (map (\<lambda>(k, e). (k, Entry (mark_accessed v (e_value e)) (e_nr e) v)) m)) c
      | Array xs \<Rightarrow> set_value (Array (map (mark_accessed v) xs)) c
      | _ \<Rightarrow> c)"
  by pat_completeness auto
termination
  by (relation "measure (\<lambda>(_, c). size c)") (auto intro: size_element size_member)

text \<open>
  \<open>check_dangling\<close>: the keys of an object that were never accessed. An accessed value is checked
  itself, and its dangling keys are an error of its own that ends the search.
\<close>

definition first_error :: "unit cfg list \<Rightarrow> unit cfg" where
  "first_error rs = (case List.find (\<lambda>r. r \<noteq> Inr ()) rs of Some r \<Rightarrow> r | None \<Rightarrow> Inr ())"

function check_dangling :: "'f config \<Rightarrow> unit cfg" where
  "check_dangling c =
     (case c_value c of
        Object m \<Rightarrow>
          bindE (first_error (map (\<lambda>(k, e). if e_accessed e then check_dangling (e_value e) else Inr ()) m))
            (\<lambda>_. case filter (\<lambda>(k, e). \<not> e_accessed e) m of
                   [] \<Rightarrow> Inr ()
                 | ds \<Rightarrow> Inl (Dangling (map (\<lambda>(k, e). (c_doc (e_value e), c_line (e_value e), k)) ds)))
      | Array xs \<Rightarrow> first_error (map check_dangling xs)
      | _ \<Rightarrow> Inr ())"
  by pat_completeness auto
termination
  by (relation "measure size") (auto intro: size_element size_member)

text \<open>\<open>clear_doc\<close>, which goes through a tree with \<open>visit_configs\<close>; the iterators mark what they pass.\<close>

function clear_doc :: "'f config \<Rightarrow> 'f config" where
  "clear_doc c =
     (let c' = Config (c_value c) None (c_line c) (c_comments c) in
      case c_value c of
        Object m \<Rightarrow> set_value (Object (map (\<lambda>(k, e). (k, Entry (clear_doc (e_value e)) (e_nr e) True)) m)) c'
      | Array xs \<Rightarrow> set_value (Array (map clear_doc xs)) c'
      | _ \<Rightarrow> c')"
  by pat_completeness auto
termination
  by (relation "measure size") (auto intro: size_element size_member)

declare deep_eq.simps [simp del] deep_clone.simps [simp del] mark_accessed.simps [simp del]
  check_dangling.simps [simp del] clear_doc.simps [simp del]

end
