(* ===== verification/Cfg_State.thy ===== *)
theory Cfg_State
  imports Cfg_Value
begin

text \<open>
  What the parser of Configuru (\<open>struct Parser\<close>) works on: the options of a format, the
  position in the text, the documents it has opened, and its tables of characters. The position is the
  rest of the text together with the part of its line that was read; reading behind the end gives the
  null that ends a C string.
\<close>

section \<open>Format options\<close>

record FormatOptions =
  indentation :: string
  enforce_indentation :: bool
  end_with_newline :: bool
  empty_file :: bool
  implicit_top_object :: bool
  implicit_top_array :: bool
  single_line_comments :: bool
  block_comments :: bool
  nesting_block_comments :: bool
  opt_inf :: bool
  opt_nan :: bool
  hexadecimal_integers :: bool
  binary_integers :: bool
  unary_plus :: bool
  distinct_floats :: bool
  array_omit_comma :: bool
  array_trailing_comma :: bool
  identifiers_keys :: bool
  object_separator_equal :: bool
  allow_space_before_colon :: bool
  omit_colon_before_object :: bool
  object_omit_comma :: bool
  object_trailing_comma :: bool
  object_duplicate_keys :: bool
  object_align_values :: bool
  str_csharp_verbatim :: bool
  str_python_multiline :: bool
  str_32bit_unicode :: bool
  str_allow_tab :: bool
  allow_macro :: bool
  write_comments :: bool
  sort_keys :: bool
  write_uninitialized :: bool
  opt_mark_accessed :: bool

definition CFG :: FormatOptions where
  "CFG = \<lparr>indentation = [CHR 0x09], enforce_indentation = True, end_with_newline = True,
     empty_file = False, implicit_top_object = True, implicit_top_array = True,
     single_line_comments = True, block_comments = True, nesting_block_comments = True,
     opt_inf = True, opt_nan = True, hexadecimal_integers = True, binary_integers = True, unary_plus = True,
     distinct_floats = True, array_omit_comma = True, array_trailing_comma = True,
     identifiers_keys = True, object_separator_equal = False, allow_space_before_colon = False,
     omit_colon_before_object = False, object_omit_comma = True, object_trailing_comma = True,
     object_duplicate_keys = False, object_align_values = True,
     str_csharp_verbatim = True, str_python_multiline = True, str_32bit_unicode = True, str_allow_tab = True,
     allow_macro = True, write_comments = True, sort_keys = False, write_uninitialized = False,
     opt_mark_accessed = True\<rparr>"

definition JSON :: FormatOptions where
  "JSON = CFG\<lparr>indentation := [CHR 0x09], enforce_indentation := False,
     empty_file := False, implicit_top_object := False, implicit_top_array := False,
     single_line_comments := False, block_comments := False, nesting_block_comments := False,
     opt_inf := False, opt_nan := False, hexadecimal_integers := False, binary_integers := False,
     unary_plus := False, distinct_floats := True, array_omit_comma := False, array_trailing_comma := False,
     identifiers_keys := False, object_separator_equal := False, allow_space_before_colon := True,
     omit_colon_before_object := False, object_omit_comma := False, object_trailing_comma := False,
     object_duplicate_keys := False, object_align_values := True,
     str_csharp_verbatim := False, str_python_multiline := False, str_32bit_unicode := False,
     str_allow_tab := False, allow_macro := False, write_comments := False, sort_keys := False\<rparr>"

definition FORGIVING :: FormatOptions where
  "FORGIVING = CFG\<lparr>indentation := [CHR 0x09], enforce_indentation := False,
     empty_file := True, implicit_top_object := True, implicit_top_array := True,
     single_line_comments := True, block_comments := True, nesting_block_comments := True,
     opt_inf := True, opt_nan := True, hexadecimal_integers := True, binary_integers := True,
     unary_plus := True, distinct_floats := True, array_omit_comma := True, array_trailing_comma := True,
     identifiers_keys := True, object_separator_equal := True, allow_space_before_colon := True,
     omit_colon_before_object := True, object_omit_comma := True, object_trailing_comma := True,
     object_duplicate_keys := True, str_csharp_verbatim := True, str_python_multiline := True,
     str_32bit_unicode := True, str_allow_tab := True, allow_macro := True, write_comments := False,
     sort_keys := False\<rparr>"

definition compact :: "FormatOptions \<Rightarrow> bool" where
  "compact opts \<longleftrightarrow> indentation opts = []"


section \<open>State\<close>

record doc_info =
  filename :: string
  includers :: "(nat \<times> nat) list"

text \<open>The documents, known by their numbers, and \<open>ParseInfo::parsed_files\<close>.\<close>

record 'f parse_info =
  docs :: "doc_info list"
  parsed_files :: "(string, 'f config) std_map"

record 'f pstate =
  p_rest :: string
  p_line :: nat
  p_before :: string
  p_info :: "'f parse_info"

definition peek :: "nat \<Rightarrow> 'f pstate \<Rightarrow> char" where
  "peek k st = (if k < length (p_rest st) then p_rest st ! k else CHR 0x00)"

definition skip :: "nat \<Rightarrow> 'f pstate \<Rightarrow> 'f pstate" where
  "skip k st = st\<lparr>p_rest := drop k (p_rest st), p_before := p_before st @ take k (p_rest st)\<rparr>"

text \<open>Behind a newline of \<open>k\<close> characters a new line starts.\<close>

definition next_line :: "nat \<Rightarrow> 'f pstate \<Rightarrow> 'f pstate" where
  "next_line k st = st\<lparr>p_rest := drop k (p_rest st), p_before := [], p_line := p_line st + 1\<rparr>"

definition starts :: "string \<Rightarrow> 'f pstate \<Rightarrow> bool" where
  "starts s st \<longleftrightarrow> take (length s) (p_rest st) = s"

definition column :: "'f pstate \<Rightarrow> nat" where
  "column st = length (p_before st) + 1"

text \<open>Decimal numbers as \<open>std::to_string\<close> and \<open>printf\<close> write them.\<close>

definition show_int :: "int \<Rightarrow> string" where
  "show_int i = (if i < 0 then ''-'' @ dec_digits (nat (- i)) else dec_digits (nat i))"

text \<open>\<open>throw_error\<close>: the message with the line and a mark under the position.\<close>

definition orientation :: "'f pstate \<Rightarrow> string" where
  "orientation st =
     (let spread = (\<lambda>f c. if c = CHR 0x09 then ''    '' else [f c]);
          read_part = p_before st;
          behind = takeWhile (\<lambda>c. c \<noteq> CHR 0x00 \<and> c \<noteq> CHR 0x0D \<and> c \<noteq> CHR 0x0A) (p_rest st)
      in concat (map (spread (\<lambda>c. c)) (read_part @ behind)) @ [CHR 0x0A] @
         concat (map (spread (\<lambda>c. CHR 0x20)) read_part) @ ''^'')"

definition throw_error :: "nat \<Rightarrow> 'f pstate \<Rightarrow> string \<Rightarrow> 'a cfg" where
  "throw_error doc st desc =
     Inl (ParseError doc (p_line st) (column st) (desc @ [CHR 0x0A] @ orientation st))"

definition parse_assert :: "nat \<Rightarrow> 'f pstate \<Rightarrow> bool \<Rightarrow> string \<Rightarrow> unit cfg" where
  "parse_assert doc st b msg = (if b then Inr () else throw_error doc st msg)"

definition quote :: "char \<Rightarrow> string" where
  "quote c =
     (if c = CHR 0x00 then ''<eof>''
      else if c = CHR 0x20 then ''<space>''
      else if c = CHR 0x0A then [CHR 0x27, CHR 0x5C, CHR ''n'', CHR 0x27]
      else if c = CHR 0x09 then [CHR 0x27, CHR 0x5C, CHR ''t'', CHR 0x27]
      else if c = CHR 0x0D then [CHR 0x27, CHR 0x5C, CHR ''r'', CHR 0x27]
      else if c = CHR 0x08 then [CHR 0x27, CHR 0x5C, CHR ''b'', CHR 0x27]
      else [CHR 0x27, c, CHR 0x27])"

definition swallow :: "nat \<Rightarrow> char \<Rightarrow> 'f pstate \<Rightarrow> 'f pstate cfg" where
  "swallow doc c st = (if peek 0 st = c then Inr (skip 1 st) else throw_error doc st (''Expected '' @ quote c))"

definition throw_indentation_error :: "FormatOptions \<Rightarrow> nat \<Rightarrow> 'f pstate \<Rightarrow> int \<Rightarrow> int \<Rightarrow> unit cfg" where
  "throw_indentation_error opts doc st found expected =
     (if enforce_indentation opts
      then throw_error doc st (''Bad indentation: expected '' @ show_int found @ '' tabs, found '' @ show_int expected)
      else Inr ())"


text \<open>
  \<open>where_is\<close>: the position for a message, with the documents that include it
  (\<open>append_include_info\<close>). The recursion is as deep as the includes are nested; if it meets a document
  again it does not end, which is \<open>None\<close>.
\<close>

fun append_include_info :: "nat \<Rightarrow> doc_info list \<Rightarrow> nat \<Rightarrow> string \<Rightarrow> string option" where
  "append_include_info 0 ds doc indent = None"
| "append_include_info (Suc n) ds doc indent =
     (let incs = includers (ds ! doc);
          one = (\<lambda>(d, l). map_option
                   (\<lambda>s. indent @ filename (ds ! d) @ '':'' @ show_int (int l) @ s @ [CHR 0x0A])
                   (append_include_info n ds d (indent @ ''    '')))
      in if incs = [] then Some []
         else if list_all (\<lambda>i. one i \<noteq> None) incs
         then Some ('', included at:'' @ [CHR 0x0A] @ butlast (concat (map (\<lambda>i. the (one i)) incs)))
         else None)"

definition where_is :: "doc_info list \<Rightarrow> nat option \<Rightarrow> nat option \<Rightarrow> string option" where
  "where_is ds doc line =
     (let l = (case line of None \<Rightarrow> [] | Some n \<Rightarrow> '':'' @ show_int (int n)) in
      case doc of
        Some d \<Rightarrow> map_option (\<lambda>s. filename (ds ! d) @ l @ s @ '': '')
                    (append_include_info (length ds + 1) ds d ''    '')
      | None \<Rightarrow> Some (case line of None \<Rightarrow> [] | Some n \<Rightarrow> ''line '' @ show_int (int n) @ '': ''))"


section \<open>Characters\<close>

definition ident_starter :: "char \<Rightarrow> bool" where
  "ident_starter c \<longleftrightarrow> c = CHR ''_'' \<or> (CHR ''a'' \<le> c \<and> c \<le> CHR ''z'') \<or> (CHR ''A'' \<le> c \<and> c \<le> CHR ''Z'')"

definition ident_char :: "char \<Rightarrow> bool" where
  "ident_char c \<longleftrightarrow> ident_starter c \<or> (CHR ''0'' \<le> c \<and> c \<le> CHR ''9'')"

definition maybe_white :: "char \<Rightarrow> bool" where
  "maybe_white c \<longleftrightarrow> c \<in> {CHR 0x0A, CHR 0x0D, CHR 0x09, CHR 0x20, CHR ''/''}"

definition special_character :: "char \<Rightarrow> bool" where
  "special_character c \<longleftrightarrow> c \<in> {CHR 0x00, CHR 0x5C, CHR 0x22, CHR 0x0A, CHR 0x09}"

definition is_reserved_identifier :: "'f pstate \<Rightarrow> bool" where
  "is_reserved_identifier st =
     (if starts ''true'' st \<or> starts ''null'' st then \<not> ident_char (peek 4 st)
      else if starts ''false'' st then \<not> ident_char (peek 5 st) else False)"

end
