(* ===== verification/Cfg_Scan.thy ===== *)
theory Cfg_Scan
  imports Cfg_State
begin

text \<open>
  The parts of the parser that read characters: white space with comments, strings, numbers.
  Every loop ends, because it goes forward in the text.
\<close>

section \<open>Positions\<close>

named_theorems pos_simps \<open>the length of the rest of the text\<close>

abbreviation left :: "'f pstate \<Rightarrow> nat" where
  "left st \<equiv> length (p_rest st)"

lemma left_skip [simp, pos_simps]: "left (skip k st) = left st - k"
  by (simp add: skip_def)

lemma p_rest_skip [simp]: "p_rest (skip k st) = drop k (p_rest st)"
  by (simp add: skip_def)

lemma left_next_line [simp, pos_simps]: "left (next_line k st) = left st - k"
  by (simp add: next_line_def)

lemma peek_left [pos_simps]: "peek k st \<noteq> CHR 0x00 \<Longrightarrow> k < left st"
  by (auto simp: peek_def split: if_splits)

lemma peek_eq_left [dest]: "peek k st = c \<Longrightarrow> c \<noteq> CHR 0x00 \<Longrightarrow> k < left st"
  by (auto simp: peek_def split: if_splits)

lemma starts_left: "starts s st \<Longrightarrow> length s \<le> left st"
  by (metis length_take min.absorb_iff2 min.commute nle_le starts_def take_all_iff)

lemma bind_cfg_left:
  assumes "bindE x f = Inr y"
  obtains v where "x = Inr v" "f v = Inr y"
  using assms by (auto simp: bindE_eq_Inr)


section \<open>White space and comments\<close>

text \<open>The loop of a block comment, behind its \<open>/*\<close>; \<open>st0\<close> is where the comment starts.\<close>

function block_comment :: "FormatOptions \<Rightarrow> nat \<Rightarrow> 'f pstate \<Rightarrow> nat \<Rightarrow> 'f pstate \<Rightarrow> 'f pstate cfg" where
  "block_comment opts doc st0 nesting st =
     (if peek 0 st = CHR 0x00 then throw_error doc st0 ''Non-ending /* comment''
      else if starts ''/*'' st then
        if nesting_block_comments opts then block_comment opts doc st0 (nesting + 1) (skip 2 st)
        else throw_error doc (skip 2 st) ''Nesting comments (/* /* */ */) forbidden.''
      else if starts ''*/'' st then
        if nesting = 1 then Inr (skip 2 st) else block_comment opts doc st0 (nesting - 1) (skip 2 st)
      else if peek 0 st = CHR 0x0A then block_comment opts doc st0 nesting (next_line 1 st)
      else block_comment opts doc st0 nesting (skip 1 st))"
  by pat_completeness auto
termination
  by (relation "measure (\<lambda>(_, _, _, _, st). left st)") (auto dest: peek_left)

lemma throw_error_not_Inr [simp]: "throw_error doc st msg \<noteq> Inr x"
  by (simp add: throw_error_def)

declare block_comment.simps [simp del]

lemma block_comment_left:
  "block_comment opts doc st0 nesting st = Inr st' \<Longrightarrow> left st' \<le> left st"
proof (induction opts doc st0 nesting st rule: block_comment.induct)
  case (1 opts doc st0 nesting st)
  note step = "1.prems" [unfolded block_comment.simps [of opts doc st0 nesting st]]
  show ?case
  proof (cases "starts ''/*'' st \<or> starts ''*/'' st \<and> nesting \<noteq> 1")
    case True
    then show ?thesis using step "1.IH"(1) "1.IH"(2) by (auto split: if_splits intro: le_trans)
  next
    case False
    then show ?thesis using step "1.IH"(3) "1.IH"(4) by (auto split: if_splits intro: le_trans)
  qed
qed

lemma maybe_white_left: "maybe_white (peek 0 st) \<Longrightarrow> 0 < left st"
  by (auto simp: maybe_white_def peek_def split: if_splits)

text \<open>
  The loop of \<open>skip_white\<close>, with whether a newline was found, the comments and the indentation so far.
  The first result says that the loop ended with a return.
\<close>

function white_loop ::
  "FormatOptions \<Rightarrow> nat \<Rightarrow> bool \<Rightarrow> bool \<Rightarrow> int \<Rightarrow> string list \<Rightarrow> 'f pstate \<Rightarrow>
   (bool \<times> int \<times> string list \<times> 'f pstate) cfg" where
  "white_loop opts doc brk found ind cs st =
     (let c = peek 0 st; indentn = indentation opts in
      if \<not> maybe_white c then Inr (False, ind, cs, st)
      else if c = CHR 0x0A then
        if brk then Inr (True, 0, cs, next_line 1 st)
        else white_loop opts doc brk True 0 cs (next_line 1 st)
      else if c = CHR 0x0D then
        if peek 1 st \<noteq> CHR 0x0A
        then throw_error doc st (''CR with no LF. '' @ [CHR 0x5C] @ ''r only allowed before '' @ [CHR 0x5C] @ ''n.'')
        else if brk then Inr (True, 0, cs, next_line 2 st)
        else white_loop opts doc brk True 0 cs (next_line 2 st)
      else if indentn \<noteq> [] \<and> starts indentn st then
        if enforce_indentation opts \<and> indentn = [CHR 0x09] \<and> ind = -1
        then throw_error doc (skip (length indentn) st) ''Tabs should only occur on the start of a line!''
        else white_loop opts doc brk found (ind + 1) cs (skip (length indentn) st)
      else if c = CHR 0x09 then
        if enforce_indentation opts \<and> ind = -1
        then throw_error doc (skip 1 st) ''Tabs should only occur on the start of a line!''
        else white_loop opts doc brk found (ind + 1) cs (skip 1 st)
      else if c = CHR 0x20 then
        if found \<and> enforce_indentation opts
        then throw_error doc st
               (if indentn = [CHR 0x09]
                then ''Found a space at beginning of a line. Indentation must be done using tabs!''
                else ''Indentation should be a multiple of '' @ show_int (int (length indentn)) @ '' spaces.'')
        else white_loop opts doc brk found (-1) cs (skip 1 st)
      else if starts ''//'' st then
        if \<not> single_line_comments opts then throw_error doc st ''Single line comments forbidden.''
        else
          let body = takeWhile (\<lambda>d. d \<noteq> CHR 0x00 \<and> d \<noteq> CHR 0x0A) (drop 2 (p_rest st));
              st' = skip (2 + length body) st; cs' = cs @ [''//'' @ body]
          in if brk then Inr (True, 0, cs', st') else white_loop opts doc brk found 0 cs' st'
      else if starts ''/*'' st then
        if \<not> block_comments opts then throw_error doc st ''Block comments forbidden.''
        else bindE (block_comment opts doc st 1 (skip 2 st)) (\<lambda>st'.
          let cs' = cs @ [take (left st - left st') (p_rest st)]
          in if brk then Inr (True, -1, cs', st') else white_loop opts doc brk found (-1) cs' st')
      else Inr (False, ind, cs, st))"
  by pat_completeness auto
termination
  by (relation "measure (\<lambda>(_, _, _, _, _, _, st). left st)")
    (auto dest!: block_comment_left starts_left maybe_white_left)

declare white_loop.simps [simp del]

definition skip_white ::
  "FormatOptions \<Rightarrow> nat \<Rightarrow> bool \<Rightarrow> 'f pstate \<Rightarrow> (bool \<times> int \<times> string list \<times> 'f pstate) cfg" where
  "skip_white opts doc brk st = bindE (white_loop opts doc brk False 0 [] st) (\<lambda>(early, ind, cs, st').
     if early then Inr (True, ind, cs, st')
     else if left st' = left st then Inr (False, -1, cs, st')
     else Inr (True, ind, cs, st'))"

definition skip_white_ignore_comments ::
  "FormatOptions \<Rightarrow> nat \<Rightarrow> 'f pstate \<Rightarrow> (bool \<times> 'f pstate) cfg" where
  "skip_white_ignore_comments opts doc st =
     bindE (skip_white opts doc False st) (\<lambda>(did, _, _, st'). Inr (did, st'))"

definition skip_pre_white ::
  "FormatOptions \<Rightarrow> nat \<Rightarrow> 'f config \<Rightarrow> 'f pstate \<Rightarrow> ('f config \<times> int \<times> 'f pstate) cfg" where
  "skip_pre_white opts doc c st =
     (if \<not> maybe_white (peek 0 st) then Inr (c, -1, st)
      else bindE (skip_white opts doc False st) (\<lambda>(_, ind, cs, st').
        let cm = c_comments c in Inr (set_comments (cm\<lparr>cm_prefix := cm_prefix cm @ cs\<rparr>) c, ind, st')))"

definition skip_post_white ::
  "FormatOptions \<Rightarrow> nat \<Rightarrow> 'f config \<Rightarrow> 'f pstate \<Rightarrow> ('f config \<times> bool \<times> 'f pstate) cfg" where
  "skip_post_white opts doc c st =
     (if \<not> maybe_white (peek 0 st) then Inr (c, False, st)
      else bindE (skip_white opts doc True st) (\<lambda>(did, _, cs, st').
        let cm = c_comments c in Inr (set_comments (cm\<lparr>cm_postfix := cm_postfix cm @ cs\<rparr>) c, did, st')))"


section \<open>Strings\<close>

text \<open>A verbatim string of C#, behind its \<open>@"\<close>; \<open>acc\<close> is what was read of it.\<close>

function csharp_loop :: "nat \<Rightarrow> 'f pstate \<Rightarrow> string \<Rightarrow> 'f pstate \<Rightarrow> (string \<times> 'f pstate) cfg" where
  "csharp_loop doc st0 acc st =
     (if peek 0 st = CHR 0x00 then throw_error doc st0 ''Unterminated verbatim string''
      else if peek 0 st = CHR 0x0A then throw_error doc st ''Newline in verbatim string''
      else if peek 0 st = CHR 0x22 \<and> peek 1 st = CHR 0x22 then csharp_loop doc st0 (acc @ [CHR 0x22]) (skip 2 st)
      else if peek 0 st = CHR 0x22 then Inr (acc, skip 1 st)
      else csharp_loop doc st0 (acc @ [peek 0 st]) (skip 1 st))"
  by pat_completeness auto
termination
  by (relation "measure (\<lambda>(_, _, _, st). left st)") (auto dest: peek_left)

definition parse_c_sharp_string :: "FormatOptions \<Rightarrow> nat \<Rightarrow> 'f pstate \<Rightarrow> (string \<times> 'f pstate) cfg" where
  "parse_c_sharp_string opts doc st =
     bindE (parse_assert doc st (str_csharp_verbatim opts) ''C# @-style verbatim strings forbidden.'') (\<lambda>_.
     bindE (swallow doc (CHR ''@'') st) (\<lambda>st1.
     bindE (swallow doc (CHR 0x22) st1) (\<lambda>st2. csharp_loop doc st [] st2)))"

text \<open>A multi-line string of Python, behind its three quotes.\<close>

function python_loop :: "nat \<Rightarrow> 'f pstate \<Rightarrow> string \<Rightarrow> 'f pstate \<Rightarrow> (string \<times> 'f pstate) cfg" where
  "python_loop doc st0 acc st =
     (if peek 0 st = CHR 0x00 \<or> peek 1 st = CHR 0x00 \<or> peek 2 st = CHR 0x00
      then throw_error doc st0 ''Unterminated multiline string''
      else if peek 0 st = CHR 0x22 \<and> peek 1 st = CHR 0x22 \<and> peek 2 st = CHR 0x22 \<and> peek 3 st \<noteq> CHR 0x22
      then Inr (acc, skip 3 st)
      else if peek 0 st = CHR 0x0A then python_loop doc st0 (acc @ [peek 0 st]) (next_line 1 st)
      else python_loop doc st0 (acc @ [peek 0 st]) (skip 1 st))"
  by pat_completeness auto
termination
  by (relation "measure (\<lambda>(_, _, _, st). left st)") (auto dest: peek_left)

definition hex_digit :: "char \<Rightarrow> nat option" where
  "hex_digit c =
     (let n = of_char c in
      if 48 \<le> n \<and> n \<le> 57 then Some (n - 48)
      else if 97 \<le> n \<and> n \<le> 102 then Some (10 + n - 97)
      else if 65 \<le> n \<and> n \<le> 70 then Some (10 + n - 65)
      else None)"

definition digits_value :: "nat \<Rightarrow> nat list \<Rightarrow> nat" where
  "digits_value base ds = foldl (\<lambda>n d. n * base + d) 0 ds"

definition parse_hex :: "nat \<Rightarrow> nat \<Rightarrow> 'f pstate \<Rightarrow> (nat \<times> 'f pstate) cfg" where
  "parse_hex doc count st =
     (let ds = map (\<lambda>i. hex_digit (peek i st)) [0..<count] in
      if None \<in> set ds then throw_error doc st (''Expected hexadecimal digit, got '' @ quote (peek 0 st))
      else Inr (digits_value 16 (map the ds), skip count st))"

text \<open>\<open>encode_utf8\<close>; \<open>None\<close> is its result 0.\<close>

definition encode_utf8 :: "nat \<Rightarrow> string option" where
  "encode_utf8 c =
     (let tail = (\<lambda>n. char_of (0x80 OR (drop_bit n c AND 0x3F) :: nat)) in
      if c \<le> 0x7F then Some [char_of c]
      else if c \<le> 0x7FF then Some [char_of (0xC0 OR drop_bit 6 c), tail 0]
      else if c \<le> 0xFFFF then Some [char_of (0xE0 OR drop_bit 12 c), tail 6, tail 0]
      else if c \<le> 0x1FFFFF then Some [char_of (0xF0 OR drop_bit 18 c), tail 12, tail 6, tail 0]
      else if c \<le> 0x3FFFFFF
      then Some [char_of (0xF8 OR drop_bit 24 c), char_of (0x80 OR drop_bit 18 c), tail 12, tail 6, tail 0]
      else if c \<le> 0x7FFFFFFF
      then Some [char_of (0xFC OR drop_bit 30 c), tail 24, tail 18, tail 12, tail 6, tail 0]
      else None)"

definition push_codepoint :: "nat \<Rightarrow> string \<Rightarrow> nat \<Rightarrow> 'f pstate \<Rightarrow> (string \<times> 'f pstate) cfg" where
  "push_codepoint doc acc c st =
     (case encode_utf8 c of
        None \<Rightarrow> throw_error doc st ''Bad unicode codepoint''
      | Some bs \<Rightarrow> Inr (acc @ bs, st))"

text \<open>\<open>\uXXXX\<close>, behind the \<open>u\<close>, with a second one where the first is a high surrogate.\<close>

definition parse_unicode_16 :: "nat \<Rightarrow> string \<Rightarrow> 'f pstate \<Rightarrow> (string \<times> 'f pstate) cfg" where
  "parse_unicode_16 doc acc st =
     bindE (parse_hex doc 4 st) (\<lambda>(c, st1).
       if 0xD800 \<le> c \<and> c \<le> 0xDBFF then
         bindE (parse_assert doc st1 (peek 0 st1 = CHR 0x5C \<and> peek 1 st1 = CHR ''u'')
                  ''Missing second unicode surrogate.'') (\<lambda>_.
         bindE (parse_hex doc 4 (skip 2 st1)) (\<lambda>(c2, st2).
         bindE (parse_assert doc st2 (0xDC00 \<le> c2 \<and> c2 \<le> 0xDFFF) ''Invalid second unicode surrogate'') (\<lambda>_.
         push_codepoint doc acc (c * 2 ^ 10 + c2 - 0x35FDC00) st2)))
       else push_codepoint doc acc c st1)"

text \<open>An escape sequence, behind its backslash.\<close>

definition parse_escape :: "FormatOptions \<Rightarrow> nat \<Rightarrow> string \<Rightarrow> 'f pstate \<Rightarrow> (string \<times> 'f pstate) cfg" where
  "parse_escape opts doc acc st =
     (let c = peek 0 st in
      if c = CHR 0x22 \<or> c = CHR 0x5C \<or> c = CHR ''/'' then Inr (acc @ [c], skip 1 st)
      else if c = CHR ''b'' then Inr (acc @ [CHR 0x08], skip 1 st)
      else if c = CHR ''f'' then Inr (acc @ [CHR 0x0C], skip 1 st)
      else if c = CHR ''n'' then Inr (acc @ [CHR 0x0A], skip 1 st)
      else if c = CHR ''r'' then Inr (acc @ [CHR 0x0D], skip 1 st)
      else if c = CHR ''t'' then Inr (acc @ [CHR 0x09], skip 1 st)
      else if c = CHR ''u'' then parse_unicode_16 doc acc (skip 1 st)
      else if c = CHR ''U'' then
        bindE (parse_assert doc st (str_32bit_unicode opts) ([CHR 0x5C] @ ''U 32 bit unicodes forbidden.'')) (\<lambda>_.
        bindE (parse_hex doc 8 (skip 1 st)) (\<lambda>(u, st1). push_codepoint doc acc u st1))
      else throw_error doc st (''Unknown escape character '' @ quote c))"

lemma parse_hex_left: "parse_hex doc count st = Inr (n, st') \<Longrightarrow> left st' \<le> left st"
  by (auto simp: parse_hex_def Let_def split: if_splits)

lemma push_codepoint_left: "push_codepoint doc acc c st = Inr (s, st') \<Longrightarrow> left st' \<le> left st"
  by (auto simp: push_codepoint_def split: option.splits)

lemma parse_escape_left: "parse_escape opts doc acc st = Inr (s, st') \<Longrightarrow> left st' \<le> left st"
  by (auto simp: parse_escape_def parse_unicode_16_def Let_def parse_assert_def bindE_eq_Inr
      dest!: parse_hex_left push_codepoint_left split: if_splits)

text \<open>A quoted string, behind its quote. The first characters of the rest that need no care are taken at once.\<close>

function string_loop :: "FormatOptions \<Rightarrow> nat \<Rightarrow> 'f pstate \<Rightarrow> string \<Rightarrow> 'f pstate \<Rightarrow> (string \<times> 'f pstate) cfg" where
  "string_loop opts doc st0 acc st =
     (let safe = takeWhile (\<lambda>c. \<not> special_character c) (p_rest st);
          acc1 = acc @ safe; st1 = skip (length safe) st; c = peek 0 st1
      in if c = CHR 0x00 then throw_error doc st0 ''Unterminated string''
         else if c = CHR 0x22 then Inr (acc1, skip 1 st1)
         else if c = CHR 0x0A then throw_error doc st1 ''Newline in string''
         else if c = CHR 0x09 \<and> \<not> str_allow_tab opts
         then throw_error doc st1 ''Un-escaped tab not allowed in string''
         else if c = CHR 0x5C then
           bindE (parse_escape opts doc acc1 (skip 1 st1)) (\<lambda>(acc2, st2). string_loop opts doc st0 acc2 st2)
         else string_loop opts doc st0 (acc1 @ [c]) (skip 1 st1))"
  by pat_completeness auto
termination
  by (relation "measure (\<lambda>(_, _, _, _, st). left st)")
    (auto dest!: parse_escape_left peek_left)

declare csharp_loop.simps [simp del] python_loop.simps [simp del] string_loop.simps [simp del]

definition parse_string :: "FormatOptions \<Rightarrow> nat \<Rightarrow> 'f pstate \<Rightarrow> (string \<times> 'f pstate) cfg" where
  "parse_string opts doc st =
     (if peek 0 st = CHR ''@'' then parse_c_sharp_string opts doc st
      else bindE (parse_assert doc st (peek 0 st = CHR 0x22) (''Quote ('' @ [CHR 0x22] @ '') expected'')) (\<lambda>_.
        if peek 1 st = CHR 0x22 \<and> peek 2 st = CHR 0x22 then
          bindE (parse_assert doc st (str_python_multiline opts)
                   (''Python '' @ replicate 3 (CHR 0x22) @ ''-style multiline strings forbidden.'')) (\<lambda>_.
          python_loop doc st [] (skip 3 st))
        else string_loop opts doc st [] (skip 1 st)))"


section \<open>Numbers\<close>

text \<open>
  What the library does with floating-point numbers: \<open>strtod\<close> with the number of characters
  it reads, \<open>strtof\<close>, the conversion to \<open>long long\<close> (\<open>None\<close> where C++ leaves it undefined), and \<open>printf\<close>.
\<close>

record 'f floats =
  fl_strtod :: "string \<Rightarrow> 'f \<times> nat"
  fl_strtof :: "string \<Rightarrow> 'f"
  fl_inf :: 'f
  fl_neg_inf :: 'f
  fl_nan :: 'f
  fl_eq :: "'f \<Rightarrow> 'f \<Rightarrow> bool"
  fl_signbit :: "'f \<Rightarrow> bool"
  fl_isfinite :: "'f \<Rightarrow> bool"
  fl_of_int :: "int \<Rightarrow> 'f"
  fl_to_int :: "'f \<Rightarrow> int option"
  fl_to_float :: "'f \<Rightarrow> 'f"
  fl_printf :: "string \<Rightarrow> 'f \<Rightarrow> string"

text \<open>
  \<open>strtoull\<close> in base 2 or 16, with the number of characters it reads: white space, a sign, in base 16
  a prefix \<open>0x\<close> that a digit follows, digits. No digits: 0 characters.
\<close>

definition digit_in :: "nat \<Rightarrow> char \<Rightarrow> bool" where
  "digit_in base c \<longleftrightarrow> (case hex_digit c of None \<Rightarrow> False | Some d \<Rightarrow> d < base)"

definition strtoull :: "nat \<Rightarrow> string \<Rightarrow> nat \<times> nat" where
  "strtoull base s =
     (let s1 = dropWhile isspace s;
          neg = (s1 \<noteq> [] \<and> hd s1 = CHR ''-'');
          s2 = (if s1 \<noteq> [] \<and> (hd s1 = CHR ''-'' \<or> hd s1 = CHR ''+'') then tl s1 else s1);
          s3 = (if base = 16 \<and> length s2 > 2 \<and> s2 ! 0 = CHR ''0'' \<and> (s2 ! 1 = CHR ''x'' \<or> s2 ! 1 = CHR ''X'') \<and> digit_in 16 (s2 ! 2)
                then drop 2 s2 else s2);
          ds = takeWhile (digit_in base) s3;
          v = digits_value base (map (\<lambda>c. the (hex_digit c)) ds)
      in if ds = [] then (0, 0)
         else (if 2 ^ 64 \<le> v then 2 ^ 64 - 1 else if neg then (2 ^ 64 - v) mod 2 ^ 64 else v,
               length s - length s3 + length ds))"

text \<open>The number of characters that \<open>strtoll\<close> reads in base 10; its value is \<open>strtoll\<close>.\<close>

definition strtoll_len :: "string \<Rightarrow> nat" where
  "strtoll_len s =
     (let s1 = dropWhile isspace s;
          s2 = (if s1 \<noteq> [] \<and> (hd s1 = CHR ''-'' \<or> hd s1 = CHR ''+'') then tl s1 else s1);
          ds = takeWhile is_digit s2
      in if ds = [] then 0 else length s - length s2 + length ds)"

definition parse_int :: "nat \<Rightarrow> 'f pstate \<Rightarrow> ('f val \<times> 'f pstate) cfg" where
  "parse_int doc st =
     (let s = c_str (p_rest st); n = strtoll s; st' = skip (strtoll_len s) st in
      bindE (parse_assert doc st' (0 < strtoll_len s) ''Invalid integer'') (\<lambda>_.
      bindE (parse_assert doc st' (peek 0 st \<noteq> CHR ''0'' \<or> n = 0) ''Integer may not start with a zero'') (\<lambda>_.
      Inr (Integer n, st'))))"

definition parse_float :: "'f floats \<Rightarrow> nat \<Rightarrow> 'f pstate \<Rightarrow> ('f val \<times> 'f pstate) cfg" where
  "parse_float fl doc st =
     (let (f, n) = fl_strtod fl (c_str (p_rest st)); st' = skip n st in
      bindE (parse_assert doc st' (0 < n) ''Invalid number'') (\<lambda>_. Inr (Float f, st')))"

text \<open>
  Behind \<open>0x\<close> or \<open>0b\<close>; the value is cast to \<open>int64_t\<close> and multiplied with the sign.
\<close>

definition parse_prefixed :: "nat \<Rightarrow> int \<Rightarrow> nat \<Rightarrow> string \<Rightarrow> 'f pstate \<Rightarrow> ('f val \<times> 'f pstate) cfg" where
  "parse_prefixed base sign doc msg st =
     (let (v, n) = strtoull base (c_str (p_rest st)); st' = skip n st; i = signed_take_bit 63 (int v) in
      if sign = -1 \<and> i = - (2 ^ 63) then Inl (Undefined IntOverflow)
      else bindE (parse_assert doc st' (0 < n) msg) (\<lambda>_. Inr (Integer (sign * i), st')))"

text \<open>Up to 18 digits are an integer, more than 19 a floating-point number, 19 are compared.\<close>

definition is_float_text :: "int \<Rightarrow> string \<Rightarrow> char \<Rightarrow> bool" where
  "is_float_text sign ds next \<longleftrightarrow>
     (if next = CHR ''.'' \<or> next = CHR ''e'' \<or> next = CHR ''E'' then True
      else if length ds < 19 then False
      else if 19 < length ds then True
      else (if sign = 1 then ''9223372036854775807'' else ''9223372036854775808'') < ds)"

definition parse_finite_number ::
  "'f floats \<Rightarrow> FormatOptions \<Rightarrow> nat \<Rightarrow> 'f pstate \<Rightarrow> ('f val \<times> 'f pstate) cfg" where
  "parse_finite_number fl opts doc st =
     bindE (parse_assert doc st (peek 0 st = CHR ''+'' \<longrightarrow> unary_plus opts) ''Prefixing numbers with + is forbidden.'') (\<lambda>_.
     let st1 = (if peek 0 st = CHR ''+'' then skip 1 st else st);
         sign = (if peek 0 st1 = CHR ''-'' then -1 else 1);
         st2 = (if peek 0 st1 = CHR ''-'' then skip 1 st1 else st1)
     in bindE (parse_assert doc st2 (peek 0 st2 \<noteq> CHR ''+'' \<and> peek 0 st2 \<noteq> CHR ''-'') ''Duplicate sign'') (\<lambda>_.
     if starts ''0x'' st2 then
       bindE (parse_assert doc st2 (hexadecimal_integers opts) ''Hexadecimal numbers forbidden.'') (\<lambda>_.
       parse_prefixed 16 sign doc ''Missing hexaxdecimal digits after 0x'' (skip 2 st2))
     else if starts ''0b'' st2 then
       bindE (parse_assert doc st2 (binary_integers opts) ''Binary numbers forbidden.'') (\<lambda>_.
       parse_prefixed 2 sign doc ''Missing binary digits after 0b'' (skip 2 st2))
     else
       let ds = takeWhile is_digit (p_rest st2) in
       if is_float_text sign ds (peek (length ds) st2) then parse_float fl doc st else parse_int doc st))"

end
