(* ===== verification/Cfg_Parser.thy ===== *)
theory Cfg_Parser
  imports Cfg_Scan
begin

text \<open>
  The parser of Configuru proper: values, arrays, objects, \<open>#include\<close> and the top level. The functions
  that call \<open>parse_value\<close> take it as an argument; \<open>parse_value\<close> takes fuel and gives it to the loops. The
  indentation \<open>_indentation\<close> is an argument. Reading a file is an argument as well; it answers with the
  message of the error or with the text.
\<close>

type_synonym 'f value_parser =
  "nat \<Rightarrow> int \<Rightarrow> 'f config \<Rightarrow> 'f pstate \<Rightarrow> ('f config \<times> bool \<times> 'f pstate) cfg"

type_synonym files = "string \<Rightarrow> string + string"

section \<open>Arrays\<close>

definition check_indentation :: "FormatOptions \<Rightarrow> nat \<Rightarrow> 'f pstate \<Rightarrow> int \<Rightarrow> int \<Rightarrow> unit cfg" where
  "check_indentation opts doc st expected line_indentation =
     (if 0 \<le> line_indentation \<and> expected \<noteq> line_indentation
      then throw_indentation_error opts doc st expected line_indentation else Inr ())"

definition prefix_comments :: "string list \<Rightarrow> 'f config" where
  "prefix_comments cs = set_comments (no_comments\<lparr>cm_prefix := cs\<rparr>) (config_of Uninitialized)"

text \<open>
  What follows a value in an array or an object: white space whose comments go to the next value, and
  a comma. The result is the value, whether something separates it from the next, whether that is a comma, the
  comments, and the state before the comma and behind it.
\<close>

definition after_value ::
  "FormatOptions \<Rightarrow> nat \<Rightarrow> 'f config \<Rightarrow> bool \<Rightarrow> 'f pstate \<Rightarrow>
   ('f config \<times> bool \<times> bool \<times> string list \<times> 'f pstate \<times> 'f pstate) cfg" where
  "after_value opts doc v has_separator st =
     bindE (skip_white opts doc False st) (\<lambda>(_, _, cs, comma_state).
       if peek 0 comma_state = CHR '','' then
         bindE (skip_post_white opts doc v (skip 1 comma_state)) (\<lambda>(v', _, st').
         Inr (v', True, True, cs, comma_state, st'))
       else Inr (v, has_separator, False, cs, comma_state, comma_state))"

text \<open>The check of the commas; \<open>close\<close> is the bracket or brace that may end the list.\<close>

definition check_comma ::
  "nat \<Rightarrow> char \<Rightarrow> bool \<Rightarrow> bool \<Rightarrow> bool \<Rightarrow> bool \<Rightarrow> 'f pstate \<Rightarrow> 'f pstate \<Rightarrow> unit cfg" where
  "check_comma doc close trailing omit has_separator has_comma comma_state st =
     (if peek 0 st = CHR 0x00 \<or> peek 0 st = close
      then parse_assert doc comma_state (\<not> has_comma \<or> trailing) ''Trailing comma forbidden.''
      else if omit then parse_assert doc st has_separator (''Expected a space, newline, comma or '' @ [close])
      else parse_assert doc st has_comma (''Expected a comma or '' @ [close]))"

text \<open>
  The loop over the elements, with those read so far and the comments in front of the next one. The
  result has the comments in front of the bracket.
\<close>

primrec array_loop ::
  "nat \<Rightarrow> 'f value_parser \<Rightarrow> FormatOptions \<Rightarrow> nat \<Rightarrow> int \<Rightarrow> 'f config list \<Rightarrow> string list \<Rightarrow> 'f pstate \<Rightarrow>
   ('f config list \<times> string list \<times> 'f pstate) cfg" where
  "array_loop 0 pv opts doc indent xs cs st = Inl OutOfFuel"
| "array_loop (Suc n) pv opts doc indent xs cs st =
     bindE (skip_pre_white opts doc (prefix_comments cs) st) (\<lambda>(v, line_indentation, st1).
     if peek 0 st1 = CHR '']'' then
       bindE (check_indentation opts doc st1 (indent - 1) line_indentation) (\<lambda>_.
       Inr (xs, cm_prefix (c_comments v), st1))
     else if peek 0 st1 = CHR 0x00 then Inr (xs, cm_prefix (c_comments v), st1)
     else
       bindE (check_indentation opts doc st1 indent line_indentation) (\<lambda>_.
       bindE (parse_assert doc st1 (\<not> (ident_starter (peek 0 st1) \<and> \<not> is_reserved_identifier st1))
                ''Found identifier; expected value. Did you mean to use a {object} rather than a [array]?'') (\<lambda>_.
       bindE (pv doc indent v st1) (\<lambda>(v1, sep, st2).
       bindE (after_value opts doc v1 sep st2) (\<lambda>(v2, has_separator, has_comma, cs', comma_state, st3).
       bindE (check_comma doc (CHR '']'') (array_trailing_comma opts) (array_omit_comma opts)
                has_separator has_comma comma_state st3) (\<lambda>_.
       array_loop n pv opts doc indent (xs @ [v2]) cs' st3))))))"

text \<open>The array that the loop filled.\<close>

definition array_of :: "'f config \<Rightarrow> 'f config list \<Rightarrow> string list \<Rightarrow> 'f config cfg" where
  "array_of c xs cs =
     bindE (make_array c) (\<lambda>c1. let c2 = set_value (Array xs) c1 in
     Inr (if cs = [] then c2 else set_comments ((c_comments c2)\<lparr>cm_pre_end_brace := cs\<rparr>) c2))"

definition parse_array ::
  "nat \<Rightarrow> 'f value_parser \<Rightarrow> FormatOptions \<Rightarrow> nat \<Rightarrow> int \<Rightarrow> 'f config \<Rightarrow> 'f pstate \<Rightarrow> ('f config \<times> 'f pstate) cfg" where
  "parse_array n pv opts doc indent dst st =
     bindE (swallow doc (CHR ''['') st) (\<lambda>st1.
     bindE (array_loop n pv opts doc (indent + 1) [] [] st1) (\<lambda>(xs, cs, st2).
     bindE (array_of dst xs cs) (\<lambda>dst'.
     bindE (parse_assert doc st (peek 0 st2 = CHR '']'') ''Non-terminated array'') (\<lambda>_.
     Inr (dst', skip 1 st2)))))"


section \<open>Objects\<close>

definition parse_key :: "FormatOptions \<Rightarrow> nat \<Rightarrow> 'f pstate \<Rightarrow> (string \<times> 'f pstate) cfg" where
  "parse_key opts doc st =
     (if ident_starter (peek 0 st) \<and> \<not> is_reserved_identifier st then
        bindE (parse_assert doc st (identifiers_keys opts) ''You need to surround keys with quotes'') (\<lambda>_.
        let key = takeWhile ident_char (p_rest st) in Inr (key, skip (length key) st))
      else if peek 0 st = CHR 0x22 \<or> peek 0 st = CHR ''@'' then parse_string opts doc st
      else throw_error doc st
             (''Object key expected (either an identifier or a quoted string), got '' @ quote (peek 0 st)))"

text \<open>The error for a key that is there already; naming its position may not end (\<open>where_is\<close>).\<close>

definition check_duplicate ::
  "FormatOptions \<Rightarrow> nat \<Rightarrow> 'f pstate \<Rightarrow> string \<Rightarrow> (string, 'f entry) std_map \<Rightarrow> unit cfg" where
  "check_duplicate opts doc st key m =
     (case map_find m key of
        None \<Rightarrow> Inr ()
      | Some e \<Rightarrow>
          if object_duplicate_keys opts then Inr ()
          else (case where_is (docs (p_info st)) (c_doc (e_value e)) (c_line (e_value e)) of
                  None \<Rightarrow> Inl OutOfFuel
                | Some w \<Rightarrow> throw_error doc st
                    (''Duplicate key: '' @ [CHR 0x22] @ key @ [CHR 0x22] @ ''. Already set at '' @ w)))"

definition parse_colon :: "FormatOptions \<Rightarrow> nat \<Rightarrow> 'f pstate \<Rightarrow> 'f pstate cfg" where
  "parse_colon opts doc st =
     bindE (skip_white_ignore_comments opts doc st) (\<lambda>(space_after_key, st1).
     let c = peek 0 st1 in
     if c = CHR '':'' \<or> object_separator_equal opts \<and> c = CHR ''='' then
       bindE (parse_assert doc st1 (allow_space_before_colon opts \<or> c \<noteq> CHR '':'' \<or> \<not> space_after_key)
                ''No space allowed before colon'') (\<lambda>_.
       bindE (skip_white_ignore_comments opts doc (skip 1 st1)) (\<lambda>(_, st2). Inr st2))
     else if omit_colon_before_object opts \<and> (c = CHR ''{'' \<or> c = CHR ''#'') then Inr st1
     else if object_separator_equal opts \<and> omit_colon_before_object opts
     then throw_error doc st1
            (''Expected one of '' @ [CHR 0x27] @ ''='' @ [CHR 0x27] @ '', '' @ [CHR 0x27] @ '':'' @ [CHR 0x27] @ '', '' @
             [CHR 0x27] @ ''{'' @ [CHR 0x27] @ '' or '' @ [CHR 0x27] @ ''#'' @ [CHR 0x27] @ '' after object key'')
     else throw_error doc st1 ''Expected : after object key'')"

primrec object_loop ::
  "nat \<Rightarrow> 'f value_parser \<Rightarrow> FormatOptions \<Rightarrow> nat \<Rightarrow> int \<Rightarrow> (string, 'f entry) std_map \<Rightarrow> string list \<Rightarrow>
   'f pstate \<Rightarrow> ((string, 'f entry) std_map \<times> string list \<times> 'f pstate) cfg" where
  "object_loop 0 pv opts doc indent m cs st = Inl OutOfFuel"
| "object_loop (Suc n) pv opts doc indent m cs st =
     bindE (skip_pre_white opts doc (prefix_comments cs) st) (\<lambda>(v, line_indentation, st1).
     if peek 0 st1 = CHR ''}'' then
       bindE (check_indentation opts doc st1 (indent - 1) line_indentation) (\<lambda>_.
       Inr (m, cm_prefix (c_comments v), st1))
     else if peek 0 st1 = CHR 0x00 then Inr (m, cm_prefix (c_comments v), st1)
     else
       bindE (check_indentation opts doc st1 indent line_indentation) (\<lambda>_.
       bindE (parse_key opts doc st1) (\<lambda>(key, st2).
       bindE (check_duplicate opts doc st1 key m) (\<lambda>_.
       bindE (parse_colon opts doc st2) (\<lambda>st3.
       bindE (pv doc indent v st3) (\<lambda>(v1, sep, st4).
       bindE (after_value opts doc v1 sep st4) (\<lambda>(v2, has_separator, has_comma, cs', comma_state, st5).
       bindE (check_comma doc (CHR ''}'') (object_trailing_comma opts) (object_omit_comma opts)
                has_separator has_comma comma_state st5) (\<lambda>_.
       object_loop n pv opts doc indent (map_insert key (Entry v2 (length m) False) m) cs' st5))))))))"

definition object_of :: "'f config \<Rightarrow> (string, 'f entry) std_map \<Rightarrow> string list \<Rightarrow> 'f config cfg" where
  "object_of c m cs =
     bindE (make_object c) (\<lambda>c1. let c2 = set_value (Object m) c1 in
     Inr (if cs = [] then c2 else set_comments ((c_comments c2)\<lparr>cm_pre_end_brace := cs\<rparr>) c2))"

definition parse_object ::
  "nat \<Rightarrow> 'f value_parser \<Rightarrow> FormatOptions \<Rightarrow> nat \<Rightarrow> int \<Rightarrow> 'f config \<Rightarrow> 'f pstate \<Rightarrow> ('f config \<times> 'f pstate) cfg" where
  "parse_object n pv opts doc indent dst st =
     bindE (swallow doc (CHR ''{'') st) (\<lambda>st1.
     bindE (object_loop n pv opts doc (indent + 1) [] [] st1) (\<lambda>(m, cs, st2).
     bindE (object_of dst m cs) (\<lambda>dst'.
     bindE (parse_assert doc st (peek 0 st2 = CHR ''}'') ''Non-terminated object'') (\<lambda>_.
     Inr (dst', skip 1 st2)))))"


section \<open>The top level\<close>

text \<open>Whether the text is the inside of an object; the position is the one before.\<close>

definition top_is_object :: "FormatOptions \<Rightarrow> nat \<Rightarrow> 'f pstate \<Rightarrow> bool cfg" where
  "top_is_object opts doc st =
     (if \<not> implicit_top_object opts then Inr False
      else bindE (skip_white_ignore_comments opts doc st) (\<lambda>(_, st1).
        if ident_starter (peek 0 st1) \<and> \<not> is_reserved_identifier st1 then Inr True
        else if peek 0 st1 = CHR 0x22 \<or> peek 0 st1 = CHR ''@'' then
          bindE (parse_string opts doc st1) (\<lambda>(_, st2).
          bindE (skip_white_ignore_comments opts doc st2) (\<lambda>(_, st3).
          Inr (peek 0 st3 = CHR '':'' \<or> peek 0 st3 = CHR ''='')))
        else Inr False))"

text \<open>An array with one element is that element, and without elements it is an empty file.\<close>

definition finish_array :: "FormatOptions \<Rightarrow> nat \<Rightarrow> 'f config \<Rightarrow> 'f pstate \<Rightarrow> 'f config cfg" where
  "finish_array opts doc ret st =
     (case c_value ret of
        Array [] \<Rightarrow>
          if empty_file opts
          then Inr (if has_comments ret then set_comments (c_comments ret) (config_of (Object []))
                    else config_of (Object []))
          else throw_error doc st ''Empty file''
      | Array [first] \<Rightarrow>
          Inr (if has_comments ret
               then set_comments (append_comments (c_comments first) (c_comments ret)) first else first)
      | _ \<Rightarrow> Inr ret)"

definition top_level ::
  "nat \<Rightarrow> 'f value_parser \<Rightarrow> FormatOptions \<Rightarrow> nat \<Rightarrow> 'f pstate \<Rightarrow> ('f config \<times> 'f pstate) cfg" where
  "top_level n pv opts doc st =
     bindE (top_is_object opts doc st) (\<lambda>is_object.
     let ret = tag doc (p_line st) (config_of Uninitialized) in
     bindE (if is_object
            then bindE (object_loop n pv opts doc 0 [] [] st) (\<lambda>(m, cs, st1).
                 bindE (object_of ret m cs) (\<lambda>ret1. Inr (ret1, st1)))
            else bindE (array_loop n pv opts doc 0 [] [] st) (\<lambda>(xs, cs, st1).
                 bindE (array_of ret xs cs) (\<lambda>ret1.
                 bindE (parse_assert doc st1 (length xs \<le> 1 \<or> implicit_top_array opts)
                          ''Multiple values not allowed without enclosing []'') (\<lambda>_. Inr (ret1, st1)))))
       (\<lambda>(ret1, st1).
     bindE (skip_post_white opts doc ret1 st1) (\<lambda>(ret2, _, st2).
     bindE (parse_assert doc st2 (peek 0 st2 = CHR 0x00) ''Expected EoF'') (\<lambda>_.
     bindE (if is_object then Inr ret2 else finish_array opts doc ret2 st2) (\<lambda>ret3.
     Inr (ret3, st2))))))"

text \<open>The constructor of \<open>Parser\<close>, with its assertion, and \<open>top_level\<close>.\<close>

definition start :: "string \<Rightarrow> 'f parse_info \<Rightarrow> 'f pstate" where
  "start text info = \<lparr>p_rest = text, p_line = 1, p_before = [], p_info = info\<rparr>"

definition parse_text ::
  "nat \<Rightarrow> 'f value_parser \<Rightarrow> FormatOptions \<Rightarrow> nat \<Rightarrow> string \<Rightarrow> 'f parse_info \<Rightarrow> ('f config \<times> 'f parse_info) cfg" where
  "parse_text n pv opts doc text info =
     (if indentation opts = [] \<and> enforce_indentation opts then Inl (Undefined AssertFailed)
      else bindE (top_level n pv opts doc (start text info)) (\<lambda>(c, st). Inr (c, p_info st)))"


section \<open>Macros\<close>

text \<open>The path behind its quote or bracket, where \<open>st0\<close> is.\<close>

definition include_path :: "nat \<Rightarrow> char \<Rightarrow> 'f pstate \<Rightarrow> (string \<times> 'f pstate) cfg" where
  "include_path doc terminator st0 =
     (let st = skip 1 st0;
          path = takeWhile (\<lambda>c. c \<notin> {CHR 0x00, terminator, CHR 0x0A}) (p_rest st);
          st1 = skip (length path) st
      in if peek 0 st1 = CHR 0x00 then throw_error doc st0 ''Unterminated include path''
         else if peek 0 st1 = terminator then Inr (path, skip 1 st1)
         else throw_error doc st1 ''Newline in string'')"

text \<open>A relative path starts in the directory of the document.\<close>

definition relative_path :: "string \<Rightarrow> string \<Rightarrow> string" where
  "relative_path my_path path = rev (dropWhile (\<lambda>c. c \<noteq> CHR ''/'') (rev my_path)) @ path"

definition add_includer :: "nat \<times> nat \<Rightarrow> nat \<Rightarrow> doc_info list \<Rightarrow> doc_info list" where
  "add_includer inc d ds = ds[d := (ds ! d)\<lparr>includers := includers (ds ! d) @ [inc]\<rparr>]"

text \<open>
  A file that was included before gives the same value; else it is read and parsed with the value parser
  \<open>pv\<close>, and known from then on.
\<close>

definition include_file ::
  "nat \<Rightarrow> 'f value_parser \<Rightarrow> files \<Rightarrow> FormatOptions \<Rightarrow> nat \<Rightarrow> string \<Rightarrow> 'f config \<Rightarrow> 'f pstate \<Rightarrow> ('f config \<times> 'f pstate) cfg" where
  "include_file n pv fs opts doc path dst st =
     (let info = p_info st in
      case map_find (parsed_files info) path of
        None \<Rightarrow>
          let child = length (docs info);
              info1 = info\<lparr>docs := docs info @ [\<lparr>filename = path, includers = [(doc, p_line st)]\<rparr>]\<rparr>
          in (case fs path of
                Inl msg \<Rightarrow> Inl (OnError None None msg)
              | Inr contents \<Rightarrow>
                  bindE (parse_text n pv opts child contents info1) (\<lambda>(c, info2).
                  let dst' = assign dst c;
                      old = (case map_find (parsed_files info2) path of None \<Rightarrow> config_of Uninitialized | Some o' \<Rightarrow> o')
                  in Inr (dst', st\<lparr>p_info := info2\<lparr>parsed_files := map_set path (assign old dst') (parsed_files info2)\<rparr>\<rparr>)))
      | Some c \<Rightarrow>
          (case c_doc c of
             None \<Rightarrow> Inl (Undefined NullDeref)
           | Some d \<Rightarrow> Inr (assign dst c, st\<lparr>p_info := info\<lparr>docs := add_includer (doc, p_line st) d (docs info)\<rparr>\<rparr>)))"

definition parse_macro ::
  "nat \<Rightarrow> 'f value_parser \<Rightarrow> files \<Rightarrow> FormatOptions \<Rightarrow> nat \<Rightarrow> 'f config \<Rightarrow> 'f pstate \<Rightarrow> ('f config \<times> 'f pstate) cfg" where
  "parse_macro n pv fs opts doc dst st =
     bindE (parse_assert doc st (allow_macro opts) ''#macros forbidden.'') (\<lambda>_.
     bindE (parse_assert doc st (starts ''#include'' st) (''Expected '' @ [CHR 0x27] @ ''#include'' @ [CHR 0x27])) (\<lambda>_.
     bindE (skip_white_ignore_comments opts doc (skip 8 st)) (\<lambda>(_, st1).
     bindE (parse_assert doc st1 (peek 0 st1 = CHR 0x22 \<or> peek 0 st1 = CHR ''<'')
              (''Expected '' @ [CHR 0x22] @ '' or <'')) (\<lambda>_.
     let absolute = (peek 0 st1 = CHR ''<'') in
     bindE (include_path doc (if absolute then CHR ''>'' else CHR 0x22) st1) (\<lambda>(path, st2).
     include_file n pv fs opts doc
       (if absolute then path else relative_path (filename (docs (p_info st2) ! doc)) path) dst st2)))))"


section \<open>Values\<close>

text \<open>A keyword: its letters and a character that cannot continue it.\<close>

definition keyword :: "string \<Rightarrow> string \<Rightarrow> 'f val \<Rightarrow> nat \<Rightarrow> 'f pstate \<Rightarrow> ('f val \<times> 'f pstate) cfg" where
  "keyword w msg v doc st =
     bindE (parse_assert doc st (starts w st) msg) (\<lambda>_.
     bindE (parse_assert doc st (\<not> ident_char (peek (length w) st)) msg) (\<lambda>_. Inr (v, skip (length w) st)))"

definition special_float :: "string \<Rightarrow> string \<Rightarrow> bool \<Rightarrow> string \<Rightarrow> 'f \<Rightarrow> nat \<Rightarrow> 'f pstate \<Rightarrow> ('f val \<times> 'f pstate) cfg" where
  "special_float w msg allowed forbidden f doc st =
     bindE (parse_assert doc st (\<not> ident_char (peek (length w) st)) msg) (\<lambda>_.
     bindE (parse_assert doc st allowed forbidden) (\<lambda>_. Inr (Float f, skip (length w) st)))"

definition parse_number :: "'f floats \<Rightarrow> FormatOptions \<Rightarrow> nat \<Rightarrow> 'f pstate \<Rightarrow> ('f val \<times> 'f pstate) cfg" where
  "parse_number fl opts doc st =
     (if starts ''-inf'' st
      then special_float ''-inf'' ''Expected -inf'' (opt_inf opts) ''infinity forbidden.'' (fl_neg_inf fl) doc st
      else if starts ''+inf'' st
      then special_float ''+inf'' ''Expected +inf'' (opt_inf opts) ''infinity forbidden.'' (fl_inf fl) doc st
      else if starts ''+NaN'' st
      then special_float ''+NaN'' ''Expected +NaN'' (opt_nan opts) ''NaN (Not a Number) forbidden.'' (fl_nan fl) doc st
      else parse_finite_number fl opts doc st)"

definition parse_scalar :: "'f floats \<Rightarrow> FormatOptions \<Rightarrow> nat \<Rightarrow> 'f pstate \<Rightarrow> ('f val \<times> 'f pstate) cfg" where
  "parse_scalar fl opts doc st =
     (let c = peek 0 st; quoted = (\<lambda>w. ''Expected '' @ [CHR 0x27] @ w @ [CHR 0x27]) in
      if c = CHR 0x22 \<or> c = CHR ''@'' then bindE (parse_string opts doc st) (\<lambda>(s, st'). Inr (Str s, st'))
      else if c = CHR ''n'' then keyword ''null'' (quoted ''null'') Null doc st
      else if c = CHR ''t'' then keyword ''true'' (quoted ''true'') (Bool True) doc st
      else if c = CHR ''f'' then keyword ''false'' (quoted ''false'') (Bool False) doc st
      else if c = CHR ''+'' \<or> c = CHR ''-'' \<or> c = CHR ''.'' \<or> is_digit c then parse_number fl opts doc st
      else throw_error doc st ''Expected value'')"

primrec parse_value :: "nat \<Rightarrow> 'f floats \<Rightarrow> files \<Rightarrow> FormatOptions \<Rightarrow> 'f value_parser" where
  "parse_value 0 fl fs opts doc indent dst st = Inl OutOfFuel"
| "parse_value (Suc n) fl fs opts doc indent dst st =
     bindE (skip_pre_white opts doc dst st) (\<lambda>(dst1, line_indentation, st1).
     let dst2 = tag doc (p_line st1) dst1; pv = parse_value n fl fs opts in
     bindE (check_indentation opts doc st1 (indent - 1) line_indentation) (\<lambda>_.
     bindE (if peek 0 st1 = CHR ''{'' then parse_object n pv opts doc indent dst2 st1
            else if peek 0 st1 = CHR ''['' then parse_array n pv opts doc indent dst2 st1
            else if peek 0 st1 = CHR ''#'' then parse_macro n pv fs opts doc dst2 st1
            else bindE (parse_scalar fl opts doc st1) (\<lambda>(v, st2). Inr (assign dst2 (config_of v), st2)))
       (\<lambda>(dst3, st3). skip_post_white opts doc dst3 st3)))"

text \<open>\<open>parse_string(str, options, name)\<close> and \<open>parse_file(path, options)\<close>.\<close>

definition new_info :: "string \<Rightarrow> 'f parse_info" where
  "new_info name = \<lparr>docs = [\<lparr>filename = name, includers = []\<rparr>], parsed_files = []\<rparr>"

definition parse_config :: "nat \<Rightarrow> 'f floats \<Rightarrow> files \<Rightarrow> FormatOptions \<Rightarrow> string \<Rightarrow> string \<Rightarrow> 'f config cfg" where
  "parse_config n fl fs opts name text =
     bindE (parse_text n (parse_value n fl fs opts) opts 0 text (new_info name)) (\<lambda>(c, _). Inr c)"

definition parse_file :: "nat \<Rightarrow> 'f floats \<Rightarrow> files \<Rightarrow> FormatOptions \<Rightarrow> string \<Rightarrow> 'f config cfg" where
  "parse_file n fl fs opts path =
     (case fs path of Inl msg \<Rightarrow> Inl (OnError None None msg)
      | Inr text \<Rightarrow> parse_config n fl fs opts path text)"

end
