(* ===== verification/Cfg_Writer.thy ===== *)
theory Cfg_Writer
  imports Cfg_Parser
begin

text \<open>
  The writer of Configuru (\<open>struct Writer\<close>, \<open>dump_string\<close>, \<open>dump_file\<close>). A function gives the
  text it appends to \<open>_out\<close>, together with the files it writes for the parts of a value that come
  from another document.
\<close>

type_synonym writer_text = "string \<times> (string \<times> string) list"

definition put_text :: "string \<Rightarrow> writer_text cfg" where
  "put_text s = Inr (s, [])"

definition append_written :: "writer_text \<Rightarrow> writer_text \<Rightarrow> writer_text" where
  "append_written a b = (fst a @ fst b, snd a @ snd b)"

definition around :: "string \<Rightarrow> writer_text cfg \<Rightarrow> string \<Rightarrow> writer_text cfg" where
  "around a w b = bindE w (\<lambda>(s, fs). Inr (a @ s @ b, fs))"

text \<open>The items of a list one after the other; the first error ends it.\<close>

fun collect :: "('a \<Rightarrow> writer_text cfg) \<Rightarrow> 'a list \<Rightarrow> writer_text cfg" where
  "collect f [] = put_text []"
| "collect f (x # xs) = bindE (f x) (\<lambda>a. bindE (collect f xs) (\<lambda>b. Inr (append_written a b)))"

lemma collect_cong [fundef_cong]:
  "xs = ys \<Longrightarrow> (\<And>x. x \<in> set ys \<Longrightarrow> f x = g x) \<Longrightarrow> collect f xs = collect g ys"
  by (induction xs arbitrary: ys) auto


section \<open>Strings\<close>

definition hex_char :: "nat \<Rightarrow> char" where
  "hex_char n = (if n < 10 then char_of (48 + n) else char_of (97 + n - 10))"

definition write_unicode_16 :: "nat \<Rightarrow> string" where
  "write_unicode_16 c =
     [CHR 0x5C, CHR ''u'', hex_char (drop_bit 12 c AND 0xF), hex_char (drop_bit 8 c AND 0xF),
      hex_char (drop_bit 4 c AND 0xF), hex_char (c AND 0xF)]"

definition safe_character :: "char \<Rightarrow> bool" where
  "safe_character c \<longleftrightarrow> 0x20 \<le> (of_char c :: nat) \<and> c \<noteq> CHR 0x5C \<and> c \<noteq> CHR 0x22"

definition write_character :: "char \<Rightarrow> string" where
  "write_character c =
     (if safe_character c then [c]
      else if c = CHR 0x5C then [CHR 0x5C, CHR 0x5C]
      else if c = CHR 0x22 then [CHR 0x5C, CHR 0x22]
      else if c = CHR 0x00 then [CHR 0x5C, CHR ''0'']
      else if c = CHR 0x08 then [CHR 0x5C, CHR ''b'']
      else if c = CHR 0x0C then [CHR 0x5C, CHR ''f'']
      else if c = CHR 0x0A then [CHR 0x5C, CHR ''n'']
      else if c = CHR 0x0D then [CHR 0x5C, CHR ''r'']
      else if c = CHR 0x09 then [CHR 0x5C, CHR ''t'']
      else write_unicode_16 (of_char c))"

definition write_quoted_string :: "string \<Rightarrow> string" where
  "write_quoted_string s = [CHR 0x22] @ concat (map write_character s) @ [CHR 0x22]"

definition write_verbatim_string :: "string \<Rightarrow> string" where
  "write_verbatim_string s = replicate 3 (CHR 0x22) @ s @ replicate 3 (CHR 0x22)"

definition write_string :: "FormatOptions \<Rightarrow> string \<Rightarrow> string" where
  "write_string opts s =
     (if \<not> str_python_multiline opts \<or> CHR 0x0A \<notin> set s \<or> length s < 240 \<or> sublist (replicate 3 (CHR 0x22)) s
      then write_quoted_string s else write_verbatim_string s)"

definition is_identifier :: "string \<Rightarrow> bool" where
  "is_identifier s \<longleftrightarrow> (let p = c_str s in p \<noteq> [] \<and> ident_starter (hd p) \<and> list_all ident_char (tl p))"

definition write_key :: "FormatOptions \<Rightarrow> string \<Rightarrow> string" where
  "write_key opts s = (if identifiers_keys opts \<and> is_identifier s then s else write_string opts s)"


section \<open>Numbers\<close>

text \<open>\<open>write_number\<close>; the conversion of a number out of the range of \<open>long long\<close> is undefined in C++.\<close>

definition write_number :: "'f floats \<Rightarrow> FormatOptions \<Rightarrow> 'f \<Rightarrow> string cfg" where
  "write_number fl opts x =
     (let printed = (\<lambda>f. fl_printf fl f x);
          reads_back = (\<lambda>f. fl_eq fl (fst (fl_strtod fl (printed f))) x)
      in
      if distinct_floats opts \<and> fl_eq fl x (fl_of_int fl 0) \<and> fl_signbit fl x then Inr ''-0.0''
      else case fl_to_int fl x of
        None \<Rightarrow> Inl (Undefined IntOverflow)
      | Some i \<Rightarrow>
          if fl_eq fl (fl_of_int fl i) x
          then Inr (show_int i @ (if distinct_floats opts then ''.0'' else []))
          else if fl_isfinite fl x then
            let f = fl_to_float fl x in
            if fl_eq fl f x then
              Inr (if fl_eq fl (fl_strtof fl (fl_printf fl ''%g'' f)) f then fl_printf fl ''%g'' f else fl_printf fl ''%.8g'' f)
            else if reads_back ''%.1g'' then Inr (printed ''%.1g'')
            else if reads_back ''%g'' then Inr (printed ''%g'')
            else if reads_back ''%.16g'' then Inr (printed ''%.16g'')
            else Inr (printed ''%.17g'')
          else if fl_eq fl x (fl_inf fl) then
            if opt_inf opts then Inr ''+inf''
            else Inl (OnError None None (''Can'' @ [CHR 0x27] @ ''t encode infinity''))
          else if fl_eq fl x (fl_neg_inf fl) then
            if opt_inf opts then Inr ''-inf''
            else Inl (OnError None None (''Can'' @ [CHR 0x27] @ ''t encode negative infinity''))
          else
            if opt_nan opts then Inr ''+NaN''
            else Inl (OnError None None (''Can'' @ [CHR 0x27] @ ''t encode NaN'')))"


section \<open>Layout\<close>

definition write_indent :: "FormatOptions \<Rightarrow> nat \<Rightarrow> string" where
  "write_indent opts n = (if compact opts then [] else concat (replicate n (indentation opts)))"

definition write_prefix_comments :: "FormatOptions \<Rightarrow> nat \<Rightarrow> string list \<Rightarrow> string" where
  "write_prefix_comments opts n cs =
     (if \<not> write_comments opts \<or> cs = [] then []
      else [CHR 0x0A] @ concat (map (\<lambda>c. write_indent opts n @ c @ [CHR 0x0A]) cs))"

definition write_postfix_comments :: "FormatOptions \<Rightarrow> string list \<Rightarrow> string" where
  "write_postfix_comments opts cs = (if write_comments opts then concat (map (\<lambda>c. CHR 0x20 # c) cs) else [])"

definition is_simple :: "FormatOptions \<Rightarrow> 'f config \<Rightarrow> bool" where
  "is_simple opts c \<longleftrightarrow>
     (case c_value c of Array xs \<Rightarrow> xs = [] | Object m \<Rightarrow> m = [] | _ \<Rightarrow> True) \<and>
     \<not> (write_comments opts \<and> has_comments c)"

definition is_number :: "'f config \<Rightarrow> bool" where
  "is_number c \<longleftrightarrow> (case c_value c of Integer _ \<Rightarrow> True | Float _ \<Rightarrow> True | _ \<Rightarrow> False)"

definition is_simple_array :: "FormatOptions \<Rightarrow> 'f config list \<Rightarrow> bool" where
  "is_simple_array opts xs \<longleftrightarrow>
     length xs \<le> 16 \<and> list_all is_number xs \<or>
     length xs \<le> 4 \<and> list_all (is_simple opts) xs \<and>
     sum_list (map (\<lambda>v. (case c_value v of Str s \<Rightarrow> 2 + length s | _ \<Rightarrow> 5) + 2) xs) < 60"

text \<open>
  The entries in the order they are written. \<open>std::sort\<close> leaves open the order of entries with equal numbers, which there
  are only after an \<open>erase\<close>; here they come in the order of their keys, one of the orders the code may take.
\<close>

definition write_order :: "FormatOptions \<Rightarrow> (string, 'f entry) std_map \<Rightarrow> (string \<times> 'f entry) list" where
  "write_order opts m = (if sort_keys opts then sort_key fst m else sort_key (\<lambda>p. e_nr (snd p)) m)"

lemma set_write_order [simp]: "set (write_order opts m) = set m"
  by (simp add: write_order_def)

definition longest_key :: "(string, 'f entry) std_map \<Rightarrow> nat" where
  "longest_key m = fold max (map (\<lambda>p. length (fst p)) m) 0"

definition last_of :: "'a list \<Rightarrow> nat \<Rightarrow> bool" where
  "last_of xs i \<longleftrightarrow> i + 1 = length xs"

definition after_element :: "FormatOptions \<Rightarrow> bool \<Rightarrow> bool \<Rightarrow> string" where
  "after_element opts simple is_last =
     (if simple then
        if compact opts then (if is_last then [] else '','')
        else if array_omit_comma opts \<or> is_last then '' '' else '', ''
      else if array_omit_comma opts \<or> is_last then [CHR 0x0A] else [CHR '','', CHR 0x0A])"

definition after_member :: "FormatOptions \<Rightarrow> bool \<Rightarrow> string" where
  "after_member opts is_last =
     (if compact opts then (if is_last then [] else '','')
      else if array_omit_comma opts \<or> is_last then [CHR 0x0A] else [CHR '','', CHR 0x0A])"

text \<open>What stands between a key and its value.\<close>

definition after_key :: "FormatOptions \<Rightarrow> (string, 'f entry) std_map \<Rightarrow> string \<Rightarrow> 'f config \<Rightarrow> string" where
  "after_key opts m key v =
     (if compact opts then '':''
      else if omit_colon_before_object opts \<and> (case c_value v of Object m' \<Rightarrow> m' \<noteq> [] | _ \<Rightarrow> False) then '' ''
      else '': '' @ (if object_align_values opts then replicate (longest_key m - length key) (CHR 0x20) else []))"


section \<open>Values\<close>

lemma in_set_enumerate: "(i, x) \<in> set (enumerate n xs) \<Longrightarrow> x \<in> set xs"
  by (metis enumerate_eq_zip in_set_zipE)

text \<open>
  \<open>write_value\<close>, with the document of the writer. A value of another document is written to its own file
  where macros are allowed. \<open>write_prefix\<close> says whether the comments in front of it are written here; \<open>write_postfix\<close> is
  true in every call.
\<close>

function write_value ::
  "'f floats \<Rightarrow> doc_info list \<Rightarrow> FormatOptions \<Rightarrow> nat option \<Rightarrow> nat \<Rightarrow> bool \<Rightarrow> 'f config \<Rightarrow> writer_text cfg"
  and write_object_contents ::
  "'f floats \<Rightarrow> doc_info list \<Rightarrow> FormatOptions \<Rightarrow> nat option \<Rightarrow> nat \<Rightarrow> 'f config \<Rightarrow> writer_text cfg"
  and dump_string :: "'f floats \<Rightarrow> doc_info list \<Rightarrow> FormatOptions \<Rightarrow> 'f config \<Rightarrow> writer_text cfg" where
  "write_value fl ds opts doc indent write_prefix c =
     (if allow_macro opts \<and> c_doc c \<noteq> None \<and> c_doc c \<noteq> doc then
        let name = filename (ds ! the (c_doc c)) in
        bindE (dump_string fl ds opts c) (\<lambda>(text, fs). Inr (''#include <'' @ name @ ''>'', fs @ [(name, text)]))
      else
        let cm = c_comments c; before_brace = write_prefix_comments opts (indent + 1) (cm_pre_end_brace cm) in
        around (if write_prefix then write_prefix_comments opts indent (cm_prefix cm) else [])
          (case c_value c of
             Null \<Rightarrow> put_text ''null''
           | Bool b \<Rightarrow> put_text (if b then ''true'' else ''false'')
           | Integer i \<Rightarrow> put_text (show_int i)
           | Float x \<Rightarrow> bindE (write_number fl opts x) put_text
           | Str s \<Rightarrow> put_text (write_string opts s)
           | Array xs \<Rightarrow>
               if xs = [] \<and> cm_pre_end_brace cm = [] then put_text (if compact opts then ''[]'' else ''[ ]'')
               else if compact opts \<or> is_simple_array opts xs then
                 around (if compact opts then ''['' else ''[ '')
                   (collect (\<lambda>(i, x). around [] (write_value fl ds opts doc (indent + 1) False x)
                                         (after_element opts True (last_of xs i)))
                     (enumerate 0 xs))
                   (before_brace @ '']'')
               else
                 around (''['' @ [CHR 0x0A])
                   (collect (\<lambda>(i, x). around (write_prefix_comments opts (indent + 1) (cm_prefix (c_comments x)) @ write_indent opts (indent + 1))
                                         (write_value fl ds opts doc (indent + 1) False x)
                                         (after_element opts False (last_of xs i)))
                     (enumerate 0 xs))
                   (before_brace @ write_indent opts indent @ '']'')
           | Object m \<Rightarrow>
               if m = [] \<and> cm_pre_end_brace cm = [] then put_text (if compact opts then ''{}'' else ''{ }'')
               else around (if compact opts then ''{'' else ''{'' @ [CHR 0x0A])
                      (write_object_contents fl ds opts doc (indent + 1) c)
                      (write_indent opts indent @ ''}'')
           | _ \<Rightarrow>
               if write_uninitialized opts then put_text ''UNINITIALIZED''
               else Inl (OnError None None ''Failed to serialize uninitialized Config''))
          (write_postfix_comments opts (cm_postfix cm)))"
| "write_object_contents fl ds opts doc indent c =
     (case c_value c of
        Object m \<Rightarrow>
          around []
            (collect (\<lambda>(i, (key, e)).
                let v = e_value e in
                around (write_prefix_comments opts indent (cm_prefix (c_comments v)) @ write_indent opts indent @
                        write_key opts key @ after_key opts m key v)
                  (write_value fl ds opts doc indent False v)
                  (after_member opts (last_of m i)))
              (enumerate 0 (write_order opts m)))
            (write_prefix_comments opts indent (cm_pre_end_brace (c_comments c)))
      | _ \<Rightarrow> wrong_type ''object'' c)"
| "dump_string fl ds opts c =
     (case c_value c of
        Object m \<Rightarrow>
          if implicit_top_object opts then write_object_contents fl ds opts (c_doc c) 0 c
          else around [] (write_value fl ds opts (c_doc c) 0 True c)
                 (if end_with_newline opts \<and> \<not> compact opts then [CHR 0x0A] else [])
      | _ \<Rightarrow> around [] (write_value fl ds opts (c_doc c) 0 True c)
               (if end_with_newline opts \<and> \<not> compact opts then [CHR 0x0A] else []))"
  by pat_completeness auto
termination
proof (relation "inv_image (less_than <*lex*> less_than)
    (\<lambda>x. case x of
       Inl (_, _, _, doc, _, _, c) \<Rightarrow> (size c, if c_doc c = doc then 2 else 4)
     | Inr (Inl (_, _, _, _, _, c)) \<Rightarrow> (size c, 1)
     | Inr (Inr (_, _, _, c)) \<Rightarrow> (size c, 3 :: nat))")
qed (auto dest!: in_set_enumerate intro: size_element size_member)

declare write_value.simps [simp del] write_object_contents.simps [simp del] dump_string.simps [simp del]

text \<open>A written value is marked as accessed, if the format says so; and \<open>dump_file\<close>.\<close>

definition dump :: "'f floats \<Rightarrow> doc_info list \<Rightarrow> FormatOptions \<Rightarrow> 'f config \<Rightarrow> (writer_text \<times> 'f config) cfg" where
  "dump fl ds opts c =
     bindE (dump_string fl ds opts c) (\<lambda>w. Inr (w, if opt_mark_accessed opts then mark_accessed True c else c))"

definition dump_file ::
  "'f floats \<Rightarrow> doc_info list \<Rightarrow> string \<Rightarrow> FormatOptions \<Rightarrow> 'f config \<Rightarrow> ((string \<times> string) list \<times> 'f config) cfg" where
  "dump_file fl ds path opts c =
     bindE (dump fl ds opts c) (\<lambda>((text, fs), c'). Inr (fs @ [(path, text)], c'))"

text \<open>The output operator: JSON in which every value can be written, on one line less.\<close>

definition stream_text :: "'f floats \<Rightarrow> doc_info list \<Rightarrow> 'f config \<Rightarrow> writer_text cfg" where
  "stream_text fl ds c =
     dump_string fl ds (JSON\<lparr>opt_inf := True, opt_nan := True, write_uninitialized := True, end_with_newline := False,
       opt_mark_accessed := False\<rparr>) c"

end
