(* ===== verification/Cfg_Termination.thy ===== *)
theory Cfg_Termination
  imports Cfg_Parser
begin

text \<open>
  The fuel of the parser: without \<open>#include\<close> one more than the length of the text is enough, because
  every value and every round of a loop reads a character; with \<open>#include\<close> no fuel may be enough, because a
  file is known only when it was read to its end.
\<close>

section \<open>Steps that go forward\<close>

text \<open>
  A step from \<open>st\<close> \<open>goes\<close> by \<open>k\<close> characters, if it does not run out of fuel and, where it succeeds, leaves at
  least \<open>k\<close> characters less and the documents as they are; \<open>pos\<close> is the state in its result.
\<close>

definition goes :: "nat \<Rightarrow> ('a \<Rightarrow> 'f pstate) \<Rightarrow> 'f pstate \<Rightarrow> 'a cfg \<Rightarrow> bool" where
  "goes k pos st r \<longleftrightarrow> r \<noteq> Inl OutOfFuel \<and> (\<forall>x. r = Inr x \<longrightarrow> left (pos x) + k \<le> left st \<and> p_info (pos x) = p_info st)"

named_theorems goes_rules \<open>which steps go forward\<close>

lemma p_info_steps [simp]: "p_info (skip k st) = p_info st" "p_info (next_line k st) = p_info st"
  by (simp_all add: skip_def next_line_def)

lemma goes_Inr [goes_rules]: "left (pos x) + k \<le> left st \<Longrightarrow> p_info (pos x) = p_info st \<Longrightarrow> goes k pos st (Inr x)"
  by (simp add: goes_def)

lemma goes_error [goes_rules]: "e \<noteq> OutOfFuel \<Longrightarrow> goes k pos st (Inl e)"
  by (simp add: goes_def)

lemma goes_throw [goes_rules]: "goes k pos st (throw_error doc st' msg)"
  by (simp add: goes_def throw_error_def)

lemma goes_bind:
  "goes k p st x \<Longrightarrow> (\<And>v. x = Inr v \<Longrightarrow> left (p v) + k \<le> left st \<Longrightarrow> p_info (p v) = p_info st \<Longrightarrow> goes j q (p v) (f v)) \<Longrightarrow> m \<le> k + j \<Longrightarrow>
   goes m q st (bindE x f)"
  by (cases x) (fastforce simp: goes_def)+

lemma goes_assert [goes_rules]:
  "(b \<Longrightarrow> goes k pos st (f ())) \<Longrightarrow> goes k pos st (bindE (parse_assert doc st' b msg) f)"
  by (simp add: goes_def parse_assert_def throw_error_def)

lemma goes_check [goes_rules]:
  "goes k pos st (f ()) \<Longrightarrow> goes k pos st (bindE (check_indentation opts doc st' e l) f)"
  by (auto simp: goes_def check_indentation_def throw_indentation_error_def throw_error_def)

lemma goes_mono: "goes k pos st r \<Longrightarrow> m \<le> k \<Longrightarrow> goes m pos st r"
  by (fastforce simp: goes_def)

lemma goes_from: "goes k pos st' r \<Longrightarrow> left st' + m \<le> left st + k \<Longrightarrow> p_info st' = p_info st \<Longrightarrow> goes m pos st r"
  by (fastforce simp: goes_def)

lemma goesD: "goes k pos st r \<Longrightarrow> r = Inr x \<Longrightarrow> left (pos x) + k \<le> left st \<and> p_info (pos x) = p_info st"
  by (simp add: goes_def)

lemma goes_if [goes_rules]:
  "(b \<Longrightarrow> goes k pos st x) \<Longrightarrow> (\<not> b \<Longrightarrow> goes k pos st y) \<Longrightarrow> goes k pos st (if b then x else y)"
  by simp

lemmas goes_left = maybe_white_left starts_left peek_left

lemma goes_block_comment: "goes 0 id st (block_comment opts doc st0 nesting st)"
proof (induction "left st" arbitrary: st nesting rule: less_induct)
  case less
  note IH = goes_from [OF less]
  show ?case
    by (subst block_comment.simps) (intro goes_rules IH; auto dest!: goes_left)
qed

lemma goes_white_loop: "goes 0 (\<lambda>x. snd (snd (snd x))) st (white_loop opts doc brk found ind cs st)"
proof (induction "left st" arbitrary: st found ind cs rule: less_induct)
  case less
  note IH = goes_from [OF less]
  show ?case
    by (subst white_loop.simps, unfold Let_def)
      (intro goes_rules IH goes_bind [OF goes_from [where m = 1, OF goes_block_comment]]; auto dest!: goes_left)
qed

lemma goes_skip_white: "goes 0 (\<lambda>x. snd (snd (snd x))) st (skip_white opts doc brk st)"
  unfolding skip_white_def
  by (rule goes_bind [OF goes_white_loop]) (auto intro!: goes_rules)

lemma goes_ignore_comments: "goes 0 snd st (skip_white_ignore_comments opts doc st)"
  unfolding skip_white_ignore_comments_def
  by (rule goes_bind [OF goes_skip_white]) (auto intro!: goes_rules)

lemma goes_pre_white: "goes 0 (\<lambda>x. snd (snd x)) st (skip_pre_white opts doc c st)"
  unfolding skip_pre_white_def
  by (intro goes_rules goes_bind [OF goes_skip_white]) (auto intro!: goes_rules simp: Let_def)

lemma goes_post_white: "goes 0 (\<lambda>x. snd (snd x)) st (skip_post_white opts doc c st)"
  unfolding skip_post_white_def
  by (intro goes_rules goes_bind [OF goes_skip_white]) (auto intro!: goes_rules simp: Let_def)


section \<open>Strings and numbers\<close>

lemma goes_csharp_loop: "goes 0 snd st (csharp_loop doc st0 acc st)"
proof (induction "left st" arbitrary: st acc rule: less_induct)
  case less
  note IH = goes_from [OF less]
  show ?case
    by (subst csharp_loop.simps) (intro goes_rules IH; auto dest!: goes_left)
qed

lemma goes_python_loop: "goes 0 snd st (python_loop doc st0 acc st)"
proof (induction "left st" arbitrary: st acc rule: less_induct)
  case less
  note IH = goes_from [OF less]
  show ?case
    by (subst python_loop.simps) (intro goes_rules IH; auto dest!: goes_left)
qed

lemma goes_parse_hex: "goes 0 snd st (parse_hex doc count st)"
  unfolding parse_hex_def Let_def by (intro goes_rules) auto

lemma goes_push_codepoint: "goes 0 snd st (push_codepoint doc acc c st)"
  unfolding push_codepoint_def by (cases "encode_utf8 c") (auto intro!: goes_rules)

lemma goes_unicode: "goes 0 snd st (parse_unicode_16 doc acc st)"
proof -
  have "goes 0 snd (snd v) (case v of (c, st1) \<Rightarrow>
      if 0xD800 \<le> c \<and> c \<le> 0xDBFF then
         bindE (parse_assert doc st1 (peek 0 st1 = CHR 0x5C \<and> peek 1 st1 = CHR ''u'')
                  ''Missing second unicode surrogate.'') (\<lambda>_.
         bindE (parse_hex doc 4 (skip 2 st1)) (\<lambda>(c2, st2).
         bindE (parse_assert doc st2 (0xDC00 \<le> c2 \<and> c2 \<le> 0xDFFF) ''Invalid second unicode surrogate'') (\<lambda>_.
         push_codepoint doc acc (c * 2 ^ 10 + c2 - 0x35FDC00) st2)))
       else push_codepoint doc acc c st1)" for v :: "nat \<times> 'a pstate"
    by (cases v)
      (auto intro!: goes_rules goes_push_codepoint goes_bind [OF goes_from [where m = 0, OF goes_parse_hex]])
  then show ?thesis
    unfolding parse_unicode_16_def by (rule goes_bind [OF goes_parse_hex]) simp
qed

lemma goes_escape: "goes 0 snd st (parse_escape opts doc acc st)"
  unfolding parse_escape_def Let_def
  by (intro goes_rules goes_from [OF goes_unicode] goes_bind [OF goes_from [where m = 0, OF goes_parse_hex]])
    (auto intro: goes_push_codepoint)

lemma goes_string_loop: "goes 1 snd st (string_loop opts doc st0 acc st)"
proof (induction "left st" arbitrary: st acc rule: less_induct)
  case less
  note IH = goes_from [OF less]
  show ?case
    by (subst string_loop.simps, unfold Let_def split_def)
      (intro goes_rules IH goes_bind [OF goes_from [where m = 1, OF goes_escape]]; auto dest!: goes_left)
qed

lemma goes_swallow: "c \<noteq> CHR 0x00 \<Longrightarrow> goes 1 (\<lambda>s. s) st (swallow doc c st)"
  unfolding swallow_def by (intro goes_rules; auto dest!: goes_left)

lemma goes_parse_string: "goes 1 snd st (parse_string opts doc st)"
proof -
  have csharp: "goes 1 snd st (parse_c_sharp_string opts doc st)"
    unfolding parse_c_sharp_string_def
    by (intro goes_rules goes_bind [OF goes_swallow, where j = 0] goes_from [where m = 0, OF goes_csharp_loop]) auto
  show ?thesis
    unfolding parse_string_def
    by (intro goes_rules csharp goes_from [OF goes_string_loop] goes_from [OF goes_python_loop]; auto dest!: goes_left)
qed

lemma goes_parse_int: "0 < left st \<Longrightarrow> goes 1 snd st (parse_int doc st)"
  unfolding parse_int_def Let_def by (intro goes_rules) (simp_all del: length_greater_0_conv)

lemma goes_parse_float: "0 < left st \<Longrightarrow> goes 1 snd st (parse_float fl doc st)"
  unfolding parse_float_def Let_def split_def by (intro goes_rules) (simp_all del: length_greater_0_conv)

lemma goes_prefixed: "goes 0 snd st (parse_prefixed base sign doc msg st)"
  unfolding parse_prefixed_def Let_def split_def by (intro goes_rules) auto

lemma goes_finite_number: "peek 0 st \<noteq> CHR 0x00 \<Longrightarrow> goes 1 snd st (parse_finite_number fl opts doc st)"
  unfolding parse_finite_number_def Let_def
  by (intro goes_rules goes_parse_int goes_parse_float goes_from [OF goes_prefixed]; auto dest!: goes_left)

lemma goes_number: "peek 0 st \<noteq> CHR 0x00 \<Longrightarrow> goes 1 snd st (parse_number fl opts doc st)"
  unfolding parse_number_def special_float_def
  by (intro goes_rules goes_finite_number; auto dest!: goes_left)

lemma goes_keyword: "w \<noteq> [] \<Longrightarrow> goes 1 snd st (keyword w msg v doc st)"
  unfolding keyword_def by (intro goes_rules; cases w; auto dest!: goes_left)

lemma goes_scalar: "goes 1 snd st (parse_scalar fl opts doc st)"
  unfolding parse_scalar_def Let_def
  by (intro goes_rules goes_number goes_keyword goes_bind [OF goes_parse_string])
    (auto simp: is_digit_def intro!: goes_rules)


section \<open>Values\<close>

text \<open>A document that nothing includes.\<close>

definition alone :: "nat \<Rightarrow> 'f parse_info \<Rightarrow> bool" where
  "alone doc info \<longleftrightarrow> includers (docs info ! doc) = []"

text \<open>A value parser that, on a text shorter than \<open>n\<close>, reads a character and does not run out of fuel.\<close>

definition good_parser :: "nat \<Rightarrow> nat \<Rightarrow> 'f value_parser \<Rightarrow> bool" where
  "good_parser n doc pv \<longleftrightarrow> (\<forall>indent dst st. left st < n \<longrightarrow> alone doc (p_info st) \<longrightarrow> goes 1 (\<lambda>x. snd (snd x)) st (pv doc indent dst st))"

lemma good_parserD: "good_parser n doc pv \<Longrightarrow> left st < n \<Longrightarrow> alone doc (p_info st) \<Longrightarrow> goes 1 (\<lambda>x. snd (snd x)) st (pv doc indent dst st)"
  by (simp add: good_parser_def)

lemma goes_after_value:
  "goes 0 (\<lambda>x. snd (snd (snd (snd (snd x))))) st (after_value opts doc v has_separator st)"
  unfolding after_value_def split_def
  by (intro goes_rules goes_bind [OF goes_skip_white, where j = 0]
      goes_bind [OF goes_from [where m = 0, OF goes_post_white], where j = 0]) auto

lemma goes_check_comma [goes_rules]:
  "goes k pos st (f ()) \<Longrightarrow>
   goes k pos st (bindE (check_comma doc close trailing omit has_separator has_comma comma_state st') f)"
  by (auto simp: goes_def check_comma_def parse_assert_def throw_error_def)

lemma goes_array_loop:
  assumes "good_parser n doc pv"
  shows "left st < n \<Longrightarrow> left st < fuel \<Longrightarrow> alone doc (p_info st) \<Longrightarrow>
    goes 0 (\<lambda>x. snd (snd x)) st (array_loop fuel pv opts doc indent xs cs st)"
proof (induction fuel arbitrary: xs cs st)
  case (Suc fuel)
  note IH = goes_from [where m = 0, OF Suc.IH]
  show ?case
    unfolding array_loop.simps split_def
    by (intro goes_rules IH goes_bind [OF goes_pre_white, where j = 0] goes_bind [OF goes_after_value, where j = 0]
          goes_bind [OF good_parserD [OF assms], where j = 0])
      (use Suc.prems in auto)
qed simp

lemma goes_array_of: "(\<And>v. goes k pos st (f v)) \<Longrightarrow> goes k pos st (bindE (array_of c xs cs) f)"
  by (auto simp: goes_def array_of_def make_array_def wrong_type_def raise_error_def Let_def bindE_eq_Inl bindE_eq_Inr
      split: val.splits)

lemma goes_parse_array:
  assumes "good_parser n doc pv" "left st \<le> n" "alone doc (p_info st)"
  shows "goes 1 snd st (parse_array n pv opts doc indent dst st)"
  unfolding parse_array_def split_def
  by (intro goes_rules goes_bind [OF goes_swallow, where j = 0] goes_bind [OF goes_array_loop [OF assms(1)], where j = 0]
        goes_array_of)
    (use assms in auto)


section \<open>Objects\<close>

lemma identifier_left:
  "ident_starter (peek 0 st) \<Longrightarrow> Suc (left st - length (takeWhile ident_char (p_rest st))) \<le> left st"
  by (cases "p_rest st") (auto simp: peek_def ident_char_def ident_starter_def)

lemma goes_parse_key: "goes 1 snd st (parse_key opts doc st)"
  unfolding parse_key_def Let_def
  by (intro goes_rules goes_parse_string) (use identifier_left [of st] in \<open>auto simp del: length_greater_0_conv\<close>)

lemma goes_colon: "goes 0 (\<lambda>s. s) st (parse_colon opts doc st)"
  unfolding parse_colon_def split_def Let_def
  by (intro goes_rules goes_bind [OF goes_ignore_comments, where j = 0]
      goes_bind [OF goes_from [where m = 0, OF goes_ignore_comments], where j = 0]) auto

lemma goes_check_duplicate:
  assumes "\<forall>(k, e) \<in> set m. c_doc (e_value e) = Some doc" "alone doc (p_info st')"
    and "goes k pos st (f ())"
  shows "goes k pos st (bindE (check_duplicate opts doc st' key m) f)"
proof (cases "map_find m key")
  case None
  then show ?thesis using assms(3) by (simp add: check_duplicate_def)
next
  case (Some e)
  then have "c_doc (e_value e) = Some doc"
    using assms(1) by (auto simp: map_find_def dest!: map_of_SomeD)
  with Some show ?thesis
    using assms(2,3)
    by (auto simp: check_duplicate_def where_is_def alone_def goes_def throw_error_def)
qed

lemma after_value_doc: "after_value opts doc v sep st = Inr x \<Longrightarrow> c_doc (fst x) = c_doc v"
  by (auto simp: after_value_def bindE_eq_Inr skip_post_white_def set_comments_def Let_def split: if_splits)

lemma set_map_insert: "set (map_insert k v m) \<subseteq> insert (k, v) (set m)"
proof -
  have "set (map_set k v m) \<subseteq> insert (k, v) (set m)"
    by (induction k v m rule: map_set.induct) auto
  then show ?thesis by (auto simp: map_insert_def split: option.splits)
qed

definition good_values :: "nat \<Rightarrow> 'f value_parser \<Rightarrow> bool" where
  "good_values doc pv \<longleftrightarrow> (\<forall>indent dst st x. pv doc indent dst st = Inr x \<longrightarrow> c_doc (fst x) = Some doc)"

lemma goes_object_loop:
  assumes "good_parser n doc pv" "good_values doc pv"
  shows "left st < n \<Longrightarrow> left st < fuel \<Longrightarrow> alone doc (p_info st) \<Longrightarrow>
    \<forall>(k, e) \<in> set m. c_doc (e_value e) = Some doc \<Longrightarrow>
    goes 0 (\<lambda>x. snd (snd x)) st (object_loop fuel pv opts doc indent m cs st)"
proof (induction fuel arbitrary: m cs st)
  case (Suc fuel)
  note IH = goes_from [where m = 0, OF Suc.IH]
  have entries: "\<forall>(k, e) \<in> set (map_insert key (Entry v2 nr False) m). c_doc (e_value e) = Some doc"
    if "pv doc indent v st3 = Inr y" "after_value opts doc (fst y) sep st4 = Inr x" "v2 = fst x"
    for key v2 nr v st3 y sep st4 x
  proof -
    have "c_doc (fst y) = Some doc" using that(1) assms(2) by (simp only: good_values_def)
    then have "c_doc v2 = Some doc" using after_value_doc [OF that(2)] that(3) by simp
    then show ?thesis using Suc.prems(4) set_map_insert [of key "Entry v2 nr False" m] by fastforce
  qed
  show ?case
    unfolding object_loop.simps split_def
    by (intro goes_rules IH goes_bind [OF goes_pre_white, where j = 0] goes_bind [OF goes_after_value, where j = 0]
          goes_bind [OF goes_parse_key, where j = 0] goes_bind [OF goes_colon, where j = 0]
          goes_check_duplicate goes_bind [OF good_parserD [OF assms(1)], where j = 0])
      (use Suc.prems entries in \<open>auto simp: split_def\<close>)
qed simp

lemma goes_object_of: "(\<And>v. goes k pos st (f v)) \<Longrightarrow> goes k pos st (bindE (object_of c m cs) f)"
  by (auto simp: goes_def object_of_def make_object_def wrong_type_def raise_error_def Let_def bindE_eq_Inl bindE_eq_Inr
      split: val.splits)

lemma goes_parse_object:
  assumes "good_parser n doc pv" "good_values doc pv" "left st \<le> n" "alone doc (p_info st)"
  shows "goes 1 snd st (parse_object n pv opts doc indent dst st)"
  unfolding parse_object_def split_def
  by (intro goes_rules goes_bind [OF goes_swallow, where j = 0]
        goes_bind [OF goes_object_loop [OF assms(1,2)], where j = 0] goes_object_of)
    (use assms in auto)


section \<open>Enough fuel\<close>

lemma config_doc_simps [simp]:
  "c_doc (tag doc line c) = Some doc" "c_doc (set_comments cm c) = c_doc c" "c_doc (set_value v c) = c_doc c"
  "c_doc (assign c (config_of v)) = c_doc c"
  by (simp_all add: tag_def set_comments_def set_value_def assign_def config_of_def has_comments_def Let_def)

lemma array_of_doc: "array_of c xs cs = Inr c' \<Longrightarrow> c_doc c' = c_doc c"
  by (auto simp: array_of_def make_array_def wrong_type_def raise_error_def bindE_eq_Inr Let_def split: if_splits val.splits)

lemma object_of_doc: "object_of c m cs = Inr c' \<Longrightarrow> c_doc c' = c_doc c"
  by (auto simp: object_of_def make_object_def wrong_type_def raise_error_def bindE_eq_Inr Let_def split: if_splits val.splits)

lemma parse_array_doc: "parse_array n pv opts doc indent c st = Inr x \<Longrightarrow> c_doc (fst x) = c_doc c"
  by (auto simp: parse_array_def bindE_eq_Inr dest: array_of_doc)

lemma parse_object_doc: "parse_object n pv opts doc indent c st = Inr x \<Longrightarrow> c_doc (fst x) = c_doc c"
  by (auto simp: parse_object_def bindE_eq_Inr dest: object_of_doc)

lemma post_white_doc: "skip_post_white opts doc c st = Inr x \<Longrightarrow> c_doc (fst x) = c_doc c"
  by (auto simp: skip_post_white_def bindE_eq_Inr Let_def split: if_splits)

lemma parse_macro_forbidden: "\<not> allow_macro opts \<Longrightarrow> parse_macro n pv fs opts doc c st \<noteq> Inr x"
  by (simp add: parse_macro_def parse_assert_def throw_error_def)

lemma good_values_parse_value:
  assumes "\<not> allow_macro opts"
  shows "good_values doc (parse_value n fl fs opts)"
proof -
  have "c_doc (fst x) = Some doc" if x: "parse_value n fl fs opts doc indent dst st = Inr x" for indent dst st x
  proof (cases n)
    case 0
    then show ?thesis using x by simp
  next
    case (Suc k)
    show ?thesis
      using x assms unfolding Suc parse_value.simps Let_def
      by (auto simp: bindE_eq_Inr parse_macro_forbidden split: if_splits
          dest!: parse_array_doc parse_object_doc post_white_doc)
  qed
  then show ?thesis by (auto simp: good_values_def)
qed

lemma good_parser_parse_value:
  assumes "\<not> allow_macro opts"
  shows "good_parser n doc (parse_value n fl fs opts)"
proof (induction n)
  case 0
  then show ?case by (simp add: good_parser_def)
next
  case (Suc n)
  note good = Suc.IH good_values_parse_value [OF assms, of doc n fl fs]
  have "goes 1 (\<lambda>x. snd (snd x)) st (parse_value (Suc n) fl fs opts doc indent dst st)"
    if "left st < Suc n" "alone doc (p_info st)" for indent dst st
    unfolding parse_value.simps split_def Let_def parse_macro_def
    by (intro goes_rules goes_bind [OF goes_pre_white, where j = 1] goes_bind [where p = snd and k = 1 and j = 0]
          goes_parse_object [OF good] goes_parse_array [OF good(1)] goes_bind [OF goes_scalar, where j = 0]
          goes_post_white)
      (use that assms in auto)
  then show ?case by (simp add: good_parser_def)
qed

lemma goes_top_is_object: "top_is_object opts doc st \<noteq> Inl OutOfFuel"
proof -
  have "goes 0 (\<lambda>_. st) st (top_is_object opts doc st)"
    unfolding top_is_object_def split_def
    by (intro goes_rules goes_bind [where k = 0 and p = "\<lambda>_. st" and j = 0])
      (use goes_ignore_comments goes_parse_string in \<open>fastforce simp: goes_def\<close>)+
  then show ?thesis by (simp add: goes_def)
qed

lemma goes_finish_array: "finish_array opts doc c st \<noteq> Inl OutOfFuel"
  by (auto simp: finish_array_def throw_error_def split: val.splits list.splits)

lemma goes_contents:
  assumes "good_parser n doc pv" "good_values doc pv" "left st < n" "alone doc (p_info st)"
  shows "goes 0 snd st
    (if is_object
     then bindE (object_loop n pv opts doc 0 [] [] st) (\<lambda>(m, cs, st1).
          bindE (object_of ret m cs) (\<lambda>ret1. Inr (ret1, st1)))
     else bindE (array_loop n pv opts doc 0 [] [] st) (\<lambda>(xs, cs, st1).
          bindE (array_of ret xs cs) (\<lambda>ret1.
          bindE (parse_assert doc st1 (length xs \<le> 1 \<or> implicit_top_array opts) msg) (\<lambda>_. Inr (ret1, st1)))))"
  unfolding split_def
  by (intro goes_rules goes_bind [OF goes_object_loop [OF assms(1,2)], where j = 0]
        goes_bind [OF goes_array_loop [OF assms(1)], where j = 0] goes_object_of goes_array_of)
    (use assms in auto)

lemma goes_other: "x \<noteq> Inl OutOfFuel \<Longrightarrow> (\<And>v. x = Inr v \<Longrightarrow> goes k q st (f v)) \<Longrightarrow> goes k q st (bindE x f)"
  by (cases x) (auto simp: goes_def)

lemma goes_top_level:
  assumes "good_parser n doc pv" "good_values doc pv" "left st < n" "alone doc (p_info st)"
  shows "goes 0 snd st (top_level n pv opts doc st)"
proof -
  have finish: "(if b then Inr c else finish_array opts doc c st') \<noteq> Inl OutOfFuel" for b c st'
    by (simp add: goes_finish_array)
  note contents = goes_bind [OF goes_contents [OF assms, unfolded split_def], where j = 0]
  show ?thesis
    unfolding top_level_def split_def Let_def
    by (intro goes_other [OF goes_top_is_object] contents goes_bind [OF goes_post_white, where j = 0]
        goes_assert goes_other [OF finish] goes_Inr) auto
qed

text \<open>
  C21: where the format has no macros, the parser ends on every text: with more fuel than the text has
  characters it returns a value or an error.
\<close>

theorem parser_terminates:
  assumes "\<not> allow_macro opts" "length text < fuel"
  shows "parse_config fuel fl fs opts name text \<noteq> Inl OutOfFuel"
proof -
  have "goes 0 snd (start text (new_info name)) (top_level fuel (parse_value fuel fl fs opts) opts 0 (start text (new_info name)))"
    by (rule goes_top_level [OF good_parser_parse_value good_values_parse_value])
      (use assms in \<open>simp_all add: start_def alone_def new_info_def\<close>)
  then have "top_level fuel (parse_value fuel fl fs opts) opts 0 (start text (new_info name)) \<noteq> Inl OutOfFuel"
    by (simp add: goes_def)
  then show ?thesis
    by (auto simp: parse_config_def parse_text_def bindE_eq_Inl)
qed


section \<open>A file that includes itself\<close>

definition include_line :: "string \<Rightarrow> string" where
  "include_line name = ''#include '' @ [CHR 0x22] @ name @ [CHR 0x22]"

lemma include_top_is_object:
  assumes "opts = CFG \<or> opts = FORGIVING"
  shows "top_is_object opts doc (start (include_line name @ rest) info) = Inr False"
  using assms
  by (auto simp: top_is_object_def skip_white_ignore_comments_def skip_white_def white_loop.simps include_line_def
      start_def peek_def maybe_white_def ident_starter_def CFG_def FORGIVING_def)

lemma include_path_name:
  assumes "\<forall>c\<in>set name. c \<notin> {CHR 0x00, CHR 0x22, CHR 0x0A}" "p_rest st = CHR 0x22 # name @ CHR 0x22 # rest"
  shows "\<exists>st'. include_path doc (CHR 0x22) st = Inr (name, st') \<and> p_info st' = p_info st"
proof -
  have "takeWhile (\<lambda>c. c \<noteq> CHR 0x00 \<and> c \<noteq> CHR 0x22 \<and> c \<noteq> CHR 0x0A) (name @ CHR 0x22 # rest) = name"
    using assms(1) by (simp add: takeWhile_append)
  then show ?thesis
    using assms(2) by (simp add: include_path_def Let_def peek_def)
qed

lemma white_loop_stop: "\<not> maybe_white (peek 0 st) \<Longrightarrow> white_loop opts doc brk found ind cs st = Inr (False, ind, cs, st)"
  by (subst white_loop.simps) simp

lemma white_loop_blank:
  assumes "opts = CFG \<or> opts = FORGIVING" "p_rest st = CHR 0x20 # CHR 0x22 # r"
  shows "white_loop opts doc brk False 0 [] st = Inr (False, -1, [], skip 1 st)"
proof -
  have "white_loop opts doc brk False (-1) [] (skip 1 st) = Inr (False, -1, [], skip 1 st)"
    by (rule white_loop_stop) (simp add: peek_def assms(2) maybe_white_def)
  then show ?thesis
    using assms
    by (subst white_loop.simps) (auto simp: peek_def maybe_white_def starts_def CFG_def FORGIVING_def)
qed

lemma include_white:
  assumes "opts = CFG \<or> opts = FORGIVING"
  shows "\<exists>b st'. skip_white_ignore_comments opts doc (skip 8 (start (include_line name @ rest) info)) = Inr (b, st') \<and>
    p_rest st' = CHR 0x22 # name @ CHR 0x22 # rest \<and> p_info st' = info"
proof -
  have "p_rest (skip 8 (start (include_line name @ rest) info)) = CHR 0x20 # CHR 0x22 # name @ CHR 0x22 # rest"
    by (simp add: include_line_def start_def)
  from white_loop_blank [OF assms this] show ?thesis
    by (auto simp: skip_white_ignore_comments_def skip_white_def include_line_def start_def)
qed

lemma include_macro:
  assumes "opts = CFG \<or> opts = FORGIVING"
    and name: "\<forall>c\<in>set name. c \<notin> {CHR 0x00, CHR 0x22, CHR 0x0A}" "relative_path path name = path"
    and doc: "filename (docs info ! doc) = path" and new: "map_find (parsed_files info) path = None"
    and incl: "fs path = Inr (include_line name @ rest)"
    and IH: "\<And>doc info. filename (docs info ! doc) = path \<Longrightarrow> map_find (parsed_files info) path = None \<Longrightarrow>
      parse_text n pv opts doc (include_line name @ rest) (info :: 'f parse_info) = Inl OutOfFuel"
  shows "parse_macro n pv fs opts doc dst (start (include_line name @ rest) info) = Inl OutOfFuel"
proof -
  obtain b st1 where st1: "skip_white_ignore_comments opts doc (skip 8 (start (include_line name @ rest) info)) = Inr (b, st1)"
      "p_rest st1 = CHR 0x22 # name @ CHR 0x22 # rest" "p_info st1 = info"
    using include_white [OF assms(1)] by blast
  obtain st2 where st2: "include_path doc (CHR 0x22) st1 = Inr (name, st2)" "p_info st2 = info"
    using include_path_name [OF _ st1(2), of doc] name st1(3) by auto
  have macro: "allow_macro opts" using assms(1) by (auto simp: CFG_def FORGIVING_def)
  have "starts ''#include'' (start (include_line name @ rest) info)"
    by (simp add: starts_def start_def include_line_def)
  moreover have "peek 0 st1 = CHR 0x22" by (simp add: peek_def st1(2))
  ultimately show ?thesis
    using macro st1(1) st2 doc new incl
    by (simp add: parse_macro_def parse_assert_def include_file_def Let_def name(2) IH)
qed

lemma include_never_ends:
  assumes "opts = CFG \<or> opts = FORGIVING"
    and name: "\<forall>c\<in>set name. c \<notin> {CHR 0x00, CHR 0x22, CHR 0x0A}" "relative_path path name = path"
    and incl: "fs path = Inr (include_line name @ rest)"
  shows "filename (docs info ! doc) = path \<Longrightarrow> map_find (parsed_files info) path = None \<Longrightarrow>
    parse_text n (parse_value n fl fs opts) opts doc (include_line name @ rest) info = Inl OutOfFuel"
  (is "_ \<Longrightarrow> _ \<Longrightarrow> ?endless n doc info")
proof -
  have indented: "indentation opts \<noteq> []" using assms(1) by (auto simp: CFG_def FORGIVING_def)
  show "filename (docs info ! doc) = path \<Longrightarrow> map_find (parsed_files info) path = None \<Longrightarrow> ?endless n doc info"
proof (induction n arbitrary: doc info)
  case 0
  then show ?case
    using indented by (simp add: parse_text_def top_level_def include_top_is_object [OF assms(1)])
next
  case (Suc n)
  note macro = include_macro [where pv = "parse_value n fl fs opts" and fs = fs and path = path and name = name and rest = rest and n = n,
      OF assms(1) name Suc.prems incl Suc.IH]
  let ?st = "start (include_line name @ rest) info"
  have first: "peek 0 ?st = CHR ''#''" by (simp add: peek_def start_def include_line_def)
  have pre: "skip_pre_white opts d c ?st = Inr (c, -1, ?st)" for d c
    by (simp add: skip_pre_white_def first maybe_white_def)
  have "parse_value (Suc n) fl fs opts doc indent dst ?st = Inl OutOfFuel" for indent dst
    by (simp add: pre check_indentation_def first macro Let_def)
  then have "array_loop (Suc n) (parse_value (Suc n) fl fs opts) opts doc 0 [] [] ?st = Inl OutOfFuel"
    by (simp add: pre check_indentation_def first parse_assert_def ident_starter_def del: parse_value.simps)
  then show ?case
    using indented
    by (simp add: parse_text_def top_level_def include_top_is_object [OF assms(1)] del: parse_value.simps array_loop.simps)
qed
qed

text \<open>
  C39: a file that begins with the inclusion of itself (the name behind \<open>#include\<close>, taken from the directory of the
  file, is its own path; the name is in quotes and has no quote, no NUL and no line break) is parsed for ever in the formats
  \<open>CFG\<close> and \<open>FORGIVING\<close>, which allow macros, whatever stands behind the inclusion: however large the fuel,
  parsing it runs out of fuel. The table of parsed files is filled only after a file has been parsed.
\<close>

theorem self_include_never_ends:
  assumes "opts = CFG \<or> opts = FORGIVING"
    and "\<forall>c\<in>set name. c \<notin> {CHR 0x00, CHR 0x22, CHR 0x0A}" "relative_path path name = path"
    and "fs path = Inr (include_line name @ rest)"
  shows "parse_file fuel fl fs opts path = Inl OutOfFuel"
  using include_never_ends [where fs = fs and path = path and name = name and rest = rest and info = "new_info path" and
      doc = 0 and n = fuel and fl = fl, OF assms]
  by (simp add: parse_file_def parse_config_def assms(4) new_info_def)

end
