(* ===== verification/Cfg_Json.thy ===== *)
theory Cfg_Json
  imports Cfg_Writer Cfg_Termination
begin

text \<open>
  Reading what was written, for the tokens of JSON: white space, strings, integers and keywords. The format is
  \<open>JSON\<close> with any indentation by blanks and tabs, the empty one included, which is the compact form.
\<close>

section \<open>The format\<close>

definition json :: "string \<Rightarrow> FormatOptions" where
  "json indent = JSON\<lparr>indentation := indent\<rparr>"

definition blank_indent :: "string \<Rightarrow> bool" where
  "blank_indent s \<longleftrightarrow> set s \<subseteq> {CHR 0x20, CHR 0x09}"

definition white :: "string \<Rightarrow> bool" where
  "white s \<longleftrightarrow> set s \<subseteq> {CHR 0x20, CHR 0x09, CHR 0x0A}"

lemma json_sel [simp]:
  "indentation (json s) = s" "enforce_indentation (json s) = False" "end_with_newline (json s) = True"
  "empty_file (json s) = False" "implicit_top_object (json s) = False" "implicit_top_array (json s) = False"
  "write_comments (json s) = False" "allow_macro (json s) = False" "sort_keys (json s) = False"
  "array_omit_comma (json s) = False" "object_omit_comma (json s) = False"
  "identifiers_keys (json s) = False" "object_separator_equal (json s) = False"
  "allow_space_before_colon (json s) = True" "omit_colon_before_object (json s) = False"
  "object_duplicate_keys (json s) = False" "object_align_values (json s) = True"
  "str_python_multiline (json s) = False" "str_allow_tab (json s) = False"
  by (simp_all add: json_def JSON_def CFG_def)

lemma compact_json [simp]: "compact (json s) \<longleftrightarrow> s = []"
  by (simp add: compact_def)

lemma white_simps [simp]:
  "white []" "white (c # s) \<longleftrightarrow> c \<in> {CHR 0x20, CHR 0x09, CHR 0x0A} \<and> white s"
  "white (s @ t) \<longleftrightarrow> white s \<and> white t" "white (concat ss) \<longleftrightarrow> (\<forall>s\<in>set ss. white s)"
  "white (replicate n (CHR 0x20))"
  by (auto simp: white_def)

lemma blank_indent_white: "blank_indent s \<Longrightarrow> white s"
  by (auto simp: blank_indent_def white_def)

lemma white_indent [simp]: "blank_indent s \<Longrightarrow> white (write_indent (json s) n)"
  by (simp add: write_indent_def blank_indent_white)

text \<open>What can follow white space.\<close>

definition stops :: "string \<Rightarrow> bool" where
  "stops s \<longleftrightarrow> s = [] \<or> \<not> maybe_white (hd s)"

lemma peek_rest: "p_rest st = c # r \<Longrightarrow> peek 0 st = c"
  by (simp add: peek_def)

lemma peek_end: "p_rest st = [] \<Longrightarrow> peek k st = CHR 0x00"
  by (simp add: peek_def)

lemma stops_peek: "p_rest st = s \<Longrightarrow> stops s \<Longrightarrow> \<not> maybe_white (peek 0 st)"
  by (cases s) (auto simp: stops_def peek_def maybe_white_def)

lemma peek_skip: "peek k (skip n st) = peek (n + k) st"
  by (auto simp: peek_def)

lemma p_rest_next_line [simp]: "p_rest (next_line k st) = drop k (p_rest st)"
  by (simp add: next_line_def)


section \<open>White space\<close>

lemma indent_in_white:
  assumes "starts i st" "p_rest st = w @ r" "blank_indent i" "stops r"
  shows "\<exists>w'. w = i @ w'"
proof -
  have i: "take (length i) (w @ r) = i" using assms(1,2) by (simp add: starts_def)
  show ?thesis
  proof (cases "length i \<le> length w")
    case True
    then have "take (length i) w = i" using i by simp
    then show ?thesis by (metis append_take_drop_id)
  next
    case False
    then have "i = w @ take (length i - length w) r" "r \<noteq> []"
      using i by (auto simp: take_all_iff)
    then have "hd r \<in> set i" using False by (cases r) (auto simp: take_Cons' in_set_conv_decomp)
    then show ?thesis
      using assms(3,4) \<open>r \<noteq> []\<close> by (auto simp: blank_indent_def stops_def maybe_white_def)
  qed
qed

text \<open>The loop over white space ends behind it, or behind a newline where that ends the loop.\<close>

definition past_white :: "bool \<Rightarrow> string \<Rightarrow> 'f pstate \<Rightarrow> 'f pstate \<Rightarrow> bool" where
  "past_white brk r st st' \<longleftrightarrow>
     (\<exists>w. p_rest st' = w @ r \<and> white w \<and> (brk \<or> w = [])) \<and> p_info st' = p_info st"

lemma white_loop_white:
  assumes "blank_indent i" "stops r"
  shows "p_rest st = w @ r \<Longrightarrow> white w \<Longrightarrow>
    \<exists>early ind' st'. white_loop (json i) doc brk found ind cs st = Inr (early, ind', cs, st') \<and> past_white brk r st st'"
proof (induction "length w" arbitrary: w st found ind rule: less_induct)
  case less
  have go: "\<exists>early ind' st'. white_loop (json i) doc brk found' ind'' cs st1 = Inr (early, ind', cs, st') \<and> past_white brk r st st'"
    if "length w' < length w" "p_rest st1 = w' @ r" "white w'" "p_info st1 = p_info st" for w' found' ind'' st1
    using less.hyps [OF that(1-3), of found' ind''] that(4) by (auto simp: past_white_def)
  show ?case
  proof (cases w)
    case Nil
    then show ?thesis
      using less.prems assms(2) stops_peek [of st r] by (subst white_loop.simps) (auto simp: past_white_def)
  next
    case (Cons c w1)
    have c: "peek 0 st = c" "maybe_white c" using less.prems Cons by (auto simp: peek_def maybe_white_def)
    show ?thesis
    proof (cases "c = CHR 0x0A")
      case True
      have "past_white True r st (next_line 1 st)"
        using less.prems Cons by (auto simp: past_white_def)
      moreover note go [of w1 "next_line 1 st" True 0]
      ultimately show ?thesis
        using True c less.prems Cons by (subst white_loop.simps) (auto simp: Let_def)
    next
      case False
      then have c': "c = CHR 0x20 \<or> c = CHR 0x09" using less.prems Cons by auto
      show ?thesis
      proof (cases "i \<noteq> [] \<and> starts i st")
        case True
        then obtain w' where w': "w = i @ w'" using indent_in_white [OF _ less.prems(1) assms] by blast
        have "length w' < length w" "p_rest (skip (length i) st) = w' @ r" "white w'"
          using True w' less.prems by auto
        note go [OF this, of found "ind + 1"]
        then show ?thesis
          using True c c' by (subst white_loop.simps) (auto simp: Let_def)
      next
        case False
        have "length w1 < length w" "p_rest (skip 1 st) = w1 @ r" "white w1"
          using Cons less.prems by auto
        note tab = go [OF this, of found "ind + 1"] and blank = go [OF this, of found "-1"]
        from c' show ?thesis
        proof
          assume "c = CHR 0x20"
          then show ?thesis using blank False c(1) by (subst white_loop.simps) (auto simp: Let_def maybe_white_def)
        next
          assume "c = CHR 0x09"
          then show ?thesis using tab False c(1) by (subst white_loop.simps) (auto simp: Let_def maybe_white_def)
        qed
      qed
    qed
  qed
qed

lemma skip_white_white:
  assumes "blank_indent i" "stops r" "p_rest st = w @ r" "white w"
  shows "\<exists>did ind st'. skip_white (json i) doc brk st = Inr (did, ind, [], st') \<and> past_white brk r st st'"
  using white_loop_white [OF assms, of doc brk False 0 "[]"] by (auto simp: skip_white_def)

lemma set_comments_same [simp]: "set_comments (c_comments c) c = c"
  by (cases c) (simp add: set_comments_def)

lemma comments_append_Nil [simp]:
  "cm\<lparr>cm_prefix := cm_prefix cm @ []\<rparr> = cm" "cm\<lparr>cm_postfix := cm_postfix cm @ []\<rparr> = cm"
  by simp_all

lemma skip_pre_white_white:
  assumes "blank_indent i" "stops r" "p_rest st = w @ r" "white w"
  shows "\<exists>ind st'. skip_pre_white (json i) doc c st = Inr (c, ind, st') \<and> p_rest st' = r \<and> p_info st' = p_info st"
proof (cases w)
  case Nil
  then show ?thesis using assms stops_peek [of st r] by (auto simp: skip_pre_white_def)
next
  case (Cons a w')
  then have "maybe_white (peek 0 st)" using assms by (auto simp: peek_def maybe_white_def)
  then show ?thesis
    using skip_white_white [OF assms, of doc False] by (auto simp: skip_pre_white_def past_white_def Let_def)
qed

lemma skip_post_white_white:
  assumes "blank_indent i" "stops r" "p_rest st = w @ r" "white w"
  shows "\<exists>did st' w'. skip_post_white (json i) doc c st = Inr (c, did, st') \<and> p_rest st' = w' @ r \<and> white w' \<and>
    p_info st' = p_info st"
proof (cases w)
  case Nil
  then show ?thesis
    using assms stops_peek [of st r] by (intro exI [of _ False] exI [of _ st] exI [of _ w]) (simp add: skip_post_white_def)
next
  case (Cons a w')
  then have "maybe_white (peek 0 st)" using assms by (auto simp: peek_def maybe_white_def)
  then show ?thesis
    using skip_white_white [OF assms, of doc True] by (fastforce simp: skip_post_white_def past_white_def Let_def)
qed

lemma ignore_comments_white:
  assumes "blank_indent i" "stops r" "p_rest st = w @ r" "white w"
  shows "\<exists>b st'. skip_white_ignore_comments (json i) doc st = Inr (b, st') \<and> p_rest st' = r \<and> p_info st' = p_info st"
  using skip_white_white [OF assms, of doc False] by (auto simp: skip_white_ignore_comments_def past_white_def)


section \<open>Strings\<close>

lemma skip_skip: "skip a (skip b st) = skip (b + a) st"
  by (simp add: skip_def take_add) (simp add: add.commute)

text \<open>A character that needs no care, one at a time.\<close>

lemma string_loop_safe:
  assumes "p_rest st = c # r" "\<not> special_character c"
  shows "string_loop opts doc st0 acc st = string_loop opts doc st0 (acc @ [c]) (skip 1 st)"
  using assms
  by (simp add: string_loop.simps [of opts doc st0 acc st] string_loop.simps [of opts doc st0 "acc @ [c]" "skip (Suc 0) st"]
      Let_def skip_skip)

lemma string_loop_escape:
  assumes "p_rest st = CHR 0x5C # r"
  shows "string_loop opts doc st0 acc st =
    bindE (parse_escape opts doc acc (skip 1 st)) (\<lambda>(acc2, st2). string_loop opts doc st0 acc2 st2)"
proof -
  have "skip 0 st = st" by (simp add: skip_def)
  then show ?thesis
    using assms by (subst string_loop.simps) (simp add: Let_def special_character_def peek_def)
qed

lemma string_loop_quote:
  assumes "p_rest st = CHR 0x22 # r"
  shows "string_loop opts doc st0 acc st = Inr (acc, skip 1 st)"
proof -
  have "skip 0 st = st" by (simp add: skip_def)
  then show ?thesis
    using assms by (subst string_loop.simps) (simp add: Let_def special_character_def peek_def)
qed

lemma hex_digit_hex_char: "n < 16 \<Longrightarrow> hex_digit (hex_char n) = Some n"
  by (auto simp: hex_digit_def hex_char_def Let_def)

lemma nibble: "(n :: nat) AND 0xF = n mod 16"
  using take_bit_eq_mask [of 4 n] by (simp add: take_bit_eq_mod mask_eq_exp_minus_1)

lemma digits16: "(n :: nat) div 16 * 16 + n mod 16 = n"
  by (rule div_mult_mod_eq)

lemma parse_hex_written:
  assumes "n < 0x10000" "p_rest st = drop 2 (write_unicode_16 n) @ r"
  shows "parse_hex doc 4 st = Inr (n, skip 4 st)"
proof -
  have "((n div 4096 * 16 + n div 256 mod 16) * 16 + n div 16 mod 16) * 16 + n mod 16 = n"
    using digits16 [of "n div 256"] digits16 [of "n div 16"] digits16 [of n]
    by (simp only: div_mult2_eq [symmetric] numeral_times_numeral) simp
  moreover have "n div 4096 mod 16 = n div 4096" using assms(1) by (simp add: div_less_iff_less_mult)
  moreover have "map (\<lambda>i. hex_digit (peek i st)) [0..<4] =
      [Some (n div 4096 mod 16), Some (n div 256 mod 16), Some (n div 16 mod 16), Some (n mod 16)]"
    using assms(2) by (simp add: upt_rec peek_def hex_digit_hex_char write_unicode_16_def nibble drop_bit_eq_div)
  ultimately show ?thesis by (simp add: parse_hex_def digits_value_def)
qed

lemma parse_unicode_control:
  assumes "p_rest st = CHR 0x5C # CHR ''u'' # hex_char (drop_bit 12 n AND 0xF) # hex_char (drop_bit 8 n AND 0xF) #
      hex_char (drop_bit 4 n AND 0xF) # hex_char (n AND 0xF) # r" "n < 0x20"
  shows "parse_escape opts doc acc (skip 1 st) = Inr (acc @ [char_of n], skip 6 st)"
proof -
  have "p_rest (skip 2 st) = drop 2 (write_unicode_16 n) @ r" using assms by (simp add: write_unicode_16_def)
  then have "parse_hex doc 4 (skip 2 st) = Inr (n, skip 6 st)"
    using parse_hex_written [of n "skip 2 st" r doc] assms(2) by (simp add: skip_skip)
  moreover have "encode_utf8 n = Some [char_of n]" using assms(2) by (simp add: encode_utf8_def)
  moreover have "peek 0 (skip 1 st) = CHR ''u''" using assms(1) by (simp add: peek_def)
  ultimately show ?thesis
    using assms(2) unfolding numeral_2_eq_2
    by (simp add: parse_escape_def Let_def skip_skip parse_unicode_16_def push_codepoint_def)
qed

text \<open>Every character but the null is read as it was written.\<close>

lemma string_loop_written:
  fixes st :: "'f pstate"
  assumes "p_rest st = write_character c @ r" "c \<noteq> CHR 0x00"
  shows "\<exists>st'. string_loop opts doc st0 acc st = string_loop opts doc st0 (acc @ [c]) st' \<and>
    p_rest st' = r \<and> p_info st' = p_info st"
proof (cases "safe_character c")
  case True
  then have "\<not> special_character c" by (auto simp: safe_character_def special_character_def)
  then show ?thesis
    using True assms(1) string_loop_safe [of st c r opts doc st0 acc] by (auto simp: write_character_def)
next
  case False
  note unsafe = this
  show ?thesis
  proof (cases "c \<in> {CHR 0x5C, CHR 0x22, CHR 0x08, CHR 0x0C, CHR 0x0A, CHR 0x0D, CHR 0x09}")
    case True
    then obtain d where d: "p_rest st = CHR 0x5C # d # r"
        "\<And>s :: 'f pstate. peek 0 s = d \<Longrightarrow> parse_escape opts doc acc s = Inr (acc @ [c], skip 1 s)"
      using assms(1) unsafe by (auto simp: write_character_def parse_escape_def Let_def)
    then show ?thesis
      using string_loop_escape [OF d(1), of opts doc st0 acc] d(2) [of "skip 1 st"]
      by (auto simp: peek_def)
  next
    case False
    have small: "of_char c < (0x20 :: nat)" using unsafe False by (auto simp: safe_character_def)
    have "p_rest st = write_unicode_16 (of_char c) @ r"
      using assms False unsafe by (auto simp: write_character_def)
    then have rest: "p_rest st = CHR 0x5C # CHR ''u'' # hex_char (drop_bit 12 (of_char c) AND 0xF) #
        hex_char (drop_bit 8 (of_char c) AND 0xF) # hex_char (drop_bit 4 (of_char c) AND 0xF) #
        hex_char (of_char c AND 0xF) # r"
      by (simp add: write_unicode_16_def)
    show ?thesis
      using string_loop_escape [OF rest, of opts doc st0 acc] parse_unicode_control [OF rest small, of opts doc acc] rest
      by auto
  qed
qed

lemma string_loop_quoted:
  assumes "CHR 0x00 \<notin> set s"
  shows "p_rest st = concat (map write_character s) @ CHR 0x22 # r \<Longrightarrow>
    \<exists>st'. string_loop opts doc st0 acc st = Inr (acc @ s, st') \<and> p_rest st' = r \<and> p_info st' = p_info st"
  using assms
proof (induction s arbitrary: st acc)
  case Nil
  then show ?case using string_loop_quote [of st r opts doc st0 acc] by simp
next
  case (Cons c s)
  then have "p_rest st = write_character c @ (concat (map write_character s) @ CHR 0x22 # r)" "c \<noteq> CHR 0x00"
    by auto
  from string_loop_written [OF this, of opts doc st0 acc]
  obtain st1 where st1: "string_loop opts doc st0 acc st = string_loop opts doc st0 (acc @ [c]) st1"
      "p_rest st1 = concat (map write_character s) @ CHR 0x22 # r" "p_info st1 = p_info st"
    by blast
  from Cons.IH [OF st1(2), of "acc @ [c]"] Cons.prems st1 show ?case by auto
qed

lemma write_character_head: "\<exists>d ds. write_character c = d # ds \<and> d \<noteq> CHR 0x22"
  by (auto simp: write_character_def write_unicode_16_def safe_character_def)

lemma parse_string_quoted:
  assumes "CHR 0x00 \<notin> set s" "p_rest st = write_quoted_string s @ r" "r = [] \<or> hd r \<noteq> CHR 0x22"
  shows "\<exists>st'. parse_string opts doc st = Inr (s, st') \<and> p_rest st' = r \<and> p_info st' = p_info st"
proof -
  have rest: "p_rest (skip 1 st) = concat (map write_character s) @ CHR 0x22 # r" "peek 0 st = CHR 0x22"
    using assms(2) by (simp_all add: write_quoted_string_def peek_def)
  have "\<not> (peek 1 st = CHR 0x22 \<and> peek 2 st = CHR 0x22)"
    using assms(2,3) write_character_head [of "hd s"]
    by (cases s; cases r) (auto simp: write_quoted_string_def peek_def)
  then have "parse_string opts doc st = string_loop opts doc st [] (skip 1 st)"
    using rest(2) by (auto simp: parse_string_def parse_assert_def)
  then show ?thesis
    using string_loop_quoted [OF assms(1) rest(1), of opts doc st "[]"] by simp
qed


section \<open>Integers\<close>

lemma foldl_dec: "foldl (\<lambda>n d. 10 * n + digit_value d) a ds = a * 10 ^ length ds + dec_value ds"
proof (induction ds arbitrary: a)
  case Nil
  then show ?case by (simp add: dec_value_def)
next
  case (Cons d ds)
  have "dec_value (d # ds) = foldl (\<lambda>n d. 10 * n + digit_value d) (digit_value d) ds"
    by (simp add: dec_value_def)
  then show ?case using Cons.IH [of "10 * a + digit_value d"] Cons.IH [of "digit_value d"]
    by (simp add: algebra_simps)
qed

lemma dec_value_Cons: "dec_value (d # ds) = digit_value d * 10 ^ length ds + dec_value ds"
  using foldl_dec [of "digit_value d" ds] by (simp add: dec_value_def)

lemma digit_value_less: "is_digit c \<Longrightarrow> digit_value c < 10"
  by (auto simp: is_digit_def digit_value_def)

lemma dec_value_less: "\<forall>c\<in>set ds. is_digit c \<Longrightarrow> dec_value ds < 10 ^ length ds"
proof (induction ds)
  case Nil
  then show ?case by (simp add: dec_value_def)
next
  case (Cons d ds)
  then have "dec_value ds < 10 ^ length ds" "digit_value d \<le> 9"
    using digit_value_less [of d] by auto
  then have "digit_value d * 10 ^ length ds + dec_value ds < 9 * 10 ^ length ds + 10 ^ length ds"
    by (intro add_le_less_mono mult_right_mono) auto
  then show ?case by (simp add: dec_value_Cons)
qed

text \<open>Strings of as many digits are in the order of their values.\<close>

lemma digits_order:
  "length xs = length ys \<Longrightarrow> \<forall>c\<in>set xs \<union> set ys. is_digit c \<Longrightarrow> xs < ys \<Longrightarrow> dec_value xs < dec_value ys"
proof (induction xs ys rule: list_induct2)
  case Nil
  then show ?case by simp
next
  case (Cons x xs y ys)
  show ?case
  proof (cases "x = y")
    case True
    then show ?thesis using Cons by (simp add: dec_value_Cons)
  next
    case False
    then have "x < y" using Cons.prems by simp
    then have "digit_value x + 1 \<le> digit_value y"
      using Cons.prems by (auto simp: less_char_def digit_value_def is_digit_def)
    then have "(digit_value x + 1) * 10 ^ length xs \<le> digit_value y * 10 ^ length xs"
      by (rule mult_right_mono) simp
    moreover have "dec_value xs < 10 ^ length xs" using Cons.prems by (intro dec_value_less) auto
    ultimately show ?thesis using Cons.hyps by (simp add: dec_value_Cons)
  qed
qed

lemma length_dec_digits: "n < 10 ^ k \<Longrightarrow> 0 < k \<Longrightarrow> length (dec_digits n) \<le> k"
proof (induction n arbitrary: k rule: dec_digits.induct)
  case (1 n)
  show ?case
  proof (cases "n < 10")
    case True
    then show ?thesis using 1 by (subst dec_digits.simps) simp
  next
    case False
    then obtain j where j: "k = Suc j" "0 < j" using 1 by (cases k; cases "k - 1") auto
    then have "n div 10 < 10 ^ j" using 1(2) by (simp add: div_less_iff_less_mult)
    then show ?thesis using 1(1) [of j] False j by (subst dec_digits.simps) simp
  qed
qed

lemma dec_digits_zero: "hd (dec_digits n) = CHR ''0'' \<Longrightarrow> n = 0"
proof (induction n rule: dec_digits.induct)
  case (1 n)
  show ?case
  proof (cases "n < 10")
    case True
    then have "hd (dec_digits n) = char_of (48 + n)" by (subst dec_digits.simps) simp
    then have "(of_char (char_of (48 + n) :: char) :: nat) = of_char (CHR ''0'')" using 1 by simp
    then show ?thesis using True by simp
  next
    case False
    then have "hd (dec_digits n) = hd (dec_digits (n div 10))" by (subst dec_digits.simps) simp
    then show ?thesis using 1 False by auto
  qed
qed

text \<open>What can follow a number: nothing that continues it.\<close>

definition ends_token :: "string \<Rightarrow> bool" where
  "ends_token r \<longleftrightarrow> r = [] \<or> hd r \<in> {CHR '','', CHR '']'', CHR ''}'', CHR 0x20, CHR 0x09, CHR 0x0A}"

lemma ends_token_hd:
  "ends_token r \<Longrightarrow> p_rest st = r \<Longrightarrow> \<not> ident_char (peek 0 st) \<and> \<not> is_digit (peek 0 st) \<and> peek 0 st \<notin> {CHR ''.'', CHR 0x22}"
  by (cases r) (auto simp: ends_token_def peek_def ident_char_def ident_starter_def is_digit_def less_eq_char_def)

lemma takeWhile_digits: "ends_token r \<Longrightarrow> takeWhile is_digit (dec_digits n @ r) = dec_digits n"
  using dec_digits_is_digit [of _ n]
  by (cases r) (auto simp: takeWhile_append ends_token_def is_digit_def)

lemma not_float_text:
  assumes "if sign = 1 then n < 2 ^ 63 else n \<le> 2 ^ 63" "c \<notin> {CHR ''.'', CHR ''e'', CHR ''E''}"
  shows "\<not> is_float_text sign (dec_digits n) c"
proof -
  let ?max = "if sign = 1 then ''9223372036854775807'' else ''9223372036854775808''"
  have "length (dec_digits n) \<le> 19" by (rule length_dec_digits) (use assms(1) in \<open>auto split: if_splits\<close>)
  moreover have False if "length (dec_digits n) = 19" "?max < dec_digits n"
  proof -
    have "dec_value ?max < dec_value (dec_digits n)"
      by (rule digits_order) (use that in \<open>auto simp: is_digit_def dest: dec_digits_is_digit split: if_splits\<close>)
    moreover have "dec_value ?max = (if sign = 1 then 9223372036854775807 else 9223372036854775808)"
      by (simp add: dec_value_def digit_value_def)
    ultimately show False using assms(1) by (simp add: dec_value_dec_digits split: if_splits)
  qed
  ultimately show ?thesis using assms(2) by (auto simp: is_float_text_def)
qed

lemma dec_digits_head: "\<exists>d ds. dec_digits n = d # ds \<and> is_digit d \<and> d \<noteq> CHR ''-'' \<and> d \<noteq> CHR ''+'' \<and> \<not> isspace d"
proof -
  obtain d ds where "dec_digits n = d # ds" by (cases "dec_digits n") auto
  moreover have "is_digit d" using dec_digits_is_digit [of d n] calculation by simp
  moreover have "d \<noteq> CHR ''-''" "d \<noteq> CHR ''+''" "\<not> isspace d"
    using \<open>is_digit d\<close> by (auto simp: is_digit_def is_digit_not_isspace)
  ultimately show ?thesis by blast
qed

lemma strtoll_show_int:
  assumes "- (2 ^ 63) \<le> i" "i < 2 ^ 63" "ends_token r"
  shows "strtoll (show_int i @ r) = i \<and> strtoll_len (show_int i @ r) = length (show_int i)"
proof -
  obtain d ds where d: "dec_digits (nat \<bar>i\<bar>) = d # ds" "d \<noteq> CHR ''-''" "d \<noteq> CHR ''+''" "\<not> isspace d"
    using dec_digits_head by blast
  have digits: "takeWhile is_digit (d # ds @ r) = d # ds"
    using takeWhile_digits [OF assms(3), of "nat \<bar>i\<bar>"] by (simp add: d(1))
  have value_eq: "dec_value (d # ds) = nat \<bar>i\<bar>" using dec_value_dec_digits [of "nat \<bar>i\<bar>"] by (simp add: d(1))
  have minus: "\<not> isspace (CHR ''-'')" by (simp add: isspace_def)
  show ?thesis
    using d digits value_eq assms(1,2) minus
    by (cases "i < 0") (simp_all add: show_int_def strtoll_def parse_dec_def strtoll_len_def Let_def)
qed

lemma ends_token_c_str: "ends_token r \<Longrightarrow> ends_token (c_str r)"
  by (cases r) (auto simp: ends_token_def c_str_def)

lemma c_str_show_int: "c_str (show_int i @ r) = show_int i @ c_str r"
proof -
  have "c \<noteq> CHR 0x00" if "c \<in> set (show_int i)" for c
    using that dec_digits_is_digit [of c] by (auto simp: show_int_def is_digit_def split: if_splits)
  then show ?thesis by (simp add: c_str_def takeWhile_append)
qed

lemma parse_number_written:
  assumes "- (2 ^ 63) \<le> i" "i < 2 ^ 63" "p_rest st = show_int i @ r" "ends_token r"
  shows "parse_number fl opts doc st = Inr (Integer i, skip (length (show_int i)) st)"
proof -
  obtain d ds where d: "dec_digits (nat \<bar>i\<bar>) = d # ds" "is_digit d" "d \<noteq> CHR ''-''" "d \<noteq> CHR ''+''"
    using dec_digits_head by blast
  define st2 where "st2 = (if i < 0 then skip 1 st else st)"
  define sign :: int where "sign = (if i < 0 then -1 else 1)"
  have rest2: "p_rest st2 = (d # ds) @ r"
    using assms(3) d(1) by (auto simp: st2_def show_int_def split: if_splits)
  have digits: "takeWhile is_digit (p_rest st2) = d # ds"
    using takeWhile_digits [OF assms(4), of "nat \<bar>i\<bar>"] by (simp add: rest2 d(1))
  have "peek (length (d # ds)) st2 = peek 0 (skip (length (d # ds)) st2)" by (simp add: peek_skip)
  then have "peek (length (d # ds)) st2 \<notin> {CHR ''.'', CHR ''e'', CHR ''E''}"
    using ends_token_hd [OF assms(4), of "skip (length (d # ds)) st2"] rest2
    by (auto simp: ident_char_def ident_starter_def)
  then have no_float: "\<not> is_float_text sign (d # ds) (peek (length (d # ds)) st2)"
    using not_float_text [of sign "nat \<bar>i\<bar>"] assms(1,2) by (auto simp: sign_def d(1))
  have "\<forall>c\<in>set ds. is_digit c" using dec_digits_is_digit [of _ "nat \<bar>i\<bar>"] by (simp add: d(1))
  then have not_prefix: "\<not> starts ''0x'' st2" "\<not> starts ''0b'' st2"
    using assms(4) rest2
    by (cases ds; cases r; force simp: starts_def ends_token_def is_digit_def)+
  have "peek 0 st = CHR ''0'' \<Longrightarrow> i = 0"
    using assms(3) d(1) dec_digits_zero [of "nat \<bar>i\<bar>"] by (auto simp: peek_def show_int_def split: if_splits)
  then have "parse_int doc st = Inr (Integer i, skip (length (show_int i)) st)"
    using strtoll_show_int [OF assms(1,2) ends_token_c_str [OF assms(4)]] c_str_show_int [of i r] assms(3)
    by (auto simp: parse_int_def parse_assert_def show_int_def)
  moreover have "parse_finite_number fl opts doc st = parse_int doc st"
  proof (cases "i < 0")
    case True
    then have "peek 0 st = CHR ''-''" "peek 0 st2 = d"
      using assms(3) d rest2 by (auto simp: peek_def show_int_def)
    then show ?thesis
      using d digits no_float not_prefix True
      by (simp add: parse_finite_number_def parse_assert_def st2_def sign_def)
  next
    case False
    then have "peek 0 st = d" "st2 = st"
      using assms(3) d rest2 by (auto simp: peek_def show_int_def st2_def)
    then show ?thesis
      using d digits no_float not_prefix False
      by (simp add: parse_finite_number_def parse_assert_def sign_def)
  qed
  moreover have "parse_number fl opts doc st = parse_finite_number fl opts doc st"
    using assms(3) d by (auto simp: parse_number_def starts_def show_int_def is_digit_def)
  ultimately show ?thesis by simp
qed

end
