(* ===== verification/Cfg_Roundtrip.thy ===== *)
theory Cfg_Roundtrip
  imports Cfg_Json "HOL-Library.Multiset"
begin

text \<open>
  A value that was written as JSON is read back: the parser inverts the writer, up to positions and
  comments, for values without floating-point numbers and null characters. The order in which the members
  of an object were added is kept.
\<close>

section \<open>Values that JSON can hold\<close>

text \<open>
  The data of a value: without positions, comments and marks, with the members of an object numbered from 0
  in the order of their numbers.
\<close>

definition in_order :: "(string, 'f entry) std_map \<Rightarrow> (string \<times> 'f entry) list" where
  "in_order m = sort_key (\<lambda>p. e_nr (snd p)) m"

definition place :: "(string, 'f entry) std_map \<Rightarrow> string \<Rightarrow> nat" where
  "place m k = length (takeWhile (\<lambda>k'. k' \<noteq> k) (map fst (in_order m)))"

function strip :: "'f config \<Rightarrow> 'f config" where
  "strip c =
     (case c_value c of
        Object m \<Rightarrow> config_of (Object (map (\<lambda>(k, e). (k, Entry (strip (e_value e)) (place m k) False)) m))
      | Array xs \<Rightarrow> config_of (Array (map strip xs))
      | v \<Rightarrow> config_of v)"
  by pat_completeness auto
termination
  by (relation "measure size") (auto intro: size_element size_member)

function plain :: "'f config \<Rightarrow> bool" where
  "plain c \<longleftrightarrow>
     (case c_value c of
        Null \<Rightarrow> True
      | Bool _ \<Rightarrow> True
      | Integer i \<Rightarrow> - (2 ^ 63) \<le> i \<and> i < 2 ^ 63
      | Str s \<Rightarrow> CHR 0x00 \<notin> set s
      | Array xs \<Rightarrow> (\<forall>x\<in>set xs. plain x)
      | Object m \<Rightarrow> map_wf m \<and> (\<forall>p\<in>set m. CHR 0x00 \<notin> set (fst p) \<and> plain (e_value (snd p)))
      | _ \<Rightarrow> False)"
  by pat_completeness auto
termination
  by (relation "measure size") (auto intro: size_element size_member)

declare strip.simps [simp del] plain.simps [simp del]

lemma strip_Array: "c_value c = Array xs \<Longrightarrow> strip c = config_of (Array (map strip xs))"
  by (subst strip.simps) simp

lemma strip_tag [simp]: "strip (tag d l c) = strip c"
  by (simp add: strip.simps tag_def)


section \<open>Readable texts\<close>

text \<open>A text that begins like a value, and not like a keyword that is none.\<close>

definition value_head :: "string \<Rightarrow> bool" where
  "value_head t \<longleftrightarrow> t \<noteq> [] \<and> hd t \<notin> {CHR '']'', CHR ''}'', CHR 0x00} \<and> \<not> maybe_white (hd t) \<and>
     (ident_starter (hd t) \<longrightarrow> t \<in> {''true'', ''false'', ''null''})"

definition closes :: "string \<Rightarrow> bool" where
  "closes r \<longleftrightarrow> r = [] \<or> hd r \<in> {CHR '','', CHR '']'', CHR ''}''}"

text \<open>The parser reads \<open>c\<close> from the text \<open>t\<close>, with white space around it.\<close>

definition reads :: "'f floats \<Rightarrow> files \<Rightarrow> string \<Rightarrow> string \<Rightarrow> 'f config \<Rightarrow> bool" where
  "reads fl fs ind t c \<longleftrightarrow> value_head t \<and>
     (\<forall>n doc indent dst st w w2 r.
        p_rest st = w @ t @ w2 @ r \<longrightarrow> white w \<longrightarrow> white w2 \<longrightarrow> closes r \<longrightarrow> left st < n \<longrightarrow> c_value dst = Uninitialized \<longrightarrow>
        (\<exists>c' did st' w3. parse_value n fl fs (json ind) doc indent dst st = Inr (c', did, st') \<and>
           p_rest st' = w3 @ r \<and> white w3 \<and> length w3 \<le> length w2 \<and> p_info st' = p_info st \<and> strip c' = strip c))"

lemma closes_stops: "closes r \<Longrightarrow> stops r"
  by (cases r) (auto simp: closes_def stops_def maybe_white_def)

lemma value_head_stops: "value_head t \<Longrightarrow> stops (t @ r)"
  by (cases t) (auto simp: value_head_def stops_def)

lemma white_ends_token: "white w \<Longrightarrow> closes r \<Longrightarrow> ends_token (w @ r)"
  by (cases w) (auto simp: closes_def ends_token_def)

lemma check_indentation_json [simp]: "check_indentation (json ind) doc st e l = Inr ()"
  by (simp add: check_indentation_def throw_indentation_error_def)

text \<open>What is left to show for a kind of value: the step of the parser behind the white space.\<close>

lemma readsI:
  fixes fl :: "'f floats"
  assumes ind: "blank_indent ind" and head: "value_head t"
    and core: "\<And>n doc indent dst st w2 r. p_rest st = t @ w2 @ r \<Longrightarrow> white w2 \<Longrightarrow> closes r \<Longrightarrow> left st < Suc n \<Longrightarrow>
      c_value dst = Uninitialized \<Longrightarrow>
      \<exists>c' st'. (if peek 0 st = CHR ''{'' then parse_object n (parse_value n fl fs (json ind)) (json ind) doc indent dst st
            else if peek 0 st = CHR ''['' then parse_array n (parse_value n fl fs (json ind)) (json ind) doc indent dst st
            else if peek 0 st = CHR ''#'' then parse_macro n (parse_value n fl fs (json ind)) fs (json ind) doc dst st
            else bindE (parse_scalar fl (json ind) doc st) (\<lambda>(v, st2). Inr (assign dst (config_of v), st2))) = Inr (c', st') \<and>
        p_rest st' = w2 @ r \<and> p_info st' = p_info st \<and> strip c' = strip c"
  shows "reads fl fs ind t c"
  unfolding reads_def
proof (intro conjI allI impI)
  show "value_head t" by (rule head)
next
  fix n doc indent and dst :: "'f config" and st :: "'f pstate" and w w2 r
  assume st: "p_rest st = w @ t @ w2 @ r" "white w" and w2: "white w2" "closes r"
    and n: "left st < n" and dst: "c_value dst = Uninitialized"
  obtain k where k: "n = Suc k" using n by (cases n) auto
  obtain li st1 where st1: "skip_pre_white (json ind) doc dst st = Inr (dst, li, st1)" "p_rest st1 = t @ w2 @ r"
      "p_info st1 = p_info st"
    using skip_pre_white_white [OF ind value_head_stops [OF head] st] by blast
  have "left st1 < Suc k" using n k st st1(2) by simp
  then obtain c' st2 where c': "(if peek 0 st1 = CHR ''{'' then parse_object k (parse_value k fl fs (json ind)) (json ind) doc indent (tag doc (p_line st1) dst) st1
            else if peek 0 st1 = CHR ''['' then parse_array k (parse_value k fl fs (json ind)) (json ind) doc indent (tag doc (p_line st1) dst) st1
            else if peek 0 st1 = CHR ''#'' then parse_macro k (parse_value k fl fs (json ind)) fs (json ind) doc (tag doc (p_line st1) dst) st1
            else bindE (parse_scalar fl (json ind) doc st1) (\<lambda>(v, st2). Inr (assign (tag doc (p_line st1) dst) (config_of v), st2))) = Inr (c', st2)"
      "p_rest st2 = w2 @ r" "p_info st2 = p_info st1" "strip c' = strip c"
    using core [OF st1(2) w2, of k "tag doc (p_line st1) dst" doc indent] dst by (auto simp: tag_def)
  obtain did st3 w3 where "skip_post_white (json ind) doc c' st2 = Inr (c', did, st3)" "p_rest st3 = w3 @ r" "white w3"
      "p_info st3 = p_info st2"
    using skip_post_white_white [OF ind closes_stops [OF w2(2)] c'(2) w2(1)] by blast
  moreover from this have "length w3 \<le> length w2"
    using goesD [OF goes_post_white, of "json ind" doc c' st2] c'(2) by fastforce
  ultimately show "\<exists>c' did st' w3. parse_value n fl fs (json ind) doc indent dst st = Inr (c', did, st') \<and>
           p_rest st' = w3 @ r \<and> white w3 \<and> length w3 \<le> length w2 \<and> p_info st' = p_info st \<and> strip c' = strip c"
    using st1 c' k by (auto simp: Let_def)
qed


section \<open>Scalars\<close>

lemma reads_scalar:
  assumes "blank_indent ind" "value_head t" "hd t \<notin> {CHR ''{'', CHR ''['', CHR ''#''}"
    and "\<And>v' m xs. c_value c = v' \<Longrightarrow> v' \<noteq> Object m \<and> v' \<noteq> Array xs"
    and scalar: "\<And>doc (st :: 'f pstate) r. p_rest st = t @ r \<Longrightarrow> ends_token r \<Longrightarrow>
      \<exists>st'. parse_scalar fl (json ind) doc st = Inr (c_value c, st') \<and> p_rest st' = r \<and> p_info st' = p_info st"
  shows "reads fl fs ind t (c :: 'f config)"
proof (rule readsI [OF assms(1,2)])
  fix n doc indent and dst :: "'f config" and st :: "'f pstate" and w2 r
  assume st: "p_rest st = t @ w2 @ r" and w2: "white w2" "closes r"
  from scalar [OF st white_ends_token [OF w2], of doc] obtain st' where
    st': "parse_scalar fl (json ind) doc st = Inr (c_value c, st')" "p_rest st' = w2 @ r" "p_info st' = p_info st"
    by blast
  have "peek 0 st \<notin> {CHR ''{'', CHR ''['', CHR ''#''}"
    using st assms(2,3) by (cases t) (auto simp: peek_def value_head_def)
  moreover have "strip (assign dst (config_of (c_value c))) = strip c"
    using assms(4) by (cases "c_value c") (auto simp: strip.simps assign_def config_of_def Let_def)
  ultimately show "\<exists>c' st'. (if peek 0 st = CHR ''{'' then parse_object n (parse_value n fl fs (json ind)) (json ind) doc indent dst st
            else if peek 0 st = CHR ''['' then parse_array n (parse_value n fl fs (json ind)) (json ind) doc indent dst st
            else if peek 0 st = CHR ''#'' then parse_macro n (parse_value n fl fs (json ind)) fs (json ind) doc dst st
            else bindE (parse_scalar fl (json ind) doc st) (\<lambda>(v, st2). Inr (assign dst (config_of v), st2))) = Inr (c', st') \<and>
        p_rest st' = w2 @ r \<and> p_info st' = p_info st \<and> strip c' = strip c"
    using st' by auto
qed

lemma keyword_read:
  assumes "p_rest st = w @ r" "ends_token r"
  shows "keyword w msg v doc st = Inr (v, skip (length w) st)"
  using assms ends_token_hd [OF assms(2), of "skip (length w) st"]
  by (simp add: keyword_def parse_assert_def starts_def peek_skip)

lemma reads_keyword:
  assumes "blank_indent ind" "(t, c_value c) \<in> {(''null'', Null), (''true'', Bool True), (''false'', Bool False)}"
  shows "reads fl fs ind t c"
  using assms(2)
  by (intro reads_scalar [OF assms(1)])
    (auto simp: value_head_def maybe_white_def parse_scalar_def keyword_read peek_rest)

lemma reads_string:
  assumes "blank_indent ind" "c_value c = Str s" "CHR 0x00 \<notin> set s"
  shows "reads fl fs ind (write_quoted_string s) c"
proof (rule reads_scalar [OF assms(1)])
  fix doc and st :: "'a pstate" and r
  assume st: "p_rest st = write_quoted_string s @ r" "ends_token r"
  then have "r = [] \<or> hd r \<noteq> CHR 0x22" by (auto simp: ends_token_def)
  from parse_string_quoted [OF assms(3) st(1) this, of "json ind" doc] st
  show "\<exists>st'. parse_scalar fl (json ind) doc st = Inr (c_value c, st') \<and> p_rest st' = r \<and> p_info st' = p_info st"
    by (auto simp: parse_scalar_def assms(2) peek_def write_quoted_string_def)
qed (use assms in \<open>auto simp: value_head_def write_quoted_string_def maybe_white_def ident_starter_def\<close>)

lemma reads_integer:
  assumes "blank_indent ind" "c_value c = Integer i" "- (2 ^ 63) \<le> i" "i < 2 ^ 63"
  shows "reads fl fs ind (show_int i) c"
proof -
  obtain d ds where d: "show_int i = d # ds" "is_digit d \<or> d = CHR ''-''"
  proof -
    obtain d ds where "dec_digits (nat \<bar>i\<bar>) = d # ds" "is_digit d" using dec_digits_head by blast
    then show thesis
      using that [of d ds] that [of "CHR ''-''" "d # ds"] by (cases "i < 0") (simp_all add: show_int_def)
  qed
  have not_ident: "\<not> ident_starter d" "\<not> maybe_white d"
    using d(2) by (auto simp: is_digit_def ident_starter_def maybe_white_def less_eq_char_def)
  show ?thesis
  proof (rule reads_scalar [OF assms(1)])
    fix doc and st :: "'a pstate" and r
    assume st: "p_rest st = show_int i @ r" "ends_token r"
    then have "peek 0 st = d" using d(1) by (simp add: peek_def)
    then have "parse_scalar fl (json ind) doc st = parse_number fl (json ind) doc st"
      using d(2) by (auto simp: parse_scalar_def Let_def is_digit_def)
    then show "\<exists>st'. parse_scalar fl (json ind) doc st = Inr (c_value c, st') \<and> p_rest st' = r \<and> p_info st' = p_info st"
      using parse_number_written [OF assms(3,4) st, of fl "json ind" doc] st(1) by (auto simp: assms(2))
  qed (use d not_ident assms(2) in \<open>auto simp: value_head_def is_digit_def\<close>)
qed


section \<open>Arrays\<close>

text \<open>Texts with commas between them and white space around each.\<close>

fun spaced :: "string list \<Rightarrow> string \<Rightarrow> bool" where
  "spaced [] s \<longleftrightarrow> white s"
| "spaced (t # ts) s \<longleftrightarrow>
     (\<exists>w w2 s'. s = w @ t @ w2 @ s' \<and> white w \<and> white w2 \<and>
        (if ts = [] then s' = [] else \<exists>s''. s' = CHR '','' # s'' \<and> spaced ts s''))"

lemma spaced_white: "spaced ts s \<Longrightarrow> white w \<Longrightarrow> spaced ts (w @ s)"
proof (cases ts)
  case (Cons t ts')
  assume "spaced ts s" "white w"
  then obtain w1 w2 s' where "s = w1 @ t @ w2 @ s'" "white w1" "white w2"
      "if ts' = [] then s' = [] else \<exists>s''. s' = CHR '','' # s'' \<and> spaced ts' s''"
    using Cons by auto
  then show ?thesis
    unfolding Cons spaced.simps
    by (intro exI [of _ "w @ w1"] exI [of _ w2] exI [of _ s']) (use \<open>white w\<close> in auto)
qed simp

lemma spaced_white_right: "spaced ts s \<Longrightarrow> white w \<Longrightarrow> spaced ts (s @ w)"
proof (induction ts s rule: spaced.induct)
  case (2 t ts s)
  then obtain w1 w2 s' where s: "s = w1 @ t @ w2 @ s'" "white w1" "white w2"
      "if ts = [] then s' = [] else \<exists>s''. s' = CHR '','' # s'' \<and> spaced ts s''"
    by auto
  show ?case
  proof (cases "ts = []")
    case True
    then show ?thesis
      unfolding spaced.simps by (intro exI [of _ w1] exI [of _ "w2 @ w"] exI [of _ "[]"]) (use s "2.prems" True in simp_all)
  next
    case False
    then obtain s'' where s'': "s' = CHR '','' # s''" "spaced ts s''" using s(4) by auto
    then have "spaced ts (s'' @ w)" using "2.IH" False s "2.prems" by blast
    then show ?thesis
      unfolding spaced.simps
      by (intro exI [of _ w1] exI [of _ w2] exI [of _ "CHR '','' # s'' @ w"]) (use s s'' False in simp)
  qed
qed simp

text \<open>What follows a value: a comma and the next one, or the end.\<close>

lemma after_value_comma:
  assumes "blank_indent ind" "p_rest st = w @ CHR '','' # s" "white w" "stops s' " "s = w2 @ s'" "white w2"
  shows "\<exists>st1 st2 w3. after_value (json ind) doc v sep st = Inr (v, True, True, [], st1, st2) \<and>
    p_rest st2 = w3 @ s' \<and> white w3 \<and> p_info st2 = p_info st"
proof -
  have "stops (CHR '','' # s)" by (simp add: stops_def maybe_white_def)
  then obtain did i st1 where st1: "skip_white (json ind) doc False st = Inr (did, i, [], st1)"
      "p_rest st1 = CHR '','' # s" "p_info st1 = p_info st"
    using skip_white_white [OF assms(1) _ assms(2,3), of doc False] by (auto simp: past_white_def)
  have "p_rest (skip 1 st1) = w2 @ s'" using st1(2) assms(5) by simp
  from skip_post_white_white [OF assms(1,4) this assms(6), of doc v] st1
  show ?thesis by (auto simp: after_value_def peek_rest)
qed

lemma after_value_end:
  assumes "blank_indent ind" "p_rest st = w @ r" "white w" "r = [] \<or> hd r \<in> {CHR '']'', CHR ''}''}"
  shows "\<exists>st1. after_value (json ind) doc v sep st = Inr (v, sep, False, [], st1, st1) \<and>
    p_rest st1 = r \<and> p_info st1 = p_info st"
proof -
  have "stops r" using assms(4) by (cases r) (auto simp: stops_def maybe_white_def)
  then obtain did i st1 where st1: "skip_white (json ind) doc False st = Inr (did, i, [], st1)"
      "p_rest st1 = r" "p_info st1 = p_info st"
    using skip_white_white [OF assms(1) _ assms(2,3), of doc False] by (auto simp: past_white_def)
  moreover have "peek 0 st1 \<noteq> CHR '',''" using assms(4) st1(2) by (cases r) (auto simp: peek_def)
  ultimately show ?thesis by (auto simp: after_value_def)
qed

definition item_head :: "string \<Rightarrow> bool" where
  "item_head t \<longleftrightarrow> t \<noteq> [] \<and> hd t \<notin> {CHR '']'', CHR ''}'', CHR 0x00} \<and> \<not> maybe_white (hd t)"

lemma value_item_head: "value_head t \<Longrightarrow> item_head t"
  by (simp add: value_head_def item_head_def)

lemma next_item:
  assumes ind: "blank_indent ind" and st: "p_rest st = w @ s' @ r" "white w"
    and s': "if ts = [] then s' = [] else \<exists>s''. s' = CHR '','' # s'' \<and> spaced ts s''"
    and heads: "\<forall>t\<in>set ts. item_head t"
    and r: "r = [] \<or> hd r = close" "close \<in> {CHR '']'', CHR ''}''}"
  shows "\<exists>sep' comma st1 st2 s2. after_value (json ind) doc v sep st = Inr (v, sep', comma, [], st1, st2) \<and>
    check_comma doc close trailing False sep' comma st1 st2 = Inr () \<and>
    p_rest st2 = s2 @ r \<and> spaced ts s2 \<and> p_info st2 = p_info st"
proof (cases ts)
  case Nil
  then have "p_rest st = w @ r" using st s' by simp
  moreover have "r = [] \<or> hd r \<in> {CHR '']'', CHR ''}''}" using r by auto
  ultimately obtain st1 where st1: "after_value (json ind) doc v sep st = Inr (v, sep, False, [], st1, st1)"
      "p_rest st1 = r" "p_info st1 = p_info st"
    using after_value_end [OF ind _ st(2)] by blast
  moreover have "peek 0 st1 \<in> {close, CHR 0x00}" using r(1) st1(2) by (cases r) (auto simp: peek_def)
  ultimately show ?thesis using Nil by (auto simp: check_comma_def parse_assert_def)
next
  case (Cons t ts')
  then obtain s'' where s'': "s' = CHR '','' # s''" "spaced (t # ts') s''" using s' by auto
  then obtain w1 w2 u where u: "s'' = w1 @ t @ w2 @ u" "white w1" "white w2"
      "if ts' = [] then u = [] else \<exists>s''. u = CHR '','' # s'' \<and> spaced ts' s''"
    by auto
  have head: "item_head t" using heads Cons by simp
  then have "stops ((t @ w2 @ u) @ r)" by (cases t) (auto simp: item_head_def stops_def)
  from after_value_comma [OF ind _ st(2) this _ u(2), of st "s'' @ r" doc v sep] st(1) s''(1) u(1)
  obtain st1 st2 w3 where st2: "after_value (json ind) doc v sep st = Inr (v, True, True, [], st1, st2)"
      "p_rest st2 = w3 @ (t @ w2 @ u) @ r" "white w3" "p_info st2 = p_info st"
    by auto
  have "peek 0 st2 \<notin> {close, CHR 0x00}"
    using st2(2,3) head r(2) by (cases w3; cases t) (auto simp: peek_def item_head_def)
  then have "check_comma doc close trailing False True True st1 st2 = Inr ()"
    by (simp add: check_comma_def parse_assert_def)
  moreover have "spaced ts (w3 @ t @ w2 @ u)"
    unfolding Cons spaced.simps by (intro exI [of _ w3] exI [of _ w2] exI [of _ u]) (use st2(3) u in auto)
  ultimately show ?thesis using st2 by fastforce
qed

lemma reserved_keyword:
  assumes "p_rest st = t @ r" "ends_token r" "value_head t"
  shows "\<not> (ident_starter (peek 0 st) \<and> \<not> is_reserved_identifier st)"
proof -
  have "peek 0 st = hd t" using assms(1,3) by (cases t) (auto simp: peek_def value_head_def)
  moreover have "is_reserved_identifier st" if "t \<in> {''true'', ''false'', ''null''}"
    using that assms(1) ends_token_hd [OF assms(2), of "skip (length t) st"]
    by (auto simp: is_reserved_identifier_def starts_def peek_skip eval_nat_numeral)
  ultimately show ?thesis using assms(3) by (auto simp: value_head_def)
qed

lemma prefix_comments_Nil: "prefix_comments [] = config_of Uninitialized"
  by (simp add: prefix_comments_def set_comments_def config_of_def no_comments_def)

lemma config_of_sel [simp]: "c_value (config_of v) = v" "c_comments (config_of v) = no_comments"
  by (simp_all add: config_of_def)

lemma cm_prefix_no_comments [simp]: "cm_prefix no_comments = []"
  by (simp add: no_comments_def)

lemma array_loop_reads:
  fixes fl :: "'f floats"
  assumes ind: "blank_indent ind" and r: "r = [] \<or> hd r = CHR '']''"
  shows "list_all2 (reads fl fs ind) ts xs \<Longrightarrow> p_rest st = s @ r \<Longrightarrow> spaced ts s \<Longrightarrow> left st < n \<Longrightarrow> left st < fuel \<Longrightarrow>
    \<exists>ys st'. array_loop fuel (parse_value n fl fs (json ind)) (json ind) doc indent acc [] st = Inr (acc @ ys, [], st') \<and>
      map strip ys = map strip xs \<and> p_rest st' = r \<and> p_info st' = p_info st"
proof (induction ts xs arbitrary: s st fuel acc rule: list_all2_induct)
  case Nil
  obtain k where k: "fuel = Suc k" using Nil by (cases fuel) auto
  have "stops r" using r by (cases r) (auto simp: stops_def maybe_white_def)
  then obtain li st1 where st1: "skip_pre_white (json ind) doc (config_of Uninitialized :: 'f config) st = Inr (config_of Uninitialized, li, st1)"
      "p_rest st1 = r" "p_info st1 = p_info st"
    using skip_pre_white_white [OF ind _ Nil(1)] Nil(2) by fastforce
  have "peek 0 st1 = CHR '']'' \<or> peek 0 st1 = CHR 0x00" using r st1(2) by (cases r) (auto simp: peek_def)
  then show ?case using st1 k by (auto simp: prefix_comments_Nil)
next
  case (Cons t ts x xs)
  obtain k where k: "fuel = Suc k" using Cons.prems by (cases fuel) auto
  obtain w w2 s' where s: "s = w @ t @ w2 @ s'" "white w" "white w2"
      "if ts = [] then s' = [] else \<exists>s''. s' = CHR '','' # s'' \<and> spaced ts s''"
    using Cons.prems(2) by auto
  have head: "value_head t" and heads: "\<forall>t\<in>set ts. item_head t"
    using Cons.hyps by (auto simp: reads_def list_all2_conv_all_nth in_set_conv_nth value_item_head)
  obtain li st1 where st1: "skip_pre_white (json ind) doc (config_of Uninitialized :: 'f config) st = Inr (config_of Uninitialized, li, st1)"
      "p_rest st1 = t @ w2 @ s' @ r" "p_info st1 = p_info st"
    using skip_pre_white_white [OF ind value_head_stops [OF head]] Cons.prems(1) s by fastforce
  have closes: "closes (s' @ r)" using s(4) r by (auto simp: closes_def split: if_splits)
  have "left st1 < n" using Cons.prems(1,3) st1(2) s(1) by simp
  then obtain c' did st2 w3 where st2: "parse_value n fl fs (json ind) doc indent (config_of Uninitialized) st1 = Inr (c', did, st2)"
      "p_rest st2 = w3 @ s' @ r" "white w3" "length w3 \<le> length w2" "p_info st2 = p_info st1" "strip c' = strip x"
    using Cons.hyps(1) st1(2) s(3) closes unfolding reads_def
    by (metis append_Nil config_of_sel(1) white_simps(1))
  obtain sep' comma st3 st4 s4 where st4: "after_value (json ind) doc c' did st2 = Inr (c', sep', comma, [], st3, st4)"
      "check_comma doc (CHR '']'') (array_trailing_comma (json ind)) False sep' comma st3 st4 = Inr ()"
      "p_rest st4 = s4 @ r" "spaced ts s4" "p_info st4 = p_info st2"
    using next_item [OF ind st2(2,3) s(4) heads r, of doc c' did "array_trailing_comma (json ind)"] by auto
  have "t \<noteq> []" using head by (simp add: value_head_def)
  then have "left st2 < left st" using st2(2,4) Cons.prems(1) s(1) by (cases t) simp_all
  then have less: "left st4 < left st"
    using goesD [OF goes_after_value st4(1)] by simp
  obtain ys st5 where st5: "array_loop k (parse_value n fl fs (json ind)) (json ind) doc indent (acc @ [c']) [] st4 = Inr (acc @ [c'] @ ys, [], st5)"
      "map strip ys = map strip xs" "p_rest st5 = r" "p_info st5 = p_info st4"
    using Cons.IH [OF st4(3,4), of k "acc @ [c']"] less Cons.prems k by auto
  have "peek 0 st1 \<notin> {CHR '']'', CHR 0x00}" using head st1(2) by (cases t) (auto simp: peek_def value_head_def)
  moreover have "\<not> (ident_starter (peek 0 st1) \<and> \<not> is_reserved_identifier st1)"
    using reserved_keyword [OF st1(2) white_ends_token [OF s(3) closes] head] .
  ultimately show ?case
    using st1 st2 st4 st5 k
    by (intro exI [of _ "c' # ys"] exI [of _ st5]) (simp add: prefix_comments_Nil parse_assert_def)
qed

lemma array_of_uninitialized: "c_value c = Uninitialized \<Longrightarrow> array_of c xs [] = Inr (set_value (Array xs) c)"
  by (simp add: array_of_def make_array_def set_value_def)

lemma reads_array:
  assumes ind: "blank_indent ind" and c: "c_value c = Array xs" and items: "list_all2 (reads fl fs ind) ts xs" "spaced ts s"
  shows "reads fl fs ind (CHR ''['' # s @ [CHR '']'']) c"
proof (rule readsI [OF ind])
  show "value_head (CHR ''['' # s @ [CHR '']''])"
    by (simp add: value_head_def maybe_white_def ident_starter_def less_eq_char_def)
next
  fix n doc indent and dst :: "'a config" and st :: "'a pstate" and w2 r
  assume st: "p_rest st = (CHR ''['' # s @ [CHR '']'']) @ w2 @ r" "left st < Suc n" and dst: "c_value dst = Uninitialized"
  have "p_rest (skip 1 st) = s @ CHR '']'' # w2 @ r" "left (skip 1 st) < n" using st by auto
  from array_loop_reads [OF ind _ items(1) this(1) items(2) this(2) this(2), of doc "indent + 1" "[]"]
  obtain ys st2 where "array_loop n (parse_value n fl fs (json ind)) (json ind) doc (indent + 1) [] [] (skip 1 st) = Inr (ys, [], st2)"
      "map strip ys = map strip xs" "p_rest st2 = CHR '']'' # w2 @ r" "p_info st2 = p_info st"
    by auto
  moreover from this have "strip (set_value (Array ys) dst) = strip c"
    using strip_Array [OF c] strip_Array [of "set_value (Array ys) dst" ys] by (simp add: set_value_def)
  ultimately show "\<exists>c' st'. (if peek 0 st = CHR ''{'' then parse_object n (parse_value n fl fs (json ind)) (json ind) doc indent dst st
            else if peek 0 st = CHR ''['' then parse_array n (parse_value n fl fs (json ind)) (json ind) doc indent dst st
            else if peek 0 st = CHR ''#'' then parse_macro n (parse_value n fl fs (json ind)) fs (json ind) doc dst st
            else bindE (parse_scalar fl (json ind) doc st) (\<lambda>(v, st2). Inr (assign dst (config_of v), st2))) = Inr (c', st') \<and>
        p_rest st' = w2 @ r \<and> p_info st' = p_info st \<and> strip c' = strip c"
    using st(1) by (auto simp: peek_rest parse_array_def swallow_def array_of_uninitialized [OF dst] parse_assert_def)
qed


section \<open>Objects\<close>

definition strip_map :: "(string, 'f entry) std_map \<Rightarrow> (string, 'f entry) std_map" where
  "strip_map m = map (\<lambda>(k, e). (k, Entry (strip (e_value e)) (e_nr e) False)) m"

definition placed :: "(string, 'f entry) std_map \<Rightarrow> (string, 'f entry) std_map" where
  "placed m = map (\<lambda>(k, e). (k, Entry (strip (e_value e)) (place m k) False)) m"

lemma strip_map_set: "strip_map (map_set k e m) = map_set k (Entry (strip (e_value e)) (e_nr e) False) (strip_map m)"
  by (induction k e m rule: map_set.induct) (auto simp: strip_map_def)

lemma length_strip_map: "length (strip_map m) = length m"
  by (simp add: strip_map_def)

lemma find_strip_map: "map_find (strip_map m) k = map_option (\<lambda>e. Entry (strip (e_value e)) (e_nr e) False) (map_find m k)"
  by (induction m) (auto simp: strip_map_def)

lemma strip_map_insert: "strip_map (map_insert k e m) = map_insert k (Entry (strip (e_value e)) (e_nr e) False) (strip_map m)"
  by (simp add: map_insert_def find_strip_map strip_map_set split: option.splits)

text \<open>A member: its key, the white space behind the colon, the text of its value, and the value.\<close>

type_synonym 'f member = "string \<times> string \<times> string \<times> 'f config"

definition member_text :: "'f member \<Rightarrow> string" where
  "member_text p = (case p of (k, w, t, x) \<Rightarrow> write_quoted_string k @ CHR '':'' # w @ t)"

definition member_ok :: "'f floats \<Rightarrow> files \<Rightarrow> string \<Rightarrow> 'f member \<Rightarrow> bool" where
  "member_ok fl fs ind p \<longleftrightarrow> (case p of (k, w, t, x) \<Rightarrow> CHR 0x00 \<notin> set k \<and> white w \<and> reads fl fs ind t x)"

definition add_member :: "'f member \<Rightarrow> (string, 'f entry) std_map \<Rightarrow> (string, 'f entry) std_map" where
  "add_member p m = (case p of (k, w, t, x) \<Rightarrow> map_insert k (Entry (strip x) (length m) False) m)"

lemma add_member_simp [simp]: "add_member (k, w, t, x) m = map_insert k (Entry (strip x) (length m) False) m"
  by (simp add: add_member_def)

lemma member_item_head: "item_head (member_text p)"
  by (auto simp: member_text_def item_head_def write_quoted_string_def maybe_white_def split: prod.splits)

lemma parse_colon_read:
  assumes "blank_indent ind" "p_rest st = CHR '':'' # w @ r" "white w" "stops r"
  shows "\<exists>st'. parse_colon (json ind) doc st = Inr st' \<and> p_rest st' = r \<and> p_info st' = p_info st"
proof -
  have "stops (CHR '':'' # w @ r)" by (simp add: stops_def maybe_white_def)
  from ignore_comments_white [OF assms(1) this, of st "[]" doc] assms(2) obtain b st1 where
    st1: "skip_white_ignore_comments (json ind) doc st = Inr (b, st1)" "p_rest st1 = CHR '':'' # w @ r" "p_info st1 = p_info st"
    by auto
  have "p_rest (skip 1 st1) = w @ r" using st1(2) by simp
  from ignore_comments_white [OF assms(1,4) this assms(3), of doc] st1 show ?thesis
    by (auto simp: parse_colon_def peek_rest parse_assert_def)
qed

lemma parse_key_read:
  assumes "CHR 0x00 \<notin> set k" "p_rest st = write_quoted_string k @ CHR '':'' # r"
  shows "\<exists>st'. parse_key opts doc st = Inr (k, st') \<and> p_rest st' = CHR '':'' # r \<and> p_info st' = p_info st"
proof -
  have "peek 0 st = CHR 0x22" using assms(2) by (simp add: peek_def write_quoted_string_def)
  then show ?thesis
    using parse_string_quoted [OF assms, of opts doc] by (simp add: parse_key_def ident_starter_def less_eq_char_def)
qed

lemma object_loop_reads:
  fixes fl :: "'f floats"
  assumes ind: "blank_indent ind"
  shows "\<forall>p\<in>set ms. member_ok fl fs ind p \<Longrightarrow> distinct (map fst ms) \<Longrightarrow> \<forall>p\<in>set ms. map_find m (fst p) = None \<Longrightarrow>
    p_rest st = s @ CHR ''}'' # r \<Longrightarrow> spaced (map member_text ms) s \<Longrightarrow> left st < n \<Longrightarrow> left st < fuel \<Longrightarrow>
    \<exists>m' st'. object_loop fuel (parse_value n fl fs (json ind)) (json ind) doc indent m [] st = Inr (m', [], st') \<and>
      strip_map m' = fold add_member ms (strip_map m) \<and> p_rest st' = CHR ''}'' # r \<and> p_info st' = p_info st"
proof (induction ms arbitrary: s st fuel m)
  case Nil
  obtain k where k: "fuel = Suc k" using Nil by (cases fuel) auto
  have "stops (CHR ''}'' # r)" by (simp add: stops_def maybe_white_def)
  then obtain li st1 where st1: "skip_pre_white (json ind) doc (config_of Uninitialized :: 'f config) st = Inr (config_of Uninitialized, li, st1)"
      "p_rest st1 = CHR ''}'' # r" "p_info st1 = p_info st"
    using skip_pre_white_white [OF ind _ Nil(4)] Nil(5) by fastforce
  then show ?case using k by (auto simp: prefix_comments_Nil peek_rest)
next
  case (Cons p ms)
  obtain k where k: "fuel = Suc k" using Cons.prems by (cases fuel) auto
  obtain key u t x where p: "p = (key, u, t, x)" by (metis prod.collapse)
  have ok: "CHR 0x00 \<notin> set key" "white u" "reads fl fs ind t x" using Cons.prems(1) by (auto simp: p member_ok_def)
  obtain w w2 s' where s: "s = w @ member_text p @ w2 @ s'" "white w" "white w2"
      "if map member_text ms = [] then s' = [] else \<exists>s''. s' = CHR '','' # s'' \<and> spaced (map member_text ms) s''"
    using Cons.prems(5) unfolding list.map spaced.simps by blast
  have heads: "\<forall>t\<in>set (map member_text ms). item_head t" by (auto simp: member_item_head)
  have closes: "closes (s' @ CHR ''}'' # r)" using s(4) by (auto simp: closes_def split: if_splits)
  have "stops (member_text p @ w2 @ s' @ CHR ''}'' # r)"
    using member_item_head [of p] by (cases "member_text p") (auto simp: item_head_def stops_def)
  then obtain li st1 where st1: "skip_pre_white (json ind) doc (config_of Uninitialized :: 'f config) st = Inr (config_of Uninitialized, li, st1)"
      "p_rest st1 = member_text p @ w2 @ s' @ CHR ''}'' # r" "p_info st1 = p_info st"
    using skip_pre_white_white [OF ind] Cons.prems(4) s(1,2) by fastforce
  obtain st2 where st2: "parse_key (json ind) doc st1 = Inr (key, st2)"
      "p_rest st2 = CHR '':'' # u @ t @ w2 @ s' @ CHR ''}'' # r" "p_info st2 = p_info st1"
    using parse_key_read [OF ok(1)] st1(2) by (fastforce simp: p member_text_def)
  have "stops (t @ w2 @ s' @ CHR ''}'' # r)" using ok(3) value_head_stops by (simp add: reads_def)
  then obtain st3 where st3: "parse_colon (json ind) doc st2 = Inr st3"
      "p_rest st3 = t @ w2 @ s' @ CHR ''}'' # r" "p_info st3 = p_info st2"
    using parse_colon_read [OF ind st2(2) ok(2)] by blast
  have len: "left st3 < left st" using Cons.prems(4) s(1) st3(2) by (simp add: p member_text_def)
  then have "left st3 < n" using Cons.prems(6) by simp
  then obtain c' did st4 w3 where st4: "parse_value n fl fs (json ind) doc indent (config_of Uninitialized) st3 = Inr (c', did, st4)"
      "p_rest st4 = w3 @ s' @ CHR ''}'' # r" "white w3" "length w3 \<le> length w2" "p_info st4 = p_info st3" "strip c' = strip x"
    using ok(3) st3(2) s(3) closes unfolding reads_def
    by (metis append_Nil config_of_sel(1) white_simps(1))
  obtain sep' comma st5 st6 s6 where st6: "after_value (json ind) doc c' did st4 = Inr (c', sep', comma, [], st5, st6)"
      "check_comma doc (CHR ''}'') (object_trailing_comma (json ind)) False sep' comma st5 st6 = Inr ()"
      "p_rest st6 = s6 @ CHR ''}'' # r" "spaced (map member_text ms) s6" "p_info st6 = p_info st4"
    using next_item [OF ind st4(2,3) s(4) heads, of "CHR ''}''" doc c' did "object_trailing_comma (json ind)"] by auto
  have less: "left st6 < left st" using goesD [OF goes_after_value st6(1)] st4(2,4) st3(2) len by simp
  let ?m = "map_insert key (Entry c' (length m) False) m"
  have fresh: "\<forall>p\<in>set ms. map_find ?m (fst p) = None"
    using Cons.prems(2,3) by (auto simp: map_find_map_insert p)
  have new: "map_find m key = None" using Cons.prems(3) by (simp add: p)
  obtain m' st7 where st7: "object_loop k (parse_value n fl fs (json ind)) (json ind) doc indent ?m [] st6 = Inr (m', [], st7)"
      "strip_map m' = fold add_member ms (strip_map ?m)" "p_rest st7 = CHR ''}'' # r" "p_info st7 = p_info st6"
    using Cons.IH [OF _ _ fresh st6(3,4), of k] less Cons.prems k by auto
  have "peek 0 st1 \<notin> {CHR ''}'', CHR 0x00}"
    using member_item_head [of p] st1(2) by (cases "member_text p") (auto simp: peek_def item_head_def)
  then show ?case
    using st1 st2 st3 st4 st6 st7 k new
    by (intro exI [of _ m'] exI [of _ st7]) (simp add: prefix_comments_Nil check_duplicate_def p strip_map_insert length_strip_map)
qed

section \<open>The order of the members\<close>

text \<open>A sorted object is known by its members.\<close>

lemma map_wf_ext:
  assumes "map_wf a" "map_wf b" "map_find a = map_find b"
  shows "a = b"
proof -
  have "set a = set b"
    using assms(3) map_wf_distinct [OF assms(1)] map_wf_distinct [OF assms(2)]
    by (metis map_find_def map_of_eq_Some_iff subrelI subset_antisym ext)
  moreover have "sorted (map fst a)" "sorted (map fst b)" "inj_on fst (set a \<union> set b)"
    using assms(1,2) map_wf_distinct \<open>set a = set b\<close>
    by (auto simp: map_wf_def strict_sorted_iff distinct_map)
  ultimately show ?thesis
    using map_wf_distinct [OF assms(1)] map_wf_distinct [OF assms(2)]
    by (intro map_sorted_distinct_set_unique [of fst]) auto
qed

lemma takeWhile_other: "distinct xs \<Longrightarrow> i < length xs \<Longrightarrow> length (takeWhile (\<lambda>y. y \<noteq> xs ! i) xs) = i"
proof (induction xs arbitrary: i)
  case (Cons x xs)
  then show ?case by (cases i) auto
qed simp

lemma in_order_permutes: "mset (in_order m) = mset m" "set (in_order m) = set m" "length (in_order m) = length m"
  by (simp_all add: in_order_def)

lemma distinct_in_order: "map_wf m \<Longrightarrow> distinct (map fst (in_order m))"
  using map_wf_distinct [of m] by (simp add: in_order_def distinct_map)

lemma place_nth: "map_wf m \<Longrightarrow> i < length m \<Longrightarrow> place m (fst (in_order m ! i)) = i"
  using takeWhile_other [OF distinct_in_order, of m i] by (simp add: place_def in_order_permutes)

lemma placed_keys: "map fst (placed m) = map fst m"
  by (simp add: placed_def split_def comp_def)

lemma find_placed: "map_find (placed m) k = map_option (\<lambda>e. Entry (strip (e_value e)) (place m k) False) (map_find m k)"
proof -
  have "map_find (map (\<lambda>(k, e). (k, Entry (strip (e_value e)) (place m k) False)) ms) k =
      map_option (\<lambda>e. Entry (strip (e_value e)) (place m k) False) (map_find ms k)" for ms
    by (induction ms) auto
  then show ?thesis by (simp add: placed_def)
qed

text \<open>Members that are added one after the other get their positions as numbers.\<close>

fun numbered :: "nat \<Rightarrow> 'f member list \<Rightarrow> (string \<times> 'f entry) list" where
  "numbered n [] = []"
| "numbered n ((k, w, t, x) # ms) = (k, Entry (strip x) n False) # numbered (Suc n) ms"

lemma numbered_keys [simp]: "map fst (numbered n ms) = map fst ms"
  by (induction n ms rule: numbered.induct) auto

lemma numbered_append: "numbered n (ms @ ms') = numbered n ms @ numbered (n + length ms) ms'"
  by (induction n ms rule: numbered.induct) auto

lemma numbered_length [simp]: "length (numbered n ms) = length ms"
  by (induction n ms rule: numbered.induct) auto

lemma numbered_nth:
  "i < length ms \<Longrightarrow> numbered n ms ! i = (fst (ms ! i), Entry (strip (snd (snd (snd (ms ! i))))) (n + i) False)"
proof (induction n ms arbitrary: i rule: numbered.induct)
  case (2 n k w t x ms)
  then show ?case by (cases i) auto
qed simp

lemma numbered_none: "map_of (numbered n ms) k = None \<longleftrightarrow> k \<notin> fst ` set ms"
  using numbered_keys [of n ms] by (metis map_of_eq_None_iff list.set_map)

lemma find_members:
  assumes "distinct (map fst ms)"
  shows "length (fold add_member ms []) = length ms \<and>
    map_find (fold add_member ms []) = map_of (numbered 0 ms)"
  using assms
proof (induction ms rule: rev_induct)
  case Nil
  then show ?case by (simp add: map_find_Nil)
next
  case (snoc p ms)
  obtain k w t x where p: "p = (k, w, t, x)" by (metis prod.collapse)
  have new: "map_of (numbered 0 ms) k = None" using snoc.prems by (auto simp: p numbered_none)
  then have none: "map_find (fold add_member ms []) k = None" using snoc by simp
  then have "length (map_set k e (fold add_member ms [])) = Suc (length (fold add_member ms []))" for e
    by (rule length_map_set_new)
  then show ?case
    using snoc none new
    by (auto simp: p map_insert_def map_find_map_set numbered_append map_add_def fun_eq_iff split: option.splits)
qed

lemma wf_members: "map_wf m \<Longrightarrow> map_wf (fold add_member ms m)"
  by (induction ms arbitrary: m) (auto simp: add_member_def map_wf_map_insert)

lemma fold_members:
  assumes "map_wf m" "map (\<lambda>(k, w, t, x). (k, x)) ms = map (\<lambda>(k, e). (k, e_value e)) (in_order m)"
  shows "fold add_member ms [] = placed m"
proof (rule map_wf_ext)
  show "map_wf (fold add_member ms [])" by (simp add: wf_members)
  show "map_wf (placed m)" using assms(1) by (simp add: map_wf_def placed_keys)
  have "map fst ms = map fst (map (\<lambda>(k, w, t, x). (k, x)) ms)" by (simp add: split_def comp_def)
  also have "\<dots> = map fst (in_order m)" unfolding assms(2) by (simp add: split_def comp_def)
  finally have keys: "map fst ms = map fst (in_order m)" .
  let ?kvs = "numbered 0 ms"
  have len: "length ms = length m" using keys in_order_permutes(3) [of m] by (metis length_map)
  have nth: "(fst (ms ! i), snd (snd (snd (ms ! i)))) = (fst (in_order m ! i), e_value (snd (in_order m ! i)))" if "i < length m" for i
  proof -
    have "map (\<lambda>(k, w, t, x). (k, x)) ms ! i = map (\<lambda>(k, e). (k, e_value e)) (in_order m) ! i" by (simp add: assms(2))
    then show ?thesis using that len by (simp add: in_order_permutes split_def)
  qed
  have "map_of ?kvs k = map_option (\<lambda>e. Entry (strip (e_value e)) (place m k) False) (map_find m k)" for k
  proof (cases "map_find m k")
    case None
    then have "k \<notin> fst ` set m" by (simp add: map_find_def map_of_eq_None_iff)
    moreover have "fst ` set ms = fst ` set m" using keys by (metis in_order_permutes(2) list.set_map)
    ultimately show ?thesis using None numbered_none [of 0 ms k] by simp
  next
    case (Some e)
    then have "(k, e) \<in> set (in_order m)" by (simp add: in_order_permutes map_find_def map_of_SomeD)
    then obtain i where i: "i < length m" "in_order m ! i = (k, e)" using in_order_permutes(3) [of m] by (metis in_set_conv_nth)
    have "?kvs ! i = (k, Entry (strip (e_value e)) i False)"
      using nth [OF i(1)] i len by (simp add: numbered_nth)
    then have "(k, Entry (strip (e_value e)) i False) \<in> set ?kvs" using i(1) len by (metis numbered_length nth_mem)
    moreover have "distinct (map fst ?kvs)" using keys distinct_in_order [OF assms(1)] by simp
    moreover have "place m k = i" using place_nth [OF assms(1) i(1)] i(2) by simp
    ultimately show ?thesis using Some by simp
  qed
  then show "map_find (fold add_member ms []) = map_find (placed m)"
    using find_members [of ms] keys distinct_in_order [OF assms(1)] by (simp add: fun_eq_iff find_placed)
qed

lemma write_order_json: "write_order (json ind) m = in_order m"
  by (simp add: write_order_def in_order_def)


text \<open>Members with the numbers 0, 1, ... are in the order of these numbers.\<close>

lemma in_order_keys:
  assumes "distinct (map fst m)" "distinct ks" "set ks = fst ` set m"
    and nr: "\<And>i. i < length ks \<Longrightarrow> e_nr (the (map_find m (ks ! i))) = i"
  shows "in_order m = map (\<lambda>k. (k, the (map_find m k))) ks"
proof -
  let ?ys = "map (\<lambda>k. (k, the (map_find m k))) ks"
  have find: "map_find m k = Some e" if "(k, e) \<in> set m" for k e
    using assms(1) that by (simp add: map_find_def)
  have "set ?ys = set m"
  proof
    have "(k, the (map_find m k)) \<in> set m" if k: "k \<in> set ks" for k
    proof -
      from k obtain e where "(k, e) \<in> set m" unfolding assms(3) by auto
      then show ?thesis using find by simp
    qed
    then show "set ?ys \<subseteq> set m" by auto
    have "(k, e) \<in> set ?ys" if "(k, e) \<in> set m" for k e
    proof -
      from that have "k \<in> set ks" unfolding assms(3) by (rule image_eqI [rotated]) simp
      then show ?thesis using find [OF that] by (auto intro: image_eqI [of _ _ k])
    qed
    then show "set m \<subseteq> set ?ys" by auto
  qed
  moreover have "distinct ?ys" "distinct m" using assms(1,2) by (auto simp: distinct_map inj_on_def)
  ultimately have "mset m = mset ?ys" by (metis set_eq_iff_mset_eq_distinct)
  moreover have "sorted (map (\<lambda>p. e_nr (snd p)) ?ys)" using nr by (simp add: sorted_iff_nth_mono)
  moreover have "inj_on (\<lambda>p. e_nr (snd p)) (set m)"
  proof (rule inj_onI)
    fix p q assume "p \<in> set m" "q \<in> set m" and eq: "e_nr (snd p) = e_nr (snd q)"
    then have "p \<in> set ?ys" "q \<in> set ?ys" using \<open>set ?ys = set m\<close> by simp_all
    then obtain i j where "p = ?ys ! i" "i < length ks" "q = ?ys ! j" "j < length ks"
      unfolding in_set_conv_nth length_map by blast
    then show "p = q" using eq nr [of i] nr [of j] by simp
  qed
  ultimately show ?thesis unfolding in_order_def by (intro sort_key_inj_key_eq)
qed

text \<open>An object whose members have their positions as numbers is its own data.\<close>

lemma placed_again:
  assumes "strip_map m' = placed m" "map_wf m"
  shows "placed m' = strip_map m'"
proof -
  have keys: "map fst m' = map fst m"
    using arg_cong [OF assms(1), of "map fst"] by (simp add: placed_keys strip_map_def split_def comp_def)
  then have dist: "distinct (map fst m')" using map_wf_distinct [OF assms(2)] by simp
  have nr: "e_nr e = place m k" if "(k, e) \<in> set m'" for k e
  proof -
    have "(k, Entry (strip (e_value e)) (e_nr e) False) \<in> set (strip_map m')" using that by (force simp: strip_map_def)
    then show ?thesis unfolding assms(1) by (auto simp: placed_def)
  qed
  have same: "set (map fst (in_order m)) = fst ` set m'"
    using keys by (metis in_order_permutes(2) list.set_map)
  have "e_nr (the (map_find m' (map fst (in_order m) ! i))) = i" if i: "i < length (map fst (in_order m))" for i
  proof -
    have "map fst (in_order m) ! i \<in> fst ` set m'" unfolding same [symmetric] using i by (rule nth_mem)
    then obtain e where e: "(map fst (in_order m) ! i, e) \<in> set m'" by auto
    have "place m (map fst (in_order m) ! i) = i" using place_nth [OF assms(2)] i by (simp add: in_order_permutes)
    then show ?thesis using nr [OF e] e dist by (simp add: map_find_def)
  qed
  then have "in_order m' = map (\<lambda>k. (k, the (map_find m' k))) (map fst (in_order m))"
    by (intro in_order_keys [OF dist distinct_in_order [OF assms(2)] same])
  then have "place m' k = place m k" for k by (simp add: place_def comp_def)
  then show ?thesis using nr by (auto simp: placed_def strip_map_def)
qed


section \<open>Reading an object\<close>

lemma strip_Object: "c_value c = Object m \<Longrightarrow> strip c = config_of (Object (placed m))"
  unfolding placed_def by (subst strip.simps) simp

lemma object_of_uninitialized: "c_value c = Uninitialized \<Longrightarrow> object_of c m [] = Inr (set_value (Object m) c)"
  by (simp add: object_of_def make_object_def set_value_def)

lemma reads_object:
  assumes ind: "blank_indent ind" and c: "c_value c = Object m"
    and ms: "\<forall>p\<in>set ms. member_ok fl fs ind p" "distinct (map fst ms)" "spaced (map member_text ms) s"
    and m: "map_wf m" and same: "fold add_member ms [] = placed m"
  shows "reads fl fs ind (CHR ''{'' # s @ [CHR ''}'']) c"
proof (rule readsI [OF ind])
  show "value_head (CHR ''{'' # s @ [CHR ''}''])"
    by (simp add: value_head_def maybe_white_def ident_starter_def less_eq_char_def)
next
  fix n doc indent and dst :: "'a config" and st :: "'a pstate" and w2 r
  assume st: "p_rest st = (CHR ''{'' # s @ [CHR ''}'']) @ w2 @ r" "left st < Suc n" and dst: "c_value dst = Uninitialized"
  have "p_rest (skip 1 st) = s @ CHR ''}'' # w2 @ r" "left (skip 1 st) < n" using st by auto
  from object_loop_reads [OF ind ms(1,2) _ this(1) ms(3) this(2) this(2), of "[]" doc "indent + 1"]
  obtain m' st2 where m': "object_loop n (parse_value n fl fs (json ind)) (json ind) doc (indent + 1) [] [] (skip 1 st) = Inr (m', [], st2)"
      "strip_map m' = fold add_member ms []" "p_rest st2 = CHR ''}'' # w2 @ r" "p_info st2 = p_info st"
    by (auto simp: strip_map_def)
  then have "strip (set_value (Object m') dst) = strip c"
    using strip_Object [OF c] strip_Object [of "set_value (Object m') dst" m'] same placed_again [of m' m] m
    by (simp add: set_value_def)
  with m' show "\<exists>c' st'. (if peek 0 st = CHR ''{'' then parse_object n (parse_value n fl fs (json ind)) (json ind) doc indent dst st
            else if peek 0 st = CHR ''['' then parse_array n (parse_value n fl fs (json ind)) (json ind) doc indent dst st
            else if peek 0 st = CHR ''#'' then parse_macro n (parse_value n fl fs (json ind)) fs (json ind) doc dst st
            else bindE (parse_scalar fl (json ind) doc st) (\<lambda>(v, st2). Inr (assign dst (config_of v), st2))) = Inr (c', st') \<and>
        p_rest st' = w2 @ r \<and> p_info st' = p_info st \<and> strip c' = strip c"
    using st(1) by (auto simp: peek_rest parse_object_def swallow_def object_of_uninitialized [OF dst] parse_assert_def)
qed

section \<open>What the writer writes\<close>

lemma collect_spaced:
  assumes "\<And>i x. x \<in> set ys \<Longrightarrow> f (i, x) = Inr (p x @ text x @ (if i + 1 = N then e1 else CHR '','' # e2), [])"
    and "\<And>x. white (p x)" "white e1" "white e2" "n + length ys = N"
  shows "\<exists>s. collect f (enumerate n ys) = Inr (s, []) \<and> spaced (map text ys) s"
  using assms(1,5)
proof (induction ys arbitrary: n)
  case Nil
  then show ?case by (simp add: put_text_def)
next
  case (Cons y ys)
  from Cons.IH [of "Suc n"] Cons.prems obtain s where
    s: "collect f (enumerate (Suc n) ys) = Inr (s, [])" "spaced (map text ys) s"
    by auto
  have fy: "f (n, y) = Inr (p y @ text y @ (if ys = [] then e1 else CHR '','' # e2), [])"
    using Cons.prems by auto
  show ?case
  proof (cases "ys = []")
    case True
    then have "spaced (map text (y # ys)) (p y @ text y @ e1)"
      unfolding list.map spaced.simps
      by (intro exI [of _ "p y"] exI [of _ e1] exI [of _ "[]"]) (simp add: assms(2,3))
    then show ?thesis using True fy s by (simp add: append_written_def put_text_def)
  next
    case False
    have "spaced (map text ys) (e2 @ s)" by (rule spaced_white [OF s(2) assms(4)])
    then have "spaced (map text (y # ys)) (p y @ text y @ CHR '','' # e2 @ s)"
      unfolding list.map spaced.simps
      by (intro exI [of _ "p y"] exI [of _ "[]"] exI [of _ "CHR '','' # e2 @ s"]) (simp add: assms(2) False)
    then show ?thesis using False fy s(1) by (simp add: append_written_def)
  qed
qed

lemma write_prefix_comments_json [simp]: "write_prefix_comments (json ind) n cs = []"
  by (simp add: write_prefix_comments_def)

lemma write_postfix_comments_json [simp]: "write_postfix_comments (json ind) cs = []"
  by (simp add: write_postfix_comments_def)

lemma write_key_json [simp]: "write_key (json ind) k = write_quoted_string k"
  by (simp add: write_key_def write_string_def)

lemma write_string_json [simp]: "write_string (json ind) k = write_quoted_string k"
  by (simp add: write_string_def)

lemma after_element_json:
  "\<exists>e1 e2. white e1 \<and> white e2 \<and> (\<forall>b. after_element (json ind) simple b = (if b then e1 else CHR '','' # e2))"
  by (rule exI [of _ "if simple then (if ind = [] then [] else '' '') else [CHR 0x0A]"],
      rule exI [of _ "if simple then (if ind = [] then [] else '' '') else [CHR 0x0A]"])
    (simp add: after_element_def)

lemma after_member_json:
  "\<exists>e1 e2. white e1 \<and> white e2 \<and> (\<forall>b. after_member (json ind) b = (if b then e1 else CHR '','' # e2))"
  by (rule exI [of _ "if ind = [] then [] else [CHR 0x0A]"], rule exI [of _ "if ind = [] then [] else [CHR 0x0A]"])
    (simp add: after_member_def)

lemma after_key_json: "\<exists>w. after_key (json ind) m k v = CHR '':'' # w \<and> white w"
  by (auto simp: after_key_def)

lemma around_Inr [simp]: "around a (Inr (s, fs)) b = Inr (a @ s @ b, fs)"
  by (simp add: around_def)

lemma write_array:
  assumes ind: "blank_indent ind" and elements: "\<And>x. x \<in> set xs \<Longrightarrow> write_value fl ds (json ind) doc (n + 1) False x = Inr (text x, [])"
    and c: "c_value c = Array xs"
  shows "\<exists>s. write_value fl ds (json ind) doc n pre c = Inr (CHR ''['' # s @ [CHR '']''], []) \<and> spaced (map text xs) s"
proof -
  obtain e1 e2 where e: "white e1" "white e2" "\<And>b. after_element (json ind) True b = (if b then e1 else CHR '','' # e2)"
    using after_element_json by blast
  obtain g1 g2 where g: "white g1" "white g2" "\<And>b. after_element (json ind) False b = (if b then g1 else CHR '','' # g2)"
    using after_element_json by blast
  let ?simple = "\<lambda>(i, x). around [] (write_value fl ds (json ind) doc (n + 1) False x) (after_element (json ind) True (last_of xs i))"
  let ?lines = "\<lambda>(i, x). around (write_indent (json ind) (n + 1)) (write_value fl ds (json ind) doc (n + 1) False x)
      (after_element (json ind) False (last_of xs i))"
  obtain s1 where s1: "collect ?simple (enumerate 0 xs) = Inr (s1, [])" "spaced (map text xs) s1"
    using collect_spaced [of xs "?simple" "\<lambda>_. []" "text" "length xs" e1 e2 0] elements e by (auto simp: last_of_def)
  obtain s2 where s2: "collect ?lines (enumerate 0 xs) = Inr (s2, [])" "spaced (map text xs) s2"
    using collect_spaced [of xs "?lines" "\<lambda>_. write_indent (json ind) (n + 1)" "text" "length xs" g1 g2 0] elements g ind
    by (auto simp: last_of_def)
  consider (empty) "xs = []" "cm_pre_end_brace (c_comments c) = []"
    | (simple) "\<not> (xs = [] \<and> cm_pre_end_brace (c_comments c) = [])" "ind = [] \<or> is_simple_array (json ind) xs"
    | (lines) "\<not> (xs = [] \<and> cm_pre_end_brace (c_comments c) = [])" "\<not> (ind = [] \<or> is_simple_array (json ind) xs)"
    by blast
  then show ?thesis
  proof cases
    case empty
    then show ?thesis
      by (intro exI [of _ "if ind = [] then [] else '' ''"]) (simp add: write_value.simps c put_text_def Let_def)
  next
    case simple
    then show ?thesis
      using s1 spaced_white [OF s1(2), of "if ind = [] then [] else '' ''"]
      by (intro exI [of _ "(if ind = [] then [] else '' '') @ s1"])
        (auto simp: write_value.simps [of fl ds "json ind" doc n pre c] c Let_def)
  next
    case lines
    then show ?thesis
      using s2(1) spaced_white [OF spaced_white_right [OF s2(2), of "write_indent (json ind) n"], of "[CHR 0x0A]"] ind
      by (intro exI [of _ "[CHR 0x0A] @ s2 @ write_indent (json ind) n"])
        (auto simp: write_value.simps [of fl ds "json ind" doc n pre c] c Let_def)
  qed
qed

lemma write_object:
  assumes ind: "blank_indent ind"
    and items: "\<And>k e. (k, e) \<in> set m \<Longrightarrow> write_value fl ds (json ind) doc (n + 1) False (e_value e) = Inr (text (e_value e), [])"
    and c: "c_value c = Object m"
  shows "\<exists>s w. write_value fl ds (json ind) doc n pre c = Inr (CHR ''{'' # s @ [CHR ''}''], []) \<and> (\<forall>p. white (w p)) \<and>
    spaced (map member_text (map (\<lambda>p. (fst p, w p, text (e_value (snd p)), e_value (snd p))) (write_order (json ind) m))) s"
proof -
  obtain e1 e2 where e: "white e1" "white e2" "\<And>b. after_member (json ind) b = (if b then e1 else CHR '','' # e2)"
    using after_member_json by blast
  have "\<forall>p. \<exists>w. after_key (json ind) m (fst p) (e_value (snd p)) = CHR '':'' # w \<and> white w" by (simp add: after_key_json)
  then obtain w where w: "\<And>p. after_key (json ind) m (fst p) (e_value (snd p)) = CHR '':'' # w p" "\<And>p. white (w p)"
    by metis
  define member where "member = (\<lambda>p. (fst p, w p, text (e_value (snd p)), e_value (snd p)))"
  let ?f = "\<lambda>(i, (key, e)). let v = e_value e in
      around (write_prefix_comments (json ind) (n + 1) (cm_prefix (c_comments v)) @ write_indent (json ind) (n + 1) @
          write_key (json ind) key @ after_key (json ind) m key v)
        (write_value fl ds (json ind) doc (n + 1) False v) (after_member (json ind) (last_of m i))"
  have "?f (i, p) = Inr (write_indent (json ind) (n + 1) @ member_text (member p) @ (if i + 1 = length m then e1 else CHR '','' # e2), [])"
    if "p \<in> set (write_order (json ind) m)" for i p
    using that items [of "fst p" "snd p"] w(1) [of p] e(3)
    by (auto simp: split_def Let_def member_text_def member_def last_of_def)
  moreover have "length (write_order (json ind) m) = length m" by (simp add: write_order_def)
  ultimately obtain s where s: "collect ?f (enumerate 0 (write_order (json ind) m)) = Inr (s, [])"
      "spaced (map (\<lambda>p. member_text (member p)) (write_order (json ind) m)) s"
    using collect_spaced [of "write_order (json ind) m" ?f "\<lambda>_. write_indent (json ind) (n + 1)" "\<lambda>p. member_text (member p)" "length m" e1 e2 0]
      e ind
    by auto
  have contents: "write_object_contents fl ds (json ind) doc (n + 1) c = Inr (s, [])"
    using s(1) by (simp add: write_object_contents.simps c)
  have "\<exists>s'. write_value fl ds (json ind) doc n pre c = Inr (CHR ''{'' # s' @ [CHR ''}''], []) \<and>
      spaced (map (\<lambda>p. member_text (member p)) (write_order (json ind) m)) s'"
  proof (cases "m = [] \<and> cm_pre_end_brace (c_comments c) = []")
    case True
    then show ?thesis
      by (intro exI [of _ "if ind = [] then [] else '' ''"])
        (simp add: write_value.simps c put_text_def Let_def write_order_def)
  next
    case False
    then show ?thesis
      using contents ind
        spaced_white [OF spaced_white_right [OF s(2), of "write_indent (json ind) n"], of "if ind = [] then [] else [CHR 0x0A]"]
      by (intro exI [of _ "(if ind = [] then [] else [CHR 0x0A]) @ s @ write_indent (json ind) n"])
        (auto simp: write_value.simps [of fl ds "json ind" doc n pre c] c Let_def)
  qed
  then show ?thesis using w(2) by (auto simp: member_def comp_def)
qed


section \<open>The round trip\<close>

text \<open>The writer writes every plain value, and the parser reads what it wrote.\<close>

lemma write_value_reads:
  fixes c :: "'f config"
  assumes ind: "blank_indent ind"
  shows "plain c \<Longrightarrow> \<exists>t. write_value fl ds (json ind) doc n pre c = Inr (t, []) \<and> reads fl fs ind t c"
proof (induction "size c" arbitrary: c n pre rule: less_induct)
  case less
  have cases: "\<exists>t. write_value fl ds (json ind) doc n pre c = Inr (t, []) \<and> reads fl fs ind t c"
    if "write_value fl ds (json ind) doc n pre c = Inr (t, [])" "reads fl fs ind t c" for t
    using that by blast
  note plain = less.prems [unfolded plain.simps [of c]]
  show ?case
  proof (cases "c_value c")
    case Null
    then show ?thesis by (intro cases [of "''null''"] reads_keyword [OF ind]) (simp_all add: write_value.simps put_text_def Let_def)
  next
    case (Bool b)
    then show ?thesis
      by (intro cases [of "if b then ''true'' else ''false''"] reads_keyword [OF ind])
        (simp_all add: write_value.simps put_text_def Let_def)
  next
    case (Integer i)
    then show ?thesis
      using plain
      by (intro cases [of "show_int i"] reads_integer [OF ind, of _ i]) (simp_all add: write_value.simps put_text_def Let_def)
  next
    case (Str s)
    then show ?thesis
      using plain
      by (intro cases [of "write_quoted_string s"] reads_string [OF ind]) (simp_all add: write_value.simps put_text_def Let_def)
  next
    case (Array xs)
    have "\<forall>x\<in>set xs. \<exists>t. write_value fl ds (json ind) doc (n + 1) False x = Inr (t, []) \<and> reads fl fs ind t x"
      using less.hyps size_element [OF Array [symmetric]] plain Array by auto
    then obtain f where f: "\<And>x. x \<in> set xs \<Longrightarrow> write_value fl ds (json ind) doc (n + 1) False x = Inr (f x, [])"
        "\<And>x. x \<in> set xs \<Longrightarrow> reads fl fs ind (f x) x"
      by metis
    obtain s where s: "write_value fl ds (json ind) doc n pre c = Inr (CHR ''['' # s @ [CHR '']''], [])" "spaced (map f xs) s"
      using write_array [where pre = pre, OF ind f(1) Array] by blast
    have "list_all2 (reads fl fs ind) (map f xs) xs" using f(2) by (simp add: list_all2_conv_all_nth)
    then show ?thesis using cases [OF s(1)] reads_array [OF ind Array _ s(2)] by blast
  next
    case (Object m)
    have m: "map_wf m" "\<And>k e. (k, e) \<in> set m \<Longrightarrow> CHR 0x00 \<notin> set k \<and> plain (e_value e)" using plain Object by auto
    have "\<forall>x\<in>(\<lambda>p. e_value (snd p)) ` set m. \<exists>t. write_value fl ds (json ind) doc (n + 1) False x = Inr (t, []) \<and> reads fl fs ind t x"
    proof clarify
      fix k e
      assume ke: "(k, e) \<in> set m"
      from less.hyps [OF size_member [OF Object [symmetric] ke], of "n + 1" False] m(2) [OF ke]
      show "\<exists>t. write_value fl ds (json ind) doc (n + 1) False (e_value (snd (k, e))) = Inr (t, []) \<and>
          reads fl fs ind t (e_value (snd (k, e)))"
        by simp
    qed
    then obtain f where f: "\<And>x. x \<in> (\<lambda>p. e_value (snd p)) ` set m \<Longrightarrow>
        write_value fl ds (json ind) doc (n + 1) False x = Inr (f x, []) \<and> reads fl fs ind (f x) x"
      by metis
    have items: "write_value fl ds (json ind) doc (n + 1) False (e_value e) = Inr (f (e_value e), [])" if "(k, e) \<in> set m" for k e
      using f [of "e_value e"] that by force
    obtain s w where s: "write_value fl ds (json ind) doc n pre c = Inr (CHR ''{'' # s @ [CHR ''}''], [])" "\<forall>p. white (w p)"
        "spaced (map member_text (map (\<lambda>p. (fst p, w p, f (e_value (snd p)), e_value (snd p))) (write_order (json ind) m))) s"
      using write_object [where pre = pre, OF ind _ Object] items by blast
    let ?ms = "map (\<lambda>p. (fst p, w p, f (e_value (snd p)), e_value (snd p))) (write_order (json ind) m)"
    have "\<forall>p\<in>set ?ms. member_ok fl fs ind p"
      using m(2) f s(2) by (force simp: member_ok_def)
    moreover have keys: "distinct (map fst ?ms)"
      using map_wf_distinct [OF m(1)] by (simp add: comp_def write_order_def distinct_map)
    moreover have "fold add_member ?ms [] = placed m"
      by (rule fold_members [OF m(1)]) (auto simp: write_order_json split_def)
    ultimately have "reads fl fs ind (CHR ''{'' # s @ [CHR ''}'']) c"
      using reads_object [OF ind Object _ _ s(3) m(1)] by blast
    then show ?thesis using cases [OF s(1)] by blast
  qed (use plain in simp_all)
qed

lemma top_level_reads:
  fixes fl :: "'f floats"
  assumes ind: "blank_indent ind" and t: "reads fl fs ind t c" and w: "white w" and fuel: "length (t @ w) < fuel"
  shows "\<exists>c'. parse_config fuel fl fs (json ind) name (t @ w) = Inr c' \<and> strip c' = strip c"
proof -
  let ?st = "start (t @ w) (new_info name :: 'f parse_info)"
  have items: "list_all2 (reads fl fs ind) [t] [c]" using t by simp
  have single: "spaced [t] (t @ w)"
    unfolding spaced.simps by (intro exI [of _ "[]"] exI [of _ w]) (simp add: w)
  have rest: "p_rest ?st = (t @ w) @ []" "left ?st < fuel" using fuel by (simp_all add: start_def)
  obtain y st1 where y: "array_loop fuel (parse_value fuel fl fs (json ind)) (json ind) 0 0 [] [] ?st = Inr ([y], [], st1)"
      "strip y = strip c" "p_rest st1 = []"
    using array_loop_reads [OF ind _ items rest(1) single rest(2) rest(2), of 0 0 "[]"] by (auto simp: Cons_eq_map_conv)
  let ?ret = "set_value (Array [y]) (tag 0 (p_line ?st) (config_of Uninitialized))"
  have "skip_post_white (json ind) 0 ?ret st1 = Inr (?ret, False, st1)"
    by (simp add: skip_post_white_def peek_end [OF y(3)] maybe_white_def)
  moreover have "\<not> has_comments ?ret" by (simp add: has_comments_def set_value_def tag_def config_of_def)
  moreover have "c_value ?ret = Array [y]" by (simp add: set_value_def)
  ultimately have "top_level fuel (parse_value fuel fl fs (json ind)) (json ind) 0 ?st = Inr (y, st1)"
    using y(1,3)
    by (simp add: top_level_def top_is_object_def array_of_uninitialized tag_def Let_def parse_assert_def peek_end finish_array_def)
  then show ?thesis using y(2) by (simp add: parse_config_def parse_text_def)
qed

text \<open>
  C20: a value that JSON can hold (null, booleans, 64-bit integers, strings without a null character, arrays
  and objects of such values) is written by the JSON writer, with any indentation of blanks and tabs,
  and the text is read back by the JSON parser as the same value, the members of every object in the same
  order, up to source positions, comments and marks of access; the writer never fails on it and writes no
  other file.
\<close>

theorem json_roundtrip:
  assumes "blank_indent ind" "plain c"
  shows "\<exists>text. dump_string fl ds (json ind) c = Inr (text, []) \<and>
    (\<forall>fuel fs name. length text < fuel \<longrightarrow>
       (\<exists>c'. parse_config fuel fl fs (json ind) name text = Inr c' \<and> strip c' = strip c))"
proof -
  let ?nl = "if ind = [] then [] else [CHR 0x0A]"
  obtain t where t: "write_value fl ds (json ind) (c_doc c) 0 True c = Inr (t, [])"
    using write_value_reads [OF assms, of fl ds "c_doc c" 0 True "\<lambda>_. Inl []"] by blast
  have reads: "reads fl fs ind t c" for fs
    using write_value_reads [OF assms, of fl ds "c_doc c" 0 True fs] t by auto
  have "dump_string fl ds (json ind) c = Inr (t @ ?nl, [])"
    using t by (auto simp: dump_string.simps split: val.splits)
  then show ?thesis
    using top_level_reads [OF assms(1) reads, of ?nl] by auto
qed

end
