(* ===== verification/Cfg_Typing.thy ===== *)
theory Cfg_Typing
  imports Cfg_Roundtrip
begin

text \<open>
  What the parser returns is a proper value, in any format and with \<open>#include\<close>: nothing in it is uninitialized or a
  failed lookup, its integers have 64 bits, and the keys of its objects are in order and distinct.
\<close>

section \<open>Well-formed values\<close>

function well_formed :: "'f config \<Rightarrow> bool" where
  "well_formed c \<longleftrightarrow>
     (case c_value c of
        Uninitialized \<Rightarrow> False
      | BadLookupType _ _ _ \<Rightarrow> False
      | Integer i \<Rightarrow> - (2 ^ 63) \<le> i \<and> i < 2 ^ 63
      | Array xs \<Rightarrow> (\<forall>x\<in>set xs. well_formed x)
      | Object m \<Rightarrow> map_wf m \<and> (\<forall>p\<in>set m. well_formed (e_value (snd p)))
      | _ \<Rightarrow> True)"
  by pat_completeness auto
termination
  by (relation "measure size") (auto intro: size_element size_member)

declare well_formed.simps [simp del]

definition files_well_formed :: "'f parse_info \<Rightarrow> bool" where
  "files_well_formed info \<longleftrightarrow> (\<forall>p\<in>set (parsed_files info). well_formed (snd p))"

definition sound_parser :: "'f value_parser \<Rightarrow> bool" where
  "sound_parser pv \<longleftrightarrow> (\<forall>doc indent dst st x. files_well_formed (p_info st) \<longrightarrow> pv doc indent dst st = Inr x \<longrightarrow>
     well_formed (fst x) \<and> files_well_formed (p_info (snd (snd x))))"

lemma sound_parserD:
  "sound_parser pv \<Longrightarrow> pv doc indent dst st = Inr (c, sep, st') \<Longrightarrow> files_well_formed (p_info st) \<Longrightarrow>
   well_formed c \<and> files_well_formed (p_info st')"
  unfolding sound_parser_def by (metis fst_conv snd_conv)

lemma well_formed_value: "c_value c = c_value d \<Longrightarrow> well_formed c = well_formed d"
  by (simp add: well_formed.simps [of c] well_formed.simps [of d])

lemma well_formed_same [simp]:
  "well_formed (set_comments cm c) = well_formed c" "well_formed (tag dc l c) = well_formed c"
  "well_formed (assign c d) = well_formed d" "well_formed (set_value (c_value d) c) = well_formed d"
  by (rule well_formed_value, simp add: set_comments_def tag_def assign_def set_value_def Let_def)+

lemma post_white_value: "skip_post_white opts doc c st = Inr x \<Longrightarrow> c_value (fst x) = c_value c \<and> p_info (snd (snd x)) = p_info st"
  using goesD [OF goes_post_white, of opts doc c st x]
  by (auto simp: skip_post_white_def bindE_eq_Inr set_comments_def Let_def split: if_splits)

lemma after_value_value:
  "after_value opts doc v sep st = Inr x \<Longrightarrow>
   c_value (fst x) = c_value v \<and> p_info (snd (snd (snd (snd (snd x))))) = p_info st"
  using goesD [OF goes_after_value, of opts doc v sep st x]
  by (auto simp: after_value_def bindE_eq_Inr dest!: post_white_value split: if_splits)

lemma pre_white_info: "skip_pre_white opts doc c st = Inr x \<Longrightarrow> p_info (snd (snd x)) = p_info st"
  using goesD [OF goes_pre_white] by blast

lemma ignore_comments_info: "skip_white_ignore_comments opts doc st = Inr x \<Longrightarrow> p_info (snd x) = p_info st"
  using goesD [OF goes_ignore_comments] by blast

lemma parse_key_info: "parse_key opts doc st = Inr x \<Longrightarrow> p_info (snd x) = p_info st"
  using goesD [OF goes_parse_key] by blast

lemma colon_info: "parse_colon opts doc st = Inr st' \<Longrightarrow> p_info st' = p_info st"
  using goesD [OF goes_colon] by blast

lemma swallow_info: "swallow doc c st = Inr st' \<Longrightarrow> p_info st' = p_info st"
  by (auto simp: swallow_def split: if_splits)

lemma array_loop_sound:
  assumes "sound_parser pv"
  shows "array_loop fuel pv opts doc indent xs cs st = Inr (ys, cs', st') \<Longrightarrow> files_well_formed (p_info st) \<Longrightarrow>
    \<forall>x\<in>set xs. well_formed x \<Longrightarrow> (\<forall>y\<in>set ys. well_formed y) \<and> files_well_formed (p_info st')"
proof (induction fuel arbitrary: xs cs st)
  case (Suc fuel)
  obtain v li st1 where pre: "skip_pre_white opts doc (prefix_comments cs) st = Inr (v, li, st1)"
    using Suc.prems(1) by (auto simp: bindE_eq_Inr)
  have info1: "p_info st1 = p_info st" using pre_white_info [OF pre] by simp
  show ?case
  proof (cases "peek 0 st1 = CHR '']'' \<or> peek 0 st1 = CHR 0x00")
    case True
    then show ?thesis using Suc.prems pre info1 by (auto simp: bindE_eq_Inr split: if_splits)
  next
    case False
    then obtain v1 sep st2 v2 sep' comma cs2 st3 st4 where
      v1: "pv doc indent v st1 = Inr (v1, sep, st2)"
      and v2: "after_value opts doc v1 sep st2 = Inr (v2, sep', comma, cs2, st3, st4)"
      and rec: "array_loop fuel pv opts doc indent (xs @ [v2]) cs2 st4 = Inr (ys, cs', st')"
      using Suc.prems(1) pre by (auto simp: bindE_eq_Inr)
    have "well_formed v1" "files_well_formed (p_info st2)"
      using sound_parserD [OF assms v1] Suc.prems(2) info1 by simp_all
    then have "\<forall>x\<in>set (xs @ [v2]). well_formed x" "files_well_formed (p_info st4)"
      using after_value_value [OF v2] Suc.prems(3) well_formed_value [of v2 v1] by auto
    then show ?thesis by (intro Suc.IH [OF rec])
  qed
qed simp

lemma object_loop_sound:
  assumes "sound_parser pv"
  shows "object_loop fuel pv opts doc indent m cs st = Inr (m', cs', st') \<Longrightarrow> files_well_formed (p_info st) \<Longrightarrow>
    map_wf m \<and> (\<forall>p\<in>set m. well_formed (e_value (snd p))) \<Longrightarrow>
    (map_wf m' \<and> (\<forall>p\<in>set m'. well_formed (e_value (snd p)))) \<and> files_well_formed (p_info st')"
proof (induction fuel arbitrary: m cs st)
  case (Suc fuel)
  obtain v li st1 where pre: "skip_pre_white opts doc (prefix_comments cs) st = Inr (v, li, st1)"
    using Suc.prems(1) by (auto simp: bindE_eq_Inr)
  have info1: "p_info st1 = p_info st" using pre_white_info [OF pre] by simp
  show ?case
  proof (cases "peek 0 st1 = CHR ''}'' \<or> peek 0 st1 = CHR 0x00")
    case True
    then show ?thesis using Suc.prems pre info1 by (auto simp: bindE_eq_Inr split: if_splits)
  next
    case False
    then obtain key st2 st3 v1 sep st4 v2 sep' comma cs2 st5 st6 where
      key: "parse_key opts doc st1 = Inr (key, st2)"
      and colon: "parse_colon opts doc st2 = Inr st3"
      and v1: "pv doc indent v st3 = Inr (v1, sep, st4)"
      and v2: "after_value opts doc v1 sep st4 = Inr (v2, sep', comma, cs2, st5, st6)"
      and rec: "object_loop fuel pv opts doc indent (map_insert key (Entry v2 (length m) False) m) cs2 st6 = Inr (m', cs', st')"
      using Suc.prems(1) pre by (auto simp: bindE_eq_Inr)
    have "files_well_formed (p_info st3)"
      using Suc.prems(2) info1 parse_key_info [OF key] colon_info [OF colon] by simp
    then have "well_formed v1" "files_well_formed (p_info st4)"
      using sound_parserD [OF assms v1] by simp_all
    then have v2: "well_formed v2" "files_well_formed (p_info st6)"
      using after_value_value [OF v2] well_formed_value [of v2 v1] by simp_all
    let ?m = "map_insert key (Entry v2 (length m) False) m"
    have "well_formed (e_value (snd p))" if "p \<in> set ?m" for p
      using that set_map_insert [of key "Entry v2 (length m) False" m] v2(1) Suc.prems(3) by auto
    then have "map_wf ?m \<and> (\<forall>p\<in>set ?m. well_formed (e_value (snd p)))"
      using Suc.prems(3) by (simp add: map_wf_map_insert)
    then show ?thesis by (intro Suc.IH [OF rec v2(2)])
  qed
qed simp


section \<open>The parser\<close>

lemma array_of_value: "array_of c xs cs = Inr c' \<Longrightarrow> c_value c' = Array xs"
  by (auto simp: array_of_def bindE_eq_Inr Let_def set_comments_def set_value_def split: if_splits)

lemma object_of_value: "object_of c m cs = Inr c' \<Longrightarrow> c_value c' = Object m"
  by (auto simp: object_of_def bindE_eq_Inr Let_def set_comments_def set_value_def split: if_splits)

lemma parse_array_sound:
  assumes "sound_parser pv" "files_well_formed (p_info st)" "parse_array n pv opts doc indent dst st = Inr (c, st')"
  shows "well_formed c \<and> files_well_formed (p_info st')"
proof -
  obtain st1 xs cs st2 where st1: "swallow doc (CHR ''['') st = Inr st1"
    and xs: "array_loop n pv opts doc (indent + 1) [] [] st1 = Inr (xs, cs, st2)"
    and c: "array_of dst xs cs = Inr c" "st' = skip 1 st2"
    using assms(3) by (auto simp: parse_array_def bindE_eq_Inr)
  show ?thesis
    using array_loop_sound [OF assms(1) xs] swallow_info [OF st1] assms(2) array_of_value [OF c(1)] c(2)
    by (simp add: well_formed.simps [of c])
qed

lemma parse_object_sound:
  assumes "sound_parser pv" "files_well_formed (p_info st)" "parse_object n pv opts doc indent dst st = Inr (c, st')"
  shows "well_formed c \<and> files_well_formed (p_info st')"
proof -
  obtain st1 m cs st2 where st1: "swallow doc (CHR ''{'') st = Inr st1"
    and m: "object_loop n pv opts doc (indent + 1) [] [] st1 = Inr (m, cs, st2)"
    and c: "object_of dst m cs = Inr c" "st' = skip 1 st2"
    using assms(3) by (auto simp: parse_object_def bindE_eq_Inr)
  show ?thesis
    using object_loop_sound [OF assms(1) m] swallow_info [OF st1] assms(2) object_of_value [OF c(1)] c(2)
    by (simp add: well_formed.simps [of c])
qed

lemma finish_array_sound:
  assumes "finish_array opts doc ret st = Inr c" "c_value ret = Array xs" "\<forall>x\<in>set xs. well_formed x"
  shows "well_formed c"
proof (cases xs)
  case Nil
  have "well_formed (config_of (Object []))" by (subst well_formed.simps) simp
  then show ?thesis using assms(1,2) Nil by (auto simp: finish_array_def throw_error_def split: if_splits)
next
  case (Cons x ys)
  have "well_formed ret" using assms(2,3) by (simp add: well_formed.simps [of ret])
  then show ?thesis using assms Cons by (cases ys) (auto simp: finish_array_def split: if_splits)
qed

lemma top_level_sound:
  assumes "sound_parser pv" "files_well_formed (p_info st)" "top_level n pv opts doc st = Inr (c, st')"
  shows "well_formed c \<and> files_well_formed (p_info st')"
proof -
  obtain b where b: "top_is_object opts doc st = Inr b" using assms(3) by (auto simp: top_level_def bindE_eq_Inr)
  show ?thesis
  proof (cases b)
    case True
    then obtain m cs st1 ret did st2 where
      m: "object_loop n pv opts doc 0 [] [] st = Inr (m, cs, st1)"
      and ret: "object_of (tag doc (p_line st) (config_of Uninitialized)) m cs = Inr ret"
      and c: "skip_post_white opts doc ret st1 = Inr (c, did, st2)" "st' = st2"
      using assms(3) b by (auto simp: top_level_def bindE_eq_Inr Let_def)
    have "well_formed ret" using object_loop_sound [OF assms(1) m assms(2)] object_of_value [OF ret] by (simp add: well_formed.simps [of ret])
    then show ?thesis
      using object_loop_sound [OF assms(1) m assms(2)] post_white_value [OF c(1)] c(2) well_formed_value [of c ret] by simp
  next
    case False
    then obtain xs cs st1 ret ret2 did st2 where
      xs: "array_loop n pv opts doc 0 [] [] st = Inr (xs, cs, st1)"
      and ret: "array_of (tag doc (p_line st) (config_of Uninitialized)) xs cs = Inr ret"
      and ret2: "skip_post_white opts doc ret st1 = Inr (ret2, did, st2)" 
      and c: "finish_array opts doc ret2 st2 = Inr c" "st' = st2"
      using assms(3) b by (auto simp: top_level_def bindE_eq_Inr Let_def)
    have "\<forall>x\<in>set xs. well_formed x" "files_well_formed (p_info st2)" "c_value ret2 = Array xs"
      using array_loop_sound [OF assms(1) xs assms(2)] post_white_value [OF ret2] array_of_value [OF ret] by simp_all
    then show ?thesis using finish_array_sound [OF c(1)] c(2) by blast
  qed
qed

lemma parse_text_sound:
  assumes "sound_parser pv" "files_well_formed info" "parse_text n pv opts doc contents info = Inr (c, info')"
  shows "well_formed c \<and> files_well_formed info'"
  using assms(3) top_level_sound [OF assms(1), of "start contents info" n opts doc c] assms(2)
  by (auto simp: parse_text_def bindE_eq_Inr start_def split: if_splits)

lemma files_well_formed_docs [simp]: "files_well_formed (info\<lparr>docs := ds\<rparr>) = files_well_formed info"
  by (simp add: files_well_formed_def)

lemma set_map_set: "set (map_set k v m) \<subseteq> insert (k, v) (set m)"
  by (induction k v m rule: map_set.induct) auto

lemma include_file_sound:
  assumes "sound_parser pv" "files_well_formed (p_info st)" "include_file n pv fs opts doc path dst st = Inr (c, st')"
  shows "well_formed c \<and> files_well_formed (p_info st')"
proof (cases "map_find (parsed_files (p_info st)) path")
  case None
  then obtain contents c1 info2 old where fs: "fs path = Inr contents"
    and c1: "parse_text n pv opts (length (docs (p_info st))) contents
        ((p_info st)\<lparr>docs := docs (p_info st) @ [\<lparr>filename = path, includers = [(doc, p_line st)]\<rparr>]\<rparr>) = Inr (c1, info2)"
    and c: "c = assign dst c1" "p_info st' = info2\<lparr>parsed_files := map_set path (assign old c) (parsed_files info2)\<rparr>"
    using assms(3) by (auto simp: include_file_def Let_def bindE_eq_Inr split: sum.splits)
  have "well_formed c1" "files_well_formed info2" using parse_text_sound [OF assms(1) _ c1] assms(2) by simp_all
  then show ?thesis
    using c set_map_set [of path "assign old c" "parsed_files info2"] by (auto simp: files_well_formed_def)
next
  case (Some c1)
  then have "well_formed c1" using assms(2) by (auto simp: files_well_formed_def map_find_def dest!: map_of_SomeD)
  then show ?thesis using assms(2,3) Some by (auto simp: include_file_def Let_def split: option.splits)
qed

lemma include_path_info: "include_path doc term st = Inr (path, st') \<Longrightarrow> p_info st' = p_info st"
  by (auto simp: include_path_def Let_def split: if_splits)

lemma parse_macro_sound:
  assumes "sound_parser pv" "files_well_formed (p_info st)" "parse_macro n pv fs opts doc dst st = Inr (c, st')"
  shows "well_formed c \<and> files_well_formed (p_info st')"
proof -
  obtain b st1 path st2 path' where st1: "skip_white_ignore_comments opts doc (skip 8 st) = Inr (b, st1)"
    and st2: "include_path doc (if peek 0 st1 = CHR ''<'' then CHR ''>'' else CHR 0x22) st1 = Inr (path, st2)"
    and c: "include_file n pv fs opts doc path' dst st2 = Inr (c, st')"
    using assms(3) by (auto simp: parse_macro_def bindE_eq_Inr Let_def)
  have "files_well_formed (p_info st2)"
    using ignore_comments_info [OF st1] include_path_info [OF st2] assms(2) by simp
  then show ?thesis by (rule include_file_sound [OF assms(1) _ c])
qed

lemma well_formed_scalar [simp]:
  "well_formed (config_of (Str s))" "well_formed (config_of Null)" "well_formed (config_of (Bool b))"
  "well_formed (config_of (Float x))"
  "well_formed (config_of (Integer i)) \<longleftrightarrow> - (2 ^ 63) \<le> i \<and> i < 2 ^ 63"
  by (simp_all add: well_formed.simps)

lemma parse_int_sound: "parse_int doc st = Inr (v, st') \<Longrightarrow> well_formed (config_of v)"
  using strtoll_bounds [of "c_str (p_rest st)"] by (auto simp: parse_int_def Let_def bindE_eq_Inr)

lemma parse_float_sound: "parse_float fl doc st = Inr (v, st') \<Longrightarrow> well_formed (config_of v)"
  by (auto simp: parse_float_def Let_def bindE_eq_Inr split: prod.splits)

lemma parse_prefixed_sound:
  assumes "parse_prefixed base sign doc msg st = Inr (v, st')" "sign \<in> {1, -1}"
  shows "well_formed (config_of v)"
proof -
  define i where "i = signed_take_bit 63 (int (fst (strtoull base (c_str (p_rest st)))))"
  have i: "- (2 ^ 63) \<le> i" "i < 2 ^ 63"
    unfolding i_def using signed_take_bit_int_greater_eq_minus_exp signed_take_bit_int_less_exp by blast+
  have "v = Integer (sign * i) \<and> \<not> (sign = -1 \<and> i = - (2 ^ 63))"
    using assms(1) by (auto simp: parse_prefixed_def Let_def bindE_eq_Inr i_def split: prod.splits if_splits)
  then show ?thesis using i assms(2) by auto
qed

lemma parse_finite_number_sound:
  assumes "parse_finite_number fl opts doc st = Inr (v, st')"
  shows "well_formed (config_of v)"
proof -
  have "(\<exists>base sign msg st2. sign \<in> {1, -1} \<and> parse_prefixed base sign doc msg st2 = Inr (v, st')) \<or>
      parse_float fl doc st = Inr (v, st') \<or> parse_int doc st = Inr (v, st')"
    using assms unfolding parse_finite_number_def Let_def bindE_eq_Inr
    by (elim exE conjE) (auto simp: bindE_eq_Inr split: if_splits)
  then show ?thesis using parse_prefixed_sound parse_float_sound parse_int_sound by blast
qed

lemma parse_scalar_sound:
  assumes "parse_scalar fl opts doc st = Inr (v, st')"
  shows "well_formed (config_of v) \<and> p_info st' = p_info st"
proof -
  have "well_formed (config_of v)"
    using assms
    by (auto simp: parse_scalar_def parse_number_def special_float_def keyword_def Let_def bindE_eq_Inr throw_error_def
        dest: parse_finite_number_sound split: if_splits)
  then show ?thesis using goesD [OF goes_scalar assms] by simp
qed

lemma sound_parse_value: "sound_parser (parse_value n fl fs opts)"
proof (induction n)
  case 0
  then show ?case by (simp add: sound_parser_def)
next
  case (Suc n)
  have "well_formed c \<and> files_well_formed (p_info st')"
    if info: "files_well_formed (p_info st)" and res: "parse_value (Suc n) fl fs opts doc indent dst st = Inr (c, sep, st')"
    for doc indent dst st c sep st'
  proof -
    obtain dst1 li st1 where pre: "skip_pre_white opts doc dst st = Inr (dst1, li, st1)"
      using res by (auto simp: bindE_eq_Inr)
    obtain c3 st3 where c3: "(if peek 0 st1 = CHR ''{'' then parse_object n (parse_value n fl fs opts) opts doc indent (tag doc (p_line st1) dst1) st1
            else if peek 0 st1 = CHR ''['' then parse_array n (parse_value n fl fs opts) opts doc indent (tag doc (p_line st1) dst1) st1
            else if peek 0 st1 = CHR ''#'' then parse_macro n (parse_value n fl fs opts) fs opts doc (tag doc (p_line st1) dst1) st1
            else bindE (parse_scalar fl opts doc st1) (\<lambda>(v, st2). Inr (assign (tag doc (p_line st1) dst1) (config_of v), st2))) = Inr (c3, st3)"
        and post: "skip_post_white opts doc c3 st3 = Inr (c, sep, st')"
      using res pre by (fastforce simp: bindE_eq_Inr Let_def)
    have info1: "files_well_formed (p_info st1)" using pre_white_info [OF pre] info by simp
    have "well_formed c3 \<and> files_well_formed (p_info st3)"
      using c3 parse_object_sound [OF Suc.IH info1] parse_array_sound [OF Suc.IH info1] parse_macro_sound [OF Suc.IH info1]
        parse_scalar_sound [of fl opts doc st1] info1
      by (auto simp: bindE_eq_Inr split: if_splits)
    then show ?thesis using post_white_value [OF post] well_formed_value [of c c3] by simp
  qed
  then show ?case unfolding sound_parser_def by (metis prod.collapse)
qed

text \<open>
  C22: whatever text is parsed in whatever format, with whatever files it includes, a value that the parser
  returns is well formed: nothing in it is uninitialised or a failed look-up, its integers have 64 bits, and the
  keys of every object in it are sorted and distinct.
\<close>

theorem parsed_value_well_formed:
  assumes "parse_config fuel fl fs opts name text = Inr c"
  shows "well_formed c"
  using assms parse_text_sound [OF sound_parse_value, of "new_info name" fuel fuel fl fs opts opts 0 "text" c]
  by (auto simp: parse_config_def bindE_eq_Inr new_info_def files_well_formed_def)

end
