(* ===== verification/Cfg_Properties.thy ===== *)
theory Cfg_Properties
  imports Cfg_Typing
begin

text \<open>
  What else holds of the values of Configuru and of their formats: comparing, copying and marking values, and
  values that are written in a form that the parser refuses.
\<close>

section \<open>Comparing, copying and marking\<close>

lemma deep_eq_refl:
  assumes "\<And>x. feq x x"
  shows "well_formed c \<Longrightarrow> deep_eq feq c c"
proof (induction "size c" arbitrary: c rule: less_induct)
  case less
  note wf = less.prems [unfolded well_formed.simps [of c]]
  show ?case
  proof (cases "c_value c")
    case (Array xs)
    have "\<forall>x\<in>set xs. deep_eq feq x x"
      using less.hyps size_element [OF Array [symmetric]] wf Array by auto
    then show ?thesis using Array by (simp add: deep_eq.simps [of feq c c])
  next
    case (Object m)
    have "deep_eq feq (e_value e) (e_value e) \<and> map_find m k = Some e" if "(k, e) \<in> set m" for k e
      using less.hyps [OF size_member [OF Object [symmetric] that]] wf Object that map_wf_distinct [of m]
      by (force simp: map_find_def)
    then show ?thesis using Object by (auto simp: deep_eq.simps [of feq c c])
  qed (use wf assms in \<open>simp_all add: deep_eq.simps [of feq c c]\<close>)
qed

text \<open>
  the comparison of two arrays looks at their lengths only: every element of the first is compared
  with itself.
\<close>

theorem deep_eq_ignores_elements:
  assumes "\<And>x. feq x x" "well_formed a" "c_value a = Array xs" "c_value b = Array ys"
  shows "deep_eq feq a b \<longleftrightarrow> length xs = length ys"
proof -
  have "\<forall>x\<in>set xs. deep_eq feq x x"
    using deep_eq_refl [where feq = feq, OF assms(1)] assms(2,3) by (simp add: well_formed.simps [of a])
  then show ?thesis by (simp add: deep_eq.simps [of feq a b] assms(3,4))
qed

lemma first_error_ok: "first_error rs = Inr () \<longleftrightarrow> (\<forall>r\<in>set rs. r = Inr ())"
  by (auto simp: first_error_def find_None_iff find_Some_iff split: option.splits)

lemma set_value_sel [simp]: "c_value (set_value v c) = v"
  by (simp add: set_value_def)

lemma check_dangling_Array: "c_value c = Array xs \<Longrightarrow> check_dangling c = first_error (map check_dangling xs)"
  by (subst check_dangling.simps) simp

lemma mark_accessed_Array: "c_value c = Array xs \<Longrightarrow> mark_accessed v c = set_value (Array (map (mark_accessed v) xs)) c"
  by (subst mark_accessed.simps) simp

lemma mark_accessed_Object:
  "c_value c = Object m \<Longrightarrow>
   mark_accessed v c = set_value (Object (map (\<lambda>(k, e). (k, Entry (mark_accessed v (e_value e)) (e_nr e) v)) m)) c"
  by (subst mark_accessed.simps) simp

lemma check_dangling_Object:
  "c_value c = Object m \<Longrightarrow> check_dangling c = Inr () \<longleftrightarrow>
   (\<forall>(k, e)\<in>set m. e_accessed e \<and> check_dangling (e_value e) = Inr ())"
proof -
  assume c: "c_value c = Object m"
  have first: "first_error (map (\<lambda>(k, e). if e_accessed e then check_dangling (e_value e) else Inr ()) m) = Inr () \<longleftrightarrow>
      (\<forall>(k, e)\<in>set m. e_accessed e \<longrightarrow> check_dangling (e_value e) = Inr ())"
    by (fastforce simp: first_error_ok)
  have "filter (\<lambda>(k, e). \<not> e_accessed e) m = [] \<longleftrightarrow> (\<forall>(k, e)\<in>set m. e_accessed e)" by (auto simp: filter_empty_conv)
  then show ?thesis
    using first by (subst check_dangling.simps) (fastforce simp: c bindE_def split: sum.splits list.splits)
qed

text \<open>Every key of every object was accessed.\<close>

function all_accessed :: "'f config \<Rightarrow> bool" where
  "all_accessed c \<longleftrightarrow>
     (case c_value c of
        Object m \<Rightarrow> \<forall>p\<in>set m. e_accessed (snd p) \<and> all_accessed (e_value (snd p))
      | Array xs \<Rightarrow> \<forall>x\<in>set xs. all_accessed x
      | _ \<Rightarrow> True)"
  by pat_completeness auto
termination
  by (relation "measure size") (auto intro: size_element size_member)

declare all_accessed.simps [simp del]

lemma all_accessed_Array: "c_value c = Array xs \<Longrightarrow> all_accessed c \<longleftrightarrow> (\<forall>x\<in>set xs. all_accessed x)"
  by (subst all_accessed.simps) simp

lemma all_accessed_Object:
  "c_value c = Object m \<Longrightarrow> all_accessed c \<longleftrightarrow> (\<forall>p\<in>set m. e_accessed (snd p) \<and> all_accessed (e_value (snd p)))"
  by (subst all_accessed.simps) simp

lemma all_accessed_marked: "all_accessed (mark_accessed True c)"
proof (induction "size c" arbitrary: c rule: less_induct)
  case less
  show ?case
  proof (cases "c_value c")
    case (Array xs)
    have "\<forall>x\<in>set xs. all_accessed (mark_accessed True x)"
      using less.hyps size_element [OF Array [symmetric]] by auto
    then show ?thesis
      using all_accessed_Array [of "mark_accessed True c"] mark_accessed_Array [OF Array] by simp
  next
    case (Object m)
    have "all_accessed (mark_accessed True (e_value e))" if "(k, e) \<in> set m" for k e
      using less.hyps [OF size_member [OF Object [symmetric] that]] .
    then show ?thesis
      using all_accessed_Object [of "mark_accessed True c"] mark_accessed_Object [OF Object, of True] by auto
  qed (simp_all add: mark_accessed.simps [of True c] all_accessed.simps [of c])
qed

lemma check_dangling_all_accessed: "check_dangling c = Inr () \<longleftrightarrow> all_accessed c"
proof (induction "size c" arbitrary: c rule: less_induct)
  case less
  show ?case
  proof (cases "c_value c")
    case (Array xs)
    then show ?thesis
      using less.hyps size_element [OF Array [symmetric]] check_dangling_Array [OF Array]
      by (simp add: first_error_ok all_accessed_Array)
  next
    case (Object m)
    have "check_dangling (e_value e) = Inr () \<longleftrightarrow> all_accessed (e_value e)" if "(k, e) \<in> set m" for k e
      using less.hyps [OF size_member [OF Object [symmetric] that]] .
    then show ?thesis
      using check_dangling_Object [OF Object] all_accessed_Object [OF Object] by fastforce
  qed (simp_all add: check_dangling.simps [of c] all_accessed.simps [of c])
qed

lemma dumped_value_has_no_dangling_keys:
  assumes "dump fl ds opts c = Inr (w, c')" "opt_mark_accessed opts"
  shows "check_dangling c' = Inr ()"
  using assms all_accessed_marked [of c] by (auto simp: dump_def bindE_eq_Inr check_dangling_all_accessed)

text \<open>A copy has the data of its original, in the same order.\<close>

lemma in_order_map:
  assumes "\<And>p. p \<in> set m \<Longrightarrow> e_nr (snd (f p)) = e_nr (snd p)"
  shows "in_order (map f m) = map f (in_order m)"
proof -
  have insort: "insort_key (\<lambda>p. e_nr (snd p)) (f x) (map f xs) = map f (insort_key (\<lambda>p. e_nr (snd p)) x xs)"
    if "\<And>p. p \<in> insert x (set xs) \<Longrightarrow> e_nr (snd (f p)) = e_nr (snd p)" for x xs
    using that by (induction xs) auto
  show ?thesis
    using assms unfolding in_order_def
  proof (induction m)
    case (Cons p m)
    then show ?case using insort [of p "sort_key (\<lambda>p. e_nr (snd p)) m"] by simp
  qed simp
qed

lemma place_map: "place (map (\<lambda>(k, e). (k, Entry (g e) (e_nr e) False)) m) k = place m k"
proof -
  have "in_order (map (\<lambda>(k, e). (k, Entry (g e) (e_nr e) False)) m) = map (\<lambda>(k, e). (k, Entry (g e) (e_nr e) False)) (in_order m)"
    by (rule in_order_map) auto
  then show ?thesis by (simp add: place_def split_def comp_def)
qed

lemma deep_clone_same_data: "strip (deep_clone c) = strip c"
proof (induction "size c" arbitrary: c rule: less_induct)
  case less
  show ?case
  proof (cases "c_value c")
    case (Array xs)
    have same: "map (strip \<circ> deep_clone) xs = map strip xs"
      using less.hyps size_element [OF Array [symmetric]] by simp
    show ?thesis
      using Array strip_Array [of "deep_clone c"] strip_Array [OF Array]
      by (simp add: deep_clone.simps [of c] set_value_def same)
  next
    case (Object m)
    have "strip (deep_clone (e_value e)) = strip (e_value e)" if "(k, e) \<in> set m" for k e
      using less.hyps [OF size_member [OF Object [symmetric] that]] .
    then have same: "placed (map (\<lambda>(k, e). (k, Entry (deep_clone (e_value e)) (e_nr e) False)) m) = placed m"
      by (auto simp: placed_def place_map)
    show ?thesis
      using Object strip_Object [of "deep_clone c"] strip_Object [OF Object]
      by (simp add: deep_clone.simps [of c] set_value_def same)
  qed (simp_all add: deep_clone.simps [of c])
qed


section \<open>Integers\<close>

text \<open>
  a conversion to an integer type gives the value where it fits into the type and is an error where it does
  not, for the signed types of 8 to 64 bits and the unsigned ones of 8 to 32. The conversion to an unsigned
  type of 64 bits never fails: a negative value becomes one above 2^63.
\<close>

theorem as_integer_in_range:
  assumes "c_value c = Integer i" "- (2 ^ 63) \<le> i" "i < 2 ^ 63"
  shows "(\<forall>w\<in>{8, 16, 32, 64}. as_integer True w c =
      (if - (2 ^ (w - 1)) \<le> i \<and> i < 2 ^ (w - 1) then Inr i else raise_error c ''Integer out of range'')) \<and>
    (\<forall>w\<in>{8, 16, 32}. as_integer False w c =
      (if 0 \<le> i \<and> i < 2 ^ w then Inr i else raise_error c ''Integer out of range'')) \<and>
    as_integer False 64 c = Inr (i mod 2 ^ 64)"
proof (intro conjI ballI)
  have self: "signed_take_bit 63 k = k" if "- (2 ^ 63) \<le> k" "k < 2 ^ 63" for k :: int
    using that by (simp add: signed_take_bit_int_eq_self_iff)
  show "as_integer True w c =
      (if - (2 ^ (w - 1)) \<le> i \<and> i < 2 ^ (w - 1) then Inr i else raise_error c ''Integer out of range'')"
    if "w \<in> {8, 16, 32, 64}" for w
  proof -
    have "min 63 (w - 1) = w - 1" using that by auto
    then have "cast_int True 64 (cast_int True w i) = signed_take_bit (w - 1) i"
      by (simp add: cast_int_def signed_take_bit_signed_take_bit)
    then show ?thesis
      using signed_take_bit_int_eq_self_iff [of "w - 1" i] assms(1) by (auto simp: as_integer_def cast_int_def)
  qed
  show "as_integer False w c = (if 0 \<le> i \<and> i < 2 ^ w then Inr i else raise_error c ''Integer out of range'')"
    if "w \<in> {8, 16, 32}" for w
  proof -
    have "0 \<le> take_bit w i" "take_bit w i < 2 ^ w" "(2 :: int) ^ w \<le> 2 ^ 63" using that by auto
    then have "signed_take_bit 63 (take_bit w i) = take_bit w i" by (intro self) linarith+
    then have "cast_int True 64 (cast_int False w i) = take_bit w i" by (simp add: cast_int_def)
    then show ?thesis
      using take_bit_int_eq_self_iff [of w i] assms(1) by (auto simp: as_integer_def cast_int_def)
  qed
  have "cast_int True 64 (cast_int False 64 i) = i"
    using self [OF assms(2,3)] by (simp add: cast_int_def signed_take_bit_take_bit)
  then show "as_integer False 64 c = Inr (i mod 2 ^ 64)"
    using assms(1) by (simp add: as_integer_def cast_int_def take_bit_eq_mod)
qed


section \<open>Texts that cannot be read back\<close>

lemma bindE_throw_error [simp]: "bindE (throw_error doc st msg) f = throw_error doc st msg"
  by (simp add: throw_error_def)

lemma write_character_null: "write_character (CHR 0x00) = [CHR 0x5C, CHR ''0'']"
  by (simp add: write_character_def safe_character_def)

lemma string_loop_nul:
  fixes st :: "'f pstate"
  assumes "CHR 0x00 \<in> set s"
  shows "p_rest st = concat (map write_character s) @ r \<Longrightarrow>
    \<exists>(st' :: 'f pstate) msg. string_loop opts doc st0 acc st = throw_error doc st' msg"
  using assms
proof (induction s arbitrary: st acc)
  case (Cons c s)
  show ?case
  proof (cases "c = CHR 0x00")
    case True
    then have rest: "p_rest st = CHR 0x5C # CHR ''0'' # concat (map write_character s) @ r"
      using Cons.prems(1) write_character_null by simp
    then have "peek 0 (skip 1 st) = CHR ''0''" by (simp add: peek_def)
    then have "parse_escape opts doc acc (skip 1 st) = throw_error doc (skip 1 st) (''Unknown escape character '' @ quote (CHR ''0''))"
      by (simp add: parse_escape_def Let_def)
    then have "string_loop opts doc st0 acc st = throw_error doc (skip 1 st) (''Unknown escape character '' @ quote (CHR ''0''))"
      using string_loop_escape [OF rest, of opts doc st0 acc] by simp
    then show ?thesis by blast
  next
    case False
    then have nul: "CHR 0x00 \<in> set s" using Cons.prems(2) by auto
    have "p_rest st = write_character c @ (concat (map write_character s) @ r)" using Cons.prems(1) by simp
    from string_loop_written [OF this False, of opts doc st0 acc]
    obtain st1 where st1: "string_loop opts doc st0 acc st = string_loop opts doc st0 (acc @ [c]) st1"
        "p_rest st1 = concat (map write_character s) @ r"
      by blast
    show ?thesis unfolding st1(1) by (rule Cons.IH [OF st1(2) nul])
  qed
qed simp

lemma parse_quoted_nul:
  fixes st :: "'f pstate"
  assumes "CHR 0x00 \<in> set s" "p_rest st = write_quoted_string s @ r"
  shows "\<exists>(st' :: 'f pstate) msg. parse_string opts doc st = throw_error doc st' msg"
proof -
  have rest: "p_rest (skip 1 st) = concat (map write_character s) @ CHR 0x22 # r" "peek 0 st = CHR 0x22"
    using assms(2) by (simp_all add: write_quoted_string_def peek_def)
  obtain c s' where "s = c # s'" using assms(1) by (cases s) auto
  then have "\<not> (peek 1 st = CHR 0x22 \<and> peek 2 st = CHR 0x22)"
    using assms(2) write_character_head [of c] by (auto simp: write_quoted_string_def peek_def)
  then have "parse_string opts doc st = string_loop opts doc st [] (skip 1 st)"
    using rest(2) by (auto simp: parse_string_def parse_assert_def)
  then show ?thesis
    using string_loop_nul [OF assms(1) rest(1), of opts doc st "[]"] by simp
qed

text \<open>An error of the first scalar is the error of the whole text.\<close>

lemma parse_config_scalar_error:
  assumes "blank_indent ind" "value_head t" "hd t \<notin> {CHR ''{'', CHR ''['', CHR ''#''}" "\<not> ident_starter (hd t)"
    and "parse_scalar fl (json ind) 0 (start t (new_info name)) = Inl e"
  shows "parse_config (Suc fuel) fl fs (json ind) name t = Inl e"
proof -
  let ?st = "start t (new_info name)"
  have head: "peek 0 ?st = hd t" using assms(2) by (cases t) (auto simp: peek_def start_def value_head_def)
  have pre: "skip_pre_white (json ind) 0 c ?st = Inr (c, -1, ?st)" for c :: "'a config"
    using assms(2) by (simp add: skip_pre_white_def head value_head_def)
  have "parse_value (Suc fuel) fl fs (json ind) 0 0 (config_of Uninitialized) ?st = Inl e"
    using assms(3,5) by (simp add: pre head)
  then have "array_loop (Suc fuel) (parse_value (Suc fuel) fl fs (json ind)) (json ind) 0 0 [] [] ?st = Inl e"
    using assms(2,4) by (simp add: pre head prefix_comments_Nil parse_assert_def value_head_def del: parse_value.simps)
  then show ?thesis
    by (simp add: parse_config_def parse_text_def top_level_def top_is_object_def del: parse_value.simps array_loop.simps)
qed

text \<open>
  a string with a null character is written in a form that the parser rejects: the JSON writer
  succeeds, and whatever the fuel, reading its text is a parse error.
\<close>

theorem null_character_is_not_read_back:
  assumes "blank_indent ind" "c_value c = Str s" "CHR 0x00 \<in> set s"
  shows "\<exists>text. dump_string fl ds (json ind) c = Inr (text, []) \<and>
    (\<forall>fuel fs name. \<exists>line col msg. parse_config (Suc fuel) fl fs (json ind) name text = Inl (ParseError 0 line col msg))"
proof -
  let ?nl = "if ind = [] then [] else [CHR 0x0A]"
  have dump: "dump_string fl ds (json ind) c = Inr (write_quoted_string s @ ?nl, [])"
    by (simp add: dump_string.simps write_value.simps assms(2) put_text_def Let_def)
  have "\<exists>line col msg. parse_config (Suc fuel) fl fs (json ind) name (write_quoted_string s @ ?nl) = Inl (ParseError 0 line col msg)"
    for fuel fs name
  proof -
    let ?st = "start (write_quoted_string s @ ?nl) (new_info name) :: 'a pstate"
    have rest: "p_rest ?st = write_quoted_string s @ ?nl" by (simp add: start_def)
    obtain st' :: "'a pstate" and msg where str: "parse_string (json ind) 0 ?st = throw_error 0 st' msg"
      using parse_quoted_nul [OF assms(3) rest, of "json ind" 0] by blast
    have "peek 0 ?st = CHR 0x22" using rest by (simp only: peek_def write_quoted_string_def) simp
    then have "parse_scalar fl (json ind) 0 ?st = throw_error 0 st' msg"
      using str by (simp add: parse_scalar_def throw_error_def)
    then show ?thesis
      using parse_config_scalar_error [OF assms(1), of "write_quoted_string s @ ?nl" fl name _ fuel fs]
      by (auto simp: value_head_def write_quoted_string_def maybe_white_def ident_starter_def throw_error_def)
  qed
  then show ?thesis using dump by blast
qed

text \<open>
  In the CFG format a key is written without quotes where it is an identifier, also where it is a keyword that
  the parser takes for a value.
\<close>

definition bool_object :: "string \<Rightarrow> bool \<Rightarrow> 'f config" where
  "bool_object k b = config_of (Object [(k, Entry (config_of (Bool b)) 0 False)])"

lemma CFG_sel [simp]:
  "indentation CFG = [CHR 0x09]" "implicit_top_object CFG" "allow_macro CFG" "write_comments CFG" "identifiers_keys CFG"
  "array_omit_comma CFG" "\<not> sort_keys CFG" "\<not> omit_colon_before_object CFG" "object_align_values CFG"
  "array_trailing_comma CFG" "enforce_indentation CFG" "implicit_top_array CFG" "\<not> empty_file CFG"
  by (simp_all add: CFG_def)

lemma dump_keyword_key:
  assumes "k \<in> {''true'', ''false'', ''null''}"
  shows "dump_string fl ds CFG (bool_object k b) = Inr (k @ '': '' @ (if b then ''true'' else ''false'') @ [CHR 0x0A], [])"
proof -
  have "is_identifier k" using assms by (auto simp: is_identifier_def c_str_def ident_char_def ident_starter_def less_eq_char_def)
  then show ?thesis
    by (simp add: bool_object_def config_of_def no_comments_def dump_string.simps write_object_contents.simps write_value.simps
        write_order_def Let_def write_key_def after_key_def longest_key_def after_member_def compact_def put_text_def
        write_prefix_comments_def write_postfix_comments_def write_indent_def append_written_def)
qed

lemma parse_keyword_key:
  fixes fl :: "'f floats"
  assumes "k \<in> {''true'', ''false'', ''null''}"
  shows "\<exists>line col msg. parse_config (Suc fuel) fl fs CFG name (k @ CHR '':'' # r) = Inl (ParseError 0 line col msg)"
proof -
  let ?st = "start (k @ CHR '':'' # r) (new_info name) :: 'f pstate"
  let ?st1 = "skip (length k) ?st"
  have rest: "p_rest ?st = k @ CHR '':'' # r" by (simp add: start_def)
  have colon: "peek 0 ?st1 = CHR '':''" "peek (length k) ?st = CHR '':''" by (simp_all add: peek_def rest)
  have head: "\<not> maybe_white (peek 0 ?st)" "peek 0 ?st = hd k" "starts k ?st"
    using assms by (auto simp: peek_def rest starts_def maybe_white_def)
  have "\<not> ident_char (CHR '':'')" by (simp add: ident_char_def ident_starter_def less_eq_char_def)
  then have no_ident: "\<not> ident_char (peek (length k) ?st)" using colon(2) by simp
  have reserved: "is_reserved_identifier ?st"
    using assms no_ident by (auto simp: is_reserved_identifier_def starts_def rest eval_nat_numeral)
  have pre: "skip_pre_white CFG 0 c ?st = Inr (c, -1, ?st)" for c :: "'f config"
    using head by (simp add: skip_pre_white_def)
  have white: "skip_white CFG 0 brk ?st1 = Inr (False, -1, [], ?st1)" "skip_white CFG 0 brk ?st = Inr (False, -1, [], ?st)" for brk
    using white_loop_stop [of ?st1 CFG 0 brk False 0 "[]"] white_loop_stop [of ?st CFG 0 brk False 0 "[]"] head(1)
    by (simp_all add: skip_white_def colon(1) maybe_white_def)
  obtain v where v: "parse_scalar fl CFG 0 ?st = Inr (v, ?st1)"
    using assms head no_ident by (auto simp: parse_scalar_def keyword_def parse_assert_def)
  have post: "skip_post_white CFG 0 c ?st1 = Inr (c, False, ?st1)" for c :: "'f config"
    by (simp add: skip_post_white_def colon(1) maybe_white_def)
  have "hd k \<notin> {CHR ''{'', CHR ''['', CHR ''#'', CHR '']'', CHR 0x00, CHR 0x22, CHR ''@''}" using assms by auto
  then have "\<exists>c. parse_value (Suc fuel) fl fs CFG 0 0 (config_of Uninitialized) ?st = Inr (c, False, ?st1)"
    using v by (simp add: pre check_indentation_def head(2) post)
  then obtain c where "parse_value (Suc fuel) fl fs CFG 0 0 (config_of Uninitialized) ?st = Inr (c, False, ?st1)"
    by blast
  then have "array_loop (Suc fuel) (parse_value (Suc fuel) fl fs CFG) CFG 0 0 [] [] ?st =
      throw_error 0 ?st1 (''Expected a space, newline, comma or '' @ [CHR '']''])"
    using \<open>hd k \<notin> _\<close> colon(1) reserved
    by (simp add: pre check_indentation_def head(2) prefix_comments_Nil parse_assert_def after_value_def white check_comma_def
        del: parse_value.simps)
  moreover have "top_is_object CFG 0 ?st = Inr False"
    using \<open>hd k \<notin> _\<close> reserved by (simp add: top_is_object_def skip_white_ignore_comments_def white head(2))
  ultimately have "parse_config (Suc fuel) fl fs CFG name (k @ CHR '':'' # r) =
      throw_error 0 ?st1 (''Expected a space, newline, comma or '' @ [CHR '']''])"
    by (simp add: parse_config_def parse_text_def top_level_def del: parse_value.simps array_loop.simps)
  then show ?thesis by (simp add: throw_error_def)
qed

text \<open>
  in the CFG format an object with one of the keys true, false and null is written with its key
  unquoted; the parser takes the key for a value and rejects the text.
\<close>

theorem keyword_key_is_not_read_back:
  assumes "k \<in> {''true'', ''false'', ''null''}"
  shows "\<exists>text. dump_string fl ds CFG (bool_object k b) = Inr (text, []) \<and>
    (\<forall>fuel fs name. \<exists>line col msg. parse_config (Suc fuel) fl fs CFG name text = Inl (ParseError 0 line col msg))"
proof -
  let ?text = "k @ CHR '':'' # CHR 0x20 # (if b then ''true'' else ''false'') @ [CHR 0x0A]"
  have "dump_string fl ds CFG (bool_object k b) = Inr (?text, [])" by (simp add: dump_keyword_key [OF assms])
  moreover have "\<exists>line col msg. parse_config (Suc fuel) fl fs CFG name ?text = Inl (ParseError 0 line col msg)" for fuel fs name
    by (rule parse_keyword_key [OF assms])
  ultimately show ?thesis by blast
qed

end
