(* ===== verification/Cfg_Objects.thy ===== *)
theory Cfg_Objects
  imports Cfg_Roundtrip
begin

text \<open>
  Objects of Configuru as maps: what a sequence of changes leaves in an object is what the same changes leave in
  a map from keys to values; and members are written in the order in which their keys were added.
\<close>

section \<open>Changes\<close>

text \<open>The operations that change an object; \<open>Index\<close> is the assignment \<open>c[key] = value\<close>.\<close>

datatype 'f change =
    Index string "'f config"
  | Insert_or_assign string "'f config"
  | Emplace string "'f config"
  | Erase string

fun make_change :: "'f change \<Rightarrow> 'f config \<Rightarrow> 'f config cfg" where
  "make_change (Index k x) c = bindE (lookup_or_add k c) (\<lambda>(dst, c'). Inr (put_value k (assign dst x) c'))"
| "make_change (Insert_or_assign k x) c = insert_or_assign k x c"
| "make_change (Emplace k x) c = bindE (emplace k x c) (\<lambda>(_, c'). Inr c')"
| "make_change (Erase k) c = bindE (erase k c) (\<lambda>(_, c'). Inr c')"

fun make_changes :: "'f change list \<Rightarrow> 'f config \<Rightarrow> 'f config cfg" where
  "make_changes [] c = Inr c"
| "make_changes (x # xs) c = bindE (make_change x c) (make_changes xs)"

text \<open>The specification: a map from keys to what their values are.\<close>

type_synonym 'f contents = "string \<rightharpoonup> 'f val"

definition contents :: "(string, 'f entry) std_map \<Rightarrow> 'f contents" where
  "contents m k = map_option (\<lambda>e. c_value (e_value e)) (map_find m k)"

fun spec_change :: "'f change \<Rightarrow> 'f contents \<Rightarrow> 'f contents" where
  "spec_change (Index k x) M = M(k \<mapsto> c_value x)"
| "spec_change (Insert_or_assign k x) M = M(k \<mapsto> c_value x)"
| "spec_change (Emplace k x) M = (if M k = None then M(k \<mapsto> c_value x) else M)"
| "spec_change (Erase k) M = M(k := None)"

lemma set_value_Object [simp]: "c_value (set_value v c) = v"
  by (simp add: set_value_def)

lemma c_value_assign [simp]: "c_value (assign d x) = c_value x"
  by (simp add: assign_def Let_def)

lemma as_object_Object: "c_value c = Object m \<Longrightarrow> as_object c = Inr m"
  by (simp add: as_object_def)

lemma contents_map_set: "contents (map_set k e m) = (contents m)(k \<mapsto> c_value (e_value e))"
  by (auto simp: contents_def map_find_map_set)

lemma make_change_object:
  assumes "c_value c = Object m" "map_wf m"
  shows "\<exists>c' m'. make_change x c = Inr c' \<and> c_value c' = Object m' \<and> map_wf m' \<and>
    contents m' = spec_change x (contents m)"
proof (cases x)
  case (Index k y)
  then show ?thesis
    using assms by (auto simp: as_object_Object lookup_or_add_def put_value_def Let_def map_find_map_set map_wf_map_set
        contents_map_set access_def split: option.splits)
next
  case (Insert_or_assign k y)
  then show ?thesis
    using assms by (auto simp: as_object_Object insert_or_assign_def Let_def map_wf_map_set contents_map_set split: option.splits)
next
  case (Emplace k y)
  then show ?thesis
    using assms by (auto simp: as_object_Object emplace_def map_insert_def map_wf_map_set contents_map_set contents_def
        split: option.splits)
next
  case (Erase k)
  then show ?thesis
    using assms by (auto simp: as_object_Object erase_def map_wf_map_erase contents_def map_find_map_erase fun_eq_iff)
qed

lemma make_changes_object:
  "c_value c = Object m \<Longrightarrow> map_wf m \<Longrightarrow>
   \<exists>c' m'. make_changes xs c = Inr c' \<and> c_value c' = Object m' \<and> map_wf m' \<and> contents m' = fold spec_change xs (contents m)"
proof (induction xs arbitrary: c m)
  case (Cons x xs)
  from make_change_object [OF Cons.prems, of x] obtain c1 m1 where
    "make_change x c = Inr c1" "c_value c1 = Object m1" "map_wf m1" "contents m1 = spec_change x (contents m)" by blast
  with Cons.IH [of c1 m1] show ?case by auto
qed auto

lemma size_contents: "map_wf m \<Longrightarrow> length m = card (dom (contents m))"
proof -
  assume wf: "map_wf m"
  have "dom (contents m) = fst ` set m" by (auto simp: contents_def dom_def map_find_def map_of_eq_None_iff)
  then show ?thesis using map_wf_distinct [OF wf] by (metis distinct_card length_map list.set_map)
qed

text \<open>
  C24: an object refines a map from keys to values: whatever sequence of assignments, insertions and
  removals is made on it, it succeeds, the object stays sorted with distinct keys, and its size, the test for
  a key and the look-up of a key agree with the map after the same changes; a look-up changes no value. The
  look-up of a key that is not there, with the const \<open>operator[]\<close>, is an error, an exception; the comment at its
  declaration (line 656) says instead that it returns a \<open>Config\<close> of type \<open>BadLookupType\<close>.
\<close>

theorem object_refines_map:
  assumes "c_value c = Object m" "map_wf m"
  shows "\<exists>c' m'. make_changes xs c = Inr c' \<and> c_value c' = Object m' \<and> map_wf m' \<and>
    contents m' = fold spec_change xs (contents m) \<and>
    object_size c' = Inr (card (dom (contents m'))) \<and>
    (\<forall>k. has_key k c' = Inr (contents m' k \<noteq> None) \<and>
       (case contents m' k of
          None \<Rightarrow> isl (lookup k c')
        | Some v \<Rightarrow> \<exists>x m''. lookup k c' = Inr (x, set_value (Object m'') c') \<and> c_value x = v \<and> contents m'' = contents m'))"
proof -
  obtain c' m' where c': "make_changes xs c = Inr c'" "c_value c' = Object m'" "map_wf m'"
      "contents m' = fold spec_change xs (contents m)"
    using make_changes_object [OF assms] by blast
  have "case contents m' k of
          None \<Rightarrow> isl (lookup k c')
        | Some v \<Rightarrow> \<exists>x m''. lookup k c' = Inr (x, set_value (Object m'') c') \<and> c_value x = v \<and> contents m'' = contents m'" for k
  proof (cases "map_find m' k")
    case None
    then show ?thesis using c'(2) by (simp add: lookup_def as_object_Object contents_def raise_error_def)
  next
    case (Some e)
    have "contents (map_set k (access e) m') = contents m'"
      using Some by (simp add: contents_map_set access_def) (simp add: contents_def fun_upd_idem_iff)
    then show ?thesis using Some c'(2) by (auto simp: lookup_def as_object_Object contents_def)
  qed
  moreover have "has_key k c' = Inr (contents m' k \<noteq> None)" for k
    using c'(2) by (simp add: has_key_def as_object_Object contents_def)
  moreover have "object_size c' = Inr (card (dom (contents m')))"
    using c'(2) size_contents [OF c'(3)] by (simp add: object_size_def as_object_Object)
  ultimately show ?thesis using c' by blast
qed


section \<open>The order of the members\<close>

text \<open>The keys of a list of changes in the order of their first occurrence.\<close>

fun change_key :: "'f change \<Rightarrow> string" where
  "change_key (Index k x) = k"
| "change_key (Insert_or_assign k x) = k"
| "change_key (Emplace k x) = k"
| "change_key (Erase k) = k"

fun erases :: "'f change \<Rightarrow> bool" where
  "erases (Erase k) = True"
| "erases _ = False"

definition add_key :: "string \<Rightarrow> string list \<Rightarrow> string list" where
  "add_key k ks = (if k \<in> set ks then ks else ks @ [k])"

text \<open>The members are numbered as the list of keys says.\<close>

definition numbers :: "string list \<Rightarrow> (string, 'f entry) std_map \<Rightarrow> bool" where
  "numbers ks m \<longleftrightarrow> map_wf m \<and> distinct ks \<and> set ks = fst ` set m \<and>
     (\<forall>i<length ks. \<exists>e. map_find m (ks ! i) = Some e \<and> e_nr e = i)"

lemma numbers_length: "numbers ks m \<Longrightarrow> length m = length ks"
  unfolding numbers_def by (metis distinct_card length_map list.set_map map_wf_distinct)

lemma numbers_find: "numbers ks m \<Longrightarrow> map_find m k = None \<longleftrightarrow> k \<notin> set ks"
  by (auto simp: numbers_def map_find_def map_of_eq_None_iff)

lemma numbers_set:
  assumes "numbers ks m" "e_nr e = (case map_find m k of None \<Rightarrow> length m | Some e' \<Rightarrow> e_nr e')"
  shows "numbers (add_key k ks) (map_set k e m)"
proof (cases "map_find m k")
  case None
  then show ?thesis
    using assms numbers_length [OF assms(1)] numbers_find [OF assms(1), of k]
    by (auto simp: numbers_def add_key_def map_wf_map_set fst_set_map_set map_find_map_set nth_append)
next
  case (Some e')
  then show ?thesis
    using assms numbers_find [OF assms(1), of k]
    by (auto simp: numbers_def add_key_def map_wf_map_set fst_set_map_set map_find_map_set insert_absorb)
qed

lemma make_change_numbers:
  assumes "c_value c = Object m" "numbers ks m" "\<not> erases x"
  shows "\<exists>c' m'. make_change x c = Inr c' \<and> c_value c' = Object m' \<and> numbers (add_key (change_key x) ks) m'"
proof -
  have set2: "numbers (add_key k ks) (map_set k e2 (map_set k e1 m))"
    if "e_nr e2 = e_nr e1" "e_nr e1 = (case map_find m k of None \<Rightarrow> length m | Some e' \<Rightarrow> e_nr e')" for k e1 e2
  proof -
    have "numbers (add_key k (add_key k ks)) (map_set k e2 (map_set k e1 m))"
      using numbers_set [OF numbers_set [OF assms(2) that(2)], of e2 k] that(1) by (simp add: map_find_map_set)
    then show ?thesis by (simp add: add_key_def split: if_splits)
  qed
  show ?thesis
  proof (cases x)
    case (Index k y)
    then show ?thesis
      using assms(1) set2 [of "Entry y' n a" "Entry y'' n a'" k for y' y'' n a a']
      by (auto simp: as_object_Object lookup_or_add_def put_value_def Let_def map_find_map_set access_def split: option.splits)
  next
    case (Insert_or_assign k y)
    then show ?thesis
      using assms(1) numbers_set [OF assms(2), of _ k]
      by (auto simp: as_object_Object insert_or_assign_def Let_def split: option.splits)
  next
    case (Emplace k y)
    then show ?thesis
      using assms(1,2) numbers_set [OF assms(2), of _ k] numbers_find [OF assms(2), of k]
      by (auto simp: as_object_Object emplace_def map_insert_def add_key_def split: option.splits)
  qed (use assms(3) in simp)
qed

lemma make_changes_numbers:
  "c_value c = Object m \<Longrightarrow> numbers ks m \<Longrightarrow> list_all (\<lambda>x. \<not> erases x) xs \<Longrightarrow>
   \<exists>c' m'. make_changes xs c = Inr c' \<and> c_value c' = Object m' \<and> numbers (fold add_key (map change_key xs) ks) m'"
proof (induction xs arbitrary: c m ks)
  case (Cons x xs)
  from make_change_numbers [OF Cons.prems(1,2), of x] Cons.prems(3) obtain c1 m1 where
    "make_change x c = Inr c1" "c_value c1 = Object m1" "numbers (add_key (change_key x) ks) m1" by auto
  with Cons.IH [of c1 m1] Cons.prems(3) show ?case by auto
qed auto

text \<open>
  the members of an object that was made by assignments and insertions are written in the order in
  which their keys were first added, also where later changes replace values.
\<close>

theorem members_written_as_added:
  assumes "list_all (\<lambda>x. \<not> erases x) xs" "\<not> sort_keys opts"
  shows "\<exists>c m. make_changes xs (config_of (Object [])) = Inr c \<and> c_value c = Object m \<and>
    map fst (write_order opts m) = fold add_key (map change_key xs) []"
proof -
  have "numbers [] []" by (simp add: numbers_def)
  then obtain c m where c: "make_changes xs (config_of (Object [])) = Inr c" "c_value c = Object m"
      and nr: "numbers (fold add_key (map change_key xs) []) m"
    using make_changes_numbers [OF _ _ assms(1), of "config_of (Object [])" "[]" "[]"] by auto
  have "in_order m = map (\<lambda>k. (k, the (map_find m k))) (fold add_key (map change_key xs) [])"
    using nr by (intro in_order_keys map_wf_distinct) (auto simp: numbers_def)
  then have "map fst (write_order opts m) = fold add_key (map change_key xs) []"
    using assms(2) by (simp add: write_order_def in_order_def comp_def)
  then show ?thesis using c by blast
qed

end
