(* ===== verification/Cfg_Serialize.thy ===== *)
theory Cfg_Serialize
  imports Cfg_Properties Cfg_Objects
begin

text \<open>
  \<open>serialize\<close> and \<open>deserialize\<close> of Configuru, which are compiled where the library \<open>visit_struct\<close> is there.
  The C++ templates go by the type of a variable; here the value of a variable carries its type. What
  \<open>visit_struct\<close> gives for a struct are the names of its members and their values, in their order.
\<close>

section \<open>Values of C++\<close>

text \<open>
  Integers with sign and width, an array of fixed length, a \<open>std::vector\<close> with the value-initialised element that
  \<open>push_back({})\<close> adds, and a struct.
\<close>

datatype 'f cpp =
    CBool bool
  | CInt bool nat int
  | CFloat 'f
  | CDouble 'f
  | CString string
  | CArray "'f cpp list"
  | CVector "'f cpp" "'f cpp list"
  | CStruct "(string \<times> 'f cpp) list"

lemma mapE_cong [fundef_cong]:
  "xs = ys \<Longrightarrow> (\<And>x. x \<in> set ys \<Longrightarrow> f x = g x) \<Longrightarrow> mapE f xs = mapE g ys"
  by (induction xs arbitrary: ys) auto

lemma size_cpp_element: "x \<in> set xs \<Longrightarrow> size x < Suc (size_list size xs)"
  by (induction xs) auto

lemma size_cpp_member: "(k, x) \<in> set fs \<Longrightarrow> size x < Suc (size_list (size_prod (\<lambda>_. 0) size) fs)"
  by (induction fs) auto


section \<open>serialize\<close>

function serialize :: "'f cpp \<Rightarrow> 'f config cfg" where
  "serialize (CBool b) = Inr (config_of (Bool b))"
| "serialize (CInt s w i) =
     (if s \<or> w \<noteq> 64 then Inr (config_of (Integer i)) else config_of_unsigned (word_of_int i))"
| "serialize (CFloat x) = Inr (config_of (Float x))"
| "serialize (CDouble x) = Inr (config_of (Float x))"
| "serialize (CString s) = Inr (config_of (Str s))"
| "serialize (CArray xs) = bindE (mapE serialize xs) config_array"
| "serialize (CVector d xs) = bindE (mapE serialize xs) config_array"
| "serialize (CStruct fs) =
     bindE (mapE (\<lambda>(k, x). bindE (serialize x) (\<lambda>c. Inr (k, c))) fs) config_object"
  by pat_completeness auto
termination
  by (relation "measure size") (auto dest: size_cpp_element size_cpp_member)


section \<open>deserialize\<close>

text \<open>
  The value of the variable is overwritten. Where the structure does not fit, \<open>on_error\<close> is called with a position
  and a message and the variable is left as it is; a value of the wrong type is an error of the
  conversion. The result is the list of the calls of \<open>on_error\<close>, the new value, and the configuration with the members
  marked that were looked up.
\<close>

text \<open>
  The types that have a \<open>deserialize\<close>. An array must have arithmetic elements (\<open>std::enable_if\<close>); the elements of a vector
  are read through a pointer to \<open>back()\<close> after \<open>push_back({})\<close>, so they are neither \<open>bool\<close> nor arrays. A call for any
  other type does not compile (\<open>NoOverload\<close>).
\<close>

fun arithmetic :: "'f cpp \<Rightarrow> bool" where
  "arithmetic (CBool _) = True"
| "arithmetic (CInt _ _ _) = True"
| "arithmetic (CFloat _) = True"
| "arithmetic (CDouble _) = True"
| "arithmetic _ = False"

definition vector_element :: "'f cpp \<Rightarrow> bool" where
  "vector_element d = (case d of CBool _ \<Rightarrow> False | CArray _ \<Rightarrow> False | _ \<Rightarrow> True)"

function deserializable :: "'f cpp \<Rightarrow> bool" where
  "deserializable (CArray xs) \<longleftrightarrow> xs \<noteq> [] \<and> (\<forall>x\<in>set xs. arithmetic x)"
| "deserializable (CVector d _) \<longleftrightarrow> vector_element d \<and> deserializable d"
| "deserializable (CStruct fs) \<longleftrightarrow> (\<forall>p\<in>set fs. deserializable (snd p))"
| "deserializable (CBool _) \<longleftrightarrow> True"
| "deserializable (CInt _ _ _) \<longleftrightarrow> True"
| "deserializable (CFloat _) \<longleftrightarrow> True"
| "deserializable (CDouble _) \<longleftrightarrow> True"
| "deserializable (CString _) \<longleftrightarrow> True"
  by pat_completeness auto
termination
  by (relation "measure size") (auto dest: size_cpp_member)

type_synonym reports = "(nat option \<times> nat option \<times> string) list"

definition report :: "'f config \<Rightarrow> string \<Rightarrow> reports" where
  "report c msg = [(c_doc c, c_line c, msg)]"

definition all_results :: "(reports \<times> 'a \<times> 'b) list \<Rightarrow> reports \<times> 'a list \<times> 'b list" where
  "all_results rs = (concat (map fst rs), map (\<lambda>r. fst (snd r)) rs, map (\<lambda>r. snd (snd r)) rs)"

function deserialize :: "'f floats \<Rightarrow> 'f cpp \<Rightarrow> 'f config \<Rightarrow> (reports \<times> 'f cpp \<times> 'f config) cfg"
  and deserialize_members ::
    "'f floats \<Rightarrow> (string \<times> 'f cpp) list \<Rightarrow> 'f config \<Rightarrow> (reports \<times> (string \<times> 'f cpp) list \<times> 'f config) cfg" where
  "deserialize fl (CBool _) c = bindE (as_bool c) (\<lambda>b. Inr ([], CBool b, c))"
| "deserialize fl (CInt s w _) c = bindE (as_integer s w c) (\<lambda>i. Inr ([], CInt s w i, c))"
| "deserialize fl (CFloat _) c =
     bindE (as_float (\<lambda>i. fl_to_float fl (fl_of_int fl i)) (fl_to_float fl) c) (\<lambda>x. Inr ([], CFloat x, c))"
| "deserialize fl (CDouble _) c = bindE (as_double (fl_of_int fl) c) (\<lambda>x. Inr ([], CDouble x, c))"
| "deserialize fl (CString _) c = bindE (as_string c) (\<lambda>s. Inr ([], CString s, c))"
| "deserialize fl (CArray xs) c =
     (if \<not> deserializable (CArray xs) then Inl NoOverload
      else bindE (as_array c) (\<lambda>es.
       if length es \<noteq> length xs
       then Inr (report c (''Expected array to be '' @ show_int (int (length xs)) @ '' long.''), CArray xs, c)
       else bindE (mapE (\<lambda>(x, e). deserialize fl x e) (zip xs es)) (\<lambda>rs.
         let (ms, ys, es') = all_results rs in Inr (ms, CArray ys, set_value (Array es') c))))"
| "deserialize fl (CVector d xs) c =
     (if \<not> deserializable (CVector d xs) then Inl NoOverload
      else case c_value c of
        Array es \<Rightarrow>
          bindE (mapE (\<lambda>e. deserialize fl d e) es) (\<lambda>rs.
            let (ms, ys, es') = all_results rs in Inr (ms, CVector d ys, set_value (Array es') c))
      | _ \<Rightarrow> Inr (report c ''Failed to deserialize container: config is not an array.'', CVector d xs, c))"
| "deserialize fl (CStruct fs) c =
     (case c_value c of
        Object _ \<Rightarrow> bindE (deserialize_members fl fs c) (\<lambda>(ms, gs, c'). Inr (ms, CStruct gs, c'))
      | _ \<Rightarrow> Inr (report c ''Failed to deserialize object: config is not an object.'', CStruct fs, c))"
| "deserialize_members fl [] c = Inr ([], [], c)"
| "deserialize_members fl ((k, x) # fs) c =
     bindE (has_key k c) (\<lambda>found.
     if \<not> found then bindE (deserialize_members fl fs c) (\<lambda>(ms, gs, c'). Inr (ms, (k, x) # gs, c'))
     else bindE (lookup k c) (\<lambda>(v, c1).
          bindE (deserialize fl x v) (\<lambda>(ms1, y, v').
          bindE (deserialize_members fl fs (put_value k v' c1)) (\<lambda>(ms2, gs, c').
          Inr (ms1 @ ms2, (k, y) # gs, c')))))"
  by pat_completeness auto
termination
  by (relation "measure (\<lambda>x. case x of Inl (_, t, _) \<Rightarrow> size t | Inr (_, fs, _) \<Rightarrow> size_list (size_prod (\<lambda>_. 0) size) fs)")
    (auto dest!: set_zip_leftD intro: size_cpp_element)


section \<open>What was serialized is deserialized\<close>

text \<open>A value in the range of its type, which can be read; an unsigned integer of 64 bits must fit into 63.\<close>

function valid_cpp :: "'f floats \<Rightarrow> 'f cpp \<Rightarrow> bool" where
  "valid_cpp fl (CBool _) \<longleftrightarrow> True"
| "valid_cpp fl (CInt s w i) \<longleftrightarrow> w \<in> {8, 16, 32, 64} \<and>
     (if s then - (2 ^ (w - 1)) \<le> i \<and> i < 2 ^ (w - 1) else 0 \<le> i \<and> i < 2 ^ (if w = 64 then 63 else w))"
| "valid_cpp fl (CFloat x) \<longleftrightarrow> fl_to_float fl x = x"
| "valid_cpp fl (CDouble _) \<longleftrightarrow> True"
| "valid_cpp fl (CString _) \<longleftrightarrow> True"
| "valid_cpp fl (CArray xs) \<longleftrightarrow> deserializable (CArray xs) \<and> (\<forall>x\<in>set xs. valid_cpp fl x)"
| "valid_cpp fl (CVector d xs) \<longleftrightarrow> deserializable (CVector d xs) \<and> (\<forall>x\<in>set xs. valid_cpp fl x)"
| "valid_cpp fl (CStruct fs) \<longleftrightarrow> distinct (map fst fs) \<and> (\<forall>p\<in>set fs. valid_cpp fl (snd p))"
  by pat_completeness auto
termination
  by (relation "measure (\<lambda>(_, x). size x)") (auto dest: size_cpp_element size_cpp_member)

text \<open>Variables of the same type: members with the same names, arrays of the same length, any vector of such elements.\<close>

function same_type :: "'f cpp \<Rightarrow> 'f cpp \<Rightarrow> bool" where
  "same_type t (CBool _) \<longleftrightarrow> (\<exists>b. t = CBool b)"
| "same_type t (CInt s w _) \<longleftrightarrow> (\<exists>i. t = CInt s w i)"
| "same_type t (CFloat _) \<longleftrightarrow> (\<exists>x. t = CFloat x)"
| "same_type t (CDouble _) \<longleftrightarrow> (\<exists>x. t = CDouble x)"
| "same_type t (CString _) \<longleftrightarrow> (\<exists>x. t = CString x)"
| "same_type t (CArray ys) \<longleftrightarrow>
     (case t of CArray xs \<Rightarrow> length xs = length ys \<and> (\<forall>(x, y)\<in>set (zip xs ys). same_type x y) | _ \<Rightarrow> False)"
| "same_type t (CVector d ys) \<longleftrightarrow>
     (case t of CVector d' xs \<Rightarrow> d' = d \<and> (\<forall>y\<in>set ys. same_type d y) | _ \<Rightarrow> False)"
| "same_type t (CStruct gs) \<longleftrightarrow>
     (case t of CStruct fs \<Rightarrow> map fst fs = map fst gs \<and> (\<forall>(f, g)\<in>set (zip fs gs). same_type (snd f) (snd g)) | _ \<Rightarrow> False)"
  by pat_completeness auto
termination
  by (relation "measure (\<lambda>(_, x). size x)")
    (auto dest!: set_zip_rightD dest: size_cpp_element size_cpp_member)

lemma mapE_ok:
  "\<forall>x\<in>set xs. \<exists>y. f x = Inr y \<and> P x y \<Longrightarrow> \<exists>ys. mapE f xs = Inr ys \<and> list_all2 P xs ys"
  by (induction xs) fastforce+

lemma config_array_ok: "config_array xs = Inr (config_of (Array xs))"
proof -
  have "foldl (\<lambda>r x. bindE r (push_back x)) (Inr (config_of (Array ys))) xs = Inr (config_of (Array (ys @ xs)))" for ys :: "'a config list"
    by (induction xs arbitrary: ys) (simp_all add: push_back_def as_array_def config_of_def set_value_def)
  from this [of "[]"] show ?thesis
    by (simp add: config_array_def make_array_def config_of_def set_value_def)
qed

lemma same_type_arithmetic:
  assumes "list_all2 same_type ts xs" "deserializable (CArray xs)"
  shows "deserializable (CArray ts)"
proof -
  have same: "arithmetic t" if "same_type t x" "arithmetic x" for t x :: "'a cpp" using that by (cases x) auto
  have "arithmetic (ts ! i)" if "i < length ts" for i
    by (rule same [of "ts ! i" "xs ! i"]) (use that assms in \<open>auto simp: list_all2_conv_all_nth\<close>)
  then have "\<forall>t\<in>set ts. arithmetic t" by (auto simp: in_set_conv_nth)
  moreover have "ts \<noteq> []" using assms by auto
  ultimately show ?thesis by simp
qed

text \<open>What is known of a value and the configuration that is made from it.\<close>

definition carries :: "'f floats \<Rightarrow> 'f cpp \<Rightarrow> 'f config \<Rightarrow> bool" where
  "carries fl x c \<longleftrightarrow> c = config_of (c_value c) \<and>
     (\<forall>t. same_type t x \<longrightarrow> (\<exists>c'. deserialize fl t c = Inr ([], x, c') \<and> all_accessed c'))"

lemma carries_scalar:
  assumes "c = config_of v" "\<And>t. same_type t x \<Longrightarrow> deserialize fl t c = Inr ([], x, c)"
    and "case v of Array _ \<Rightarrow> False | Object _ \<Rightarrow> False | _ \<Rightarrow> True"
  shows "carries fl x c"
proof -
  have "all_accessed (config_of v)"
    using assms(3) by (subst all_accessed.simps) (simp add: config_of_def split: val.splits)
  then show ?thesis using assms(1,2) by (auto simp: carries_def config_of_def)
qed

lemma all_results_simps [simp]:
  "all_results [] = ([], [], [])"
  "all_results ((ms, y, e) # rs) = (let (ms', ys, es) = all_results rs in (ms @ ms', y # ys, e # es))"
  by (simp_all add: all_results_def)

lemma deserialize_elements:
  "list_all2 (carries fl) xs cs \<Longrightarrow> list_all2 same_type ts xs \<Longrightarrow>
   \<exists>rs es. mapE (\<lambda>(t, e). deserialize fl t e) (zip ts cs) = Inr rs \<and> all_results rs = ([], xs, es) \<and> (\<forall>e\<in>set es. all_accessed e)"
proof (induction xs arbitrary: ts cs)
  case (Cons x xs)
  obtain c cs' where cs: "cs = c # cs'" "carries fl x c" "list_all2 (carries fl) xs cs'"
    using Cons.prems(1) by (auto simp: list_all2_Cons1)
  obtain t ts' where ts: "ts = t # ts'" "same_type t x" "list_all2 same_type ts' xs"
    using Cons.prems(2) by (auto simp: list_all2_Cons2)
  obtain c' where c': "deserialize fl t c = Inr ([], x, c')" "all_accessed c'" using cs(2) ts(2) by (auto simp: carries_def)
  obtain rs es where "mapE (\<lambda>(t, e). deserialize fl t e) (zip ts' cs') = Inr rs" "all_results rs = ([], xs, es)"
      "\<forall>e\<in>set es. all_accessed e"
    using Cons.IH [OF cs(3) ts(3)] by blast
  then show ?case using c' by (auto simp: cs(1) ts(1))
qed simp

lemma mapE_replicate: "mapE (\<lambda>e. f d e) es = mapE (\<lambda>(t, e). f t e) (zip (replicate (length es) d) es)"
  by (induction es) auto

lemma config_object_ok:
  "distinct (map fst kvs) \<Longrightarrow> \<forall>p\<in>set kvs. snd p = config_of (c_value (snd p)) \<Longrightarrow>
   \<exists>m. config_object kvs = Inr (config_of (Object m)) \<and> map_wf m \<and> fst ` set m = fst ` set kvs \<and>
     (\<forall>p\<in>set kvs. \<exists>n a. map_find m (fst p) = Some (Entry (snd p) n a))"
proof (induction kvs rule: rev_induct)
  case Nil
  then show ?case by (simp add: config_object_def make_object_def config_of_def set_value_def)
next
  case (snoc p kvs)
  obtain k x where p: "p = (k, x)" by force
  obtain m where m: "config_object kvs = Inr (config_of (Object m))" "map_wf m" "fst ` set m = fst ` set kvs"
      "\<forall>p\<in>set kvs. \<exists>n a. map_find m (fst p) = Some (Entry (snd p) n a)"
    using snoc by auto
  have new: "k \<notin> fst ` set kvs" using snoc.prems(1) by (simp add: p)
  then have none: "map_find m k = None" unfolding m(3) [symmetric] by (simp add: map_find_def map_of_eq_None_iff)
  let ?bad = "config_of (BadLookupType None None k)" and ?c = "config_of (Object m)"
  let ?m = "map_set k (Entry x (length m) False) (map_set k (Entry ?bad (length m) False) m)"
  have bare: "x = config_of (c_value x)" using snoc.prems(2) by (simp add: p)
  have "assign ?bad (config_of v) = config_of v" for v :: "'a val"
    by (simp add: assign_def Let_def config_of_def has_comments_def)
  with bare have "assign ?bad x = x" by metis
  then have "config_object (kvs @ [p]) = Inr (config_of (Object ?m))"
    using m(1) none
    by (simp add: config_object_def p lookup_or_add_def as_object_def put_value_def map_find_map_set config_of_def set_value_def)
  moreover have "map_wf ?m" using m(2) by (simp add: map_wf_map_set)
  moreover have "fst ` set ?m = fst ` set (kvs @ [p])" using m(3) by (simp add: fst_set_map_set p)
  moreover have "\<forall>q\<in>set (kvs @ [p]). \<exists>n a. map_find ?m (fst q) = Some (Entry (snd q) n a)"
    using m(4) new by (auto simp: map_find_map_set p image_iff)
  ultimately show ?case by blast
qed

lemma deserialize_members_ok:
  "list_all2 (\<lambda>t g. fst t = fst g \<and> same_type (snd t) (snd g)) ts gs \<Longrightarrow> distinct (map fst gs) \<Longrightarrow>
   c_value c = Object m \<Longrightarrow> map_wf m \<Longrightarrow> fst ` set gs \<subseteq> fst ` set m \<Longrightarrow>
   \<forall>g\<in>set gs. \<exists>x n a. map_find m (fst g) = Some (Entry x n a) \<and> carries fl (snd g) x \<Longrightarrow>
   \<exists>c' m'. deserialize_members fl ts c = Inr ([], gs, c') \<and> c_value c' = Object m' \<and> map_wf m' \<and> fst ` set m' = fst ` set m \<and>
     (\<forall>k. k \<notin> fst ` set gs \<longrightarrow> map_find m' k = map_find m k) \<and>
     (\<forall>k\<in>fst ` set gs. \<exists>e. map_find m' k = Some e \<and> e_accessed e \<and> all_accessed (e_value e))"
proof (induction gs arbitrary: ts c m)
  case (Cons g gs)
  obtain k y where g: "g = (k, y)" by force
  obtain t ts' where ts: "ts = (k, t) # ts'" "same_type t y"
      "list_all2 (\<lambda>t g. fst t = fst g \<and> same_type (snd t) (snd g)) ts' gs"
    using Cons.prems(1) by (auto simp: list_all2_Cons2 g)
  obtain x n a where x: "map_find m k = Some (Entry x n a)" "carries fl y x" using Cons.prems(6) by (auto simp: g)
  obtain x' where x': "deserialize fl t x = Inr ([], y, x')" "all_accessed x'" using x(2) ts(2) by (auto simp: carries_def)
  let ?m = "map_set k (Entry x' n True) (map_set k (Entry x n True) m)"
  let ?c = "set_value (Object ?m) c"
  have keys: "fst ` set ?m = fst ` set m" using Cons.prems(5) by (auto simp: fst_set_map_set g)
  have new: "k \<notin> fst ` set gs" using Cons.prems(2) by (simp add: g)
  have wf: "map_wf ?m" using Cons.prems(4) by (simp add: map_wf_map_set)
  have rest: "\<forall>g\<in>set gs. \<exists>x n a. map_find ?m (fst g) = Some (Entry x n a) \<and> carries fl (snd g) x"
    using Cons.prems(6) new by (auto simp: map_find_map_set image_iff)
  have "fst ` set gs \<subseteq> fst ` set ?m" using Cons.prems(5) keys by auto
  from Cons.IH [OF ts(3) _ _ wf this rest, of ?c] Cons.prems(2) obtain c' m' where
    c': "deserialize_members fl ts' ?c = Inr ([], gs, c')" "c_value c' = Object m'" "map_wf m'" "fst ` set m' = fst ` set ?m"
      "\<forall>k. k \<notin> fst ` set gs \<longrightarrow> map_find m' k = map_find ?m k"
      "\<forall>k\<in>fst ` set gs. \<exists>e. map_find m' k = Some e \<and> e_accessed e \<and> all_accessed (e_value e)"
    by auto
  have lookup: "lookup k c = Inr (x, set_value (Object (map_set k (Entry x n True) m)) c)" "has_key k c = Inr True"
    using Cons.prems(3) x(1) by (simp_all add: lookup_def has_key_def as_object_Object access_def)
  have put: "put_value k x' (set_value (Object (map_set k (Entry x n True) m)) c) = ?c"
    by (simp add: put_value_def map_find_map_set) (simp add: set_value_def)
  have "deserialize_members fl ts c = Inr ([], g # gs, c')"
    using lookup x'(1) c'(1) by (simp add: ts(1) g put)
  moreover have "\<forall>j\<in>fst ` set (g # gs). \<exists>e. map_find m' j = Some e \<and> e_accessed e \<and> all_accessed (e_value e)"
    using c'(5,6) new x'(2) by (auto simp: g map_find_map_set)
  moreover have "\<forall>j. j \<notin> fst ` set (g # gs) \<longrightarrow> map_find m' j = map_find m j"
    using c'(5) by (auto simp: g map_find_map_set)
  moreover have "fst ` set m' = fst ` set m" using c'(4) keys by simp
  ultimately show ?case using c'(2,3) by (intro exI [of _ c'] exI [of _ m'] conjI)
qed auto

text \<open>Integers in their range.\<close>

lemma no_high_bit:
  assumes "0 \<le> i" "i < 2 ^ 63"
  shows "(word_of_int i :: 64 word) AND 0x8000000000000000 = 0" "uint (word_of_int i :: 64 word) = i"
proof -
  have "take_bit 63 i = i" using assms by (simp add: take_bit_int_eq_self)
  then have "\<not> bit i 63" by (metis bit_take_bit_iff less_irrefl)
  then have "\<not> bit (word_of_int i :: 64 word) 63" by (simp add: bit_word_of_int_iff)
  moreover have "(0x8000000000000000 :: 64 word) = 2 ^ 63" by simp
  ultimately show "(word_of_int i :: 64 word) AND 0x8000000000000000 = 0" by (metis and_exp_eq_0_iff_not_bit)
  show "uint (word_of_int i :: 64 word) = i" using assms by (simp add: uint_word_of_int take_bit_int_eq_self)
qed

lemma carries_integer:
  fixes fl :: "'f floats"
  assumes "valid_cpp fl (CInt s w i)"
  shows "\<exists>c. serialize (CInt s w i) = Inr c \<and> carries fl (CInt s w i) c"
proof -
  have self: "cast_int s w i = i" "- (2 ^ 63) \<le> i" "i < 2 ^ 63"
    using assms
    by (auto simp: cast_int_def signed_take_bit_int_eq_self_iff take_bit_int_eq_self_iff split: if_splits)
  have "cast_int True 64 i = i" using self(2,3) by (simp add: cast_int_def signed_take_bit_int_eq_self_iff)
  then have "as_integer s w (config_of (Integer i) :: 'f config) = Inr i" using self(1) by (simp add: as_integer_def config_of_def)
  then have "carries fl (CInt s w i) (config_of (Integer i))" by (intro carries_scalar [where v = "Integer i"]) auto
  moreover have "serialize (CInt s w i) = Inr (config_of (Integer i))"
    using assms no_high_bit [of i] by (auto simp: config_of_unsigned_def)
  ultimately show ?thesis by blast
qed

lemma same_members:
  "map fst ts = map fst gs \<Longrightarrow> \<forall>(f, g)\<in>set (zip ts gs). same_type (snd f) (snd g) \<Longrightarrow>
   list_all2 (\<lambda>t g. fst t = fst g \<and> same_type (snd t) (snd g)) ts gs"
proof (induction ts arbitrary: gs)
  case (Cons t ts)
  then show ?case by (cases gs) auto
qed simp

lemma serialize_carries: "valid_cpp fl x \<Longrightarrow> \<exists>c. serialize x = Inr c \<and> carries fl x c"
proof (induction "size x" arbitrary: x rule: less_induct)
  case less
  have elements: "\<exists>cs. mapE serialize xs = Inr cs \<and> list_all2 (carries fl) xs cs"
    if "\<And>y. y \<in> set xs \<Longrightarrow> size y < size x" "\<forall>y\<in>set xs. valid_cpp fl y" for xs
    using that less.hyps by (intro mapE_ok) blast
  have array: "carries fl x (config_of (Array cs))"
    if "\<And>t. same_type t x \<Longrightarrow> \<exists>es. deserialize fl t (config_of (Array cs)) = Inr ([], x, set_value (Array es) (config_of (Array cs))) \<and>
          (\<forall>e\<in>set es. all_accessed e)" for cs
  proof -
    have "all_accessed (set_value (Array es) (config_of (Array cs)))" if "\<forall>e\<in>set es. all_accessed e" for es
      using that by (subst all_accessed_Array) auto
    then show ?thesis using that by (fastforce simp: carries_def config_of_def)
  qed
  show ?case
  proof (cases x)
    case (CArray xs)
    obtain cs where cs: "mapE serialize xs = Inr cs" "list_all2 (carries fl) xs cs"
      using elements [of xs] less.prems CArray by (auto dest: size_cpp_element)
    have "carries fl x (config_of (Array cs))"
    proof (rule array)
      fix t assume "same_type t x"
      then obtain ts where ts: "t = CArray ts" "list_all2 same_type ts xs"
        by (auto simp: CArray list_all2_iff split: cpp.splits)
      from deserialize_elements [OF cs(2) ts(2)] show "\<exists>es. deserialize fl t (config_of (Array cs)) =
          Inr ([], x, set_value (Array es) (config_of (Array cs))) \<and> (\<forall>e\<in>set es. all_accessed e)"
        using list_all2_lengthD [OF ts(2)] list_all2_lengthD [OF cs(2)]
          same_type_arithmetic [OF ts(2)] less.prems
        by (auto simp: ts(1) CArray as_array_def config_of_def)
    qed
    then show ?thesis using cs(1) by (simp add: CArray config_array_ok)
  next
    case (CVector d xs)
    obtain cs where cs: "mapE serialize xs = Inr cs" "list_all2 (carries fl) xs cs"
    proof -
      have "size y < size x" if "y \<in> set xs" for y using size_cpp_element [OF that] by (simp add: CVector)
      then show ?thesis using elements [of xs] less.prems CVector that by auto
    qed
    have "carries fl x (config_of (Array cs))"
    proof (rule array)
      fix t assume "same_type t x"
      then obtain ys where t: "t = CVector d ys" and same: "\<forall>y\<in>set xs. same_type d y"
        by (auto simp: CVector split: cpp.splits)
      have "list_all2 same_type (replicate (length cs) d) xs"
        using same list_all2_lengthD [OF cs(2)] by (auto simp: list_all2_conv_all_nth)
      from deserialize_elements [OF cs(2) this] less.prems show "\<exists>es. deserialize fl t (config_of (Array cs)) =
          Inr ([], x, set_value (Array es) (config_of (Array cs))) \<and> (\<forall>e\<in>set es. all_accessed e)"
        by (auto simp: t CVector config_of_def mapE_replicate [of "deserialize fl" d cs])
    qed
    then show ?thesis using cs(1) by (simp add: CVector config_array_ok)
  next
    case (CStruct fs)
    have "\<forall>f\<in>set fs. \<exists>kc. (\<lambda>(k, y). bindE (serialize y) (\<lambda>c. Inr (k, c))) f = Inr kc \<and> fst kc = fst f \<and> carries fl (snd f) (snd kc)"
      using less.hyps less.prems CStruct by (fastforce dest: size_cpp_member)
    from mapE_ok [OF this] obtain kvs where
      kvs: "mapE (\<lambda>(k, y). bindE (serialize y) (\<lambda>c. Inr (k, c))) fs = Inr kvs"
        "list_all2 (\<lambda>f kc. fst kc = fst f \<and> carries fl (snd f) (snd kc)) fs kvs"
      by blast
    have keys: "map fst kvs = map fst fs" using kvs(2) by (induction rule: list_all2_induct) auto
    have "\<forall>p\<in>set kvs. snd p = config_of (c_value (snd p))"
      using kvs(2) by (induction rule: list_all2_induct) (auto simp: carries_def)
    with config_object_ok [of kvs] less.prems keys obtain m where
      m: "config_object kvs = Inr (config_of (Object m))" "map_wf m" "fst ` set m = fst ` set kvs"
        "\<forall>p\<in>set kvs. \<exists>n a. map_find m (fst p) = Some (Entry (snd p) n a)"
      by (auto simp: CStruct)
    have "\<forall>g\<in>set fs. \<exists>p\<in>set kvs. fst p = fst g \<and> carries fl (snd g) (snd p)"
      using kvs(2) by (induction rule: list_all2_induct) auto
    then have members: "\<forall>g\<in>set fs. \<exists>x n a. map_find m (fst g) = Some (Entry x n a) \<and> carries fl (snd g) x"
      using m(4) by metis
    have same_keys: "fst ` set m = fst ` set fs" using m(3) keys by (metis list.set_map)
    have "\<exists>c'. deserialize fl t (config_of (Object m)) = Inr ([], x, c') \<and> all_accessed c'" if t: "same_type t x" for t
    proof -
      obtain ts where ts: "t = CStruct ts" "map fst ts = map fst fs" "\<forall>(f, g)\<in>set (zip ts fs). same_type (snd f) (snd g)"
        using t by (auto simp: CStruct split: cpp.splits)
      from deserialize_members_ok [OF same_members [OF ts(2,3)] _ _ m(2) _ members, of "config_of (Object m)"] less.prems same_keys
      obtain c' m' where c': "deserialize_members fl ts (config_of (Object m)) = Inr ([], fs, c')" "c_value c' = Object m'"
          "map_wf m'" "fst ` set m' = fst ` set m" "\<forall>k\<in>fst ` set fs. \<exists>e. map_find m' k = Some e \<and> e_accessed e \<and> all_accessed (e_value e)"
        by (auto simp: CStruct config_of_def)
      have "e_accessed e \<and> all_accessed (e_value e)" if ke: "(k, e) \<in> set m'" for k e
      proof -
        have "map_find m' k = Some e" using ke map_wf_distinct [OF c'(3)] by (simp add: map_find_def)
        moreover have "k \<in> fst ` set fs" using ke c'(4) same_keys by force
        ultimately show ?thesis using c'(5) by auto
      qed
      then have "all_accessed c'" using all_accessed_Object [OF c'(2)] by auto
      then show ?thesis using c'(1) by (simp add: ts(1) CStruct config_of_def)
    qed
    then have "carries fl x (config_of (Object m))" by (simp add: carries_def config_of_def)
    then show ?thesis using kvs(1) m(1) by (simp add: CStruct)
  next
    case (CInt s w i)
    then show ?thesis using carries_integer less.prems by blast
  qed (use less.prems in \<open>auto intro!: carries_scalar simp: as_bool_def as_float_def as_double_def as_string_def config_of_def\<close>)
qed

text \<open>
  C38: what was serialized is deserialized as it was, into any variable of the same type: for booleans, integers in
  their range (unsigned ones of 64 bits below 2^63), \<open>double\<close>s, \<open>float\<close>s that \<open>float\<close> keeps, strings, arrays of booleans or
  numbers, vectors of everything but booleans and arrays, and structs with distinct member names whose members are any of
  these; vectors and structs nested in any way. Nothing is reported, and afterwards the configuration has no dangling key.
\<close>

theorem serialize_roundtrip:
  assumes "valid_cpp fl x" "same_type t x"
  shows "\<exists>c c'. serialize x = Inr c \<and> deserialize fl t c = Inr ([], x, c') \<and> check_dangling c' = Inr ()"
  using serialize_carries [OF assms(1)] assms(2) by (auto simp: carries_def check_dangling_all_accessed)

end
