(* ===== verification/Cfg_Unicode.thy ===== *)
theory Cfg_Unicode
  imports Cfg_Json
begin

text \<open>
  Characters that a text gives by their number: what the parser makes of \<open>\uXXXX\<close>, alone and in surrogate
  pairs, is the UTF-8 encoding of the character. The reader of UTF-8 follows RFC 3629 and is not code of
  the library.
\<close>

section \<open>UTF-8\<close>

definition scalar_value :: "nat \<Rightarrow> bool" where
  "scalar_value c \<longleftrightarrow> c \<le> 0x10FFFF \<and> \<not> (0xD800 \<le> c \<and> c \<le> 0xDFFF)"

definition read_tail :: "nat \<Rightarrow> nat \<Rightarrow> nat \<Rightarrow> string \<Rightarrow> (nat \<times> string) option" where
  "read_tail n low v s =
     (let ts = map of_char (take n s); c = foldl (\<lambda>v t. v * 64 + (t - 0x80)) v ts in
      if length ts = n \<and> list_all (\<lambda>t. 0x80 \<le> t \<and> t < 0xC0) ts \<and> low \<le> c \<and> scalar_value c
      then Some (c, drop n s) else None)"

definition read_character :: "string \<Rightarrow> (nat \<times> string) option" where
  "read_character s =
     (case s of
        [] \<Rightarrow> None
      | x # r \<Rightarrow>
          let b = of_char x in
          if b < 0x80 then Some (b, r)
          else if 0xC0 \<le> b \<and> b < 0xE0 then read_tail 1 0x80 (b - 0xC0) r
          else if 0xE0 \<le> b \<and> b < 0xF0 then read_tail 2 0x800 (b - 0xE0) r
          else if 0xF0 \<le> b \<and> b < 0xF8 then read_tail 3 0x10000 (b - 0xF0) r
          else None)"

lemma read_character_shorter: "read_character s = Some (c, r) \<Longrightarrow> length r < length s"
  by (auto simp: read_character_def read_tail_def Let_def split: list.splits if_splits)

function read_utf8 :: "string \<Rightarrow> nat list option" where
  "read_utf8 s =
     (if s = [] then Some []
      else case read_character s of
        None \<Rightarrow> None
      | Some (c, r) \<Rightarrow> map_option (Cons c) (read_utf8 r))"
  by pat_completeness auto
termination
  by (relation "measure length") (auto dest: read_character_shorter)

declare read_utf8.simps [simp del]

lemma or_plus:
  fixes a x :: nat
  assumes "x < 2 ^ n" "take_bit n a = 0"
  shows "a OR x = a + x"
proof -
  have "\<not> bit a m \<or> \<not> bit x m" for m
  proof (cases "m < n")
    case True
    then show ?thesis using assms(2) by (metis bit_take_bit_iff bit_0_eq bot_apply bot_bool_def)
  next
    case False
    have "x = take_bit n x" using assms(1) by (simp add: take_bit_nat_eq_self)
    then show ?thesis using False by (metis bit_take_bit_iff)
  qed
  then show ?thesis by (simp add: disjunctive_add)
qed

lemma or_high:
  "x < 64 \<Longrightarrow> 0x80 OR x = 0x80 + x" "x < 32 \<Longrightarrow> 0xC0 OR x = 0xC0 + x"
  "x < 16 \<Longrightarrow> 0xE0 OR x = 0xE0 + x" "x < 8 \<Longrightarrow> 0xF0 OR x = 0xF0 + x" for x :: nat
  using or_plus [of x 6 "0x80"] or_plus [of x 5 "0xC0"] or_plus [of x 4 "0xE0"] or_plus [of x 3 "0xF0"]
  by (simp_all add: take_bit_eq_mod)

lemma low_bits: "(n :: nat) AND 0x3F = n mod 64"
  using take_bit_eq_mask [of 6 n] by (simp add: take_bit_eq_mod mask_eq_exp_minus_1)

lemma digits64: "(n :: nat) div 64 * 64 + n mod 64 = n"
  by (rule div_mult_mod_eq)

lemma of_char_small: "n < 256 \<Longrightarrow> of_char (char_of n) = (n :: nat)"
  by simp

lemma read_two:
  assumes "a < 32" "b < 64" "0x80 \<le> a * 64 + b" "scalar_value (a * 64 + b)"
  shows "read_character (char_of (0xC0 + a) # char_of (0x80 + b) # r) = Some (a * 64 + b, r)"
proof -
  have "of_char (char_of (0xC0 + a)) = 0xC0 + a" "of_char (char_of (0x80 + b)) = 0x80 + b"
    using assms(1,2) by (intro of_char_small; simp)+
  then show ?thesis using assms by (simp add: read_character_def read_tail_def del: of_char_of)
qed

lemma read_three:
  assumes "a < 16" "b < 64" "d < 64" "0x800 \<le> (a * 64 + b) * 64 + d" "scalar_value ((a * 64 + b) * 64 + d)"
  shows "read_character (char_of (0xE0 + a) # char_of (0x80 + b) # char_of (0x80 + d) # r) = Some ((a * 64 + b) * 64 + d, r)"
proof -
  have "of_char (char_of (0xE0 + a)) = 0xE0 + a" "of_char (char_of (0x80 + b)) = 0x80 + b"
      "of_char (char_of (0x80 + d)) = 0x80 + d"
    using assms(1,2,3) by (intro of_char_small; simp)+
  then show ?thesis using assms by (simp add: read_character_def read_tail_def numeral_2_eq_2 del: of_char_of)
qed

lemma read_four:
  assumes "a < 8" "b < 64" "d < 64" "e < 64" "0x10000 \<le> ((a * 64 + b) * 64 + d) * 64 + e"
    and "scalar_value (((a * 64 + b) * 64 + d) * 64 + e)"
  shows "read_character (char_of (0xF0 + a) # char_of (0x80 + b) # char_of (0x80 + d) # char_of (0x80 + e) # r) =
    Some (((a * 64 + b) * 64 + d) * 64 + e, r)"
proof -
  have "of_char (char_of (0xF0 + a)) = 0xF0 + a" "of_char (char_of (0x80 + b)) = 0x80 + b"
      "of_char (char_of (0x80 + d)) = 0x80 + d" "of_char (char_of (0x80 + e)) = 0x80 + e"
    using assms(1-4) by (intro of_char_small; simp)+
  then show ?thesis using assms by (simp add: read_character_def read_tail_def numeral_3_eq_3 del: of_char_of)
qed

lemma encode_utf8_read:
  assumes "scalar_value c"
  shows "\<exists>s. encode_utf8 c = Some s \<and> read_character (s @ r) = Some (c, r)"
proof -
  have two: "c div 64 * 64 + c mod 64 = c" by (rule div_mult_mod_eq)
  have three: "(c div 4096 * 64 + c div 64 mod 64) * 64 + c mod 64 = c"
    using digits64 [of "c div 64"] two by (simp only: div_mult2_eq [symmetric] numeral_times_numeral) simp
  have four: "((c div 262144 * 64 + c div 4096 mod 64) * 64 + c div 64 mod 64) * 64 + c mod 64 = c"
    using digits64 [of "c div 4096"] three by (simp only: div_mult2_eq [symmetric] numeral_times_numeral) simp
  have encoded: "encode_utf8 c =
      (if c \<le> 0x7F then Some [char_of c]
       else if c \<le> 0x7FF then Some [char_of (0xC0 OR (c div 64)), char_of (0x80 OR (c mod 64))]
       else if c \<le> 0xFFFF then Some [char_of (0xE0 OR (c div 4096)), char_of (0x80 OR (c div 64 mod 64)), char_of (0x80 OR (c mod 64))]
       else Some [char_of (0xF0 OR (c div 262144)), char_of (0x80 OR (c div 4096 mod 64)), char_of (0x80 OR (c div 64 mod 64)),
         char_of (0x80 OR (c mod 64))])"
    using assms by (simp add: encode_utf8_def Let_def low_bits drop_bit_eq_div scalar_value_def)
  consider "c \<le> 0x7F" | "0x7F < c" "c \<le> 0x7FF" | "0x7FF < c" "c \<le> 0xFFFF" | "0xFFFF < c" by linarith
  then show ?thesis
  proof cases
    case 1
    then show ?thesis by (simp add: encoded read_character_def)
  next
    case 2
    then have high: "c div 64 < 32" by (simp add: div_less_iff_less_mult)
    have "encode_utf8 c = Some [char_of (0xC0 + c div 64), char_of (0x80 + c mod 64)]"
      using 2 high by (simp only: encoded or_high mod_less_divisor) simp
    then show ?thesis using read_two [of "c div 64" "c mod 64" r] high 2 assms unfolding two by simp
  next
    case 3
    then have high: "c div 4096 < 16" by (simp add: div_less_iff_less_mult)
    have "encode_utf8 c = Some [char_of (0xE0 + c div 4096), char_of (0x80 + c div 64 mod 64), char_of (0x80 + c mod 64)]"
      using 3 high by (simp only: encoded or_high mod_less_divisor) simp
    then show ?thesis using read_three [of "c div 4096" "c div 64 mod 64" "c mod 64" r] high 3 assms unfolding three by simp
  next
    case 4
    have high: "c div 262144 < 8" using assms by (simp add: scalar_value_def div_less_iff_less_mult)
    have "encode_utf8 c = Some [char_of (0xF0 + c div 262144), char_of (0x80 + c div 4096 mod 64),
        char_of (0x80 + c div 64 mod 64), char_of (0x80 + c mod 64)]"
      using 4 high by (simp only: encoded or_high mod_less_divisor) simp
    then show ?thesis
      using read_four [of "c div 262144" "c div 4096 mod 64" "c div 64 mod 64" "c mod 64" r] high 4 assms unfolding four by simp
  qed
qed


section \<open>Escapes\<close>

text \<open>A character as JSON escapes give it: a code unit of UTF-16, or two.\<close>

definition utf16 :: "nat \<Rightarrow> nat list" where
  "utf16 c = (if c < 0x10000 then [c] else [0xD800 + (c - 0x10000) div 0x400, 0xDC00 + (c - 0x10000) mod 0x400])"

definition escaped :: "nat \<Rightarrow> string" where
  "escaped c = concat (map write_unicode_16 (utf16 c))"

lemma parse_escape_character:
  fixes st :: "'f pstate"
  assumes "scalar_value c" "p_rest st = tl (escaped c) @ r"
  shows "\<exists>s st'. parse_escape opts doc acc st = Inr (acc @ s, st') \<and> p_rest st' = r \<and> (\<forall>q. read_character (s @ q) = Some (c, q))"
proof -
  obtain s where s: "encode_utf8 c = Some s" using encode_utf8_read [OF assms(1), of "[]"] by blast
  have reads: "\<forall>q. read_character (s @ q) = Some (c, q)"
    using encode_utf8_read [OF assms(1)] s by (metis option.inject)
  obtain u us where units: "utf16 c = u # us" by (cases "utf16 c") (auto simp: utf16_def split: if_splits)
  have start: "p_rest st = CHR ''u'' # drop 2 (write_unicode_16 u) @ concat (map write_unicode_16 us) @ r"
    using assms(2) units by (simp add: escaped_def write_unicode_16_def)
  have push: "push_codepoint doc acc c st' = Inr (acc @ s, st')" for st' :: "'f pstate"
    using s by (simp add: push_codepoint_def)
  have uni: "parse_escape opts doc acc st = parse_unicode_16 doc acc (skip 1 st)"
    using start by (simp add: parse_escape_def Let_def peek_def)
  show ?thesis
  proof (cases "c < 0x10000")
    case True
    have "p_rest (skip 1 st) = drop 2 (write_unicode_16 c) @ r" using start units True by (simp add: utf16_def)
    moreover have "\<not> (0xD800 \<le> c \<and> c \<le> 0xDBFF)" using assms(1) by (auto simp: scalar_value_def)
    ultimately have "parse_escape opts doc acc st = Inr (acc @ s, skip 5 st)"
      using push parse_hex_written [OF True, of "skip 1 st" r doc] by (auto simp: uni parse_unicode_16_def skip_skip)
    moreover have "p_rest (skip 5 st) = r" using start units True by (auto simp: utf16_def write_unicode_16_def)
    ultimately show ?thesis using reads by blast
  next
    case False
    define hi lo where "hi = 0xD800 + (c - 0x10000) div 0x400" and "lo = 0xDC00 + (c - 0x10000) mod 0x400"
    have "c - 0x10000 < 0x100000" using assms(1) False unfolding scalar_value_def by linarith
    then have "(c - 0x10000) div 0x400 < 0x400" by (simp add: div_less_iff_less_mult)
    moreover have "(c - 0x10000) mod 0x400 < 0x400" by simp
    ultimately have bounds: "0xD800 \<le> hi" "hi \<le> 0xDBFF" "hi < 0x10000" "0xDC00 \<le> lo" "lo \<le> 0xDFFF" "lo < 0x10000"
      unfolding hi_def lo_def by linarith+
    have "(c - 0x10000) div 0x400 * 0x400 + (c - 0x10000) mod 0x400 = c - 0x10000" by (rule div_mult_mod_eq)
    then have pair: "hi * 2 ^ 10 + lo - 0x35FDC00 = c" using False unfolding hi_def lo_def by simp
    have rest1: "p_rest (skip 1 st) = drop 2 (write_unicode_16 hi) @ write_unicode_16 lo @ r"
      using start units False by (auto simp: utf16_def hi_def lo_def)
    have skips: "p_rest (skip 5 st) = drop 4 (p_rest (skip 1 st))" "p_rest (skip 7 st) = drop 2 (p_rest (skip 5 st))"
        "p_rest (skip 11 st) = drop 4 (p_rest (skip 7 st))"
      by simp_all
    have rest2: "p_rest (skip 5 st) = write_unicode_16 lo @ r" unfolding skips(1) rest1 by (simp add: write_unicode_16_def)
    have rest3: "p_rest (skip 7 st) = drop 2 (write_unicode_16 lo) @ r" unfolding skips(2) rest2 by (simp add: write_unicode_16_def)
    have rest4: "p_rest (skip 11 st) = r" unfolding skips(3) rest3 by (simp add: write_unicode_16_def)
    have "peek 0 (skip 5 st) = CHR 0x5C" "peek 1 (skip 5 st) = CHR ''u''"
      using rest2 by (simp_all add: peek_def write_unicode_16_def)
    then have "parse_escape opts doc acc st = Inr (acc @ s, skip 11 st)"
      using parse_hex_written [OF bounds(3) rest1, of doc] parse_hex_written [OF bounds(6) rest3, of doc] bounds push pair
      by (simp add: uni parse_unicode_16_def skip_skip parse_assert_def)
    then show ?thesis using reads rest4 by blast
  qed
qed

lemma read_utf8_append:
  assumes "s \<noteq> []" "\<forall>q. read_character (s @ q) = Some (c, q)"
  shows "read_utf8 (s @ q) = map_option (Cons c) (read_utf8 q)"
  using assms by (subst read_utf8.simps) simp

lemma string_loop_escaped:
  fixes st :: "'f pstate"
  shows "\<forall>c\<in>set cs. scalar_value c \<Longrightarrow> p_rest st = concat (map escaped cs) @ CHR 0x22 # r \<Longrightarrow>
    \<exists>s st'. string_loop opts doc st0 acc st = Inr (acc @ s, st') \<and> p_rest st' = r \<and> read_utf8 s = Some cs"
proof (induction cs arbitrary: st acc)
  case Nil
  then show ?case using string_loop_quote [of st r opts doc st0 acc] by (auto simp: read_utf8.simps)
next
  case (Cons c cs)
  have "\<exists>t. escaped c = CHR 0x5C # t" by (auto simp: escaped_def utf16_def write_unicode_16_def)
  then have rest: "p_rest st = CHR 0x5C # tl (escaped c) @ concat (map escaped cs) @ CHR 0x22 # r" using Cons.prems(2) by auto
  then have "p_rest (skip 1 st) = tl (escaped c) @ (concat (map escaped cs) @ CHR 0x22 # r)" by simp
  from parse_escape_character [OF _ this, of opts doc acc] Cons.prems(1) obtain s st1 where
    s: "parse_escape opts doc acc (skip 1 st) = Inr (acc @ s, st1)" "p_rest st1 = concat (map escaped cs) @ CHR 0x22 # r"
      "\<forall>q. read_character (s @ q) = Some (c, q)"
    by auto
  from Cons.IH [OF _ s(2), of "acc @ s"] Cons.prems(1) obtain s' st2 where
    s': "string_loop opts doc st0 (acc @ s) st1 = Inr ((acc @ s) @ s', st2)" "p_rest st2 = r" "read_utf8 s' = Some cs"
    by auto
  have "s \<noteq> []" using s(3) by (auto simp: read_character_def dest: spec [of _ "[]"])
  then have "read_utf8 (s @ s') = Some (c # cs)" using read_utf8_append [OF _ s(3)] s'(3) by simp
  then show ?case using string_loop_escape [OF rest, of opts doc st0 acc] s(1) s'(1,2) by auto
qed

text \<open>
  C23: a string of JSON in which every character is given by its number, as \uXXXX or as a surrogate pair of two
  of them, is read as the UTF-8 encoding of these characters: a reader of UTF-8 gets them back, one by one, for
  all characters of Unicode.
\<close>

theorem escapes_become_utf8:
  assumes "\<forall>c\<in>set cs. scalar_value c" "p_rest st = CHR 0x22 # concat (map escaped cs) @ CHR 0x22 # r"
    and "cs = [] \<longrightarrow> r = [] \<or> hd r \<noteq> CHR 0x22"
  shows "\<exists>s st'. parse_string opts doc st = Inr (s, st') \<and> p_rest st' = r \<and> read_utf8 s = Some cs"
proof -
  have rest: "p_rest (skip 1 st) = concat (map escaped cs) @ CHR 0x22 # r" "peek 0 st = CHR 0x22"
    using assms(2) by (simp_all add: peek_def)
  have escape: "\<exists>t. escaped c = CHR 0x5C # t" for c by (auto simp: escaped_def utf16_def write_unicode_16_def)
  have "peek 1 st \<noteq> CHR 0x22" if "cs = c # cs'" for c cs'
  proof -
    obtain t where "escaped c = CHR 0x5C # t" using escape by blast
    then show ?thesis using assms(2) that by (simp add: peek_def)
  qed
  then have "cs \<noteq> [] \<Longrightarrow> peek 1 st \<noteq> CHR 0x22" by (cases cs) auto
  moreover have "cs = [] \<Longrightarrow> peek 2 st \<noteq> CHR 0x22" using assms(2,3) by (cases r) (auto simp: peek_def)
  ultimately have "\<not> (peek 1 st = CHR 0x22 \<and> peek 2 st = CHR 0x22)" by blast
  then have "parse_string opts doc st = string_loop opts doc st [] (skip 1 st)"
    using rest(2) by (auto simp: parse_string_def parse_assert_def)
  then show ?thesis using string_loop_escaped [OF assms(1) rest(1), of opts doc st "[]"] by simp
qed

end
