(* ===== verification/Cfg_Witnesses.thy ===== *)
theory Cfg_Witnesses
  imports Cfg_Serialize Cfg_Unicode
begin

text \<open>
  The properties of Configuru at concrete values. The floating-point numbers are the integers, with a
  conversion that reads decimal digits.
\<close>

definition sample_floats :: "int floats" where
  "sample_floats =
     \<lparr>fl_strtod = (\<lambda>s. let d = takeWhile is_digit s in (strtoll d, length d)), fl_strtof = strtoll,
      fl_inf = 2 ^ 64, fl_neg_inf = - (2 ^ 64), fl_nan = 2 ^ 65, fl_eq = (=), fl_signbit = (\<lambda>x. x < 0),
      fl_isfinite = (\<lambda>x. \<bar>x\<bar> < 2 ^ 64), fl_of_int = (\<lambda>i. i),
      fl_to_int = (\<lambda>x. if \<bar>x\<bar> < 2 ^ 63 then Some x else None), fl_to_float = (\<lambda>x. x),
      fl_printf = (\<lambda>_ x. show_int x)\<rparr>"

definition no_files :: files where
  "no_files path = Inl ''Could not open file''"

text \<open>An object with a list, in which the second entry was added first.\<close>

definition sample_config :: "int config" where
  "sample_config =
     config_of (Object
       [(''a'', Entry (config_of (Array [config_of (Integer (- 7)), config_of (Bool True), config_of Null])) 1 False),
        (''b c'', Entry (config_of (Str [CHR 0x22, CHR 0x0A])) 0 False)])"

lemma sample_config_plain: "plain sample_config"
  by (simp add: sample_config_def config_of_def plain.simps map_wf_def)

theorem json_roundtrip_witness:
  "\<exists>text. dump_string sample_floats [] (json [CHR 0x09]) sample_config = Inr (text, []) \<and>
    (\<exists>c'. parse_config (Suc (length text)) sample_floats no_files (json [CHR 0x09]) ''sample'' text = Inr c' \<and>
       strip c' = strip sample_config)"
  using json_roundtrip [OF _ sample_config_plain, of "[CHR 0x09]" sample_floats "[]"]
  by (fastforce simp: blank_indent_def)

theorem parser_terminates_witness:
  "parse_config 9 sample_floats no_files JSON ''sample'' ''[1, [2]]'' \<noteq> Inl OutOfFuel"
  using parser_terminates [of JSON "''[1, [2]]''" 9 sample_floats no_files "''sample''"] by (simp add: JSON_def)

theorem self_include_never_ends_witness:
  "parse_file 1000 sample_floats (\<lambda>_. Inr (include_line ''loop.cfg'' @ ''more'')) CFG ''etc/loop.cfg'' = Inl OutOfFuel"
  by (rule self_include_never_ends [of CFG "''loop.cfg''" "''etc/loop.cfg''" _ "''more''"])
    (simp_all add: relative_path_def)

theorem parsed_value_well_formed_witness:
  "\<exists>c. parse_config 9 sample_floats no_files JSON ''sample'' ''[true]'' = Inr c \<and> well_formed c"
proof -
  have "isl (parse_config 9 sample_floats no_files JSON ''sample'' ''[true]'') = False" by code_simp
  then obtain c where "parse_config 9 sample_floats no_files JSON ''sample'' ''[true]'' = Inr c"
    by (metis sum.collapse(2))
  then show ?thesis using parsed_value_well_formed by blast
qed

theorem deep_eq_ignores_elements_witness:
  "deep_eq (=) (config_of (Array [config_of (Integer 1)])) (config_of (Array [config_of (Str ''x'')]) :: int config)"
  using deep_eq_ignores_elements [of "(=)" "config_of (Array [config_of (Integer 1)])" "[config_of (Integer 1)]"
      "config_of (Array [config_of (Str ''x'')]) :: int config"]
  by (simp add: config_of_def well_formed.simps)

theorem null_character_is_not_read_back_witness:
  "\<exists>text. dump_string sample_floats [] (json []) (config_of (Str [CHR 0x00])) = Inr (text, []) \<and>
    (\<exists>line col msg. parse_config 10 sample_floats no_files (json []) ''sample'' text = Inl (ParseError 0 line col msg))"
proof -
  obtain t where "dump_string sample_floats [] (json []) (config_of (Str [CHR 0x00])) = Inr (t, [])"
      "\<exists>line col msg. parse_config (Suc 9) sample_floats no_files (json []) ''sample'' t = Inl (ParseError 0 line col msg)"
    using null_character_is_not_read_back [of "[]" "config_of (Str [CHR 0x00])" "[CHR 0x00]" sample_floats "[]"]
    by (fastforce simp: blank_indent_def config_of_def)
  then show ?thesis by auto
qed

theorem keyword_key_is_not_read_back_witness:
  "\<exists>text. dump_string sample_floats [] CFG (bool_object ''null'' True) = Inr (text, []) \<and>
    (\<exists>line col msg. parse_config 10 sample_floats no_files CFG ''sample'' text = Inl (ParseError 0 line col msg))"
proof -
  obtain t where "dump_string sample_floats [] CFG (bool_object ''null'' True) = Inr (t, [])"
      "\<exists>line col msg. parse_config (Suc 9) sample_floats no_files CFG ''sample'' t = Inl (ParseError 0 line col msg)"
    using keyword_key_is_not_read_back [of "''null''" sample_floats "[]" True] by fastforce
  then show ?thesis by auto
qed

text \<open>The euro sign and a character outside of the basic plane, which is a surrogate pair.\<close>

theorem escapes_become_utf8_witness:
  "\<exists>s st'. parse_string JSON 0 (start (CHR 0x22 # escaped 0x20AC @ escaped 0x1F600 @ [CHR 0x22]) (new_info ''sample'') :: int pstate)
      = Inr (s, st') \<and> p_rest st' = [] \<and> read_utf8 s = Some [0x20AC, 0x1F600]"
  using escapes_become_utf8 [of "[0x20AC, 0x1F600]"
      "start (CHR 0x22 # escaped 0x20AC @ escaped 0x1F600 @ [CHR 0x22]) (new_info ''sample'') :: int pstate" "[]" JSON 0]
  by (simp add: scalar_value_def start_def)

definition sample_changes :: "int change list" where
  "sample_changes = [Index ''b'' (config_of (Integer 1)), Emplace ''a'' (config_of Null),
     Insert_or_assign ''b'' (config_of (Integer 2)), Emplace ''b'' (config_of (Integer 3))]"

theorem object_refines_map_witness:
  "\<exists>c. make_changes sample_changes (config_of (Object [])) = Inr c \<and> object_size c = Inr 2 \<and>
     has_key ''a'' c = Inr True \<and> (\<exists>x c'. lookup ''b'' c = Inr (x, c') \<and> c_value x = Integer 2)"
proof -
  obtain c m where c: "make_changes sample_changes (config_of (Object [])) = Inr c"
      "contents m = fold spec_change sample_changes (contents [])" "object_size c = Inr (card (dom (contents m)))"
      "\<forall>k. has_key k c = Inr (contents m k \<noteq> None) \<and>
         (case contents m k of
            None \<Rightarrow> isl (lookup k c)
          | Some v \<Rightarrow> \<exists>x m'. lookup k c = Inr (x, set_value (Object m') c) \<and> c_value x = v \<and> contents m' = contents m)"
    using object_refines_map [of "config_of (Object []) :: int config" "[]" sample_changes] by auto
  have m: "contents m = [''b'' \<mapsto> Integer 2, ''a'' \<mapsto> Null]"
    unfolding c(2) by (auto simp: sample_changes_def contents_def fun_eq_iff)
  then have "card (dom (contents m)) = 2" by simp
  moreover have "contents m ''a'' = Some Null" "contents m ''b'' = Some (Integer 2)" by (simp_all add: m)
  ultimately show ?thesis
    using c(1,3) spec [OF c(4), of "''a''"] spec [OF c(4), of "''b''"] by auto
qed

theorem members_written_as_added_witness:
  "\<exists>c m. make_changes sample_changes (config_of (Object [])) = Inr c \<and> c_value c = Object m \<and>
     map fst (write_order JSON m) = [''b'', ''a'']"
  using members_written_as_added [of sample_changes JSON] by (simp add: sample_changes_def JSON_def CFG_def add_key_def)

theorem as_integer_in_range_witness:
  "as_integer True 8 (config_of (Integer (- 128)) :: int config) = Inr (- 128) \<and>
   as_integer False 64 (config_of (Integer (- 1)) :: int config) = Inr (2 ^ 64 - 1)"
proof -
  have "as_integer True 8 (config_of (Integer (- 128)) :: int config) = Inr (- 128)"
    using as_integer_in_range [of "config_of (Integer (- 128)) :: int config" "- 128"] by simp
  moreover have "as_integer False 64 (config_of (Integer (- 1)) :: int config) = Inr (2 ^ 64 - 1)"
    using as_integer_in_range [of "config_of (Integer (- 1)) :: int config" "- 1"] by simp
  ultimately show ?thesis by blast
qed

text \<open>A struct with a number, a name, an array and a vector, read into a variable of its type that holds other values.\<close>

theorem serialize_roundtrip_witness:
  "\<exists>c c'. serialize (CStruct [(''port'', CInt False 16 9000), (''name'', CString ''fcgi''), (''on'', CArray [CBool True, CBool False]),
       (''hosts'', CVector (CString []) [CString ''a'', CString ''b''])]) = Inr c \<and>
     deserialize sample_floats (CStruct [(''port'', CInt False 16 0), (''name'', CString []), (''on'', CArray [CBool False, CBool False]),
         (''hosts'', CVector (CString []) [])]) c =
       Inr ([], CStruct [(''port'', CInt False 16 9000), (''name'', CString ''fcgi''), (''on'', CArray [CBool True, CBool False]),
         (''hosts'', CVector (CString []) [CString ''a'', CString ''b''])], c') \<and>
     check_dangling c' = Inr ()"
  by (rule serialize_roundtrip) (auto simp: vector_element_def)

end
