(* ===== verification/Cfg_Memory.thy ===== *)
theory Cfg_Memory
  imports Cfg_Value "HOL-Library.Multiset"
begin

text \<open>
  The class \<open>Config\<close> of \<open>configuru.hpp\<close> as it is in memory, with \<open>CONFIGURU_VALUE_SEMANTICS\<close> at its default 0:
  an array, an object and the result of a failed look-up are blocks of the heap which copies of a \<open>Config\<close>
  share and which count their references. Here are the constructors, the destructor, the assignments, the
  operations that change arrays and objects, \<open>deep_clone\<close>, and programs of statements that use them.
  The theory \<open>Cfg_Value\<close> has the same operations on values that are trees.
\<close>

section \<open>Memory\<close>

type_synonym addr = nat

text \<open>The type and the union of a \<open>Config\<close>; a \<open>std::string\<close> belongs to one \<open>Config\<close> alone and is kept in place.\<close>

datatype 'f hval =
    HUninitialized
  | HBadLookup addr
  | HNull
  | HBool bool
  | HInt int
  | HFloat 'f
  | HString string
  | HArray addr
  | HObject addr

record 'f hconfig =
  h_value :: "'f hval"
  h_doc :: "nat option"
  h_line :: "nat option"
  h_comments :: "comments option"

record 'f hentry =
  he_value :: "'f hconfig"
  he_nr :: nat
  he_accessed :: bool

datatype 'f block =
    BadLookupInfo "nat option" "nat option" string
  | ConfigArray "'f hconfig list"
  | ConfigObject "(string, 'f hentry) std_map"

text \<open>
  The memory: the variables of type \<open>Config\<close> in the order of their declaration, and the blocks with their
  \<open>_ref_count\<close>, \<open>None\<close> for a block that was deleted. An address is not used again.
\<close>

record 'f memory =
  mem_vars :: "'f hconfig list"
  mem_heap :: "(32 word \<times> 'f block) option list"

definition empty_memory :: "'f memory" where
  "empty_memory = \<lparr>mem_vars = [], mem_heap = []\<rparr>"

definition block_at :: "'f memory \<Rightarrow> addr \<Rightarrow> (32 word \<times> 'f block) option" where
  "block_at s a = (if a < length (mem_heap s) then mem_heap s ! a else None)"

definition set_block :: "addr \<Rightarrow> (32 word \<times> 'f block) option \<Rightarrow> 'f memory \<Rightarrow> 'f memory" where
  "set_block a x s = s\<lparr>mem_heap := (mem_heap s)[a := x]\<rparr>"

text \<open>\<open>new\<close>: the block starts with one reference.\<close>

definition new_block :: "'f block \<Rightarrow> 'f memory \<Rightarrow> addr \<times> 'f memory" where
  "new_block b s = (length (mem_heap s), s\<lparr>mem_heap := mem_heap s @ [Some (1, b)]\<rparr>)"

text \<open>The references of a value and of a block, each with the kind of the block it points to.\<close>

datatype kind = Bad_kind | Array_kind | Object_kind

type_synonym refer = "kind \<times> addr"

fun val_refs :: "'f hval \<Rightarrow> refer list" where
  "val_refs (HBadLookup a) = [(Bad_kind, a)]"
| "val_refs (HArray a) = [(Array_kind, a)]"
| "val_refs (HObject a) = [(Object_kind, a)]"
| "val_refs _ = []"

abbreviation cfg_refs :: "'f hconfig \<Rightarrow> refer list" where
  "cfg_refs c \<equiv> val_refs (h_value c)"

fun block_refs :: "'f block \<Rightarrow> refer list" where
  "block_refs (BadLookupInfo _ _ _) = []"
| "block_refs (ConfigArray cs) = concat (map cfg_refs cs)"
| "block_refs (ConfigObject m) = concat (map (\<lambda>(_, e). cfg_refs (he_value e)) m)"

fun kind_of :: "'f block \<Rightarrow> kind" where
  "kind_of (BadLookupInfo _ _ _) = Bad_kind"
| "kind_of (ConfigArray _) = Array_kind"
| "kind_of (ConfigObject _) = Object_kind"


section \<open>References are counted\<close>

text \<open>
  What \<open>free\<close> does with the references of a \<open>Config\<close>: it counts down, and at 0 the block is deleted, which
  destroys the \<open>Config\<close>s in it one after the other, and so on. The list holds the references that are still
  to be given up; the counter is an \<open>unsigned\<close>.
\<close>

definition live_blocks :: "'f memory \<Rightarrow> nat" where
  "live_blocks s = length (filter (\<lambda>b. b \<noteq> None) (mem_heap s))"

lemma length_filter_update:
  "i < length xs \<Longrightarrow> P (xs ! i) \<Longrightarrow>
   Suc (length (filter P (xs[i := y]))) = (if P y then Suc (length (filter P xs)) else length (filter P xs))"
  by (induction xs arbitrary: i) (auto split: nat.splits)

lemma live_blocks_set:
  "block_at s a = Some x \<Longrightarrow>
   Suc (live_blocks (set_block a y s)) = (if y = None then live_blocks s else Suc (live_blocks s))"
  using length_filter_update [of a "mem_heap s" "\<lambda>b. b \<noteq> None" y]
  by (simp add: live_blocks_def block_at_def set_block_def split: if_splits del: not_None_eq)

lemma live_blocks_delete: "block_at s a = Some x \<Longrightarrow> live_blocks (set_block a None s) < live_blocks s"
  using live_blocks_set [of s a x None] by simp

lemma live_blocks_count: "block_at s a = Some x \<Longrightarrow> live_blocks (set_block a (Some y) s) = live_blocks s"
  using live_blocks_set [of s a x "Some y"] by simp

function release :: "refer list \<Rightarrow> 'f memory \<Rightarrow> 'f memory cfg" where
  "release [] s = Inr s"
| "release ((_, a) # rs) s =
     (case block_at s a of
        None \<Rightarrow> Inl (Undefined UseAfterFree)
      | Some (n, b) \<Rightarrow>
          if n - 1 = 0 then release (block_refs b @ rs) (set_block a None s)
          else release rs (set_block a (Some (n - 1, b)) s))"
  by pat_completeness auto
termination
  by (relation "measures [\<lambda>(_, s). live_blocks s, \<lambda>(rs, _). length rs]")
    (auto simp: live_blocks_delete live_blocks_count)

definition destroy :: "'f hconfig \<Rightarrow> 'f memory \<Rightarrow> 'f memory cfg" where
  "destroy c s = release (cfg_refs c) s"

text \<open>One more reference to the block of a value.\<close>

definition add_ref :: "'f hval \<Rightarrow> 'f memory \<Rightarrow> 'f memory cfg" where
  "add_ref v s =
     (case val_refs v of
        [] \<Rightarrow> Inr s
      | (_, a) # _ \<Rightarrow>
          (case block_at s a of
             None \<Rightarrow> Inl (Undefined UseAfterFree)
           | Some (n, b) \<Rightarrow> Inr (set_block a (Some (n + 1, b)) s)))"


section \<open>Where a Config is\<close>

text \<open>A variable, an element of an array, or the value of a member of an object.\<close>

datatype loc = Var nat | Elem addr nat | Member addr string

fun config_at :: "'f memory \<Rightarrow> loc \<Rightarrow> 'f hconfig option" where
  "config_at s (Var i) = (if i < length (mem_vars s) then Some (mem_vars s ! i) else None)"
| "config_at s (Elem a i) =
     (case block_at s a of
        Some (_, ConfigArray cs) \<Rightarrow> if i < length cs then Some (cs ! i) else None
      | _ \<Rightarrow> None)"
| "config_at s (Member a k) =
     (case block_at s a of
        Some (_, ConfigObject m) \<Rightarrow> map_option he_value (map_find m k)
      | _ \<Rightarrow> None)"

fun update_at :: "loc \<Rightarrow> 'f hconfig \<Rightarrow> 'f memory \<Rightarrow> 'f memory" where
  "update_at (Var i) c s = s\<lparr>mem_vars := (mem_vars s)[i := c]\<rparr>"
| "update_at (Elem a i) c s =
     (case block_at s a of
        Some (n, ConfigArray cs) \<Rightarrow> set_block a (Some (n, ConfigArray (cs[i := c]))) s
      | _ \<Rightarrow> s)"
| "update_at (Member a k) c s =
     (case block_at s a of
        Some (n, ConfigObject m) \<Rightarrow>
          (case map_find m k of
             None \<Rightarrow> s
           | Some e \<Rightarrow> set_block a (Some (n, ConfigObject (map_set k (e\<lparr>he_value := c\<rparr>) m))) s)
      | _ \<Rightarrow> s)"

text \<open>An access through a reference: what it refers to may be gone.\<close>

definition get_at :: "loc \<Rightarrow> 'f memory \<Rightarrow> 'f hconfig cfg" where
  "get_at l s = (case config_at s l of None \<Rightarrow> Inl (Undefined UseAfterFree) | Some c \<Rightarrow> Inr c)"

definition put_at :: "loc \<Rightarrow> 'f hconfig \<Rightarrow> 'f memory \<Rightarrow> 'f memory cfg" where
  "put_at l c s = (if config_at s l = None then Inl (Undefined UseAfterFree) else Inr (update_at l c s))"


section \<open>Constructors and assignments\<close>

definition fresh_config :: "'f hval \<Rightarrow> 'f hconfig" where
  "fresh_config v = \<lparr>h_value = v, h_doc = None, h_line = None, h_comments = None\<rparr>"

text \<open>\<open>operator=\<close> of an rvalue: both are swapped, the position and the comments only if the other has such.\<close>

definition swap_assign :: "'f hconfig \<Rightarrow> 'f hconfig \<Rightarrow> 'f hconfig \<times> 'f hconfig" where
  "swap_assign d o' =
     (let pos = (h_doc o' \<noteq> None \<or> h_line o' \<noteq> None);
          com = (h_comments o' \<noteq> None)
      in (\<lparr>h_value = h_value o', h_doc = (if pos then h_doc o' else h_doc d),
           h_line = (if pos then h_line o' else h_line d),
           h_comments = (if com then h_comments o' else h_comments d)\<rparr>,
          \<lparr>h_value = h_value d, h_doc = (if pos then h_doc d else h_doc o'),
           h_line = (if pos then h_line d else h_line o'),
           h_comments = (if com then h_comments d else h_comments o')\<rparr>))"

text \<open>\<open>dst = std::move(src)\<close> for two \<open>Config\<close>s in memory, and for a temporary, which is destroyed after it.\<close>

definition move_assign :: "loc \<Rightarrow> loc \<Rightarrow> 'f memory \<Rightarrow> 'f memory cfg" where
  "move_assign dst src s =
     (if dst = src then Inr s
      else bindE (get_at dst s) (\<lambda>d. bindE (get_at src s) (\<lambda>o'.
           bindE (put_at dst (fst (swap_assign d o')) s) (put_at src (snd (swap_assign d o'))))))"

definition move_assign_temp :: "loc \<Rightarrow> 'f hconfig \<Rightarrow> 'f memory \<Rightarrow> 'f memory cfg" where
  "move_assign_temp dst x s =
     bindE (get_at dst s) (\<lambda>d.
     bindE (put_at dst (fst (swap_assign d x)) s)
       (destroy (snd (swap_assign d x))))"

text \<open>
  \<open>dst = src\<close>: the old value of \<open>dst\<close> is freed first, and then \<open>src\<close> is read. The type is set to \<open>Uninitialized\<close>
  before the references are given up, in the code after it: only the destruction of \<open>dst\<close> itself could tell,
  and what comes next then writes to freed memory either way.
\<close>

definition free_at :: "loc \<Rightarrow> 'f memory \<Rightarrow> 'f memory cfg" where
  "free_at l s =
     bindE (get_at l s) (\<lambda>d.
     bindE (put_at l (d\<lparr>h_value := HUninitialized\<rparr>) s)
       (release (cfg_refs d)))"

definition copy_over :: "'f hconfig \<Rightarrow> 'f hconfig \<Rightarrow> 'f hconfig" where
  "copy_over d o' =
     (let pos = (h_doc o' \<noteq> None \<or> h_line o' \<noteq> None) in
      \<lparr>h_value = h_value o', h_doc = (if pos then h_doc o' else h_doc d),
       h_line = (if pos then h_line o' else h_line d),
       h_comments = (if h_comments o' \<noteq> None then h_comments o' else h_comments d)\<rparr>)"

definition copy_assign :: "loc \<Rightarrow> loc \<Rightarrow> 'f memory \<Rightarrow> 'f memory cfg" where
  "copy_assign dst src s =
     (if dst = src then Inr s
      else bindE (free_at dst s) (\<lambda>s.
           bindE (get_at src s) (\<lambda>o'.
           bindE (add_ref (h_value o') s) (\<lambda>s.
           bindE (get_at dst s) (\<lambda>d. put_at dst (copy_over d o') s)))))"

text \<open>The constructors that copy and that move, as far as the new \<open>Config\<close> is concerned; and \<open>swap\<close>.\<close>

definition copy_config :: "'f hconfig \<Rightarrow> 'f memory \<Rightarrow> ('f hconfig \<times> 'f memory) cfg" where
  "copy_config o' s =
     bindE (add_ref (h_value o') s) (\<lambda>s. Inr (copy_over (fresh_config HUninitialized) o', s))"

definition take_config :: "loc \<Rightarrow> 'f memory \<Rightarrow> ('f hconfig \<times> 'f memory) cfg" where
  "take_config l s =
     bindE (get_at l s) (\<lambda>o'. bindE (put_at l (fresh_config HUninitialized) s) (\<lambda>s. Inr (o', s)))"

definition swap_configs :: "loc \<Rightarrow> loc \<Rightarrow> 'f memory \<Rightarrow> 'f memory cfg" where
  "swap_configs l l' s =
     (if l' = l then Inr s
      else bindE (get_at l s) (\<lambda>c. bindE (get_at l' s) (\<lambda>c'.
           bindE (put_at l c' s) (put_at l' c))))"

definition object_config :: "'f memory \<Rightarrow> 'f hconfig \<times> 'f memory" where
  "object_config s = (let (a, s) = new_block (ConfigObject []) s in (fresh_config (HObject a), s))"

definition array_config :: "'f memory \<Rightarrow> 'f hconfig \<times> 'f memory" where
  "array_config s = (let (a, s) = new_block (ConfigArray []) s in (fresh_config (HArray a), s))"


section \<open>Arrays and objects\<close>

fun h_type_str :: "'f hval \<Rightarrow> string" where
  "h_type_str HUninitialized = ''uninitialized''"
| "h_type_str (HBadLookup _) = ''undefined''"
| "h_type_str HNull = ''null''"
| "h_type_str (HBool _) = ''bool''"
| "h_type_str (HInt _) = ''integer''"
| "h_type_str (HFloat _) = ''float''"
| "h_type_str (HString _) = ''string''"
| "h_type_str (HArray _) = ''array''"
| "h_type_str (HObject _) = ''object''"

text \<open>What \<open>assert_type\<close> does when \<open>c\<close> does not have the type \<open>expected\<close>.\<close>

definition h_wrong_type :: "string \<Rightarrow> 'f hconfig \<Rightarrow> 'f memory \<Rightarrow> 'a cfg" where
  "h_wrong_type expected c s =
     (case h_value c of
        HBadLookup a \<Rightarrow>
          (case block_at s a of
             Some (_, BadLookupInfo doc line key) \<Rightarrow>
               Inl (OnError doc line (''Failed to find key '' @ [CHR 0x27] @ key @ [CHR 0x27]))
           | _ \<Rightarrow> Inl (Undefined UseAfterFree))
      | v \<Rightarrow>
          let message = ''Expected '' @ expected @ '', got '' @ h_type_str v in
          Inl (OnError (h_doc c) (h_line c)
            (case v of
               HUninitialized \<Rightarrow>
                 if expected = ''object'' then message @ ''. Did you forget to call Config::object()?''
                 else if expected = ''array'' then message @ ''. Did you forget to call Config::array()?''
                 else message
             | _ \<Rightarrow> message)))"

definition h_as_array :: "'f hconfig \<Rightarrow> 'f memory \<Rightarrow> (addr \<times> 'f hconfig list) cfg" where
  "h_as_array c s =
     (case h_value c of
        HArray a \<Rightarrow> (case block_at s a of
                       Some (_, ConfigArray cs) \<Rightarrow> Inr (a, cs)
                     | _ \<Rightarrow> Inl (Undefined UseAfterFree))
      | _ \<Rightarrow> h_wrong_type ''array'' c s)"

definition h_as_object :: "'f hconfig \<Rightarrow> 'f memory \<Rightarrow> (addr \<times> (string, 'f hentry) std_map) cfg" where
  "h_as_object c s =
     (case h_value c of
        HObject a \<Rightarrow> (case block_at s a of
                        Some (_, ConfigObject m) \<Rightarrow> Inr (a, m)
                      | _ \<Rightarrow> Inl (Undefined UseAfterFree))
      | _ \<Rightarrow> h_wrong_type ''object'' c s)"

text \<open>The array or the object of a block is changed, its counter stays.\<close>

definition set_contents :: "addr \<Rightarrow> 'f block \<Rightarrow> 'f memory \<Rightarrow> 'f memory" where
  "set_contents a b s = (case block_at s a of None \<Rightarrow> s | Some (n, _) \<Rightarrow> set_block a (Some (n, b)) s)"

text \<open>\<open>operator[]\<close> and \<open>push_back\<close> of an array. The argument of \<open>push_back\<close> is a \<open>Config\<close> of its own.\<close>

definition h_array_at :: "loc \<Rightarrow> nat \<Rightarrow> 'f memory \<Rightarrow> loc cfg" where
  "h_array_at l ix s =
     bindE (get_at l s) (\<lambda>c. bindE (h_as_array c s) (\<lambda>(a, cs).
       if ix < length cs then Inr (Elem a ix)
       else Inl (OnError (h_doc c) (h_line c) ''Array index out of range'')))"

definition h_push_back :: "loc \<Rightarrow> 'f hconfig \<Rightarrow> 'f memory \<Rightarrow> 'f memory cfg" where
  "h_push_back l x s =
     bindE (get_at l s) (\<lambda>c. bindE (h_as_array c s) (\<lambda>(a, cs).
       Inr (set_contents a (ConfigArray (cs @ [x])) s)))"

text \<open>\<open>operator[]\<close> of an object: a new key gets the result of a failed look-up, with one reference.\<close>

definition h_index :: "loc \<Rightarrow> string \<Rightarrow> 'f memory \<Rightarrow> (loc \<times> 'f memory) cfg" where
  "h_index l key s =
     bindE (get_at l s) (\<lambda>c. bindE (h_as_object c s) (\<lambda>(a, m).
       case map_find m key of
         None \<Rightarrow>
           let (b, s) = new_block (BadLookupInfo (h_doc c) (h_line c) key) s;
               e = \<lparr>he_value = fresh_config (HBadLookup b), he_nr = length m, he_accessed = False\<rparr>
           in Inr (Member a key, set_contents a (ConfigObject (map_set key e m)) s)
       | Some e \<Rightarrow> Inr (Member a key, set_contents a (ConfigObject (map_set key (e\<lparr>he_accessed := True\<rparr>) m)) s)))"

text \<open>The entry that \<open>insert_or_assign\<close> assigns to, and the operation for a temporary and for a moved \<open>Config\<close>.\<close>

definition h_entry :: "loc \<Rightarrow> string \<Rightarrow> 'f memory \<Rightarrow> (loc \<times> 'f memory) cfg" where
  "h_entry l key s =
     bindE (get_at l s) (\<lambda>c. bindE (h_as_object c s) (\<lambda>(a, m).
       let e = (case map_find m key of
                  None \<Rightarrow> \<lparr>he_value = fresh_config HUninitialized, he_nr = length m, he_accessed = False\<rparr>
                | Some e \<Rightarrow> e\<lparr>he_accessed := True\<rparr>)
       in Inr (Member a key, set_contents a (ConfigObject (map_set key e m)) s)))"

definition h_insert_or_assign_temp :: "loc \<Rightarrow> string \<Rightarrow> 'f hconfig \<Rightarrow> 'f memory \<Rightarrow> 'f memory cfg" where
  "h_insert_or_assign_temp l key x s = bindE (h_entry l key s) (\<lambda>(d, s). move_assign_temp d x s)"

definition h_insert_or_assign :: "loc \<Rightarrow> string \<Rightarrow> loc \<Rightarrow> 'f memory \<Rightarrow> 'f memory cfg" where
  "h_insert_or_assign l key src s = bindE (h_entry l key s) (\<lambda>(d, s). move_assign d src s)"

text \<open>\<open>emplace\<close> destroys its argument when the key is there; \<open>erase\<close> destroys the value of the key.\<close>

definition h_emplace :: "loc \<Rightarrow> string \<Rightarrow> 'f hconfig \<Rightarrow> 'f memory \<Rightarrow> 'f memory cfg" where
  "h_emplace l key x s =
     bindE (get_at l s) (\<lambda>c. bindE (h_as_object c s) (\<lambda>(a, m).
       case map_find m key of
         None \<Rightarrow> Inr (set_contents a (ConfigObject
                   (map_set key \<lparr>he_value = x, he_nr = length m, he_accessed = False\<rparr> m)) s)
       | Some _ \<Rightarrow> destroy x s))"

definition h_erase :: "loc \<Rightarrow> string \<Rightarrow> 'f memory \<Rightarrow> 'f memory cfg" where
  "h_erase l key s =
     bindE (get_at l s) (\<lambda>c. bindE (h_as_object c s) (\<lambda>(a, m).
       case map_find m key of
         None \<Rightarrow> Inr s
       | Some e \<Rightarrow> destroy (he_value e) (set_contents a (ConfigObject (map_erase key m)) s)))"


section \<open>deep_clone\<close>

text \<open>
  The members of an object and the elements of an array are cloned one after the other into the new block at
  \<open>b\<close>. The recursion over the value need not end where an object contains itself, so \<open>h_deep_clone\<close> has fuel.
\<close>

primrec clone_members ::
  "('f hconfig \<Rightarrow> 'f memory \<Rightarrow> ('f hconfig \<times> 'f memory) cfg) \<Rightarrow> addr \<Rightarrow> (string, 'f hentry) std_map \<Rightarrow>
   'f memory \<Rightarrow> 'f memory cfg" where
  "clone_members clone b [] s = Inr s"
| "clone_members clone b (p # ps) s =
     bindE (case block_at s b of
              Some (n, ConfigObject m) \<Rightarrow>
                Inr (set_block b (Some (n, ConfigObject (map_set (fst p)
                  \<lparr>he_value = fresh_config HUninitialized, he_nr = he_nr (snd p), he_accessed = False\<rparr> m))) s)
            | _ \<Rightarrow> Inl (Undefined UseAfterFree)) (\<lambda>s.
     bindE (clone (he_value (snd p)) s) (\<lambda>(x, s).
     bindE (move_assign_temp (Member b (fst p)) x s) (clone_members clone b ps)))"

primrec clone_elements ::
  "('f hconfig \<Rightarrow> 'f memory \<Rightarrow> ('f hconfig \<times> 'f memory) cfg) \<Rightarrow> addr \<Rightarrow> 'f hconfig list \<Rightarrow>
   'f memory \<Rightarrow> 'f memory cfg" where
  "clone_elements clone b [] s = Inr s"
| "clone_elements clone b (c # cs) s =
     bindE (clone c s) (\<lambda>(x, s).
     bindE (case block_at s b of
              Some (n, ConfigArray ys) \<Rightarrow> Inr (set_block b (Some (n, ConfigArray (ys @ [x]))) s)
            | _ \<Rightarrow> Inl (Undefined UseAfterFree)) (clone_elements clone b cs))"

primrec h_deep_clone :: "nat \<Rightarrow> 'f hconfig \<Rightarrow> 'f memory \<Rightarrow> ('f hconfig \<times> 'f memory) cfg" where
  "h_deep_clone 0 c s = Inl OutOfFuel"
| "h_deep_clone (Suc fuel) c s =
     bindE (copy_config c s) (\<lambda>(ret, s).
     case h_value c of
       HObject a \<Rightarrow>
         let (ob, s) = object_config s; (ret', old) = swap_assign ret ob in
         bindE (destroy old s) (\<lambda>s.
         bindE (h_as_object c s) (\<lambda>(_, m).
         bindE (h_as_object ret' s) (\<lambda>(b, _).
         bindE (clone_members (h_deep_clone fuel) b m s) (\<lambda>s. Inr (ret', s)))))
     | HArray a \<Rightarrow>
         let (ar, s) = array_config s; (ret', old) = swap_assign ret ar in
         bindE (destroy old s) (\<lambda>s.
         bindE (h_as_array c s) (\<lambda>(_, cs).
         bindE (h_as_array ret' s) (\<lambda>(b, _).
         bindE (clone_elements (h_deep_clone fuel) b cs s) (\<lambda>s. Inr (ret', s)))))
     | _ \<Rightarrow> Inr (ret, s))"


section \<open>deep_eq\<close>

text \<open>
  \<open>deep_eq\<close>: two arrays or objects that are the same block are equal; else they are compared, and the loop over two
  arrays compares \<open>a_array[i]\<close> with \<open>a_array[i]\<close>. It has fuel as well.
\<close>

primrec eq_members ::
  "('f hconfig \<Rightarrow> 'f hconfig \<Rightarrow> bool cfg) \<Rightarrow> (string, 'f hentry) std_map \<Rightarrow> (string, 'f hentry) std_map \<Rightarrow> bool cfg" where
  "eq_members eq m [] = Inr True"
| "eq_members eq m (p # ps) =
     (case map_find m (fst p) of
        None \<Rightarrow> Inr False
      | Some e \<Rightarrow> bindE (eq (he_value (snd p)) (he_value e)) (\<lambda>r. if r then eq_members eq m ps else Inr False))"

primrec eq_elements :: "('f hconfig \<Rightarrow> 'f hconfig \<Rightarrow> bool cfg) \<Rightarrow> 'f hconfig list \<Rightarrow> bool cfg" where
  "eq_elements eq [] = Inr True"
| "eq_elements eq (c # cs) = bindE (eq c c) (\<lambda>r. if r then eq_elements eq cs else Inr False)"

primrec h_deep_eq :: "('f \<Rightarrow> 'f \<Rightarrow> bool) \<Rightarrow> nat \<Rightarrow> 'f memory \<Rightarrow> 'f hconfig \<Rightarrow> 'f hconfig \<Rightarrow> bool cfg" where
  "h_deep_eq feq 0 s a b = Inl OutOfFuel"
| "h_deep_eq feq (Suc fuel) s a b =
     (case (h_value a, h_value b) of
        (HNull, HNull) \<Rightarrow> Inr True
      | (HBool x, HBool y) \<Rightarrow> Inr (x = y)
      | (HInt x, HInt y) \<Rightarrow> Inr (x = y)
      | (HFloat x, HFloat y) \<Rightarrow> Inr (feq x y)
      | (HString x, HString y) \<Rightarrow> Inr (x = y)
      | (HObject p, HObject q) \<Rightarrow>
          if p = q then Inr True
          else bindE (h_as_object a s) (\<lambda>(_, m). bindE (h_as_object b s) (\<lambda>(_, m').
               if length m \<noteq> length m' then Inr False else eq_members (h_deep_eq feq fuel s) m' m))
      | (HArray p, HArray q) \<Rightarrow>
          if p = q then Inr True
          else bindE (h_as_array a s) (\<lambda>(_, cs). bindE (h_as_array b s) (\<lambda>(_, cs').
               if length cs \<noteq> length cs' then Inr False else eq_elements (h_deep_eq feq fuel s) cs))
      | _ \<Rightarrow> Inr False)"


section \<open>Programs\<close>

text \<open>
  The statements of a program that uses \<open>Config\<close>s. A place is a variable followed by keys and indices; a
  temporary is made from a literal, as a copy, or by moving. A new variable is initialised with a temporary,
  and the variable declared last is the first one to be destroyed.
\<close>

datatype place = Variable nat | Key place string | Ix place nat

datatype 'f temporary = Literal "'f hval" | New_object | New_array | Copy place | Move place

datatype 'f stmt =
    Declare "'f temporary"
  | End_of_life
  | Assign place place
  | Assign_move place place
  | Assign_temp place "'f temporary"
  | Swap_places place place
  | Push_back place "'f temporary"
  | Insert place string "'f temporary"
  | Insert_move place string place
  | Emplace_at place string "'f temporary"
  | Erase_key place string

text \<open>The right-hand side of an assignment is evaluated first, an object before the arguments of its operation.\<close>

primrec place_at :: "place \<Rightarrow> 'f memory \<Rightarrow> (loc \<times> 'f memory) cfg" where
  "place_at (Variable i) s = Inr (Var i, s)"
| "place_at (Key p key) s = bindE (place_at p s) (\<lambda>(l, s). h_index l key s)"
| "place_at (Ix p ix) s = bindE (place_at p s) (\<lambda>(l, s). bindE (h_array_at l ix s) (\<lambda>l'. Inr (l', s)))"

fun temp_of :: "'f temporary \<Rightarrow> 'f memory \<Rightarrow> ('f hconfig \<times> 'f memory) cfg" where
  "temp_of (Literal v) s = Inr (fresh_config v, s)"
| "temp_of New_object s = Inr (object_config s)"
| "temp_of New_array s = Inr (array_config s)"
| "temp_of (Copy p) s = bindE (place_at p s) (\<lambda>(l, s). bindE (get_at l s) (\<lambda>c. copy_config c s))"
| "temp_of (Move p) s = bindE (place_at p s) (\<lambda>(l, s). take_config l s)"

fun exec :: "'f stmt \<Rightarrow> 'f memory \<Rightarrow> 'f memory cfg" where
  "exec (Declare x) s = bindE (temp_of x s) (\<lambda>(c, s). Inr (s\<lparr>mem_vars := mem_vars s @ [c]\<rparr>))"
| "exec End_of_life s =
     (if mem_vars s = [] then Inl (Undefined UseAfterFree)
      else destroy (last (mem_vars s)) (s\<lparr>mem_vars := butlast (mem_vars s)\<rparr>))"
| "exec (Assign p q) s =
     bindE (place_at q s) (\<lambda>(src, s). bindE (place_at p s) (\<lambda>(dst, s). copy_assign dst src s))"
| "exec (Assign_move p q) s =
     bindE (place_at q s) (\<lambda>(src, s). bindE (place_at p s) (\<lambda>(dst, s). move_assign dst src s))"
| "exec (Assign_temp p x) s =
     bindE (temp_of x s) (\<lambda>(c, s). bindE (place_at p s) (\<lambda>(dst, s). move_assign_temp dst c s))"
| "exec (Swap_places p q) s =
     bindE (place_at p s) (\<lambda>(l, s). bindE (place_at q s) (\<lambda>(l', s). swap_configs l l' s))"
| "exec (Push_back p x) s =
     bindE (place_at p s) (\<lambda>(l, s). bindE (temp_of x s) (\<lambda>(c, s). h_push_back l c s))"
| "exec (Insert p key x) s =
     bindE (place_at p s) (\<lambda>(l, s). bindE (temp_of x s) (\<lambda>(c, s). h_insert_or_assign_temp l key c s))"
| "exec (Insert_move p key q) s =
     bindE (place_at p s) (\<lambda>(l, s). bindE (place_at q s) (\<lambda>(src, s). h_insert_or_assign l key src s))"
| "exec (Emplace_at p key x) s =
     bindE (place_at p s) (\<lambda>(l, s). bindE (temp_of x s) (\<lambda>(c, s). h_emplace l key c s))"
| "exec (Erase_key p key) s = bindE (place_at p s) (\<lambda>(l, s). h_erase l key s)"

primrec exec_all :: "'f stmt list \<Rightarrow> 'f memory \<Rightarrow> 'f memory cfg" where
  "exec_all [] s = Inr s"
| "exec_all (st # sts) s = bindE (exec st s) (exec_all sts)"

end
