(* ===== verification/Cfg_Counts.thy ===== *)
theory Cfg_Counts
  imports Cfg_Memory
begin

text \<open>
  The reference counts of Configuru are exact: the counter of a block is the number of \<open>Config\<close>s that refer to it,
  in variables, in other blocks and in temporaries. Here are the invariant, what each operation does to it, and
  that a reference whose owner a variable reaches stays valid.
\<close>

named_theorems ref_simps \<open>the blocks and the references after a change of the memory\<close>

section \<open>The references in memory\<close>

definition slot_refs :: "(32 word \<times> 'f block) option \<Rightarrow> refer multiset" where
  "slot_refs x = (case x of None \<Rightarrow> {#} | Some (_, b) \<Rightarrow> mset (block_refs b))"

lemma slot_refs_simps [simp]: "slot_refs None = {#}" "slot_refs (Some (n, b)) = mset (block_refs b)"
  by (simp_all add: slot_refs_def)

definition all_refs :: "'f memory \<Rightarrow> refer multiset" where
  "all_refs s = (\<Sum>c\<leftarrow>mem_vars s. mset (cfg_refs c)) + (\<Sum>b\<leftarrow>mem_heap s. slot_refs b)"

definition tally :: "'f memory \<Rightarrow> refer \<Rightarrow> nat" where
  "tally s r = (case block_at s (snd r) of
      Some (n, b) \<Rightarrow> if kind_of b = fst r then unat n else 0
    | None \<Rightarrow> 0)"

fun wf_block :: "'f block \<Rightarrow> bool" where
  "wf_block (ConfigObject m) = map_wf m"
| "wf_block _ = True"

text \<open>
  The counters are exact when the references in \<open>P\<close>, those of temporaries, are counted as well. The
  same equation says that a reference leads to a block of its kind.
\<close>

definition counted :: "refer multiset \<Rightarrow> 'f memory \<Rightarrow> bool" where
  "counted P s \<longleftrightarrow>
     (\<forall>r. count (all_refs s + P) r = tally s r) \<and>
     (\<forall>a n b. block_at s a = Some (n, b) \<longrightarrow> n \<noteq> 0 \<and> wf_block b)"

lemma countedI:
  assumes "\<And>r. count (all_refs s + P) r = tally s r"
    and "\<And>a n b. block_at s a = Some (n, b) \<Longrightarrow> n \<noteq> 0 \<and> wf_block b"
  shows "counted P s"
  using assms by (auto simp: counted_def)

lemma counted_count: "counted P s \<Longrightarrow> count (all_refs s + P) r = tally s r"
  unfolding counted_def by blast

lemma counted_block: "counted P s \<Longrightarrow> block_at s a = Some (n, b) \<Longrightarrow> n \<noteq> 0 \<and> wf_block b"
  unfolding counted_def by blast

lemma counted_wf_object: "counted P s \<Longrightarrow> block_at s a = Some (n, ConfigObject m) \<Longrightarrow> map_wf m"
  using counted_block [of P s a n "ConfigObject m"] by simp

lemma counted_live:
  assumes "counted P s" "(k, a) \<in># all_refs s + P"
  obtains n b where "block_at s a = Some (n, b)" "kind_of b = k" "unat n = count (all_refs s + P) (k, a)"
proof -
  have "0 < tally s (k, a)" using assms counted_count [of P s "(k, a)"] by (metis count_greater_zero_iff)
  then show thesis
    using that counted_count [OF assms(1), of "(k, a)"] by (auto simp: tally_def split: option.splits if_splits)
qed

lemma counted_array:
  assumes "counted P s" "(Array_kind, a) \<in># all_refs s + P"
  obtains n cs where "block_at s a = Some (n, ConfigArray cs)"
  using counted_live [OF assms] by (metis kind.distinct(2) kind.distinct(6) kind_of.elims)

lemma counted_object:
  assumes "counted P s" "(Object_kind, a) \<in># all_refs s + P"
  obtains n m where "block_at s a = Some (n, ConfigObject m)"
  using counted_live [OF assms] by (metis kind.distinct(3) kind.distinct(6) kind_of.elims)

lemma counted_bad:
  assumes "counted P s" "(Bad_kind, a) \<in># all_refs s + P"
  obtains n d l k where "block_at s a = Some (n, BadLookupInfo d l k)"
  using counted_live [OF assms] by (metis kind.distinct(1) kind.distinct(3) kind_of.elims)


section \<open>Changes of a block\<close>

lemma sum_list_update_add:
  fixes f :: "'a \<Rightarrow> 'b::comm_monoid_add"
  shows "i < length xs \<Longrightarrow> sum_list (map f (xs[i := y])) + f (xs ! i) = sum_list (map f xs) + f y"
  by (induction xs arbitrary: i) (auto simp: ac_simps split: nat.splits)

lemma mem_vars_set_block [simp]: "mem_vars (set_block a x s) = mem_vars s"
  by (simp add: set_block_def)

lemma length_set_block [simp]: "length (mem_heap (set_block a x s)) = length (mem_heap s)"
  by (simp add: set_block_def)

lemma block_at_set_block [ref_simps]:
  "block_at s a = Some y \<Longrightarrow> block_at (set_block a x s) b = (if b = a then x else block_at s b)"
  by (auto simp: block_at_def set_block_def split: if_splits)

lemma block_at_vars [simp]: "block_at (s\<lparr>mem_vars := vs\<rparr>) a = block_at s a"
  by (simp add: block_at_def)

lemma all_refs_set_block:
  "block_at s a = Some y \<Longrightarrow> all_refs (set_block a x s) + slot_refs (Some y) = all_refs s + slot_refs x"
  using sum_list_update_add [of a "mem_heap s" slot_refs x]
  by (auto simp: all_refs_def set_block_def block_at_def ac_simps split: if_splits)

lemma tally_set_block:
  "block_at s a = Some y \<Longrightarrow> tally (set_block a x s) r =
     (if snd r = a then (case x of Some (n, b) \<Rightarrow> if kind_of b = fst r then unat n else 0 | None \<Rightarrow> 0) else tally s r)"
  by (simp add: tally_def block_at_set_block)

lemma tally_block: "block_at s a = Some (n, b) \<Longrightarrow> tally s (k, a) = (if kind_of b = k then unat n else 0)"
  by (simp add: tally_def)

text \<open>A block is replaced, counter included.\<close>

lemma counted_set_block:
  assumes c: "counted P s" and a: "block_at s a = Some (n, b)"
    and b': "kind_of b' = kind_of b" "wf_block b'" "n' \<noteq> 0"
    and bal: "\<And>r. count (mset (block_refs b') + Q) r + (if r = (kind_of b, a) then unat n else 0) =
      count (mset (block_refs b) + P) r + (if r = (kind_of b, a) then unat n' else 0)"
  shows "counted Q (set_block a (Some (n', b')) s)"
proof (rule countedI)
  fix r :: refer
  obtain k a' where r: "r = (k, a')" by force
  have "count (all_refs (set_block a (Some (n', b')) s)) r + count (mset (block_refs b)) r =
      count (all_refs s) r + count (mset (block_refs b')) r"
    using all_refs_set_block [OF a, of "Some (n', b')"] by (metis count_union slot_refs_simps(2))
  moreover have "count (all_refs s) r + count P r = tally s r" using counted_count [OF c] by simp
  ultimately show "count (all_refs (set_block a (Some (n', b')) s) + Q) r = tally (set_block a (Some (n', b')) s) r"
    using bal [of r] b'(1) r tally_block [OF a, of k] by (auto simp: tally_set_block [OF a] split: if_splits)
next
  fix a' m x
  assume "block_at (set_block a (Some (n', b')) s) a' = Some (m, x)"
  then show "m \<noteq> 0 \<and> wf_block x"
    using b' counted_block [OF c] by (auto simp: block_at_set_block [OF a] split: if_splits)
qed

lemma counted_set_contents:
  assumes "counted P s" "block_at s a = Some (n, b)" "kind_of b' = kind_of b" "wf_block b'"
    and "mset (block_refs b') + Q = mset (block_refs b) + P"
  shows "counted Q (set_block a (Some (n, b')) s)"
  using assms counted_block [OF assms(1,2)] by (intro counted_set_block [OF assms(1,2)]) simp_all

lemma counted_delete:
  assumes c: "counted P s" and a: "block_at s a = Some (1, b)" and r: "(kind_of b, a) \<in># P"
  shows "counted (P - {#(kind_of b, a)#} + mset (block_refs b)) (set_block a None s)"
proof (rule countedI)
  fix r :: refer
  obtain k a' where r': "r = (k, a')" by force
  have "count (all_refs (set_block a None s)) r + count (mset (block_refs b)) r = count (all_refs s) r"
    using all_refs_set_block [OF a, of None] by (metis add.right_neutral count_union slot_refs_simps)
  moreover have "count (all_refs s) r + count P r = tally s r" using counted_count [OF c] by simp
  moreover have "count P (kind_of b, a) > 0" using r by simp
  ultimately show "count (all_refs (set_block a None s) + (P - {#(kind_of b, a)#} + mset (block_refs b))) r =
      tally (set_block a None s) r"
    using r' tally_block [OF a, of k] by (auto simp: tally_set_block [OF a] split: if_splits)
next
  fix a' m x
  assume "block_at (set_block a None s) a' = Some (m, x)"
  then show "m \<noteq> 0 \<and> wf_block x"
    using counted_block [OF c] by (auto simp: block_at_set_block [OF a] split: if_splits)
qed


lemma counted_vars:
  assumes "counted P s" "mem_heap s' = mem_heap s" "all_refs s' + Q = all_refs s + P"
  shows "counted Q s'"
proof -
  have b: "block_at s' a = block_at s a" for a using assms(2) by (simp add: block_at_def)
  show ?thesis using assms(1) unfolding counted_def assms(3) tally_def b .
qed

lemma block_at_new_block [ref_simps]:
  "block_at (snd (new_block b s)) a = (if a = length (mem_heap s) then Some (1, b) else block_at s a)"
  by (auto simp: new_block_def block_at_def nth_append)

lemma mem_vars_new_block [simp]: "mem_vars (snd (new_block b s)) = mem_vars s"
  by (simp add: new_block_def)

lemma block_at_length [simp]: "block_at s (length (mem_heap s)) = None"
  by (simp add: block_at_def)

lemma all_refs_new_block: "all_refs (snd (new_block b s)) = all_refs s + mset (block_refs b)"
  by (simp add: all_refs_def new_block_def)

lemma counted_new_block:
  assumes c: "counted (P + mset (block_refs b)) s" and "wf_block b"
  shows "counted (add_mset (kind_of b, length (mem_heap s)) P) (snd (new_block b s))"
proof (rule countedI)
  fix r :: refer
  obtain k a where r: "r = (k, a)" by force
  have "count (all_refs s + (P + mset (block_refs b))) r = tally s r" using counted_count [OF c] .
  then show "count (all_refs (snd (new_block b s)) + add_mset (kind_of b, length (mem_heap s)) P) r = tally (snd (new_block b s)) r"
    using r by (auto simp: all_refs_new_block tally_def block_at_new_block)
next
  fix a n x
  assume "block_at (snd (new_block b s)) a = Some (n, x)"
  then show "n \<noteq> 0 \<and> wf_block x"
    using assms(2) counted_block [OF c] by (auto simp: block_at_new_block split: if_splits)
qed

lemma map_set_sum:
  fixes g :: "'v \<Rightarrow> 'b::comm_monoid_add"
  assumes "map_wf m" "map_find m k = Some e"
  shows "(\<Sum>(_, e)\<leftarrow>map_set k e' m. g e) + g e = (\<Sum>(_, e)\<leftarrow>m. g e) + g e'"
  using assms
proof (induction m)
  case (Cons p m)
  obtain k1 e1 where p: "p = (k1, e1)" by force
  have wf: "map_wf m" "\<forall>x\<in>set m. k1 < fst x" using Cons.prems(1) p by (auto simp: map_wf_def)
  have "k1 < k" if "k \<noteq> k1" "map_find m k = Some e"
    using that wf(2) map_of_SomeD [of m k e] by (auto simp: map_find_def)
  then show ?case
    using Cons wf(1) p add.left_commute [of "g e" "g e1"] add.left_commute [of "g e'" "g e1"]
    by (auto simp: add.commute [of _ "g e"] add.commute [of _ "g e'"] split: if_splits)
qed simp

lemma map_set_sum_new:
  fixes g :: "'v \<Rightarrow> 'b::comm_monoid_add"
  shows "map_find m k = None \<Longrightarrow> (\<Sum>(_, e)\<leftarrow>map_set k e' m. g e) = (\<Sum>(_, e)\<leftarrow>m. g e) + g e'"
  by (induction m) (auto simp: ac_simps split: if_splits)

lemma map_erase_sum:
  fixes g :: "'v \<Rightarrow> 'b::comm_monoid_add"
  assumes "map_wf m" "map_find m k = Some e"
  shows "(\<Sum>(_, e)\<leftarrow>map_erase k m. g e) + g e = (\<Sum>(_, e)\<leftarrow>m. g e)"
  using assms
proof (induction m)
  case (Cons p m)
  obtain k1 e1 where p: "p = (k1, e1)" by force
  have wf: "map_wf m" "\<forall>x\<in>set m. k1 < fst x" using Cons.prems(1) p by (auto simp: map_wf_def)
  have "map_erase k m = m" if "k = k1" using wf(2) that by (auto simp: map_erase_def intro!: filter_True)
  then show ?case
    using Cons wf(1) p add.left_commute [of "g e" "g e1"]
    by (auto simp: map_erase_def add.commute [of _ "g e"] split: if_splits)
qed simp

lemma mset_object_refs: "mset (block_refs (ConfigObject m)) = (\<Sum>(_, e)\<leftarrow>m. mset (cfg_refs (he_value e)))"
  by (simp add: mset_concat comp_def split_def)

lemma mset_array_refs: "mset (block_refs (ConfigArray cs)) = (\<Sum>c\<leftarrow>cs. mset (cfg_refs c))"
  by (simp add: mset_concat comp_def)

lemmas object_sums =
  map_set_sum [where g = "\<lambda>e. mset (cfg_refs (he_value e))"]
  map_set_sum_new [where g = "\<lambda>e. mset (cfg_refs (he_value e))"]
  map_erase_sum [where g = "\<lambda>e. mset (cfg_refs (he_value e))"]

text \<open>One \<open>Config\<close> in memory is replaced by another: the counters do not change.\<close>

definition wf_memory :: "'f memory \<Rightarrow> bool" where
  "wf_memory s \<longleftrightarrow> (\<forall>a n b. block_at s a = Some (n, b) \<longrightarrow> n \<noteq> 0 \<and> wf_block b)"

lemma wf_memory_object: "wf_memory s \<Longrightarrow> block_at s a = Some (n, ConfigObject m) \<Longrightarrow> map_wf m"
  unfolding wf_memory_def using wf_block.simps(1) by blast

lemma counted_wf: "counted P s \<Longrightarrow> wf_memory s"
  by (simp add: counted_def wf_memory_def)

lemma update_at_cases:
  assumes "wf_memory s" "config_at s l = Some d"
  obtains (var) i where "l = Var i" "i < length (mem_vars s)" "d = mem_vars s ! i"
      "update_at l x s = s\<lparr>mem_vars := (mem_vars s)[i := x]\<rparr>"
  | (block) a n b b' where "block_at s a = Some (n, b)" "kind_of b' = kind_of b" "wf_block b'"
      "mset (block_refs b') + mset (cfg_refs d) = mset (block_refs b) + mset (cfg_refs x)"
      "update_at l x s = set_block a (Some (n, b')) s"
proof (cases l)
  case (Var i)
  then show thesis using assms(2) var by (auto split: if_splits)
next
  case (Elem a i)
  then obtain n cs where a: "block_at s a = Some (n, ConfigArray cs)" "i < length cs" "d = cs ! i"
    using assms(2) by (auto split: option.splits block.splits if_splits)
  show thesis
  proof (rule block [OF a(1)])
    show "mset (block_refs (ConfigArray (cs[i := x]))) + mset (cfg_refs d) =
        mset (block_refs (ConfigArray cs)) + mset (cfg_refs x)"
      using a sum_list_update_add [of i cs "\<lambda>c. mset (cfg_refs c)" x] by (simp add: mset_array_refs del: block_refs.simps)
  qed (use Elem a in simp_all)
next
  case (Member a k)
  then obtain n m e where a: "block_at s a = Some (n, ConfigObject m)" "map_find m k = Some e" "d = he_value e"
    using assms(2) by (auto split: option.splits block.splits)
  note wf = wf_memory_object [OF assms(1) a(1)]
  show thesis
  proof (rule block [OF a(1)])
    show "mset (block_refs (ConfigObject (map_set k (e\<lparr>he_value := x\<rparr>) m))) + mset (cfg_refs d) =
        mset (block_refs (ConfigObject m)) + mset (cfg_refs x)"
      using a object_sums(1) [OF wf a(2), of "e\<lparr>he_value := x\<rparr>"] by (simp add: mset_object_refs del: block_refs.simps)
  qed (use Member a wf in \<open>simp_all add: map_wf_map_set\<close>)
qed

lemma mset_exchange:
  assumes "A + B = C + D" "D + Q = B + (P :: 'b multiset)"
  shows "A + Q = C + P"
proof (rule multiset_eqI)
  fix x
  show "count (A + Q) x = count (C + P) x"
    using arg_cong [OF assms(1), of "\<lambda>M. count M x"] arg_cong [OF assms(2), of "\<lambda>M. count M x"] by simp
qed

lemma update_at_balance:
  assumes "wf_memory s" "config_at s l = Some d"
  shows "all_refs (update_at l x s) + mset (cfg_refs d) = all_refs s + mset (cfg_refs x)"
  using assms
proof (cases rule: update_at_cases [where x = x])
  case (var i)
  then show ?thesis
    using sum_list_update_add [of i "mem_vars s" "\<lambda>c. mset (cfg_refs c)" x] by (simp add: all_refs_def ac_simps)
next
  case (block a n b b')
  have "all_refs (set_block a (Some (n, b')) s) + mset (block_refs b) = all_refs s + mset (block_refs b')"
    using all_refs_set_block [OF block(1), of "Some (n, b')"] by simp
  then show ?thesis unfolding block(5) using block(4) by (rule mset_exchange)
qed

lemma update_at_tally:
  assumes "wf_memory s" "config_at s l = Some d"
  shows "tally (update_at l x s) r = tally s r"
  using assms
proof (cases rule: update_at_cases [where x = x])
  case (var i)
  then show ?thesis by (simp add: tally_def)
next
  case (block a n b b')
  then show ?thesis using tally_block [OF block(1), of "fst r"] by (cases r) (auto simp: tally_set_block [OF block(1)])
qed

lemma update_at_wf:
  assumes "wf_memory s" "config_at s l = Some d"
  shows "wf_memory (update_at l x s)"
  using assms
proof (cases rule: update_at_cases [where x = x])
  case (var i)
  then show ?thesis using assms(1) by (simp add: wf_memory_def)
next
  case (block a n b b')
  then show ?thesis
    using assms(1) unfolding wf_memory_def block(5) by (simp add: block_at_set_block [OF block(1)])
qed

lemma counted_update_at:
  assumes "counted (P + mset (cfg_refs x)) s" "config_at s l = Some d"
  shows "counted (P + mset (cfg_refs d)) (update_at l x s)"
proof -
  have "all_refs (update_at l x s) + (P + mset (cfg_refs d)) = all_refs s + (P + mset (cfg_refs x))"
    using update_at_balance [OF counted_wf [OF assms(1)] assms(2), of x] by (rule mset_exchange) (simp add: ac_simps)
  then show ?thesis
    using assms(1) update_at_tally [OF counted_wf [OF assms(1)] assms(2)] update_at_wf [OF counted_wf [OF assms(1)] assms(2), of x]
    unfolding counted_def wf_memory_def by metis
qed


section \<open>Release\<close>

text \<open>What \<open>release\<close> leaves: the variables, and some of the blocks as they were but for their counters.\<close>

definition shrunk :: "'f memory \<Rightarrow> 'f memory \<Rightarrow> bool" where
  "shrunk s s' \<longleftrightarrow> mem_vars s' = mem_vars s \<and> length (mem_heap s') = length (mem_heap s) \<and> all_refs s' \<subseteq># all_refs s \<and>
     (\<forall>a n b. block_at s' a = Some (n, b) \<longrightarrow> (\<exists>n. block_at s a = Some (n, b)))"

lemma shrunk_refl: "shrunk s s"
  by (simp add: shrunk_def)

lemma shrunk_trans: "shrunk s s1 \<Longrightarrow> shrunk s1 s2 \<Longrightarrow> shrunk s s2"
  unfolding shrunk_def by (metis subset_mset.order_trans)

lemma shrunk_set_block:
  assumes "block_at s a = Some (n, b)" "x = None \<or> x = Some (n', b)"
  shows "shrunk s (set_block a x s)"
proof -
  have "all_refs (set_block a x s) + mset (block_refs b) = all_refs s + slot_refs x"
    using all_refs_set_block [OF assms(1), of x] by simp
  then have "all_refs (set_block a x s) \<subseteq># all_refs s"
    using assms(2) by (auto simp: slot_refs_def) (metis mset_subset_eq_add_left)
  then show ?thesis
    using assms by (auto simp: shrunk_def block_at_set_block split: if_splits)
qed

lemma release_counted:
  "counted (P + mset rs) s \<Longrightarrow> \<exists>s'. release rs s = Inr s' \<and> counted P s' \<and> shrunk s s'"
proof (induction rs s arbitrary: P rule: release.induct)
  case (1 s)
  then show ?case by (auto intro: shrunk_refl)
next
  case (2 k a rs s)
  have c: "counted (P + mset ((k, a) # rs)) s" using "2.prems" .
  then obtain n b where b: "block_at s a = Some (n, b)" "kind_of b = k" by (rule counted_live) auto
  have n: "n \<noteq> 0" using counted_block [OF c b(1)] by simp
  show ?case
  proof (cases "n - 1 = 0")
    case True
    then have "n = 1" by simp
    then have "counted (P + mset (block_refs b @ rs)) (set_block a None s)"
      using counted_delete [OF c, of a b] b by (simp add: ac_simps)
    then show ?thesis
      using "2.IH"(1) [OF b(1) refl True] b True shrunk_trans [OF shrunk_set_block [OF b(1)]] by fastforce
  next
    case False
    have "unat n = Suc (unat (n - 1))" using n by (simp add: unat_minus_one) (metis Suc_pred unat_gt_0)
    then have "counted (P + mset rs) (set_block a (Some (n - 1, b)) s)"
      using False b counted_block [OF c b(1)] by (intro counted_set_block [OF c b(1)]) auto
    then show ?thesis
      using "2.IH"(2) [OF b(1) refl False] b False shrunk_trans [OF shrunk_set_block [OF b(1)]] by fastforce
  qed
qed

lemma destroy_counted:
  "counted (P + mset (cfg_refs c)) s \<Longrightarrow> \<exists>s'. destroy c s = Inr s' \<and> counted P s' \<and> shrunk s s'"
  by (simp add: destroy_def release_counted)

lemma add_ref_counted:
  assumes c: "counted P s" and v: "set (val_refs v) \<subseteq> set_mset (all_refs s + P)" and few: "size (all_refs s + P) + 1 < 2 ^ 32"
  shows "\<exists>s'. add_ref v s = Inr s' \<and> counted (P + mset (val_refs v)) s' \<and> shrunk s s' \<and> shrunk s' s"
proof (cases "val_refs v")
  case Nil
  then show ?thesis using c by (simp add: add_ref_def shrunk_refl)
next
  case (Cons r rs)
  obtain k a where r: "r = (k, a)" by force
  have rs: "val_refs v = [(k, a)]" using Cons r by (cases v) auto
  then have "(k, a) \<in># all_refs s + P" using v by simp
  then obtain n b where b: "block_at s a = Some (n, b)" "kind_of b = k" "unat n = count (all_refs s + P) (k, a)"
    using counted_live [OF c] by metis
  have "unat n + 1 < 2 ^ 32" using b(3) few count_le_size [of "all_refs s + P" "(k, a)"] by simp
  then have n1: "unat (n + 1) = unat n + 1" by (simp add: unat_word_ariths)
  then have "n + 1 \<noteq> 0" by (metis add_is_0 unat_0 zero_neq_one)
  then have "counted (P + mset (val_refs v)) (set_block a (Some (n + 1, b)) s)"
    using b n1 rs counted_block [OF c b(1)] by (intro counted_set_block [OF c b(1)]) auto
  moreover have "block_at (set_block a (Some (n + 1, b)) s) a = Some (n + 1, b)" using b by (simp add: block_at_set_block)
  then have "shrunk (set_block a (Some (n + 1, b)) s) (set_block a (Some (n, b)) (set_block a (Some (n + 1, b)) s))"
    by (rule shrunk_set_block) simp
  moreover have "set_block a (Some (n, b)) (set_block a (Some (n + 1, b)) s) = s"
    using b(1) by (auto simp: set_block_def block_at_def split: if_splits intro!: memory.equality)
      (metis list_update_id)
  ultimately show ?thesis
    using rs b shrunk_set_block [OF b(1)] by (auto simp: add_ref_def)
qed


section \<open>The size of the references\<close>

text \<open>Counters do not wrap as long as there are fewer than \<open>2 ^ 32\<close> references; \<open>room N\<close> says how many there are.\<close>

definition room :: "nat \<Rightarrow> refer multiset \<Rightarrow> 'f memory \<Rightarrow> bool" where
  "room N P s \<longleftrightarrow> counted P s \<and> size (all_refs s + P) \<le> N"

lemma room_counted: "room N P s \<Longrightarrow> counted P s"
  by (simp add: room_def)

lemma room_mono: "room N P s \<Longrightarrow> N \<le> M \<Longrightarrow> room M P s"
  by (simp add: room_def)

lemma room_set_contents:
  assumes r: "room N P s" and a: "block_at s a = Some (n, b)" and b': "kind_of b' = kind_of b" "wf_block b'"
    and bal: "mset (block_refs b') + Q = mset (block_refs b) + P"
  shows "room N Q (set_block a (Some (n, b')) s)"
proof -
  have "all_refs (set_block a (Some (n, b')) s) + mset (block_refs b) = all_refs s + mset (block_refs b')"
    using all_refs_set_block [OF a, of "Some (n, b')"] by simp
  then have "all_refs (set_block a (Some (n, b')) s) + Q = all_refs s + P" using bal by (rule mset_exchange)
  then show ?thesis using r counted_set_contents [OF room_counted [OF r] a b' bal] by (simp add: room_def)
qed

lemma room_vars:
  "room N P s \<Longrightarrow> mem_heap s' = mem_heap s \<Longrightarrow> all_refs s' + Q = all_refs s + P \<Longrightarrow> room N Q s'"
  using counted_vars [of P s s' Q] by (simp add: room_def)

lemma room_new_block:
  "room N (P + mset (block_refs b)) s \<Longrightarrow> wf_block b \<Longrightarrow>
   room (Suc N) (add_mset (kind_of b, length (mem_heap s)) P) (snd (new_block b s))"
  using counted_new_block [of P b s] by (simp add: room_def all_refs_new_block ac_simps)

lemma room_update_at:
  assumes r: "room N (P + mset (cfg_refs x)) s" and d: "config_at s l = Some d"
  shows "room N (P + mset (cfg_refs d)) (update_at l x s)"
proof -
  have "all_refs (update_at l x s) + (P + mset (cfg_refs d)) = all_refs s + (P + mset (cfg_refs x))"
    using update_at_balance [OF counted_wf [OF room_counted [OF r]] d, of x] by (rule mset_exchange) (simp add: ac_simps)
  then show ?thesis using r counted_update_at [OF room_counted [OF r] d] unfolding room_def by metis
qed

lemma config_at_update:
  "config_at s l \<noteq> None \<Longrightarrow> config_at (update_at l c s) l' = (if l' = l then Some c else config_at s l')"
  by (cases l; cases l')
    (auto simp: block_at_set_block map_find_map_set split: option.splits block.splits if_splits)

text \<open>Two \<open>Config\<close>s in memory are replaced and keep their references between them.\<close>

lemma room_update_two:
  assumes r: "room N P s" and d: "config_at s l = Some d" "config_at s l' = Some d'" "l \<noteq> l'"
    and x: "mset (cfg_refs x) + mset (cfg_refs x') = mset (cfg_refs d) + mset (cfg_refs d')"
  shows "room N P (update_at l' x' (update_at l x s))"
proof -
  let ?s = "update_at l x s"
  note wf = counted_wf [OF room_counted [OF r]]
  have d': "config_at ?s l' = Some d'" using d by (simp add: config_at_update)
  have wf': "wf_memory ?s" using wf d(1) by (rule update_at_wf)
  have "all_refs (update_at l' x' ?s) + mset (cfg_refs d') = all_refs ?s + mset (cfg_refs x')"
    using wf' d' by (rule update_at_balance)
  moreover have "all_refs ?s + mset (cfg_refs d) = all_refs s + mset (cfg_refs x)" using wf d(1) by (rule update_at_balance)
  ultimately have "all_refs (update_at l' x' ?s) + (mset (cfg_refs d) + mset (cfg_refs d')) =
      all_refs s + (mset (cfg_refs x) + mset (cfg_refs x'))"
    by (metis (no_types, opaque_lifting) add.assoc add.commute)
  then have "all_refs (update_at l' x' ?s) = all_refs s" by (simp only: x add_right_cancel)
  then show ?thesis
    using r update_at_tally [OF wf d(1)] update_at_tally [OF wf' d'] update_at_wf [OF wf' d', of x']
    by (simp add: room_def counted_def wf_memory_def)
qed

lemma release_room:
  assumes "room N (P + mset rs) s"
  obtains s' where "release rs s = Inr s'" "room N P s'" "shrunk s s'"
proof -
  obtain s' where s': "release rs s = Inr s'" "counted P s'" "shrunk s s'"
    using release_counted [OF room_counted [OF assms]] by blast
  have "size (all_refs s') \<le> size (all_refs s)" using s'(3) by (simp add: shrunk_def size_mset_mono)
  then have "room N P s'" using s'(2) assms by (simp add: room_def)
  with s' that show thesis by blast
qed

lemma add_ref_room:
  assumes r: "room N P s" and v: "set (val_refs v) \<subseteq> set_mset (all_refs s + P)" and few: "Suc N < 2 ^ 32"
  obtains s' where "add_ref v s = Inr s'" "room (Suc N) (P + mset (val_refs v)) s'" "shrunk s s'" "shrunk s' s"
proof -
  have "size (all_refs s + P) + 1 < 2 ^ 32" using r few by (simp add: room_def)
  then obtain s' where s': "add_ref v s = Inr s'" "counted (P + mset (val_refs v)) s'" "shrunk s s'" "shrunk s' s"
    using add_ref_counted [OF room_counted [OF r] v] by blast
  have "all_refs s' = all_refs s" using s'(3,4) by (auto simp: shrunk_def intro: subset_mset.antisym)
  moreover have "length (val_refs v) \<le> 1" by (cases v) auto
  ultimately have "room (Suc N) (P + mset (val_refs v)) s'" using s'(2) r by (simp add: room_def)
  with s' that show thesis by blast
qed


section \<open>What a variable reaches\<close>

fun owner :: "loc \<Rightarrow> addr option" where
  "owner (Var i) = None"
| "owner (Elem a i) = Some a"
| "owner (Member a k) = Some a"

inductive rooted :: "'f memory \<Rightarrow> addr \<Rightarrow> bool" for s where
  root: "config_at s (Var i) = Some c \<Longrightarrow> (k, a) \<in> set (cfg_refs c) \<Longrightarrow> rooted s a"
| step: "rooted s b \<Longrightarrow> owner l = Some b \<Longrightarrow> config_at s l = Some c \<Longrightarrow> (k, a) \<in> set (cfg_refs c) \<Longrightarrow> rooted s a"

definition anchored :: "'f memory \<Rightarrow> loc \<Rightarrow> bool" where
  "anchored s l \<longleftrightarrow> config_at s l \<noteq> None \<and> (\<forall>a. owner l = Some a \<longrightarrow> rooted s a)"

lemma anchored_refs: "anchored s l \<Longrightarrow> config_at s l = Some c \<Longrightarrow> (k, a) \<in> set (cfg_refs c) \<Longrightarrow> rooted s a"
  unfolding anchored_def by (cases l) (auto intro: rooted.root rooted.step [where l = l] simp del: config_at.simps)

text \<open>The later memory has what the earlier one had, and maybe more.\<close>

definition extends :: "'f memory \<Rightarrow> 'f memory \<Rightarrow> bool" where
  "extends s s' \<longleftrightarrow> mem_vars s' = mem_vars s \<and> (\<forall>l c. config_at s l = Some c \<longrightarrow> config_at s' l = Some c)"

lemma extends_refl: "extends s s"
  by (simp add: extends_def)

lemma extends_trans: "extends s s1 \<Longrightarrow> extends s1 s2 \<Longrightarrow> extends s s2"
  by (simp add: extends_def)

lemma extends_config: "extends s s' \<Longrightarrow> config_at s l = Some c \<Longrightarrow> config_at s' l = Some c"
  by (simp add: extends_def)

lemma rooted_extends: "rooted s a \<Longrightarrow> extends s s' \<Longrightarrow> rooted s' a"
  by (induction rule: rooted.induct) (auto intro: rooted.intros dest: extends_config simp del: config_at.simps)

lemma anchored_extends: "anchored s l \<Longrightarrow> extends s s' \<Longrightarrow> anchored s' l"
  unfolding anchored_def by (auto intro: rooted_extends dest: extends_config)

lemma sum_list_member: "x \<in> set xs \<Longrightarrow> set_mset (f x) \<subseteq> set_mset (sum_list (map f xs))"
  by (induction xs) auto

lemma block_refs_all: "block_at s a = Some (n, b) \<Longrightarrow> set (block_refs b) \<subseteq> set_mset (all_refs s)"
proof -
  assume a: "block_at s a = Some (n, b)"
  then have "Some (n, b) \<in> set (mem_heap s)" by (auto simp: block_at_def split: if_splits dest: nth_mem)
  then show ?thesis using sum_list_member [of "Some (n, b)" "mem_heap s" slot_refs] by (auto simp: all_refs_def)
qed

lemma config_at_owner:
  assumes "config_at s l = Some c" "owner l = Some a"
  obtains n b where "block_at s a = Some (n, b)" "set (cfg_refs c) \<subseteq> set (block_refs b)"
proof (cases l)
  case (Elem a' i)
  then obtain n cs where "block_at s a = Some (n, ConfigArray cs)" "c \<in> set cs"
    using assms by (auto split: option.splits block.splits if_splits)
  then show thesis using that by fastforce
next
  case (Member a' k)
  then obtain n m e where "block_at s a = Some (n, ConfigObject m)" "map_find m k = Some e" "c = he_value e"
    using assms by (auto split: option.splits block.splits)
  moreover then have "(k, e) \<in> set m" by (simp add: map_find_def map_of_SomeD)
  ultimately show thesis using that by fastforce
qed (use assms in simp)

lemma config_at_refs: "config_at s l = Some c \<Longrightarrow> set (cfg_refs c) \<subseteq> set_mset (all_refs s)"
proof (cases "owner l")
  case None
  assume "config_at s l = Some c"
  then have "c \<in> set (mem_vars s)" using None by (cases l) (auto split: if_splits)
  then show ?thesis using sum_list_member [of c "mem_vars s" "\<lambda>c. mset (cfg_refs c)"] by (simp add: all_refs_def le_supI1)
next
  case (Some a)
  assume "config_at s l = Some c"
  then obtain n b where "block_at s a = Some (n, b)" "set (cfg_refs c) \<subseteq> set (block_refs b)"
    using config_at_owner Some by metis
  then show ?thesis using block_refs_all [of s a n b] by (simp add: order_trans)
qed

lemma rooted_live:
  assumes "rooted s a" "counted P s"
  shows "\<exists>n b. block_at s a = Some (n, b)"
  using assms
proof (cases rule: rooted.cases)
  case (root i c k)
  then have "(k, a) \<in># all_refs s + P" using config_at_refs [OF root(1)] by auto
  then show ?thesis using counted_live [OF assms(2)] by metis
next
  case (step b l c k)
  then have "(k, a) \<in># all_refs s + P" using config_at_refs [OF step(3)] by auto
  then show ?thesis using counted_live [OF assms(2)] by metis
qed

lemma shrunk_block: "shrunk s s' \<Longrightarrow> block_at s' a = Some (n, b) \<Longrightarrow> \<exists>n. block_at s a = Some (n, b)"
  by (simp add: shrunk_def)

lemma config_at_shrunk:
  assumes sh: "shrunk s s'" and c: "config_at s l = Some c" and o': "\<And>a. owner l = Some a \<Longrightarrow> block_at s' a \<noteq> None"
  shows "config_at s' l = Some c"
proof (cases "owner l")
  case None
  then show ?thesis using sh c by (cases l) (simp_all add: shrunk_def split: if_splits)
next
  case (Some a)
  then obtain n' b where b: "block_at s' a = Some (n', b)" using o' by fastforce
  then obtain n where "block_at s a = Some (n, b)" using shrunk_block [OF sh] by blast
  then show ?thesis using b c Some by (cases l) auto
qed

lemma rooted_shrunk:
  assumes "rooted s a" "shrunk s s'" "counted P s'"
  shows "rooted s' a"
  using assms(1)
proof (induction rule: rooted.induct)
  case (root i c k a)
  then show ?case using config_at_shrunk [OF assms(2) root(1)] by (auto intro: rooted.root simp del: config_at.simps)
next
  case (step b l c k a)
  have "config_at s' l = Some c"
    using step rooted_live [OF step.IH assms(3)] by (intro config_at_shrunk [OF assms(2)]) auto
  then show ?case using step by (auto intro: rooted.step)
qed

lemma anchored_shrunk:
  assumes "anchored s l" "config_at s l = Some c" "shrunk s s'" "counted P s'"
  shows "config_at s' l = Some c" "anchored s' l"
proof -
  have r: "rooted s' a" if "owner l = Some a" for a
    using assms that by (auto simp: anchored_def intro: rooted_shrunk)
  show "config_at s' l = Some c"
    using r rooted_live [OF _ assms(4)] by (intro config_at_shrunk [OF assms(3,2)]) fastforce
  then show "anchored s' l" using r by (auto simp: anchored_def)
qed

lemma mem_vars_update_at: "length (mem_vars (update_at l c s)) = length (mem_vars s)"
  by (cases l) (auto split: option.splits block.splits)

text \<open>A change of the \<open>Config\<close> at \<open>l\<close> does not cut its owner off.\<close>

lemma rooted_update:
  assumes "rooted s x" "config_at s l \<noteq> None" "owner l = Some a"
  shows "rooted (update_at l c s) x \<or> rooted (update_at l c s) a"
  using assms(1)
proof (induction rule: rooted.induct)
  case (root i c' k y)
  have "l \<noteq> Var i" using assms(3) by auto
  then show ?case using root config_at_update [OF assms(2), of c "Var i"] by (auto intro: rooted.root simp del: config_at.simps)
next
  case (step b l' c' k y)
  show ?case
  proof (cases "l' = l")
    case False
    then have "config_at (update_at l c s) l' = Some c'" using step config_at_update [OF assms(2), of c l'] by simp
    then show ?thesis using step by (auto intro: rooted.step)
  qed (use step assms(3) in auto)
qed

lemma anchored_update:
  assumes "anchored s l"
  shows "anchored (update_at l c s) l"
  using assms rooted_update [of s _ l _ c] config_at_update [of s l c l] by (auto simp: anchored_def)

end
