(* ===== verification/Cfg_Safety.thy ===== *)
theory Cfg_Safety
  imports Cfg_Counts
begin

text \<open>
  Programs that use \<open>Config\<close>s are memory safe: no statement reads or frees what was freed before,
  and all counters stay exact, as long as no \<open>Config\<close> is assigned from a part of another one without a copy of it.
\<close>

named_theorems fine_intros \<open>the operations of Config keep the counters exact\<close>

section \<open>Outcomes\<close>

text \<open>An operation ends well or with an error that the library reports, never in undefined behaviour.\<close>

definition fine :: "('a \<Rightarrow> bool) \<Rightarrow> 'a cfg \<Rightarrow> bool" where
  "fine Q r = (case r of Inr x \<Rightarrow> Q x | Inl (OnError _ _ _) \<Rightarrow> True | Inl _ \<Rightarrow> False)"

lemma fine_simps [simp]:
  "fine Q (Inr x) = Q x" "fine Q (Inl (OnError d l msg))" "\<not> fine Q (Inl (Undefined e))" "\<not> fine Q (Inl OutOfFuel)"
  by (simp_all add: fine_def)

lemma fine_bind: "fine Q r \<Longrightarrow> (\<And>x. Q x \<Longrightarrow> fine R (f x)) \<Longrightarrow> fine R (bindE r f)"
  by (cases r) (auto simp: fine_def split: cfg_error.splits)

lemma fine_mono: "fine Q r \<Longrightarrow> (\<And>x. Q x \<Longrightarrow> R x) \<Longrightarrow> fine R r"
  by (auto simp: fine_def split: sum.splits cfg_error.splits)

lemma get_at_config: "config_at s l = Some c \<Longrightarrow> get_at l s = Inr c"
  by (simp add: get_at_def)

lemma put_at_config: "config_at s l = Some c \<Longrightarrow> put_at l x s = Inr (update_at l x s)"
  by (simp add: put_at_def)


section \<open>Assignments\<close>

lemma refs_swap_assign:
  "cfg_refs (fst (swap_assign d x)) = cfg_refs x" "cfg_refs (snd (swap_assign d x)) = cfg_refs d"
  by (simp_all add: swap_assign_def Let_def)

lemma refs_copy_over [simp]: "cfg_refs (copy_over d x) = cfg_refs x"
  by (simp add: copy_over_def Let_def)

lemma refs_default [simp]: "cfg_refs (fresh_config v) = val_refs v"
  by (simp add: fresh_config_def)

text \<open>What stays of the memory: the number of variables, and each place where a \<open>Config\<close> is.\<close>

definition keeps :: "'f memory \<Rightarrow> 'f memory \<Rightarrow> bool" where
  "keeps s s' \<longleftrightarrow> length (mem_vars s') = length (mem_vars s) \<and> (\<forall>l. config_at s l \<noteq> None \<longrightarrow> config_at s' l \<noteq> None)"

lemma keeps_refl: "keeps s s"
  by (simp add: keeps_def)

lemma keeps_trans: "keeps s s1 \<Longrightarrow> keeps s1 s2 \<Longrightarrow> keeps s s2"
  by (simp add: keeps_def)

lemma extends_keeps: "extends s s' \<Longrightarrow> keeps s s'"
  unfolding extends_def keeps_def by force

lemma keeps_config: "keeps s s' \<Longrightarrow> config_at s l \<noteq> None \<Longrightarrow> config_at s' l \<noteq> None"
  by (simp add: keeps_def)

lemma keeps_vars: "keeps s s' \<Longrightarrow> length (mem_vars s') = length (mem_vars s)"
  by (simp add: keeps_def)

lemma keeps_update: "config_at s l \<noteq> None \<Longrightarrow> keeps s (update_at l c s)"
  by (simp add: keeps_def config_at_update mem_vars_update_at)

lemma shrunk_vars: "shrunk s s' \<Longrightarrow> mem_vars s' = mem_vars s"
  by (simp add: shrunk_def)

lemma move_assign_temp_fine:
  assumes r: "room N (P + mset (cfg_refs x)) s" and d: "config_at s l \<noteq> None"
  shows "fine (\<lambda>s'. room N P s' \<and> length (mem_vars s') = length (mem_vars s)) (move_assign_temp l x s)"
proof -
  obtain d0 where d0: "config_at s l = Some d0" using d by auto
  let ?s = "update_at l (fst (swap_assign d0 x)) s"
  have "room N (P + mset (cfg_refs d0)) ?s" using r d0 by (intro room_update_at) (simp_all add: refs_swap_assign)
  then obtain s' where "release (cfg_refs d0) ?s = Inr s'" "room N P s'" "shrunk ?s s'" by (rule release_room)
  then show ?thesis
    using d0 by (simp add: move_assign_temp_def get_at_config put_at_config destroy_def refs_swap_assign shrunk_vars mem_vars_update_at)
qed

lemma move_assign_fine:
  assumes r: "room N P s" and d: "config_at s l \<noteq> None" and d': "config_at s l' \<noteq> None"
  shows "fine (\<lambda>s'. room N P s' \<and> length (mem_vars s') = length (mem_vars s)) (move_assign l l' s)"
proof (cases "l = l'")
  case False
  obtain c c' where c: "config_at s l = Some c" "config_at s l' = Some c'" using d d' by auto
  then have "config_at (update_at l x s) l' = Some c'" for x using False by (simp add: config_at_update)
  moreover have "room N P (update_at l' (snd (swap_assign c c')) (update_at l (fst (swap_assign c c')) s))"
    using r c False by (rule room_update_two) (simp add: refs_swap_assign ac_simps)
  ultimately show ?thesis using c False by (simp add: move_assign_def get_at_config put_at_config mem_vars_update_at)
qed (use r in \<open>simp add: move_assign_def\<close>)

lemma swap_configs_fine:
  assumes r: "room N P s" and d: "config_at s l \<noteq> None" and d': "config_at s l' \<noteq> None"
  shows "fine (\<lambda>s'. room N P s' \<and> length (mem_vars s') = length (mem_vars s)) (swap_configs l l' s)"
proof (cases "l = l'")
  case False
  obtain c c' where c: "config_at s l = Some c" "config_at s l' = Some c'" using d d' by auto
  then have "config_at (update_at l x s) l' = Some c'" for x using False by (simp add: config_at_update)
  moreover have "room N P (update_at l' c (update_at l c' s))"
    using r c False by (rule room_update_two) (simp add: ac_simps)
  ultimately show ?thesis using c False by (simp add: swap_configs_def get_at_config put_at_config mem_vars_update_at)
qed (use r in \<open>simp add: swap_configs_def\<close>)

lemma copy_config_fine:
  assumes r: "room N P s" and c: "set (cfg_refs c) \<subseteq> set_mset (all_refs s + P)" and few: "Suc N < 2 ^ 32"
  shows "fine (\<lambda>(x, s'). room (Suc N) (P + mset (cfg_refs x)) s' \<and> cfg_refs x = cfg_refs c \<and> shrunk s s' \<and> shrunk s' s)
    (copy_config c s)"
proof -
  obtain s' where "add_ref (h_value c) s = Inr s'" "room (Suc N) (P + mset (cfg_refs c)) s'" "shrunk s s'" "shrunk s' s"
    using add_ref_room [OF r c few] by blast
  then show ?thesis by (simp add: copy_config_def)
qed

lemma shrunk_both_config:
  assumes "shrunk s s'" "shrunk s' s" "config_at s l = Some c"
  shows "config_at s' l = Some c"
proof (rule config_at_shrunk [OF assms(1,3)])
  fix a
  assume "owner l = Some a"
  then obtain n b where "block_at s a = Some (n, b)" using config_at_owner [OF assms(3)] by metis
  then show "block_at s' a \<noteq> None" using shrunk_block [OF assms(2)] by fastforce
qed

text \<open>Copying from a variable is safe, wherever it is copied to.\<close>


lemma free_at_fine:
  assumes r: "room N P s" and a: "anchored s l"
  obtains s' d where "free_at l s = Inr s'" "room N P s'" "anchored s' l" "config_at s' l = Some d" "cfg_refs d = []"
    "length (mem_vars s') = length (mem_vars s)" "\<And>i. l \<noteq> Var i \<Longrightarrow> config_at s' (Var i) = config_at s (Var i)"
proof -
  obtain d where d: "config_at s l = Some d" using a by (auto simp: anchored_def)
  let ?d = "d\<lparr>h_value := HUninitialized\<rparr>"
  let ?s = "update_at l ?d s"
  have "room N (P + mset (cfg_refs d)) ?s" using r d by (intro room_update_at) simp_all
  then obtain s' where s': "release (cfg_refs d) ?s = Inr s'" "room N P s'" "shrunk ?s s'" by (rule release_room)
  have c: "config_at ?s l = Some ?d" using d by (simp add: config_at_update)
  note at = anchored_shrunk [OF anchored_update [OF a] c s'(3) room_counted [OF s'(2)]]
  have "config_at s' (Var i) = config_at s (Var i)" if "l \<noteq> Var i" for i
  proof -
    have "config_at s' (Var i) = config_at ?s (Var i)" using s'(3) by (simp add: shrunk_def)
    then show ?thesis using config_at_update [of s l ?d "Var i"] d that by simp
  qed
  then show thesis
    using that [OF _ s'(2) at(2,1)] d s'(1,3)
    by (simp add: free_at_def get_at_config put_at_config shrunk_vars mem_vars_update_at del: config_at.simps)
qed

lemma copy_assign_fine:
  assumes r: "room N P s" and a: "anchored s l" and i: "i < length (mem_vars s)" and few: "Suc N < 2 ^ 32"
  shows "fine (\<lambda>s'. room (Suc N) P s' \<and> length (mem_vars s') = length (mem_vars s)) (copy_assign l (Var i) s)"
proof (cases "l = Var i")
  case True
  then show ?thesis using room_mono [OF r, of "Suc N"] by (simp add: copy_assign_def)
next
  case False
  obtain s1 d where s1: "free_at l s = Inr s1" "room N P s1" "anchored s1 l" "config_at s1 l = Some d" "cfg_refs d = []"
    "length (mem_vars s1) = length (mem_vars s)" "config_at s1 (Var i) = config_at s (Var i)"
    using free_at_fine [OF r a] False by metis
  obtain c where c: "config_at s1 (Var i) = Some c" using i s1(7) by simp
  then have "set (cfg_refs c) \<subseteq> set_mset (all_refs s1 + P)" using config_at_refs [OF c] by auto
  then obtain s2 where s2: "add_ref (h_value c) s1 = Inr s2" "room (Suc N) (P + mset (cfg_refs c)) s2" "shrunk s1 s2" "shrunk s2 s1"
    using add_ref_room [OF s1(2) _ few] by metis
  have d: "config_at s2 l = Some d" using shrunk_both_config [OF s2(3,4) s1(4)] .
  have "room (Suc N) (P + mset (cfg_refs d)) (update_at l (copy_over d c) s2)"
    using s2(2) d by (intro room_update_at) simp_all
  then show ?thesis
    using False s1(1,5,6) s2(1) shrunk_vars [OF s2(3)]
    by (simp add: copy_assign_def get_at_config [OF c] get_at_config [OF d] put_at_config [OF d] mem_vars_update_at)
qed


section \<open>Arrays and objects\<close>

lemma wrong_type_fine:
  assumes "counted P s" "set (cfg_refs c) \<subseteq> set_mset (all_refs s + P)"
  shows "fine Q (h_wrong_type expected c s)"
proof (cases "h_value c")
  case (HBadLookup a)
  then have "(Bad_kind, a) \<in># all_refs s + P" using assms(2) by simp
  then obtain n d l k where "block_at s a = Some (n, BadLookupInfo d l k)" using counted_bad [OF assms(1)] by metis
  then show ?thesis using HBadLookup by (simp add: h_wrong_type_def)
qed (simp_all add: h_wrong_type_def Let_def)

lemma as_array_fine:
  assumes "counted P s" "set (cfg_refs c) \<subseteq> set_mset (all_refs s + P)"
  shows "fine (\<lambda>(a, cs). h_value c = HArray a \<and> (\<exists>n. block_at s a = Some (n, ConfigArray cs))) (h_as_array c s)"
proof (cases "h_value c")
  case (HArray a)
  then have "(Array_kind, a) \<in># all_refs s + P" using assms(2) by simp
  then obtain n cs where "block_at s a = Some (n, ConfigArray cs)" using counted_array [OF assms(1)] by metis
  then show ?thesis using HArray by (simp add: h_as_array_def)
qed (use wrong_type_fine [OF assms] in \<open>simp_all add: h_as_array_def\<close>)

lemma as_object_fine:
  assumes "counted P s" "set (cfg_refs c) \<subseteq> set_mset (all_refs s + P)"
  shows "fine (\<lambda>(a, m). h_value c = HObject a \<and> (\<exists>n. block_at s a = Some (n, ConfigObject m))) (h_as_object c s)"
proof (cases "h_value c")
  case (HObject a)
  then have "(Object_kind, a) \<in># all_refs s + P" using assms(2) by simp
  then obtain n m where "block_at s a = Some (n, ConfigObject m)" using counted_object [OF assms(1)] by metis
  then show ?thesis using HObject by (simp add: h_as_object_def)
qed (use wrong_type_fine [OF assms] in \<open>simp_all add: h_as_object_def\<close>)

lemma config_refs_pending: "config_at s l = Some c \<Longrightarrow> set (cfg_refs c) \<subseteq> set_mset (all_refs s + P)"
  using config_at_refs by fastforce

text \<open>The array, and the object, of the \<open>Config\<close> at a place.\<close>

lemma array_at_place:
  assumes "counted P s" "config_at s l \<noteq> None"
    and "\<And>c a cs n. config_at s l = Some c \<Longrightarrow> h_value c = HArray a \<Longrightarrow> block_at s a = Some (n, ConfigArray cs) \<Longrightarrow>
      fine Q (f c (a, cs))"
  shows "fine Q (bindE (get_at l s) (\<lambda>c. bindE (h_as_array c s) (f c)))"
proof -
  obtain c where c: "config_at s l = Some c" using assms(2) by auto
  have "fine Q (bindE (h_as_array c s) (f c))"
    using as_array_fine [OF assms(1) config_refs_pending [OF c]] by (rule fine_bind) (use assms(3) c in auto)
  then show ?thesis using c by (simp add: get_at_config)
qed

lemma object_at_place:
  assumes "counted P s" "config_at s l \<noteq> None"
    and "\<And>c a m n. config_at s l = Some c \<Longrightarrow> h_value c = HObject a \<Longrightarrow> block_at s a = Some (n, ConfigObject m) \<Longrightarrow>
      fine Q (f c (a, m))"
  shows "fine Q (bindE (get_at l s) (\<lambda>c. bindE (h_as_object c s) (f c)))"
proof -
  obtain c where c: "config_at s l = Some c" using assms(2) by auto
  have "fine Q (bindE (h_as_object c s) (f c))"
    using as_object_fine [OF assms(1) config_refs_pending [OF c]] by (rule fine_bind) (use assms(3) c in auto)
  then show ?thesis using c by (simp add: get_at_config)
qed

lemma set_contents_eq: "block_at s a = Some (n, b) \<Longrightarrow> set_contents a b' s = set_block a (Some (n, b')) s"
  by (simp add: set_contents_def)

lemma array_at_fine:
  assumes "counted P s" "anchored s l"
  shows "fine (anchored s) (h_array_at l ix s)"
  unfolding h_array_at_def
proof (rule array_at_place [OF assms(1)])
  show "config_at s l \<noteq> None" using assms(2) by (simp add: anchored_def)
next
  fix c a cs n
  assume *: "config_at s l = Some c" "h_value c = HArray a" "block_at s a = Some (n, ConfigArray cs)"
  then have "rooted s a" using anchored_refs [OF assms(2), of c Array_kind a] by simp
  then show "fine (anchored s) (case (a, cs) of (a, cs) \<Rightarrow>
      if ix < length cs then Inr (Elem a ix) else Inl (OnError (h_doc c) (h_line c) ''Array index out of range''))"
    using * by (auto simp: anchored_def)
qed

lemma push_back_fine:
  assumes r: "room N (P + mset (cfg_refs x)) s" and l: "config_at s l \<noteq> None"
  shows "fine (\<lambda>s'. room N P s' \<and> length (mem_vars s') = length (mem_vars s)) (h_push_back l x s)"
  unfolding h_push_back_def
proof (rule array_at_place [OF room_counted [OF r] l])
  fix c a cs n
  assume a: "block_at s a = Some (n, ConfigArray cs)"
  have "room N P (set_block a (Some (n, ConfigArray (cs @ [x]))) s)"
    by (rule room_set_contents [OF r a]) (simp_all add: ac_simps)
  then show "fine (\<lambda>s'. room N P s' \<and> length (mem_vars s') = length (mem_vars s))
      (case (a, cs) of (a, cs) \<Rightarrow> Inr (set_contents a (ConfigArray (cs @ [x])) s))"
    using a by (simp add: set_contents_eq)
qed

text \<open>A change of an object that keeps the \<open>Config\<close>s of its members.\<close>

lemma extends_object:
  assumes a: "block_at s a = Some (n, ConfigObject m)"
    and m: "\<And>k e. map_find m k = Some e \<Longrightarrow> \<exists>e'. map_find m' k = Some e' \<and> he_value e' = he_value e"
  shows "extends s (set_block a (Some (n, ConfigObject m')) s)"
proof -
  have "config_at (set_block a (Some (n, ConfigObject m')) s) l = Some c" if "config_at s l = Some c" for l c
  proof (cases l)
    case (Member b k)
    then show ?thesis
      using that a m [of k] by (auto simp: block_at_set_block [OF a] split: option.splits block.splits)
  qed (use that a in \<open>auto simp: block_at_set_block [OF a] split: option.splits block.splits if_splits\<close>)
  then show ?thesis by (simp add: extends_def)
qed

lemma extends_new_block: "extends s (snd (new_block b s))"
proof -
  have "config_at (snd (new_block b s)) l = Some c" if "config_at s l = Some c" for l c
    using that by (cases l) (auto simp: block_at_new_block split: option.splits block.splits if_splits)
  then show ?thesis by (simp add: extends_def)
qed


text \<open>A member is added, and a member is marked.\<close>

lemma object_add:
  assumes r: "room N (P + mset (cfg_refs (he_value e))) s" and a: "block_at s a = Some (n, ConfigObject m)" and k: "map_find m k = None"
  shows "room N P (set_block a (Some (n, ConfigObject (map_set k e m))) s)"
    "extends s (set_block a (Some (n, ConfigObject (map_set k e m))) s)"
proof -
  show "room N P (set_block a (Some (n, ConfigObject (map_set k e m))) s)"
    using object_sums(2) [OF k, of e] counted_wf_object [OF room_counted [OF r] a]
    by (intro room_set_contents [OF r a]) (simp_all add: mset_object_refs map_wf_map_set ac_simps del: block_refs.simps)
  show "extends s (set_block a (Some (n, ConfigObject (map_set k e m))) s)"
    using k by (intro extends_object [OF a]) (auto simp: map_find_map_set)
qed

lemma object_mark:
  assumes r: "room N P s" and a: "block_at s a = Some (n, ConfigObject m)" and k: "map_find m k = Some e"
    and e: "he_value e' = he_value e"
  shows "room N P (set_block a (Some (n, ConfigObject (map_set k e' m))) s)"
    "extends s (set_block a (Some (n, ConfigObject (map_set k e' m))) s)"
proof -
  note wf = counted_wf_object [OF room_counted [OF r] a]
  show "room N P (set_block a (Some (n, ConfigObject (map_set k e' m))) s)"
    using object_sums(1) [OF wf k, of e'] wf e
    by (intro room_set_contents [OF r a]) (simp_all add: mset_object_refs map_wf_map_set del: block_refs.simps)
  show "extends s (set_block a (Some (n, ConfigObject (map_set k e' m))) s)"
    using k e by (intro extends_object [OF a]) (auto simp: map_find_map_set)
qed

lemma member_anchored:
  assumes "anchored s l" "config_at s l = Some c" "h_value c = HObject a" "extends s s'" "config_at s' (Member a k) \<noteq> None"
  shows "anchored s' (Member a k)"
  using anchored_refs [OF assms(1,2), of Object_kind a] assms(3,4,5) by (auto simp: anchored_def intro: rooted_extends)

lemma index_fine:
  assumes r: "room N P s" and l: "anchored s l"
  shows "fine (\<lambda>(l', s'). room (Suc N) P s' \<and> extends s s' \<and> anchored s' l') (h_index l key s)"
  unfolding h_index_def
proof (rule object_at_place [OF room_counted [OF r]])
  show "config_at s l \<noteq> None" using l by (simp add: anchored_def)
next
  fix c a m n
  assume c: "config_at s l = Some c" "h_value c = HObject a" and a: "block_at s a = Some (n, ConfigObject m)"
  note here = member_anchored [OF l c]
  show "fine (\<lambda>(l', s'). room (Suc N) P s' \<and> extends s s' \<and> anchored s' l') (case (a, m) of (a, m) \<Rightarrow>
      case map_find m key of
         None \<Rightarrow>
           let (b, s) = new_block (BadLookupInfo (h_doc c) (h_line c) key) s;
               e = \<lparr>he_value = fresh_config (HBadLookup b), he_nr = length m, he_accessed = False\<rparr>
           in Inr (Member a key, set_contents a (ConfigObject (map_set key e m)) s)
       | Some e \<Rightarrow> Inr (Member a key, set_contents a (ConfigObject (map_set key (e\<lparr>he_accessed := True\<rparr>) m)) s))"
  proof (cases "map_find m key")
    case None
    let ?b = "length (mem_heap s)"
    let ?s = "snd (new_block (BadLookupInfo (h_doc c) (h_line c) key) s)"
    let ?e = "\<lparr>he_value = fresh_config (HBadLookup ?b), he_nr = length m, he_accessed = False\<rparr>"
    have "room (Suc N) (add_mset (Bad_kind, ?b) P) ?s"
      using room_new_block [of N P "BadLookupInfo (h_doc c) (h_line c) key" s] r by simp
    moreover have a': "block_at ?s a = Some (n, ConfigObject m)" using a by (auto simp: block_at_new_block)
    ultimately have s': "room (Suc N) P (set_block a (Some (n, ConfigObject (map_set key ?e m))) ?s)"
        "extends ?s (set_block a (Some (n, ConfigObject (map_set key ?e m))) ?s)"
      using object_add [of "Suc N" P ?e ?s a n m key] None by simp_all
    have "config_at (set_block a (Some (n, ConfigObject (map_set key ?e m))) ?s) (Member a key) \<noteq> None"
      by (simp add: block_at_set_block [OF a'] map_find_map_set)
    then show ?thesis
      using None s' here [OF extends_trans [OF extends_new_block s'(2)]] extends_trans [OF extends_new_block s'(2)]
      by (simp add: Let_def split_def set_contents_eq [OF a']) (simp add: new_block_def)
  next
    case (Some e)
    note s' = object_mark [OF r a Some, of "e\<lparr>he_accessed := True\<rparr>"]
    have "config_at (set_block a (Some (n, ConfigObject (map_set key (e\<lparr>he_accessed := True\<rparr>) m))) s) (Member a key) \<noteq> None"
      by (simp add: block_at_set_block [OF a] map_find_map_set)
    then show ?thesis
      using Some s' here [OF s'(2)] room_mono [of N P _ "Suc N"] by (simp add: set_contents_eq [OF a])
  qed
qed

lemma entry_fine:
  assumes r: "room N P s" and l: "config_at s l \<noteq> None"
  shows "fine (\<lambda>(l', s'). room N P s' \<and> extends s s' \<and> config_at s' l' \<noteq> None) (h_entry l key s)"
  unfolding h_entry_def
proof (rule object_at_place [OF room_counted [OF r] l])
  fix c a m n
  assume a: "block_at s a = Some (n, ConfigObject m)"
  let ?e = "case map_find m key of
      None \<Rightarrow> \<lparr>he_value = fresh_config HUninitialized, he_nr = length m, he_accessed = False\<rparr>
    | Some e \<Rightarrow> e\<lparr>he_accessed := True\<rparr>"
  have "room N P (set_block a (Some (n, ConfigObject (map_set key ?e m))) s)"
    "extends s (set_block a (Some (n, ConfigObject (map_set key ?e m))) s)"
    using object_add [OF _ a, of N P ?e key] object_mark [OF r a, of key _ ?e] r by (auto split: option.splits)
  then show "fine (\<lambda>(l', s'). room N P s' \<and> extends s s' \<and> config_at s' l' \<noteq> None) (case (a, m) of (a, m) \<Rightarrow>
      let e = (case map_find m key of
          None \<Rightarrow> \<lparr>he_value = fresh_config HUninitialized, he_nr = length m, he_accessed = False\<rparr>
        | Some e \<Rightarrow> e\<lparr>he_accessed := True\<rparr>)
      in Inr (Member a key, set_contents a (ConfigObject (map_set key e m)) s))"
    by (simp add: Let_def set_contents_eq [OF a] block_at_set_block [OF a] map_find_map_set)
qed

lemma insert_temp_fine:
  assumes r: "room N (P + mset (cfg_refs x)) s" and l: "config_at s l \<noteq> None"
  shows "fine (\<lambda>s'. room N P s' \<and> length (mem_vars s') = length (mem_vars s)) (h_insert_or_assign_temp l key x s)"
  unfolding h_insert_or_assign_temp_def
  by (rule fine_bind [OF entry_fine [OF r l]])
    (auto simp: extends_def intro!: fine_mono [OF move_assign_temp_fine])

lemma insert_fine:
  assumes r: "room N P s" and l: "config_at s l \<noteq> None" "config_at s l' \<noteq> None"
  shows "fine (\<lambda>s'. room N P s' \<and> length (mem_vars s') = length (mem_vars s)) (h_insert_or_assign l key l' s)"
  unfolding h_insert_or_assign_def
  by (rule fine_bind [OF entry_fine [OF r l(1)]])
    (use l(2) in \<open>auto simp: extends_def intro!: fine_mono [OF move_assign_fine]\<close>)

lemma destroy_fine:
  assumes "room N (P + mset (cfg_refs x)) s"
  shows "fine (\<lambda>s'. room N P s' \<and> length (mem_vars s') = length (mem_vars s)) (destroy x s)"
proof -
  obtain s' where "release (cfg_refs x) s = Inr s'" "room N P s'" "shrunk s s'" using release_room [OF assms] .
  then show ?thesis by (simp add: destroy_def shrunk_vars)
qed

lemma emplace_fine:
  assumes r: "room N (P + mset (cfg_refs x)) s" and l: "config_at s l \<noteq> None"
  shows "fine (\<lambda>s'. room N P s' \<and> length (mem_vars s') = length (mem_vars s)) (h_emplace l key x s)"
  unfolding h_emplace_def
proof (rule object_at_place [OF room_counted [OF r] l])
  fix c a m n
  assume a: "block_at s a = Some (n, ConfigObject m)"
  show "fine (\<lambda>s'. room N P s' \<and> length (mem_vars s') = length (mem_vars s)) (case (a, m) of (a, m) \<Rightarrow>
      case map_find m key of
         None \<Rightarrow> Inr (set_contents a (ConfigObject
                   (map_set key \<lparr>he_value = x, he_nr = length m, he_accessed = False\<rparr> m)) s)
       | Some _ \<Rightarrow> destroy x s)"
    using object_add(1) [OF _ a, of N P "\<lparr>he_value = x, he_nr = length m, he_accessed = False\<rparr>" key] r destroy_fine [OF r]
    by (auto simp: set_contents_eq [OF a] split: option.splits)
qed

lemma erase_fine:
  assumes r: "room N P s" and l: "config_at s l \<noteq> None"
  shows "fine (\<lambda>s'. room N P s' \<and> length (mem_vars s') = length (mem_vars s)) (h_erase l key s)"
  unfolding h_erase_def
proof (rule object_at_place [OF room_counted [OF r] l])
  fix c a m n
  assume a: "block_at s a = Some (n, ConfigObject m)"
  note wf = counted_wf_object [OF room_counted [OF r] a]
  have "room N (P + mset (cfg_refs (he_value e))) (set_block a (Some (n, ConfigObject (map_erase key m))) s)"
    if "map_find m key = Some e" for e
    using object_sums(3) [OF wf that] wf
    by (intro room_set_contents [OF r a]) (simp_all add: mset_object_refs map_wf_map_erase ac_simps del: block_refs.simps)
  then show "fine (\<lambda>s'. room N P s' \<and> length (mem_vars s') = length (mem_vars s)) (case (a, m) of (a, m) \<Rightarrow>
      case map_find m key of
         None \<Rightarrow> Inr s
       | Some e \<Rightarrow> destroy (he_value e) (set_contents a (ConfigObject (map_erase key m)) s))"
    using r by (auto simp: set_contents_eq [OF a] split: option.splits intro!: fine_mono [OF destroy_fine])
qed



section \<open>Programs\<close>

primrec root_of :: "place \<Rightarrow> nat" where
  "root_of (Variable i) = i"
| "root_of (Key p k) = root_of p"
| "root_of (Ix p i) = root_of p"

primrec place_size :: "place \<Rightarrow> nat" where
  "place_size (Variable i) = 0"
| "place_size (Key p k) = Suc (place_size p)"
| "place_size (Ix p i) = place_size p"

text \<open>A statement mentions declared variables only, and a literal has no array or object.\<close>

fun temp_ok :: "nat \<Rightarrow> 'f temporary \<Rightarrow> bool" where
  "temp_ok n (Literal v) \<longleftrightarrow> val_refs v = []"
| "temp_ok n (Copy p) \<longleftrightarrow> root_of p < n"
| "temp_ok n (Move p) \<longleftrightarrow> root_of p < n"
| "temp_ok n _ \<longleftrightarrow> True"

text \<open>What is assigned as a whole, without a copy or a move, is a variable.\<close>

fun stmt_ok :: "nat \<Rightarrow> 'f stmt \<Rightarrow> bool" where
  "stmt_ok n (Declare x) \<longleftrightarrow> temp_ok n x"
| "stmt_ok n End_of_life \<longleftrightarrow> 0 < n"
| "stmt_ok n (Assign p q) \<longleftrightarrow> root_of p < n \<and> (case q of Variable i \<Rightarrow> i < n | _ \<Rightarrow> False)"
| "stmt_ok n (Assign_move p q) \<longleftrightarrow> root_of p < n \<and> root_of q < n"
| "stmt_ok n (Assign_temp p x) \<longleftrightarrow> root_of p < n \<and> temp_ok n x"
| "stmt_ok n (Swap_places p q) \<longleftrightarrow> root_of p < n \<and> root_of q < n"
| "stmt_ok n (Push_back p x) \<longleftrightarrow> root_of p < n \<and> temp_ok n x"
| "stmt_ok n (Insert p k x) \<longleftrightarrow> root_of p < n \<and> temp_ok n x"
| "stmt_ok n (Insert_move p k q) \<longleftrightarrow> root_of p < n \<and> root_of q < n"
| "stmt_ok n (Emplace_at p k x) \<longleftrightarrow> root_of p < n \<and> temp_ok n x"
| "stmt_ok n (Erase_key p k) \<longleftrightarrow> root_of p < n"

fun vars_after :: "nat \<Rightarrow> 'f stmt \<Rightarrow> nat" where
  "vars_after n (Declare _) = Suc n"
| "vars_after n End_of_life = n - 1"
| "vars_after n _ = n"

fun program_ok :: "nat \<Rightarrow> 'f stmt list \<Rightarrow> bool" where
  "program_ok n [] = True"
| "program_ok n (st # sts) \<longleftrightarrow> stmt_ok n st \<and> program_ok (vars_after n st) sts"

text \<open>How many references a statement adds at most.\<close>

fun temp_cost :: "'f temporary \<Rightarrow> nat" where
  "temp_cost (Literal _) = 0"
| "temp_cost (Copy p) = Suc (place_size p)"
| "temp_cost (Move p) = place_size p"
| "temp_cost _ = 1"

fun stmt_cost :: "'f stmt \<Rightarrow> nat" where
  "stmt_cost (Declare x) = temp_cost x"
| "stmt_cost End_of_life = 0"
| "stmt_cost (Assign p q) = Suc (place_size p + place_size q)"
| "stmt_cost (Assign_move p q) = place_size p + place_size q"
| "stmt_cost (Assign_temp p x) = place_size p + temp_cost x"
| "stmt_cost (Swap_places p q) = place_size p + place_size q"
| "stmt_cost (Push_back p x) = place_size p + temp_cost x"
| "stmt_cost (Insert p _ x) = place_size p + temp_cost x"
| "stmt_cost (Insert_move p _ q) = place_size p + place_size q"
| "stmt_cost (Emplace_at p _ x) = place_size p + temp_cost x"
| "stmt_cost (Erase_key p _) = place_size p"

definition program_cost :: "'f stmt list \<Rightarrow> nat" where
  "program_cost sts = sum_list (map stmt_cost sts)"

lemma place_at_fine:
  assumes "room N P s" "root_of p < length (mem_vars s)"
  shows "fine (\<lambda>(l, s'). room (N + place_size p) P s' \<and> extends s s' \<and> anchored s' l) (place_at p s)"
  using assms
proof (induction p)
  case (Variable i)
  then show ?case by (simp add: extends_refl anchored_def)
next
  case (Key p k)
  show ?case unfolding place_at.simps
    by (rule fine_bind [OF Key.IH]) (use Key.prems in \<open>auto intro!: fine_mono [OF index_fine] elim: extends_trans\<close>)
next
  case (Ix p i)
  show ?case unfolding place_at.simps
  proof (rule fine_bind [OF Ix.IH])
    fix y
    assume y: "case y of (l, s') \<Rightarrow> room (N + place_size p) P s' \<and> extends s s' \<and> anchored s' l"
    then show "fine (\<lambda>(l, s'). room (N + place_size (Ix p i)) P s' \<and> extends s s' \<and> anchored s' l)
        (case y of (l, s) \<Rightarrow> bindE (h_array_at l i s) (\<lambda>l'. Inr (l', s)))"
      by (auto intro!: fine_bind [OF array_at_fine [OF room_counted]])
  qed (use Ix.prems in auto)
qed

lemma extends_vars: "extends s s' \<Longrightarrow> length (mem_vars s') = length (mem_vars s)"
  by (simp add: extends_def)

lemma temp_fine:
  assumes r: "room N P s" and ok: "temp_ok (length (mem_vars s)) x" and few: "N + temp_cost x < 2 ^ 32"
  shows "fine (\<lambda>(c, s'). room (N + temp_cost x) (P + mset (cfg_refs c)) s' \<and> keeps s s') (temp_of x s)"
proof (cases x)
  case (Literal v)
  then show ?thesis using r ok by (simp add: keeps_refl)
next
  case New_object
  have "extends s (snd (new_block (ConfigObject []) s))" by (rule extends_new_block)
  then show ?thesis
    using New_object room_new_block [of N P "ConfigObject []" s] r
    by (auto simp: object_config_def Let_def split_def new_block_def intro: extends_keeps)
next
  case New_array
  have "extends s (snd (new_block (ConfigArray []) s))" by (rule extends_new_block)
  then show ?thesis
    using New_array room_new_block [of N P "ConfigArray []" s] r
    by (auto simp: array_config_def Let_def split_def new_block_def intro: extends_keeps)
next
  case (Copy p)
  show ?thesis unfolding Copy temp_of.simps
  proof (rule fine_bind [OF place_at_fine [OF r]])
    fix y
    assume "case y of (l, s') \<Rightarrow> room (N + place_size p) P s' \<and> extends s s' \<and> anchored s' l"
    then obtain l s1 c where y: "y = (l, s1)" and s1: "room (N + place_size p) P s1" "extends s s1" "config_at s1 l = Some c"
      by (auto simp: anchored_def)
    have "keeps s1 s2" if "shrunk s1 s2" "shrunk s2 s1" for s2 :: "'a memory"
      using shrunk_both_config [OF that] shrunk_vars [OF that(1)] by (fastforce simp: keeps_def)
    then show "fine (\<lambda>(c, s'). room (N + temp_cost (Copy p)) (P + mset (cfg_refs c)) s' \<and> keeps s s')
        (case y of (l, s) \<Rightarrow> bindE (get_at l s) (\<lambda>c. copy_config c s))"
      using copy_config_fine [OF s1(1) config_refs_pending [OF s1(3)]] few y s1 Copy extends_keeps [OF s1(2)]
      by (auto simp: get_at_config intro!: fine_mono [OF copy_config_fine [OF s1(1) config_refs_pending [OF s1(3)]]] elim: keeps_trans)
  qed (use ok Copy in simp)
next
  case (Move p)
  show ?thesis unfolding Move temp_of.simps
  proof (rule fine_bind [OF place_at_fine [OF r]])
    fix y
    assume "case y of (l, s') \<Rightarrow> room (N + place_size p) P s' \<and> extends s s' \<and> anchored s' l"
    then obtain l s1 c where y: "y = (l, s1)" and s1: "room (N + place_size p) P s1" "extends s s1" "config_at s1 l = Some c"
      by (auto simp: anchored_def)
    have "room (N + place_size p) (P + mset (cfg_refs c)) (update_at l (fresh_config HUninitialized) s1)"
      using s1 by (intro room_update_at) simp_all
    moreover have "keeps s (update_at l (fresh_config HUninitialized) s1)"
      using keeps_trans [OF extends_keeps [OF s1(2)] keeps_update] s1(3) by fastforce
    ultimately show "fine (\<lambda>(c, s'). room (N + temp_cost (Move p)) (P + mset (cfg_refs c)) s' \<and> keeps s s')
        (case y of (l, s) \<Rightarrow> take_config l s)"
      using y s1 by (simp add: take_config_def get_at_config put_at_config)
  qed (use ok Move in simp)
qed

text \<open>A place is evaluated, and then a temporary, or another place.\<close>

lemma place_then_temp:
  fixes f :: "loc \<Rightarrow> 'f hconfig \<Rightarrow> 'f memory \<Rightarrow> 'f memory cfg"
  assumes r: "room N {#} s" and p: "root_of p < length (mem_vars s)" "temp_ok (length (mem_vars s)) x"
    and few: "N + (place_size p + temp_cost x) < 2 ^ 32"
    and op: "\<And>l c s'. room (N + (place_size p + temp_cost x)) (mset (cfg_refs c)) s' \<Longrightarrow> config_at s' l \<noteq> None \<Longrightarrow>
      fine (\<lambda>s''. room (N + (place_size p + temp_cost x)) {#} s'' \<and> length (mem_vars s'') = length (mem_vars s')) (f l c s')"
  shows "fine (\<lambda>s'. room (N + (place_size p + temp_cost x)) {#} s' \<and> length (mem_vars s') = length (mem_vars s))
    (bindE (place_at p s) (\<lambda>(l, s). bindE (temp_of x s) (\<lambda>(c, s). f l c s)))"
proof (rule fine_bind [OF place_at_fine [OF r p(1)]])
  fix y :: "loc \<times> 'f memory"
  assume "case y of (l, s') \<Rightarrow> room (N + place_size p) {#} s' \<and> extends s s' \<and> anchored s' l"
  then obtain l s1 where y: "y = (l, s1)" and s1: "room (N + place_size p) {#} s1" "extends s s1" "config_at s1 l \<noteq> None"
    by (auto simp: anchored_def)
  have "fine (\<lambda>s'. room (N + (place_size p + temp_cost x)) {#} s' \<and> length (mem_vars s') = length (mem_vars s))
      (bindE (temp_of x s1) (\<lambda>(c, s). f l c s))"
  proof (rule fine_bind [OF temp_fine [OF s1(1)]])
    fix z :: "'f hconfig \<times> 'f memory"
    assume "case z of (c, s') \<Rightarrow> room (N + place_size p + temp_cost x) ({#} + mset (cfg_refs c)) s' \<and> keeps s1 s'"
    then obtain c s2 where z: "z = (c, s2)"
        and s2: "room (N + (place_size p + temp_cost x)) (mset (cfg_refs c)) s2" "keeps s1 s2"
      by (auto simp: ac_simps)
    show "fine (\<lambda>s'. room (N + (place_size p + temp_cost x)) {#} s' \<and> length (mem_vars s') = length (mem_vars s))
        (case z of (c, s) \<Rightarrow> f l c s)"
      using op [OF s2(1) keeps_config [OF s2(2) s1(3)]] extends_vars [OF s1(2)] keeps_vars [OF s2(2)] z by simp
  qed (use p few extends_vars [OF s1(2)] in auto)
  then show "fine (\<lambda>s'. room (N + (place_size p + temp_cost x)) {#} s' \<and> length (mem_vars s') = length (mem_vars s))
      (case y of (l, s) \<Rightarrow> bindE (temp_of x s) (\<lambda>(c, s). f l c s))" using y by simp
qed

lemma place_then_place:
  fixes f :: "loc \<Rightarrow> loc \<Rightarrow> 'f memory \<Rightarrow> 'f memory cfg"
  assumes r: "room N {#} s" and p: "root_of p < length (mem_vars s)" "root_of q < length (mem_vars s)"
    and op: "\<And>l l' s'. room (N + (place_size p + place_size q)) {#} s' \<Longrightarrow> config_at s' l \<noteq> None \<Longrightarrow> config_at s' l' \<noteq> None \<Longrightarrow>
      fine (\<lambda>s''. room (N + (place_size p + place_size q)) {#} s'' \<and> length (mem_vars s'') = length (mem_vars s')) (f l l' s')"
  shows "fine (\<lambda>s'. room (N + (place_size p + place_size q)) {#} s' \<and> length (mem_vars s') = length (mem_vars s))
    (bindE (place_at p s) (\<lambda>(l, s). bindE (place_at q s) (\<lambda>(l', s). f l l' s)))"
proof (rule fine_bind [OF place_at_fine [OF r p(1)]])
  fix y :: "loc \<times> 'f memory"
  assume "case y of (l, s') \<Rightarrow> room (N + place_size p) {#} s' \<and> extends s s' \<and> anchored s' l"
  then obtain l s1 where y: "y = (l, s1)" and s1: "room (N + place_size p) {#} s1" "extends s s1" "config_at s1 l \<noteq> None"
    by (auto simp: anchored_def)
  have "fine (\<lambda>s'. room (N + (place_size p + place_size q)) {#} s' \<and> length (mem_vars s') = length (mem_vars s))
      (bindE (place_at q s1) (\<lambda>(l', s). f l l' s))"
  proof (rule fine_bind [OF place_at_fine [OF s1(1)]])
    fix z :: "loc \<times> 'f memory"
    assume "case z of (l', s') \<Rightarrow> room (N + place_size p + place_size q) {#} s' \<and> extends s1 s' \<and> anchored s' l'"
    then obtain l' s2 where z: "z = (l', s2)" and s2: "room (N + (place_size p + place_size q)) {#} s2" "extends s1 s2"
        "config_at s2 l' \<noteq> None"
      by (auto simp: ac_simps anchored_def)
    show "fine (\<lambda>s'. room (N + (place_size p + place_size q)) {#} s' \<and> length (mem_vars s') = length (mem_vars s))
        (case z of (l', s) \<Rightarrow> f l l' s)"
      using op [OF s2(1) keeps_config [OF extends_keeps [OF s2(2)] s1(3)] s2(3)]
        extends_vars [OF s1(2)] extends_vars [OF s2(2)] z by simp
  qed (use p extends_vars [OF s1(2)] in auto)
  then show "fine (\<lambda>s'. room (N + (place_size p + place_size q)) {#} s' \<and> length (mem_vars s') = length (mem_vars s))
      (case y of (l, s) \<Rightarrow> bindE (place_at q s) (\<lambda>(l', s). f l l' s))" using y by simp
qed


lemma temp_then_place:
  fixes f :: "'f hconfig \<Rightarrow> loc \<Rightarrow> 'f memory \<Rightarrow> 'f memory cfg"
  assumes r: "room N {#} s" and p: "root_of p < length (mem_vars s)" "temp_ok (length (mem_vars s)) x"
    and few: "N + (place_size p + temp_cost x) < 2 ^ 32"
    and op: "\<And>l c s'. room (N + (place_size p + temp_cost x)) (mset (cfg_refs c)) s' \<Longrightarrow> config_at s' l \<noteq> None \<Longrightarrow>
      fine (\<lambda>s''. room (N + (place_size p + temp_cost x)) {#} s'' \<and> length (mem_vars s'') = length (mem_vars s')) (f c l s')"
  shows "fine (\<lambda>s'. room (N + (place_size p + temp_cost x)) {#} s' \<and> length (mem_vars s') = length (mem_vars s))
    (bindE (temp_of x s) (\<lambda>(c, s). bindE (place_at p s) (\<lambda>(l, s). f c l s)))"
proof (rule fine_bind [OF temp_fine [OF r p(2)]])
  fix y :: "'f hconfig \<times> 'f memory"
  assume "case y of (c, s') \<Rightarrow> room (N + temp_cost x) ({#} + mset (cfg_refs c)) s' \<and> keeps s s'"
  then obtain c s1 where y: "y = (c, s1)" and s1: "room (N + temp_cost x) (mset (cfg_refs c)) s1" "keeps s s1" by auto
  have "fine (\<lambda>s'. room (N + (place_size p + temp_cost x)) {#} s' \<and> length (mem_vars s') = length (mem_vars s))
      (bindE (place_at p s1) (\<lambda>(l, s). f c l s))"
  proof (rule fine_bind [OF place_at_fine [OF s1(1)]])
    fix z :: "loc \<times> 'f memory"
    assume "case z of (l, s') \<Rightarrow> room (N + temp_cost x + place_size p) (mset (cfg_refs c)) s' \<and> extends s1 s' \<and> anchored s' l"
    then obtain l s2 where z: "z = (l, s2)" and s2: "room (N + (place_size p + temp_cost x)) (mset (cfg_refs c)) s2"
        "extends s1 s2" "config_at s2 l \<noteq> None"
      by (auto simp: ac_simps anchored_def)
    show "fine (\<lambda>s'. room (N + (place_size p + temp_cost x)) {#} s' \<and> length (mem_vars s') = length (mem_vars s))
        (case z of (l, s) \<Rightarrow> f c l s)"
      using op [OF s2(1,3)] keeps_vars [OF s1(2)] extends_vars [OF s2(2)] z by simp
  qed (use p keeps_vars [OF s1(2)] in auto)
  then show "fine (\<lambda>s'. room (N + (place_size p + temp_cost x)) {#} s' \<and> length (mem_vars s') = length (mem_vars s))
      (case y of (c, s) \<Rightarrow> bindE (place_at p s) (\<lambda>(l, s). f c l s))" using y by simp
qed (use few in simp)

lemma declare_fine:
  fixes s :: "'f memory"
  assumes r: "room N {#} s" and ok: "temp_ok (length (mem_vars s)) x" and few: "N + temp_cost x < 2 ^ 32"
  shows "fine (\<lambda>s'. room (N + temp_cost x) {#} s' \<and> length (mem_vars s') = Suc (length (mem_vars s))) (exec (Declare x) s)"
  unfolding exec.simps
proof (rule fine_bind [OF temp_fine [OF r ok few]])
  fix y :: "'f hconfig \<times> 'f memory"
  assume "case y of (c, s') \<Rightarrow> room (N + temp_cost x) ({#} + mset (cfg_refs c)) s' \<and> keeps s s'"
  then obtain c s1 where y: "y = (c, s1)" and s1: "room (N + temp_cost x) (mset (cfg_refs c)) s1" "keeps s s1" by auto
  have "room (N + temp_cost x) {#} (s1\<lparr>mem_vars := mem_vars s1 @ [c]\<rparr>)"
    by (rule room_vars [OF s1(1)]) (simp_all add: all_refs_def ac_simps)
  then show "fine (\<lambda>s'. room (N + temp_cost x) {#} s' \<and> length (mem_vars s') = Suc (length (mem_vars s)))
      (case y of (c, s) \<Rightarrow> Inr (s\<lparr>mem_vars := mem_vars s @ [c]\<rparr>))"
    using y keeps_vars [OF s1(2)] by simp
qed

lemma end_of_life_fine:
  fixes s :: "'f memory"
  assumes r: "room N {#} s" and n: "0 < length (mem_vars s)"
  shows "fine (\<lambda>s'. room N {#} s' \<and> length (mem_vars s') = length (mem_vars s) - 1) (exec End_of_life s)"
proof -
  obtain vs c where vs: "mem_vars s = vs @ [c]" using n by (cases "mem_vars s" rule: rev_cases) auto
  have "room N ({#} + mset (cfg_refs c)) (s\<lparr>mem_vars := vs\<rparr>)"
    by (rule room_vars [OF r]) (simp_all add: all_refs_def vs ac_simps)
  then show ?thesis using vs destroy_fine [of N "{#}" c "s\<lparr>mem_vars := vs\<rparr>"] by simp
qed

lemma assign_fine:
  fixes s :: "'f memory"
  assumes r: "room N {#} s" and p: "root_of p < length (mem_vars s)" "i < length (mem_vars s)"
    and few: "N + Suc (place_size p) < 2 ^ 32"
  shows "fine (\<lambda>s'. room (N + Suc (place_size p)) {#} s' \<and> length (mem_vars s') = length (mem_vars s))
    (exec (Assign p (Variable i)) s)"
proof -
  have "fine (\<lambda>s'. room (N + Suc (place_size p)) {#} s' \<and> length (mem_vars s') = length (mem_vars s))
      (bindE (place_at p s) (\<lambda>(dst, s). copy_assign dst (Var i) s))"
  proof (rule fine_bind [OF place_at_fine [OF r p(1)]])
    fix y :: "loc \<times> 'f memory"
    assume "case y of (l, s') \<Rightarrow> room (N + place_size p) {#} s' \<and> extends s s' \<and> anchored s' l"
    then obtain l s1 where y: "y = (l, s1)" and s1: "room (N + place_size p) {#} s1" "extends s s1" "anchored s1 l" by auto
    show "fine (\<lambda>s'. room (N + Suc (place_size p)) {#} s' \<and> length (mem_vars s') = length (mem_vars s))
        (case y of (dst, s) \<Rightarrow> copy_assign dst (Var i) s)"
      using copy_assign_fine [OF s1(1,3), of i] p(2) few extends_vars [OF s1(2)] y by simp
  qed
  then show ?thesis by simp
qed

lemma exec_fine:
  fixes s :: "'f memory"
  assumes r: "room N {#} s" and ok: "stmt_ok (length (mem_vars s)) st" and few: "N + stmt_cost st < 2 ^ 32"
  shows "fine (\<lambda>s'. room (N + stmt_cost st) {#} s' \<and> length (mem_vars s') = vars_after (length (mem_vars s)) st) (exec st s)"
proof (cases st)
  case (Declare x)
  then show ?thesis using declare_fine [OF r] ok few by simp
next
  case End_of_life
  then show ?thesis using end_of_life_fine [OF r] ok by simp
next
  case (Assign p q)
  then obtain i where "q = Variable i" "i < length (mem_vars s)" using ok by (cases q) auto
  then show ?thesis using Assign assign_fine [OF r, of p i] ok few by simp
next
  case (Assign_move p q)
  have "fine (\<lambda>s'. room (N + (place_size q + place_size p)) {#} s' \<and> length (mem_vars s') = length (mem_vars s))
      (bindE (place_at q s) (\<lambda>(l, s). bindE (place_at p s) (\<lambda>(l', s). move_assign l' l s)))"
    by (rule place_then_place [OF r]) (use ok Assign_move in \<open>simp_all add: move_assign_fine\<close>)
  then show ?thesis using Assign_move by (simp add: add.commute [of "place_size p"])
next
  case (Assign_temp p x)
  have "fine (\<lambda>s'. room (N + (place_size p + temp_cost x)) {#} s' \<and> length (mem_vars s') = length (mem_vars s))
      (bindE (temp_of x s) (\<lambda>(c, s). bindE (place_at p s) (\<lambda>(l, s). move_assign_temp l c s)))"
    by (rule temp_then_place [OF r]) (use ok few Assign_temp in \<open>simp_all add: move_assign_temp_fine [of _ "{#}", simplified]\<close>)
  then show ?thesis using Assign_temp by simp
next
  case (Swap_places p q)
  have "fine (\<lambda>s'. room (N + (place_size p + place_size q)) {#} s' \<and> length (mem_vars s') = length (mem_vars s))
      (bindE (place_at p s) (\<lambda>(l, s). bindE (place_at q s) (\<lambda>(l', s). swap_configs l l' s)))"
    by (rule place_then_place [OF r]) (use ok few Swap_places in \<open>simp_all add: swap_configs_fine\<close>)
  then show ?thesis using Swap_places by simp
next
  case (Push_back p x)
  have "fine (\<lambda>s'. room (N + (place_size p + temp_cost x)) {#} s' \<and> length (mem_vars s') = length (mem_vars s))
      (bindE (place_at p s) (\<lambda>(l, s). bindE (temp_of x s) (\<lambda>(c, s). h_push_back l c s)))"
    by (rule place_then_temp [OF r]) (use ok few Push_back in \<open>simp_all add: push_back_fine [of _ "{#}", simplified]\<close>)
  then show ?thesis using Push_back by simp
next
  case (Insert p k x)
  have "fine (\<lambda>s'. room (N + (place_size p + temp_cost x)) {#} s' \<and> length (mem_vars s') = length (mem_vars s))
      (bindE (place_at p s) (\<lambda>(l, s). bindE (temp_of x s) (\<lambda>(c, s). h_insert_or_assign_temp l k c s)))"
    by (rule place_then_temp [OF r]) (use ok few Insert in \<open>simp_all add: insert_temp_fine [of _ "{#}", simplified]\<close>)
  then show ?thesis using Insert by simp
next
  case (Insert_move p k q)
  have "fine (\<lambda>s'. room (N + (place_size p + place_size q)) {#} s' \<and> length (mem_vars s') = length (mem_vars s))
      (bindE (place_at p s) (\<lambda>(l, s). bindE (place_at q s) (\<lambda>(l', s). h_insert_or_assign l k l' s)))"
    by (rule place_then_place [OF r]) (use ok few Insert_move in \<open>simp_all add: insert_fine\<close>)
  then show ?thesis using Insert_move by simp
next
  case (Emplace_at p k x)
  have "fine (\<lambda>s'. room (N + (place_size p + temp_cost x)) {#} s' \<and> length (mem_vars s') = length (mem_vars s))
      (bindE (place_at p s) (\<lambda>(l, s). bindE (temp_of x s) (\<lambda>(c, s). h_emplace l k c s)))"
    by (rule place_then_temp [OF r]) (use ok few Emplace_at in \<open>simp_all add: emplace_fine [of _ "{#}", simplified]\<close>)
  then show ?thesis using Emplace_at by simp
next
  case (Erase_key p k)
  have "fine (\<lambda>s'. room (N + place_size p) {#} s' \<and> length (mem_vars s') = length (mem_vars s))
      (bindE (place_at p s) (\<lambda>(l, s). h_erase l k s))"
    by (rule fine_bind [OF place_at_fine [OF r]])
      (use ok Erase_key in \<open>auto simp: anchored_def extends_def intro!: fine_mono [OF erase_fine]\<close>)
  then show ?thesis using Erase_key by simp
qed

lemma exec_all_fine:
  fixes s :: "'f memory"
  shows "room N {#} s \<Longrightarrow> program_ok (length (mem_vars s)) sts \<Longrightarrow> N + program_cost sts < 2 ^ 32 \<Longrightarrow>
   fine (\<lambda>s'. room (N + program_cost sts) {#} s') (exec_all sts s)"
proof (induction sts arbitrary: N s)
  case (Cons st sts)
  show ?case unfolding exec_all.simps
  proof (rule fine_bind [OF exec_fine [OF Cons.prems(1)]])
    fix s1 :: "'f memory"
    assume "room (N + stmt_cost st) {#} s1 \<and> length (mem_vars s1) = vars_after (length (mem_vars s)) st"
    then show "fine (\<lambda>s'. room (N + program_cost (st # sts)) {#} s') (exec_all sts s1)"
      using Cons.IH [of "N + stmt_cost st" s1] Cons.prems by (simp add: program_cost_def ac_simps)
  qed (use Cons.prems in \<open>simp_all add: program_cost_def\<close>)
qed (simp add: program_cost_def)

lemma room_empty: "room 0 {#} empty_memory"
  by (auto simp: room_def counted_def empty_memory_def all_refs_def tally_def block_at_def)


text \<open>
  C25: programs that use \<open>Config\<close>s are memory safe: a program that mentions declared variables only, that
  assigns a \<open>Config\<close> without a copy only from a variable, and that makes fewer than 2^32 references ends with an error that
  the library reports, or in a memory where each block has the counter that is the number of references to it
  and no reference leads to a deleted block.
\<close>

theorem programs_are_memory_safe:
  assumes "program_ok 0 sts" "program_cost sts < 2 ^ 32"
  shows "(\<exists>s. exec_all sts empty_memory = Inr s \<and> counted {#} s) \<or>
    (\<exists>doc line msg. exec_all sts empty_memory = Inl (OnError doc line msg))"
proof -
  have "fine (\<lambda>s. room (0 + program_cost sts) {#} s) (exec_all sts empty_memory)"
    using room_empty by (rule exec_all_fine) (use assms in \<open>simp_all add: empty_memory_def\<close>)
  then show ?thesis by (auto simp: fine_def room_def split: sum.splits cfg_error.splits)
qed

text \<open>Two variables share an object; a member is added through one of them, and both end.\<close>

definition sharing_program :: "nat stmt list" where
  "sharing_program =
     [Declare New_object, Declare (Copy (Variable 0)), Insert (Variable 1) ''x'' New_array,
      Push_back (Key (Variable 0) ''x'') (Literal (HInt 3)), Assign (Key (Variable 0) ''y'') (Variable 1),
      Erase_key (Variable 0) ''y'', Declare (Move (Key (Variable 1) ''x'')), End_of_life, End_of_life, End_of_life]"

lemma exec_all_Cons: "exec st s = Inr s1 \<Longrightarrow> exec_all (st # sts) s = exec_all sts s1"
  by simp

lemma sharing_program_runs: "exec_all sharing_program empty_memory = Inr \<lparr>mem_vars = [], mem_heap = [None, None, None]\<rparr>"
  by code_simp

theorem programs_are_memory_safe_witness:
  "\<exists>s. exec_all sharing_program empty_memory = Inr s \<and> counted {#} s"
proof -
  have "program_ok 0 sharing_program" "program_cost sharing_program < 2 ^ 32"
    by (simp_all add: sharing_program_def program_cost_def)
  from programs_are_memory_safe [OF this] show ?thesis by (simp add: sharing_program_runs)
qed


section \<open>Leaks\<close>

definition points_to :: "'f memory \<Rightarrow> (addr \<times> addr) set" where
  "points_to s = {(a, b). \<exists>n blk k. block_at s a = Some (n, blk) \<and> (k, b) \<in> set (block_refs blk)}"

lemma live_finite: "finite {a. block_at s a \<noteq> None}"
  by (rule finite_subset [of _ "{..<length (mem_heap s)}"]) (auto simp: block_at_def split: if_splits)

lemma in_sum_list: "x \<in># sum_list (map f xs) \<Longrightarrow> \<exists>y\<in>set xs. x \<in># f y"
  by (induction xs) auto

lemma live_is_referred:
  assumes c: "counted {#} s" and v: "mem_vars s = []" and a: "block_at s a = Some (n, b)"
  shows "\<exists>a'. block_at s a' \<noteq> None \<and> (a', a) \<in> points_to s"
proof -
  have "unat n = count (all_refs s) (kind_of b, a)"
    using counted_count [OF c, of "(kind_of b, a)"] a by (simp add: tally_def)
  moreover have "n \<noteq> 0" using counted_block [OF c a] by simp
  ultimately have "(kind_of b, a) \<in># all_refs s" by (metis count_eq_zero_iff unat_eq_zero)
  then obtain x where x: "x \<in> set (mem_heap s)" "(kind_of b, a) \<in># slot_refs x"
    using in_sum_list [of _ slot_refs "mem_heap s"] by (auto simp: all_refs_def v)
  then obtain a' where "a' < length (mem_heap s)" "mem_heap s ! a' = x" by (auto simp: in_set_conv_nth)
  then show ?thesis using x(2) by (intro exI [of _ a']) (auto simp: block_at_def points_to_def slot_refs_def split: option.splits)
qed

lemma acyclic_memory_empty:
  assumes c: "counted {#} s" and v: "mem_vars s = []" and ac: "acyclic (points_to s)"
  shows "block_at s a = None"
proof (rule ccontr)
  let ?live = "{a. block_at s a \<noteq> None}"
  assume "block_at s a \<noteq> None"
  then have ne: "a \<in> ?live" by simp
  have "b \<in> ?live" if b: "(a', b) \<in> points_to s" for a' b
  proof -
    obtain n blk k where "block_at s a' = Some (n, blk)" "(k, b) \<in> set (block_refs blk)" using b by (auto simp: points_to_def)
    then have "(k, b) \<in># all_refs s + {#}" using block_refs_all by fastforce
    then show ?thesis using counted_live [OF c] by (metis (mono_tags, lifting) mem_Collect_eq option.distinct(1))
  qed
  moreover have "a' \<in> ?live" if "(a', b) \<in> points_to s" for a' b using that by (auto simp: points_to_def)
  ultimately have "points_to s \<subseteq> ?live \<times> ?live" by (meson SigmaI subrelI)
  then have "wf (points_to s)"
    using ac finite_subset [OF _ finite_SigmaI [OF live_finite live_finite]] by (intro finite_acyclic_wf) auto
  then obtain z where z: "z \<in> ?live" "\<And>y. (y, z) \<in> points_to s \<Longrightarrow> y \<notin> ?live" using wfE_min [OF _ ne] by metis
  then obtain n b where "block_at s z = Some (n, b)" by auto
  then show False using live_is_referred [OF c v] z(2) by blast
qed

text \<open>
  C28: only cycles leak: when a program has ended, all its variables with it, and no array or
  object that is left contains itself, then nothing is left: every block was deleted.
\<close>

theorem only_cycles_leak:
  assumes "program_ok 0 sts" "program_cost sts < 2 ^ 32" "exec_all sts empty_memory = Inr s" "mem_vars s = []" "acyclic (points_to s)"
  shows "\<forall>a. block_at s a = None"
proof -
  have "fine (\<lambda>s. room (0 + program_cost sts) {#} s) (exec_all sts empty_memory)"
    using room_empty by (rule exec_all_fine) (use assms in \<open>simp_all add: empty_memory_def\<close>)
  then have "counted {#} s" using assms(3) by (simp add: room_def)
  then show ?thesis using acyclic_memory_empty assms(4,5) by blast
qed

theorem only_cycles_leak_witness: "\<forall>a. block_at (\<lparr>mem_vars = [], mem_heap = [None, None, None]\<rparr> :: nat memory) a = None"
proof (rule only_cycles_leak [OF _ _ sharing_program_runs])
  have "block_at (\<lparr>mem_vars = [], mem_heap = [None, None, None]\<rparr> :: nat memory) a = None" for a
    by (simp add: block_at_def nth_Cons')
  then show "acyclic (points_to (\<lparr>mem_vars = [], mem_heap = [None, None, None]\<rparr> :: nat memory))"
    by (simp add: points_to_def acyclic_def)
  show "program_ok 0 sharing_program" "program_cost sharing_program < 2 ^ 32"
    by (simp_all add: sharing_program_def program_cost_def)
qed simp


section \<open>Assignments from a part\<close>

text \<open>
  C40: a \<open>Config\<close> that is assigned one of its own members, \<open>c = c["key"]\<close>, reads freed memory: the
  object is freed before the member is copied, if nothing else refers to the object.
\<close>

theorem assigning_own_member_reads_freed:
  assumes "counted {#} s" "i < length (mem_vars s)" "h_value (mem_vars s ! i) = HObject a"
    and "block_at s a = Some (1, ConfigObject m)" "map_find m key = Some e"
  shows "exec (Assign (Variable i) (Key (Variable i) key)) s = Inl (Undefined UseAfterFree)"
proof -
  let ?m = "map_set key (e\<lparr>he_accessed := True\<rparr>) m"
  let ?s = "set_block a (Some (1, ConfigObject ?m)) s"
  let ?c = "(mem_vars s ! i)\<lparr>h_value := HUninitialized\<rparr>"
  let ?u = "update_at (Var i) ?c ?s"
  note a = assms(4)
  have a': "block_at ?u a = Some (1, ConfigObject ?m)" by (simp add: block_at_set_block [OF a])
  have "room (size (all_refs s)) {#} s" using assms(1) by (simp add: room_def)
  then have r: "room (size (all_refs s)) {#} ?s"
    using object_mark(1) [OF _ a assms(5), of _ "{#}" "e\<lparr>he_accessed := True\<rparr>"] by simp
  then have "room (size (all_refs s)) ({#} + mset (cfg_refs (mem_vars s ! i))) ?u"
    using assms(2) by (intro room_update_at) simp_all
  note u = this
  obtain s' where "release (cfg_refs (mem_vars s ! i)) ?u = Inr s'" using release_room [OF u] by metis
  then have s': "release [(Object_kind, a)] ?u = Inr s'" using assms(3) by simp
  then have rel: "release (block_refs (ConfigObject ?m)) (set_block a None ?u) = Inr s'" using a' by simp
  have c: "counted (mset (block_refs (ConfigObject ?m))) (set_block a None ?u)"
    using counted_delete [of "{#(Object_kind, a)#}" ?u a "ConfigObject ?m"] a' room_counted [OF u] assms(3) by simp
  obtain s'' where "release (block_refs (ConfigObject ?m)) (set_block a None ?u) = Inr s''" "shrunk (set_block a None ?u) s''"
    using release_counted [of "{#}" "block_refs (ConfigObject ?m)"] c by auto
  then have "shrunk (set_block a None ?u) s'" using rel by simp
  then have gone: "block_at s' a = None"
    using shrunk_block [of "set_block a None ?u" s' a] block_at_set_block [OF a'] by (cases "block_at s' a") auto
  show ?thesis
    using assms s' gone
    by (simp add: h_index_def get_at_def h_as_object_def set_contents_def copy_assign_def free_at_def put_at_def)
qed


definition member_program :: "nat stmt list" where
  "member_program = [Declare New_object, Insert (Variable 0) ''x'' New_object]"

definition member_memory :: "nat memory" where
  "member_memory = \<lparr>mem_vars = [fresh_config (HObject 0)],
     mem_heap = [Some (1, ConfigObject [(''x'', \<lparr>he_value = fresh_config (HObject 1), he_nr = 0, he_accessed = False\<rparr>)]),
       Some (1, ConfigObject [])]\<rparr>"

lemma member_program_runs: "exec_all member_program empty_memory = Inr member_memory"
  by code_simp

lemma member_memory_counted: "counted {#} member_memory"
proof -
  have "fine (\<lambda>s. room (0 + program_cost member_program) {#} s) (exec_all member_program empty_memory)"
    using room_empty by (rule exec_all_fine) (simp_all add: empty_memory_def member_program_def program_cost_def)
  then show ?thesis by (simp add: member_program_runs room_def)
qed

theorem assigning_own_member_reads_freed_witness:
  "exec (Assign (Variable 0) (Key (Variable 0) ''x'')) member_memory = Inl (Undefined UseAfterFree)"
  by (rule assigning_own_member_reads_freed [OF member_memory_counted, of 0 0
      "[(''x'', \<lparr>he_value = fresh_config (HObject 1), he_nr = 0, he_accessed = False\<rparr>)]"])
    (simp_all add: member_memory_def fresh_config_def block_at_def)

lemma two_references:
  assumes "wf_memory s" "config_at s l = Some c" "config_at s l' = Some c'" "l \<noteq> l'" "r \<in> set (cfg_refs c)" "r \<in> set (cfg_refs c')"
  shows "2 \<le> count (all_refs s) r"
proof -
  let ?s = "update_at l (fresh_config HUninitialized) s"
  have "all_refs ?s + mset (cfg_refs c) = all_refs s"
    using update_at_balance [OF assms(1,2), of "fresh_config HUninitialized"] by simp
  moreover have "config_at ?s l' = Some c'" using assms(2,3,4) by (simp add: config_at_update)
  then have "0 < count (all_refs ?s) r" using config_at_refs assms(6) by fastforce
  moreover have "0 < count (mset (cfg_refs c)) r" using assms(5) by simp
  ultimately show ?thesis by (metis add_mono_thms_linordered_semiring(1) count_union less_iff_succ_less_eq one_add_one plus_1_eq_Suc add_0)
qed

text \<open>
  a \<open>Config\<close> into which one of its own members is moved, \<open>c = std::move(c["key"])\<close>, leaks: the
  object ends up as its own member, with one reference left, and no variable reaches it any more.
\<close>

theorem moving_own_member_leaks:
  assumes "counted {#} s" "i < length (mem_vars s)" "h_value (mem_vars s ! i) = HObject a"
    and "block_at s a = Some (1, ConfigObject m)" "map_find m key = Some e"
  shows "\<exists>s'. exec (Assign_move (Variable i) (Key (Variable i) key)) s = Inr s' \<and>
    (a, a) \<in> points_to s' \<and> \<not> rooted s' a \<and> h_value (mem_vars s' ! i) = h_value (he_value e)"
proof -
  note [simp del] = update_at.simps
  let ?m = "map_set key (e\<lparr>he_accessed := True\<rparr>) m"
  let ?s = "set_block a (Some (1, ConfigObject ?m)) s"
  let ?c = "mem_vars s ! i"
  let ?xy = "swap_assign ?c (he_value e)"
  let ?u = "update_at (Var i) (fst ?xy) ?s"
  let ?s' = "update_at (Member a key) (snd ?xy) ?u"
  note a = assms(4)
  have ex: "exec (Assign_move (Variable i) (Key (Variable i) key)) s = move_assign (Var i) (Member a key) ?s"
    using assms by (simp add: h_index_def get_at_def h_as_object_def set_contents_def)
  have c: "config_at ?s (Var i) = Some ?c" "config_at ?s (Member a key) = Some (he_value e)"
    using assms(2) by (simp_all add: block_at_set_block [OF a] map_find_map_set)
  have u: "config_at ?u (Member a key) = Some (he_value e)" using c by (simp add: config_at_update del: config_at.simps)
  have mv: "move_assign (Var i) (Member a key) ?s = Inr ?s'"
    by (simp add: move_assign_def get_at_config [OF c(1)] get_at_config [OF c(2)] put_at_config [OF c(1)] put_at_config [OF u])
  then have s': "exec (Assign_move (Variable i) (Key (Variable i) key)) s = Inr ?s'" using ex by simp
  have "room (size (all_refs s)) {#} s" using assms(1) by (simp add: room_def)
  then have r: "room (size (all_refs s)) {#} ?s"
    using object_mark(1) [OF _ a assms(5), of _ "{#}" "e\<lparr>he_accessed := True\<rparr>"] by simp
  have "fine (\<lambda>s'. room (size (all_refs s)) {#} s' \<and> length (mem_vars s') = length (mem_vars ?s))
      (move_assign (Var i) (Member a key) ?s)"
    by (rule move_assign_fine [OF r]) (use c in \<open>simp_all del: config_at.simps\<close>)
  then have cnt: "counted {#} ?s'" unfolding mv by (simp add: room_def)
  have m: "config_at ?s' (Member a key) = Some (snd ?xy)" using u by (simp add: config_at_update del: config_at.simps)
  have ref: "(Object_kind, a) \<in> set (cfg_refs (snd ?xy))" using assms(3) by (simp add: refs_swap_assign)
  have "block_at ?u a = Some (1, ConfigObject ?m)" by (simp add: update_at.simps block_at_set_block [OF a])
  then have b: "\<exists>m'. block_at ?s' a = Some (1, ConfigObject m')"
    by (simp add: update_at.simps(3) map_find_map_set block_at_set_block)
  then obtain m' where m': "block_at ?s' a = Some (1, ConfigObject m')" by blast
  obtain n blk where "block_at ?s' a = Some (n, blk)" "set (cfg_refs (snd ?xy)) \<subseteq> set (block_refs blk)"
    using config_at_owner [OF m] by auto
  then have pt: "(a, a) \<in> points_to ?s'" using ref by (auto simp: points_to_def)
  have one: "count (all_refs ?s') (Object_kind, a) = 1" using counted_count [OF cnt, of "(Object_kind, a)"] m' by (simp add: tally_def)
  have only: "l = Member a key" if "config_at ?s' l = Some c'" "(k, a) \<in> set (cfg_refs c')" for l c' k
  proof (rule ccontr)
    assume "l \<noteq> Member a key"
    have "(k, a) \<in># all_refs ?s' + {#}" using that config_at_refs by fastforce
    then have "k = Object_kind" using counted_live [OF cnt] m' by (metis Pair_inject kind_of.simps(3) option.inject)
    then have "2 \<le> count (all_refs ?s') (Object_kind, a)"
      using two_references [OF counted_wf [OF cnt] that(1) m \<open>l \<noteq> _\<close> _ ref] that(2) by blast
    then show False using one by simp
  qed
  have "x \<noteq> a" if "rooted ?s' x" for x
    using that
  proof (induction rule: rooted.induct)
    case (root j c' k x)
    then show ?case using only [OF root(1)] by auto
  next
    case (step y l c' k x)
    then show ?case using only [OF step(3)] by auto
  qed
  moreover have "h_value (mem_vars ?s' ! i) = h_value (he_value e)"
  proof -
    have "config_at ?s' (Var i) = Some (fst ?xy)" using c u by (simp add: config_at_update del: config_at.simps)
    then have "mem_vars ?s' ! i = fst ?xy" by (simp split: if_splits)
    moreover have "h_value (fst ?xy) = h_value (he_value e)" by (simp add: swap_assign_def Let_def)
    ultimately show ?thesis by simp
  qed
  ultimately show ?thesis using s' pt by blast
qed

theorem moving_own_member_leaks_witness:
  "\<exists>s'. exec (Assign_move (Variable 0) (Key (Variable 0) ''x'')) member_memory = Inr s' \<and>
    (0, 0) \<in> points_to s' \<and> \<not> rooted s' 0"
  using moving_own_member_leaks [OF member_memory_counted, of 0 0
      "[(''x'', \<lparr>he_value = fresh_config (HObject 1), he_nr = 0, he_accessed = False\<rparr>)]" "''x''"]
  by (auto simp: member_memory_def fresh_config_def block_at_def)

end
