(* ===== verification/Cfg_Sharing.thy ===== *)
theory Cfg_Sharing
  imports Cfg_Safety Cfg_Objects
begin

text \<open>
  A \<open>Config\<close> in memory stands for a tree, a value of \<open>Cfg_Value\<close>, as long as no array or object contains itself.
  Here are the abstraction from memory to trees, that the operations on objects in memory refine those on trees, for every
  \<open>Config\<close> that shares the object, and that \<open>deep_clone\<close> gives a value of its own.
\<close>

section \<open>The tree of a Config\<close>

definition blocks :: "'f memory \<Rightarrow> addr \<rightharpoonup> 'f block" where
  "blocks s a = map_option snd (block_at s a)"

text \<open>
  The tree is computed with fuel, the depth down to which it goes. A pointer to empty comments, which only
  a call of \<open>comments()\<close> that adds nothing leaves, has no tree: there a null pointer stands for no comments.
\<close>

definition tree_comments :: "comments option \<Rightarrow> comments option" where
  "tree_comments p = (case p of None \<Rightarrow> Some no_comments | Some cm \<Rightarrow> if cm = no_comments then None else Some cm)"

definition tree_entry :: "('f hconfig \<Rightarrow> 'f config option) \<Rightarrow> string \<times> 'f hentry \<Rightarrow> (string \<times> 'f entry) option" where
  "tree_entry f p = map_option (\<lambda>t. (fst p, Entry t (he_nr (snd p)) (he_accessed (snd p)))) (f (he_value (snd p)))"

definition tree_val :: "('f hconfig \<Rightarrow> 'f config option) \<Rightarrow> (addr \<rightharpoonup> 'f block) \<Rightarrow> 'f hval \<Rightarrow> 'f val option" where
  "tree_val f H v =
     (case v of
        HUninitialized \<Rightarrow> Some Uninitialized
      | HNull \<Rightarrow> Some Null
      | HBool b \<Rightarrow> Some (Bool b)
      | HInt i \<Rightarrow> Some (Integer i)
      | HFloat x \<Rightarrow> Some (Float x)
      | HString str \<Rightarrow> Some (Str str)
      | HBadLookup a \<Rightarrow> (case H a of Some (BadLookupInfo d l k) \<Rightarrow> Some (BadLookupType d l k) | _ \<Rightarrow> None)
      | HArray a \<Rightarrow> (case H a of Some (ConfigArray cs) \<Rightarrow> map_option Array (those (map f cs)) | _ \<Rightarrow> None)
      | HObject a \<Rightarrow> (case H a of Some (ConfigObject m) \<Rightarrow> map_option Object (those (map (tree_entry f) m)) | _ \<Rightarrow> None))"

primrec tree :: "nat \<Rightarrow> (addr \<rightharpoonup> 'f block) \<Rightarrow> 'f hconfig \<Rightarrow> 'f config option" where
  "tree 0 H c = None"
| "tree (Suc n) H c =
     (case tree_comments (h_comments c) of
        None \<Rightarrow> None
      | Some cm \<Rightarrow> map_option (\<lambda>v. Config v (h_doc c) (h_line c) cm) (tree_val (tree n H) H (h_value c)))"

lemma those_eq_Some: "those xs = Some ys \<longleftrightarrow> xs = map Some ys"
  by (induction xs arbitrary: ys) (auto split: option.splits simp: Cons_eq_map_conv)

lemma those_map_mono:
  "those (map f xs) = Some ys \<Longrightarrow> \<forall>x\<in>set xs. \<forall>y. f x = Some y \<longrightarrow> g x = Some y \<Longrightarrow> those (map g xs) = Some ys"
  by (induction xs arbitrary: ys) (auto split: option.splits)

lemma tree_entry_mono: "tree_entry f p = Some q \<Longrightarrow> (\<And>t. f (he_value (snd p)) = Some t \<Longrightarrow> g (he_value (snd p)) = Some t) \<Longrightarrow>
    tree_entry g p = Some q"
  by (auto simp: tree_entry_def)

text \<open>A value keeps its tree where the blocks it reaches stay.\<close>

lemma tree_val_mono:
  assumes "tree_val f H v = Some t"
    and "\<And>a. a \<in> snd ` set (val_refs v) \<Longrightarrow> H' a = H a"
    and "\<And>a b c t. a \<in> snd ` set (val_refs v) \<Longrightarrow> H a = Some b \<Longrightarrow> set (cfg_refs c) \<subseteq> set (block_refs b) \<Longrightarrow>
      f c = Some t \<Longrightarrow> g c = Some t"
  shows "tree_val g H' v = Some t"
proof (cases v)
  case (HArray a)
  then obtain cs ts where cs: "H a = Some (ConfigArray cs)" "those (map f cs) = Some ts" "t = Array ts"
    using assms(1) by (auto simp: tree_val_def split: option.splits block.splits)
  have "those (map g cs) = Some ts"
    using cs(2)
  proof (rule those_map_mono, intro ballI allI impI)
    fix c y
    assume c: "c \<in> set cs" "f c = Some y"
    have "set (cfg_refs c) \<subseteq> set (block_refs (ConfigArray cs))" using c(1) by auto
    then show "g c = Some y" by (intro assms(3) [OF _ cs(1) _ c(2)]) (simp_all add: HArray)
  qed
  then show ?thesis using HArray cs assms(2) [of a] by (simp add: tree_val_def)
next
  case (HObject a)
  then obtain m ts where m: "H a = Some (ConfigObject m)" "those (map (tree_entry f) m) = Some ts" "t = Object ts"
    using assms(1) by (auto simp: tree_val_def split: option.splits block.splits)
  have "those (map (tree_entry g) m) = Some ts"
    using m(2)
  proof (rule those_map_mono, intro ballI allI impI)
    fix p q
    assume p: "p \<in> set m" "tree_entry f p = Some q"
    have "set (cfg_refs (he_value (snd p))) \<subseteq> set (block_refs (ConfigObject m))"
      using p(1) by (auto simp: split_def intro!: bexI [of _ p])
    then have "f (he_value (snd p)) = Some t \<Longrightarrow> g (he_value (snd p)) = Some t" for t
      by (intro assms(3) [OF _ m(1)]) (simp_all add: HObject)
    then show "tree_entry g p = Some q" using p(2) by (rule tree_entry_mono [rotated])
  qed
  then show ?thesis using HObject m assms(2) [of a] by (simp add: tree_val_def)
qed (use assms(1,2) in \<open>auto simp: tree_val_def split: option.splits block.splits\<close>)

lemma tree_Suc:
  "tree (Suc n) H c = Some t \<longleftrightarrow>
   (\<exists>cm v. tree_comments (h_comments c) = Some cm \<and> tree_val (tree n H) H (h_value c) = Some v \<and>
      t = Config v (h_doc c) (h_line c) cm)"
  by (auto split: option.splits)

declare tree.simps [simp del]

lemma tree_0 [simp]: "tree 0 H c = None"
  by (simp add: tree.simps)

lemma tree_mono_blocks: "tree n H c = Some t \<Longrightarrow> H \<subseteq>\<^sub>m H' \<Longrightarrow> tree n H' c = Some t"
proof (induction n arbitrary: c t)
  case (Suc n)
  then obtain cm v where t: "tree_comments (h_comments c) = Some cm" "tree_val (tree n H) H (h_value c) = Some v"
      "t = Config v (h_doc c) (h_line c) cm" by (auto simp: tree_Suc)
  have "a \<in> dom H" if "a \<in> snd ` set (val_refs (h_value c))" for a
    using t(2) that by (auto simp: tree_val_def split: hval.splits option.splits)
  then have "tree_val (tree n H') H' (h_value c) = Some v"
    using t(2) Suc by (elim tree_val_mono) (auto simp: map_le_def)
  then show ?case using t unfolding tree_Suc by blast
qed simp

lemma tree_mono_Suc: "tree n H c = Some t \<Longrightarrow> tree (Suc n) H c = Some t"
proof (induction n arbitrary: c t)
  case (Suc n)
  then obtain cm v where t: "tree_comments (h_comments c) = Some cm" "tree_val (tree n H) H (h_value c) = Some v"
      "t = Config v (h_doc c) (h_line c) cm" by (auto simp: tree_Suc)
  have "tree_val (tree (Suc n) H) H (h_value c) = Some v"
    using t(2) Suc.IH by (elim tree_val_mono) auto
  then show ?case using t unfolding tree_Suc by blast
qed simp

lemma tree_mono_fuel: "n \<le> n' \<Longrightarrow> tree n H c = Some t \<Longrightarrow> tree n' H c = Some t"
  by (induction n' rule: dec_induct) (auto intro: tree_mono_Suc)

lemma tree_unique: "tree n H c = Some t \<Longrightarrow> tree n' H c = Some t' \<Longrightarrow> t = t'"
  using tree_mono_fuel [of n "max n n'" H c t] tree_mono_fuel [of n' "max n n'" H c t'] by simp

text \<open>A tree without the block at \<open>a\<close>: no shorter computation passes through it.\<close>

lemma tree_without:
  "tree n H c = Some t \<Longrightarrow> (\<And>m c'. m \<le> n \<Longrightarrow> a \<in> snd ` set (cfg_refs c') \<Longrightarrow> tree m H c' = None) \<Longrightarrow>
   tree n (H(a := None)) c = Some t"
proof (induction n arbitrary: c t)
  case (Suc n)
  then obtain cm v where t: "tree_comments (h_comments c) = Some cm" "tree_val (tree n H) H (h_value c) = Some v"
      "t = Config v (h_doc c) (h_line c) cm" by (auto simp: tree_Suc)
  have "a \<notin> snd ` set (cfg_refs c)" using Suc.prems(1) Suc.prems(2) [of "Suc n" c] by auto
  then have "(H(a := None)) x = H x" if "x \<in> snd ` set (cfg_refs c)" for x using that by (cases "x = a") auto
  moreover have "tree n (H(a := None)) c' = Some t'" if "tree n H c' = Some t'" for c' t'
    by (rule Suc.IH [OF that]) (simp add: Suc.prems(2))
  ultimately have "tree_val (tree n (H(a := None))) (H(a := None)) (h_value c) = Some v"
    by (intro tree_val_mono [OF t(2)]) simp_all
  then show ?case using t unfolding tree_Suc by blast
qed simp

text \<open>What is in a block of a tree does not reach the block.\<close>

lemma tree_parts_without:
  assumes "tree n H c = Some t" "a \<in> snd ` set (cfg_refs c)"
  obtains n' c0 t0 where "tree (Suc n') H c0 = Some t0" "a \<in> snd ` set (cfg_refs c0)"
    "\<And>c' t'. tree n' H c' = Some t' \<Longrightarrow> tree n' (H(a := None)) c' = Some t'"
proof -
  let ?Q = "\<lambda>n. \<exists>c t. tree n H c = Some t \<and> a \<in> snd ` set (cfg_refs c)"
  let ?n = "LEAST n. ?Q n"
  have q: "?Q n" using assms by blast
  then have "?Q ?n" by (rule LeastI)
  then obtain c0 t0 where c0: "tree ?n H c0 = Some t0" "a \<in> snd ` set (cfg_refs c0)" by blast
  then obtain n' where n': "?n = Suc n'" by (cases ?n) auto
  have "tree m H c' = None" if "m \<le> n'" "a \<in> snd ` set (cfg_refs c')" for m c'
  proof (rule ccontr)
    assume "tree m H c' \<noteq> None"
    then have "?Q m" using that(2) by auto
    then have "?n \<le> m" by (rule Least_le)
    then show False using that(1) n' by simp
  qed
  then have "tree n' (H(a := None)) c' = Some t'" if "tree n' H c' = Some t'" for c' t'
    using tree_without [OF that] by blast
  then show thesis using that c0 n' by metis
qed

lemma tree_shrunk:
  assumes c: "counted P s'" and sh: "shrunk s s'"
  shows "tree n (blocks s) c = Some t \<Longrightarrow> set (cfg_refs c) \<subseteq> set_mset (all_refs s' + P) \<Longrightarrow> tree n (blocks s') c = Some t"
proof (induction n arbitrary: c t)
  case (Suc n)
  then obtain cm v where t: "tree_comments (h_comments c) = Some cm" "tree_val (tree n (blocks s)) (blocks s) (h_value c) = Some v"
      "t = Config v (h_doc c) (h_line c) cm" by (auto simp: tree_Suc)
  have same: "\<exists>n n' b. block_at s a = Some (n, b) \<and> block_at s' a = Some (n', b)" if a: "a \<in> snd ` set (cfg_refs c)" for a
  proof -
    obtain k where "(k, a) \<in> set (cfg_refs c)" using a by force
    then have "(k, a) \<in># all_refs s' + P" using Suc.prems(2) by auto
    then obtain n' b where "block_at s' a = Some (n', b)" using counted_live [OF c] by metis
    then show ?thesis using shrunk_block [OF sh] by blast
  qed
  have "tree_val (tree n (blocks s')) (blocks s') (h_value c) = Some v"
    using t(2)
  proof (rule tree_val_mono)
    fix a
    assume "a \<in> snd ` set (cfg_refs c)"
    then show "blocks s' a = blocks s a" using same by (fastforce simp: blocks_def)
  next
    fix a b c' t'
    assume *: "a \<in> snd ` set (cfg_refs c)" "blocks s a = Some b" "set (cfg_refs c') \<subseteq> set (block_refs b)"
      "tree n (blocks s) c' = Some t'"
    then obtain n' where "block_at s' a = Some (n', b)" using same [OF *(1)] by (auto simp: blocks_def)
    then have "set (cfg_refs c') \<subseteq> set_mset (all_refs s' + P)" using *(3) block_refs_all [of s' a n' b] by auto
    then show "tree n (blocks s') c' = Some t'" using Suc.IH *(4) by blast
  qed
  then show ?case using t unfolding tree_Suc by blast
qed simp



section \<open>Objects as trees\<close>

definition members :: "('f hconfig \<Rightarrow> 'f config option) \<Rightarrow> (string, 'f hentry) std_map \<Rightarrow> (string, 'f entry) std_map \<Rightarrow> bool" where
  "members f m mt \<longleftrightarrow> those (map (tree_entry f) m) = Some mt"

lemma members_Nil [simp]: "members f [] mt \<longleftrightarrow> mt = []"
  by (auto simp: members_def)

lemma members_Cons:
  "members f ((k, e) # m) mt \<longleftrightarrow>
   (\<exists>t mt'. f (he_value e) = Some t \<and> members f m mt' \<and> mt = (k, Entry t (he_nr e) (he_accessed e)) # mt')"
  by (auto simp: members_def tree_entry_def split: option.splits)

lemma members_length: "members f m mt \<Longrightarrow> length mt = length m"
  by (auto simp: members_def those_eq_Some dest: map_eq_imp_length_eq)

lemma members_find:
  "members f m mt \<Longrightarrow> map_find mt k =
     (case map_find m k of None \<Rightarrow> None | Some e \<Rightarrow> Some (Entry (the (f (he_value e))) (he_nr e) (he_accessed e))) \<and>
   (\<forall>e. map_find m k = Some e \<longrightarrow> f (he_value e) \<noteq> None)"
proof (induction m arbitrary: mt)
  case (Cons p m)
  then show ?case by (cases p) (auto simp: members_Cons)
qed simp

lemma members_set:
  "members f m mt \<Longrightarrow> f (he_value e) = Some t \<Longrightarrow>
   members f (map_set k e m) (map_set k (Entry t (he_nr e) (he_accessed e)) mt)"
proof (induction m arbitrary: mt)
  case (Cons p m)
  then show ?case by (cases p) (auto simp: members_Cons)
qed (simp add: members_Cons)

lemma members_erase: "members f m mt \<Longrightarrow> members f (map_erase k m) (map_erase k mt)"
proof (induction m arbitrary: mt)
  case (Cons p m)
  then show ?case by (cases p) (auto simp: members_Cons map_erase_def)
qed (simp add: map_erase_def)

lemma members_mono:
  assumes "members (tree n H) m mt" "H \<subseteq>\<^sub>m H'" "n \<le> n'"
  shows "members (tree n' H') m mt"
proof -
  have "tree n' H' c = Some t" if "tree n H c = Some t" for c t
    using tree_mono_fuel [OF assms(3) tree_mono_blocks [OF that assms(2)]] .
  then show ?thesis using assms(1) unfolding members_def
    by (elim those_map_mono) (auto intro: tree_entry_mono)
qed

lemma map_set_twice: "map_set k x (map_set k y m) = map_set k x m"
  by (induction k y m rule: map_set.induct) auto

lemma without_le: "H(a := None) \<subseteq>\<^sub>m H"
  by (auto simp: map_le_def)

text \<open>The members of an object that has a tree have trees that do not need the object.\<close>

lemma object_members:
  assumes t: "tree n (blocks s) c = Some t" "h_value c = HObject a"
  obtains N m mt cm where "blocks s a = Some (ConfigObject m)" "members (tree N ((blocks s)(a := None))) m mt"
    "tree_comments (h_comments c) = Some cm" "t = Config (Object mt) (h_doc c) (h_line c) cm"
proof -
  let ?H = "blocks s"
  obtain k where n: "n = Suc k" using t by (cases n) auto
  then obtain cm m mt where m: "tree_comments (h_comments c) = Some cm" "?H a = Some (ConfigObject m)" "members (tree k ?H) m mt"
      "t = Config (Object mt) (h_doc c) (h_line c) cm"
    using t by (auto simp: tree_Suc tree_val_def members_def split: option.splits block.splits)
  have a: "a \<in> snd ` set (cfg_refs c)" using t(2) by simp
  obtain n' c0 t0 where c0: "tree (Suc n') ?H c0 = Some t0" "a \<in> snd ` set (cfg_refs c0)"
      and less: "\<And>c' t'. tree n' ?H c' = Some t' \<Longrightarrow> tree n' (?H(a := None)) c' = Some t'"
    using tree_parts_without [OF t(1), of a] a by metis
  have "h_value c0 = HObject a"
    using c0 m(2) by (cases "h_value c0") (auto simp: tree_Suc tree_val_def)
  then obtain mt0 where mt0: "members (tree n' ?H) m mt0"
    using c0(1) m(2) by (auto simp: tree_Suc tree_val_def members_def)
  have "members (tree (max k n') ?H) m mt" "members (tree (max k n') ?H) m mt0"
    using members_mono [OF m(3)] members_mono [OF mt0] by simp_all
  then have "mt0 = mt" by (simp add: members_def)
  moreover have "members (tree n' (?H(a := None))) m mt0"
    using mt0 less unfolding members_def by (elim those_map_mono) (auto intro: tree_entry_mono)
  ultimately show thesis using that m by blast
qed

lemma object_tree_after:
  assumes "counted {#} s'" "shrunk s1 s'" "blocks s1 a = Some (ConfigObject m)" "members (tree N ((blocks s1)(a := None))) m mt"
    and c: "config_at s' l = Some c" "h_value c = HObject a" "tree_comments (h_comments c) = Some cm"
  shows "tree (Suc N) (blocks s') c = Some (Config (Object mt) (h_doc c) (h_line c) cm)"
proof (rule tree_shrunk [OF assms(1,2)])
  have "members (tree N (blocks s1)) m mt" using assms(4) without_le by (rule members_mono) simp
  then show "tree (Suc N) (blocks s1) c = Some (Config (Object mt) (h_doc c) (h_line c) cm)"
    using assms(3) c by (simp add: tree_Suc tree_val_def members_def)
  show "set (cfg_refs c) \<subseteq> set_mset (all_refs s' + {#})" using config_refs_pending [OF c(1)] .
qed

text \<open>An assignment in memory and one of trees.\<close>

lemma tree_swap_assign:
  assumes "tree n H x = Some tx" "tree_comments (h_comments d) = Some cm"
  shows "tree n H (fst (swap_assign d x)) = Some (assign (Config v (h_doc d) (h_line d) cm) tx)"
proof (cases n)
  case (Suc k)
  then show ?thesis
    using assms
    by (auto simp: tree_Suc swap_assign_def assign_def Let_def tree_comments_def has_comments_def split: option.splits if_splits)
qed (use assms in simp)

lemma copy_over_default [simp]: "copy_over (fresh_config v) c = c"
  by (cases c) (auto simp: copy_over_def fresh_config_def Let_def)

lemma release_shrunk: "release rs s = Inr s' \<Longrightarrow> shrunk s s'"
proof (induction rs s rule: release.induct)
  case (2 k a rs s)
  from "2.prems" obtain n b where b: "block_at s a = Some (n, b)" by (auto split: option.splits)
  show ?case
  proof (cases "n - 1 = 0")
    case True
    then have "shrunk (set_block a None s) s'" using "2.IH"(1) [OF b refl True] "2.prems" b by simp
    with shrunk_set_block [OF b] show ?thesis using shrunk_trans by blast
  next
    case False
    then have "shrunk (set_block a (Some (n - 1, b)) s) s'" using "2.IH"(2) [OF b refl False] "2.prems" b by simp
    with shrunk_set_block [OF b] show ?thesis using shrunk_trans by blast
  qed
qed (simp add: shrunk_refl)

lemma release_no_error: "release rs s \<noteq> Inl (OnError d l msg)"
  by (induction rs s rule: release.induct) (auto split: option.splits)

lemma shrunk_blocks: "shrunk s s' \<Longrightarrow> shrunk s' s \<Longrightarrow> blocks s' = blocks s"
proof -
  assume *: "shrunk s s'" "shrunk s' s"
  have "blocks s' a = blocks s a" for a
    using shrunk_block [OF *(1), of a] shrunk_block [OF *(2), of a]
    by (cases "block_at s a"; cases "block_at s' a") (auto simp: blocks_def)
  then show "blocks s' = blocks s" by blast
qed

lemma blocks_set_block: "block_at s a = Some y \<Longrightarrow> blocks (set_block a x s) = (blocks s)(a := map_option snd x)"
  by (auto simp: blocks_def block_at_set_block fun_eq_iff)

lemma blocks_new_block: "blocks (snd (new_block b s)) = (blocks s)(length (mem_heap s) \<mapsto> b)"
  by (auto simp: blocks_def block_at_new_block fun_eq_iff)



section \<open>Changes of a shared object\<close>

text \<open>The statement that makes a change of the object in the variable \<open>i\<close>, with the value that the variable \<open>q\<close> has.\<close>

fun change_stmt :: "nat \<Rightarrow> nat \<Rightarrow> 'f change \<Rightarrow> 'f stmt" where
  "change_stmt i q (Index k _) = Assign_temp (Key (Variable i) k) (Copy (Variable q))"
| "change_stmt i q (Insert_or_assign k _) = Insert (Variable i) k (Copy (Variable q))"
| "change_stmt i q (Emplace k _) = Emplace_at (Variable i) k (Copy (Variable q))"
| "change_stmt i q (Erase k) = Erase_key (Variable i) k"

fun change_value :: "'f change \<Rightarrow> 'f config option" where
  "change_value (Index _ x) = Some x"
| "change_value (Insert_or_assign _ x) = Some x"
| "change_value (Emplace _ x) = Some x"
| "change_value (Erase _) = None"

lemma copy_variable:
  assumes c: "counted {#} s" and few: "size (all_refs s) + 1 < 2 ^ 32" and q: "q < length (mem_vars s)"
  obtains s0 where "temp_of (Copy (Variable q)) s = Inr (mem_vars s ! q, s0)" "shrunk s s0" "shrunk s0 s"
proof -
  have q': "config_at s (Var q) = Some (mem_vars s ! q)" using q by simp
  obtain s0 where "add_ref (h_value (mem_vars s ! q)) s = Inr s0" "shrunk s s0" "shrunk s0 s"
    using add_ref_counted [OF c, of "h_value (mem_vars s ! q)"] config_refs_pending [OF q'] few by auto
  then show thesis using that q' by (simp add: get_at_def copy_config_def)
qed

lemma shrunk_both_block:
  assumes "shrunk s s0" "shrunk s0 s" "block_at s a = Some (n, b)"
  obtains n0 where "block_at s0 a = Some (n0, b)"
  using shrunk_block [OF assms(2,3)] by blast

text \<open>
  What an operation has done when it has put a member into the object at \<open>a\<close> and has only references left to
  release.
\<close>

definition put_member :: "addr \<Rightarrow> (string, 'f hentry) std_map \<Rightarrow> 'f memory cfg \<Rightarrow> 'f memory \<Rightarrow> 'f memory \<Rightarrow> bool" where
  "put_member a m r s s2 \<longleftrightarrow>
     (\<exists>rs. r = release rs s2) \<and> mem_vars s2 = mem_vars s \<and> blocks s2 a = Some (ConfigObject m) \<and>
     (blocks s)(a := None) \<subseteq>\<^sub>m blocks s2"

lemma put_memberI:
  "r = release rs s2 \<Longrightarrow> mem_vars s2 = mem_vars s \<Longrightarrow> blocks s2 a = Some (ConfigObject m) \<Longrightarrow>
   (blocks s)(a := None) \<subseteq>\<^sub>m blocks s2 \<Longrightarrow> put_member a m r s s2"
  unfolding put_member_def by blast

lemma move_assign_temp_member:
  assumes a: "block_at s1 a = Some (n, ConfigObject m)" and k: "map_find m k = Some e" and s1: "mem_vars s1 = mem_vars s"
    and b: "(blocks s)(a := None) \<subseteq>\<^sub>m blocks s1"
  shows "put_member a (map_set k (e\<lparr>he_value := fst (swap_assign (he_value e) x)\<rparr>) m) (move_assign_temp (Member a k) x s1) s
    (set_block a (Some (n, ConfigObject (map_set k (e\<lparr>he_value := fst (swap_assign (he_value e) x)\<rparr>) m))) s1)"
proof (rule put_memberI)
  show "(blocks s)(a := None) \<subseteq>\<^sub>m
      blocks (set_block a (Some (n, ConfigObject (map_set k (e\<lparr>he_value := fst (swap_assign (he_value e) x)\<rparr>) m))) s1)"
    using b by (auto simp: blocks_set_block [OF a] map_le_def)
qed (use a k s1 in \<open>simp_all add: move_assign_temp_def get_at_def put_at_def destroy_def blocks_set_block [OF a]\<close>)

lemma put_member_le: "put_member a m r s s2 \<Longrightarrow> (blocks s)(a := None) \<subseteq>\<^sub>m (blocks s2)(a := None)"
  by (auto simp: put_member_def map_le_def)

lemma tree_config:
  "tree n H c = Some t \<Longrightarrow> tree_comments (h_comments c) = Some (c_comments t) \<and>
   t = Config (c_value t) (h_doc c) (h_line c) (c_comments t)"
  by (cases n) (auto simp: tree_Suc)

lemma put_member_tree:
  assumes put: "put_member a (map_set k (e\<lparr>he_value := fst (swap_assign (he_value e) x)\<rparr>) m) r s s2"
    and m: "members (tree N ((blocks s)(a := None))) m mt" and x: "tree N ((blocks s)(a := None)) x = Some tx"
    and e: "tree_comments (h_comments (he_value e)) = Some cm"
  shows "members (tree N ((blocks s2)(a := None))) (map_set k (e\<lparr>he_value := fst (swap_assign (he_value e) x)\<rparr>) m)
    (map_set k (Entry (assign (Config v (h_doc (he_value e)) (h_line (he_value e)) cm) tx) (he_nr e) (he_accessed e)) mt)"
proof -
  have "members (tree N ((blocks s2)(a := None))) m mt" using m put_member_le [OF put] by (rule members_mono) simp
  moreover have "tree N ((blocks s2)(a := None)) (fst (swap_assign (he_value e) x)) =
      Some (assign (Config v (h_doc (he_value e)) (h_line (he_value e)) cm) tx)"
    using tree_mono_blocks [OF x put_member_le [OF put]] e by (rule tree_swap_assign)
  ultimately show ?thesis using members_set [of _ m mt "e\<lparr>he_value := fst (swap_assign (he_value e) x)\<rparr>"] by simp
qed

text \<open>The entry in which an assignment puts its value, in memory and in the tree.\<close>

definition same_entry :: "'f hentry \<Rightarrow> 'f entry \<Rightarrow> bool" where
  "same_entry e te \<longleftrightarrow> tree_comments (h_comments (he_value e)) = Some (c_comments (e_value te)) \<and>
     e_value te = Config (c_value (e_value te)) (h_doc (he_value e)) (h_line (he_value e)) (c_comments (e_value te)) \<and>
     e_nr te = he_nr e \<and> e_accessed te = he_accessed e"

lemma put_member_same:
  assumes "put_member a (map_set k (e\<lparr>he_value := fst (swap_assign (he_value e) x)\<rparr>) m) r s s2" "same_entry e te"
    and "members (tree N ((blocks s)(a := None))) m mt" "tree N ((blocks s)(a := None)) x = Some tx"
  shows "members (tree N ((blocks s2)(a := None))) (map_set k (e\<lparr>he_value := fst (swap_assign (he_value e) x)\<rparr>) m)
    (map_set k (Entry (assign (e_value te) tx) (e_nr te) (e_accessed te)) mt)"
  using put_member_tree [OF assms(1,3,4), of "c_comments (e_value te)" "c_value (e_value te)"] assms(2)
  by (auto simp: same_entry_def)

lemma same_entry_find:
  assumes "members (tree N H) m mt" "map_find m k = Some e"
  obtains te where "map_find mt k = Some te" "same_entry e te"
proof -
  obtain t where "tree N H (he_value e) = Some t" "map_find mt k = Some (Entry t (he_nr e) (he_accessed e))"
    using members_find [OF assms(1), of k] assms(2) by auto
  then show thesis using that tree_config [of N H "he_value e" t] by (auto simp: same_entry_def)
qed

lemma same_entry_access: "same_entry e te \<Longrightarrow> same_entry (e\<lparr>he_accessed := True\<rparr>) (access te)"
  by (simp add: same_entry_def access_def)

lemma same_entry_new:
  "same_entry \<lparr>he_value = fresh_config v, he_nr = n, he_accessed = False\<rparr> (Entry (config_of tv) n False)"
  by (simp add: same_entry_def fresh_config_def tree_comments_def config_of_def)

lemma find_none: "members f m mt \<Longrightarrow> map_find m k = None \<Longrightarrow> map_find mt k = None"
  using members_find [of f m mt k] by simp

lemma exec_change:
  fixes s :: "'f memory"
  assumes c: "counted {#} s" and few: "size (all_refs s) + 1 < 2 ^ 32"
    and i: "i < length (mem_vars s)" "h_value (mem_vars s ! i) = HObject a"
    and q: "q < length (mem_vars s)" and a: "block_at s a = Some (n, ConfigObject m)"
    and m: "members (tree N ((blocks s)(a := None))) m mt"
    and x: "\<And>x. change_value ch = Some x \<Longrightarrow> tree N ((blocks s)(a := None)) (mem_vars s ! q) = Some x"
    and tj: "c_value tj = Object mt"
  obtains s2 m2 mt2 where "put_member a m2 (exec (change_stmt i q ch) s) s s2"
    "members (tree N ((blocks s2)(a := None))) m2 mt2" "make_change ch tj = Inr (set_value (Object mt2) tj)"
proof -
  obtain s0 where s0: "temp_of (Copy (Variable q)) s = Inr (mem_vars s ! q, s0)" "shrunk s s0" "shrunk s0 s"
    using copy_variable [OF c few q] .
  obtain n0 where a0: "block_at s0 a = Some (n0, ConfigObject m)" using shrunk_both_block [OF s0(2,3) a] .
  have v0: "mem_vars s0 = mem_vars s" and b0: "blocks s0 = blocks s"
    using shrunk_vars [OF s0(2)] shrunk_blocks [OF s0(2,3)] by simp_all
  have obj: "get_at (Var i) s0 = Inr (mem_vars s ! i)" "h_as_object (mem_vars s ! i) s0 = Inr (a, m)"
    using i a0 v0 by (simp_all add: get_at_def h_as_object_def)
  have step: "\<exists>s2. put_member a (map_set k (e\<lparr>he_value := fst (swap_assign (he_value e) (mem_vars s ! q))\<rparr>) m)
      (move_assign_temp (Member a k) (mem_vars s ! q) (set_block a (Some (n0, ConfigObject (map_set k e m))) s1)) s s2"
    if s1: "block_at s1 a = Some (n0, ConfigObject m)" "mem_vars s1 = mem_vars s" "(blocks s)(a := None) \<subseteq>\<^sub>m blocks s1" for k e s1
  proof -
    let ?s = "set_block a (Some (n0, ConfigObject (map_set k e m))) s1"
    have "block_at ?s a = Some (n0, ConfigObject (map_set k e m))" by (simp add: block_at_set_block [OF s1(1)])
    moreover have "(blocks s)(a := None) \<subseteq>\<^sub>m blocks ?s" using s1(3) by (auto simp: blocks_set_block [OF s1(1)] map_le_def)
    ultimately show ?thesis
      using move_assign_temp_member [of ?s a n0 "map_set k e m" k e s] s1(2) by (auto simp: map_find_map_set map_set_twice)
  qed
  have le0: "(blocks s)(a := None) \<subseteq>\<^sub>m blocks s0" by (simp add: b0 without_le)
  show thesis
  proof (cases ch)
    case (Insert_or_assign k tx)
    let ?e = "case map_find m k of
        None \<Rightarrow> \<lparr>he_value = fresh_config HUninitialized, he_nr = length m, he_accessed = False\<rparr>
      | Some e \<Rightarrow> e\<lparr>he_accessed := True\<rparr>"
    let ?te = "case map_find mt k of None \<Rightarrow> Entry (config_of Uninitialized) (length mt) False | Some e \<Rightarrow> access e"
    have ex: "exec (change_stmt i q ch) s =
        move_assign_temp (Member a k) (mem_vars s ! q) (set_block a (Some (n0, ConfigObject (map_set k ?e m))) s0)"
      using Insert_or_assign s0(1) obj a0 by (simp add: h_insert_or_assign_temp_def h_entry_def Let_def set_contents_eq)
    obtain s2 where s2: "put_member a (map_set k (?e\<lparr>he_value := fst (swap_assign (he_value ?e) (mem_vars s ! q))\<rparr>) m)
        (exec (change_stmt i q ch) s) s s2"
      using step [OF a0 v0 le0, of k ?e] unfolding ex by blast
    have "same_entry ?e ?te"
    proof (cases "map_find m k")
      case None
      then show ?thesis using find_none [OF m None] members_length [OF m] same_entry_new by simp
    next
      case (Some e)
      then show ?thesis using same_entry_find [OF m Some] same_entry_access by (metis option.simps(5))
    qed
    note m2 = put_member_same [OF s2 this m x [of tx]]
    have "make_change ch tj = Inr (set_value (Object (map_set k (Entry (assign (e_value ?te) tx) (e_nr ?te) (e_accessed ?te)) mt)) tj)"
      using Insert_or_assign tj by (simp add: insert_or_assign_def as_object_Object Let_def access_def split: option.splits)
    then show thesis using that [OF s2 m2] Insert_or_assign by simp
  next
    case (Emplace k tx)
    show thesis
    proof (cases "map_find m k")
      case None
      let ?e = "\<lparr>he_value = mem_vars s ! q, he_nr = length m, he_accessed = False\<rparr>"
      let ?s = "set_block a (Some (n0, ConfigObject (map_set k ?e m))) s0"
      have ex: "exec (change_stmt i q ch) s = release [] ?s"
        using Emplace None s0(1) obj a0 by (simp add: h_emplace_def set_contents_eq)
      have "(blocks s)(a := None) \<subseteq>\<^sub>m blocks ?s" using b0 by (auto simp: blocks_set_block [OF a0] map_le_def)
      then have put: "put_member a (map_set k ?e m) (exec (change_stmt i q ch) s) s ?s"
        by (intro put_memberI [OF ex]) (simp_all add: v0 blocks_set_block [OF a0])
      have "members (tree N ((blocks ?s)(a := None))) m mt" using m put_member_le [OF put] by (rule members_mono) simp
      moreover have "tree N ((blocks ?s)(a := None)) (mem_vars s ! q) = Some tx"
        using x [of tx] Emplace tree_mono_blocks [OF _ put_member_le [OF put]] by simp
      ultimately have "members (tree N ((blocks ?s)(a := None))) (map_set k ?e m) (map_set k (Entry tx (length m) False) mt)"
        using members_set [of _ m mt ?e] by simp
      moreover have "make_change ch tj = Inr (set_value (Object (map_set k (Entry tx (length m) False) mt)) tj)"
        using Emplace tj find_none [OF m None] members_length [OF m] by (simp add: emplace_def as_object_Object map_insert_def)
      ultimately show thesis by (rule that [OF put])
    next
      case (Some e)
      have put: "put_member a m (exec (change_stmt i q ch) s) s s0"
        by (rule put_memberI [where rs = "cfg_refs (mem_vars s ! q)"])
          (use Emplace Some s0(1) obj a a0 b0 v0 le0 in \<open>simp_all add: h_emplace_def destroy_def blocks_def\<close>)
      have "members (tree N ((blocks s0)(a := None))) m mt" using m b0 by simp
      moreover have "make_change ch tj = Inr (set_value (Object mt) tj)"
      proof -
        obtain te where "map_find mt k = Some te" using same_entry_find [OF m Some] by metis
        then show ?thesis using Emplace tj by (simp add: emplace_def as_object_Object map_insert_def)
      qed
      ultimately show thesis by (rule that [OF put])
    qed
  next
    case (Erase k)
    have obj': "get_at (Var i) s = Inr (mem_vars s ! i)" "h_as_object (mem_vars s ! i) s = Inr (a, m)"
      using i a by (simp_all add: get_at_def h_as_object_def)
    show thesis
    proof (cases "map_find m k")
      case None
      have "put_member a m (exec (change_stmt i q ch) s) s s"
        by (rule put_memberI [where rs = "[]"])
          (use Erase None obj' a in \<open>simp_all add: h_erase_def blocks_def without_le\<close>)
      moreover have "make_change ch tj = Inr (set_value (Object mt) tj)"
        using Erase tj find_none [OF m None] by (cases tj) (simp add: erase_def as_object_Object set_value_def)
      ultimately show thesis using that m by blast
    next
      case (Some e)
      let ?s = "set_block a (Some (n, ConfigObject (map_erase k m))) s"
      have le: "(blocks s)(a := None) \<subseteq>\<^sub>m blocks ?s" by (auto simp: blocks_set_block [OF a] map_le_def)
      have put: "put_member a (map_erase k m) (exec (change_stmt i q ch) s) s ?s"
        by (rule put_memberI [where rs = "cfg_refs (he_value e)"])
          (use Erase Some obj' a le in \<open>simp_all add: h_erase_def destroy_def set_contents_eq blocks_set_block [OF a]\<close>)
      have "members (tree N ((blocks ?s)(a := None))) (map_erase k m) (map_erase k mt)"
        using members_erase [OF m] put_member_le [OF put] by (rule members_mono) simp
      moreover have "make_change ch tj = Inr (set_value (Object (map_erase k mt)) tj)"
      proof -
        obtain te where "map_find mt k = Some te" using same_entry_find [OF m Some] by metis
        then show ?thesis using Erase tj by (simp add: erase_def as_object_Object)
      qed
      ultimately show thesis by (rule that [OF put])
    qed
  next
    case (Index k tx)
    show thesis
    proof (cases "map_find m k")
      case None
      let ?b = "BadLookupInfo (h_doc (mem_vars s ! i)) (h_line (mem_vars s ! i)) k"
      let ?s1 = "snd (new_block ?b s0)"
      let ?e = "\<lparr>he_value = fresh_config (HBadLookup (length (mem_heap s0))), he_nr = length m, he_accessed = False\<rparr>"
      let ?te = "Entry (config_of (BadLookupType (c_doc tj) (c_line tj) k)) (length mt) False"
      have a1: "block_at ?s1 a = Some (n0, ConfigObject m)" using a0 by (auto simp: block_at_new_block)
      have "(blocks s)(a := None) \<subseteq>\<^sub>m blocks ?s1"
        using b0 block_at_length [of s0] by (auto simp: blocks_new_block map_le_def) (simp add: blocks_def b0 [symmetric])
      then obtain s2 where s2: "put_member a (map_set k (?e\<lparr>he_value := fst (swap_assign (he_value ?e) (mem_vars s ! q))\<rparr>) m)
          (move_assign_temp (Member a k) (mem_vars s ! q) (set_block a (Some (n0, ConfigObject (map_set k ?e m))) ?s1)) s s2"
        using step [OF a1, of k ?e] v0 by auto
      have "exec (change_stmt i q ch) s =
          move_assign_temp (Member a k) (mem_vars s ! q) (set_block a (Some (n0, ConfigObject (map_set k ?e m))) ?s1)"
        using Index None s0(1) obj set_contents_eq [OF a1] by (simp add: h_index_def new_block_def Let_def)
      with s2 have s2': "put_member a (map_set k (?e\<lparr>he_value := fst (swap_assign (he_value ?e) (mem_vars s ! q))\<rparr>) m)
          (exec (change_stmt i q ch) s) s s2" by simp
      have "same_entry ?e ?te" using same_entry_new members_length [OF m] by metis
      note m2 = put_member_same [OF s2' this m x [of tx]]
      have "make_change ch tj = Inr (set_value (Object (map_set k (Entry (assign (e_value ?te) tx) (e_nr ?te) (e_accessed ?te)) mt)) tj)"
        using Index tj find_none [OF m None]
        by (simp add: lookup_or_add_def as_object_Object Let_def put_value_def map_find_map_set map_set_twice)
          (simp add: set_value_def)
      then show thesis using that [OF s2' m2] Index by simp
    next
      case (Some e)
      obtain te where te: "map_find mt k = Some te" "same_entry e te" using same_entry_find [OF m Some] .
      let ?e = "e\<lparr>he_accessed := True\<rparr>"
      obtain s2 where s2: "put_member a (map_set k (?e\<lparr>he_value := fst (swap_assign (he_value ?e) (mem_vars s ! q))\<rparr>) m)
          (move_assign_temp (Member a k) (mem_vars s ! q) (set_block a (Some (n0, ConfigObject (map_set k ?e m))) s0)) s s2"
        using step [OF a0 v0 le0, of k ?e] by auto
      have "exec (change_stmt i q ch) s =
          move_assign_temp (Member a k) (mem_vars s ! q) (set_block a (Some (n0, ConfigObject (map_set k ?e m))) s0)"
        using Index Some s0(1) obj set_contents_eq [OF a0] by (simp add: h_index_def)
      with s2 have s2': "put_member a (map_set k (?e\<lparr>he_value := fst (swap_assign (he_value ?e) (mem_vars s ! q))\<rparr>) m)
          (exec (change_stmt i q ch) s) s s2" by simp
      note m2 = put_member_same [OF s2' same_entry_access [OF te(2)] m x [of tx]]
      have "make_change ch tj =
          Inr (set_value (Object (map_set k (Entry (assign (e_value (access te)) tx) (e_nr (access te)) (e_accessed (access te))) mt)) tj)"
        using Index tj te(1)
        by (simp add: lookup_or_add_def as_object_Object Let_def put_value_def map_find_map_set map_set_twice access_def)
          (simp add: set_value_def)
      then show thesis using that [OF s2' m2] Index by simp
    qed
  qed
qed


lemma change_stmt_ok: "i < n \<Longrightarrow> q < n \<Longrightarrow> stmt_ok n (change_stmt i q ch)"
  by (cases ch) simp_all

lemma change_stmt_cost: "stmt_cost (change_stmt i q ch) \<le> 2"
  by (cases ch) simp_all

text \<open>
  C26: a change of an object through one variable is a change for every variable that shares it, and for no other:
  when an assignment, an insertion or a removal is made on the object in one variable, with the value of another
  variable, then each variable that has the same object has afterwards the value that this operation gives for trees, and
  each variable whose value does not need the object keeps its value. The value that is put in must not
  contain the object itself.
\<close>

theorem changes_are_shared:
  assumes "counted {#} s" "size (all_refs s) + 2 < 2 ^ 32" "i < length (mem_vars s)" "q < length (mem_vars s)"
    and "h_value (mem_vars s ! i) = HObject a"
    and "\<And>x. change_value ch = Some x \<Longrightarrow> tree n ((blocks s)(a := None)) (mem_vars s ! q) = Some x"
    and "j < length (mem_vars s)" "h_value (mem_vars s ! j) = HObject a" "tree n (blocks s) (mem_vars s ! j) = Some tj"
  shows "\<exists>s' tj' n'. exec (change_stmt i q ch) s = Inr s' \<and> counted {#} s' \<and>
    make_change ch tj = Inr tj' \<and> tree n' (blocks s') (mem_vars s' ! j) = Some tj' \<and>
    (\<forall>l<length (mem_vars s). \<forall>tl. tree n ((blocks s)(a := None)) (mem_vars s ! l) = Some tl \<longrightarrow>
       tree n' (blocks s') (mem_vars s' ! l) = Some tl)"
proof -
  obtain N0 m mt cm where m: "blocks s a = Some (ConfigObject m)" "members (tree N0 ((blocks s)(a := None))) m mt"
      "tree_comments (h_comments (mem_vars s ! j)) = Some cm"
      "tj = Config (Object mt) (h_doc (mem_vars s ! j)) (h_line (mem_vars s ! j)) cm"
    using object_members [OF assms(9,8)] by metis
  let ?N = "max N0 n"
  obtain n0 where a: "block_at s a = Some (n0, ConfigObject m)" using m(1) by (auto simp: blocks_def)
  have mN: "members (tree ?N ((blocks s)(a := None))) m mt" using m(2) by (rule members_mono) simp_all
  have xN: "tree ?N ((blocks s)(a := None)) (mem_vars s ! q) = Some x" if "change_value ch = Some x" for x
    using assms(6) [OF that] by (rule tree_mono_fuel [rotated]) simp
  have few: "size (all_refs s) + 1 < 2 ^ 32" and tv: "c_value tj = Object mt" using assms(2) m(4) by simp_all
  obtain s2 m2 mt2 where put: "put_member a m2 (exec (change_stmt i q ch) s) s s2"
      and m2: "members (tree ?N ((blocks s2)(a := None))) m2 mt2" "make_change ch tj = Inr (set_value (Object mt2) tj)"
    by (rule exec_change [OF assms(1) few assms(3,5,4) a mN xN tv])
  obtain rs where rs: "exec (change_stmt i q ch) s = release rs s2" using put by (auto simp: put_member_def)
  have r: "room (size (all_refs s)) {#} s" using assms(1) by (simp add: room_def)
  have "fine (\<lambda>s'. room (size (all_refs s) + stmt_cost (change_stmt i q ch)) {#} s' \<and>
      length (mem_vars s') = vars_after (length (mem_vars s)) (change_stmt i q ch)) (exec (change_stmt i q ch) s)"
    using exec_fine [OF r change_stmt_ok [OF assms(3,4)]] change_stmt_cost [of i q ch] assms(2) by simp
  then obtain s' where s': "release rs s2 = Inr s'" "counted {#} s'"
    using release_no_error [of rs s2] unfolding rs by (auto simp: fine_def room_def split: sum.splits cfg_error.splits)
  note sh = release_shrunk [OF s'(1)]
  have v: "mem_vars s' = mem_vars s" using shrunk_vars [OF sh] put by (simp add: put_member_def)
  have "tree (Suc ?N) (blocks s') (mem_vars s ! j) =
      Some (Config (Object mt2) (h_doc (mem_vars s ! j)) (h_line (mem_vars s ! j)) cm)"
  proof (rule object_tree_after [OF s'(2) sh _ m2(1) _ assms(8) m(3)])
    show "blocks s2 a = Some (ConfigObject m2)" using put by (simp add: put_member_def)
    show "config_at s' (Var j) = Some (mem_vars s ! j)" using v assms(7) by simp
  qed
  moreover have "tree (Suc ?N) (blocks s') (mem_vars s' ! l) = Some tl"
    if "l < length (mem_vars s)" "tree n ((blocks s)(a := None)) (mem_vars s ! l) = Some tl" for l tl
  proof -
    have "config_at s' (Var l) = Some (mem_vars s ! l)" using that(1) v by simp
    then have "set (cfg_refs (mem_vars s ! l)) \<subseteq> set_mset (all_refs s' + {#})" by (rule config_refs_pending)
    moreover have "tree n (blocks s2) (mem_vars s ! l) = Some tl"
      using that(2) put by (auto simp: put_member_def intro: tree_mono_blocks)
    ultimately have "tree n (blocks s') (mem_vars s ! l) = Some tl" using tree_shrunk [OF s'(2) sh] by blast
    then show ?thesis using v by (simp add: tree_mono_fuel [of n "Suc ?N"] del: tree_Suc)
  qed
  ultimately show ?thesis
    using rs s' m2(2) m(4) v by (intro exI [of _ s'] exI [of _ "set_value (Object mt2) tj"] exI [of _ "Suc ?N"]) (simp add: set_value_def)
qed


text \<open>Two variables share an object, a third has a number.\<close>

definition shared_memory :: "nat memory" where
  "shared_memory = \<lparr>mem_vars = [fresh_config (HObject 0), fresh_config (HObject 0), fresh_config (HInt 7)],
     mem_heap = [Some (2, ConfigObject [(''x'', \<lparr>he_value = fresh_config HNull, he_nr = 0, he_accessed = False\<rparr>)])]\<rparr>"

lemma shared_memory_runs:
  "exec_all [Declare New_object, Insert (Variable 0) ''x'' (Literal HNull), Declare (Copy (Variable 0)), Declare (Literal (HInt 7))]
    empty_memory = Inr shared_memory"
  by code_simp

lemma shared_memory_counted: "counted {#} shared_memory"
proof -
  have "fine (\<lambda>s. room (0 + program_cost sts) {#} s) (exec_all sts empty_memory)"
    if "program_ok 0 sts" "program_cost sts < 2 ^ 32" for sts :: "nat stmt list"
    using room_empty by (rule exec_all_fine) (use that in \<open>simp_all add: empty_memory_def\<close>)
  from this [of "[Declare New_object, Insert (Variable 0) ''x'' (Literal HNull), Declare (Copy (Variable 0)), Declare (Literal (HInt 7))]"]
  show ?thesis unfolding shared_memory_runs by (simp add: program_cost_def room_def)
qed

theorem changes_are_shared_witness:
  "\<exists>s' tj' n'. exec (Insert (Variable 0) ''y'' (Copy (Variable 2))) shared_memory = Inr s' \<and> counted {#} s' \<and>
    make_change (Insert_or_assign ''y'' (config_of (Integer 7)))
      (config_of (Object [(''x'', Entry (config_of Null) 0 False)])) = Inr tj' \<and>
    tree n' (blocks s') (mem_vars s' ! 1) = Some tj'"
proof -
  have "tree 2 (blocks shared_memory) (mem_vars shared_memory ! 1) = Some (config_of (Object [(''x'', Entry (config_of Null) 0 False)]))"
    "tree 2 ((blocks shared_memory)(0 := None)) (mem_vars shared_memory ! 2) = Some (config_of (Integer 7))"
    by (simp_all add: shared_memory_def fresh_config_def numeral_2_eq_2 tree.simps tree_val_def tree_entry_def tree_comments_def
        blocks_def block_at_def config_of_def)
  then show ?thesis
    using changes_are_shared [OF shared_memory_counted, of 0 2 0 "Insert_or_assign ''y'' (config_of (Integer 7))" 2 1
        "config_of (Object [(''x'', Entry (config_of Null) 0 False)])"]
    by (auto simp: shared_memory_def all_refs_def fresh_config_def)
qed

end
