(* ===== verification/Cfg_Clone.thy ===== *)
theory Cfg_Clone
  imports Cfg_Sharing
begin

text \<open>
  \<open>deep_clone\<close> in memory: a value that has a tree is cloned with as much fuel as the tree has levels, the clone has the tree
  that \<open>deep_clone\<close> gives for trees, and it needs no array and no object of the original.
\<close>

section \<open>The blocks of a clone\<close>

text \<open>The blocks of \<open>s'\<close> that \<open>s\<close> does not have, and the results of failed look-ups, which a clone shares.\<close>

definition own_blocks :: "'f memory \<Rightarrow> 'f memory \<Rightarrow> addr \<rightharpoonup> 'f block" where
  "own_blocks s s' a = (case blocks s' a of
      Some (BadLookupInfo d l k) \<Rightarrow> Some (BadLookupInfo d l k)
    | x \<Rightarrow> if a < length (mem_heap s) then None else x)"

text \<open>The memory has grown: the blocks that were there have what they had, except maybe the one at \<open>b\<close>.\<close>

definition grown :: "addr set \<Rightarrow> 'f memory \<Rightarrow> 'f memory \<Rightarrow> bool" where
  "grown B s s' \<longleftrightarrow> mem_vars s' = mem_vars s \<and> length (mem_heap s) \<le> length (mem_heap s') \<and>
     (\<forall>a b. a \<notin> B \<longrightarrow> blocks s a = Some b \<longrightarrow> blocks s' a = Some b)"

lemma grown_refl: "grown B s s"
  by (simp add: grown_def)

lemma grown_trans: "grown B s s1 \<Longrightarrow> grown B s1 s2 \<Longrightarrow> grown B s s2"
  by (simp add: grown_def)

lemma grown_mono: "grown B s s' \<Longrightarrow> B \<subseteq> B' \<Longrightarrow> grown B' s s'"
  unfolding grown_def by blast

lemma grown_blocks: "grown {} s s' \<Longrightarrow> blocks s \<subseteq>\<^sub>m blocks s'"
  by (auto simp: grown_def map_le_def)

lemma blocks_length: "blocks s a = Some b \<Longrightarrow> a < length (mem_heap s)"
  by (auto simp: blocks_def block_at_def split: if_splits)

text \<open>A block that is newer than \<open>s0\<close> may change.\<close>

lemma grown_new: "grown {b} s s' \<Longrightarrow> grown {} s0 s \<Longrightarrow> length (mem_heap s0) \<le> b \<Longrightarrow> grown {} s0 s'"
  unfolding grown_def using blocks_length [of s0 b] by fastforce

lemma shrunk_both_grown: "shrunk s s' \<Longrightarrow> shrunk s' s \<Longrightarrow> grown {} s s'"
  using shrunk_blocks [of s s'] by (auto simp: grown_def shrunk_def)

lemma grown_new_block: "grown {} s (snd (new_block b s))"
proof -
  have "blocks s (length (mem_heap s)) = None" by (simp add: blocks_def)
  then show ?thesis by (auto simp: grown_def blocks_new_block) (simp add: new_block_def)
qed

lemma grown_set_block: "block_at s b = Some y \<Longrightarrow> grown {b} s (set_block b x s)"
  by (auto simp: grown_def blocks_set_block)

lemma own_blocks_mono:
  assumes "grown {b} s s'"
  shows "(own_blocks s0 s)(b := None) \<subseteq>\<^sub>m (own_blocks s0 s')(b := None)"
proof -
  have "own_blocks s0 s' a = own_blocks s0 s a" if "a \<noteq> b" "a \<in> dom (own_blocks s0 s)" for a
  proof -
    have "blocks s a \<noteq> None" using that(2) by (auto simp: own_blocks_def split: option.splits if_splits)
    then have "blocks s' a = blocks s a" using assms that(1) by (auto simp: grown_def)
    then show ?thesis by (simp add: own_blocks_def)
  qed
  then show ?thesis by (auto simp: map_le_def)
qed

lemma own_blocks_later:
  assumes "length (mem_heap s0) \<le> b" "b < length (mem_heap s)" "\<And>d l k. blocks s' b \<noteq> Some (BadLookupInfo d l k)"
    and "length (mem_heap s0) \<le> length (mem_heap s)"
  shows "own_blocks s s' \<subseteq>\<^sub>m (own_blocks s0 s')(b := None)"
  using assms by (auto simp: map_le_def own_blocks_def split: option.splits block.splits if_splits)


section \<open>The steps of a clone\<close>

function nodes :: "'f config \<Rightarrow> nat" where
  "nodes c = Suc
     (case c_value c of
        Object m \<Rightarrow> sum_list (map (\<lambda>(k, e). nodes (e_value e)) m)
      | Array xs \<Rightarrow> sum_list (map nodes xs)
      | _ \<Rightarrow> 0)"
  by pat_completeness auto
termination
  by (relation "measure size") (auto intro: size_element size_member)

declare nodes.simps [simp del]

text \<open>What a clone of one \<open>Config\<close> promises; \<open>n\<close> is the fuel.\<close>

definition clones :: "nat \<Rightarrow> ('f hconfig \<Rightarrow> 'f memory \<Rightarrow> ('f hconfig \<times> 'f memory) cfg) \<Rightarrow> bool" where
  "clones n clone \<longleftrightarrow> (\<forall>N P s c t.
     room N P s \<longrightarrow> tree n (blocks s) c = Some t \<longrightarrow> set (cfg_refs c) \<subseteq> set_mset (all_refs s + P) \<longrightarrow>
     N + 2 * nodes t < 2 ^ 32 \<longrightarrow>
     (\<exists>x s'. clone c s = Inr (x, s') \<and> room (N + 2 * nodes t) (P + mset (cfg_refs x)) s' \<and> grown {} s s' \<and>
        tree n (own_blocks s s') x = Some (deep_clone t)))"

lemma clonesE:
  assumes "clones n clone" "room N P s" "tree n (blocks s) c = Some t" "set (cfg_refs c) \<subseteq> set_mset (all_refs s + P)"
    "N + 2 * nodes t < 2 ^ 32"
  obtains x s' where "clone c s = Inr (x, s')" "room (N + 2 * nodes t) (P + mset (cfg_refs x)) s'" "grown {} s s'"
    "tree n (own_blocks s s') x = Some (deep_clone t)"
  using assms unfolding clones_def by blast

lemma block_at_blocks: "blocks s a = Some b \<Longrightarrow> \<exists>n. block_at s a = Some (n, b)"
  by (auto simp: blocks_def)

lemma map_Some_mono: "map f xs = map Some us \<Longrightarrow> (\<And>x u. f x = Some u \<Longrightarrow> g x = Some u) \<Longrightarrow> map g xs = map Some us"
  by (induction xs arbitrary: us) (auto simp: Cons_eq_map_conv)

lemma clone_elements_ok:
  assumes cl: "clones n clone" and s0: "length (mem_heap s0) \<le> b" and a: "blocks s0 a = Some (ConfigArray as)"
  shows "room N P s \<Longrightarrow> grown {} s0 s \<Longrightarrow> blocks s b = Some (ConfigArray ys) \<Longrightarrow> set cs \<subseteq> set as \<Longrightarrow>
    map (tree n (blocks s0)) cs = map Some ts \<Longrightarrow> map (tree n ((own_blocks s0 s)(b := None))) ys = map Some us \<Longrightarrow>
    N + 2 * sum_list (map nodes ts) < 2 ^ 32 \<Longrightarrow>
    \<exists>s' ys'. clone_elements clone b cs s = Inr s' \<and> room (N + 2 * sum_list (map nodes ts)) P s' \<and> grown {b} s s' \<and>
      blocks s' b = Some (ConfigArray ys') \<and>
      map (tree n ((own_blocks s0 s')(b := None))) ys' = map Some (us @ map deep_clone ts)"
proof (induction cs arbitrary: N s ys ts us)
  case Nil
  then show ?case by (auto simp: grown_refl)
next
  case (Cons c cs)
  then obtain t ts' where ts: "ts = t # ts'" "tree n (blocks s0) c = Some t" "map (tree n (blocks s0)) cs = map Some ts'"
    by (auto simp: Cons_eq_map_conv)
  have t: "tree n (blocks s) c = Some t" using ts(2) grown_blocks [OF Cons.prems(2)] by (rule tree_mono_blocks)
  obtain k where "block_at s a = Some (k, ConfigArray as)"
    using Cons.prems(2) a block_at_blocks [of s a] by (auto simp: grown_def)
  moreover have "set (cfg_refs c) \<subseteq> set (block_refs (ConfigArray as))" using Cons.prems(4) by auto
  ultimately have "set (cfg_refs c) \<subseteq> set_mset (all_refs s + P)" using block_refs_all by fastforce
  then obtain x s1 where x: "clone c s = Inr (x, s1)" "room (N + 2 * nodes t) (P + mset (cfg_refs x)) s1" "grown {} s s1"
      "tree n (own_blocks s s1) x = Some (deep_clone t)"
    using clonesE [OF cl Cons.prems(1) t] Cons.prems(7) ts(1) by auto
  have "blocks s1 b = Some (ConfigArray ys)" using x(3) Cons.prems(3) by (auto simp: grown_def)
  then obtain k' where b: "block_at s1 b = Some (k', ConfigArray ys)" using block_at_blocks by blast
  let ?s2 = "set_block b (Some (k', ConfigArray (ys @ [x]))) s1"
  have r2: "room (N + 2 * nodes t) P ?s2"
    by (rule room_set_contents [OF x(2) b]) (simp_all add: ac_simps)
  have g: "grown {b} s1 ?s2" using b by (rule grown_set_block)
  have gs: "grown {b} s ?s2" using grown_trans [OF grown_mono [OF x(3)] g] by simp
  have g0: "grown {} s0 ?s2" using gs Cons.prems(2) s0 by (rule grown_new)
  have b2: "blocks ?s2 b = Some (ConfigArray (ys @ [x]))" by (simp add: blocks_set_block [OF b])
  have len: "length (mem_heap s0) \<le> length (mem_heap s)" using Cons.prems(2) by (simp add: grown_def)
  have "own_blocks s s1 \<subseteq>\<^sub>m (own_blocks s0 s1)(b := None)"
    using s0 blocks_length [OF Cons.prems(3)] _ len by (rule own_blocks_later) (simp add: \<open>blocks s1 b = _\<close>)
  then have "tree n ((own_blocks s0 s1)(b := None)) x = Some (deep_clone t)" using x(4) tree_mono_blocks by blast
  then have "tree n ((own_blocks s0 ?s2)(b := None)) x = Some (deep_clone t)"
    using own_blocks_mono [OF g] tree_mono_blocks by blast
  moreover have "map (tree n ((own_blocks s0 ?s2)(b := None))) ys = map Some us"
    using Cons.prems(6) tree_mono_blocks [OF _ own_blocks_mono [OF gs]] by (rule map_Some_mono)
  ultimately have u2: "map (tree n ((own_blocks s0 ?s2)(b := None))) (ys @ [x]) = map Some (us @ [deep_clone t])" by simp
  have cs: "set cs \<subseteq> set as" and few: "N + 2 * nodes t + 2 * sum_list (map nodes ts') < 2 ^ 32"
    using Cons.prems(4,7) ts(1) by simp_all
  obtain s' ys' where s': "clone_elements clone b cs ?s2 = Inr s'"
      "room (N + 2 * nodes t + 2 * sum_list (map nodes ts')) P s'" "grown {b} ?s2 s'"
      "blocks s' b = Some (ConfigArray ys')"
      "map (tree n ((own_blocks s0 s')(b := None))) ys' = map Some ((us @ [deep_clone t]) @ map deep_clone ts')"
    using Cons.IH [OF r2 g0 b2 cs ts(3) u2 few] by blast
  have "clone_elements clone b (c # cs) s = Inr s'" using x(1) b s'(1) by simp
  moreover have "room (N + 2 * sum_list (map nodes ts)) P s'" using s'(2) ts(1) by (simp add: algebra_simps)
  moreover have "map (tree n ((own_blocks s0 s')(b := None))) ys' = map Some (us @ map deep_clone ts)" unfolding s'(5) ts(1) by simp
  ultimately show ?case using grown_trans [OF gs s'(3)] s'(4) by blast
qed


text \<open>The members come in the order of their keys.\<close>

lemma map_set_last: "(\<forall>k'\<in>fst ` set m. k' < k) \<Longrightarrow> map_set k v m = m @ [(k, v)]"
  by (induction m) (auto dest: less_not_sym)

lemma members_append:
  "members f m mt \<Longrightarrow> f (he_value e) = Some t \<Longrightarrow>
   members f (m @ [(k, e)]) (mt @ [(k, Entry t (he_nr e) (he_accessed e))])"
  by (induction m arbitrary: mt) (auto simp: members_Cons)

lemma members_mono_fun: "members f m mt \<Longrightarrow> (\<And>c t. f c = Some t \<Longrightarrow> g c = Some t) \<Longrightarrow> members g m mt"
  unfolding members_def by (elim those_map_mono) (auto intro: tree_entry_mono)

definition clone_entry :: "string \<times> 'f entry \<Rightarrow> string \<times> 'f entry" where
  "clone_entry p = (fst p, Entry (deep_clone (e_value (snd p))) (e_nr (snd p)) False)"

lemma swap_assign_default: "swap_assign (fresh_config HUninitialized) x = (x, fresh_config HUninitialized)"
  by (cases x) (auto simp: swap_assign_def fresh_config_def Let_def)

lemma clone_members_ok:
  assumes cl: "clones n clone" and s0: "length (mem_heap s0) \<le> b" and a: "blocks s0 a = Some (ConfigObject am)"
  shows "room N P s \<Longrightarrow> grown {} s0 s \<Longrightarrow> blocks s b = Some (ConfigObject m) \<Longrightarrow> set ps \<subseteq> set am \<Longrightarrow>
    sorted_wrt (<) (map fst m @ map fst ps) \<Longrightarrow>
    members (tree n (blocks s0)) ps pt \<Longrightarrow> members (tree n ((own_blocks s0 s)(b := None))) m mt \<Longrightarrow>
    N + 2 * sum_list (map (\<lambda>(k, e). nodes (e_value e)) pt) < 2 ^ 32 \<Longrightarrow>
    \<exists>s' m'. clone_members clone b ps s = Inr s' \<and>
      room (N + 2 * sum_list (map (\<lambda>(k, e). nodes (e_value e)) pt)) P s' \<and> grown {b} s s' \<and>
      blocks s' b = Some (ConfigObject m') \<and> members (tree n ((own_blocks s0 s')(b := None))) m' (mt @ map clone_entry pt)"
proof (induction ps arbitrary: N s m mt pt)
  case Nil
  then show ?case by (auto simp: grown_refl)
next
  case (Cons p ps)
  obtain k e where p: "p = (k, e)" by force
  obtain t pt' where pt: "pt = (k, Entry t (he_nr e) (he_accessed e)) # pt'" "tree n (blocks s0) (he_value e) = Some t"
      "members (tree n (blocks s0)) ps pt'"
    using Cons.prems(6) by (auto simp: p members_Cons)
  define e0 :: "'a hentry" where "e0 = \<lparr>he_value = fresh_config HUninitialized, he_nr = he_nr e, he_accessed = False\<rparr>"
  have e0: "he_value e0 = fresh_config HUninitialized" "he_nr e0 = he_nr e" "he_accessed e0 = False" by (simp_all add: e0_def)
  have set: "map_set k v m = m @ [(k, v)]" for v
    using Cons.prems(5) by (intro map_set_last) (auto simp: p sorted_wrt_append)
  obtain k0 where b: "block_at s b = Some (k0, ConfigObject m)" using block_at_blocks [OF Cons.prems(3)] by blast
  let ?s1 = "set_block b (Some (k0, ConfigObject (m @ [(k, e0)]))) s"
  have new: "map_find m k = None" using Cons.prems(5) by (auto simp: p sorted_wrt_append map_find_def map_of_eq_None_iff)
  have r1: "room N P ?s1" using object_add(1) [OF _ b new, of N P e0] Cons.prems(1) by (simp add: set e0)
  have g1: "grown {b} s ?s1" using b by (rule grown_set_block)
  have g01: "grown {} s0 ?s1" using g1 Cons.prems(2) s0 by (rule grown_new)
  have b1: "blocks ?s1 b = Some (ConfigObject (m @ [(k, e0)]))" by (simp add: blocks_set_block [OF b])
  have t: "tree n (blocks ?s1) (he_value e) = Some t" using pt(2) grown_blocks [OF g01] by (rule tree_mono_blocks)
  obtain ka where "block_at ?s1 a = Some (ka, ConfigObject am)" using g01 a block_at_blocks [of ?s1 a] by (auto simp: grown_def)
  moreover have "set (cfg_refs (he_value e)) \<subseteq> set (block_refs (ConfigObject am))"
    using Cons.prems(4) by (auto simp: p intro!: bexI [of _ "(k, e)"])
  ultimately have "set (cfg_refs (he_value e)) \<subseteq> set_mset (all_refs ?s1 + P)" using block_refs_all by fastforce
  then obtain x s2 where x: "clone (he_value e) ?s1 = Inr (x, s2)" "room (N + 2 * nodes t) (P + mset (cfg_refs x)) s2" "grown {} ?s1 s2"
      "tree n (own_blocks ?s1 s2) x = Some (deep_clone t)"
    using clonesE [OF cl r1 t] Cons.prems(8) pt(1) by auto
  have b2: "blocks s2 b = Some (ConfigObject (m @ [(k, e0)]))" using x(3) b1 by (auto simp: grown_def)
  then obtain k2 where b2': "block_at s2 b = Some (k2, ConfigObject (m @ [(k, e0)]))" using block_at_blocks by blast
  have f2: "map_find (m @ [(k, e0)]) k = Some e0" using new by (simp add: map_find_def map_add_def split: option.splits)
  let ?e = "e0\<lparr>he_value := x\<rparr>"
  let ?s3 = "set_block b (Some (k2, ConfigObject (m @ [(k, ?e)]))) s2"
  have "map_set k ?e (map_set k e0 m) = map_set k ?e m" by (rule map_set_twice)
  then have tw: "map_set k ?e (m @ [(k, e0)]) = m @ [(k, ?e)]" unfolding set .
  have "update_at (Member b k) x s2 = set_block b (Some (k2, ConfigObject (map_set k ?e (m @ [(k, e0)])))) s2"
    using b2' f2 by simp
  then have up: "update_at (Member b k) x s2 = ?s3" unfolding tw .
  have c2: "config_at s2 (Member b k) = Some (fresh_config HUninitialized)" using b2' f2 by (simp add: e0)
  have mv: "move_assign_temp (Member b k) x s2 = Inr ?s3"
    unfolding move_assign_temp_def using c2 up
    by (simp add: get_at_config put_at_config swap_assign_default destroy_def del: config_at.simps update_at.simps)
  have r3: "room (N + 2 * nodes t) P ?s3" using room_update_at [OF x(2) c2] up by simp
  have g23: "grown {b} s2 ?s3" using b2' by (rule grown_set_block)
  have gs: "grown {b} s ?s3" using grown_trans [OF g1 grown_trans [OF grown_mono [OF x(3)] g23]] by simp
  have g03: "grown {} s0 ?s3" using gs Cons.prems(2) s0 by (rule grown_new)
  have b3: "blocks ?s3 b = Some (ConfigObject (m @ [(k, ?e)]))" by (simp add: blocks_set_block [OF b2'])
  have len: "length (mem_heap s0) \<le> length (mem_heap ?s1)" using g01 by (simp add: grown_def)
  have "own_blocks ?s1 s2 \<subseteq>\<^sub>m (own_blocks s0 s2)(b := None)"
    using s0 blocks_length [OF b1] _ len by (rule own_blocks_later) (simp add: b2)
  then have "tree n ((own_blocks s0 s2)(b := None)) x = Some (deep_clone t)" using x(4) tree_mono_blocks by blast
  then have tx: "tree n ((own_blocks s0 ?s3)(b := None)) (he_value ?e) = Some (deep_clone t)"
    using own_blocks_mono [OF g23] tree_mono_blocks by fastforce
  have "members (tree n ((own_blocks s0 ?s3)(b := None))) m mt"
    using Cons.prems(7) tree_mono_blocks [OF _ own_blocks_mono [OF gs]] by (rule members_mono_fun)
  note last = members_append [OF this tx, of k]
  have "he_nr ?e = he_nr e" "he_accessed ?e = False" by (simp_all add: e0)
  with last have m3: "members (tree n ((own_blocks s0 ?s3)(b := None))) (m @ [(k, ?e)]) (mt @ [(k, Entry (deep_clone t) (he_nr e) False)])"
    by (simp only:)
  have so: "sorted_wrt (<) (map fst (m @ [(k, ?e)]) @ map fst ps)" using Cons.prems(5) by (simp add: p)
  have ps: "set ps \<subseteq> set am" and few: "N + 2 * nodes t + 2 * sum_list (map (\<lambda>(k, e). nodes (e_value e)) pt') < 2 ^ 32"
    using Cons.prems(4,8) pt(1) by simp_all
  obtain s' m' where s': "clone_members clone b ps ?s3 = Inr s'"
      "room (N + 2 * nodes t + 2 * sum_list (map (\<lambda>(k, e). nodes (e_value e)) pt')) P s'" "grown {b} ?s3 s'"
      "blocks s' b = Some (ConfigObject m')"
      "members (tree n ((own_blocks s0 s')(b := None))) m' ((mt @ [(k, Entry (deep_clone t) (he_nr e) False)]) @ map clone_entry pt')"
    using Cons.IH [OF r3 g03 b3 ps so pt(3) m3 few] by blast
  have "clone_members clone b (p # ps) s = Inr s'" using x(1) b mv s'(1) by (simp add: p set e0_def [symmetric])
  moreover have "room (N + 2 * sum_list (map (\<lambda>(k, e). nodes (e_value e)) pt)) P s'" using s'(2) pt(1) by (simp add: algebra_simps)
  moreover have "members (tree n ((own_blocks s0 s')(b := None))) m' (mt @ map clone_entry pt)"
    using s'(5) unfolding pt(1) by (simp add: clone_entry_def)
  ultimately show ?case using grown_trans [OF gs s'(3)] s'(4) by blast
qed



section \<open>The whole clone\<close>

text \<open>One of two references is given up: the block stays.\<close>

lemma release_other:
  assumes c: "counted (add_mset (k, a) P) s" and r: "(k, a) \<in># all_refs s + P"
  obtains s' where "release [(k, a)] s = Inr s'" "shrunk s s'" "shrunk s' s"
proof -
  obtain n b where b: "block_at s a = Some (n, b)" "unat n = count (all_refs s + add_mset (k, a) P) (k, a)"
    using counted_live [OF c, of k a] by (metis union_mset_add_mset_right insert_iff set_mset_add_mset_insert)
  have "0 < count (all_refs s + P) (k, a)" using r by (metis count_greater_zero_iff)
  then have "unat n \<noteq> 1" using b(2) by simp
  then have n: "n - 1 \<noteq> 0" by auto
  let ?s = "set_block a (Some (n - 1, b)) s"
  have b': "block_at ?s a = Some (n - 1, b)" by (simp add: block_at_set_block [OF b(1)])
  have same: "set_block a (Some (n, b)) ?s = s"
    using b(1) by (auto simp: set_block_def block_at_def split: if_splits intro!: memory.equality) (metis list_update_id)
  have "shrunk ?s s" using shrunk_set_block [OF b', of "Some (n, b)" n] same by simp
  moreover have "shrunk s ?s" using shrunk_set_block [OF b(1), of "Some (n - 1, b)"] by simp
  ultimately show thesis using that b(1) n by simp
qed

text \<open>The first steps: a copy, whose array or object is then replaced by a new one.\<close>

lemma clone_start:
  assumes r: "room N P s" and c: "val_refs (h_value c) = [(k, a)]" "(k, a) \<in># all_refs s + P" and few: "N + 2 < 2 ^ 32"
    and w: "wf_block w" "block_refs w = []"
  obtains s1 s3 where "copy_config c s = Inr (c, s1)" "release [(k, a)] (snd (new_block w s1)) = Inr s3"
    "room (N + 2) (add_mset (kind_of w, length (mem_heap s1)) P) s3" "grown {} s s3"
    "blocks s3 (length (mem_heap s1)) = Some w" "length (mem_heap s1) = length (mem_heap s)"
proof -
  obtain s1 where s1: "add_ref (h_value c) s = Inr s1" "room (Suc N) (P + mset (cfg_refs c)) s1" "shrunk s s1" "shrunk s1 s"
    using add_ref_room [OF r, of "h_value c"] c few by auto
  let ?b = "length (mem_heap s1)"
  let ?s2 = "snd (new_block w s1)"
  have r2: "room (N + 2) (add_mset (k, a) (add_mset (kind_of w, ?b) P)) ?s2"
    using room_new_block [of "Suc N" "P + mset (cfg_refs c)" w s1] s1(2) c(1) w by (simp add: add_mset_commute)
  have "all_refs s1 = all_refs s" using s1(3,4) by (auto simp: shrunk_def intro: subset_mset.antisym)
  then have "(k, a) \<in># all_refs ?s2 + add_mset (kind_of w, ?b) P" using c(2) by (auto simp: all_refs_new_block)
  then obtain s3 where s3: "release [(k, a)] ?s2 = Inr s3" "shrunk ?s2 s3" "shrunk s3 ?s2"
    using release_other [OF room_counted [OF r2]] by metis
  have "room (N + 2) (add_mset (kind_of w, ?b) P) s3"
  proof -
    have "room (N + 2) (add_mset (kind_of w, ?b) P + mset [(k, a)]) ?s2" using r2 by simp
    then show ?thesis by (rule release_room) (use s3(1) in simp)
  qed
  moreover have "grown {} s s3"
    using shrunk_both_grown [OF s1(3,4)] grown_new_block shrunk_both_grown [OF s3(2,3)] grown_trans by metis
  moreover have "blocks s3 ?b = Some w"
    using shrunk_blocks [OF s3(2,3)] by (simp add: blocks_new_block)
  moreover have "?b = length (mem_heap s)" using s1(3) by (simp add: shrunk_def)
  moreover have "copy_config c s = Inr (c, s1)" using s1(1) by (simp add: copy_config_def)
  ultimately show thesis using that s3(1) by blast
qed

lemma swap_assign_new:
  "swap_assign c (fresh_config v) = (c\<lparr>h_value := v\<rparr>, (fresh_config v)\<lparr>h_value := h_value c\<rparr>)"
  by (cases c) (auto simp: swap_assign_def fresh_config_def Let_def)

lemma h_as_block:
  "h_value c = HArray a \<Longrightarrow> blocks s a = Some (ConfigArray cs) \<Longrightarrow> h_as_array c s = Inr (a, cs)"
  "h_value c = HObject a \<Longrightarrow> blocks s a = Some (ConfigObject m) \<Longrightarrow> h_as_object c s = Inr (a, m)"
  by (auto simp: h_as_array_def h_as_object_def blocks_def)

lemma tree_block:
  assumes "tree (Suc n) H c = Some t"
  shows "h_value c = HArray a \<Longrightarrow> \<exists>cs ts. H a = Some (ConfigArray cs) \<and> map (tree n H) cs = map Some ts \<and> c_value t = Array ts"
    "h_value c = HObject a \<Longrightarrow> \<exists>m mt. H a = Some (ConfigObject m) \<and> members (tree n H) m mt \<and> c_value t = Object mt"
  using assms by (auto simp: tree_Suc tree_val_def those_eq_Some members_def split: option.splits block.splits)

lemma clone_array:
  fixes s :: "'f memory"
  assumes cl: "clones n (h_deep_clone n :: 'f hconfig \<Rightarrow> _)" and r: "room N P s" and t: "tree (Suc n) (blocks s) c = Some t"
    and c: "h_value c = HArray a" "(Array_kind, a) \<in># all_refs s + P" and few: "N + 2 * nodes t < 2 ^ 32"
  shows "\<exists>x s'. h_deep_clone (Suc n) c s = Inr (x, s') \<and> room (N + 2 * nodes t) (P + mset (cfg_refs x)) s' \<and> grown {} s s' \<and>
    tree (Suc n) (own_blocks s s') x = Some (deep_clone t)"
proof -
  obtain cs ts where cs: "blocks s a = Some (ConfigArray cs)" "map (tree n (blocks s)) cs = map Some ts" "c_value t = Array ts"
    using tree_block(1) [OF t c(1)] by blast
  have nt: "nodes t = Suc (sum_list (map nodes ts))" using cs(3) by (simp add: nodes.simps)
  have few2: "N + 2 < 2 ^ 32" using few nt by simp
  obtain s1 s3 where s: "copy_config c s = Inr (c, s1)" "release [(Array_kind, a)] (snd (new_block (ConfigArray []) s1)) = Inr s3"
      "room (N + 2) (add_mset (Array_kind, length (mem_heap s1)) P) s3" "grown {} s s3"
      "blocks s3 (length (mem_heap s1)) = Some (ConfigArray [])" "length (mem_heap s1) = length (mem_heap s)"
    using clone_start [OF r _ c(2) few2, of c "ConfigArray []"] c(1) by auto
  let ?b = "length (mem_heap s1)"
  have a3: "blocks s3 a = Some (ConfigArray cs)" using s(4) cs(1) by (auto simp: grown_def)
  have few3: "N + 2 + 2 * sum_list (map nodes ts) < 2 ^ 32" using few nt by simp
  have b: "length (mem_heap s) \<le> ?b" and nil: "map (tree n ((own_blocks s s3)(?b := None))) [] = map Some ([] :: 'f config list)"
    using s(6) by simp_all
  obtain s' ys where s': "clone_elements (h_deep_clone n) ?b cs s3 = Inr s'"
      "room (N + 2 + 2 * sum_list (map nodes ts)) (add_mset (Array_kind, ?b) P) s'" "grown {?b} s3 s'"
      "blocks s' ?b = Some (ConfigArray ys)" "map (tree n ((own_blocks s s')(?b := None))) ys = map Some ([] @ map deep_clone ts)"
    using clone_elements_ok [OF cl b cs(1) s(3,4,5) subset_refl cs(2) nil few3] by blast
  let ?x = "c\<lparr>h_value := HArray ?b\<rparr>"
  have ex: "h_deep_clone (Suc n) c s = Inr (?x, s')"
    using s(1,2) s'(1) c(1) h_as_block(1) [OF c(1) a3] h_as_block(1) [of ?x ?b s3 "[]"] s(5)
    by (simp add: array_config_def Let_def split_def swap_assign_new destroy_def new_block_def)
  have "?b \<notin> dom (blocks s)" using blocks_length [of s ?b] s(6) by auto
  then have "grown {} s s'" using grown_new [OF s'(3) s(4)] s(6) by simp
  moreover have "tree (Suc n) (own_blocks s s') ?x = Some (deep_clone t)"
  proof -
    have "map (tree n (own_blocks s s')) ys = map Some ([] @ map deep_clone ts)"
      using s'(5) tree_mono_blocks [OF _ without_le] by (rule map_Some_mono)
    moreover have "own_blocks s s' ?b = Some (ConfigArray ys)" using s'(4) s(6) by (simp add: own_blocks_def)
    moreover obtain cm where "tree_comments (h_comments c) = Some cm" "t = Config (Array ts) (h_doc c) (h_line c) cm"
      using t cs(3) by (auto simp: tree_Suc)
    ultimately show ?thesis
      by (simp add: tree_Suc tree_val_def those_eq_Some deep_clone.simps set_value_def)
  qed
  moreover have "room (N + 2 * nodes t) (P + mset (cfg_refs ?x)) s'" using s'(2) nt by simp
  ultimately show ?thesis using ex by blast
qed


lemma clone_object:
  fixes s :: "'f memory"
  assumes cl: "clones n (h_deep_clone n :: 'f hconfig \<Rightarrow> _)" and r: "room N P s" and t: "tree (Suc n) (blocks s) c = Some t"
    and c: "h_value c = HObject a" "(Object_kind, a) \<in># all_refs s + P" and few: "N + 2 * nodes t < 2 ^ 32"
  shows "\<exists>x s'. h_deep_clone (Suc n) c s = Inr (x, s') \<and> room (N + 2 * nodes t) (P + mset (cfg_refs x)) s' \<and> grown {} s s' \<and>
    tree (Suc n) (own_blocks s s') x = Some (deep_clone t)"
proof -
  obtain m mt where m: "blocks s a = Some (ConfigObject m)" "members (tree n (blocks s)) m mt" "c_value t = Object mt"
    using tree_block(2) [OF t c(1)] by blast
  have nt: "nodes t = Suc (sum_list (map (\<lambda>(k, e). nodes (e_value e)) mt))" using m(3) by (simp add: nodes.simps)
  have few2: "N + 2 < 2 ^ 32" using few nt by simp
  obtain s1 s3 where s: "copy_config c s = Inr (c, s1)" "release [(Object_kind, a)] (snd (new_block (ConfigObject []) s1)) = Inr s3"
      "room (N + 2) (add_mset (Object_kind, length (mem_heap s1)) P) s3" "grown {} s s3"
      "blocks s3 (length (mem_heap s1)) = Some (ConfigObject [])" "length (mem_heap s1) = length (mem_heap s)"
    using clone_start [OF r _ c(2) few2, of c "ConfigObject []"] c(1) by auto
  let ?b = "length (mem_heap s1)"
  have a3: "blocks s3 a = Some (ConfigObject m)" using s(4) m(1) by (auto simp: grown_def)
  have few3: "N + 2 + 2 * sum_list (map (\<lambda>(k, e). nodes (e_value e)) mt) < 2 ^ 32" using few nt by simp
  have b: "length (mem_heap s) \<le> ?b" and nil: "members (tree n ((own_blocks s s3)(?b := None))) [] []"
    using s(6) by simp_all
  obtain k0 where "block_at s a = Some (k0, ConfigObject m)" using block_at_blocks [OF m(1)] by blast
  then have so: "sorted_wrt (<) (map fst ([] :: (string, 'f hentry) std_map) @ map fst m)"
    using counted_wf_object [OF room_counted [OF r]] by (simp add: map_wf_def)
  obtain s' m' where s': "clone_members (h_deep_clone n) ?b m s3 = Inr s'"
      "room (N + 2 + 2 * sum_list (map (\<lambda>(k, e). nodes (e_value e)) mt)) (add_mset (Object_kind, ?b) P) s'" "grown {?b} s3 s'"
      "blocks s' ?b = Some (ConfigObject m')" "members (tree n ((own_blocks s s')(?b := None))) m' ([] @ map clone_entry mt)"
    using clone_members_ok [OF cl b m(1) s(3,4,5) subset_refl so m(2) nil few3] by blast
  let ?x = "c\<lparr>h_value := HObject ?b\<rparr>"
  have ex: "h_deep_clone (Suc n) c s = Inr (?x, s')"
    using s(1,2) s'(1) c(1) h_as_block(2) [OF c(1) a3] h_as_block(2) [of ?x ?b s3 "[]"] s(5)
    by (simp add: object_config_def Let_def split_def swap_assign_new destroy_def new_block_def)
  have "grown {} s s'" using grown_new [OF s'(3) s(4)] s(6) by simp
  moreover have "tree (Suc n) (own_blocks s s') ?x = Some (deep_clone t)"
  proof -
    have "members (tree n (own_blocks s s')) m' ([] @ map clone_entry mt)"
      using s'(5) tree_mono_blocks [OF _ without_le] by (rule members_mono_fun)
    moreover have "own_blocks s s' ?b = Some (ConfigObject m')" using s'(4) s(6) by (simp add: own_blocks_def)
    moreover obtain cm where "tree_comments (h_comments c) = Some cm" "t = Config (Object mt) (h_doc c) (h_line c) cm"
      using t m(3) by (auto simp: tree_Suc)
    moreover have "map clone_entry mt = map (\<lambda>(k, e). (k, Entry (deep_clone (e_value e)) (e_nr e) False)) mt"
      by (simp add: clone_entry_def split_def)
    ultimately show ?thesis
      by (simp add: tree_Suc tree_val_def members_def deep_clone.simps set_value_def)
  qed
  moreover have "room (N + 2 * nodes t) (P + mset (cfg_refs ?x)) s'" using s'(2) nt by simp
  ultimately show ?thesis using ex by blast
qed

text \<open>A value without array or object is copied.\<close>

lemma clone_leaf:
  assumes r: "room N P s" and t: "tree (Suc n) (blocks s) c = Some t"
    and c: "\<And>a. h_value c \<noteq> HArray a" "\<And>a. h_value c \<noteq> HObject a" "set (cfg_refs c) \<subseteq> set_mset (all_refs s + P)"
    and few: "N + 2 * nodes t < 2 ^ 32"
  shows "\<exists>x s'. h_deep_clone (Suc n) c s = Inr (x, s') \<and> room (N + 2 * nodes t) (P + mset (cfg_refs x)) s' \<and> grown {} s s' \<and>
    tree (Suc n) (own_blocks s s') x = Some (deep_clone t)"
proof -
  have nt: "1 \<le> nodes t" by (simp add: nodes.simps)
  then have few1: "Suc N < 2 ^ 32" using few by simp
  obtain s' where s': "add_ref (h_value c) s = Inr s'" "room (Suc N) (P + mset (cfg_refs c)) s'" "shrunk s s'" "shrunk s' s"
    using add_ref_room [OF r c(3) few1] by blast
  have "h_deep_clone (Suc n) c s = Inr (c, s')"
    using s'(1) c(1,2) by (cases "h_value c") (auto simp: copy_config_def)
  moreover have "room (N + 2 * nodes t) (P + mset (cfg_refs c)) s'" using s'(2) nt by (elim room_mono) simp
  moreover have "tree (Suc n) (own_blocks s s') c = Some (deep_clone t)"
  proof -
    obtain cm v where v: "tree_comments (h_comments c) = Some cm" "tree_val (tree n (blocks s)) (blocks s) (h_value c) = Some v"
        "t = Config v (h_doc c) (h_line c) cm" using t unfolding tree_Suc by blast
    have "tree_val (tree n (own_blocks s s')) (own_blocks s s') (h_value c) = Some v"
      using v(2) c(1,2) shrunk_blocks [OF s'(3,4)]
      by (cases "h_value c") (auto simp: tree_val_def own_blocks_def split: option.splits block.splits)
    moreover have "deep_clone t = t"
      using v(2,3) c(1,2)
      by (cases "h_value c") (auto simp: tree_val_def deep_clone.simps split: option.splits block.splits)
    ultimately show ?thesis using v unfolding tree_Suc by metis
  qed
  ultimately show ?thesis using shrunk_both_grown [OF s'(3,4)] by blast
qed

lemma deep_clone_clones: "clones n (h_deep_clone n :: 'f hconfig \<Rightarrow> _)"
proof (induction n)
  case 0
  show ?case by (simp add: clones_def)
next
  case (Suc n)
  show ?case
    unfolding clones_def
  proof (intro allI impI)
    fix N P and s :: "'f memory" and c t
    assume *: "room N P s" "tree (Suc n) (blocks s) c = Some t" "set (cfg_refs c) \<subseteq> set_mset (all_refs s + P)" "N + 2 * nodes t < 2 ^ 32"
    show "\<exists>x s'. h_deep_clone (Suc n) c s = Inr (x, s') \<and> room (N + 2 * nodes t) (P + mset (cfg_refs x)) s' \<and> grown {} s s' \<and>
        tree (Suc n) (own_blocks s s') x = Some (deep_clone t)"
    proof (cases "\<exists>a. h_value c = HArray a \<or> h_value c = HObject a")
      case True
      then obtain a where "h_value c = HArray a \<or> h_value c = HObject a" by blast
      then show ?thesis
      proof
        assume v: "h_value c = HArray a"
        then show ?thesis using clone_array [OF Suc.IH *(1,2) v _ *(4)] *(3) by simp
      next
        assume v: "h_value c = HObject a"
        then show ?thesis using clone_object [OF Suc.IH *(1,2) v _ *(4)] *(3) by simp
      qed
    next
      case False
      then show ?thesis using clone_leaf [OF *(1,2) _ _ *(3,4)] by blast
    qed
  qed
qed

text \<open>
  C27: \<open>deep_clone\<close> gives a value of its own: the clone of a \<open>Config\<close> with a tree ends, has the tree that
  \<open>deep_clone\<close> gives for trees, and this tree is made of new blocks only (and of results of failed look-ups, which
  nobody changes), so that no change of the original shows in it; all that was in memory stays, and the counters are exact.
\<close>

theorem deep_clone_is_independent:
  assumes "counted {#} s" "i < length (mem_vars s)" "tree n (blocks s) (mem_vars s ! i) = Some t"
    and "size (all_refs s) + 2 * nodes t < 2 ^ 32"
  shows "\<exists>x s'. h_deep_clone n (mem_vars s ! i) s = Inr (x, s') \<and> counted (mset (cfg_refs x)) s' \<and>
    tree n (own_blocks s s') x = Some (deep_clone t) \<and> mem_vars s' = mem_vars s \<and> blocks s \<subseteq>\<^sub>m blocks s'"
proof -
  have r: "room (size (all_refs s)) {#} s" using assms(1) by (simp add: room_def)
  have "config_at s (Var i) = Some (mem_vars s ! i)" using assms(2) by simp
  then have "set (cfg_refs (mem_vars s ! i)) \<subseteq> set_mset (all_refs s + {#})" by (rule config_refs_pending)
  then obtain x s' where "h_deep_clone n (mem_vars s ! i) s = Inr (x, s')"
      "room (size (all_refs s) + 2 * nodes t) ({#} + mset (cfg_refs x)) s'" "grown {} s s'"
      "tree n (own_blocks s s') x = Some (deep_clone t)"
    using clonesE [OF deep_clone_clones r assms(3) _ assms(4)] by metis
  then show ?thesis using grown_blocks [of s s'] room_counted by (fastforce simp: grown_def)
qed

theorem deep_clone_is_independent_witness:
  "\<exists>x s'. h_deep_clone 2 (mem_vars shared_memory ! 0) shared_memory = Inr (x, s') \<and> counted (mset (cfg_refs x)) s' \<and>
    tree 2 (own_blocks shared_memory s') x = Some (config_of (Object [(''x'', Entry (config_of Null) 0 False)]))"
proof -
  let ?t = "config_of (Object [(''x'', Entry (config_of Null) 0 False)]) :: nat config"
  have t: "tree 2 (blocks shared_memory) (mem_vars shared_memory ! 0) = Some ?t"
    by (simp add: shared_memory_def fresh_config_def numeral_2_eq_2 tree.simps tree_val_def tree_entry_def tree_comments_def
        blocks_def block_at_def config_of_def)
  have "deep_clone ?t = ?t" by (simp add: deep_clone.simps config_of_def set_value_def)
  then show ?thesis
    using deep_clone_is_independent [OF shared_memory_counted _ t]
    by (auto simp: shared_memory_def all_refs_def fresh_config_def nodes.simps config_of_def)
qed

end
