(* ===== verification/Cfg_Equal.thy ===== *)
theory Cfg_Equal
  imports Cfg_Clone Cfg_Properties
begin

text \<open>
  \<open>deep_eq\<close> in memory is \<open>deep_eq\<close> of trees: where numbers are equal to themselves, the answer at once for a shared array
  or object is the one that the comparison would have given.
\<close>

section \<open>Comparisons of members and of elements\<close>

lemma eq_members_tree:
  assumes eq: "\<And>c d t u. tree n H c = Some t \<Longrightarrow> tree n H d = Some u \<Longrightarrow> well_formed t \<Longrightarrow> eq c d = Inr (deep_eq feq t u)"
    and m': "members (tree n H) m' mt'"
  shows "members (tree n H) m mt \<Longrightarrow> \<forall>p\<in>set mt. well_formed (e_value (snd p)) \<Longrightarrow>
    eq_members eq m' m = Inr (\<forall>p\<in>set mt. case map_find mt' (fst p) of
      None \<Rightarrow> False | Some e' \<Rightarrow> deep_eq feq (e_value (snd p)) (e_value e'))"
proof (induction m arbitrary: mt)
  case (Cons p m)
  obtain k e where p: "p = (k, e)" by force
  obtain t mt1 where t: "tree n H (he_value e) = Some t" "members (tree n H) m mt1"
      "mt = (k, Entry t (he_nr e) (he_accessed e)) # mt1"
    using Cons.prems(1) by (auto simp: p members_Cons)
  note IH = Cons.IH [OF t(2)]
  show ?case
  proof (cases "map_find m' k")
    case None
    then show ?thesis using find_none [OF m' None] t(3) by (simp add: p)
  next
    case (Some e')
    obtain u where u: "tree n H (he_value e') = Some u" "map_find mt' k = Some (Entry u (he_nr e') (he_accessed e'))"
      using members_find [OF m', of k] Some by auto
    have "eq (he_value e) (he_value e') = Inr (deep_eq feq t u)" using eq [OF t(1) u(1)] Cons.prems(2) t(3) by simp
    then show ?thesis using IH Some u(2) t(3) Cons.prems(2) by (simp add: p)
  qed
qed simp

lemma eq_elements_tree:
  assumes eq: "\<And>c d t u. tree n H c = Some t \<Longrightarrow> tree n H d = Some u \<Longrightarrow> well_formed t \<Longrightarrow> eq c d = Inr (deep_eq feq t u)"
  shows "map (tree n H) cs = map Some ts \<Longrightarrow> \<forall>t\<in>set ts. well_formed t \<Longrightarrow>
    eq_elements eq cs = Inr (\<forall>t\<in>set ts. deep_eq feq t t)"
proof (induction cs arbitrary: ts)
  case (Cons c cs)
  then obtain t ts' where "ts = t # ts'" "tree n H c = Some t" "map (tree n H) cs = map Some ts'" by (auto simp: Cons_eq_map_conv)
  then show ?case using Cons.IH [of ts'] eq [of c t c t] Cons.prems(2) by simp
qed simp

text \<open>The kind of a value shows in its tree.\<close>

lemma tree_shape:
  assumes "tree (Suc n) H c = Some t"
  shows "(case h_value c of
      HUninitialized \<Rightarrow> c_value t = Uninitialized
    | HBadLookup _ \<Rightarrow> (\<exists>d l k. c_value t = BadLookupType d l k)
    | HNull \<Rightarrow> c_value t = Null
    | HBool b \<Rightarrow> c_value t = Bool b
    | HInt i \<Rightarrow> c_value t = Integer i
    | HFloat x \<Rightarrow> c_value t = Float x
    | HString s \<Rightarrow> c_value t = Str s
    | HArray _ \<Rightarrow> (\<exists>ts. c_value t = Array ts)
    | HObject _ \<Rightarrow> (\<exists>m. c_value t = Object m))"
  using assms by (auto simp: tree_Suc tree_val_def split: hval.splits option.splits block.splits)

lemma deep_eq_value: "c_value a = c_value a' \<Longrightarrow> c_value b = c_value b' \<Longrightarrow> deep_eq feq a b = deep_eq feq a' b'"
  by (simp add: deep_eq.simps [of feq a b] deep_eq.simps [of feq a' b'])

text \<open>
  \<open>deep_eq\<close> in memory, with its answer at once for shared arrays and objects, gives what \<open>deep_eq\<close> gives for the trees,
  where each number is equal to itself and the first value has nothing uninitialized in it.
\<close>

theorem deep_eq_in_memory:
  assumes refl: "\<And>x. feq x x"
  shows "tree n (blocks s) a = Some ta \<Longrightarrow> tree n (blocks s) b = Some tb \<Longrightarrow> well_formed ta \<Longrightarrow>
    h_deep_eq feq n s a b = Inr (deep_eq feq ta tb)"
proof (induction n arbitrary: a b ta tb)
  case (Suc n)
  have wf: "well_formed ta" using Suc.prems(3) .
  have "deep_eq feq ta ta" using deep_eq_refl [where feq = feq, OF refl] wf by blast
  then have same: "deep_eq feq ta tb" if "c_value tb = c_value ta" using deep_eq_value [of ta ta tb ta] that by simp
  show ?case
  proof (cases "h_value a")
    case (HArray p)
    obtain cs ts where a: "blocks s p = Some (ConfigArray cs)" "map (tree n (blocks s)) cs = map Some ts" "c_value ta = Array ts"
      using tree_block(1) [OF Suc.prems(1) HArray] by blast
    show ?thesis
    proof (cases "\<exists>q. h_value b = HArray q")
      case True
      then obtain q where q: "h_value b = HArray q" by blast
      obtain cs' ts' where b: "blocks s q = Some (ConfigArray cs')" "map (tree n (blocks s)) cs' = map Some ts'" "c_value tb = Array ts'"
        using tree_block(1) [OF Suc.prems(2) q] by blast
      show ?thesis
      proof (cases "p = q")
        case True
        then have "map Some ts = map Some ts'" using a b by simp
        then have "ts' = ts" by (simp add: inj_map_eq_map)
        then show ?thesis using True HArray q same a(3) b(3) by simp
      next
        case False
        have "length cs = length ts" "length cs' = length ts'" using a(2) b(2) by (auto dest: map_eq_imp_length_eq)
        moreover have "\<forall>t\<in>set ts. well_formed t" using wf a(3) by (simp add: well_formed.simps [of ta])
        then have "eq_elements (h_deep_eq feq n s) cs = Inr (\<forall>t\<in>set ts. deep_eq feq t t)"
          using eq_elements_tree [where eq = "h_deep_eq feq n s" and feq = feq, OF Suc.IH a(2)] by blast
        ultimately show ?thesis
          using False HArray q h_as_block(1) [OF HArray a(1)] h_as_block(1) [OF q b(1)] a(3) b(3)
          by (simp add: deep_eq.simps [of feq ta tb])
      qed
    next
      case False
      then show ?thesis
        using HArray a(3) tree_shape [OF Suc.prems(2)] by (cases "h_value b") (auto simp: deep_eq.simps [of feq ta tb])
    qed
  next
    case (HObject p)
    obtain m mt where a: "blocks s p = Some (ConfigObject m)" "members (tree n (blocks s)) m mt" "c_value ta = Object mt"
      using tree_block(2) [OF Suc.prems(1) HObject] by blast
    show ?thesis
    proof (cases "\<exists>q. h_value b = HObject q")
      case True
      then obtain q where q: "h_value b = HObject q" by blast
      obtain m' mt' where b: "blocks s q = Some (ConfigObject m')" "members (tree n (blocks s)) m' mt'" "c_value tb = Object mt'"
        using tree_block(2) [OF Suc.prems(2) q] by blast
      show ?thesis
      proof (cases "p = q")
        case True
        then have "mt' = mt" using a b by (simp add: members_def)
        then show ?thesis using True HObject q same a(3) b(3) by simp
      next
        case False
        have "\<forall>p\<in>set mt. well_formed (e_value (snd p))" using wf a(3) by (simp add: well_formed.simps [of ta])
        then have "eq_members (h_deep_eq feq n s) m' m = Inr (\<forall>p\<in>set mt. case map_find mt' (fst p) of
            None \<Rightarrow> False | Some e' \<Rightarrow> deep_eq feq (e_value (snd p)) (e_value e'))"
          using eq_members_tree [where eq = "h_deep_eq feq n s" and feq = feq, OF Suc.IH b(2) a(2)] by blast
        then show ?thesis
          using False HObject q h_as_block(2) [OF HObject a(1)] h_as_block(2) [OF q b(1)] a(3) b(3)
            members_length [OF a(2)] members_length [OF b(2)]
          by (simp add: deep_eq.simps [of feq ta tb])
      qed
    next
      case False
      then show ?thesis
        using HObject a(3) tree_shape [OF Suc.prems(2)] by (cases "h_value b") (auto simp: deep_eq.simps [of feq ta tb])
    qed
  qed (use wf tree_shape [OF Suc.prems(1)] tree_shape [OF Suc.prems(2)] in
      \<open>cases "h_value b"; auto simp: deep_eq.simps [of feq ta tb] well_formed.simps [of ta]\<close>)+
qed simp


theorem deep_eq_in_memory_witness:
  "h_deep_eq (=) 2 shared_memory (mem_vars shared_memory ! 0) (mem_vars shared_memory ! 1) =
   Inr (deep_eq ((=) :: nat \<Rightarrow> nat \<Rightarrow> bool) (config_of (Object [(''x'', Entry (config_of Null) 0 False)])) (config_of (Object [(''x'', Entry (config_of Null) 0 False)])))"
proof (rule deep_eq_in_memory)
  show "tree 2 (blocks shared_memory) (mem_vars shared_memory ! 0) = Some (config_of (Object [(''x'', Entry (config_of Null) 0 False)]))"
    "tree 2 (blocks shared_memory) (mem_vars shared_memory ! 1) = Some (config_of (Object [(''x'', Entry (config_of Null) 0 False)]))"
    by (simp_all add: shared_memory_def fresh_config_def numeral_2_eq_2 tree.simps tree_val_def tree_entry_def tree_comments_def
        blocks_def block_at_def config_of_def)
qed (simp_all add: well_formed.simps config_of_def map_wf_def)

end
