(* ===== verification/Spec2Isabelle.thy ===== *)
theory Spec2Isabelle
  imports Request_Lifecycle Dispatch_Witnesses Thread_Properties Encoder_Safety Profiler Cfg_Witnesses Cfg_Equal
begin

text \<open>
  Verification of \<open>ats_fastcgi\<close>, a FastCGI plugin for Apache Traffic Server (the C++ code under
  \<open>src/src\<close>).

  \<^bold>\<open>The program.\<close> Traffic Server calls the hook \<open>handleReadCacheLookupComplete\<close>
  (\<open>ats_fastcgi.cc\<close>) for every request. One that the cache cannot answer becomes a
  \<open>ServerIntercept\<close> and goes to \<open>Server::connect\<close>, which gives it a connection of the thread's
  \<open>ConnectionPool\<close> or puts it into the thread's \<open>RequestQueue\<close>. When the connection is there, an
  \<open>FCGIClientRequest\<close> is made from the HTTP request, the intercept is added to the transaction and the
  transaction resumed; Traffic Server then gives the intercept the header and the body of the
  request (\<open>consume\<close>, \<open>handleInputComplete\<close>), which are encoded into FastCGI records and written to the
  connection. What the backend sends comes as events of the connection
  (\<open>handlePHPConnectionEvents\<close>), is decoded and passed on to the client. The end of the response,
  or of the client, gives the connection back and takes the next request from the queue.
  \<open>ats_fastcgi.cc\<close> also includes \<open>configuru.hpp\<close>, a library for configuration files in JSON and in
  a format of its own, more than half of the code; the handlers above do not call it yet.

  \<^bold>\<open>Theories and sources.\<close>
  \<^item> \<open>Prelude\<close>: bytes and machine integers, the datatype \<open>crash\<close> of what the C++ code must not do (null
    dereference, use after free, writes and reads out of bounds, signed overflow, failed assertion),
    \<open>bindE\<close>, raw memory. Every operation that can crash has the type \<open>crash + 'a\<close>.
    \<open>Std_Map\<close>: \<open>std::map\<close> as a list sorted by key (interface \<open>finite_dict\<close>). \<open>C_Strings\<close>: the
    functions of the C library on strings that the code calls.
  \<^item> \<open>Fcgi_Protocol\<close> (\<open>fcgi_protocol.h\<close>, the macros of \<open>ats_fcgi_client.h\<close>): structs and constants.
    \<open>Fcgi_Wire\<close>: how a reader of the FastCGI specification splits a stream, the
    specification of encoder and decoder (interface \<open>prefix_code\<close>); not code of the plugin.
  \<^item> \<open>Fcgi_Config\<close> (\<open>fcgi_config.cc\<close>, \<open>fcgi_config.h\<close>): both file formats, which share one line
    parser (interface \<open>line_format\<close>), the look-up of names, defaults, getters and setters.
  \<^item> \<open>Fcgi_Request\<close> (\<open>ats_fcgi_client.cc\<close>): the CGI variables, the buffer with its bounds (interface
    \<open>byte_sink\<close>), \<open>createBeginRequest\<close>, \<open>postBodyChunk\<close>, \<open>emptyParam\<close>. \<open>Encoder_Safety\<close>: the type of
    the encoder's state under every sequence of these operations.
  \<^item> \<open>Fcgi_Response\<close> (\<open>ats_fcgi_client.cc\<close>): the record parser, one byte at a time, the chunk loop, and
    the status line made from the CGI header. \<open>Fcgi_Decoding\<close>: its correctness for every way to cut
    a stream into chunks (interface \<open>chunk_decoder\<close>, relation \<open>received\<close> between the state of the parser
    and the bytes it has seen).
  \<^item> \<open>Request_Queue\<close> (\<open>request_queue.cc\<close>; interface \<open>bounded_fifo\<close>), \<open>Connection_Pool\<close>
    (\<open>connection_pool.cc\<close>; interface \<open>bounded_pool\<close>), \<open>Server_Connection\<close> (\<open>server_connection.cc\<close>:
    channels, the connection, the address of the backend), \<open>Server_Intercept\<close>
    (\<open>server_intercept.cc\<close>), \<open>Server\<close> and \<open>Backend_Events\<close> (\<open>server.cc\<close>), \<open>Plugin\<close>
    (\<open>ats_fastcgi.cc\<close>), \<open>Profiler\<close> (\<open>Profiler.h\<close>).
  \<^item> \<open>Server_Invariant\<close>, \<open>Server_Steps\<close>: the server as a state machine. \<open>Queue_Steps\<close>: the sizes of pool and queue, as the
    settings make them, and how a step changes the queue. \<open>Server_Properties\<close>: what single
    handlers do to requests. \<open>Server_Dispatch\<close>: refinement of an abstract dispatcher.
    \<open>Request_Lifecycle\<close> and this theory: one request from the hook to its response.
    \<open>Server_Witnesses\<close>, \<open>Dispatch_Witnesses\<close>: concrete states and runs in which the hypotheses hold.
  \<^item> \<open>Threads\<close>: the plugin with all its event threads (record \<open>system\<close>, relation \<open>system_step\<close>). \<open>Thread_Frame\<close>: each
    handler runs on the part of its own thread as it does with the whole table, and changes nothing outside. \<open>Thread_Properties\<close>:
    what follows for all threads, and two threads as examples.
  \<^item> \<open>configuru.hpp\<close>: \<open>Cfg_Value\<close> (class \<open>Config\<close>), \<open>Cfg_State\<close> (format options, position in the text,
    documents, errors), \<open>Cfg_Scan\<close> (white space, strings, numbers), \<open>Cfg_Parser\<close> (values, included
    files, the top level), \<open>Cfg_Writer\<close>. \<open>Cfg_Termination\<close>: every step of the parser goes forward
    (\<open>goes\<close>). \<open>Cfg_Json\<close>, \<open>Cfg_Roundtrip\<close>: tokens and then values of JSON are read as they were written.
    \<open>Cfg_Serialize\<close>: \<open>serialize\<close> and \<open>deserialize\<close>. \<open>Cfg_Unicode\<close>: escapes against a reader of UTF-8. \<open>Cfg_Objects\<close>: objects as maps, the order of members.
    \<open>Cfg_Typing\<close>: parsed values are well formed. \<open>Cfg_Properties\<close>: comparison, copies, conversions, and texts
    that cannot be read back. \<open>Cfg_Witnesses\<close>: examples.
  \<^item> \<open>configuru.hpp\<close>, the class \<open>Config\<close> in memory: \<open>Cfg_Memory\<close> has the blocks that copies of an array or an object
    share, with their counters of 32 bits, the assignments, the destructor (\<open>release\<close>), the operations on
    arrays and objects, \<open>deep_clone\<close>, \<open>deep_eq\<close>, and programs of statements that use them (\<open>exec_all\<close>).
    \<open>Cfg_Counts\<close>: the invariant \<open>counted\<close>, the counters are exact. \<open>Cfg_Safety\<close>: every statement keeps it.
    \<open>Cfg_Sharing\<close>: the abstraction \<open>tree\<close> from memory to the trees of \<open>Cfg_Value\<close>, changes of a shared object.
    \<open>Cfg_Clone\<close>, \<open>Cfg_Equal\<close>: clones and comparisons in memory and of trees.

  \<^bold>\<open>State.\<close> A C++ object is a record with the members of its class. Intercepts and connections live
  in heaps, functions from addresses to objects; \<open>delete\<close> removes the object, and an access to an
  address without object is \<open>UseAfterFree\<close>. The record \<open>world\<close> is what one event thread can reach: both
  heaps, the table \<open>_intercept_list\<close>, the counter of request ids, the thread's data (pool and
  queue), the statistics, and the list of the calls made to Traffic Server, in order. Handlers are
  functions on \<open>world\<close>, composed as the code composes them; \<open>server_step\<close> is the relation of everything
  Traffic Server may do next, and \<open>reachable\<close> are the states it leads to, with what the other threads may do in between
  (\<open>interference\<close>).

  \<^bold>\<open>What is shown.\<close>
  \<^item> The request on the wire: what the encoder writes is read back by the specification's reader
    (\<open>begin_request_wire_roundtrip\<close>, \<open>get_request_on_the_wire\<close>, \<open>post_request_on_the_wire\<close>), with the exact conditions under which the
    buffer overflows or a length does not fit (\<open>get_request_overflow_iff\<close>, \<open>post_buffer_size\<close>,
    \<open>params_record_announces_mod_65536\<close>); the encoder never fails in another way (\<open>encoder_type_safe\<close>).
  \<^item> The response: however the stream is cut, the decoder gives the output of its records
    (\<open>decoder_roundtrip\<close>, \<open>decoder_output_of_chunks\<close>), except when a chunk ends inside the rest of a
    padding, the only way to crash it (\<open>decoder_only_crash\<close>, \<open>padding_cut_twice_crashes\<close>).
  \<^item> The server: the invariant of the reachable states (\<open>requests_and_connections_match\<close>,
    \<open>pool_and_queue_bounded\<close>, \<open>no_connection_lost\<close>), and the refinement of a dispatcher that knows only
    which requests are served and which ones wait (\<open>request_arrives\<close>, \<open>request_finishes\<close>), from which
    a request that waits gets its turn in every run with enough ends of requests (\<open>waiting_request_is_served\<close>). The
    bounds are the settings: a thread has \<open>max_connections / 6\<close> connections (\<open>pool_size\<close>) and \<open>request_queue_size\<close> places for requests
    that wait (\<open>queue_size\<close>), both taken as \<open>uint\<close>, so that a setting of -6 and less gives a pool of about 2^32.
  \<^item> The threads: each is a server, undisturbed by the others (\<open>threads_refine_servers\<close>), and what is at work on one
    is in no other's pool or queue (\<open>threads_share_nothing\<close>).
  \<^item> All of it at once: \<open>get_request_served\<close> runs a request through hook, connection, encoder, wire,
    decoder and back into the pool, with the full list of the calls of Traffic Server.
  \<^item> What goes wrong: requests lost or answered with another one's response after aborts, reconnects and
    closed connections, an empty pool for settings from -5 to 5, settings that are ignored or crash the parser.
    These theorems show that the code does so, from the states they name.
  \<^item> Configuru: what the JSON writer writes, the parser reads as the same value (\<open>json_roundtrip\<close>); without
    macros the parser ends on every text (\<open>parser_terminates\<close>), with them it may not
    (\<open>self_include_never_ends\<close>); what it returns is well formed (\<open>parsed_value_well_formed\<close>), escapes are UTF-8
    (\<open>escapes_become_utf8\<close>). Objects refine maps (\<open>object_refines_map\<close>) and keep the order of their keys
    (\<open>members_written_as_added\<close>), conversions check the range (\<open>as_integer_in_range\<close>), what is
    serialized is deserialized, for the types that have a \<open>deserialize\<close>: it takes arrays of fixed size only of
    arithmetic types (\<open>deserializable\<close>, \<open>serialize_roundtrip\<close>). Arrays are compared
    by length only (\<open>deep_eq_ignores_elements\<close>), and some strings and keys are written in a form that the
    parser rejects (\<open>null_character_is_not_read_back\<close>, \<open>keyword_key_is_not_read_back\<close>).
  \<^item> Configuru in memory: programs read and free nothing that was freed, and the counters stay exact
    (\<open>programs_are_memory_safe\<close>), as long as no whole value is assigned from a part of another one, since
    \<open>c = c["key"]\<close> frees \<open>c\<close> before it reads the member (\<open>assigning_own_member_reads_freed\<close>); only values that contain
    themselves leak (\<open>only_cycles_leak\<close>, \<open>moving_own_member_leaks\<close>). A change of an object is one for all that share it
    and for nobody else (\<open>changes_are_shared\<close>), a clone shares nothing (\<open>deep_clone_is_independent\<close>), and
    \<open>deep_eq\<close> answers as for trees (\<open>deep_eq_in_memory\<close>).

  \<^bold>\<open>Parameters.\<close> Code that is not in the repository is an argument of the model: the HTTP request of a
  transaction (\<open>ats_request\<close>), Traffic Server's MIME parser (\<open>env_mime\<close>: a function from the
  bytes of a header to error, more, or the printed blocks and the status), the text \<open>HTTP/1.1\<close>
  it prints, the outcome of its I/O calls (\<open>ats_io\<close>: closed or not, operation made or not, number of
  bytes accepted), the results of \<open>pthread_key_create\<close> and \<open>pthread_setspecific\<close>, the statistics interface
  (\<open>stat_api\<close>), the files (a function from names to lists of lines), time and thread ids, and
  the contents of uninitialised memory (\<open>junk\<close>), for all values of which the theorems hold. The pattern
  \<open>.*\<close> of \<open>std::regex\<close> is modelled from its meaning, \<open>url_match\<close>. For Configuru the numbers of type
  \<open>double\<close> are a type variable, with the record \<open>floats\<close> of the operations of C on them, and a file is
  what a function from paths gives, its contents or an error; what the library \<open>visit_struct\<close> gives for a
  struct is the list of its members (\<open>CStruct\<close>).

  \<^bold>\<open>Integers and loops.\<close> \<open>uchar\<close>, \<open>uint\<close> and \<open>unsigned short\<close> are words of 8, 32 and 16 bits and wrap;
  an \<open>int\<close> is an integer whose overflow is a crash. There is one exception: the \<open>int\<close> \<open>len\<close> of
  \<open>createBeginRequest\<close>, the length of the variables, is counted modulo 2^32 (\<open>params_length\<close>), and its overflow, from
  2^31 bytes of variables on, is not modelled. All loops are total functions: structural, or with the
  measure \<open>length\<close> of the bytes that are left (\<open>process_loop\<close>, \<open>records_of\<close>, \<open>read_all\<close>). The
  plugin needs no fuel; the loop that waits for thread data may run for ever, so \<open>setup_loop\<close> takes the list of
  the outcomes of its calls and is \<open>None\<close> when none succeeds (\<open>setup_loop_returns_iff\<close>). A step that may
  take a request id asks for \<open>ids_left\<close>: the counter does not wrap with the next id, which is enough
  since a handler takes at most one; after 2^32 requests ids would be used again.
  The parser of Configuru calls itself for nested values and for included files, which need not end: its
  functions take fuel, one unit for each element of an array or object and for each level, and give
  \<open>OutOfFuel\<close> when it is used up. One unit more than the text has characters is enough without
  macros (\<open>parser_terminates\<close>). In memory an object may contain itself, so \<open>h_deep_clone\<close> and \<open>h_deep_eq\<close>
  take fuel; the depth of the tree is enough. A counter of references wraps at 2^32: \<open>room\<close> bounds the number of references, and
  \<open>program_cost\<close> is how many a program makes at most.

  \<^bold>\<open>Concurrency.\<close> \<open>threadKey\<close> is \<open>thread_local\<close>: each event thread has a key, a pool and a queue of its own; the table,
  the counter of ids, the heaps and the statistics are shared. In \<open>Threads\<close> a handler is one step on any thread. That is enough
  to see every order of handlers, but not two of them at once: the mutexes around the table and the counter make each access to
  them whole and are not modelled, and of the objects and the table a handler touches only the part of its own thread
  (\<open>Thread_Frame\<close>). Seen from one thread the others are
  the \<open>interference\<close> under which everything about \<open>reachable\<close> is proved, and \<open>threads_refine_servers\<close> shows that they do no more.
  It is taken from Traffic Server that the events of a connection come on the thread that opened it, and
  what happens to a transaction on the thread of its request. A thread key is not 0 (the code takes 0 for none).

  \<^bold>\<open>Not modelled.\<close> in \<open>configuru.hpp\<close>, the heap block that a \<open>std::string\<close> of a \<open>Config\<close> lies in (it belongs to
  that \<open>Config\<close> alone), the destruction of temporaries when an exception ends a program, the reallocation of the elements of a
  vector (a place is an array and an index), and the system calls that read and write files. Parser and writer work on trees;
  a value that two \<open>#include\<close>s of a file share is one tree twice. Members of an object with the same number, which there are only after an
  \<open>erase\<close>, are written in the order of their keys (\<open>write_order\<close>), while \<open>std::sort\<close> may take any order of them. Elsewhere,
  \<open>printFCGIRequestHeaders\<close>, \<open>print_bytes\<close>, \<open>TSDebug\<close> and \<open>TSError\<close>, which only print (the messages of the
  configuration parser are kept as \<open>log_entry\<close>); the counters of Traffic Server's VIOs
  (\<open>TSVIONDoneSet\<close>, \<open>TSIOBufferReaderConsume\<close>); the destructors of pool, queue and profiler, which nothing
  runs; examples, scripts and build files.
\<close>

section \<open>A request from the client to the wire\<close>

text \<open>C2: From the client to the wire. A connection was just made for a request that is not a POST, and
  nothing is written to it yet; the CGI variables of the request, as encoded, have at most 4968 bytes (with
  more the request overflows its buffer, C35); and Traffic Server has the connection open, makes the
  write operation and accepts every byte. Then the two calls of Traffic Server, the header and the end of the
  input, both return and write to the backend a stream that a reader of the FastCGI specification splits into
  exactly the begin record, the record with all CGI variables of the request, the end of the variables, and
  the empty body, all with the id of the request; the request is marked as read, and the connection as
  written.\<close>

theorem get_request_on_the_wire:
  assumes "icpts w i = Some icpt" "intercept_list w (si_request_id icpt) = Some (i, c)"
    and "conns w c = Some conn" "vc_ptr conn = Some v" "fcgiRequest conn = Some fr"
    and "new_request junk cfg rq (si_request_id icpt) = Inr fr" "rq_method rq \<noteq> ''POST''"
    and "length (params_bytes (requestHeaders (fr_state fr))) \<le> 4968"
    and "writeio conn = new_channel"
    and "\<not> vconn_closed io" "vio_made io" "accepted io = (\<lambda>n. n)"
  shows "\<exists>w1 w2 conn2 icpt2 out. consume io i data REQUEST_HEADER w = Inr w1 \<and>
    handleInputComplete io i w1 = Inr w2 \<and> conns w2 c = Some conn2 \<and> icpts w2 i = Some icpt2 \<and>
    iobuf (writeio conn2) = Some out \<and>
    read_all read_record out = Some (begin_records (si_request_id icpt) (requestHeaders (fr_state fr)) @
      [wire_record FCGI_STDIN (si_request_id icpt) []]) \<and>
    readEnable (writeio conn2) \<and> inputCompleteState icpt2"
  using get_request_written [OF assms, of data] by (auto simp: set_icpt_def ats_def set_conn_def)

lemma name_value_length: "length (name_value_bytes (a, b)) \<le> 8 + length a + length b"
  by (auto simp: name_value_bytes_def Let_def len_bytes_def)

lemma params_length_bound: "length (params_bytes m) \<le> sum_list (map (\<lambda>(a, b). 8 + length a + length b) m)"
  unfolding params_bytes_def by (induction m) (auto intro!: add_mono name_value_length)

lemma sample_params_fit:
  "case GenerateFcgiRequestHeaders default_config sample_request of
     Inr m \<Rightarrow> sum_list (map (\<lambda>(a, b). 8 + length a + length b) m) \<le> 4968 | Inl e \<Rightarrow> False"
  by code_simp

definition connected_world :: "FCGIClientRequest \<Rightarrow> world" where
  "connected_world fr = (busy_world 9 [])\<lparr>
     conns := [0 \<mapsto> (busy_conn 9)\<lparr>writeio := new_channel, fcgiRequest := Some fr\<rparr>]\<rparr>"

theorem get_request_on_the_wire_witness:
  "\<exists>fr w1 w2 conn2 out. consume good_io 5 [] REQUEST_HEADER (connected_world fr) = Inr w1 \<and>
    handleInputComplete good_io 5 w1 = Inr w2 \<and> conns w2 0 = Some conn2 \<and>
    iobuf (writeio conn2) = Some out \<and>
    read_all read_record out = Some (begin_records 1 (requestHeaders (fr_state fr)) @
      [wire_record FCGI_STDIN 1 []])"
proof -
  obtain fr where fr: "new_request 0 default_config sample_request 1 = Inr fr"
    using sample_new_request by auto
  then have "new_client_state 0 default_config sample_request 1 = Inr (fr_state fr)"
    by (auto simp: new_request_def bindE_eq_Inr)
  from new_client_state_get [OF this] sample_params_fit
    params_length_bound [of "requestHeaders (fr_state fr)"]
  have "length (params_bytes (requestHeaders (fr_state fr))) \<le> 4968"
    by (simp add: sample_request_def)
  with get_request_on_the_wire [of "connected_world fr" 5 "sample_icpt 11 1" 0
      "(busy_conn 9)\<lparr>writeio := new_channel, fcgiRequest := Some fr\<rparr>" 7 fr 0 default_config sample_request
      good_io "[]"] fr
  have "\<exists>w1 w2 conn2 icpt2 out. consume good_io 5 [] REQUEST_HEADER (connected_world fr) = Inr w1 \<and>
    handleInputComplete good_io 5 w1 = Inr w2 \<and> conns w2 0 = Some conn2 \<and> icpts w2 5 = Some icpt2 \<and>
    iobuf (writeio conn2) = Some out \<and>
    read_all read_record out = Some (begin_records 1 (requestHeaders (fr_state fr)) @
      [wire_record FCGI_STDIN 1 []]) \<and> readEnable (writeio conn2) \<and> inputCompleteState icpt2"
    by (simp add: connected_world_def good_io_def sample_request_def)
  then show ?thesis by blast
qed

text \<open>C3: The same for a POST whose body comes in one piece. The buffer of the request has 5000 bytes and as many
  more as the client announced with Content-Length; the header of the request with its CGI variables (32 bytes
  and the variables, as encoded) has to fit into it, and so has the body with its two record headers (16 bytes
  and the body), whatever length was announced. Variables and body have less than 65536 bytes each,
  the largest length a record can announce, the announced length is below 2^30 - 5000, the connection
  was just made and is open, and its write operation is made and accepts every byte. Then the header, the body
  and the end of the input, each call returns, together write the begin record, the CGI variables and
  the body, all with the id of the request, and nothing else.\<close>

theorem post_request_on_the_wire:
  assumes "icpts w i = Some icpt" "intercept_list w (si_request_id icpt) = Some (i, c)"
    and "conns w c = Some conn" "vc_ptr conn = Some v" "fcgiRequest conn = Some fr"
    and "new_request junk cfg rq (si_request_id icpt) = Inr fr" "rq_method rq = ''POST''"
    and "announced_length rq < 2 ^ 30 - 5000"
    and "32 + int (length (params_bytes (requestHeaders (fr_state fr)))) \<le> 5000 + announced_length rq"
    and "16 + int (length body) \<le> 5000 + announced_length rq"
    and "length (params_bytes (requestHeaders (fr_state fr))) < 65536" "length body < 65536"
    and "writeio conn = new_channel"
    and "\<not> vconn_closed io" "vio_made io" "accepted io = (\<lambda>n. n)"
  shows "int (length (buff (fr_state fr))) = 5000 + announced_length rq \<and>
    (\<exists>w1 w2 w3 conn3 icpt3 out. consume io i data REQUEST_HEADER w = Inr w1 \<and>
      consume io i body REQUEST_BODY w1 = Inr w2 \<and> handleInputComplete io i w2 = Inr w3 \<and>
      conns w3 c = Some conn3 \<and> icpts w3 i = Some icpt3 \<and> iobuf (writeio conn3) = Some out \<and>
      read_all read_record out = Some (begin_records (si_request_id icpt) (requestHeaders (fr_state fr)) @
        stdin_records (si_request_id icpt) body) \<and>
      readEnable (writeio conn3) \<and> inputCompleteState icpt3)"
proof -
  have "new_client_state junk cfg rq (si_request_id icpt) = Inr (fr_state fr)"
    using assms(6) by (auto simp: new_request_def bindE_eq_Inr)
  from new_client_state_post_length [OF this assms(7)]
  have n: "int (length (buff (fr_state fr))) = 5000 + announced_length rq" .
  have small: "length (buff (fr_state fr)) < 2 ^ 30" using n assms(8) by simp
  have fits: "32 + length (params_bytes (requestHeaders (fr_state fr))) \<le> length (buff (fr_state fr))"
    "16 + length body \<le> length (buff (fr_state fr))" using n assms(9,10) by simp_all
  from post_request_written [OF assms(1-7) refl small fits assms(11-16), of data] n
  show ?thesis by (auto simp: set_icpt_def ats_def set_conn_def)
qed

lemma sample_post_length: "announced_length (sample_post ''3'') = 3"
  by code_simp

lemma sample_post_fits:
  "case new_client_state 0 default_config (sample_post ''3'') 1 of
     Inr st \<Rightarrow> length (params_bytes (requestHeaders st)) \<le> 4900 | Inl e \<Rightarrow> False"
  by code_simp

theorem post_request_on_the_wire_witness:
  "\<exists>fr w1 w2 w3 conn3 out. consume good_io 5 [] REQUEST_HEADER (connected_world fr) = Inr w1 \<and>
    consume good_io 5 ''a=b'' REQUEST_BODY w1 = Inr w2 \<and> handleInputComplete good_io 5 w2 = Inr w3 \<and>
    conns w3 0 = Some conn3 \<and> iobuf (writeio conn3) = Some out \<and>
    read_all read_record out = Some (begin_records 1 (requestHeaders (fr_state fr)) @ stdin_records 1 ''a=b'')"
proof -
  from sample_post_fits obtain st where
    st: "new_client_state 0 default_config (sample_post ''3'') 1 = Inr st"
      "length (params_bytes (requestHeaders st)) \<le> 4900"
    by (auto split: sum.splits)
  define fr where "fr = \<lparr>fr_state = st, postData = [], fr_response = new_response\<rparr>"
  have fr: "new_request 0 default_config (sample_post ''3'') 1 = Inr fr" "fr_state fr = st"
    using st(1) by (simp_all add: new_request_def fr_def)
  from post_request_on_the_wire [of "connected_world fr" 5 "sample_icpt 11 1" 0
      "(busy_conn 9)\<lparr>writeio := new_channel, fcgiRequest := Some fr\<rparr>" 7 fr 0 default_config "sample_post ''3''"
      "''a=b''" good_io "[]"] st fr sample_post_length
  have "\<exists>w1 w2 w3 conn3 icpt3 out. consume good_io 5 [] REQUEST_HEADER (connected_world fr) = Inr w1 \<and>
    consume good_io 5 ''a=b'' REQUEST_BODY w1 = Inr w2 \<and> handleInputComplete good_io 5 w2 = Inr w3 \<and>
    conns w3 0 = Some conn3 \<and> icpts w3 5 = Some icpt3 \<and> iobuf (writeio conn3) = Some out \<and>
    read_all read_record out = Some (begin_records 1 (requestHeaders (fr_state fr)) @ stdin_records 1 ''a=b'') \<and>
    readEnable (writeio conn3) \<and> inputCompleteState icpt3"
    by (simp add: connected_world_def good_io_def sample_post_def)
  then show ?thesis by blast
qed


section \<open>A request from the hook to its response\<close>

text \<open>C1: The life of a request without a body. The thread of a reachable state has its data, its pool has room
  and nobody waits; the request is not a POST, the cache has no fresh answer for it and its path has no line
  break; the address of the backend in the settings can be read, the request object can be made, its CGI
  variables have, as encoded, at most 4968 bytes (with more they overflow the buffer, C35), and
  a connection may serve more than one request. Traffic Server has the connection open, makes the operations it is asked for and
  accepts every byte. The response consists of well formed records without padding (a padding that is cut twice
  crashes the decoder, C31), of which only the last one, with a content, may be an error text or the end of the request, and
  it comes in one event, cut into blocks in any way, none of them empty.

  Then every handler returns. The hook takes the request and opens a connection; when the connection is there,
  Traffic Server is told to go on; the header and the end of the input put exactly the FastCGI request on the
  wire; the response goes to the client as the records say, and the client's output is
  closed. These are all the calls of Traffic Server there are, in this order. In the end the
  connection is idle in the pool, and the same requests are served as before.\<close>

theorem get_request_served:
  assumes "reachable env w" "tdata w = Some td"
    and "ats_handle tr = Some t" "\<not> cache_hit_fresh tr"
    and "\<forall>c\<in>set (url_path tr). c \<noteq> CHR 0x0A \<and> c \<noteq> CHR 0x0D"
    and "length (connections (pool td)) < unat (maxConn (pool td))"
    and "pending_list (pendingReqQueue td) = []"
    and "server_address (env_junk16 env) (env_cfg env) = Inr (addr, port)"
    and "new_request (env_junk env) (env_cfg env) (env_requests env t) (next_id w) = Inr fr"
    and "rq_method (env_requests env t) \<noteq> ''POST''"
    and "length (params_bytes (requestHeaders (fr_state fr))) \<le> 4968"
    and "1 < max_requests (new_connection (env_cfg env))"
    and "\<not> vconn_closed io" "vio_made io" "accepted io = (\<lambda>n. n)"
    and "\<forall>x\<in>set xs. record_ok x \<and> snd (snd x) = []" "xs \<noteq> []" "fst (snd (last xs)) \<noteq> []"
    and "\<forall>x\<in>set (butlast xs). h_type (fst x) \<noteq> FCGI_STDERR \<and> h_type (fst x) \<noteq> FCGI_END_REQUEST"
    and "concat chunks = concat (map record_bytes xs)" "[] \<notin> set chunks"
    and "respond (env_mime env) (env_http_1_1 env) True xs = (True, body)"
    and "i = next_addr w" "c = Suc i"
  shows "\<exists>w1 w2 w3 w4 w5 w6 conn out td'.
    handleReadCacheLookupComplete env rs tr self w = Some (Inr w1) \<and>
    handlePHPConnectionEvents env io (NET_CONNECT v) c w1 = Inr w2 \<and>
    consume io i data REQUEST_HEADER w2 = Inr w3 \<and>
    handleInputComplete io i w3 = Inr w4 \<and>
    conns w4 c = Some conn \<and> iobuf (writeio conn) = Some out \<and>
    read_all read_record out = Some (begin_records (next_id w) (requestHeaders (fr_state fr)) @
      [wire_record FCGI_STDIN (next_id w) []]) \<and>
    handlePHPConnectionEvents env io VCONN_WRITE_READY c w4 = Inr w5 \<and>
    handlePHPConnectionEvents env io (VCONN_READ_READY chunks) c w5 = Inr w6 \<and>
    calls w6 = calls w @ [NetConnect c addr port, AddPlugin t i, Resume t, VConnWrite v, VIOReenable v,
      VConnRead v] @ (if body = [] then [] else [Produce i body]) @ [SetOutputComplete i] \<and>
    tdata w6 = Some td' \<and> available_connections (pool td') = available_connections (pool td) @ [c] \<and>
    dispatch w6 td' = dispatch w td"
proof -
  have inv: "server_inv w" by (rule reachable_inv [OF assms(1)])
  have key: "threadKey w \<noteq> 0" using server_invD(6) [OF inv] assms(2) by simp
  have none: "intercept_list w (next_id w) = None"
    using server_invD(1) [OF inv, of "next_id w"]
    by (cases "intercept_list w (next_id w)") (auto simp: entry_ok_def)
  define w1 where "w1 = after_hook env t addr port td w"
  let ?rid = "next_id w" and ?icpt = "(new_intercept (env_junk32 env) t)\<lparr>si_request_id := next_id w\<rparr>"
    and ?conn = "(new_connection (env_cfg env))\<lparr>requestId := next_id w, contp := True\<rparr>"
  have w1: "handleReadCacheLookupComplete env rs tr self w = Some (Inr w1)"
    unfolding w1_def by (rule hook_run [OF assms(2) key assms(3-6,8)])
  have s1: "conns w1 c = Some ?conn" "intercept_list w1 = (intercept_list w)(?rid \<mapsto> (i, c))"
    "icpts w1 i = Some ?icpt" "calls w1 = calls w @ [NetConnect c addr port]"
    "tdata w1 = Some (td\<lparr>pool := addConnection c (pool td)\<rparr>)"
    by (simp_all add: w1_def after_hook_def Let_def TSStatIntIncrement_def assms(23,24))
  have t: "txn ?icpt = t" "requestId ?conn = ?rid" "si_request_id ?icpt = ?rid"
    by (simp_all add: new_intercept_def)
  let ?conn2 = "connected v fr ?conn"
  define w2 where "w2 = ats [AddPlugin t i, Resume t] (set_conn c ?conn2 (TSStatIntIncrement phpConnCount 1 w1))"
  have w2: "handlePHPConnectionEvents env io (NET_CONNECT v) c w1 = Inr w2"
    using net_connect_run [OF s1(1) _ s1(3), of c env fr io v] s1(2) t assms(9) by (simp add: w2_def)
  have s2: "icpts w2 i = Some ?icpt" "intercept_list w2 (si_request_id ?icpt) = Some (i, c)"
    "conns w2 c = Some ?conn2" "vc_ptr ?conn2 = Some v" "fcgiRequest ?conn2 = Some fr"
    "writeio ?conn2 = new_channel" "readio ?conn2 = new_channel"
    using s1 t by (simp_all add: w2_def ats_def set_conn_def TSStatIntIncrement_def connected_def
        new_connection_def)
  have rq: "new_request (env_junk env) (env_cfg env) (env_requests env t) (si_request_id ?icpt) = Inr fr"
    using assms(9) t by simp
  from get_request_written [OF s2(1-5) rq assms(10,11) s2(6) assms(13-15), of data]
  obtain w3 fr2 ch out where
    w3: "consume io i data REQUEST_HEADER w2 = Inr w3"
    and w4: "handleInputComplete io i w3 = Inr (set_icpt i (?icpt\<lparr>inputCompleteState := True\<rparr>)
      (ats [VConnWrite v, VIOReenable v] (set_conn c (?conn2\<lparr>fcgiRequest := Some fr2, writeio := ch\<rparr>) w2)))"
    and ch: "fr_response fr2 = fr_response fr" "vio ch" "readEnable ch" "iobuf ch = Some out"
    and wire: "read_all read_record out = Some (begin_records ?rid (requestHeaders (fr_state fr)) @
      [wire_record FCGI_STDIN ?rid []])" unfolding t by blast
  let ?conn4 = "?conn2\<lparr>fcgiRequest := Some fr2, writeio := ch\<rparr>" and ?icpt4 = "?icpt\<lparr>inputCompleteState := True\<rparr>"
  define w4 where "w4 = set_icpt i ?icpt4 (ats [VConnWrite v, VIOReenable v] (set_conn c ?conn4 w2))"
  define w5 where "w5 = ats [VConnRead v] (set_conn c (reading ?conn4) (TSStatIntIncrement reqEndId 1 w4))"
  have c4: "conns w4 c = Some ?conn4" by (simp add: w4_def set_icpt_def ats_def set_conn_def)
  have w5: "handlePHPConnectionEvents env io VCONN_WRITE_READY c w4 = Inr w5"
    using write_ready_run [OF c4, of v io env] ch s2(4,7) assms(13,14) by (simp add: w5_def new_channel_def)
  let ?conn5 = "reading ?conn4"
  have s5: "conns w5 c = Some ?conn5" "iobuf (readio ?conn5) \<noteq> None" "vio (readio ?conn5)"
    "intercept_list w5 (requestId ?conn5) = Some (i, c)" "icpts w5 i = Some ?icpt4"
    "si_request_id ?icpt4 = requestId ?conn5" "tdata w5 = Some (td\<lparr>pool := addConnection c (pool td)\<rparr>)"
    "req_count ?conn5 < max_requests ?conn5"
    using s1 t assms(12)
    by (simp_all add: w5_def w4_def w2_def reading_def connected_def set_icpt_def ats_def set_conn_def
        TSStatIntIncrement_def new_connection_def)
  have "fr_response fr2 = new_response"
    using ch(1) assms(9) by (auto simp: new_request_def bindE_eq_Inr)
  from transfer_stream [OF this assms(16-21), of env] obtain resp where
    tr: "transfer_blocks env chunks False 0 [] (fcgiRequest ?conn5) =
      Inr (True, int (length (concat chunks)), body, Some (fr2\<lparr>fr_response := resp\<rparr>))"
    using assms(22) by (auto simp: reading_def)
  note w6 = finished_response_run [OF s5(1-3) tr s5(4-8), of io]
  have "(intercept_list w)(?rid := None) = intercept_list w" using none by (auto simp: fun_eq_iff)
  then show ?thesis
    using w1 w2 w3 w4 [folded w4_def] c4 ch(4) wire w5 w6 assms(7) s1(2,4) t
    by (simp add: w5_def w4_def w2_def reading_def connected_def after_response_def set_icpt_def ats_def
        set_conn_def TSStatIntIncrement_def dispatch_def served_def addConnection_def)
qed

text \<open>The first request of the thread loses its connection: the pool has room and nobody waits.\<close>

lemma thread_at_rest:
  "\<exists>w td. reachable sample_env w \<and> tdata w = Some td \<and> connections (pool td) = [] \<and>
     maxConn (pool td) = 1 \<and> pending_list (pendingReqQueue td) = [] \<and> next_id w = 2 \<and>
     next_addr w = 2 \<and> available_connections (pool td) = []"
proof -
  from first_request_run obtain w td icpt conn where
    run: "handleReadCacheLookupComplete sample_env [KeyCreated 1] first_request 11 initial_world = Some (Inr w)"
    and w: "intercept_list w = [1 \<mapsto> (0, 1)]" "tdata w = Some td" "connections (pool td) = [1]"
      "available_connections (pool td) = []" "maxConn (pool td) = 1"
      "pendingReqQueue td = new_queue default_config" "next_addr w = 2" "next_id w = 2"
      "icpts w 0 = Some icpt" "txn icpt = 11" "conns w 1 = Some conn" "contp conn" "requestId conn = 1"
    by auto
  have "server_step sample_env initial_world w"
    by (rule step_request [OF ids_left_initial _ run]) simp
  then have r: "reachable sample_env w" by (rule reachable_step [OF reachable_initial])
  have ids: "ids_left w" using w(8) by (simp add: ids_left_def)
  obtain fr where fr: "new_request 0 default_config sample_request 1 = Inr fr"
    using sample_new_request by auto
  define w2 where "w2 = ats [AddPlugin 11 0, Resume 11]
    (set_conn 1 (connected 7 fr conn) (TSStatIntIncrement phpConnCount 1 w))"
  have "handlePHPConnectionEvents sample_env good_io (NET_CONNECT 7) 1 w = Inr w2"
    using net_connect_run [OF w(11) _ w(9), of 1 sample_env fr good_io 7] w fr by (simp add: w2_def)
  then have r2: "reachable sample_env w2"
    by (rule reachable_step [OF r step_event [OF ids w(11,12)]])
  have w2: "conns w2 1 = Some (connected 7 fr conn)" "contp (connected 7 fr conn)" "ids_left w2"
    using w ids by (simp_all add: w2_def ats_def set_conn_def connected_def TSStatIntIncrement_def ids_left_def)
  have "\<exists>w3 td3. handlePHPConnectionEvents sample_env good_io NET_ERROR 1 w2 = Inr w3 \<and>
    tdata w3 = Some td3 \<and> connections (pool td3) = [] \<and> maxConn (pool td3) = 1 \<and>
    pendingReqQueue td3 = pendingReqQueue td \<and> next_id w3 = 2 \<and> next_addr w3 = 2 \<and>
    available_connections (pool td3) = []"
    using w by (simp add: w2_def handlePHPConnectionEvents_def on_error_def connected_def ats_def set_conn_def
        TSStatIntIncrement_def getIntercept_def setState_def connectionClosed_def erase_entry_def
        pool_connectionClosed_def delete_connection_def Let_def)
  then obtain w3 td3 where "handlePHPConnectionEvents sample_env good_io NET_ERROR 1 w2 = Inr w3"
    and w3: "tdata w3 = Some td3" "connections (pool td3) = []" "maxConn (pool td3) = 1"
      "pendingReqQueue td3 = pendingReqQueue td" "next_id w3 = 2" "next_addr w3 = 2"
      "available_connections (pool td3) = []" by blast
  then have "reachable sample_env w3" using reachable_step [OF r2 step_event [OF w2(3,1,2)]] by blast
  with w3 w(6) show ?thesis
    by (intro exI [of _ w3] exI [of _ td3]) (simp add: new_queue_def)
qed

theorem get_request_served_witness:
  "\<exists>w fr w1 w2 w3 w4 w5 w6 td'. reachable sample_env w \<and>
    handleReadCacheLookupComplete sample_env [] first_request 11 w = Some (Inr w1) \<and>
    handlePHPConnectionEvents sample_env good_io (NET_CONNECT 8) 3 w1 = Inr w2 \<and>
    consume good_io 2 [] REQUEST_HEADER w2 = Inr w3 \<and> handleInputComplete good_io 2 w3 = Inr w4 \<and>
    handlePHPConnectionEvents sample_env good_io VCONN_WRITE_READY 3 w4 = Inr w5 \<and>
    handlePHPConnectionEvents sample_env good_io (VCONN_READ_READY sample_chunks) 3 w5 = Inr w6 \<and>
    calls w6 = calls w @ [NetConnect 3 [127, 0, 0, 1] [234, 96], AddPlugin 11 2, Resume 11, VConnWrite 8,
      VIOReenable 8, VConnRead 8, Produce 2 (str_bytes ''hi''), SetOutputComplete 2] \<and>
    tdata w6 = Some td' \<and> available_connections (pool td') = [3]"
proof -
  from thread_at_rest obtain w td where
    w: "reachable sample_env w" "tdata w = Some td" "connections (pool td) = []" "maxConn (pool td) = 1"
      "pending_list (pendingReqQueue td) = []" "next_id w = 2" "next_addr w = 2"
      "available_connections (pool td) = []" by blast
  obtain fr where fr: "new_request 0 default_config sample_request 2 = Inr fr"
    using sample_new_request by auto
  then have "new_client_state 0 default_config sample_request 2 = Inr (fr_state fr)"
    by (auto simp: new_request_def bindE_eq_Inr)
  from new_client_state_get [OF this] sample_params_fit
    params_length_bound [of "requestHeaders (fr_state fr)"]
  have len: "length (params_bytes (requestHeaders (fr_state fr))) \<le> 4968"
    by (simp add: sample_request_def)
  have max: "1 < max_requests (new_connection default_config)"
    by (simp add: new_connection_def default_config_def getMaxReqLength_def)
  have "server_address (env_junk16 sample_env) (env_cfg sample_env) = Inr ([127, 0, 0, 1], [234, 96])"
    using local_address by (simp add: sample_env_def)
  with get_request_served [of sample_env w td first_request 11 _ _ fr good_io sample_stream sample_chunks
      "str_bytes ''hi''" 2 3 "[]" 11 8 "[]"] w fr len max sample_stream_ok
    sample_stream_shape sample_stream_response sample_chunks_concat sample_chunks_nonempty
  show ?thesis by (simp add: first_request_def sample_request_def good_io_def) blast
qed

end
